(* ===== verification/Prelude.thy ===== *)
theory Prelude
  imports Complex_Main "HOL-Library.Sublist"
begin

text \<open>
  Shared library of the development: the fact collections, results of fallible code, Python's
  string operations, decoded JSON values with dict access, truthiness and \<open>str\<close>, and the
  text that \<open>json.dumps\<close> writes for a list of strings.

  A Python \<open>str\<close> is a \<^typ>\<open>string\<close>, a list of code points 0 to 255; \<open>bytes\<close> are strings
  too. The character tests below (\<open>str.isspace\<close>, \<open>str.lower\<close>, \<open>str.isdigit\<close>) are exact on
  that range.
\<close>

section \<open>Fact collections\<close>

named_theorems py_simps \<open>unfolding of the small Python operations\<close>
named_theorems inv_intros \<open>operations that keep a component's invariant\<close>

section \<open>Results of fallible code\<close>

text \<open>\<open>Inl e\<close> is a raised exception, \<open>Inr v\<close> a returned value.\<close>

type_synonym ('e, 'a) result = "'e + 'a"

definition bind_res :: "('e, 'a) result \<Rightarrow> ('a \<Rightarrow> ('e, 'b) result) \<Rightarrow> ('e, 'b) result" where
  "bind_res r f = (case r of Inl e \<Rightarrow> Inl e | Inr a \<Rightarrow> f a)"

lemma bind_res_simps [simp]:
  "bind_res (Inl e) f = Inl e" "bind_res (Inr a) f = f a"
  by (simp_all add: bind_res_def)

lemma bind_res_Inr [simp]:
  "bind_res r f = Inr b \<longleftrightarrow> (\<exists>a. r = Inr a \<and> f a = Inr b)"
  by (cases r) simp_all

lemma bind_res_Inl:
  "bind_res r f = Inl e \<longleftrightarrow> r = Inl e \<or> (\<exists>a. r = Inr a \<and> f a = Inl e)"
  by (cases r) auto

text \<open>Python's \<open>for\<close> over a fallible body that builds a list.\<close>

fun map_res :: "('a \<Rightarrow> ('e, 'b) result) \<Rightarrow> 'a list \<Rightarrow> ('e, 'b list) result" where
  "map_res f [] = Inr []"
| "map_res f (x # xs) = bind_res (f x) (\<lambda>y. bind_res (map_res f xs) (\<lambda>ys. Inr (y # ys)))"

lemma map_res_length: "map_res f xs = Inr ys \<Longrightarrow> length ys = length xs"
  by (induction xs arbitrary: ys) auto

section \<open>Strings\<close>

definition ord :: "char \<Rightarrow> nat" where
  "ord c = of_char c"

definition chr :: "nat \<Rightarrow> char" where
  "chr n = char_of n"

lemma ord_less [simp]: "ord c < 256"
  by (simp add: ord_def)

lemma chr_ord [simp]: "chr (ord c) = c"
  by (simp add: ord_def chr_def)

lemma ord_chr [simp]: "n < 256 \<Longrightarrow> ord (chr n) = n"
  by (simp add: ord_def chr_def)

lemma ord_inject [simp]: "ord c = ord d \<longleftrightarrow> c = d"
  by (metis chr_ord)

definition is_space :: "char \<Rightarrow> bool" where
  "is_space c \<longleftrightarrow> (let n = ord c in 9 \<le> n \<and> n \<le> 13 \<or> 28 \<le> n \<and> n \<le> 32 \<or> n = 133 \<or> n = 160)"

definition is_lower_az :: "char \<Rightarrow> bool" where
  "is_lower_az c \<longleftrightarrow> 97 \<le> ord c \<and> ord c \<le> 122"

definition is_upper_az :: "char \<Rightarrow> bool" where
  "is_upper_az c \<longleftrightarrow> 65 \<le> ord c \<and> ord c \<le> 90"

definition is_digit_09 :: "char \<Rightarrow> bool" where
  "is_digit_09 c \<longleftrightarrow> 48 \<le> ord c \<and> ord c \<le> 57"

definition is_hex_lower :: "char \<Rightarrow> bool" where
  "is_hex_lower c \<longleftrightarrow> is_digit_09 c \<or> 97 \<le> ord c \<and> ord c \<le> 102"

lemmas char_class_defs =
  is_lower_az_def is_upper_az_def is_digit_09_def is_hex_lower_def

definition lstrip :: "string \<Rightarrow> string" where
  "lstrip s = dropWhile is_space s"

definition strip :: "string \<Rightarrow> string" where
  "strip s = rev (dropWhile is_space (rev (dropWhile is_space s)))"

definition strip_char :: "char \<Rightarrow> string \<Rightarrow> string" where
  "strip_char c s = rev (dropWhile (\<lambda>x. x = c) (rev (dropWhile (\<lambda>x. x = c) s)))"

definition lower_char :: "char \<Rightarrow> char" where
  "lower_char c =
     (let n = ord c
      in if is_upper_az c \<or> 192 \<le> n \<and> n \<le> 222 \<and> n \<noteq> 215 then chr (n + 32) else c)"

definition lower :: "string \<Rightarrow> string" where
  "lower s = map lower_char s"

text \<open>\<open>s.startswith(p)\<close> is \<open>prefix p s\<close>; \<open>find_sub\<close> splits at the first occurrence.\<close>

fun find_sub :: "string \<Rightarrow> string \<Rightarrow> (string \<times> string) option" where
  "find_sub pat s =
     (if prefix pat s then Some ([], drop (length pat) s)
      else case s of
        [] \<Rightarrow> None
      | c # cs \<Rightarrow> map_option (\<lambda>(a, b). (c # a, b)) (find_sub pat cs))"

declare find_sub.simps [simp del]

definition contains :: "string \<Rightarrow> string \<Rightarrow> bool" where
  "contains pat s \<longleftrightarrow> find_sub pat s \<noteq> None"

lemma find_sub_Some: "find_sub pat s = Some (a, b) \<Longrightarrow> s = a @ pat @ b"
proof (induction s arbitrary: a b)
  case Nil
  then show ?case by (auto simp: find_sub.simps [of pat "[]"] split: if_splits)
next
  case (Cons c cs)
  then show ?case
    by (auto simp: find_sub.simps [of pat "c # cs"] prefix_def split: if_splits)
qed

lemma find_sub_length:
  "find_sub pat s = Some (a, b) \<Longrightarrow> length s = length a + length pat + length b"
  by (drule find_sub_Some) simp

text \<open>The split is at the first occurrence: no earlier suffix starts with the pattern.\<close>

lemma find_sub_None: "find_sub pat s = None \<Longrightarrow> s \<noteq> a @ pat @ b"
proof (induction s arbitrary: a)
  case Nil
  then show ?case by (auto simp: find_sub.simps [of pat "[]"] split: if_splits)
next
  case (Cons c cs)
  then show ?case
    by (cases a) (auto simp: find_sub.simps [of pat "c # cs"] prefix_def split: if_splits)
qed

lemma contains_iff: "contains pat s \<longleftrightarrow> (\<exists>a b. s = a @ pat @ b)"
  unfolding contains_def by (metis find_sub_None find_sub_Some option.exhaust prod.exhaust)

lemma find_sub_free:
  assumes "pat = p # ps" and "p \<notin> set a"
  shows "find_sub pat (a @ pat @ b) = Some (a, b)"
  using assms(2)
proof (induction a)
  case Nil
  show ?case unfolding assms(1) by (subst find_sub.simps) simp
next
  case (Cons c cs)
  then have "\<not> prefix pat (c # cs @ pat @ b)" using assms(1) by auto
  with Cons show ?case by (simp add: find_sub.simps [of pat "c # cs @ pat @ b"])
qed

lemma find_sub_absent:
  assumes "pat = p # ps" and "p \<notin> set a"
  shows "find_sub pat a = None"
proof (rule ccontr)
  assume "find_sub pat a \<noteq> None"
  then obtain x y where "a = x @ pat @ y" by (metis find_sub_Some option.exhaust prod.exhaust)
  with assms show False by simp
qed

text \<open>\<open>s.split(c)\<close> for a one-character separator.\<close>

fun split_char :: "char \<Rightarrow> string \<Rightarrow> string list" where
  "split_char sep [] = [[]]"
| "split_char sep (c # cs) =
     (if c = sep then [] # split_char sep cs
      else case split_char sep cs of
        [] \<Rightarrow> [[c]]
      | w # ws \<Rightarrow> (c # w) # ws)"

lemma split_char_not_Nil [simp]: "split_char sep s \<noteq> []"
  by (induction s) (auto split: list.splits)

lemma split_char_free: "w \<in> set (split_char sep s) \<Longrightarrow> sep \<notin> set w"
proof (induction s arbitrary: w)
  case Nil
  then show ?case by simp
next
  case (Cons c cs)
  then show ?case by (cases "split_char sep cs") (auto split: if_splits)
qed

text \<open>\<open>sep.join(ws)\<close>; it inverts \<open>split\<close>.\<close>

fun join :: "string \<Rightarrow> string list \<Rightarrow> string" where
  "join sep [] = []"
| "join sep [w] = w"
| "join sep (w # v # ws) = w @ sep @ join sep (v # ws)"

lemma join_split_char: "join [sep] (split_char sep s) = s"
proof (induction s)
  case Nil
  then show ?case by simp
next
  case (Cons c cs)
  show ?case
  proof (cases "split_char sep cs")
    case Nil
    then show ?thesis by simp
  next
    case (Cons w ws)
    with Cons.IH show ?thesis by (cases ws) auto
  qed
qed

text \<open>Decimal text of an integer, Python's \<open>str(int)\<close>.\<close>

definition digit_char :: "nat \<Rightarrow> char" where
  "digit_char d = chr (48 + d)"

fun nat_str :: "nat \<Rightarrow> string" where
  "nat_str n = (if n < 10 then [digit_char n] else nat_str (n div 10) @ [digit_char (n mod 10)])"

declare nat_str.simps [simp del]

definition int_str :: "int \<Rightarrow> string" where
  "int_str i = (if i < 0 then CHR ''-'' # nat_str (nat (- i)) else nat_str (nat i))"

lemma ord_digit_char: "d < 10 \<Longrightarrow> ord (digit_char d) = 48 + d"
  by (simp add: digit_char_def)

lemma digit_char_inject: "d < 10 \<Longrightarrow> e < 10 \<Longrightarrow> digit_char d = digit_char e \<longleftrightarrow> d = e"
  by (metis add_left_cancel ord_digit_char)

lemma nat_str_not_Nil [simp]: "nat_str n \<noteq> []"
  by (subst nat_str.simps) simp

lemma nat_str_inject: "nat_str m = nat_str n \<Longrightarrow> m = n"
proof (induction m arbitrary: n rule: nat_str.induct)
  case (1 m)
  show ?case
  proof (cases "m < 10")
    case True
    then show ?thesis
      using "1.prems" nat_str_not_Nil [of "n div 10", symmetric]
      by (auto simp: nat_str.simps [of m] nat_str.simps [of n] digit_char_inject split: if_splits)
  next
    case False
    then have "\<not> n < 10" using "1.prems"
      by (auto simp: nat_str.simps [of m] nat_str.simps [of n])
    then have "nat_str (m div 10) = nat_str (n div 10)" "m mod 10 = n mod 10"
      using "1.prems" False
      by (auto simp: nat_str.simps [of m] nat_str.simps [of n] digit_char_inject)
    with "1.IH" [OF False] show ?thesis by (metis div_mult_mod_eq)
  qed
qed

lemma nat_str_digits: "c \<in> set (nat_str n) \<Longrightarrow> is_digit_09 c"
proof (induction n rule: nat_str.induct)
  case (1 n)
  have small: "d < 10 \<Longrightarrow> is_digit_09 (digit_char d)" for d
    by (simp add: ord_digit_char is_digit_09_def)
  from 1 show ?case
    by (auto simp: nat_str.simps [of n] small split: if_splits)
qed

lemma int_str_not_Nil [simp]: "int_str i \<noteq> []"
  by (simp add: int_str_def)

section \<open>Decoded JSON values\<close>

text \<open>
  What \<open>json.loads\<close> returns. A finite float carries its \<open>repr\<close> text beside its value; a dict
  is an association list in insertion order.
\<close>

datatype pyfloat = PyFin string rat | PyInf bool | PyNan

datatype json =
    JNull
  | JBool bool
  | JInt int
  | JFloat pyfloat
  | JStr string
  | JList "json list"
  | JObj "(string \<times> json) list"

type_synonym dict = "(string \<times> json) list"

fun is_obj :: "json \<Rightarrow> bool" where
  "is_obj (JObj _) = True"
| "is_obj _ = False"

definition dict_has :: "('k \<times> 'v) list \<Rightarrow> 'k \<Rightarrow> bool" where
  "dict_has d k \<longleftrightarrow> map_of d k \<noteq> None"

text \<open>\<open>d[k] = v\<close> keeps the position of a key that is there, else appends.\<close>

fun dict_set :: "('k \<times> 'v) list \<Rightarrow> 'k \<Rightarrow> 'v \<Rightarrow> ('k \<times> 'v) list" where
  "dict_set [] k v = [(k, v)]"
| "dict_set ((k', v') # d) k v = (if k' = k then (k, v) # d else (k', v') # dict_set d k v)"

definition dict_merge :: "('k \<times> 'v) list \<Rightarrow> ('k \<times> 'v) list \<Rightarrow> ('k \<times> 'v) list" where
  "dict_merge d e = foldl (\<lambda>acc (k, v). dict_set acc k v) d e"

lemma map_of_dict_set [simp]: "map_of (dict_set d k v) = (map_of d)(k \<mapsto> v)"
  by (induction d k v rule: dict_set.induct) auto

text \<open>\<open>d.pop(k, None)\<close>.\<close>

definition dict_del :: "('k \<times> 'v) list \<Rightarrow> 'k \<Rightarrow> ('k \<times> 'v) list" where
  "dict_del d k = filter (\<lambda>kv. fst kv \<noteq> k) d"

lemma map_of_dict_del [simp]: "map_of (dict_del d k) = (map_of d)(k := None)"
  unfolding dict_del_def by (induction d) auto

lemma fst_set_dict_set [simp]: "fst ` set (dict_set d k v) = insert k (fst ` set d)"
  by (induction d k v rule: dict_set.induct) auto

lemma distinct_dict_set [simp]: "distinct (map fst d) \<Longrightarrow> distinct (map fst (dict_set d k v))"
  by (induction d k v rule: dict_set.induct) (simp_all flip: fst_set_dict_set, auto)

lemma distinct_dict_del [simp]: "distinct (map fst d) \<Longrightarrow> distinct (map fst (dict_del d k))"
  by (simp add: dict_del_def distinct_map_filter)

lemma map_of_filter_keys: "map_of (filter (\<lambda>kv. P (fst kv)) d) = (\<lambda>k. if P k then map_of d k else None)"
  by (induction d) auto

lemma map_of_dict_merge_notin:
  "k \<notin> fst ` set e \<Longrightarrow> map_of (dict_merge d e) k = map_of d k"
  unfolding dict_merge_def by (induction e arbitrary: d) (auto simp: case_prod_beta)

text \<open>\<open>bool(v)\<close>.\<close>

fun truthy :: "json \<Rightarrow> bool" where
  "truthy JNull = False"
| "truthy (JBool b) = b"
| "truthy (JInt i) = (i \<noteq> 0)"
| "truthy (JFloat (PyFin t v)) = (v \<noteq> 0)"
| "truthy (JFloat _) = True"
| "truthy (JStr s) = (s \<noteq> [])"
| "truthy (JList xs) = (xs \<noteq> [])"
| "truthy (JObj d) = (d \<noteq> [])"

definition py_or :: "json \<Rightarrow> json \<Rightarrow> json" where
  "py_or a b = (if truthy a then a else b)"

text \<open>\<open>repr\<close> of a string: the quote is double only when the text has a single one and no double one.\<close>

definition hex_digit :: "nat \<Rightarrow> char" where
  "hex_digit n = (if n < 10 then chr (48 + n) else chr (87 + n))"

definition hex_byte :: "nat \<Rightarrow> string" where
  "hex_byte n = [hex_digit (n div 16), hex_digit (n mod 16)]"

definition repr_char :: "char \<Rightarrow> char \<Rightarrow> string" where
  "repr_char q c =
     (let n = ord c
      in if c = q \<or> n = 92 then [chr 92, c]
         else if n = 10 then [chr 92, CHR ''n'']
         else if n = 13 then [chr 92, CHR ''r'']
         else if n = 9 then [chr 92, CHR ''t'']
         else if n < 32 \<or> 127 \<le> n \<and> n \<le> 160 \<or> n = 173 then [chr 92, CHR ''x''] @ hex_byte n
         else [c])"

definition repr_str :: "string \<Rightarrow> string" where
  "repr_str s =
     (let q = (if chr 39 \<in> set s \<and> chr 34 \<notin> set s then chr 34 else chr 39)
      in [q] @ concat (map (repr_char q) s) @ [q])"

definition float_str :: "pyfloat \<Rightarrow> string" where
  "float_str f = (case f of PyFin t v \<Rightarrow> t | PyInf neg \<Rightarrow> (if neg then ''-inf'' else ''inf'') | PyNan \<Rightarrow> ''nan'')"

fun py_repr :: "json \<Rightarrow> string" where
  "py_repr JNull = ''None''"
| "py_repr (JBool b) = (if b then ''True'' else ''False'')"
| "py_repr (JInt i) = int_str i"
| "py_repr (JFloat f) = float_str f"
| "py_repr (JStr s) = repr_str s"
| "py_repr (JList xs) = ''['' @ join '', '' (map py_repr xs) @ '']''"
| "py_repr (JObj d) =
     ''{'' @ join '', '' (map (\<lambda>kv. repr_str (fst kv) @ '': '' @ py_repr (snd kv)) d) @ ''}''"

definition py_str :: "json \<Rightarrow> string" where
  "py_str v = (case v of JStr s \<Rightarrow> s | _ \<Rightarrow> py_repr v)"

lemma py_str_JStr [simp]: "py_str (JStr s) = s"
  by (simp add: py_str_def)

section \<open>Access to decoded values\<close>

text \<open>The exceptions Python's own operations raise on a value of the wrong shape.\<close>

datatype py_exc = AttributeError | TypeError | KeyError string | ValueError | OverflowError

text \<open>\<open>v.get(k, default)\<close>, \<open>k in v\<close> and \<open>v[k]\<close> for a string \<open>k\<close>.\<close>

fun py_get :: "json \<Rightarrow> string \<Rightarrow> json \<Rightarrow> (py_exc, json) result" where
  "py_get (JObj d) k dflt = Inr (case map_of d k of None \<Rightarrow> dflt | Some v \<Rightarrow> v)"
| "py_get _ k dflt = Inl AttributeError"

fun py_in :: "string \<Rightarrow> json \<Rightarrow> (py_exc, bool) result" where
  "py_in k (JObj d) = Inr (dict_has d k)"
| "py_in k (JStr s) = Inr (contains k s)"
| "py_in k (JList xs) = Inr (JStr k \<in> set xs)"
| "py_in k _ = Inl TypeError"

fun py_index :: "json \<Rightarrow> string \<Rightarrow> (py_exc, json) result" where
  "py_index (JObj d) k = (case map_of d k of None \<Rightarrow> Inl (KeyError k) | Some v \<Rightarrow> Inr v)"
| "py_index _ k = Inl TypeError"

definition dict_get :: "dict \<Rightarrow> string \<Rightarrow> json \<Rightarrow> json" where
  "dict_get d k dflt = (case map_of d k of None \<Rightarrow> dflt | Some v \<Rightarrow> v)"

lemma py_get_JObj [simp]: "py_get (JObj d) k v = Inr (dict_get d k v)"
  by (simp add: dict_get_def)

section \<open>Integers from text\<close>

text \<open>
  \<open>int(s)\<close>: surrounding white space, an optional sign, decimal digits with single underscores
  between them, at most 4300 digits. An all-ASCII text is stripped of C white space only.
\<close>

definition int_space :: "string \<Rightarrow> char \<Rightarrow> bool" where
  "int_space s c =
     (if \<forall>x \<in> set s. ord x < 128 then 9 \<le> ord c \<and> ord c \<le> 13 \<or> ord c = 32 else is_space c)"

fun digits_ok :: "string \<Rightarrow> bool" where
  "digits_ok [] = False"
| "digits_ok [c] = is_digit_09 c"
| "digits_ok (c # d # cs) =
     (is_digit_09 c \<and> (if d = CHR ''_'' then digits_ok cs else digits_ok (d # cs)))"

definition digits_value :: "string \<Rightarrow> nat" where
  "digits_value s = foldl (\<lambda>n c. 10 * n + (ord c - 48)) 0 (filter is_digit_09 s)"

definition py_int_of_str :: "string \<Rightarrow> int option" where
  "py_int_of_str s =
     (let t = dropWhile (int_space s) (rev (dropWhile (int_space s) (rev s)));
          (neg, ds) = (case t of
              c # cs \<Rightarrow> if c = CHR ''-'' then (True, cs) else if c = CHR ''+'' then (False, cs) else (False, t)
            | [] \<Rightarrow> (False, []))
      in if digits_ok ds \<and> length (filter is_digit_09 ds) \<le> 4300
         then Some (if neg then - int (digits_value ds) else int (digits_value ds)) else None)"

section \<open>Regular expressions\<close>

text \<open>
  \<open>re.match("^...$", s)\<close> for a pattern \<open>P\<close>: \<open>$\<close> matches at the end and before a final
  newline, so a text with one newline appended matches too; \<open>fullmatch\<close> is \<open>P s\<close> itself.
\<close>

definition re_dollar :: "(string \<Rightarrow> bool) \<Rightarrow> string \<Rightarrow> bool" where
  "re_dollar P s \<longleftrightarrow> P s \<or> s \<noteq> [] \<and> ord (last s) = 10 \<and> P (butlast s)"

lemma re_dollar_iff: "re_dollar P s \<longleftrightarrow> P s \<or> (\<exists>t. P t \<and> s = t @ [chr 10])"
proof -
  have "s \<noteq> [] \<and> ord (last s) = 10 \<longleftrightarrow> (\<exists>t. s = t @ [chr 10])"
  proof (cases s rule: rev_cases)
    case (snoc t c)
    have "ord c = 10 \<longleftrightarrow> c = chr 10" by (rule iffI) (metis chr_ord, simp)
    with snoc show ?thesis by simp
  qed simp
  then show ?thesis unfolding re_dollar_def by (metis butlast_snoc)
qed

definition hex64 :: "string \<Rightarrow> bool" where
  "hex64 s \<longleftrightarrow> length s = 64 \<and> (\<forall>c \<in> set s. is_hex_lower c)"

text \<open>The checks of a validator, in order: the first one that fails is the error raised.\<close>

definition require :: "bool \<Rightarrow> 'e \<Rightarrow> ('e, unit) result" where
  "require b e = (if b then Inr () else Inl e)"

lemma require_Inr [simp]: "require b e = Inr u \<longleftrightarrow> b"
  by (simp add: require_def)

fun check_all :: "('e, unit) result list \<Rightarrow> ('e, unit) result" where
  "check_all [] = Inr ()"
| "check_all (c # cs) = bind_res c (\<lambda>_. check_all cs)"

lemma check_all_Inr [simp]: "check_all cs = Inr u \<longleftrightarrow> (\<forall>c \<in> set cs. c = Inr ())"
  by (induction cs) auto

end
