(* ===== verification/Templating.thy ===== *)
theory Templating
  imports Prelude
begin

text \<open>
  \<open>templating/render.py\<close>: path lookup in the routing context and the routing template renderer.
  A template is text with \<open>{{ path }}\<close> tokens; rendering either substitutes every token with a
  scalar or rejects the whole template. The lemmas give both directions: what renders is a
  sequence of clean literals and resolved tokens, and every such sequence renders to the
  concatenation of its parts.
\<close>

section \<open>Definitions\<close>

datatype template_error =
    StrayDelimiter string
  | InvalidExpression string
  | UnresolvedPath string
  | PathValueError string

text \<open>
  \<open>str.isdigit\<close> is true of the superscripts one, two and three, for which \<open>int\<close> raises ValueError.
\<close>

definition py_isdigit :: "string \<Rightarrow> bool" where
  "py_isdigit s \<longleftrightarrow> s \<noteq> [] \<and> (\<forall>c \<in> set s. is_digit_09 c \<or> ord c \<in> {178, 179, 185})"

definition parse_nat :: "string \<Rightarrow> nat option" where
  "parse_nat s =
     (if s \<noteq> [] \<and> (\<forall>c \<in> set s. is_digit_09 c)
      then Some (foldl (\<lambda>n c. 10 * n + (ord c - 48)) 0 s) else None)"

text \<open>\<open>Inr None\<close> is the sentinel \<open>_MISSING\<close>.\<close>

fun resolve_segs :: "json \<Rightarrow> string list \<Rightarrow> (template_error, json option) result" where
  "resolve_segs cur [] = Inr (Some cur)"
| "resolve_segs (JObj d) (seg # segs) =
     (case map_of d seg of None \<Rightarrow> Inr None | Some v \<Rightarrow> resolve_segs v segs)"
| "resolve_segs (JList xs) (seg # segs) =
     (if py_isdigit seg then
        (case parse_nat seg of
           None \<Rightarrow> Inl (PathValueError seg)
         | Some i \<Rightarrow> if i < length xs then resolve_segs (xs ! i) segs else Inr None)
      else Inr None)"
| "resolve_segs _ (seg # segs) = Inr None"

definition resolve_path :: "dict \<Rightarrow> string \<Rightarrow> (template_error, json option) result" where
  "resolve_path ctx dotted_path = resolve_segs (JObj ctx) (split_char CHR ''.'' dotted_path)"

definition open_delim :: string where "open_delim = ''{{''"
definition close_delim :: string where "close_delim = ''}}''"

definition reject_stray_delimiters :: "string \<Rightarrow> (template_error, unit) result" where
  "reject_stray_delimiters literal =
     (if contains open_delim literal \<or> contains close_delim literal
      then Inl (StrayDelimiter literal) else Inr ())"

definition path_char :: "char \<Rightarrow> bool" where
  "path_char c \<longleftrightarrow> is_lower_az c \<or> is_upper_az c \<or> is_digit_09 c \<or> ord c \<in> {95, 46, 45}"

text \<open>\<open>re.match("^[A-Za-z0-9_.-]+$", path)\<close>.\<close>

definition valid_path :: "string \<Rightarrow> bool" where
  "valid_path p \<longleftrightarrow> re_dollar (\<lambda>q. q \<noteq> [] \<and> (\<forall>c \<in> set q. path_char c)) p"

text \<open>The leftmost match of \<open>\{\{(.*?)\}\}\<close>: text before it, its group, text after it.\<close>

definition next_brace :: "string \<Rightarrow> (string \<times> string \<times> string) option" where
  "next_brace s =
     (case find_sub open_delim s of
        None \<Rightarrow> None
      | Some (literal, rest) \<Rightarrow>
          (case find_sub close_delim rest of
             None \<Rightarrow> None
           | Some (inner, after) \<Rightarrow> Some (literal, inner, after)))"

definition is_scalar :: "json \<Rightarrow> bool" where
  "is_scalar v \<longleftrightarrow> (case v of JNull \<Rightarrow> False | JList _ \<Rightarrow> False | JObj _ \<Rightarrow> False | _ \<Rightarrow> True)"

definition render_token :: "dict \<Rightarrow> string \<Rightarrow> (template_error, string) result" where
  "render_token ctx inner =
     (let path = strip inner
      in if \<not> valid_path path then Inl (InvalidExpression inner)
         else bind_res (resolve_path ctx path) (\<lambda>value. case value of
             None \<Rightarrow> Inl (UnresolvedPath path)
           | Some v \<Rightarrow> if is_scalar v then Inr (py_str v) else Inl (UnresolvedPath path)))"

lemma next_brace_Some:
  assumes "next_brace s = Some (literal, inner, after)"
  shows "s = literal @ open_delim @ inner @ close_delim @ after"
  using assms find_sub_Some by (fastforce simp: next_brace_def split: option.splits)

lemma next_brace_length: "next_brace s = Some (literal, inner, after) \<Longrightarrow> length after < length s"
  by (drule next_brace_Some) (simp add: open_delim_def)

function render_routing_template :: "string \<Rightarrow> dict \<Rightarrow> (template_error, string) result" where
  "render_routing_template template ctx =
     (case next_brace template of
        None \<Rightarrow> bind_res (reject_stray_delimiters template) (\<lambda>_. Inr template)
      | Some (literal, inner, after) \<Rightarrow>
          bind_res (reject_stray_delimiters literal) (\<lambda>_.
          bind_res (render_token ctx inner) (\<lambda>value.
          bind_res (render_routing_template after ctx) (\<lambda>rest.
            Inr (literal @ value @ rest)))))"
  by pat_completeness auto
termination
  by (relation "measure (\<lambda>(t, c). length t)") (auto dest: next_brace_length)

declare render_routing_template.simps [simp del]

section \<open>Templates as sequences of literals and tokens\<close>

text \<open>The abstract syntax of a template and its concrete text.\<close>

datatype seg = Lit string | Tok string

fun seg_text :: "seg \<Rightarrow> string" where
  "seg_text (Lit s) = s"
| "seg_text (Tok inner) = open_delim @ inner @ close_delim"

definition template_text :: "seg list \<Rightarrow> string" where
  "template_text segs = concat (map seg_text segs)"

text \<open>The value of one segment: a literal without delimiters is itself, a token its scalar.\<close>

fun seg_value :: "dict \<Rightarrow> seg \<Rightarrow> string option" where
  "seg_value ctx (Lit s) =
     (if contains open_delim s \<or> contains close_delim s then None else Some s)"
| "seg_value ctx (Tok inner) =
     (case render_token ctx inner of Inl e \<Rightarrow> None | Inr v \<Rightarrow> Some v)"

lemma template_text_simps [simp]:
  "template_text [] = []" "template_text (x # xs) = seg_text x @ template_text xs"
  by (simp_all add: template_text_def)

lemma reject_stray_Inr [simp]:
  "reject_stray_delimiters s = Inr u \<longleftrightarrow> \<not> contains open_delim s \<and> \<not> contains close_delim s"
  by (simp add: reject_stray_delimiters_def)

lemma render_token_Inr:
  "render_token ctx inner = Inr out \<longleftrightarrow> valid_path (strip inner)
     \<and> (\<exists>v. resolve_path ctx (strip inner) = Inr (Some v) \<and> is_scalar v \<and> out = py_str v)"
  by (auto simp: render_token_def Let_def split: if_splits option.splits)

lemma seg_value_Tok:
  "seg_value ctx (Tok inner) = Some out \<longleftrightarrow> render_token ctx inner = Inr out"
  by (simp split: sum.splits)

lemma seg_value_Lit:
  "seg_value ctx (Lit s) = Some out \<longleftrightarrow> out = s \<and> \<not> contains open_delim s \<and> \<not> contains close_delim s"
  by auto

lemma render_decomposes:
  assumes "render_routing_template template ctx = Inr out"
  shows "\<exists>segs vals. template = template_text segs \<and> map (seg_value ctx) segs = map Some vals
           \<and> out = concat vals"
  using assms
proof (induction template ctx arbitrary: out rule: render_routing_template.induct)
  case (1 template ctx)
  show ?case
  proof (cases "next_brace template")
    case None
    with "1.prems" show ?thesis
      by (intro exI [of _ "[Lit template]"] exI [of _ "[template]"])
        (auto simp: render_routing_template.simps [of template])
  next
    case (Some m)
    obtain literal inner after where m: "m = (literal, inner, after)" by (cases m)
    with Some "1.prems" obtain v rest where
        lit: "\<not> contains open_delim literal" "\<not> contains close_delim literal"
      and tok: "render_token ctx inner = Inr v"
      and rest: "render_routing_template after ctx = Inr rest"
      and out: "out = literal @ v @ rest"
      by (auto simp: render_routing_template.simps [of template])
    from "1.IH" [OF Some m [symmetric] refl rest] obtain segs vals where
      "after = template_text segs" "map (seg_value ctx) segs = map Some vals" "rest = concat vals"
      by auto
    moreover have "template = literal @ open_delim @ inner @ close_delim @ after"
      using Some m by (simp add: next_brace_Some)
    ultimately show ?thesis
      using lit tok out
      by (intro exI [of _ "Lit literal # Tok inner # segs"] exI [of _ "literal # v # vals"]) simp
  qed
qed

text \<open>Segments that print unambiguously: no brace character in a literal or inside a token.\<close>

fun plain_seg :: "seg \<Rightarrow> bool" where
  "plain_seg (Lit s) \<longleftrightarrow> CHR ''{'' \<notin> set s \<and> CHR ''}'' \<notin> set s"
| "plain_seg (Tok s) \<longleftrightarrow> CHR ''{'' \<notin> set s \<and> CHR ''}'' \<notin> set s"

lemma delim_defs:
  "open_delim = CHR ''{'' # ''{''" "close_delim = CHR ''}'' # ''}''"
  by (simp_all add: open_delim_def close_delim_def)

lemma plain_not_contains:
  "CHR ''{'' \<notin> set s \<Longrightarrow> \<not> contains open_delim s" "CHR ''}'' \<notin> set s \<Longrightarrow> \<not> contains close_delim s"
  by (auto simp: contains_def find_sub_absent [OF delim_defs(1)] find_sub_absent [OF delim_defs(2)])

lemma next_brace_tok:
  assumes "CHR ''{'' \<notin> set l" "CHR ''}'' \<notin> set t"
  shows "next_brace (l @ open_delim @ t @ close_delim @ r) = Some (l, t, r)"
  using find_sub_free [OF delim_defs(1) assms(1), of "t @ close_delim @ r"]
    find_sub_free [OF delim_defs(2) assms(2), of r]
  by (simp add: next_brace_def)

lemma next_brace_plain: "CHR ''{'' \<notin> set l \<Longrightarrow> next_brace l = None"
  by (simp add: next_brace_def find_sub_absent [OF delim_defs(1)])

lemma render_plain_aux:
  assumes "list_all plain_seg segs" and "CHR ''{'' \<notin> set l" "CHR ''}'' \<notin> set l"
    and "map (seg_value ctx) segs = map Some vals"
  shows "render_routing_template (l @ template_text segs) ctx = Inr (l @ concat vals)"
  using assms
proof (induction segs arbitrary: l vals)
  case Nil
  then show ?case
    by (simp add: render_routing_template.simps next_brace_plain plain_not_contains)
next
  case (Cons x segs)
  then obtain v vs where vals: "vals = v # vs" by (cases vals) auto
  show ?case
  proof (cases x)
    case (Lit s)
    with Cons.prems vals have "v = s" by (auto split: if_splits)
    with Cons.IH [of "l @ s" vs] Cons.prems Lit vals show ?thesis by auto
  next
    case (Tok t)
    with Cons.prems vals have "render_token ctx t = Inr v" by (auto split: sum.splits)
    with Cons.IH [of "[]" vs] Cons.prems Tok vals show ?thesis
      by (simp add: render_routing_template.simps [of "l @ _"] next_brace_tok plain_not_contains)
  qed
qed

section \<open>Properties\<close>

text \<open>
  A routing template renders only as a whole: when the renderer returns a string, the
  template is a sequence of literals without delimiters and of tokens, every token resolved to a
  scalar, and the string is the concatenation of their values; nothing is dropped or defaulted.
\<close>

theorem render_all_or_nothing:
  assumes "render_routing_template template ctx = Inr out"
  shows "\<exists>segs vals. template = template_text segs \<and> length vals = length segs
           \<and> out = concat vals
           \<and> (\<forall>i < length segs. case segs ! i of
                Lit s \<Rightarrow> vals ! i = s \<and> \<not> contains open_delim s \<and> \<not> contains close_delim s
              | Tok inner \<Rightarrow> valid_path (strip inner)
                  \<and> (\<exists>v. resolve_path ctx (strip inner) = Inr (Some v) \<and> is_scalar v
                       \<and> vals ! i = py_str v))"
proof -
  from render_decomposes [OF assms] obtain segs vals where
      t: "template = template_text segs" and m: "map (seg_value ctx) segs = map Some vals"
    and o: "out = concat vals"
    by blast
  from m have len: "length vals = length segs" by (metis length_map)
  have "case segs ! i of
          Lit s \<Rightarrow> vals ! i = s \<and> \<not> contains open_delim s \<and> \<not> contains close_delim s
        | Tok inner \<Rightarrow> valid_path (strip inner)
            \<and> (\<exists>v. resolve_path ctx (strip inner) = Inr (Some v) \<and> is_scalar v \<and> vals ! i = py_str v)"
    if "i < length segs" for i
  proof -
    from m that len have "seg_value ctx (segs ! i) = Some (vals ! i)" by (metis nth_map)
    then show ?thesis
      by (cases "segs ! i") (simp_all only: seg_value_Tok seg_value_Lit render_token_Inr seg.case simp_thms)
  qed
  with t o len show ?thesis by blast
qed

theorem render_all_or_nothing_witness:
  "\<exists>segs vals. ''a-{{ event.id }}'' = template_text segs \<and> length vals = length segs
     \<and> ''a-7'' = concat vals"
proof -
  have "render_routing_template ''a-{{ event.id }}'' [(''event'', JObj [(''id'', JInt 7)])] = Inr ''a-7''"
    by code_simp
  from render_all_or_nothing [OF this] show ?thesis by blast
qed

text \<open>
  Rendering is complete on unambiguous templates: a template written from literals and tokens
  without brace characters in them renders to the concatenation of its values, whenever every
  token has one.
\<close>

theorem render_of_template_text:
  assumes "list_all plain_seg segs" and "map (seg_value ctx) segs = map Some vals"
  shows "render_routing_template (template_text segs) ctx = Inr (concat vals)"
  using render_plain_aux [OF assms(1) _ _ assms(2), of "[]"] by simp

theorem render_of_template_text_witness:
  "render_routing_template (template_text [Lit ''mr:'', Tok ''payload.iid''])
     [(''payload'', JObj [(''iid'', JInt 12)])] = Inr (concat [''mr:'', ''12''])"
  by (rule render_of_template_text; code_simp)

end
