(* ===== verification/Channel_Config.thy ===== *)
theory Channel_Config
  imports Prelude
begin

text \<open>
  The \<open>channels[]\<close> part of \<open>config/schema.py\<close>: the block models as records, their validators in
  the order pydantic runs them, and what an accepted channel guarantees to the adapters.
\<close>

section \<open>Blocks\<close>

datatype channel_type = CtWebhook | CtWebhookScript | CtCron | CtQueue | CtA2a

datatype channel_source = SrcGitlab | SrcGithub | SrcGeneric

datatype webhook_auth_type = AuthGitlabToken | AuthHmac | AuthHeaderToken | AuthNone

record routing_block =
  rt_workspace_key :: "string option"
  rt_session_key :: "string option"

record rate_limit_key_block =
  rk_key :: string
  rk_max_per_hour :: int

record rate_limit_block =
  rl_max_per_hour :: "int option"
  rl_per_key :: "rate_limit_key_block list"

record webhook_auth_block =
  wa_type :: webhook_auth_type
  wa_env :: "string option"
  wa_header :: string

record webhook_block =
  wh_auth :: webhook_auth_block
  wh_gitlab_events :: "string list option"
  wh_bot_username :: "string option"
  wh_trigger_users :: "string list option"
  wh_merge_requests_only :: bool

record a2a_auth_block =
  aa_header :: string
  aa_env :: string

record cron_block =
  cr_schedule :: string
  cr_timezone :: string

record script_block =
  sc_script :: string
  sc_env :: "(string \<times> string) list"
  sc_secret_env :: "(string \<times> string) list"
  sc_timeout_seconds :: int

text \<open>\<open>HandoffBlock\<close> is a \<open>ScriptBlock\<close> with a destination.\<close>

record handoff_block = script_block +
  ho_destination :: string

record channel_config =
  ch_name :: string
  ch_type :: channel_type
  ch_concurrency :: int
  ch_source :: "channel_source option"
  ch_routing :: "routing_block option"
  ch_rate_limit :: "rate_limit_block option"
  ch_prompt :: "string option"
  ch_webhook :: "webhook_block option"
  ch_handoff :: "handoff_block option"
  ch_script :: "script_block option"
  ch_cron :: "cron_block option"
  ch_queue :: "string option"
  ch_a2a :: "a2a_auth_block option"

section \<open>Leaf validators\<close>

datatype channel_error =
    BadEnvName string
  | ReservedEnvName string
  | EmptyScript
  | EnvClash
  | BadTimeout
  | BadDestination string
  | EmptyRoutingOverride
  | EmptyRateKey
  | BadMaxPerHour
  | AuthEnvRequired
  | AuthEnvInvalid string
  | AuthEnvForbidden
  | BadConcurrency
  | BlockRequired string
  | BlockForbidden string
  | SourceRequired
  | SourceMustBeGitlab
  | GitlabEventsRequired
  | UnroutableEvents
  | SessionKeyRequired

definition env_first :: "char \<Rightarrow> bool" where
  "env_first c \<longleftrightarrow> is_lower_az c \<or> is_upper_az c \<or> c = CHR ''_''"

definition env_char :: "char \<Rightarrow> bool" where
  "env_char c \<longleftrightarrow> env_first c \<or> is_digit_09 c"

definition env_name_re :: "string \<Rightarrow> bool" where
  "env_name_re s \<longleftrightarrow> (case s of [] \<Rightarrow> False | c # cs \<Rightarrow> env_first c \<and> (\<forall>x \<in> set cs. env_char x))"

text \<open>\<open>_ENV_NAME_RE.match(name)\<close>.\<close>

definition env_name_ok :: "string \<Rightarrow> bool" where
  "env_name_ok s \<longleftrightarrow> re_dollar env_name_re s"

definition reserved_engine_env_exact :: "string list" where
  "reserved_engine_env_exact =
     [''HOME'', ''OPENCODE_SERVER_PASSWORD'', ''OPENCODE_DISABLE_PROJECT_CONFIG'',
      ''OPENCODE_DISABLE_MODELS_FETCH'', ''OPENCODE_MODELS_URL'', ''OPENCODE_BIN'']"

definition reserved_engine_env_prefixes :: "string list" where
  "reserved_engine_env_prefixes = [''ACH_'', ''XDG_'', ''OPENCODE_CONFIG'', ''PI_'', ''PIG_'']"

definition check_engine_env_name :: "string \<Rightarrow> (channel_error, unit) result" where
  "check_engine_env_name name =
     (if name \<in> set reserved_engine_env_exact
         \<or> (\<exists>p \<in> set reserved_engine_env_prefixes. prefix p name)
      then Inl (ReservedEnvName name)
      else if \<not> env_name_ok name then Inl (BadEnvName name)
      else Inr ())"

definition reserved_handoff_env :: "string list" where
  "reserved_handoff_env =
     [''ACH_WORKSPACE_KEY'', ''ACH_SESSION_KEY'', ''ACH_EVENT_ID'', ''ACH_CHANNEL'',
      ''ACH_HANDOFF_DIR'', ''HOME'']"

definition check_script_env_name :: "string \<Rightarrow> (channel_error, unit) result" where
  "check_script_env_name name =
     (if \<not> env_name_ok name then Inl (BadEnvName name)
      else if name \<in> set reserved_handoff_env \<or> prefix ''ACH_EVENT_'' name
      then Inl (ReservedEnvName name)
      else Inr ())"

text \<open>Field constraints (\<open>timeoutSeconds\<close> in 1 to 3600) come before the model validator.\<close>

definition check_script_block :: "('a script_block_scheme) \<Rightarrow> (channel_error, unit) result" where
  "check_script_block b =
     check_all (
       [require (0 < sc_timeout_seconds b \<and> sc_timeout_seconds b \<le> 3600) BadTimeout,
        require (strip (sc_script b) \<noteq> []) EmptyScript]
       @ map check_script_env_name (map fst (sc_env b) @ map fst (sc_secret_env b))
       @ [require (set (map fst (sc_env b)) \<inter> set (map fst (sc_secret_env b)) = {}) EnvClash])"

text \<open>\<open>PurePosixPath(v).parts\<close> of a relative path: empty and dot components are dropped.\<close>

definition posix_parts :: "string \<Rightarrow> string list" where
  "posix_parts v = filter (\<lambda>w. w \<noteq> [] \<and> w \<noteq> ''.'') (split_char CHR ''/'' v)"

definition valid_relative_destination :: "string \<Rightarrow> (channel_error, unit) result" where
  "valid_relative_destination v =
     (if strip v = [] then Inl (BadDestination v)
      else if chr 0 \<in> set v then Inl (BadDestination v)
      else if prefix ''/'' v then Inl (BadDestination v)
      else if posix_parts v = [] \<or> ''..'' \<in> set (posix_parts v) then Inl (BadDestination v)
      else Inr ())"

definition check_handoff_block :: "handoff_block \<Rightarrow> (channel_error, unit) result" where
  "check_handoff_block b = check_all [valid_relative_destination (ho_destination b), check_script_block b]"

definition check_routing_block :: "routing_block \<Rightarrow> (channel_error, unit) result" where
  "check_routing_block r =
     check_all (map (\<lambda>v. require (v \<noteq> None \<longrightarrow> strip (the v) \<noteq> []) EmptyRoutingOverride)
       [rt_workspace_key r, rt_session_key r])"

definition check_rate_limit_block :: "rate_limit_block \<Rightarrow> (channel_error, unit) result" where
  "check_rate_limit_block r =
     check_all (require (rl_max_per_hour r \<noteq> None \<longrightarrow> 0 < the (rl_max_per_hour r)) BadMaxPerHour
       # concat (map (\<lambda>k. [require (strip (rk_key k) \<noteq> []) EmptyRateKey,
                            require (0 < rk_max_per_hour k) BadMaxPerHour]) (rl_per_key r)))"

definition check_webhook_auth :: "webhook_auth_block \<Rightarrow> (channel_error, unit) result" where
  "check_webhook_auth a =
     (if wa_type a \<noteq> AuthNone then
        (if wa_env a = None \<or> wa_env a = Some [] then Inl AuthEnvRequired
         else if \<not> env_name_ok (the (wa_env a)) then Inl (AuthEnvInvalid (the (wa_env a)))
         else Inr ())
      else if wa_env a \<noteq> None then Inl AuthEnvForbidden
      else Inr ())"

section \<open>The channel validator\<close>

definition conversational_gitlab_events :: "string list" where
  "conversational_gitlab_events = [''merge_request'', ''issue'', ''note'']"

text \<open>\<open>getattr(self, t)\<close>: whether the channel has the block named like a type.\<close>

fun has_block :: "channel_config \<Rightarrow> channel_type \<Rightarrow> bool" where
  "has_block c CtWebhook = (ch_webhook c \<noteq> None)"
| "has_block c CtWebhookScript = (ch_webhook c \<noteq> None)"
| "has_block c CtCron = (ch_cron c \<noteq> None)"
| "has_block c CtQueue = (ch_queue c \<noteq> None)"
| "has_block c CtA2a = (ch_a2a c \<noteq> None)"

fun type_name :: "channel_type \<Rightarrow> string" where
  "type_name CtWebhook = ''webhook''"
| "type_name CtWebhookScript = ''webhook-script''"
| "type_name CtCron = ''cron''"
| "type_name CtQueue = ''queue''"
| "type_name CtA2a = ''a2a''"

definition needs_session :: "channel_config \<Rightarrow> bool" where
  "needs_session c \<longleftrightarrow>
     ch_type c = CtQueue \<or> ch_type c = CtWebhook \<and> ch_source c = Some SrcGeneric"

definition webhook_events :: "channel_config \<Rightarrow> string list option" where
  "webhook_events c = (case ch_webhook c of None \<Rightarrow> None | Some w \<Rightarrow> wh_gitlab_events w)"

definition script_type_checks :: "channel_config \<Rightarrow> (channel_error, unit) result list" where
  "script_type_checks c =
     [require (ch_webhook c \<noteq> None) (BlockRequired ''webhook''),
      require (ch_script c \<noteq> None) (BlockRequired ''script''),
      require (ch_prompt c = None) (BlockForbidden ''prompt''),
      require (ch_handoff c = None) (BlockForbidden ''handoff''),
      require (ch_rate_limit c = None) (BlockForbidden ''rateLimit''),
      require (ch_source c = Some SrcGitlab) SourceMustBeGitlab,
      require (webhook_events c \<noteq> None) GitlabEventsRequired]"

definition check_type_block_coherence :: "channel_config \<Rightarrow> (channel_error, unit) result" where
  "check_type_block_coherence c =
     (let t = ch_type c in check_all (
       (if t = CtWebhookScript then script_type_checks c
        else [require (has_block c t) (BlockRequired (type_name t))])
       @ [require (t \<in> {CtWebhook, CtWebhookScript} \<longrightarrow> ch_source c \<noteq> None) SourceRequired,
          require (t = CtWebhook \<longrightarrow>
              (case webhook_events c of None \<Rightarrow> True
               | Some evs \<Rightarrow> set evs \<subseteq> set conversational_gitlab_events)) UnroutableEvents,
          require (needs_session c \<longrightarrow>
              (case ch_routing c of None \<Rightarrow> False | Some r \<Rightarrow> rt_session_key r \<noteq> None)) SessionKeyRequired]
       @ map (\<lambda>foreign. require
              (foreign = t \<or> t = CtWebhookScript \<and> foreign = CtWebhook \<or> \<not> has_block c foreign)
              (BlockForbidden (type_name foreign)))
           [CtWebhook, CtCron, CtQueue, CtA2a]
       @ [require (t \<noteq> CtWebhookScript \<longrightarrow> ch_script c = None) (BlockForbidden ''script'')]))"

text \<open>\<open>ChannelConfig.model_validate\<close>: the blocks, the field constraint, then the coherence check.\<close>

definition check_opt :: "('a \<Rightarrow> (channel_error, unit) result) \<Rightarrow> 'a option \<Rightarrow> (channel_error, unit) result" where
  "check_opt f x = (case x of None \<Rightarrow> Inr () | Some v \<Rightarrow> f v)"

definition validate_channel :: "channel_config \<Rightarrow> (channel_error, unit) result" where
  "validate_channel c = check_all
     [require (0 < ch_concurrency c) BadConcurrency,
      check_opt check_routing_block (ch_routing c),
      check_opt check_rate_limit_block (ch_rate_limit c),
      check_opt (\<lambda>w. check_webhook_auth (wh_auth w)) (ch_webhook c),
      check_opt check_handoff_block (ch_handoff c),
      check_opt check_script_block (ch_script c),
      check_opt (\<lambda>a. require (env_name_ok (aa_env a)) (BadEnvName (aa_env a))) (ch_a2a c),
      check_type_block_coherence c]"

lemmas coherence_defs =
  check_type_block_coherence_def script_type_checks_def needs_session_def webhook_events_def Let_def

lemma validate_channel_coherent:
  "validate_channel c = Inr () \<Longrightarrow> check_type_block_coherence c = Inr ()"
  by (simp add: validate_channel_def)

lemma coherent_needs_session:
  assumes "check_type_block_coherence c = Inr ()" "needs_session c"
  shows "\<exists>r k. ch_routing c = Some r \<and> rt_session_key r = Some k"
  using assms by (auto simp: coherence_defs split: option.splits if_splits)

lemma coherent_source:
  assumes "check_type_block_coherence c = Inr ()" "ch_type c \<in> {CtWebhook, CtWebhookScript}"
  shows "ch_source c \<noteq> None" "ch_type c = CtWebhookScript \<Longrightarrow> ch_source c = Some SrcGitlab"
    "ch_webhook c \<noteq> None"
  using assms by (auto simp: coherence_defs split: option.splits if_splits)

section \<open>Properties\<close>

text \<open>
  An accepted channel carries exactly the block its type needs and no block of another
  type, a script exactly when it is a webhook-script channel (which then is a GitLab channel with
  an event list and no prompt, handoff or rate limit), and a session-key template whenever its
  source has no conversation identity of its own.
\<close>

theorem validate_channel_coherence:
  assumes "validate_channel c = Inr ()"
  shows "has_block c (ch_type c)
    \<and> (\<forall>t \<in> {CtWebhook, CtCron, CtQueue, CtA2a}. has_block c t \<longrightarrow>
           t = ch_type c \<or> ch_type c = CtWebhookScript \<and> t = CtWebhook)
    \<and> (ch_script c \<noteq> None \<longleftrightarrow> ch_type c = CtWebhookScript)
    \<and> (ch_type c = CtWebhookScript \<longrightarrow> ch_source c = Some SrcGitlab \<and> webhook_events c \<noteq> None
           \<and> ch_prompt c = None \<and> ch_handoff c = None \<and> ch_rate_limit c = None)
    \<and> (needs_session c \<longrightarrow> (\<exists>r k. ch_routing c = Some r \<and> rt_session_key r = Some k))"
  using validate_channel_coherent [OF assms]
  by (auto simp: coherence_defs split: option.splits if_splits)

definition example_queue_channel :: channel_config where
  "example_queue_channel =
     \<lparr>ch_name = ''jobs'', ch_type = CtQueue, ch_concurrency = 1, ch_source = None,
      ch_routing = Some \<lparr>rt_workspace_key = Some ''session'', rt_session_key = Some ''{{payload.id}}''\<rparr>,
      ch_rate_limit = None, ch_prompt = None, ch_webhook = None, ch_handoff = None,
      ch_script = None, ch_cron = None, ch_queue = Some ''jobs-stream'', ch_a2a = None\<rparr>"

lemma example_queue_channel_ok: "validate_channel example_queue_channel = Inr ()"
  by code_simp

theorem validate_channel_coherence_witness:
  "has_block example_queue_channel (ch_type example_queue_channel)"
  using validate_channel_coherence [OF example_queue_channel_ok] by blast

text \<open>
  A handoff destination the validator accepts names a proper descendant of the Workspace:
  it is relative, none of its components climbs up, and at least one component is a real name.
\<close>

theorem handoff_destination_descends:
  assumes "check_handoff_block b = Inr ()"
  shows "\<not> prefix ''/'' (ho_destination b)
    \<and> ''..'' \<notin> set (split_char CHR ''/'' (ho_destination b))
    \<and> (\<exists>w \<in> set (split_char CHR ''/'' (ho_destination b)). w \<noteq> [] \<and> w \<noteq> ''.'' \<and> w \<noteq> ''..'')"
proof -
  from assms have ok: "\<not> prefix ''/'' (ho_destination b)" "posix_parts (ho_destination b) \<noteq> []"
      "''..'' \<notin> set (posix_parts (ho_destination b))"
    by (auto simp: check_handoff_block_def valid_relative_destination_def split: if_splits)
  moreover from ok(3) have up: "''..'' \<notin> set (split_char CHR ''/'' (ho_destination b))"
    by (auto simp: posix_parts_def)
  moreover from ok(2) up have "\<exists>w \<in> set (split_char CHR ''/'' (ho_destination b)).
      w \<noteq> [] \<and> w \<noteq> ''.'' \<and> w \<noteq> ''..''"
    by (auto simp: posix_parts_def filter_empty_conv)
  ultimately show ?thesis by blast
qed

definition example_handoff :: handoff_block where
  "example_handoff = \<lparr>sc_script = ''git clone'', sc_env = [], sc_secret_env = [(''TOKEN'', ''ACH_SECRET_T'')],
     sc_timeout_seconds = 120, ho_destination = ''./repo/src''\<rparr>"

theorem handoff_destination_descends_witness: "\<not> prefix ''/'' (ho_destination example_handoff)"
proof -
  have "check_handoff_block example_handoff = Inr ()" by code_simp
  from handoff_destination_descends [OF this] show ?thesis by blast
qed

end
