(* ===== verification/Json_Text.thy ===== *)
theory Json_Text
  imports Prelude
begin

text \<open>
  The text \<open>json.dumps\<close> writes for a string and for a list of strings with
  \<open>separators=(",", ":")\<close>, and UTF-8. Every digest and every session-scoped workspace key of the
  runtime is built from this text, so the lemmas show that it determines the list: the encoding
  is read back by a parser, hence injective.
\<close>

section \<open>Encoding\<close>

text \<open>\<open>ascii\<close> is \<open>ensure_ascii\<close>: every character outside space to tilde is escaped.\<close>

definition json_esc :: "bool \<Rightarrow> char \<Rightarrow> string" where
  "json_esc ascii c =
     (let n = ord c
      in if n = 34 \<or> n = 92 then [chr 92, c]
         else if n = 10 then [chr 92, CHR ''n'']
         else if n = 13 then [chr 92, CHR ''r'']
         else if n = 9 then [chr 92, CHR ''t'']
         else if n = 12 then [chr 92, CHR ''f'']
         else if n = 8 then [chr 92, CHR ''b'']
         else if n < 32 \<or> ascii \<and> 126 < n then [chr 92, CHR ''u'', CHR ''0'', CHR ''0''] @ hex_byte n
         else [c])"

definition json_quote :: "bool \<Rightarrow> string \<Rightarrow> string" where
  "json_quote ascii s = [chr 34] @ concat (map (json_esc ascii) s) @ [chr 34]"

definition json_dumps_strs :: "bool \<Rightarrow> string list \<Rightarrow> string" where
  "json_dumps_strs ascii xs = ''['' @ join '','' (map (json_quote ascii) xs) @ '']''"

section \<open>Reading one string back\<close>

definition unhex :: "char \<Rightarrow> nat" where
  "unhex c = (if ord c < 58 then ord c - 48 else ord c - 87)"

fun json_unesc :: "string \<Rightarrow> (char \<times> string) option" where
  "json_unesc [] = None"
| "json_unesc (c # cs) =
     (if ord c = 34 then None
      else if ord c \<noteq> 92 then Some (c, cs)
      else case cs of
        [] \<Rightarrow> None
      | e # rest \<Rightarrow>
         (if e = CHR ''n'' then Some (chr 10, rest)
          else if e = CHR ''r'' then Some (chr 13, rest)
          else if e = CHR ''t'' then Some (chr 9, rest)
          else if e = CHR ''f'' then Some (chr 12, rest)
          else if e = CHR ''b'' then Some (chr 8, rest)
          else if e = CHR ''u'' then
            (case rest of
               z # z' # h # l # rest' \<Rightarrow> Some (chr (16 * unhex h + unhex l), rest')
             | _ \<Rightarrow> None)
          else Some (e, rest)))"

lemma ord_hex_digit: "k < 16 \<Longrightarrow> ord (hex_digit k) = (if k < 10 then 48 + k else 87 + k)"
  by (simp add: hex_digit_def)

lemma unhex_hex_digit [simp]: "k < 16 \<Longrightarrow> unhex (hex_digit k) = k"
  by (simp add: unhex_def ord_hex_digit)

lemma ord_CHR [simp]:
  "ord (CHR ''n'') = 110" "ord (CHR ''r'') = 114" "ord (CHR ''t'') = 116" "ord (CHR ''f'') = 102"
  "ord (CHR ''b'') = 98" "ord (CHR ''u'') = 117" "ord (CHR ''['') = 91" "ord (CHR '']'') = 93"
  "ord (CHR '','') = 44"
  by (simp_all add: ord_def)

lemma unhex_high [simp]: "unhex (hex_digit (ord c div 16)) = ord c div 16"
proof -
  have "ord c div 16 < 16" using ord_less [of c] by linarith
  then show ?thesis by simp
qed

lemma json_unesc_esc [simp]: "json_unesc (json_esc ascii c @ s) = Some (c, s)"
proof -
  consider (short) "ord c \<in> {34, 92, 10, 13, 9, 12, 8}"
    | (hex) "ord c \<notin> {34, 92, 10, 13, 9, 12, 8}" "ord c < 32 \<or> ascii \<and> 126 < ord c"
    | (plain) "ord c \<notin> {34, 92, 10, 13, 9, 12, 8}" "\<not> (ord c < 32 \<or> ascii \<and> 126 < ord c)"
    by blast
  then show ?thesis
  proof cases
    case short
    then have "c \<in> chr ` {34, 92, 10, 13, 9, 12, 8}" by (metis chr_ord imageI)
    then show ?thesis by (auto simp: json_esc_def Let_def chr_def ord_def)
  next
    case hex
    then have "json_esc ascii c = [chr 92, CHR ''u'', CHR ''0'', CHR ''0''] @ hex_byte (ord c)"
      by (simp add: json_esc_def Let_def)
    then show ?thesis by (simp add: hex_byte_def)
  next
    case plain
    then have "json_esc ascii c = [c]" by (auto simp: json_esc_def Let_def)
    with plain show ?thesis by simp
  qed
qed

lemma json_unesc_length: "json_unesc s = Some (c, r) \<Longrightarrow> length r < length s"
  by (cases s) (auto split: if_splits list.splits)

text \<open>The body of a quoted string, up to its closing quote.\<close>

function json_body :: "string \<Rightarrow> string \<times> string" where
  "json_body s = (case json_unesc s of
       None \<Rightarrow> ([], drop 1 s)
     | Some (c, r) \<Rightarrow> (let (w, rest) = json_body r in (c # w, rest)))"
  by pat_completeness auto
termination
  by (relation "measure length") (auto dest: json_unesc_length)

declare json_body.simps [simp del]

lemma json_body_concat: "json_body (concat (map (json_esc ascii) s) @ chr 34 # rest) = (s, rest)"
  by (induction s) (simp_all add: json_body.simps)

lemma json_quote_prefix_free:
  assumes "json_quote a s @ x = json_quote a t @ y"
  shows "s = t \<and> x = y"
proof -
  from assms have "json_body (concat (map (json_esc a) s) @ chr 34 # x)
      = json_body (concat (map (json_esc a) t) @ chr 34 # y)"
    by (simp add: json_quote_def)
  then show ?thesis by (simp add: json_body_concat)
qed

section \<open>Lists\<close>

lemma join_quote_Cons:
  "join '','' (map (json_quote a) (x # xs)) @ '']''
     = json_quote a x @ (if xs = [] then '']'' else '','' @ join '','' (map (json_quote a) xs) @ '']'')"
  by (cases xs) simp_all

lemma json_quote_not_bracket: "json_quote a s @ x \<noteq> '']''"
proof
  assume "json_quote a s @ x = '']''"
  then have "ord (hd (json_quote a s @ x)) = 93" by simp
  then show False by (simp add: json_quote_def)
qed

lemma join_quote_inject:
  "join '','' (map (json_quote a) xs) @ '']'' = join '','' (map (json_quote a) ys) @ '']'' \<Longrightarrow> xs = ys"
proof (induction xs arbitrary: ys)
  case Nil
  then show ?case
    using json_quote_not_bracket [symmetric] by (cases ys) (auto simp: join_quote_Cons simp del: list.map(2))
next
  case (Cons x xs)
  then obtain y ys' where ys: "ys = y # ys'"
    using json_quote_not_bracket by (cases ys) (auto simp: join_quote_Cons simp del: list.map(2))
  let ?tail = "\<lambda>zs. if zs = [] then '']'' else '','' @ join '','' (map (json_quote a) zs) @ '']''"
  from Cons.prems have "json_quote a x @ ?tail xs = json_quote a y @ ?tail ys'"
    unfolding ys join_quote_Cons .
  then have "x = y" and tails: "?tail xs = ?tail ys'"
    using json_quote_prefix_free by blast+
  from tails have "xs = ys'" using Cons.IH by (auto split: if_splits)
  with \<open>x = y\<close> ys show ?case by simp
qed

theorem json_dumps_strs_inject: "json_dumps_strs a xs = json_dumps_strs a ys \<longleftrightarrow> xs = ys"
  unfolding json_dumps_strs_def using join_quote_inject by fastforce

section \<open>UTF-8\<close>

definition utf8_char :: "char \<Rightarrow> string" where
  "utf8_char c = (let n = ord c in if n < 128 then [c] else [chr (192 + n div 64), chr (128 + n mod 64)])"

definition utf8 :: "string \<Rightarrow> string" where
  "utf8 s = concat (map utf8_char s)"

lemma utf8_char_prefix_free:
  assumes "utf8_char c @ x = utf8_char d @ y"
  shows "c = d \<and> x = y"
proof -
  have b: "192 + ord e div 64 < 256" "128 + ord e mod 64 < 256" for e
    using ord_less [of e] by linarith+
  have lead: "c \<noteq> chr (192 + ord d div 64)" if "ord c < 128" for c d
  proof
    assume "c = chr (192 + ord d div 64)"
    then have "ord c = 192 + ord d div 64" using b(1) [of d] by simp
    with that show False by simp
  qed
  show ?thesis
  proof (cases "ord c < 128 \<or> ord d < 128")
    case True
    with assms show ?thesis
      using lead [of c d] lead [of d c] by (auto simp: utf8_char_def Let_def split: if_splits)
  next
    case False
    with assms have "chr (192 + ord c div 64) = chr (192 + ord d div 64)"
      and "chr (128 + ord c mod 64) = chr (128 + ord d mod 64)" and "x = y"
      by (auto simp: utf8_char_def Let_def)
    then have "192 + ord c div 64 = 192 + ord d div 64" "128 + ord c mod 64 = 128 + ord d mod 64"
      using b by (metis ord_chr)+
    then have "ord c = ord d" by (metis add_left_cancel div_mult_mod_eq)
    with \<open>x = y\<close> show ?thesis by simp
  qed
qed

lemma utf8_inject [simp]: "utf8 s = utf8 t \<longleftrightarrow> s = t"
proof
  assume "utf8 s = utf8 t"
  then show "s = t"
  proof (induction s arbitrary: t)
    case Nil
    then show ?case by (cases t) (auto simp: utf8_def utf8_char_def Let_def split: if_splits)
  next
    case (Cons c cs)
    then obtain d ds where t: "t = d # ds"
      by (cases t) (auto simp: utf8_def utf8_char_def Let_def split: if_splits)
    from Cons.prems have "utf8_char c @ utf8 cs = utf8_char d @ utf8 ds"
      by (simp add: t utf8_def)
    then have "c = d" "utf8 cs = utf8 ds" using utf8_char_prefix_free by blast+
    with Cons.IH t show ?case by simp
  qed
qed simp

end
