(* ===== verification/Routing.thy ===== *)
theory Routing
  imports Templating Channel_Config Json_Text
begin

text \<open>
  \<open>channels/event.py\<close> and \<open>channels/routing.py\<close>: the normalized event and the derivation of its
  workspace key, session key and rate keys from the adapter defaults and the channel's templates.
\<close>

section \<open>Events\<close>

record event =
  ev_id :: string
  ev_channel :: string
  ev_type :: string
  ev_source :: string
  ev_payload :: dict
  ev_context :: dict
  ev_actor :: string

record routed_event =
  re_event :: event
  re_workspace_key :: string
  re_session_key :: string
  re_rate_keys :: "string list"

definition re_event_id :: "routed_event \<Rightarrow> string" where
  "re_event_id r = ev_id (re_event r)"

definition re_channel :: "routed_event \<Rightarrow> string" where
  "re_channel r = ev_channel (re_event r)"

section \<open>Routing\<close>

text \<open>
  \<open>RoutingErr\<close> is the module's \<open>RoutingError\<close>; \<open>RoutingExc\<close> an exception Python itself raises
  on a context of the wrong shape; \<open>NonStringKey\<close> stands for a session key that is no string.
\<close>

datatype routing_error =
    RoutingErr string
  | RoutingTemplate string template_error
  | RoutingEmpty string
  | RoutingExc py_exc
  | NonStringKey

definition lift_exc :: "(py_exc, 'a) result \<Rightarrow> (routing_error, 'a) result" where
  "lift_exc r = (case r of Inl e \<Rightarrow> Inl (RoutingExc e) | Inr a \<Rightarrow> Inr a)"

lemma lift_exc_Inr [simp]: "lift_exc r = Inr a \<longleftrightarrow> r = Inr a" "lift_exc (Inr b) = Inr b"
  by (auto simp: lift_exc_def split: sum.splits)

definition session_workspace :: string where "session_workspace = ''session''"

text \<open>\<open>{"id": .., "channel": .., "type": .., **event.context}\<close>: a context key overrides.\<close>

definition routing_context :: "event \<Rightarrow> dict" where
  "routing_context ev =
     [(''event'', JObj (dict_merge
         [(''id'', JStr (ev_id ev)), (''channel'', JStr (ev_channel ev)), (''type'', JStr (ev_type ev))]
         (ev_context ev))),
      (''payload'', JObj (ev_payload ev))]"

text \<open>\<open>event.context.get(k, {})\<close>.\<close>

definition ctx_block :: "event \<Rightarrow> string \<Rightarrow> json" where
  "ctx_block ev k = dict_get (ev_context ev) k (JObj [])"

text \<open>The keys of \<open>_DOMAIN\<close>; \<open>webhook-script\<close> is not one of them.\<close>

fun domain_of :: "channel_type \<Rightarrow> string option" where
  "domain_of CtWebhookScript = None"
| "domain_of t = Some (type_name t)"

definition nonblank_str :: "json \<Rightarrow> bool" where
  "nonblank_str v \<longleftrightarrow> (case v of JStr s \<Rightarrow> strip s \<noteq> [] | _ \<Rightarrow> False)"

definition default_workspace_key :: "event \<Rightarrow> channel_config \<Rightarrow> (routing_error, string) result" where
  "default_workspace_key ev ch =
     (if ev_source ev = ''gitlab'' then
        bind_res (lift_exc (py_get (ctx_block ev ''gitlab'') ''projectId'' JNull)) (\<lambda>project_id.
          if project_id = JNull then Inl (RoutingErr ''gitlab event missing context.gitlab.projectId'')
          else Inr (''gitlab:'' @ ch_name ch @ '':'' @ py_str project_id))
      else if ev_source ev = ''github'' then
        bind_res (lift_exc (py_get (ctx_block ev ''github'') ''repo'' JNull)) (\<lambda>repo.
          if \<not> nonblank_str repo then Inl (RoutingErr ''github event missing context.github.repo'')
          else Inr (''github:'' @ ch_name ch @ '':'' @ py_str repo))
      else (case domain_of (ch_type ch) of
          None \<Rightarrow> Inl (RoutingExc (KeyError (type_name (ch_type ch))))
        | Some d \<Rightarrow> Inr (d @ '':'' @ ch_name ch)))"

definition default_session_key :: "event \<Rightarrow> channel_config \<Rightarrow> (routing_error, string) result" where
  "default_session_key ev ch =
     (if ev_source ev = ''gitlab'' then
        (let g = ctx_block ev ''gitlab'' in
         bind_res (lift_exc (py_in ''mergeRequestIid'' g)) (\<lambda>is_mr.
           if is_mr then bind_res (lift_exc (py_index g ''mergeRequestIid'')) (\<lambda>i. Inr (''mr:'' @ py_str i))
           else bind_res (lift_exc (py_in ''issueIid'' g)) (\<lambda>is_issue.
             if is_issue then bind_res (lift_exc (py_index g ''issueIid'')) (\<lambda>i. Inr (''issue:'' @ py_str i))
             else Inl (RoutingErr ''gitlab event missing mergeRequestIid/issueIid''))))
      else if ev_source ev = ''github'' then
        bind_res (lift_exc (py_get (ctx_block ev ''github'') ''prNumber'' JNull)) (\<lambda>pr_number.
          case pr_number of
            JInt i \<Rightarrow> if i \<le> 0 then Inl (RoutingErr ''github event missing valid context.github.prNumber'')
                       else Inr (''pr:'' @ int_str i)
          | _ \<Rightarrow> Inl (RoutingErr ''github event missing valid context.github.prNumber''))
      else if ch_type ch = CtCron then
        bind_res (lift_exc (py_get (ctx_block ev ''cron'') ''scheduledTick'' JNull)) (\<lambda>tick.
          if \<not> truthy tick then Inl (RoutingErr ''cron event missing context.cron.scheduledTick'')
          else (case tick of JStr s \<Rightarrow> Inr s | _ \<Rightarrow> Inl NonStringKey))
      else if ch_type ch = CtA2a then
        bind_res (lift_exc (py_get (ctx_block ev ''a2a'') ''taskId'' JNull)) (\<lambda>task_id.
        bind_res (lift_exc (py_get (ctx_block ev ''a2a'') ''contextId'' JNull)) (\<lambda>context_id.
          case py_or (py_or context_id task_id) (JStr []) of JStr s \<Rightarrow> Inr s | _ \<Rightarrow> Inl NonStringKey))
      else Inl (RoutingErr ''routing.sessionKey is required''))"

definition render_override :: "string \<Rightarrow> dict \<Rightarrow> string \<Rightarrow> (routing_error, string) result" where
  "render_override template ctx field =
     (case render_routing_template template ctx of
        Inl e \<Rightarrow> Inl (RoutingTemplate field e)
      | Inr rendered \<Rightarrow> if rendered = [] then Inl (RoutingEmpty field) else Inr rendered)"

definition override_workspace :: "channel_config \<Rightarrow> string option" where
  "override_workspace ch = (case ch_routing ch of None \<Rightarrow> None | Some r \<Rightarrow> rt_workspace_key r)"

definition override_session :: "channel_config \<Rightarrow> string option" where
  "override_session ch = (case ch_routing ch of None \<Rightarrow> None | Some r \<Rightarrow> rt_session_key r)"

definition rate_per_key :: "channel_config \<Rightarrow> rate_limit_key_block list" where
  "rate_per_key ch = (case ch_rate_limit ch of None \<Rightarrow> [] | Some r \<Rightarrow> rl_per_key r)"

definition route_session_key :: "event \<Rightarrow> channel_config \<Rightarrow> (routing_error, string) result" where
  "route_session_key ev ch =
     (case override_session ch of
        Some template \<Rightarrow> render_override template (routing_context ev) ''routing.sessionKey''
      | None \<Rightarrow> default_session_key ev ch)"

definition route_workspace_key ::
    "event \<Rightarrow> channel_config \<Rightarrow> string \<Rightarrow> (routing_error, string) result" where
  "route_workspace_key ev ch session_key =
     (case override_workspace ch of
        None \<Rightarrow> default_workspace_key ev ch
      | Some template \<Rightarrow>
          if template = session_workspace
          then bind_res (default_workspace_key ev ch) (\<lambda>w. Inr (json_dumps_strs True [w, session_key]))
          else render_override template (routing_context ev) ''routing.workspaceKey'')"

definition route :: "event \<Rightarrow> channel_config \<Rightarrow> (routing_error, routed_event) result" where
  "route ev ch =
     bind_res (route_session_key ev ch) (\<lambda>session_key.
     bind_res (route_workspace_key ev ch session_key) (\<lambda>workspace_key.
     bind_res (map_res (\<lambda>limit. render_override (rk_key limit) (routing_context ev) ''rateLimit.perKey'')
                 (rate_per_key ch)) (\<lambda>rate_keys.
       Inr \<lparr>re_event = ev, re_workspace_key = workspace_key, re_session_key = session_key,
            re_rate_keys = rate_keys\<rparr>)))"

lemma route_Inr_iff:
  "route ev ch = Inr r \<longleftrightarrow>
     route_session_key ev ch = Inr (re_session_key r)
     \<and> route_workspace_key ev ch (re_session_key r) = Inr (re_workspace_key r)
     \<and> map_res (\<lambda>limit. render_override (rk_key limit) (routing_context ev) ''rateLimit.perKey'')
         (rate_per_key ch) = Inr (re_rate_keys r)
     \<and> re_event r = ev"
  by (cases r) (auto simp: route_def)

lemma render_override_nonempty: "render_override t ctx f = Inr s \<Longrightarrow> s \<noteq> []"
  by (auto simp: render_override_def split: sum.splits if_splits)

lemma map_res_all: "map_res f xs = Inr ys \<Longrightarrow> (\<And>x y. f x = Inr y \<Longrightarrow> P y) \<Longrightarrow> list_all P ys"
  by (induction xs arbitrary: ys) auto

lemma default_workspace_key_nonempty: "default_workspace_key ev ch = Inr s \<Longrightarrow> s \<noteq> []"
  by (auto simp: default_workspace_key_def split: if_splits option.splits)

section \<open>Properties\<close>

text \<open>
  \<open>routing.workspaceKey: session\<close> gives one workspace per session: two events routed on
  session-scoped channels share a workspace key only when they agree on the session key and on
  the default workspace, so equal session keys of two projects never meet in one workspace.
\<close>

theorem session_workspace_separates:
  assumes "route ev ch = Inr r" and "route ev' ch' = Inr r'"
    and "override_workspace ch = Some session_workspace"
    and "override_workspace ch' = Some session_workspace"
    and "re_workspace_key r = re_workspace_key r'"
  shows "re_session_key r = re_session_key r'
    \<and> default_workspace_key ev ch = default_workspace_key ev' ch'"
proof -
  have key: "\<exists>w. default_workspace_key ev ch = Inr w
               \<and> re_workspace_key r = json_dumps_strs True [w, re_session_key r]"
    if "route ev ch = Inr r" "override_workspace ch = Some session_workspace" for ev ch r
    using that by (auto simp: route_Inr_iff route_workspace_key_def)
  from key [OF assms(1,3)] key [OF assms(2,4)] assms(5) show ?thesis
    by (auto simp: json_dumps_strs_inject)
qed

definition example_queue_event :: event where
  "example_queue_event = \<lparr>ev_id = ''1-0'', ev_channel = ''jobs'', ev_type = ''queue'', ev_source = ''queue'',
     ev_payload = [(''id'', JStr ''a'')], ev_context = [], ev_actor = []\<rparr>"

definition example_queue_event2 :: event where
  "example_queue_event2 = example_queue_event\<lparr>ev_id := ''2-0''\<rparr>"

lemma example_queue_route:
  "\<exists>r. route example_queue_event example_queue_channel = Inr r"
  "\<exists>r. route example_queue_event2 example_queue_channel = Inr r"
proof -
  have "\<not> isl (route example_queue_event example_queue_channel)"
    "\<not> isl (route example_queue_event2 example_queue_channel)" by code_simp+
  then show "\<exists>r. route example_queue_event example_queue_channel = Inr r"
    "\<exists>r. route example_queue_event2 example_queue_channel = Inr r" by (metis sum.collapse(2))+
qed

lemma example_queue_keys:
  "route_session_key example_queue_event example_queue_channel = Inr ''a''"
  "route_session_key example_queue_event2 example_queue_channel = Inr ''a''"
  "default_workspace_key example_queue_event example_queue_channel = Inr ''queue:jobs''"
  "default_workspace_key example_queue_event2 example_queue_channel = Inr ''queue:jobs''"
  "override_workspace example_queue_channel = Some session_workspace"
  by code_simp+

theorem session_workspace_separates_witness:
  "\<exists>r r'. route example_queue_event example_queue_channel = Inr r
     \<and> route example_queue_event2 example_queue_channel = Inr r'
     \<and> re_workspace_key r = re_workspace_key r' \<and> re_session_key r = re_session_key r'"
proof -
  obtain r r' where r: "route example_queue_event example_queue_channel = Inr r"
    and r': "route example_queue_event2 example_queue_channel = Inr r'"
    using example_queue_route by blast
  from r r' have w: "re_workspace_key r = re_workspace_key r'"
    by (auto simp: route_Inr_iff route_workspace_key_def example_queue_keys)
  from session_workspace_separates [OF r r' example_queue_keys(5) example_queue_keys(5) w] r r' w
  show ?thesis by blast
qed

text \<open>
  A template override is never replaced by a default: when a routed event comes out, each
  configured template rendered to a nonempty string, and the rate keys are the rendered
  \<open>rateLimit.perKey\<close> templates in configuration order, one per limit.
\<close>

theorem route_overrides_rendered:
  assumes "route ev ch = Inr r"
  shows "(\<forall>t. override_session ch = Some t \<longrightarrow>
            render_routing_template t (routing_context ev) = Inr (re_session_key r) \<and> re_session_key r \<noteq> [])
    \<and> (\<forall>t. override_workspace ch = Some t \<and> t \<noteq> session_workspace \<longrightarrow>
            render_routing_template t (routing_context ev) = Inr (re_workspace_key r))
    \<and> re_workspace_key r \<noteq> []
    \<and> length (re_rate_keys r) = length (rate_per_key ch)
    \<and> list_all (\<lambda>k. k \<noteq> []) (re_rate_keys r)"
proof -
  note parts = assms [unfolded route_Inr_iff]
  have "list_all (\<lambda>k. k \<noteq> []) (re_rate_keys r)"
    using parts by (blast intro: map_res_all dest: render_override_nonempty)
  moreover have "length (re_rate_keys r) = length (rate_per_key ch)"
    using parts map_res_length by blast
  moreover have "re_workspace_key r \<noteq> []"
    using parts by (auto simp: route_workspace_key_def json_dumps_strs_def
      dest: render_override_nonempty default_workspace_key_nonempty split: option.splits if_splits)
  ultimately show ?thesis
    using parts by (auto simp: route_session_key_def route_workspace_key_def render_override_def
      split: sum.splits if_splits)
qed

theorem route_overrides_rendered_witness:
  "\<exists>r. route example_queue_event example_queue_channel = Inr r
     \<and> render_routing_template ''{{payload.id}}'' (routing_context example_queue_event) = Inr (re_session_key r)"
proof -
  obtain r where r: "route example_queue_event example_queue_channel = Inr r"
    using example_queue_route by blast
  have "override_session example_queue_channel = Some ''{{payload.id}}''" by code_simp
  with route_overrides_rendered [OF r] r show ?thesis by blast
qed

end
