(* ===== verification/Gitlab.thy ===== *)
theory Gitlab
  imports Routing
begin

text \<open>
  \<open>channels/gitlab.py\<close>: a GitLab webhook payload becomes an event, is ignored (\<open>Inr None\<close>) or
  is rejected. The lemmas show that an accepted event carries a redelivery-stable id, passes the
  actor filters and can always be routed.
\<close>

section \<open>Definitions\<close>

datatype gitlab_error =
    MalformedGitlabEventError string
  | GitlabExc py_exc
  | NoWebhookBlock

type_synonym headers = "(string \<times> string) list"

definition gl_exc :: "(py_exc, 'a) result \<Rightarrow> (gitlab_error, 'a) result" where
  "gl_exc r = (case r of Inl e \<Rightarrow> Inl (GitlabExc e) | Inr a \<Rightarrow> Inr a)"

lemma gl_exc_Inr [simp]: "gl_exc r = Inr a \<longleftrightarrow> r = Inr a" "gl_exc (Inr b) = Inr b"
  by (auto simp: gl_exc_def split: sum.splits)

text \<open>\<open>payload.get(k) or {}\<close>.\<close>

definition get_or_empty :: "dict \<Rightarrow> string \<Rightarrow> json" where
  "get_or_empty d k = py_or (dict_get d k JNull) (JObj [])"

definition gitlab_actor :: "dict \<Rightarrow> (gitlab_error, string) result" where
  "gitlab_actor body =
     bind_res (gl_exc (py_get (get_or_empty body ''user'') ''username'' (JStr []))) (\<lambda>u.
       Inr (py_str (py_or u (dict_get body ''user_username'' (JStr [])))))"

definition project_path_fields :: "dict \<Rightarrow> (gitlab_error, dict) result" where
  "project_path_fields body =
     bind_res (gl_exc (py_get (get_or_empty body ''project'') ''path_with_namespace'' (JStr []))) (\<lambda>p.
       let path = py_str (py_or (py_or p (dict_get body ''path_with_namespace'' (JStr []))) (JStr []))
       in Inr (if path \<noteq> [] then [(''projectPath'', JStr path)] else []))"

definition mr_head_sha :: "json \<Rightarrow> (gitlab_error, string) result" where
  "mr_head_sha container =
     bind_res (gl_exc (py_get container ''last_commit'' JNull)) (\<lambda>last_commit.
       Inr (case last_commit of JObj d \<Rightarrow> py_str (dict_get d ''id'' (JStr [])) | _ \<Rightarrow> []))"

definition get_field :: "json \<Rightarrow> string \<Rightarrow> string \<Rightarrow> (gitlab_error, json) result" where
  "get_field mapping key field =
     (case py_index mapping key of
        Inl e \<Rightarrow> Inl (MalformedGitlabEventError field)
      | Inr v \<Rightarrow> Inr v)"

definition require_id :: "json \<Rightarrow> string \<Rightarrow> (gitlab_error, string) result" where
  "require_id value field =
     (case value of
        JInt i \<Rightarrow> Inr (int_str i)
      | JStr s \<Rightarrow> (case py_int_of_str s of
            None \<Rightarrow> Inl (MalformedGitlabEventError field)
          | Some i \<Rightarrow> Inr (int_str i))
      | _ \<Rightarrow> Inl (MalformedGitlabEventError field))"

definition event_id :: "headers \<Rightarrow> (gitlab_error, string) result" where
  "event_id hs =
     (let a = (case map_of hs ''X-Gitlab-Event-UUID'' of None \<Rightarrow> [] | Some v \<Rightarrow> v);
          b = (case map_of hs ''x-gitlab-event-uuid'' of None \<Rightarrow> [] | Some v \<Rightarrow> v);
          e = (if a \<noteq> [] then a else b)
      in if e = [] then Inl (MalformedGitlabEventError ''X-Gitlab-Event-UUID'') else Inr e)"

definition build :: "dict \<Rightarrow> headers \<Rightarrow> channel_config \<Rightarrow> string \<Rightarrow> dict
    \<Rightarrow> (gitlab_error, event option) result" where
  "build payload hs ch kd gitlab_context =
     (case ch_webhook ch of
        None \<Rightarrow> Inl NoWebhookBlock
      | Some wh \<Rightarrow>
          bind_res (gitlab_actor payload) (\<lambda>actor.
            if (case wh_bot_username wh of None \<Rightarrow> False | Some b \<Rightarrow> b \<noteq> [] \<and> actor = b) then Inr None
            else if (case wh_trigger_users wh of None \<Rightarrow> False | Some us \<Rightarrow> actor \<notin> set us) then Inr None
            else bind_res (event_id hs) (\<lambda>eid.
              Inr (Some \<lparr>ev_id = eid, ev_channel = ch_name ch, ev_type = kd, ev_source = ''gitlab'',
                         ev_payload = payload, ev_context = [(''gitlab'', JObj gitlab_context)],
                         ev_actor = actor\<rparr>))))"

definition project_id_of :: "dict \<Rightarrow> (gitlab_error, string) result" where
  "project_id_of payload =
     bind_res (get_field (get_or_empty payload ''project'') ''id'' ''project.id'') (\<lambda>v.
       require_id v ''project.id'')"

text \<open>\<open>{"projectId": .., key: iid, **_project_path_fields(payload)}\<close>.\<close>

definition target_context :: "dict \<Rightarrow> string \<Rightarrow> string \<Rightarrow> string \<Rightarrow> (gitlab_error, dict) result" where
  "target_context payload project_id key iid =
     bind_res (project_path_fields payload) (\<lambda>path.
       Inr (dict_merge [(''projectId'', JStr project_id), (key, JStr iid)] path))"

text \<open>The merge-request branch, shared by the event (container: the attributes) and by its notes.\<close>

definition mr_event :: "dict \<Rightarrow> headers \<Rightarrow> channel_config \<Rightarrow> json \<Rightarrow> string \<Rightarrow> string
    \<Rightarrow> (gitlab_error, event option) result" where
  "mr_event payload hs ch container field kd =
     bind_res (project_id_of payload) (\<lambda>project_id.
     bind_res (get_field container ''iid'' field) (\<lambda>v.
     bind_res (require_id v field) (\<lambda>mr_iid.
     bind_res (target_context payload project_id ''mergeRequestIid'' mr_iid) (\<lambda>ctx.
     bind_res (mr_head_sha container) (\<lambda>head_sha.
       build payload hs ch kd
         (if head_sha \<noteq> [] then dict_set ctx ''headSha'' (JStr head_sha) else ctx))))))"

definition issue_event :: "dict \<Rightarrow> headers \<Rightarrow> channel_config \<Rightarrow> json \<Rightarrow> string \<Rightarrow> string
    \<Rightarrow> (gitlab_error, event option) result" where
  "issue_event payload hs ch container field kd =
     bind_res (project_id_of payload) (\<lambda>project_id.
     bind_res (get_field container ''iid'' field) (\<lambda>v.
     bind_res (require_id v field) (\<lambda>issue_iid.
     bind_res (target_context payload project_id ''issueIid'' issue_iid) (\<lambda>ctx.
       build payload hs ch kd ctx))))"

definition allowed_events :: "webhook_block \<Rightarrow> string list" where
  "allowed_events wh =
     (case wh_gitlab_events wh of
        None \<Rightarrow> conversational_gitlab_events
      | Some evs \<Rightarrow> if evs = [] then conversational_gitlab_events else evs)"

text \<open>\<open>kind in allowed\<close>: an unhashable kind raises.\<close>

definition kind_allowed :: "json \<Rightarrow> string list \<Rightarrow> (gitlab_error, bool) result" where
  "kind_allowed kind allowed =
     (case kind of
        JStr k \<Rightarrow> Inr (k \<in> set allowed)
      | JList _ \<Rightarrow> Inl (GitlabExc TypeError)
      | JObj _ \<Rightarrow> Inl (GitlabExc TypeError)
      | _ \<Rightarrow> Inr False)"

definition note_event :: "dict \<Rightarrow> headers \<Rightarrow> channel_config \<Rightarrow> webhook_block
    \<Rightarrow> (gitlab_error, event option) result" where
  "note_event payload hs ch wh =
     (let allowed = allowed_events wh; attrs = get_or_empty payload ''object_attributes'' in
      bind_res (gl_exc (py_get attrs ''system'' JNull)) (\<lambda>system.
        if truthy system then Inr None
        else bind_res (gl_exc (py_get attrs ''noteable_type'' (JStr []))) (\<lambda>nt.
          let noteable = lower (py_str nt) in
          if noteable = ''mergerequest'' \<and> ''merge_request'' \<in> set allowed then
            mr_event payload hs ch (get_or_empty payload ''merge_request'') ''merge_request.iid'' ''note''
          else if noteable = ''issue'' \<and> ''issue'' \<in> set allowed then
            (if wh_merge_requests_only wh then Inr None
             else issue_event payload hs ch (get_or_empty payload ''issue'') ''issue.iid'' ''note'')
          else Inr None)))"

definition script_event :: "dict \<Rightarrow> headers \<Rightarrow> channel_config \<Rightarrow> json
    \<Rightarrow> (gitlab_error, event option) result" where
  "script_event payload hs ch kind =
     bind_res (gl_exc (py_get (get_or_empty payload ''project'') ''id'' JNull)) (\<lambda>pid.
     bind_res (require_id (py_or pid (dict_get payload ''project_id'' JNull)) ''project.id or project_id'') (\<lambda>project_id.
     bind_res (project_path_fields payload) (\<lambda>path.
       build payload hs ch (py_str kind) (dict_merge [(''projectId'', JStr project_id)] path))))"

definition event_kind :: "dict \<Rightarrow> json" where
  "event_kind payload =
     py_or (py_or (dict_get payload ''object_kind'' JNull) (dict_get payload ''event_name'' JNull)) (JStr [])"

definition normalize_gitlab :: "dict \<Rightarrow> headers \<Rightarrow> channel_config \<Rightarrow> (gitlab_error, event option) result" where
  "normalize_gitlab payload hs ch =
     (case ch_webhook ch of
        None \<Rightarrow> Inl NoWebhookBlock
      | Some wh \<Rightarrow>
         (let allowed = allowed_events wh; kind = event_kind payload in
          if kind = JStr ''merge_request'' \<and> ''merge_request'' \<in> set allowed then
            mr_event payload hs ch (get_or_empty payload ''object_attributes'')
              ''object_attributes.iid'' ''merge_request''
          else if kind = JStr ''issue'' \<and> ''issue'' \<in> set allowed then
            (if wh_merge_requests_only wh then Inr None
             else issue_event payload hs ch (get_or_empty payload ''object_attributes'')
               ''object_attributes.iid'' ''issue'')
          else if kind = JStr ''note'' \<and> ''note'' \<in> set allowed then note_event payload hs ch wh
          else if ch_type ch = CtWebhookScript \<and> wh_gitlab_events wh \<noteq> None then
            bind_res (kind_allowed kind allowed) (\<lambda>ok.
              if ok then script_event payload hs ch kind else Inr None)
          else Inr None))"

section \<open>Inversion\<close>

text \<open>What an accepted event looks like: it was built from one of three contexts.\<close>

lemma build_Some:
  "build payload hs ch t ctx = Inr (Some ev) \<longleftrightarrow>
     (\<exists>wh actor eid. ch_webhook ch = Some wh \<and> gitlab_actor payload = Inr actor \<and> event_id hs = Inr eid
        \<and> (\<forall>b. wh_bot_username wh = Some b \<and> b \<noteq> [] \<longrightarrow> actor \<noteq> b)
        \<and> (\<forall>us. wh_trigger_users wh = Some us \<longrightarrow> actor \<in> set us)
        \<and> ev = \<lparr>ev_id = eid, ev_channel = ch_name ch, ev_type = t, ev_source = ''gitlab'',
                ev_payload = payload, ev_context = [(''gitlab'', JObj ctx)], ev_actor = actor\<rparr>)"
  by (auto simp: build_def split: option.splits if_splits)

lemma event_id_nonempty: "event_id hs = Inr e \<Longrightarrow> e \<noteq> []"
  by (auto simp: event_id_def Let_def split: if_splits)

lemma require_id_decimal: "require_id v f = Inr s \<Longrightarrow> \<exists>i. s = int_str i"
  by (auto simp: require_id_def split: json.splits option.splits)

lemma project_path_fields_keys: "project_path_fields b = Inr d \<Longrightarrow> fst ` set d \<subseteq> {''projectPath''}"
  by (auto simp: project_path_fields_def Let_def split: if_splits)

lemma map_of_target_context:
  assumes "target_context payload pid key iid = Inr ctx" "key \<noteq> ''projectId''" "key \<noteq> ''projectPath''"
  shows "map_of ctx ''projectId'' = Some (JStr pid)" "map_of ctx key = Some (JStr iid)"
    "k \<notin> {''projectId'', key, ''projectPath''} \<Longrightarrow> map_of ctx k = None"
proof -
  from assms(1) obtain path where path: "project_path_fields payload = Inr path"
    and ctx: "ctx = dict_merge [(''projectId'', JStr pid), (key, JStr iid)] path"
    by (auto simp: target_context_def)
  have keys: "fst ` set path \<subseteq> {''projectPath''}" using path by (rule project_path_fields_keys)
  have "''projectId'' \<notin> fst ` set path" "key \<notin> fst ` set path"
    "k \<notin> {''projectId'', key, ''projectPath''} \<Longrightarrow> k \<notin> fst ` set path"
    using keys assms(2,3) by auto
  note out = this [THEN map_of_dict_merge_notin]
  show "map_of ctx ''projectId'' = Some (JStr pid)" "map_of ctx key = Some (JStr iid)"
    "k \<notin> {''projectId'', key, ''projectPath''} \<Longrightarrow> map_of ctx k = None"
    using out assms(2,3) unfolding ctx by auto
qed

inductive gitlab_target :: "dict \<Rightarrow> bool" where
  mr: "map_of ctx ''projectId'' = Some (JStr (int_str p)) \<Longrightarrow>
       map_of ctx ''mergeRequestIid'' = Some (JStr (int_str i)) \<Longrightarrow>
       map_of ctx ''issueIid'' = None \<Longrightarrow> gitlab_target ctx"
| issue: "map_of ctx ''projectId'' = Some (JStr (int_str p)) \<Longrightarrow>
       map_of ctx ''mergeRequestIid'' = None \<Longrightarrow>
       map_of ctx ''issueIid'' = Some (JStr (int_str i)) \<Longrightarrow> gitlab_target ctx"

lemma mr_event_Some:
  assumes "mr_event payload hs ch container f t = Inr (Some ev)"
  shows "\<exists>ctx. gitlab_target ctx \<and> map_of ctx ''issueIid'' = None
           \<and> build payload hs ch t ctx = Inr (Some ev)"
proof -
  from assms obtain v mr_iid w pid ctx sha where
      ids: "project_id_of payload = Inr pid" "require_id v f = Inr mr_iid"
    and ctx: "target_context payload pid ''mergeRequestIid'' mr_iid = Inr ctx"
    and b: "build payload hs ch t (if sha \<noteq> [] then dict_set ctx ''headSha'' (JStr sha) else ctx) = Inr (Some ev)"
    by (auto simp: mr_event_def)
  let ?ctx = "if sha \<noteq> [] then dict_set ctx ''headSha'' (JStr sha) else ctx"
  from ids obtain p i where "pid = int_str p" "mr_iid = int_str i"
    by (auto simp: project_id_of_def dest!: require_id_decimal)
  with map_of_target_context [OF ctx] have "map_of ?ctx ''projectId'' = Some (JStr (int_str p))"
    "map_of ?ctx ''mergeRequestIid'' = Some (JStr (int_str i))" "map_of ?ctx ''issueIid'' = None"
    by auto
  with b show ?thesis by (intro exI [of _ ?ctx]) (auto intro: gitlab_target.mr)
qed

lemma issue_event_Some:
  assumes "issue_event payload hs ch container f t = Inr (Some ev)"
  shows "\<exists>ctx. gitlab_target ctx \<and> build payload hs ch t ctx = Inr (Some ev)"
proof -
  from assms obtain v iid pid ctx where
      ids: "project_id_of payload = Inr pid" "require_id v f = Inr iid"
    and ctx: "target_context payload pid ''issueIid'' iid = Inr ctx"
    and b: "build payload hs ch t ctx = Inr (Some ev)"
    by (auto simp: issue_event_def)
  from ids obtain p i where "pid = int_str p" "iid = int_str i"
    by (auto simp: project_id_of_def dest!: require_id_decimal)
  with map_of_target_context [OF ctx] have "gitlab_target ctx"
    by (intro gitlab_target.issue [of ctx p i]) auto
  with b show ?thesis by blast
qed

lemma normalize_gitlab_Some:
  assumes "normalize_gitlab payload hs ch = Inr (Some ev)" "ch_type ch \<noteq> CtWebhookScript"
  shows "\<exists>wh t ctx. ch_webhook ch = Some wh \<and> gitlab_target ctx
           \<and> (wh_merge_requests_only wh \<longrightarrow> map_of ctx ''issueIid'' = None)
           \<and> build payload hs ch t ctx = Inr (Some ev)"
proof -
  from assms(1) obtain wh where wh: "ch_webhook ch = Some wh"
    by (auto simp: normalize_gitlab_def split: option.splits)
  show ?thesis
    using assms wh
    by (auto simp: normalize_gitlab_def note_event_def Let_def
        dest!: mr_event_Some issue_event_Some split: if_splits)
qed

section \<open>Properties\<close>

text \<open>
  An accepted GitLab event keeps its delivery identity and passes the filters: its id is the
  nonempty delivery header, its channel and payload are the ones received, its author is neither
  the bot nor outside the trigger list, and with \<open>mergeRequestsOnly\<close> it targets no issue.
\<close>

theorem gitlab_event_filtered:
  assumes "normalize_gitlab payload hs ch = Inr (Some ev)" "ch_type ch \<noteq> CtWebhookScript"
  shows "\<exists>wh g. ch_webhook ch = Some wh \<and> ev_context ev = [(''gitlab'', JObj g)]
    \<and> event_id hs = Inr (ev_id ev) \<and> ev_id ev \<noteq> []
    \<and> ev_channel ev = ch_name ch \<and> ev_source ev = ''gitlab'' \<and> ev_payload ev = payload
    \<and> (\<forall>b. wh_bot_username wh = Some b \<and> b \<noteq> [] \<longrightarrow> ev_actor ev \<noteq> b)
    \<and> (\<forall>us. wh_trigger_users wh = Some us \<longrightarrow> ev_actor ev \<in> set us)
    \<and> (wh_merge_requests_only wh \<longrightarrow> map_of g ''issueIid'' = None)"
  using normalize_gitlab_Some [OF assms] event_id_nonempty by (fastforce simp: build_Some)

definition example_gitlab_channel :: channel_config where
  "example_gitlab_channel =
     \<lparr>ch_name = ''gl'', ch_type = CtWebhook, ch_concurrency = 1, ch_source = Some SrcGitlab,
      ch_routing = None, ch_rate_limit = None, ch_prompt = None,
      ch_webhook = Some \<lparr>wh_auth = \<lparr>wa_type = AuthGitlabToken, wa_env = Some ''T'', wa_header = []\<rparr>,
        wh_gitlab_events = None, wh_bot_username = Some ''bot'', wh_trigger_users = None,
        wh_merge_requests_only = True\<rparr>,
      ch_handoff = None, ch_script = None, ch_cron = None, ch_queue = None, ch_a2a = None\<rparr>"

definition example_gitlab_payload :: dict where
  "example_gitlab_payload =
     [(''object_kind'', JStr ''merge_request''), (''user'', JObj [(''username'', JStr ''ana'')]),
      (''project'', JObj [(''id'', JInt 42)]), (''object_attributes'', JObj [(''iid'', JInt 7)])]"

lemma example_gitlab_event:
  "\<exists>ev. normalize_gitlab example_gitlab_payload [(''X-Gitlab-Event-UUID'', ''u-1'')] example_gitlab_channel
      = Inr (Some ev)"
proof -
  let ?r = "normalize_gitlab example_gitlab_payload [(''X-Gitlab-Event-UUID'', ''u-1'')] example_gitlab_channel"
  have "\<not> isl ?r \<and> projr ?r \<noteq> None" by code_simp
  then show ?thesis by (metis option.exhaust sum.collapse(2))
qed

theorem gitlab_event_filtered_witness:
  "\<exists>ev. normalize_gitlab example_gitlab_payload [(''X-Gitlab-Event-UUID'', ''u-1'')] example_gitlab_channel
      = Inr (Some ev) \<and> ev_id ev \<noteq> []"
proof -
  obtain ev where ev: "normalize_gitlab example_gitlab_payload [(''X-Gitlab-Event-UUID'', ''u-1'')]
      example_gitlab_channel = Inr (Some ev)"
    using example_gitlab_event by blast
  have "ch_type example_gitlab_channel \<noteq> CtWebhookScript" by code_simp
  from gitlab_event_filtered [OF ev this] ev show ?thesis by blast
qed

definition keyed :: "event \<Rightarrow> channel_config \<Rightarrow> int \<Rightarrow> string \<Rightarrow> routed_event" where
  "keyed ev ch project session =
     \<lparr>re_event = ev, re_workspace_key = ''gitlab:'' @ ch_name ch @ '':'' @ int_str project,
      re_session_key = session, re_rate_keys = []\<rparr>"

text \<open>
  Every event the GitLab adapter accepts on a conversational channel without routing
  templates and rate limits can be routed: to the workspace of its numeric project and to the
  session of its merge request or issue.
\<close>

theorem gitlab_event_routes:
  assumes "normalize_gitlab payload hs ch = Inr (Some ev)" "ch_type ch \<noteq> CtWebhookScript"
    and "ch_routing ch = None" "ch_rate_limit ch = None"
  shows "\<exists>g p i. ctx_block ev ''gitlab'' = JObj g \<and> map_of g ''projectId'' = Some (JStr (int_str p))
    \<and> (map_of g ''mergeRequestIid'' = Some (JStr (int_str i))
         \<and> route ev ch = Inr (keyed ev ch p (''mr:'' @ int_str i))
       \<or> map_of g ''issueIid'' = Some (JStr (int_str i))
         \<and> route ev ch = Inr (keyed ev ch p (''issue:'' @ int_str i)))"
proof -
  from normalize_gitlab_Some [OF assms(1,2)] obtain wh t ctx where
      target: "gitlab_target ctx" and "build payload hs ch t ctx = Inr (Some ev)"
    by blast
  then have ev: "ev_source ev = ''gitlab''" "ctx_block ev ''gitlab'' = JObj ctx"
    by (auto simp: build_Some ctx_block_def dict_get_def)
  note defs = route_def route_session_key_def route_workspace_key_def override_session_def
    override_workspace_def rate_per_key_def default_session_key_def default_workspace_key_def
    dict_has_def dict_get_def keyed_def assms ev
  from target show ?thesis
  proof cases
    case (mr p i)
    then show ?thesis
      by (intro exI [of _ ctx] exI [of _ p] exI [of _ i]) (simp add: defs)
  next
    case (issue p i)
    then show ?thesis
      by (intro exI [of _ ctx] exI [of _ p] exI [of _ i]) (simp add: defs)
  qed
qed

theorem gitlab_event_routes_witness:
  "\<exists>ev p session. normalize_gitlab example_gitlab_payload [(''X-Gitlab-Event-UUID'', ''u-1'')] example_gitlab_channel
      = Inr (Some ev)
    \<and> route ev example_gitlab_channel = Inr (keyed ev example_gitlab_channel p session)"
proof -
  obtain ev where ev: "normalize_gitlab example_gitlab_payload [(''X-Gitlab-Event-UUID'', ''u-1'')]
      example_gitlab_channel = Inr (Some ev)"
    using example_gitlab_event by blast
  have cfg: "ch_type example_gitlab_channel \<noteq> CtWebhookScript" "ch_routing example_gitlab_channel = None"
    "ch_rate_limit example_gitlab_channel = None"
    by (simp_all add: example_gitlab_channel_def)
  from gitlab_event_routes [OF ev cfg] ev show ?thesis by blast
qed

end
