(* ===== verification/Webhook.thy ===== *)
theory Webhook
  imports Gitlab
begin

text \<open>
  \<open>channels/auth.py\<close> (webhook authentication) and \<open>channels/webhook.py\<close> (normalization of a
  GitHub or generic delivery). HMAC-SHA256 is an argument: \<open>hmac key msg\<close> is the hex digest. So is
  the process environment, \<open>environ\<close>.
\<close>

section \<open>Authentication\<close>

definition resolve_env_secret :: "(string \<Rightarrow> string option) \<Rightarrow> string option \<Rightarrow> string" where
  "resolve_env_secret environ env_name =
     (case env_name of
        None \<Rightarrow> []
      | Some n \<Rightarrow> if n = [] then [] else (case environ n of None \<Rightarrow> [] | Some v \<Rightarrow> v))"

definition sha256_prefix :: string where "sha256_prefix = ''sha256=''"

definition verify_hmac ::
    "(string \<Rightarrow> string \<Rightarrow> string) \<Rightarrow> (string \<Rightarrow> string option) \<Rightarrow> string \<Rightarrow> string option \<Rightarrow> string \<Rightarrow> bool" where
  "verify_hmac hmac environ signature env_name raw_body =
     (if signature = [] then False
      else let sig = (if prefix sha256_prefix signature then drop (length sha256_prefix) signature else signature);
               secret = resolve_env_secret environ env_name
           in if secret = [] then False
              else utf8 sig = utf8 (hmac (utf8 secret) raw_body))"

definition verify_header_token :: "(string \<Rightarrow> string option) \<Rightarrow> string \<Rightarrow> string option \<Rightarrow> bool" where
  "verify_header_token environ header_token env_name =
     (let secret = resolve_env_secret environ env_name
      in if header_token = [] \<or> secret = [] then False else utf8 header_token = utf8 secret)"

definition header_or_empty :: "headers \<Rightarrow> string \<Rightarrow> string" where
  "header_or_empty hs k = (case map_of hs k of None \<Rightarrow> [] | Some v \<Rightarrow> v)"

definition verify_webhook_auth ::
    "(string \<Rightarrow> string \<Rightarrow> string) \<Rightarrow> (string \<Rightarrow> string option) \<Rightarrow> webhook_auth_block \<Rightarrow> headers \<Rightarrow> string \<Rightarrow> bool" where
  "verify_webhook_auth hmac environ auth lower_headers raw_body =
     (case wa_type auth of
        AuthNone \<Rightarrow> True
      | AuthGitlabToken \<Rightarrow> verify_header_token environ (header_or_empty lower_headers ''x-gitlab-token'') (wa_env auth)
      | AuthHmac \<Rightarrow> verify_hmac hmac environ (header_or_empty lower_headers ''x-hub-signature-256'') (wa_env auth) raw_body
      | AuthHeaderToken \<Rightarrow> verify_header_token environ (header_or_empty lower_headers (lower (wa_header auth))) (wa_env auth))"

section \<open>Normalization\<close>

datatype webhook_error =
    WebhookGitlab gitlab_error
  | UnsupportedSource
  | MissingWebhookDeliveryId
  | WebhookValueError string
  | WebhookExc py_exc

definition generic_id_headers :: "string list" where
  "generic_id_headers =
     [''x-github-delivery'', ''x-gitlab-event-uuid'', ''svix-id'', ''x-request-id'', ''idempotency-key'']"

text \<open>\<open>int(v)\<close> of a decoded value.\<close>

fun py_int :: "json \<Rightarrow> (py_exc, int) result" where
  "py_int (JInt i) = Inr i"
| "py_int (JBool b) = Inr (if b then 1 else 0)"
| "py_int (JFloat (PyFin t v)) = Inr (if 0 \<le> v then \<lfloor>v\<rfloor> else \<lceil>v\<rceil>)"
| "py_int (JFloat (PyInf n)) = Inl OverflowError"
| "py_int (JFloat PyNan) = Inl ValueError"
| "py_int (JStr s) = (case py_int_of_str s of None \<Rightarrow> Inl ValueError | Some i \<Rightarrow> Inr i)"
| "py_int _ = Inl TypeError"

text \<open>The two lookups of \<open>_parse_github\<close> under one \<open>try\<close>: \<open>KeyError\<close> and \<open>TypeError\<close> become ValueError.\<close>

definition github_fields :: "dict \<Rightarrow> (py_exc, json \<times> json) result" where
  "github_fields payload =
     bind_res (py_index (JObj payload) ''repository'') (\<lambda>repository.
     bind_res (py_index repository ''full_name'') (\<lambda>repo.
       let number = dict_get payload ''number'' JNull in
       if truthy number then Inr (repo, number)
       else bind_res (py_index (JObj payload) ''pull_request'') (\<lambda>pr.
            bind_res (py_index pr ''number'') (\<lambda>n. Inr (repo, n)))))"

definition parse_github :: "dict \<Rightarrow> (webhook_error, string \<times> int) result" where
  "parse_github payload =
     (case github_fields payload of
        Inl e \<Rightarrow> Inl (WebhookValueError ''missing identity'')
      | Inr (repo, raw_number) \<Rightarrow>
          (case repo of
             JStr r \<Rightarrow>
               if strip r = [] then Inl (WebhookValueError ''full_name'')
               else (case raw_number of
                   JBool b \<Rightarrow> Inl (WebhookValueError ''number must be an integer'')
                 | _ \<Rightarrow> (case py_int raw_number of
                       Inl e \<Rightarrow> Inl (WebhookExc e)
                     | Inr n \<Rightarrow> if n \<le> 0 then Inl (WebhookValueError ''number must be positive'')
                                else Inr (r, n)))
           | _ \<Rightarrow> Inl (WebhookValueError ''full_name'')))"

fun header :: "headers \<Rightarrow> string \<Rightarrow> string" where
  "header [] name = []"
| "header ((k, v) # hs) name = (if lower k = name then v else header hs name)"

text \<open>The \<open>for\<close> loop with \<open>break\<close>: the first supported header with a nonempty value.\<close>

fun first_header :: "headers \<Rightarrow> string list \<Rightarrow> string" where
  "first_header hs [] = []"
| "first_header hs (n # ns) = (if header hs n \<noteq> [] then header hs n else first_header hs ns)"

definition normalize_webhook :: "dict \<Rightarrow> headers \<Rightarrow> channel_config \<Rightarrow> (webhook_error, event option) result" where
  "normalize_webhook payload hs ch =
     (if ch_source ch = Some SrcGitlab then
        (case normalize_gitlab payload hs ch of Inl e \<Rightarrow> Inl (WebhookGitlab e) | Inr r \<Rightarrow> Inr r)
      else if ch_source ch \<noteq> Some SrcGeneric \<and> ch_source ch \<noteq> Some SrcGithub then Inl UnsupportedSource
      else let eid = first_header hs generic_id_headers in
        if eid = [] then Inl MissingWebhookDeliveryId
        else if ch_source ch = Some SrcGithub then
          bind_res (parse_github payload) (\<lambda>(repo, pr_number).
            Inr (Some \<lparr>ev_id = eid, ev_channel = ch_name ch, ev_type = ''pull_request'', ev_source = ''github'',
                       ev_payload = payload,
                       ev_context = [(''github'', JObj [(''repo'', JStr repo), (''prNumber'', JInt pr_number)])],
                       ev_actor = []\<rparr>))
        else Inr (Some \<lparr>ev_id = eid, ev_channel = ch_name ch, ev_type = ''webhook'', ev_source = ''generic'',
                        ev_payload = payload, ev_context = [], ev_actor = []\<rparr>))"

lemma first_header_in: "first_header hs ns \<noteq> [] \<Longrightarrow> \<exists>n \<in> set ns. first_header hs ns = header hs n"
  by (induction ns) (auto split: if_splits)

lemma header_in: "header hs n \<noteq> [] \<Longrightarrow> \<exists>k. (k, header hs n) \<in> set hs \<and> lower k = n"
  by (induction hs n rule: header.induct) (auto split: if_splits)

lemma parse_github_Inr:
  "parse_github payload = Inr (repo, n) \<Longrightarrow> strip repo \<noteq> [] \<and> 0 < n"
  by (auto simp: parse_github_def split: sum.splits json.splits if_splits)

section \<open>Properties\<close>

text \<open>
  C40. Webhook authentication fails closed. Except for type \<open>none\<close>, a request is accepted only
  when the configured variable holds a nonempty secret and the request presents that secret
  (token types) or the HMAC of the raw body under it, bare or behind \<open>sha256=\<close>.
\<close>

theorem webhook_auth_fails_closed:
  assumes "verify_webhook_auth hmac environ auth hs body"
  shows "wa_type auth = AuthNone
    \<or> (\<exists>n secret. wa_env auth = Some n \<and> environ n = Some secret \<and> secret \<noteq> []
        \<and> (wa_type auth = AuthGitlabToken \<and> header_or_empty hs ''x-gitlab-token'' = secret
         \<or> wa_type auth = AuthHeaderToken \<and> header_or_empty hs (lower (wa_header auth)) = secret
         \<or> wa_type auth = AuthHmac
           \<and> header_or_empty hs ''x-hub-signature-256''
               \<in> {hmac (utf8 secret) body, sha256_prefix @ hmac (utf8 secret) body}))"
proof -
  have tok: "\<exists>n. e = Some n \<and> environ n = Some t \<and> t \<noteq> []" if "verify_header_token environ t e" for t e
    using that by (auto simp: verify_header_token_def resolve_env_secret_def Let_def split: if_splits option.splits)
  have mac: "\<exists>n s. e = Some n \<and> environ n = Some s \<and> s \<noteq> []
      \<and> g \<in> {hmac (utf8 s) body, sha256_prefix @ hmac (utf8 s) body}" if "verify_hmac hmac environ g e body" for g e
    using that by (auto simp: verify_hmac_def resolve_env_secret_def Let_def prefix_def
      split: if_splits option.splits)
  note auth = assms [unfolded verify_webhook_auth_def]
  show ?thesis
  proof (cases "wa_type auth")
    case AuthGitlabToken
    with auth have "verify_header_token environ (header_or_empty hs ''x-gitlab-token'') (wa_env auth)"
      by simp
    from tok [OF this] AuthGitlabToken show ?thesis by auto
  next
    case AuthHmac
    with auth have "verify_hmac hmac environ (header_or_empty hs ''x-hub-signature-256'') (wa_env auth) body"
      by simp
    from mac [OF this] AuthHmac show ?thesis by auto
  next
    case AuthHeaderToken
    with auth have "verify_header_token environ (header_or_empty hs (lower (wa_header auth))) (wa_env auth)"
      by simp
    from tok [OF this] AuthHeaderToken show ?thesis by auto
  qed simp
qed

definition example_hmac_auth :: webhook_auth_block where
  "example_hmac_auth = \<lparr>wa_type = AuthHmac, wa_env = Some ''S'', wa_header = []\<rparr>"

theorem webhook_auth_fails_closed_witness:
  "verify_webhook_auth (\<lambda>k m. k @ m) [''S'' \<mapsto> ''key''] example_hmac_auth
      [(''x-hub-signature-256'', ''sha256=keybody'')] ''body''
    \<and> (\<exists>n secret. wa_env example_hmac_auth = Some n \<and> [''S'' \<mapsto> ''key''] n = Some secret \<and> secret \<noteq> [])"
proof -
  have ok: "verify_webhook_auth (\<lambda>k m. k @ m) [''S'' \<mapsto> ''key''] example_hmac_auth
      [(''x-hub-signature-256'', ''sha256=keybody'')] ''body''" by code_simp
  have "wa_type example_hmac_auth \<noteq> AuthNone" by (simp add: example_hmac_auth_def)
  with webhook_auth_fails_closed [OF ok] ok show ?thesis by blast
qed

text \<open>
  The adapter never invents a delivery id: the id of a generic or GitHub event is the
  nonempty value of a received header whose lower-cased name is one of the supported ones, so a
  redelivery gets the same id; without such a header the delivery is rejected.
\<close>

theorem webhook_id_from_header:
  assumes "ch_source ch \<in> {Some SrcGeneric, Some SrcGithub}"
  shows "(\<forall>ev. normalize_webhook payload hs ch = Inr (Some ev) \<longrightarrow>
            ev_id ev \<noteq> [] \<and> (\<exists>k. (k, ev_id ev) \<in> set hs \<and> lower k \<in> set generic_id_headers))
    \<and> (first_header hs generic_id_headers = [] \<longrightarrow>
            normalize_webhook payload hs ch = Inl MissingWebhookDeliveryId)"
proof -
  have hdr: "\<exists>k. (k, first_header hs generic_id_headers) \<in> set hs \<and> lower k \<in> set generic_id_headers"
    if "first_header hs generic_id_headers \<noteq> []"
    using first_header_in [OF that] header_in that by metis
  show ?thesis
    using assms hdr by (auto simp: normalize_webhook_def Let_def split: if_splits sum.splits)
qed

theorem webhook_id_from_header_witness:
  "normalize_webhook [] [(''Accept'', ''x'')] (example_gitlab_channel\<lparr>ch_source := Some SrcGeneric\<rparr>)
     = Inl MissingWebhookDeliveryId"
proof -
  have "first_header [(''Accept'', ''x'')] generic_id_headers = []" by code_simp
  with webhook_id_from_header [of "example_gitlab_channel\<lparr>ch_source := Some SrcGeneric\<rparr>" "[]" "[(''Accept'', ''x'')]"]
  show ?thesis by simp
qed

text \<open>
  A GitHub event the adapter accepts always has a default route, the workspace of its
  repository and the session of its positive pull request number.
\<close>

theorem github_event_routes:
  assumes "ch_source ch = Some SrcGithub" "normalize_webhook payload hs ch = Inr (Some ev)"
    and "ch_routing ch = None" "ch_rate_limit ch = None"
  shows "\<exists>repo n. parse_github payload = Inr (repo, n) \<and> 0 < n \<and>
    route ev ch = Inr \<lparr>re_event = ev, re_workspace_key = ''github:'' @ ch_name ch @ '':'' @ repo,
                        re_session_key = ''pr:'' @ int_str n, re_rate_keys = []\<rparr>"
proof -
  from assms(1,2) obtain repo n where p: "parse_github payload = Inr (repo, n)"
    and ev: "ev_source ev = ''github''"
      "ctx_block ev ''github'' = JObj [(''repo'', JStr repo), (''prNumber'', JInt n)]"
    by (auto simp: normalize_webhook_def Let_def ctx_block_def dict_get_def split: if_splits)
  from parse_github_Inr [OF p] have "strip repo \<noteq> []" "0 < n" by auto
  with p show ?thesis
    by (simp add: route_def route_session_key_def route_workspace_key_def override_session_def
      override_workspace_def rate_per_key_def default_session_key_def default_workspace_key_def
      dict_get_def nonblank_str_def assms ev)
qed

definition example_github_payload :: dict where
  "example_github_payload = [(''repository'', JObj [(''full_name'', JStr ''o/r'')]), (''number'', JInt 3)]"

definition example_github_channel :: channel_config where
  "example_github_channel = example_gitlab_channel\<lparr>ch_source := Some SrcGithub\<rparr>"

theorem github_event_routes_witness:
  "\<exists>ev r. normalize_webhook example_github_payload [(''X-GitHub-Delivery'', ''d'')] example_github_channel = Inr (Some ev)
     \<and> route ev example_github_channel = Inr r"
proof -
  let ?r = "normalize_webhook example_github_payload [(''X-GitHub-Delivery'', ''d'')] example_github_channel"
  have "\<not> isl ?r \<and> projr ?r \<noteq> None" by code_simp
  then obtain ev where ev: "?r = Inr (Some ev)" by (metis option.exhaust sum.collapse(2))
  have cfg: "ch_source example_github_channel = Some SrcGithub" "ch_routing example_github_channel = None"
    "ch_rate_limit example_github_channel = None"
    by (simp_all add: example_github_channel_def example_gitlab_channel_def)
  from github_event_routes [OF cfg(1) ev cfg(2,3)] ev show ?thesis by blast
qed

end
