(* ===== verification/Refs.thy ===== *)
theory Refs
  imports Json_Text
begin

text \<open>
  \<open>harness/refs.py\<close>: the opaque refs of workspaces, sessions and invocations, and the DNS name of
  a workspace. SHA-256 is an argument \<open>sha256\<close>, from bytes to the lowercase hex digest, so each
  statement about refs holds for any such function; a clash of refs is then exhibited as a
  clash of the hash itself on two different inputs.
\<close>

section \<open>Digests\<close>

text \<open>The bytes that are hashed: the JSON array of the parts in UTF-8.\<close>

definition digest_input :: "string list \<Rightarrow> string" where
  "digest_input parts = utf8 (json_dumps_strs False parts)"

definition digest :: "(string \<Rightarrow> string) \<Rightarrow> string list \<Rightarrow> string" where
  "digest sha256 parts = sha256 (digest_input parts)"

definition workspace_ref :: "(string \<Rightarrow> string) \<Rightarrow> string \<Rightarrow> string \<Rightarrow> string \<Rightarrow> string" where
  "workspace_ref sha256 namespace agent_uid workspace_key = digest sha256 [namespace, agent_uid, workspace_key]"

definition session_ref :: "(string \<Rightarrow> string) \<Rightarrow> string \<Rightarrow> string \<Rightarrow> string" where
  "session_ref sha256 workspace_ref_hex session_key = digest sha256 [workspace_ref_hex, session_key]"

definition invocation_digest :: "(string \<Rightarrow> string) \<Rightarrow> string \<Rightarrow> string \<Rightarrow> string \<Rightarrow> string" where
  "invocation_digest sha256 agent_uid channel event_id = digest sha256 [agent_uid, channel, event_id]"

lemma digest_input_inject [simp]: "digest_input xs = digest_input ys \<longleftrightarrow> xs = ys"
  by (simp add: digest_input_def json_dumps_strs_inject)

text \<open>A clash of two digests of different parts is a clash of the hash.\<close>

lemma digest_clash:
  "digest sha256 xs = digest sha256 ys \<Longrightarrow> xs = ys \<or> (\<exists>a b. a \<noteq> b \<and> sha256 a = sha256 b)"
  unfolding digest_def by (metis digest_input_inject)

section \<open>Workspace names\<close>

definition dns_char :: "char \<Rightarrow> bool" where
  "dns_char c \<longleftrightarrow> is_lower_az c \<or> is_digit_09 c \<or> c = CHR ''-''"

definition dns_alnum :: "char \<Rightarrow> bool" where
  "dns_alnum c \<longleftrightarrow> is_lower_az c \<or> is_digit_09 c"

definition dns_label :: "string \<Rightarrow> bool" where
  "dns_label w \<longleftrightarrow> w \<noteq> [] \<and> (\<forall>c \<in> set w. dns_char c) \<and> dns_alnum (hd w) \<and> dns_alnum (last w)"

text \<open>\<open>_AGENT_NAME_RE.fullmatch\<close>: dot-separated labels.\<close>

definition agent_name_re :: "string \<Rightarrow> bool" where
  "agent_name_re s \<longleftrightarrow> (\<forall>w \<in> set (split_char CHR ''.'' s). dns_label w)"

definition rstrip_char :: "char \<Rightarrow> string \<Rightarrow> string" where
  "rstrip_char c s = rev (dropWhile (\<lambda>x. x = c) (rev s))"

definition dot_to_dash :: "string \<Rightarrow> string" where
  "dot_to_dash s = map (\<lambda>c. if c = CHR ''.'' then CHR ''-'' else c) s"

definition agent_part :: "(string \<Rightarrow> string) \<Rightarrow> nat \<Rightarrow> string \<Rightarrow> string" where
  "agent_part sha256 max_part agent_name =
     (let part = dot_to_dash agent_name
      in if length part > max_part
         then rstrip_char CHR ''-'' (take (max_part - 8 - 1) part) @ ''-'' @ take 8 (sha256 (utf8 agent_name))
         else part)"

definition dns_name ::
    "(string \<Rightarrow> string) \<Rightarrow> string \<Rightarrow> nat \<Rightarrow> string \<Rightarrow> string \<Rightarrow> (string, string) result" where
  "dns_name sha256 pfx max_part agent_name workspace_ref_hex =
     (if length agent_name > 253 \<or> \<not> agent_name_re agent_name
      then Inl ''agent name is not a DNS-1123 name''
      else Inr (pfx @ agent_part sha256 max_part agent_name @ ''-'' @ take 20 workspace_ref_hex))"

definition workspace_name :: "(string \<Rightarrow> string) \<Rightarrow> string \<Rightarrow> string \<Rightarrow> (string, string) result" where
  "workspace_name sha256 agent_name workspace_ref_hex = dns_name sha256 ''agent-'' 25 agent_name workspace_ref_hex"

lemma is_hex_dns: "is_hex_lower c \<Longrightarrow> dns_alnum c"
  by (auto simp: is_hex_lower_def dns_alnum_def is_lower_az_def)

lemma dns_alnum_char: "dns_alnum c \<Longrightarrow> dns_char c"
  by (auto simp: dns_alnum_def dns_char_def)

lemma split_char_chars: "c \<in> set s \<Longrightarrow> c \<noteq> sep \<Longrightarrow> \<exists>w \<in> set (split_char sep s). c \<in> set w"
proof (induction s)
  case (Cons d cs)
  then show ?case by (cases "split_char sep cs") auto
qed simp

lemma agent_name_chars:
  assumes "agent_name_re s" "c \<in> set (dot_to_dash s)"
  shows "dns_char c"
proof -
  from assms(2) consider "c = CHR ''-''" | "c \<in> set s" "c \<noteq> CHR ''.''"
    by (auto simp: dot_to_dash_def split: if_splits)
  then show ?thesis
  proof cases
    case 1
    then show ?thesis by (simp add: dns_char_def)
  next
    case 2
    with assms(1) split_char_chars show ?thesis
      by (fastforce simp: agent_name_re_def dns_label_def)
  qed
qed

lemma length_rstrip_char: "length (rstrip_char c s) \<le> length s"
  using length_dropWhile_le [of _ "rev s"] by (simp add: rstrip_char_def)

lemma set_rstrip_char: "set (rstrip_char c s) \<subseteq> set s"
  by (auto simp: rstrip_char_def dest: set_dropWhileD)

lemma agent_part_chars:
  assumes "agent_name_re s" and hash: "\<And>x. hex64 (sha256 x)"
  shows "\<forall>c \<in> set (agent_part sha256 n s). dns_char c"
proof -
  have "\<forall>c \<in> set (take 8 (sha256 (utf8 s))). dns_char c"
    using hash [of "utf8 s"] is_hex_dns dns_alnum_char by (auto simp: hex64_def dest: in_set_takeD)
  moreover have "dns_char CHR ''-''" by (simp add: dns_char_def)
  moreover have "\<forall>c \<in> set (rstrip_char CHR ''-'' (take m (dot_to_dash s))). dns_char c" for m
    using agent_name_chars [OF assms(1)] set_rstrip_char [of "CHR ''-''" "take m (dot_to_dash s)"]
    by (meson in_set_takeD subsetD)
  ultimately show ?thesis
    using agent_name_chars [OF assms(1)] by (auto simp: agent_part_def Let_def)
qed

lemma agent_part_length:
  assumes "\<And>x. hex64 (sha256 x)"
  shows "length (agent_part sha256 25 s) \<le> 25"
  using assms [of "utf8 s"] length_rstrip_char [of "CHR ''-''" "take 16 (dot_to_dash s)"]
  by (auto simp: agent_part_def Let_def hex64_def)

section \<open>Properties\<close>

text \<open>
  Identities never share refs by construction: two workspaces, two sessions or two deliveries
  with the same ref are the same one, unless SHA-256 itself maps two different inputs to one
  digest. No choice of keys (with separators, quotes or escapes in them) can forge a ref.
\<close>

theorem refs_identify:
  "(workspace_ref sha256 ns uid k = workspace_ref sha256 ns' uid' k' \<longrightarrow>
      (ns, uid, k) = (ns', uid', k') \<or> (\<exists>a b. a \<noteq> b \<and> sha256 a = sha256 b))
   \<and> (session_ref sha256 (workspace_ref sha256 ns uid k) sk
        = session_ref sha256 (workspace_ref sha256 ns' uid' k') sk' \<longrightarrow>
      (ns, uid, k, sk) = (ns', uid', k', sk') \<or> (\<exists>a b. a \<noteq> b \<and> sha256 a = sha256 b))
   \<and> (invocation_digest sha256 uid ch e = invocation_digest sha256 uid' ch' e' \<longrightarrow>
      (uid, ch, e) = (uid', ch', e') \<or> (\<exists>a b. a \<noteq> b \<and> sha256 a = sha256 b))"
  unfolding workspace_ref_def session_ref_def invocation_digest_def
  using digest_clash [of sha256] by (intro conjI impI) (metis list.inject)+

theorem refs_identify_witness:
  "workspace_ref (\<lambda>x. x) ''ns'' ''u'' ''a:b'' \<noteq> workspace_ref (\<lambda>x. x) ''ns'' ''u'' ''a''
   \<and> session_ref (\<lambda>x. x) (workspace_ref (\<lambda>x. x) ''n'' ''u'' ''w'') ''mr:7''
      \<noteq> session_ref (\<lambda>x. x) (workspace_ref (\<lambda>x. x) ''n'' ''u'' ''v'') ''mr:7''"
proof
  have id: "\<not> (\<exists>a b :: string. a \<noteq> b \<and> (\<lambda>x. x) a = (\<lambda>x. x) b)" by simp
  show "workspace_ref (\<lambda>x. x) ''ns'' ''u'' ''a:b'' \<noteq> workspace_ref (\<lambda>x. x) ''ns'' ''u'' ''a''"
    using id refs_identify [of "\<lambda>x. x" "''ns''" "''u''" "''a:b''" "''ns''" "''u''" "''a''", THEN conjunct1]
    by blast
  show "session_ref (\<lambda>x. x) (workspace_ref (\<lambda>x. x) ''n'' ''u'' ''w'') ''mr:7''
      \<noteq> session_ref (\<lambda>x. x) (workspace_ref (\<lambda>x. x) ''n'' ''u'' ''v'') ''mr:7''"
    using id refs_identify [of "\<lambda>x. x" "''n''" "''u''" "''w''" "''n''" "''u''" "''v''" "''mr:7''" "''mr:7''",
      THEN conjunct2, THEN conjunct1]
    by blast
qed

text \<open>
  A workspace name is a DNS-1035 label of at most 52 characters: for every agent name the
  function accepts and every hex ref, it holds lowercase letters, digits and dashes only, starts
  with a letter and ends with a letter or digit.
\<close>

theorem workspace_name_is_label:
  assumes "workspace_name sha256 agent_name ref = Inr name" and "hex64 ref"
    and "\<And>x. hex64 (sha256 x)"
  shows "length name \<le> 52 \<and> (\<forall>c \<in> set name. dns_char c) \<and> is_lower_az (hd name) \<and> dns_alnum (last name)"
proof -
  let ?part = "agent_part sha256 25 agent_name"
  from assms(1) have name: "name = ''agent-'' @ ?part @ ''-'' @ take 20 ref" and re: "agent_name_re agent_name"
    by (auto simp: workspace_name_def dns_name_def split: if_splits)
  have hex: "\<forall>c \<in> set (take 20 ref). dns_alnum c" and tk: "take 20 ref \<noteq> []" "length (take 20 ref) = 20"
    using assms(2) is_hex_dns by (auto simp: hex64_def dest: in_set_takeD)
  have "length name \<le> 52" using agent_part_length [OF assms(3)] tk(2) unfolding name by simp
  moreover have "\<forall>c \<in> set ''agent-''. dns_char c" by code_simp
  then have "\<forall>c \<in> set name. dns_char c"
    using agent_part_chars [OF re assms(3)] hex dns_alnum_char unfolding name by auto
  moreover have "is_lower_az (hd name)" unfolding name by (simp add: is_lower_az_def ord_def)
  moreover have "last name = last (take 20 ref)" unfolding name using tk(1) by simp
  then have "dns_alnum (last name)" using hex tk(1) by (metis last_in_set)
  ultimately show ?thesis by blast
qed

theorem workspace_name_is_label_witness:
  "\<exists>name. workspace_name (\<lambda>x. replicate 64 CHR ''a'') ''my.agent'' (replicate 64 CHR ''b'') = Inr name
     \<and> length name \<le> 52"
proof -
  have "\<not> isl (workspace_name (\<lambda>x. replicate 64 CHR ''a'') ''my.agent'' (replicate 64 CHR ''b''))"
    by code_simp
  then obtain name where n: "workspace_name (\<lambda>x. replicate 64 CHR ''a'') ''my.agent''
      (replicate 64 CHR ''b'') = Inr name" by (metis sum.collapse(2))
  have h: "hex64 (replicate 64 c)" if "is_hex_lower c" for c
    using that by (simp add: hex64_def)
  have "is_hex_lower CHR ''a''" "is_hex_lower CHR ''b''" by (simp_all add: char_class_defs ord_def)
  with workspace_name_is_label [OF n h h] n show ?thesis by blast
qed

end
