(* ===== verification/Admission.thy ===== *)
theory Admission
  imports Routing Refs
begin

text \<open>
  \<open>harness/admission.py\<close>: deduplication, capacity and per-session FIFO lanes.

  The state record mirrors the fields of \<open>Admission\<close>. Tickets are objects with identity (the code
  compares them with \<open>is\<close>) and mutable futures, so they live in a store \<open>a_heap\<close> under a number and
  the dictionaries hold that number. A coroutine is cut at its awaits: \<open>_Lane._consume\<close> and
  \<open>_run_ticket\<close> become \<open>lane_start\<close> (dequeue up to the permit wait), \<open>lane_poll\<close> (one iteration of the
  acquire loop) and \<open>runner_done\<close> (the runner returned or raised), with the lane recording where its
  consumer stands; \<open>_monitor_deadline\<close> is \<open>monitor_fire\<close>; \<open>_observe_recovered\<close> is \<open>observer_done\<close>.
  The clock is read once per section, except in \<open>lane_poll\<close>, whose two readings are apart. The
  \<open>admitted_at\<close> stamp, which only metrics read, is left out.
\<close>

section \<open>State\<close>

type_synonym instant = int
type_synonym tid = nat

text \<open>Exceptions stored in a future.\<close>

datatype fut_exc =
    FxTimeout string
  | FxRuntime string
  | FxCancelled
  | FxOwnerLost
  | FxRunner string

datatype fut = Pending | Resolved json | Failed fut_exc | CancelledByCaller

definition fut_done :: "fut \<Rightarrow> bool" where
  "fut_done f \<longleftrightarrow> f \<noteq> Pending"

text \<open>\<open>AdmissionTicket\<close> (workspace ref, session ref, routed event) and \<open>ScriptAdmissionTicket\<close>.\<close>

datatype ticket_kind = AgentTicket string string routed_event | ScriptTicket event

record ticket =
  tk_invocation_id :: string
  tk_namespace :: string
  tk_agent_uid :: string
  tk_kind :: ticket_kind
  tk_deadline_at :: instant
  tk_started :: fut
  tk_completed :: fut

record recovered_run =
  rr_invocation_id :: string
  rr_channel :: string
  rr_workspace_ref :: string
  rr_session_ref :: string
  rr_config_version :: string
  rr_deadline_at :: instant
  rr_instance_id :: string
  rr_run_id :: "string option"
  rr_started :: fut
  rr_completed :: fut

record channel_rate_limit =
  cl_max_per_hour :: "int option"
  cl_per_key :: "int list"

text \<open>Where a lane's consumer stands in \<open>_run_ticket\<close>: in the acquire loop or awaiting the runner.\<close>

datatype phase = Waiting | Running

record lane =
  ln_queue :: "(string \<times> tid) list"
  ln_current :: "(string \<times> tid \<times> phase) option"

text \<open>What an alarm is raised about.\<close>

datatype alarm_about = AboutNothing | AboutTicket tid | AboutRecovered string

record adm_config =
  ac_sha256 :: "string \<Rightarrow> string"
  ac_namespace :: string
  ac_agent_uid :: string
  ac_max_concurrent_invocations :: int
  ac_max_queued_total :: int
  ac_idempotency_window_seconds :: int
  ac_max_invocation_seconds :: int
  ac_workspace_max_concurrent_sessions :: int
  ac_channel_concurrency :: "(string \<times> int) list"
  ac_max_concurrent_scripts :: "int option"
  ac_rate_limits :: "(string \<times> channel_rate_limit) list"

record adm =
  a_cfg :: adm_config
  a_now :: instant
  a_heap :: "tid \<Rightarrow> ticket"
  a_next :: tid
  a_rate_admits :: "(string list \<times> instant list) list"
  a_global :: int
  a_script :: "int option"
  a_channel_sems :: "(string \<times> int \<times> int) list"
  a_workspace_sems :: "(string \<times> int \<times> int) list"
  a_queued_total :: int
  a_tickets :: "(string \<times> tid) list"
  a_recovered :: "(string \<times> recovered_run) list"
  a_recovery_tasks :: "string set"
  a_completed_at :: "(string \<times> instant) list"
  a_released :: "string set"
  a_monitor_expired :: "string set"
  a_monitors :: "(string \<times> tid) list"
  a_lanes :: "(string \<times> lane) list"
  a_closed :: bool
  a_alarms :: "(string \<times> alarm_about) list"

text \<open>\<open>Admission.__init__\<close>.\<close>

definition init_ticket :: ticket where
  "init_ticket = \<lparr>tk_invocation_id = [], tk_namespace = [], tk_agent_uid = [],
     tk_kind = ScriptTicket \<lparr>ev_id = [], ev_channel = [], ev_type = [], ev_source = [], ev_payload = [],
       ev_context = [], ev_actor = []\<rparr>,
     tk_deadline_at = 0, tk_started = Pending, tk_completed = Pending\<rparr>"

definition init_admission :: "adm_config \<Rightarrow> instant \<Rightarrow> adm" where
  "init_admission cfg now =
     \<lparr>a_cfg = cfg, a_now = now, a_heap = (\<lambda>_. init_ticket), a_next = 0, a_rate_admits = [],
      a_global = ac_max_concurrent_invocations cfg, a_script = ac_max_concurrent_scripts cfg,
      a_channel_sems = [], a_workspace_sems = [], a_queued_total = 0, a_tickets = [], a_recovered = [],
      a_recovery_tasks = {}, a_completed_at = [], a_released = {}, a_monitor_expired = {},
      a_monitors = [], a_lanes = [], a_closed = False, a_alarms = []\<rparr>"

section \<open>Tickets and futures\<close>

definition is_script :: "ticket \<Rightarrow> bool" where
  "is_script t \<longleftrightarrow> (case tk_kind t of ScriptTicket _ \<Rightarrow> True | _ \<Rightarrow> False)"

definition tk_channel :: "ticket \<Rightarrow> string" where
  "tk_channel t = (case tk_kind t of AgentTicket w s r \<Rightarrow> re_channel r | ScriptTicket e \<Rightarrow> ev_channel e)"

definition tk_workspace :: "ticket \<Rightarrow> string option" where
  "tk_workspace t = (case tk_kind t of AgentTicket w s r \<Rightarrow> Some w | ScriptTicket e \<Rightarrow> None)"

definition tk_session :: "ticket \<Rightarrow> string option" where
  "tk_session t = (case tk_kind t of AgentTicket w s r \<Rightarrow> Some s | ScriptTicket e \<Rightarrow> None)"

definition settle :: "fut \<Rightarrow> fut \<Rightarrow> fut" where
  "settle f v = (if fut_done f then f else v)"

definition upd_ticket :: "tid \<Rightarrow> (ticket \<Rightarrow> ticket) \<Rightarrow> adm \<Rightarrow> adm" where
  "upd_ticket t f s = s\<lparr>a_heap := (a_heap s)(t := f (a_heap s t))\<rparr>"

definition mark_started :: "tid \<Rightarrow> adm \<Rightarrow> adm" where
  "mark_started t = upd_ticket t (\<lambda>k. k\<lparr>tk_started := settle (tk_started k) (Resolved JNull)\<rparr>)"

definition fail_ticket :: "tid \<Rightarrow> fut_exc \<Rightarrow> adm \<Rightarrow> adm" where
  "fail_ticket t exc = upd_ticket t (\<lambda>k. k\<lparr>tk_started := settle (tk_started k) (Failed exc),
     tk_completed := settle (tk_completed k) (Failed exc)\<rparr>)"

definition raise_alarm :: "string \<Rightarrow> alarm_about \<Rightarrow> adm \<Rightarrow> adm" where
  "raise_alarm reason about s = s\<lparr>a_alarms := a_alarms s @ [(reason, about)]\<rparr>"

definition expire :: "tid \<Rightarrow> string \<Rightarrow> adm \<Rightarrow> adm" where
  "expire t reason s = raise_alarm reason (AboutTicket t) 
     (fail_ticket t (FxTimeout (''admission deadline_at exceeded: '' @ reason)) s)"

section \<open>Queries\<close>

definition ticket_targets :: "string \<Rightarrow> string option \<Rightarrow> ticket \<Rightarrow> bool" where
  "ticket_targets wref sref t \<longleftrightarrow>
     tk_workspace t = Some wref \<and> (sref = None \<or> tk_session t = sref)"

definition has_work :: "adm \<Rightarrow> string \<Rightarrow> string option \<Rightarrow> bool" where
  "has_work s wref sref \<longleftrightarrow>
     (\<exists>(k, t) \<in> set (a_tickets s). k \<notin> a_released s \<and> ticket_targets wref sref (a_heap s t))
     \<or> (\<exists>(k, r) \<in> set (a_recovered s). k \<notin> a_released s \<and> rr_workspace_ref r = wref
          \<and> (sref = None \<or> Some (rr_session_ref r) = sref))"

definition recovered_run_of :: "adm \<Rightarrow> string \<Rightarrow> recovered_run option" where
  "recovered_run_of s invocation_id =
     (if invocation_id \<in> a_released s then None else map_of (a_recovered s) invocation_id)"

definition recovered_count :: "adm \<Rightarrow> string option \<Rightarrow> string option \<Rightarrow> int" where
  "recovered_count s channel wref =
     int (length (filter (\<lambda>(k, r). k \<notin> a_released s \<and> (channel = None \<or> channel = Some (rr_channel r))
        \<and> (wref = None \<or> wref = Some (rr_workspace_ref r))) (a_recovered s)))"

definition recovered_owns_session :: "adm \<Rightarrow> string \<Rightarrow> string \<Rightarrow> bool" where
  "recovered_owns_session s wref sref \<longleftrightarrow>
     (\<exists>(k, r) \<in> set (a_recovered s). k \<notin> a_released s \<and> rr_workspace_ref r = wref \<and> rr_session_ref r = sref)"

section \<open>Permit pools\<close>

definition channel_cap :: "adm_config \<Rightarrow> string \<Rightarrow> int" where
  "channel_cap cfg channel =
     (case map_of (ac_channel_concurrency cfg) channel of
        None \<Rightarrow> ac_max_concurrent_invocations cfg | Some c \<Rightarrow> c)"

text \<open>\<open>_channel_sem\<close> and \<open>_workspace_sem\<close>: create the semaphore (value, cap) on first use.\<close>

definition channel_sem :: "string \<Rightarrow> adm \<Rightarrow> adm" where
  "channel_sem channel s =
     (case map_of (a_channel_sems s) channel of
        Some e \<Rightarrow> s
      | None \<Rightarrow> let cap = channel_cap (a_cfg s) channel
                 in s\<lparr>a_channel_sems := dict_set (a_channel_sems s) channel (cap, cap)\<rparr>)"

definition workspace_sem :: "string \<Rightarrow> adm \<Rightarrow> adm" where
  "workspace_sem wref s =
     (case map_of (a_workspace_sems s) wref of
        Some e \<Rightarrow> s
      | None \<Rightarrow> let cap = ac_workspace_max_concurrent_sessions (a_cfg s)
                 in s\<lparr>a_workspace_sems := dict_set (a_workspace_sems s) wref (cap, cap)\<rparr>)"

definition sem_value :: "(string \<times> int \<times> int) list \<Rightarrow> string \<Rightarrow> int" where
  "sem_value sems k = (case map_of sems k of None \<Rightarrow> 0 | Some (v, cap) \<Rightarrow> v)"

text \<open>\<open>acquire()\<close> of a free semaphore (\<open>d = -1\<close>) and \<open>release()\<close> (\<open>d = 1\<close>).\<close>

definition sem_add :: "(string \<times> int \<times> int) list \<Rightarrow> string \<Rightarrow> int \<Rightarrow> (string \<times> int \<times> int) list" where
  "sem_add sems k d = (case map_of sems k of None \<Rightarrow> sems | Some (v, cap) \<Rightarrow> dict_set sems k (v + d, cap))"

definition add_channel :: "string \<Rightarrow> int \<Rightarrow> adm \<Rightarrow> adm" where
  "add_channel c d s = s\<lparr>a_channel_sems := sem_add (a_channel_sems s) c d\<rparr>"

definition add_workspace :: "string \<Rightarrow> int \<Rightarrow> adm \<Rightarrow> adm" where
  "add_workspace w d s = s\<lparr>a_workspace_sems := sem_add (a_workspace_sems s) w d\<rparr>"

definition add_global :: "int \<Rightarrow> adm \<Rightarrow> adm" where
  "add_global d s = s\<lparr>a_global := a_global s + d\<rparr>"

text \<open>The pool of scripts: the shared global one when \<open>maxConcurrentScripts\<close> is unset.\<close>

definition add_script :: "int \<Rightarrow> adm \<Rightarrow> adm" where
  "add_script d s = (case a_script s of None \<Rightarrow> add_global d s | Some v \<Rightarrow> s\<lparr>a_script := Some (v + d)\<rparr>)"

text \<open>
  One pass through the body of \<open>_acquire_all\<close> after its deadline check: \<open>None\<close> when a permit is
  missing (everything taken in the pass has been given back), else the state with all three.
\<close>

definition try_acquire_all :: "string \<Rightarrow> string \<Rightarrow> string \<Rightarrow> adm \<Rightarrow> adm option" where
  "try_acquire_all channel wref sref s =
     (if recovered_count s None None \<ge> a_global s then None
      else let s1 = add_global (- 1) s in
        if recovered_count s1 (Some channel) None \<ge> sem_value (a_channel_sems s1) channel then None
        else let s2 = add_channel channel (- 1) s1 in
          if recovered_count s2 None (Some wref) \<ge> sem_value (a_workspace_sems s2) wref
             \<or> recovered_owns_session s2 wref sref then None
          else Some (add_workspace wref (- 1) s2))"

text \<open>
  One pass of \<open>_acquire_script\<close>. Its second test of the script pool, after the channel permit, sees
  the same value as the first, since nothing runs in between.
\<close>

definition try_acquire_script :: "string \<Rightarrow> adm \<Rightarrow> adm option" where
  "try_acquire_script channel s =
     (if (case a_script s of None \<Rightarrow> recovered_count s None None \<ge> a_global s | Some v \<Rightarrow> v \<le> 0) then None
      else if recovered_count s (Some channel) None \<ge> sem_value (a_channel_sems s) channel then None
      else Some (add_script (- 1) (add_channel channel (- 1) s)))"

definition try_acquire :: "ticket \<Rightarrow> adm \<Rightarrow> adm option" where
  "try_acquire t s =
     (case tk_kind t of
        AgentTicket w sref r \<Rightarrow> try_acquire_all (re_channel r) w sref s
      | ScriptTicket e \<Rightarrow> try_acquire_script (ev_channel e) s)"

definition release_permits :: "ticket \<Rightarrow> adm \<Rightarrow> adm" where
  "release_permits t s =
     (case tk_kind t of
        AgentTicket w sref r \<Rightarrow> add_global 1 (add_channel (re_channel r) 1 (add_workspace w 1 s))
      | ScriptTicket e \<Rightarrow> add_script 1 (add_channel (ev_channel e) 1 s))"

section \<open>Deduplication ledger\<close>

definition forget :: "string \<Rightarrow> adm \<Rightarrow> adm" where
  "forget key s =
     s\<lparr>a_tickets := dict_del (a_tickets s) key, a_recovered := dict_del (a_recovered s) key,
       a_completed_at := dict_del (a_completed_at s) key, a_released := a_released s - {key},
       a_monitors := dict_del (a_monitors s) key, a_monitor_expired := a_monitor_expired s - {key}\<rparr>"

datatype handle = HTicket tid | HRecovered string

definition record_of :: "adm \<Rightarrow> string \<Rightarrow> handle option" where
  "record_of s key =
     (case map_of (a_tickets s) key of
        Some t \<Rightarrow> Some (HTicket t)
      | None \<Rightarrow> (case map_of (a_recovered s) key of Some r \<Rightarrow> Some (HRecovered key) | None \<Rightarrow> None))"

definition window_over :: "adm \<Rightarrow> string \<Rightarrow> bool" where
  "window_over s key \<longleftrightarrow>
     (case map_of (a_completed_at s) key of
        None \<Rightarrow> False | Some c \<Rightarrow> a_now s - c \<ge> ac_idempotency_window_seconds (a_cfg s))"

definition existing_ticket :: "string \<Rightarrow> adm \<Rightarrow> handle option \<times> adm" where
  "existing_ticket key s =
     (case record_of s key of
        None \<Rightarrow> (None, s)
      | Some h \<Rightarrow>
          if key \<notin> a_released s then (Some h, s)
          else if window_over s key then (None, forget key s)
          else (Some h, s))"

definition rate_window :: int where "rate_window = 3600"

definition expired_keys :: "adm \<Rightarrow> string list" where
  "expired_keys s =
     filter (\<lambda>k. k \<in> a_released s \<and> (map_of (a_completed_at s) k = None \<or> window_over s k))
       (map fst (a_tickets s) @ map fst (a_recovered s))"

definition active_workspace_refs :: "adm \<Rightarrow> string set" where
  "active_workspace_refs s =
     set (List.map_filter (\<lambda>(k, t). tk_workspace (a_heap s t)) (a_tickets s))
     \<union> (rr_workspace_ref ` snd ` set (a_recovered s))"

definition active_channels :: "adm \<Rightarrow> string set" where
  "active_channels s =
     ((\<lambda>(k, t). tk_channel (a_heap s t)) ` set (a_tickets s)) \<union> (rr_channel ` snd ` set (a_recovered s))"

definition sweep_sems :: "string set \<Rightarrow> (string \<times> int \<times> int) list \<Rightarrow> (string \<times> int \<times> int) list" where
  "sweep_sems active sems = filter (\<lambda>(k, v, cap). k \<in> active \<or> v \<noteq> cap) sems"

definition sweep_expired :: "adm \<Rightarrow> adm" where
  "sweep_expired s =
     (let s1 = fold forget (expired_keys s) s in
      s1\<lparr>a_workspace_sems := sweep_sems (active_workspace_refs s1) (a_workspace_sems s1),
         a_channel_sems := sweep_sems (active_channels s1) (a_channel_sems s1),
         a_rate_admits := filter (\<lambda>(k, admits). admits \<noteq> [] \<and> a_now s - last admits < rate_window)
           (a_rate_admits s1)\<rparr>)"

section \<open>Admission\<close>

datatype admit_error =
    AdmissionClosedError
  | AdmissionQueueFullError
  | AdmissionRateLimitedError string
  | RateKeysMismatch
  | ConflictingOwnership

text \<open>The limits to check, in order: the channel cap, then one per key (\<open>zip(.., strict=True)\<close>).\<close>

definition rate_checks :: "adm_config \<Rightarrow> routed_event \<Rightarrow> (admit_error, (string list \<times> int) list) result" where
  "rate_checks cfg rvt =
     (case map_of (ac_rate_limits cfg) (re_channel rvt) of
        None \<Rightarrow> Inr []
      | Some limits \<Rightarrow>
          if length (cl_per_key limits) \<noteq> length (re_rate_keys rvt) then Inl RateKeysMismatch
          else Inr ((case cl_max_per_hour limits of None \<Rightarrow> [] | Some m \<Rightarrow> [([re_channel rvt], m)])
            @ map (\<lambda>(i, cap, key). ([re_channel rvt, nat_str i, key], cap))
                (zip [0..<length (cl_per_key limits)] (zip (cl_per_key limits) (re_rate_keys rvt)))))"

definition admits_of :: "adm \<Rightarrow> string list \<Rightarrow> instant list" where
  "admits_of s k = (case map_of (a_rate_admits s) k of None \<Rightarrow> [] | Some d \<Rightarrow> d)"

text \<open>\<open>setdefault\<close>, then drop from the left what is an hour old.\<close>

definition trim_window :: "string list \<Rightarrow> adm \<Rightarrow> adm" where
  "trim_window k s = s\<lparr>a_rate_admits := dict_set (a_rate_admits s) k
     (dropWhile (\<lambda>x. a_now s - x \<ge> rate_window) (admits_of s k))\<rparr>"

fun run_rate_checks :: "(string list \<times> int) list \<Rightarrow> adm \<Rightarrow> (admit_error, unit) result \<times> adm" where
  "run_rate_checks [] s = (Inr (), s)"
| "run_rate_checks ((k, cap) # cs) s =
     (let s1 = trim_window k s in
      if int (length (admits_of s1 k)) \<ge> cap
      then (Inl (AdmissionRateLimitedError (hd k)), raise_alarm ''rate limit rejected'' AboutNothing s1)
      else run_rate_checks cs s1)"

definition append_admit :: "string list \<Rightarrow> adm \<Rightarrow> adm" where
  "append_admit k s = s\<lparr>a_rate_admits := dict_set (a_rate_admits s) k (admits_of s k @ [a_now s])\<rparr>"

text \<open>A new lane, or the tail of the one that is there.\<close>

definition lane_put :: "string \<Rightarrow> string \<Rightarrow> tid \<Rightarrow> adm \<Rightarrow> adm" where
  "lane_put lk key t s =
     s\<lparr>a_lanes := (case map_of (a_lanes s) lk of
          None \<Rightarrow> dict_set (a_lanes s) lk \<lparr>ln_queue = [(key, t)], ln_current = None\<rparr>
        | Some l \<Rightarrow> dict_set (a_lanes s) lk (l\<lparr>ln_queue := ln_queue l @ [(key, t)]\<rparr>))\<rparr>"

text \<open>Allocate the ticket, mark it in the ledger, start its monitor and enqueue it.\<close>

definition enqueue :: "string \<Rightarrow> ticket_kind \<Rightarrow> string \<Rightarrow> string list list \<Rightarrow> adm \<Rightarrow> tid \<times> adm" where
  "enqueue key kind lk windows s =
     (let t = a_next s;
          tk = \<lparr>tk_invocation_id = key, tk_namespace = ac_namespace (a_cfg s),
                tk_agent_uid = ac_agent_uid (a_cfg s), tk_kind = kind,
                tk_deadline_at = a_now s + ac_max_invocation_seconds (a_cfg s),
                tk_started = Pending, tk_completed = Pending\<rparr>;
          s1 = s\<lparr>a_heap := (a_heap s)(t := tk), a_next := Suc t,
                 a_tickets := dict_set (a_tickets s) key t, a_queued_total := a_queued_total s + 1\<rparr>;
          s2 = fold append_admit windows s1;
          s3 = s2\<lparr>a_monitors := dict_set (a_monitors s2) key t\<rparr>
      in (t, lane_put lk key t s3))"

definition dedup_key :: "adm \<Rightarrow> string \<Rightarrow> string \<Rightarrow> string" where
  "dedup_key s channel eid = invocation_digest (ac_sha256 (a_cfg s)) (ac_agent_uid (a_cfg s)) channel eid"

definition recovered_unknown :: string where
  "recovered_unknown = ''recovered Started outcome is unknown''"

definition admit :: "routed_event \<Rightarrow> adm \<Rightarrow> (admit_error, handle) result \<times> adm" where
  "admit rvt s0 =
     (if a_closed s0 then (Inl AdmissionClosedError, s0)
      else let s1 = sweep_expired s0;
               key = dedup_key s1 (re_channel rvt) (re_event_id rvt);
               (existing, s2) = existing_ticket key s1
      in case existing of
          Some (HRecovered k) \<Rightarrow> (Inr (HRecovered k), raise_alarm recovered_unknown (AboutRecovered k) s2)
        | Some h \<Rightarrow> (Inr h, s2)
        | None \<Rightarrow>
           (case rate_checks (a_cfg s2) rvt of
              Inl e \<Rightarrow> (Inl e, s2)
            | Inr checks \<Rightarrow>
               (case run_rate_checks checks s2 of
                  (Inl e, s3) \<Rightarrow> (Inl e, s3)
                | (Inr _, s3) \<Rightarrow>
                    if a_queued_total s3 \<ge> ac_max_queued_total (a_cfg s3)
                    then (Inl AdmissionQueueFullError,
                          raise_alarm ''admission queue capacity rejected'' AboutNothing s3)
                    else
                      let cfg = a_cfg s3;
                          wref = workspace_ref (ac_sha256 cfg) (ac_namespace cfg) (ac_agent_uid cfg) (re_workspace_key rvt);
                          sref = session_ref (ac_sha256 cfg) wref (re_session_key rvt);
                          (t, s4) = enqueue key (AgentTicket wref sref rvt) sref (map fst checks) s3
                      in (Inr (HTicket t), s4))))"

text \<open>\<open>str(project_id)\<close> of the event's GitLab context, empty when there is none.\<close>

definition script_project :: "event \<Rightarrow> string" where
  "script_project ev =
     (case map_of (ev_context ev) ''gitlab'' of
        Some (JObj c) \<Rightarrow> py_str (dict_get c ''projectId'' (JStr [])) | _ \<Rightarrow> [])"

definition script_lane_key :: "adm_config \<Rightarrow> event \<Rightarrow> string" where
  "script_lane_key cfg ev = ''script:'' @ invocation_digest (ac_sha256 cfg) (ac_agent_uid cfg)
     (ev_channel ev) (script_project ev)"

definition admit_script :: "event \<Rightarrow> adm \<Rightarrow> (admit_error, handle) result \<times> adm" where
  "admit_script ev s0 =
     (if a_closed s0 then (Inl AdmissionClosedError, s0)
      else let s1 = sweep_expired s0;
               key = dedup_key s1 (ev_channel ev) (ev_id ev);
               (existing, s2) = existing_ticket key s1
      in case existing of
          Some (HRecovered k) \<Rightarrow>
            (Inl ConflictingOwnership, raise_alarm recovered_unknown (AboutRecovered k) s2)
        | Some (HTicket t) \<Rightarrow>
            if is_script (a_heap s2 t) then (Inr (HTicket t), s2) else (Inl ConflictingOwnership, s2)
        | None \<Rightarrow>
            if a_queued_total s2 \<ge> ac_max_queued_total (a_cfg s2)
            then (Inl AdmissionQueueFullError,
                  raise_alarm ''admission queue capacity rejected'' AboutNothing s2)
            else let (t, s3) = enqueue key (ScriptTicket ev) (script_lane_key (a_cfg s2) ev) [] s2
                 in (Inr (HTicket t), s3))"

definition same_recovered :: "recovered_run \<Rightarrow> recovered_run \<Rightarrow> bool" where
  "same_recovered e r \<longleftrightarrow>
     rr_channel e = rr_channel r \<and> rr_workspace_ref e = rr_workspace_ref r
     \<and> rr_session_ref e = rr_session_ref r \<and> rr_config_version e = rr_config_version r
     \<and> rr_deadline_at e = rr_deadline_at r \<and> rr_instance_id e = rr_instance_id r
     \<and> \<not> (rr_run_id e \<noteq> None \<and> rr_run_id r \<noteq> None \<and> rr_run_id e \<noteq> rr_run_id r)"

text \<open>\<open>recover\<close>; the argument \<open>r\<close> carries the keyword arguments, its futures are set here.\<close>

definition recover :: "recovered_run \<Rightarrow> adm \<Rightarrow> (admit_error, handle) result \<times> adm" where
  "recover r s0 =
     (if a_closed s0 then (Inl AdmissionClosedError, s0)
      else let s1 = sweep_expired s0; key = rr_invocation_id r in
        if map_of (a_tickets s1) key \<noteq> None then (Inl ConflictingOwnership, s1)
        else case map_of (a_recovered s1) key of
            Some e \<Rightarrow>
              if same_recovered e r
              then (Inr (HRecovered key), raise_alarm recovered_unknown (AboutRecovered key) s1)
              else (Inl ConflictingOwnership, s1)
          | None \<Rightarrow>
              (Inr (HRecovered key),
               raise_alarm recovered_unknown (AboutRecovered key)
                 (s1\<lparr>a_recovered := dict_set (a_recovered s1) key
                        (r\<lparr>rr_started := Failed (FxRuntime recovered_unknown), rr_completed := Pending\<rparr>),
                     a_queued_total := a_queued_total s1 + 1,
                     a_recovery_tasks := insert key (a_recovery_tasks s1)\<rparr>)))"

section \<open>Retirement, expiry and recovered runs\<close>

definition release_capacity_once :: "string \<Rightarrow> adm \<Rightarrow> adm" where
  "release_capacity_once key s =
     (if key \<in> a_released s then s
      else s\<lparr>a_released := insert key (a_released s), a_queued_total := a_queued_total s - 1,
             a_completed_at := dict_set (a_completed_at s) key (a_now s)\<rparr>)"

definition cancel_monitor :: "string \<Rightarrow> tid \<Rightarrow> adm \<Rightarrow> bool \<times> adm" where
  "cancel_monitor key t s =
     (if map_of (a_tickets s) key \<noteq> Some t then (False, s)
      else (key \<in> a_monitor_expired s,
            s\<lparr>a_monitors := dict_del (a_monitors s) key,
              a_monitor_expired := a_monitor_expired s - {key}\<rparr>))"

definition retire :: "string \<Rightarrow> tid \<Rightarrow> adm \<Rightarrow> adm" where
  "retire key t s = release_capacity_once key (snd (cancel_monitor key t s))"

text \<open>One turn of \<open>_monitor_deadline\<close>'s loop: it ends by removing its own entry.\<close>

definition monitor_fire :: "string \<Rightarrow> adm \<Rightarrow> adm" where
  "monitor_fire key s =
     (case map_of (a_monitors s) key of
        None \<Rightarrow> s
      | Some t \<Rightarrow>
          if a_now s \<ge> tk_deadline_at (a_heap s t)
          then let s1 = expire t ''deadline exceeded while queued''
                 (s\<lparr>a_monitor_expired := insert key (a_monitor_expired s)\<rparr>)
               in s1\<lparr>a_monitors := dict_del (a_monitors s1) key\<rparr>
          else s)"

definition complete_recovered :: "string \<Rightarrow> fut \<Rightarrow> adm \<Rightarrow> adm" where
  "complete_recovered key v s =
     (case map_of (a_recovered s) key of
        None \<Rightarrow> s
      | Some r \<Rightarrow> s\<lparr>a_recovered := dict_set (a_recovered s) key
                       (r\<lparr>rr_completed := settle (rr_completed r) v\<rparr>)\<rparr>)"

text \<open>How the \<open>observer()\<close> of a recovered run ends.\<close>

datatype observation = Observed | OwnerLost | ObserverFailed string

definition observer_done :: "string \<Rightarrow> observation \<Rightarrow> adm \<Rightarrow> adm" where
  "observer_done key obs s =
     (if key \<notin> a_recovery_tasks s then s
      else let s1 = (case obs of
               Observed \<Rightarrow>
                 if key \<notin> a_released s
                 then release_capacity_once key (complete_recovered key (Resolved JNull) s) else s
             | OwnerLost \<Rightarrow> release_capacity_once key (complete_recovered key (Failed FxOwnerLost) s)
             | ObserverFailed m \<Rightarrow>
                 raise_alarm (''recovered run observation failed: '' @ m) (AboutRecovered key) s)
           in s1\<lparr>a_recovery_tasks := a_recovery_tasks s1 - {key}\<rparr>)"

section \<open>Lanes\<close>

text \<open>
  The end of \<open>_run_ticket\<close> and of the turn of \<open>_consume\<close>: retire the entry, then leave the lane
  (\<open>_deregister\<close>) when the queue is empty.
\<close>

definition finish :: "string \<Rightarrow> string \<Rightarrow> tid \<Rightarrow> adm \<Rightarrow> adm" where
  "finish lk key t s =
     (let s1 = retire key t s in
      case map_of (a_lanes s1) lk of
        None \<Rightarrow> s1
      | Some l \<Rightarrow>
          if ln_queue l = [] then s1\<lparr>a_lanes := dict_del (a_lanes s1) lk\<rparr>
          else s1\<lparr>a_lanes := dict_set (a_lanes s1) lk (l\<lparr>ln_current := None\<rparr>)\<rparr>)"

definition set_lane :: "string \<Rightarrow> lane \<Rightarrow> adm \<Rightarrow> adm" where
  "set_lane lk l s = s\<lparr>a_lanes := dict_set (a_lanes s) lk l\<rparr>"

text \<open>The semaphores \<open>_run_ticket\<close> and \<open>_run_script_ticket\<close> fetch before the permit wait.\<close>

definition make_sems :: "ticket \<Rightarrow> adm \<Rightarrow> adm" where
  "make_sems tk s =
     (case tk_kind tk of
        AgentTicket w sref r \<Rightarrow> workspace_sem w (channel_sem (re_channel r) s)
      | ScriptTicket ev \<Rightarrow> channel_sem (ev_channel ev) s)"

definition lane_start :: "string \<Rightarrow> adm \<Rightarrow> adm" where
  "lane_start lk s =
     (case map_of (a_lanes s) lk of
        None \<Rightarrow> s
      | Some l \<Rightarrow>
         (case (ln_current l, ln_queue l) of
            (None, (key, t) # q) \<Rightarrow>
              let s1 = set_lane lk \<lparr>ln_queue = q, ln_current = Some (key, t, Waiting)\<rparr> s;
                  (expired, s2) = cancel_monitor key t s1
              in if expired then finish lk key t s2
                 else if a_now s2 \<ge> tk_deadline_at (a_heap s2 t)
                 then finish lk key t (expire t ''deadline exceeded before permit wait'' s2)
                 else make_sems (a_heap s2 t) s2
          | _ \<Rightarrow> s))"

definition wait_reason :: "ticket \<Rightarrow> string" where
  "wait_reason tk = (if is_script tk then ''deadline exceeded while waiting for script permits''
     else ''deadline exceeded while waiting for permits'')"

definition late_reason :: "ticket \<Rightarrow> string" where
  "late_reason tk = (if is_script tk then ''deadline exceeded immediately before script spawn''
     else ''deadline exceeded immediately before delivery'')"

text \<open>
  One iteration of the acquire loop; with the permits in hand the clock is read again (\<open>later\<close>)
  and the runner is called only before the deadline.
\<close>

definition lane_poll :: "string \<Rightarrow> nat \<Rightarrow> adm \<Rightarrow> adm" where
  "lane_poll lk later s =
     (case map_of (a_lanes s) lk of
        None \<Rightarrow> s
      | Some l \<Rightarrow>
         (case ln_current l of
            Some (key, t, Waiting) \<Rightarrow>
              let tk = a_heap s t in
              if a_now s \<ge> tk_deadline_at tk then finish lk key t (expire t (wait_reason tk) s)
              else (case try_acquire tk s of
                  None \<Rightarrow> s
                | Some s1 \<Rightarrow>
                    let s2 = s1\<lparr>a_now := a_now s1 + int later\<rparr> in
                    if a_now s2 \<ge> tk_deadline_at tk
                    then finish lk key t (release_permits tk (expire t (late_reason tk) s2))
                    else set_lane lk (l\<lparr>ln_current := Some (key, t, Running)\<rparr>) s2)
          | _ \<Rightarrow> s))"

definition current_running :: "string \<Rightarrow> adm \<Rightarrow> (string \<times> tid) option" where
  "current_running lk s =
     (case map_of (a_lanes s) lk of
        None \<Rightarrow> None
      | Some l \<Rightarrow> (case ln_current l of Some (key, t, Running) \<Rightarrow> Some (key, t) | _ \<Rightarrow> None))"

text \<open>The runner signals Started.\<close>

definition runner_started :: "string \<Rightarrow> adm \<Rightarrow> adm" where
  "runner_started lk s = (case current_running lk s of None \<Rightarrow> s | Some (key, t) \<Rightarrow> mark_started t s)"

definition no_started :: "ticket \<Rightarrow> string" where
  "no_started tk = (if is_script tk then ''script runner completed without signalling Started''
     else ''runner completed without signalling Started'')"

text \<open>The futures after the runner raised (\<open>Inl\<close>) or returned (\<open>Inr\<close>).\<close>

definition settle_run :: "tid \<Rightarrow> string + json \<Rightarrow> adm \<Rightarrow> adm" where
  "settle_run t outcome s =
     (let tk = a_heap s t in
      case outcome of
        Inl m \<Rightarrow>
          let s1 = fail_ticket t (FxRunner m) s in
          if is_script tk then raise_alarm ''webhook script runner failed'' (AboutTicket t) s1 else s1
      | Inr v \<Rightarrow>
          upd_ticket t (\<lambda>k. k\<lparr>tk_started := settle (tk_started k) (Failed (FxRuntime (no_started tk))),
            tk_completed := settle (tk_completed k) (Resolved (if is_script tk then JNull else v))\<rparr>) s)"

definition runner_done :: "string \<Rightarrow> string + json \<Rightarrow> adm \<Rightarrow> adm" where
  "runner_done lk outcome s =
     (case current_running lk s of
        None \<Rightarrow> s
      | Some (key, t) \<Rightarrow> finish lk key t (release_permits (a_heap s t) (settle_run t outcome s)))"

section \<open>Closing\<close>

text \<open>
  \<open>close\<close> is cut at its awaits too: the flag (\<open>close_start\<close>); each cancelled recovery task
  (\<open>cancel_recovery\<close>); each cancelled lane, draining its queue (\<open>cancel_lane\<close>) or, when its consumer
  had not run yet, only forgotten by \<open>_lanes.clear()\<close> (\<open>drop_lane\<close>); and the final sweep
  (\<open>close_finish\<close>).
\<close>

definition close_start :: "adm \<Rightarrow> adm" where
  "close_start s = s\<lparr>a_closed := True\<rparr>"

definition closed_exc :: fut_exc where
  "closed_exc = FxRuntime ''admission closed''"

definition drop_recovered :: "string \<Rightarrow> adm \<Rightarrow> adm" where
  "drop_recovered key s =
     (if key \<in> a_released s then s
      else release_capacity_once key (complete_recovered key (Failed closed_exc) s))"

definition cancel_recovery :: "string \<Rightarrow> adm \<Rightarrow> adm" where
  "cancel_recovery key s =
     (if a_closed s \<and> key \<in> a_recovery_tasks s
      then let s1 = drop_recovered key s in s1\<lparr>a_recovery_tasks := a_recovery_tasks s1 - {key}\<rparr>
      else s)"

definition fail_and_retire :: "fut_exc \<Rightarrow> string \<times> tid \<Rightarrow> adm \<Rightarrow> adm" where
  "fail_and_retire exc kt s = (case kt of (key, t) \<Rightarrow> retire key t (fail_ticket t exc s))"

definition cancel_lane :: "string \<Rightarrow> adm \<Rightarrow> adm" where
  "cancel_lane lk s =
     (case (a_closed s, map_of (a_lanes s) lk) of
        (True, Some l) \<Rightarrow>
          let s1 = (case ln_current l of
               None \<Rightarrow> s
             | Some (key, t, ph) \<Rightarrow>
                 fail_and_retire FxCancelled (key, t)
                   (if ph = Running then release_permits (a_heap s t) s else s));
              s2 = fold (fail_and_retire FxCancelled) (ln_queue l) s1
          in s2\<lparr>a_lanes := dict_del (a_lanes s2) lk\<rparr>
      | _ \<Rightarrow> s)"

definition drop_lane :: "string \<Rightarrow> adm \<Rightarrow> adm" where
  "drop_lane lk s =
     (case (a_closed s, map_of (a_lanes s) lk) of
        (True, Some l) \<Rightarrow>
          if ln_current l = None then s\<lparr>a_lanes := dict_del (a_lanes s) lk\<rparr> else s
      | _ \<Rightarrow> s)"

definition close_finish :: "adm \<Rightarrow> adm" where
  "close_finish s =
     (if a_closed s \<and> a_recovery_tasks s = {} \<and> a_lanes s = []
      then let s1 = s\<lparr>a_monitors := []\<rparr>;
               s2 = fold (fail_and_retire closed_exc) (a_tickets s1) s1
           in fold drop_recovered (map fst (a_recovered s2)) s2
      else s)"

section \<open>The environment\<close>

text \<open>Time passes; a caller cancels a future it was handed.\<close>

definition tick :: "nat \<Rightarrow> adm \<Rightarrow> adm" where
  "tick d s = s\<lparr>a_now := a_now s + int d\<rparr>"

definition caller_cancel :: "tid \<Rightarrow> bool \<Rightarrow> adm \<Rightarrow> adm" where
  "caller_cancel t which = upd_ticket t (\<lambda>k. if which
     then k\<lparr>tk_started := settle (tk_started k) CancelledByCaller\<rparr>
     else k\<lparr>tk_completed := settle (tk_completed k) CancelledByCaller\<rparr>)"

inductive step :: "adm \<Rightarrow> adm \<Rightarrow> bool" where
  step_admit: "step s (snd (admit rvt s))"
| step_admit_script: "step s (snd (admit_script ev s))"
| step_recover: "step s (snd (recover r s))"
| step_monitor: "step s (monitor_fire key s)"
| step_observer: "step s (observer_done key obs s)"
| step_start: "step s (lane_start lk s)"
| step_poll: "step s (lane_poll lk later s)"
| step_started: "step s (runner_started lk s)"
| step_done: "step s (runner_done lk outcome s)"
| step_close: "step s (close_start s)"
| step_cancel_recovery: "step s (cancel_recovery key s)"
| step_cancel_lane: "step s (cancel_lane lk s)"
| step_drop_lane: "step s (drop_lane lk s)"
| step_close_finish: "step s (close_finish s)"
| step_tick: "step s (tick d s)"
| step_caller_cancel: "step s (caller_cancel t which s)"

inductive reachable :: "adm_config \<Rightarrow> adm \<Rightarrow> bool" for cfg where
  reach_init: "reachable cfg (init_admission cfg now)"
| reach_step: "reachable cfg s \<Longrightarrow> step s s' \<Longrightarrow> reachable cfg s'"

end
