(* ===== verification/Admission_Frame.thy ===== *)
theory Admission_Frame
  imports Admission
begin

text \<open>
  What the primitive operations of \<open>Admission\<close> leave alone: field by field, as simplification rules,
  and the immutable fields of tickets.
\<close>

lemma upd_ticket_frame [simp]:
  "a_cfg (upd_ticket t f s) = a_cfg s" "a_now (upd_ticket t f s) = a_now s"
  "a_next (upd_ticket t f s) = a_next s" "a_rate_admits (upd_ticket t f s) = a_rate_admits s"
  "a_global (upd_ticket t f s) = a_global s" "a_script (upd_ticket t f s) = a_script s"
  "a_channel_sems (upd_ticket t f s) = a_channel_sems s"
  "a_workspace_sems (upd_ticket t f s) = a_workspace_sems s"
  "a_queued_total (upd_ticket t f s) = a_queued_total s" "a_tickets (upd_ticket t f s) = a_tickets s"
  "a_recovered (upd_ticket t f s) = a_recovered s"
  "a_recovery_tasks (upd_ticket t f s) = a_recovery_tasks s"
  "a_completed_at (upd_ticket t f s) = a_completed_at s" "a_released (upd_ticket t f s) = a_released s"
  "a_monitor_expired (upd_ticket t f s) = a_monitor_expired s"
  "a_monitors (upd_ticket t f s) = a_monitors s" "a_lanes (upd_ticket t f s) = a_lanes s"
  "a_closed (upd_ticket t f s) = a_closed s" "a_alarms (upd_ticket t f s) = a_alarms s"
  by (simp_all add: upd_ticket_def)

lemma raise_alarm_frame [simp]:
  "a_cfg (raise_alarm m b s) = a_cfg s" "a_now (raise_alarm m b s) = a_now s"
  "a_heap (raise_alarm m b s) = a_heap s" "a_next (raise_alarm m b s) = a_next s"
  "a_rate_admits (raise_alarm m b s) = a_rate_admits s" "a_global (raise_alarm m b s) = a_global s"
  "a_script (raise_alarm m b s) = a_script s" "a_channel_sems (raise_alarm m b s) = a_channel_sems s"
  "a_workspace_sems (raise_alarm m b s) = a_workspace_sems s"
  "a_queued_total (raise_alarm m b s) = a_queued_total s" "a_tickets (raise_alarm m b s) = a_tickets s"
  "a_recovered (raise_alarm m b s) = a_recovered s"
  "a_recovery_tasks (raise_alarm m b s) = a_recovery_tasks s"
  "a_completed_at (raise_alarm m b s) = a_completed_at s"
  "a_released (raise_alarm m b s) = a_released s"
  "a_monitor_expired (raise_alarm m b s) = a_monitor_expired s"
  "a_monitors (raise_alarm m b s) = a_monitors s" "a_lanes (raise_alarm m b s) = a_lanes s"
  "a_closed (raise_alarm m b s) = a_closed s"
  by (simp_all add: raise_alarm_def)

lemma fail_ticket_frame [simp]:
  "a_cfg (fail_ticket t e s) = a_cfg s" "a_now (fail_ticket t e s) = a_now s"
  "a_next (fail_ticket t e s) = a_next s" "a_rate_admits (fail_ticket t e s) = a_rate_admits s"
  "a_global (fail_ticket t e s) = a_global s" "a_script (fail_ticket t e s) = a_script s"
  "a_channel_sems (fail_ticket t e s) = a_channel_sems s"
  "a_workspace_sems (fail_ticket t e s) = a_workspace_sems s"
  "a_queued_total (fail_ticket t e s) = a_queued_total s" "a_tickets (fail_ticket t e s) = a_tickets s"
  "a_recovered (fail_ticket t e s) = a_recovered s"
  "a_recovery_tasks (fail_ticket t e s) = a_recovery_tasks s"
  "a_completed_at (fail_ticket t e s) = a_completed_at s"
  "a_released (fail_ticket t e s) = a_released s"
  "a_monitor_expired (fail_ticket t e s) = a_monitor_expired s"
  "a_monitors (fail_ticket t e s) = a_monitors s" "a_lanes (fail_ticket t e s) = a_lanes s"
  "a_closed (fail_ticket t e s) = a_closed s" "a_alarms (fail_ticket t e s) = a_alarms s"
  by (simp_all add: fail_ticket_def)

lemma mark_started_frame [simp]:
  "a_cfg (mark_started t s) = a_cfg s" "a_now (mark_started t s) = a_now s"
  "a_next (mark_started t s) = a_next s" "a_rate_admits (mark_started t s) = a_rate_admits s"
  "a_global (mark_started t s) = a_global s" "a_script (mark_started t s) = a_script s"
  "a_channel_sems (mark_started t s) = a_channel_sems s"
  "a_workspace_sems (mark_started t s) = a_workspace_sems s"
  "a_queued_total (mark_started t s) = a_queued_total s" "a_tickets (mark_started t s) = a_tickets s"
  "a_recovered (mark_started t s) = a_recovered s"
  "a_recovery_tasks (mark_started t s) = a_recovery_tasks s"
  "a_completed_at (mark_started t s) = a_completed_at s" "a_released (mark_started t s) = a_released s"
  "a_monitor_expired (mark_started t s) = a_monitor_expired s"
  "a_monitors (mark_started t s) = a_monitors s" "a_lanes (mark_started t s) = a_lanes s"
  "a_closed (mark_started t s) = a_closed s" "a_alarms (mark_started t s) = a_alarms s"
  by (simp_all add: mark_started_def)

lemma expire_frame [simp]:
  "a_cfg (expire t m s) = a_cfg s" "a_now (expire t m s) = a_now s" "a_next (expire t m s) = a_next s"
  "a_rate_admits (expire t m s) = a_rate_admits s" "a_global (expire t m s) = a_global s"
  "a_script (expire t m s) = a_script s" "a_channel_sems (expire t m s) = a_channel_sems s"
  "a_workspace_sems (expire t m s) = a_workspace_sems s"
  "a_queued_total (expire t m s) = a_queued_total s" "a_tickets (expire t m s) = a_tickets s"
  "a_recovered (expire t m s) = a_recovered s" "a_recovery_tasks (expire t m s) = a_recovery_tasks s"
  "a_completed_at (expire t m s) = a_completed_at s" "a_released (expire t m s) = a_released s"
  "a_monitor_expired (expire t m s) = a_monitor_expired s" "a_monitors (expire t m s) = a_monitors s"
  "a_lanes (expire t m s) = a_lanes s" "a_closed (expire t m s) = a_closed s"
  by (simp_all add: expire_def)

lemma settle_run_frame [simp]:
  "a_cfg (settle_run t out s) = a_cfg s" "a_now (settle_run t out s) = a_now s"
  "a_next (settle_run t out s) = a_next s" "a_rate_admits (settle_run t out s) = a_rate_admits s"
  "a_global (settle_run t out s) = a_global s" "a_script (settle_run t out s) = a_script s"
  "a_channel_sems (settle_run t out s) = a_channel_sems s"
  "a_workspace_sems (settle_run t out s) = a_workspace_sems s"
  "a_queued_total (settle_run t out s) = a_queued_total s"
  "a_tickets (settle_run t out s) = a_tickets s" "a_recovered (settle_run t out s) = a_recovered s"
  "a_recovery_tasks (settle_run t out s) = a_recovery_tasks s"
  "a_completed_at (settle_run t out s) = a_completed_at s"
  "a_released (settle_run t out s) = a_released s"
  "a_monitor_expired (settle_run t out s) = a_monitor_expired s"
  "a_monitors (settle_run t out s) = a_monitors s" "a_lanes (settle_run t out s) = a_lanes s"
  "a_closed (settle_run t out s) = a_closed s"
  by (simp_all add: settle_run_def Let_def split: sum.split)

lemma caller_cancel_frame [simp]:
  "a_cfg (caller_cancel t w s) = a_cfg s" "a_now (caller_cancel t w s) = a_now s"
  "a_next (caller_cancel t w s) = a_next s" "a_rate_admits (caller_cancel t w s) = a_rate_admits s"
  "a_global (caller_cancel t w s) = a_global s" "a_script (caller_cancel t w s) = a_script s"
  "a_channel_sems (caller_cancel t w s) = a_channel_sems s"
  "a_workspace_sems (caller_cancel t w s) = a_workspace_sems s"
  "a_queued_total (caller_cancel t w s) = a_queued_total s"
  "a_tickets (caller_cancel t w s) = a_tickets s" "a_recovered (caller_cancel t w s) = a_recovered s"
  "a_recovery_tasks (caller_cancel t w s) = a_recovery_tasks s"
  "a_completed_at (caller_cancel t w s) = a_completed_at s"
  "a_released (caller_cancel t w s) = a_released s"
  "a_monitor_expired (caller_cancel t w s) = a_monitor_expired s"
  "a_monitors (caller_cancel t w s) = a_monitors s" "a_lanes (caller_cancel t w s) = a_lanes s"
  "a_closed (caller_cancel t w s) = a_closed s" "a_alarms (caller_cancel t w s) = a_alarms s"
  by (simp_all add: caller_cancel_def)

lemma channel_sem_frame [simp]:
  "a_cfg (channel_sem c s) = a_cfg s" "a_now (channel_sem c s) = a_now s"
  "a_heap (channel_sem c s) = a_heap s" "a_next (channel_sem c s) = a_next s"
  "a_rate_admits (channel_sem c s) = a_rate_admits s" "a_global (channel_sem c s) = a_global s"
  "a_script (channel_sem c s) = a_script s" "a_workspace_sems (channel_sem c s) = a_workspace_sems s"
  "a_queued_total (channel_sem c s) = a_queued_total s" "a_tickets (channel_sem c s) = a_tickets s"
  "a_recovered (channel_sem c s) = a_recovered s"
  "a_recovery_tasks (channel_sem c s) = a_recovery_tasks s"
  "a_completed_at (channel_sem c s) = a_completed_at s" "a_released (channel_sem c s) = a_released s"
  "a_monitor_expired (channel_sem c s) = a_monitor_expired s"
  "a_monitors (channel_sem c s) = a_monitors s" "a_lanes (channel_sem c s) = a_lanes s"
  "a_closed (channel_sem c s) = a_closed s" "a_alarms (channel_sem c s) = a_alarms s"
  by (simp_all add: channel_sem_def Let_def split: option.split)

lemma workspace_sem_frame [simp]:
  "a_cfg (workspace_sem w s) = a_cfg s" "a_now (workspace_sem w s) = a_now s"
  "a_heap (workspace_sem w s) = a_heap s" "a_next (workspace_sem w s) = a_next s"
  "a_rate_admits (workspace_sem w s) = a_rate_admits s" "a_global (workspace_sem w s) = a_global s"
  "a_script (workspace_sem w s) = a_script s" "a_channel_sems (workspace_sem w s) = a_channel_sems s"
  "a_queued_total (workspace_sem w s) = a_queued_total s" "a_tickets (workspace_sem w s) = a_tickets s"
  "a_recovered (workspace_sem w s) = a_recovered s"
  "a_recovery_tasks (workspace_sem w s) = a_recovery_tasks s"
  "a_completed_at (workspace_sem w s) = a_completed_at s"
  "a_released (workspace_sem w s) = a_released s"
  "a_monitor_expired (workspace_sem w s) = a_monitor_expired s"
  "a_monitors (workspace_sem w s) = a_monitors s" "a_lanes (workspace_sem w s) = a_lanes s"
  "a_closed (workspace_sem w s) = a_closed s" "a_alarms (workspace_sem w s) = a_alarms s"
  by (simp_all add: workspace_sem_def Let_def split: option.split)

lemma make_sems_frame [simp]:
  "a_cfg (make_sems tk s) = a_cfg s" "a_now (make_sems tk s) = a_now s"
  "a_heap (make_sems tk s) = a_heap s" "a_next (make_sems tk s) = a_next s"
  "a_rate_admits (make_sems tk s) = a_rate_admits s" "a_global (make_sems tk s) = a_global s"
  "a_script (make_sems tk s) = a_script s" "a_queued_total (make_sems tk s) = a_queued_total s"
  "a_tickets (make_sems tk s) = a_tickets s" "a_recovered (make_sems tk s) = a_recovered s"
  "a_recovery_tasks (make_sems tk s) = a_recovery_tasks s"
  "a_completed_at (make_sems tk s) = a_completed_at s" "a_released (make_sems tk s) = a_released s"
  "a_monitor_expired (make_sems tk s) = a_monitor_expired s"
  "a_monitors (make_sems tk s) = a_monitors s" "a_lanes (make_sems tk s) = a_lanes s"
  "a_closed (make_sems tk s) = a_closed s" "a_alarms (make_sems tk s) = a_alarms s"
  by (simp_all add: make_sems_def split: ticket_kind.split)

lemma add_channel_frame [simp]:
  "a_cfg (add_channel c d s) = a_cfg s" "a_now (add_channel c d s) = a_now s"
  "a_heap (add_channel c d s) = a_heap s" "a_next (add_channel c d s) = a_next s"
  "a_rate_admits (add_channel c d s) = a_rate_admits s" "a_global (add_channel c d s) = a_global s"
  "a_script (add_channel c d s) = a_script s"
  "a_workspace_sems (add_channel c d s) = a_workspace_sems s"
  "a_queued_total (add_channel c d s) = a_queued_total s" "a_tickets (add_channel c d s) = a_tickets s"
  "a_recovered (add_channel c d s) = a_recovered s"
  "a_recovery_tasks (add_channel c d s) = a_recovery_tasks s"
  "a_completed_at (add_channel c d s) = a_completed_at s"
  "a_released (add_channel c d s) = a_released s"
  "a_monitor_expired (add_channel c d s) = a_monitor_expired s"
  "a_monitors (add_channel c d s) = a_monitors s" "a_lanes (add_channel c d s) = a_lanes s"
  "a_closed (add_channel c d s) = a_closed s" "a_alarms (add_channel c d s) = a_alarms s"
  by (simp_all add: add_channel_def)

lemma add_workspace_frame [simp]:
  "a_cfg (add_workspace w d s) = a_cfg s" "a_now (add_workspace w d s) = a_now s"
  "a_heap (add_workspace w d s) = a_heap s" "a_next (add_workspace w d s) = a_next s"
  "a_rate_admits (add_workspace w d s) = a_rate_admits s" "a_global (add_workspace w d s) = a_global s"
  "a_script (add_workspace w d s) = a_script s"
  "a_channel_sems (add_workspace w d s) = a_channel_sems s"
  "a_queued_total (add_workspace w d s) = a_queued_total s"
  "a_tickets (add_workspace w d s) = a_tickets s" "a_recovered (add_workspace w d s) = a_recovered s"
  "a_recovery_tasks (add_workspace w d s) = a_recovery_tasks s"
  "a_completed_at (add_workspace w d s) = a_completed_at s"
  "a_released (add_workspace w d s) = a_released s"
  "a_monitor_expired (add_workspace w d s) = a_monitor_expired s"
  "a_monitors (add_workspace w d s) = a_monitors s" "a_lanes (add_workspace w d s) = a_lanes s"
  "a_closed (add_workspace w d s) = a_closed s" "a_alarms (add_workspace w d s) = a_alarms s"
  by (simp_all add: add_workspace_def)

lemma add_global_frame [simp]:
  "a_cfg (add_global d s) = a_cfg s" "a_now (add_global d s) = a_now s"
  "a_heap (add_global d s) = a_heap s" "a_next (add_global d s) = a_next s"
  "a_rate_admits (add_global d s) = a_rate_admits s" "a_script (add_global d s) = a_script s"
  "a_channel_sems (add_global d s) = a_channel_sems s"
  "a_workspace_sems (add_global d s) = a_workspace_sems s"
  "a_queued_total (add_global d s) = a_queued_total s" "a_tickets (add_global d s) = a_tickets s"
  "a_recovered (add_global d s) = a_recovered s"
  "a_recovery_tasks (add_global d s) = a_recovery_tasks s"
  "a_completed_at (add_global d s) = a_completed_at s" "a_released (add_global d s) = a_released s"
  "a_monitor_expired (add_global d s) = a_monitor_expired s"
  "a_monitors (add_global d s) = a_monitors s" "a_lanes (add_global d s) = a_lanes s"
  "a_closed (add_global d s) = a_closed s" "a_alarms (add_global d s) = a_alarms s"
  by (simp_all add: add_global_def)

lemma add_script_frame [simp]:
  "a_cfg (add_script d s) = a_cfg s" "a_now (add_script d s) = a_now s"
  "a_heap (add_script d s) = a_heap s" "a_next (add_script d s) = a_next s"
  "a_rate_admits (add_script d s) = a_rate_admits s"
  "a_channel_sems (add_script d s) = a_channel_sems s"
  "a_workspace_sems (add_script d s) = a_workspace_sems s"
  "a_queued_total (add_script d s) = a_queued_total s" "a_tickets (add_script d s) = a_tickets s"
  "a_recovered (add_script d s) = a_recovered s"
  "a_recovery_tasks (add_script d s) = a_recovery_tasks s"
  "a_completed_at (add_script d s) = a_completed_at s" "a_released (add_script d s) = a_released s"
  "a_monitor_expired (add_script d s) = a_monitor_expired s"
  "a_monitors (add_script d s) = a_monitors s" "a_lanes (add_script d s) = a_lanes s"
  "a_closed (add_script d s) = a_closed s" "a_alarms (add_script d s) = a_alarms s"
  by (simp_all add: add_script_def split: option.split)

lemma release_permits_frame [simp]:
  "a_cfg (release_permits tk s) = a_cfg s" "a_now (release_permits tk s) = a_now s"
  "a_heap (release_permits tk s) = a_heap s" "a_next (release_permits tk s) = a_next s"
  "a_rate_admits (release_permits tk s) = a_rate_admits s"
  "a_queued_total (release_permits tk s) = a_queued_total s"
  "a_tickets (release_permits tk s) = a_tickets s" "a_recovered (release_permits tk s) = a_recovered s"
  "a_recovery_tasks (release_permits tk s) = a_recovery_tasks s"
  "a_completed_at (release_permits tk s) = a_completed_at s"
  "a_released (release_permits tk s) = a_released s"
  "a_monitor_expired (release_permits tk s) = a_monitor_expired s"
  "a_monitors (release_permits tk s) = a_monitors s" "a_lanes (release_permits tk s) = a_lanes s"
  "a_closed (release_permits tk s) = a_closed s" "a_alarms (release_permits tk s) = a_alarms s"
  by (simp_all add: release_permits_def split: ticket_kind.split)

lemma cancel_monitor_frame [simp]:
  "a_cfg (snd (cancel_monitor k t s)) = a_cfg s" "a_now (snd (cancel_monitor k t s)) = a_now s"
  "a_heap (snd (cancel_monitor k t s)) = a_heap s" "a_next (snd (cancel_monitor k t s)) = a_next s"
  "a_rate_admits (snd (cancel_monitor k t s)) = a_rate_admits s"
  "a_global (snd (cancel_monitor k t s)) = a_global s"
  "a_script (snd (cancel_monitor k t s)) = a_script s"
  "a_channel_sems (snd (cancel_monitor k t s)) = a_channel_sems s"
  "a_workspace_sems (snd (cancel_monitor k t s)) = a_workspace_sems s"
  "a_queued_total (snd (cancel_monitor k t s)) = a_queued_total s"
  "a_tickets (snd (cancel_monitor k t s)) = a_tickets s"
  "a_recovered (snd (cancel_monitor k t s)) = a_recovered s"
  "a_recovery_tasks (snd (cancel_monitor k t s)) = a_recovery_tasks s"
  "a_completed_at (snd (cancel_monitor k t s)) = a_completed_at s"
  "a_released (snd (cancel_monitor k t s)) = a_released s"
  "a_lanes (snd (cancel_monitor k t s)) = a_lanes s"
  "a_closed (snd (cancel_monitor k t s)) = a_closed s"
  "a_alarms (snd (cancel_monitor k t s)) = a_alarms s"
  by (simp_all add: cancel_monitor_def)

lemma release_capacity_once_frame [simp]:
  "a_cfg (release_capacity_once k s) = a_cfg s" "a_now (release_capacity_once k s) = a_now s"
  "a_heap (release_capacity_once k s) = a_heap s" "a_next (release_capacity_once k s) = a_next s"
  "a_rate_admits (release_capacity_once k s) = a_rate_admits s"
  "a_global (release_capacity_once k s) = a_global s"
  "a_script (release_capacity_once k s) = a_script s"
  "a_channel_sems (release_capacity_once k s) = a_channel_sems s"
  "a_workspace_sems (release_capacity_once k s) = a_workspace_sems s"
  "a_tickets (release_capacity_once k s) = a_tickets s"
  "a_recovered (release_capacity_once k s) = a_recovered s"
  "a_recovery_tasks (release_capacity_once k s) = a_recovery_tasks s"
  "a_monitor_expired (release_capacity_once k s) = a_monitor_expired s"
  "a_monitors (release_capacity_once k s) = a_monitors s"
  "a_lanes (release_capacity_once k s) = a_lanes s" "a_closed (release_capacity_once k s) = a_closed s"
  "a_alarms (release_capacity_once k s) = a_alarms s"
  by (simp_all add: release_capacity_once_def)

lemma retire_frame [simp]:
  "a_cfg (retire k t s) = a_cfg s" "a_now (retire k t s) = a_now s" "a_heap (retire k t s) = a_heap s"
  "a_next (retire k t s) = a_next s" "a_rate_admits (retire k t s) = a_rate_admits s"
  "a_global (retire k t s) = a_global s" "a_script (retire k t s) = a_script s"
  "a_channel_sems (retire k t s) = a_channel_sems s"
  "a_workspace_sems (retire k t s) = a_workspace_sems s" "a_tickets (retire k t s) = a_tickets s"
  "a_recovered (retire k t s) = a_recovered s" "a_recovery_tasks (retire k t s) = a_recovery_tasks s"
  "a_lanes (retire k t s) = a_lanes s" "a_closed (retire k t s) = a_closed s"
  "a_alarms (retire k t s) = a_alarms s"
  by (simp_all add: retire_def)

lemma complete_recovered_frame [simp]:
  "a_cfg (complete_recovered k v s) = a_cfg s" "a_now (complete_recovered k v s) = a_now s"
  "a_heap (complete_recovered k v s) = a_heap s" "a_next (complete_recovered k v s) = a_next s"
  "a_rate_admits (complete_recovered k v s) = a_rate_admits s"
  "a_global (complete_recovered k v s) = a_global s" "a_script (complete_recovered k v s) = a_script s"
  "a_channel_sems (complete_recovered k v s) = a_channel_sems s"
  "a_workspace_sems (complete_recovered k v s) = a_workspace_sems s"
  "a_queued_total (complete_recovered k v s) = a_queued_total s"
  "a_tickets (complete_recovered k v s) = a_tickets s"
  "a_recovery_tasks (complete_recovered k v s) = a_recovery_tasks s"
  "a_completed_at (complete_recovered k v s) = a_completed_at s"
  "a_released (complete_recovered k v s) = a_released s"
  "a_monitor_expired (complete_recovered k v s) = a_monitor_expired s"
  "a_monitors (complete_recovered k v s) = a_monitors s"
  "a_lanes (complete_recovered k v s) = a_lanes s" "a_closed (complete_recovered k v s) = a_closed s"
  "a_alarms (complete_recovered k v s) = a_alarms s"
  by (simp_all add: complete_recovered_def split: option.split)

lemma drop_recovered_frame [simp]:
  "a_cfg (drop_recovered k s) = a_cfg s" "a_now (drop_recovered k s) = a_now s"
  "a_heap (drop_recovered k s) = a_heap s" "a_next (drop_recovered k s) = a_next s"
  "a_rate_admits (drop_recovered k s) = a_rate_admits s" "a_global (drop_recovered k s) = a_global s"
  "a_script (drop_recovered k s) = a_script s" "a_channel_sems (drop_recovered k s) = a_channel_sems s"
  "a_workspace_sems (drop_recovered k s) = a_workspace_sems s"
  "a_tickets (drop_recovered k s) = a_tickets s"
  "a_recovery_tasks (drop_recovered k s) = a_recovery_tasks s"
  "a_monitor_expired (drop_recovered k s) = a_monitor_expired s"
  "a_monitors (drop_recovered k s) = a_monitors s" "a_lanes (drop_recovered k s) = a_lanes s"
  "a_closed (drop_recovered k s) = a_closed s" "a_alarms (drop_recovered k s) = a_alarms s"
  by (simp_all add: drop_recovered_def)

lemma fail_and_retire_frame [simp]:
  "a_cfg (fail_and_retire e kt s) = a_cfg s" "a_now (fail_and_retire e kt s) = a_now s"
  "a_next (fail_and_retire e kt s) = a_next s"
  "a_rate_admits (fail_and_retire e kt s) = a_rate_admits s"
  "a_global (fail_and_retire e kt s) = a_global s" "a_script (fail_and_retire e kt s) = a_script s"
  "a_channel_sems (fail_and_retire e kt s) = a_channel_sems s"
  "a_workspace_sems (fail_and_retire e kt s) = a_workspace_sems s"
  "a_tickets (fail_and_retire e kt s) = a_tickets s"
  "a_recovered (fail_and_retire e kt s) = a_recovered s"
  "a_recovery_tasks (fail_and_retire e kt s) = a_recovery_tasks s"
  "a_lanes (fail_and_retire e kt s) = a_lanes s" "a_closed (fail_and_retire e kt s) = a_closed s"
  "a_alarms (fail_and_retire e kt s) = a_alarms s"
  by (simp_all add: fail_and_retire_def split: prod.split)

lemma set_lane_frame [simp]:
  "a_cfg (set_lane lk l s) = a_cfg s" "a_now (set_lane lk l s) = a_now s"
  "a_heap (set_lane lk l s) = a_heap s" "a_next (set_lane lk l s) = a_next s"
  "a_rate_admits (set_lane lk l s) = a_rate_admits s" "a_global (set_lane lk l s) = a_global s"
  "a_script (set_lane lk l s) = a_script s" "a_channel_sems (set_lane lk l s) = a_channel_sems s"
  "a_workspace_sems (set_lane lk l s) = a_workspace_sems s"
  "a_queued_total (set_lane lk l s) = a_queued_total s" "a_tickets (set_lane lk l s) = a_tickets s"
  "a_recovered (set_lane lk l s) = a_recovered s"
  "a_recovery_tasks (set_lane lk l s) = a_recovery_tasks s"
  "a_completed_at (set_lane lk l s) = a_completed_at s" "a_released (set_lane lk l s) = a_released s"
  "a_monitor_expired (set_lane lk l s) = a_monitor_expired s"
  "a_monitors (set_lane lk l s) = a_monitors s" "a_closed (set_lane lk l s) = a_closed s"
  "a_alarms (set_lane lk l s) = a_alarms s"
  by (simp_all add: set_lane_def)

lemma finish_frame [simp]:
  "a_cfg (finish lk k t s) = a_cfg s" "a_now (finish lk k t s) = a_now s"
  "a_heap (finish lk k t s) = a_heap s" "a_next (finish lk k t s) = a_next s"
  "a_rate_admits (finish lk k t s) = a_rate_admits s" "a_global (finish lk k t s) = a_global s"
  "a_script (finish lk k t s) = a_script s" "a_channel_sems (finish lk k t s) = a_channel_sems s"
  "a_workspace_sems (finish lk k t s) = a_workspace_sems s" "a_tickets (finish lk k t s) = a_tickets s"
  "a_recovered (finish lk k t s) = a_recovered s"
  "a_recovery_tasks (finish lk k t s) = a_recovery_tasks s" "a_closed (finish lk k t s) = a_closed s"
  "a_alarms (finish lk k t s) = a_alarms s"
  by (simp_all add: finish_def Let_def split: option.split)

lemma forget_frame [simp]:
  "a_cfg (forget k s) = a_cfg s" "a_now (forget k s) = a_now s" "a_heap (forget k s) = a_heap s"
  "a_next (forget k s) = a_next s" "a_rate_admits (forget k s) = a_rate_admits s"
  "a_global (forget k s) = a_global s" "a_script (forget k s) = a_script s"
  "a_channel_sems (forget k s) = a_channel_sems s" "a_workspace_sems (forget k s) = a_workspace_sems s"
  "a_queued_total (forget k s) = a_queued_total s" "a_recovery_tasks (forget k s) = a_recovery_tasks s"
  "a_lanes (forget k s) = a_lanes s" "a_closed (forget k s) = a_closed s"
  "a_alarms (forget k s) = a_alarms s"
  by (simp_all add: forget_def)

lemma trim_window_frame [simp]:
  "a_cfg (trim_window k s) = a_cfg s" "a_now (trim_window k s) = a_now s"
  "a_heap (trim_window k s) = a_heap s" "a_next (trim_window k s) = a_next s"
  "a_global (trim_window k s) = a_global s" "a_script (trim_window k s) = a_script s"
  "a_channel_sems (trim_window k s) = a_channel_sems s"
  "a_workspace_sems (trim_window k s) = a_workspace_sems s"
  "a_queued_total (trim_window k s) = a_queued_total s" "a_tickets (trim_window k s) = a_tickets s"
  "a_recovered (trim_window k s) = a_recovered s"
  "a_recovery_tasks (trim_window k s) = a_recovery_tasks s"
  "a_completed_at (trim_window k s) = a_completed_at s" "a_released (trim_window k s) = a_released s"
  "a_monitor_expired (trim_window k s) = a_monitor_expired s"
  "a_monitors (trim_window k s) = a_monitors s" "a_lanes (trim_window k s) = a_lanes s"
  "a_closed (trim_window k s) = a_closed s" "a_alarms (trim_window k s) = a_alarms s"
  by (simp_all add: trim_window_def)

lemma append_admit_frame [simp]:
  "a_cfg (append_admit k s) = a_cfg s" "a_now (append_admit k s) = a_now s"
  "a_heap (append_admit k s) = a_heap s" "a_next (append_admit k s) = a_next s"
  "a_global (append_admit k s) = a_global s" "a_script (append_admit k s) = a_script s"
  "a_channel_sems (append_admit k s) = a_channel_sems s"
  "a_workspace_sems (append_admit k s) = a_workspace_sems s"
  "a_queued_total (append_admit k s) = a_queued_total s" "a_tickets (append_admit k s) = a_tickets s"
  "a_recovered (append_admit k s) = a_recovered s"
  "a_recovery_tasks (append_admit k s) = a_recovery_tasks s"
  "a_completed_at (append_admit k s) = a_completed_at s" "a_released (append_admit k s) = a_released s"
  "a_monitor_expired (append_admit k s) = a_monitor_expired s"
  "a_monitors (append_admit k s) = a_monitors s" "a_lanes (append_admit k s) = a_lanes s"
  "a_closed (append_admit k s) = a_closed s" "a_alarms (append_admit k s) = a_alarms s"
  by (simp_all add: append_admit_def)

lemma lane_put_frame [simp]:
  "a_cfg (lane_put lk k t s) = a_cfg s" "a_now (lane_put lk k t s) = a_now s"
  "a_heap (lane_put lk k t s) = a_heap s" "a_next (lane_put lk k t s) = a_next s"
  "a_rate_admits (lane_put lk k t s) = a_rate_admits s" "a_global (lane_put lk k t s) = a_global s"
  "a_script (lane_put lk k t s) = a_script s" "a_channel_sems (lane_put lk k t s) = a_channel_sems s"
  "a_workspace_sems (lane_put lk k t s) = a_workspace_sems s"
  "a_queued_total (lane_put lk k t s) = a_queued_total s" "a_tickets (lane_put lk k t s) = a_tickets s"
  "a_recovered (lane_put lk k t s) = a_recovered s"
  "a_recovery_tasks (lane_put lk k t s) = a_recovery_tasks s"
  "a_completed_at (lane_put lk k t s) = a_completed_at s"
  "a_released (lane_put lk k t s) = a_released s"
  "a_monitor_expired (lane_put lk k t s) = a_monitor_expired s"
  "a_monitors (lane_put lk k t s) = a_monitors s" "a_closed (lane_put lk k t s) = a_closed s"
  "a_alarms (lane_put lk k t s) = a_alarms s"
  by (simp_all add: lane_put_def)

lemma fold_forget_frame [simp]:
  "a_cfg (fold forget xs s) = a_cfg s" "a_now (fold forget xs s) = a_now s"
  "a_heap (fold forget xs s) = a_heap s" "a_next (fold forget xs s) = a_next s"
  "a_rate_admits (fold forget xs s) = a_rate_admits s" "a_global (fold forget xs s) = a_global s"
  "a_script (fold forget xs s) = a_script s" "a_channel_sems (fold forget xs s) = a_channel_sems s"
  "a_workspace_sems (fold forget xs s) = a_workspace_sems s"
  "a_queued_total (fold forget xs s) = a_queued_total s"
  "a_recovery_tasks (fold forget xs s) = a_recovery_tasks s" "a_lanes (fold forget xs s) = a_lanes s"
  "a_closed (fold forget xs s) = a_closed s" "a_alarms (fold forget xs s) = a_alarms s"
  by (induction xs arbitrary: s) simp_all

lemma fold_append_admit_frame [simp]:
  "a_cfg (fold append_admit xs s) = a_cfg s" "a_now (fold append_admit xs s) = a_now s"
  "a_heap (fold append_admit xs s) = a_heap s" "a_next (fold append_admit xs s) = a_next s"
  "a_global (fold append_admit xs s) = a_global s" "a_script (fold append_admit xs s) = a_script s"
  "a_channel_sems (fold append_admit xs s) = a_channel_sems s"
  "a_workspace_sems (fold append_admit xs s) = a_workspace_sems s"
  "a_queued_total (fold append_admit xs s) = a_queued_total s"
  "a_tickets (fold append_admit xs s) = a_tickets s"
  "a_recovered (fold append_admit xs s) = a_recovered s"
  "a_recovery_tasks (fold append_admit xs s) = a_recovery_tasks s"
  "a_completed_at (fold append_admit xs s) = a_completed_at s"
  "a_released (fold append_admit xs s) = a_released s"
  "a_monitor_expired (fold append_admit xs s) = a_monitor_expired s"
  "a_monitors (fold append_admit xs s) = a_monitors s" "a_lanes (fold append_admit xs s) = a_lanes s"
  "a_closed (fold append_admit xs s) = a_closed s" "a_alarms (fold append_admit xs s) = a_alarms s"
  by (induction xs arbitrary: s) simp_all

lemma fold_fail_and_retire_frame [simp]:
  "a_cfg (fold (fail_and_retire e) xs s) = a_cfg s" "a_now (fold (fail_and_retire e) xs s) = a_now s"
  "a_next (fold (fail_and_retire e) xs s) = a_next s"
  "a_rate_admits (fold (fail_and_retire e) xs s) = a_rate_admits s"
  "a_global (fold (fail_and_retire e) xs s) = a_global s"
  "a_script (fold (fail_and_retire e) xs s) = a_script s"
  "a_channel_sems (fold (fail_and_retire e) xs s) = a_channel_sems s"
  "a_workspace_sems (fold (fail_and_retire e) xs s) = a_workspace_sems s"
  "a_tickets (fold (fail_and_retire e) xs s) = a_tickets s"
  "a_recovered (fold (fail_and_retire e) xs s) = a_recovered s"
  "a_recovery_tasks (fold (fail_and_retire e) xs s) = a_recovery_tasks s"
  "a_lanes (fold (fail_and_retire e) xs s) = a_lanes s"
  "a_closed (fold (fail_and_retire e) xs s) = a_closed s"
  "a_alarms (fold (fail_and_retire e) xs s) = a_alarms s"
  by (induction xs arbitrary: s) simp_all

lemma fold_drop_recovered_frame [simp]:
  "a_cfg (fold drop_recovered xs s) = a_cfg s" "a_now (fold drop_recovered xs s) = a_now s"
  "a_heap (fold drop_recovered xs s) = a_heap s" "a_next (fold drop_recovered xs s) = a_next s"
  "a_rate_admits (fold drop_recovered xs s) = a_rate_admits s"
  "a_global (fold drop_recovered xs s) = a_global s" "a_script (fold drop_recovered xs s) = a_script s"
  "a_channel_sems (fold drop_recovered xs s) = a_channel_sems s"
  "a_workspace_sems (fold drop_recovered xs s) = a_workspace_sems s"
  "a_tickets (fold drop_recovered xs s) = a_tickets s"
  "a_recovery_tasks (fold drop_recovered xs s) = a_recovery_tasks s"
  "a_monitor_expired (fold drop_recovered xs s) = a_monitor_expired s"
  "a_monitors (fold drop_recovered xs s) = a_monitors s"
  "a_lanes (fold drop_recovered xs s) = a_lanes s" "a_closed (fold drop_recovered xs s) = a_closed s"
  "a_alarms (fold drop_recovered xs s) = a_alarms s"
  by (induction xs arbitrary: s) simp_all

lemma sweep_expired_frame [simp]:
  "a_cfg (sweep_expired s) = a_cfg s" "a_now (sweep_expired s) = a_now s"
  "a_heap (sweep_expired s) = a_heap s" "a_next (sweep_expired s) = a_next s"
  "a_global (sweep_expired s) = a_global s" "a_script (sweep_expired s) = a_script s"
  "a_queued_total (sweep_expired s) = a_queued_total s"
  "a_recovery_tasks (sweep_expired s) = a_recovery_tasks s" "a_lanes (sweep_expired s) = a_lanes s"
  "a_closed (sweep_expired s) = a_closed s" "a_alarms (sweep_expired s) = a_alarms s"
  by (simp_all add: sweep_expired_def Let_def)

lemma run_rate_checks_frame [simp]:
  "a_cfg (snd (run_rate_checks cs s)) = a_cfg s" "a_now (snd (run_rate_checks cs s)) = a_now s"
  "a_heap (snd (run_rate_checks cs s)) = a_heap s" "a_next (snd (run_rate_checks cs s)) = a_next s"
  "a_global (snd (run_rate_checks cs s)) = a_global s"
  "a_script (snd (run_rate_checks cs s)) = a_script s"
  "a_channel_sems (snd (run_rate_checks cs s)) = a_channel_sems s"
  "a_workspace_sems (snd (run_rate_checks cs s)) = a_workspace_sems s"
  "a_queued_total (snd (run_rate_checks cs s)) = a_queued_total s"
  "a_tickets (snd (run_rate_checks cs s)) = a_tickets s"
  "a_recovered (snd (run_rate_checks cs s)) = a_recovered s"
  "a_recovery_tasks (snd (run_rate_checks cs s)) = a_recovery_tasks s"
  "a_completed_at (snd (run_rate_checks cs s)) = a_completed_at s"
  "a_released (snd (run_rate_checks cs s)) = a_released s"
  "a_monitor_expired (snd (run_rate_checks cs s)) = a_monitor_expired s"
  "a_monitors (snd (run_rate_checks cs s)) = a_monitors s"
  "a_lanes (snd (run_rate_checks cs s)) = a_lanes s"
  "a_closed (snd (run_rate_checks cs s)) = a_closed s"
  by (induction cs arbitrary: s) (auto simp: Let_def split: if_splits)

lemma existing_ticket_frame [simp]:
  "a_cfg (snd (existing_ticket k s)) = a_cfg s" "a_now (snd (existing_ticket k s)) = a_now s"
  "a_heap (snd (existing_ticket k s)) = a_heap s" "a_next (snd (existing_ticket k s)) = a_next s"
  "a_rate_admits (snd (existing_ticket k s)) = a_rate_admits s"
  "a_global (snd (existing_ticket k s)) = a_global s"
  "a_script (snd (existing_ticket k s)) = a_script s"
  "a_channel_sems (snd (existing_ticket k s)) = a_channel_sems s"
  "a_workspace_sems (snd (existing_ticket k s)) = a_workspace_sems s"
  "a_queued_total (snd (existing_ticket k s)) = a_queued_total s"
  "a_recovery_tasks (snd (existing_ticket k s)) = a_recovery_tasks s"
  "a_lanes (snd (existing_ticket k s)) = a_lanes s" "a_closed (snd (existing_ticket k s)) = a_closed s"
  "a_alarms (snd (existing_ticket k s)) = a_alarms s"
  by (simp_all add: existing_ticket_def split: option.split)

text \<open>Futures change, the rest of a ticket never does.\<close>

definition tk_static :: "ticket \<Rightarrow> string \<times> ticket_kind \<times> instant" where
  "tk_static k = (tk_invocation_id k, tk_kind k, tk_deadline_at k)"

lemma tk_static_eqD:
  assumes "tk_static k = tk_static k'"
  shows "tk_kind k = tk_kind k'" "tk_deadline_at k = tk_deadline_at k'" "tk_invocation_id k = tk_invocation_id k'"
  using assms by (simp_all add: tk_static_def)

lemma fail_ticket_static [simp]: "tk_static (a_heap (fail_ticket t e s) u) = tk_static (a_heap s u)"
  by (simp add: tk_static_def fail_ticket_def upd_ticket_def)

lemma mark_started_static [simp]: "tk_static (a_heap (mark_started t s) u) = tk_static (a_heap s u)"
  by (simp add: tk_static_def mark_started_def upd_ticket_def)

lemma expire_static [simp]: "tk_static (a_heap (expire t m s) u) = tk_static (a_heap s u)"
  by (simp add: tk_static_def expire_def raise_alarm_def fail_ticket_def upd_ticket_def)

lemma settle_run_static [simp]: "tk_static (a_heap (settle_run t out s) u) = tk_static (a_heap s u)"
  by (simp add: tk_static_def settle_run_def fail_ticket_def upd_ticket_def raise_alarm_def Let_def split: sum.split)

lemma caller_cancel_static [simp]: "tk_static (a_heap (caller_cancel t w s) u) = tk_static (a_heap s u)"
  by (simp add: tk_static_def caller_cancel_def upd_ticket_def)

lemma fail_and_retire_static [simp]: "tk_static (a_heap (fail_and_retire e kt s) u) = tk_static (a_heap s u)"
  by (simp add: tk_static_def fail_and_retire_def fail_ticket_def upd_ticket_def split: prod.split)

lemma fold_fail_and_retire_static [simp]: "tk_static (a_heap (fold (fail_and_retire e) xs s) u) = tk_static (a_heap s u)"
  by (induction xs arbitrary: s) simp_all

end
