(* ===== verification/Admission_Ledger.thy ===== *)
theory Admission_Ledger
  imports Admission_Frame
begin

text \<open>
  The deduplication ledger of \<open>Admission\<close>: tickets, recovered runs, released keys, monitors and the
  queue counter agree with each other after every operation, and how the admission paths change them.
\<close>

abbreviation tickets :: "adm \<Rightarrow> string \<rightharpoonup> tid" where
  "tickets s \<equiv> map_of (a_tickets s)"

abbreviation recovered :: "adm \<Rightarrow> string \<rightharpoonup> recovered_run" where
  "recovered s \<equiv> map_of (a_recovered s)"

text \<open>The keys that still own queue capacity.\<close>

definition owned :: "adm \<Rightarrow> string set" where
  "owned s = (dom (tickets s) \<union> dom (recovered s)) - a_released s"

definition inv_ledger :: "adm \<Rightarrow> bool" where
  "inv_ledger s \<longleftrightarrow>
     distinct (map fst (a_tickets s)) \<and> distinct (map fst (a_recovered s))
     \<and> dom (tickets s) \<inter> dom (recovered s) = {}
     \<and> a_released s \<subseteq> dom (tickets s) \<union> dom (recovered s)
     \<and> dom (map_of (a_completed_at s)) = a_released s
     \<and> a_queued_total s = int (card (owned s))
     \<and> a_monitor_expired s \<subseteq> dom (tickets s) - a_released s
     \<and> a_recovery_tasks s \<subseteq> dom (recovered s) - a_released s
     \<and> (\<forall>k t. map_of (a_monitors s) k = Some t \<longrightarrow>
           tickets s k = Some t \<and> k \<notin> a_released s \<and> k \<notin> a_monitor_expired s)"

lemma finite_owned [simp]: "finite (owned s)"
  by (simp add: owned_def finite_dom_map_of)

lemma inv_ledgerD:
  assumes "inv_ledger s"
  shows "distinct (map fst (a_tickets s))" "distinct (map fst (a_recovered s))"
    "dom (tickets s) \<inter> dom (recovered s) = {}"
    "a_released s \<subseteq> dom (tickets s) \<union> dom (recovered s)"
    "dom (map_of (a_completed_at s)) = a_released s"
    "a_queued_total s = int (card (owned s))"
    "a_monitor_expired s \<subseteq> dom (tickets s) - a_released s"
    "a_recovery_tasks s \<subseteq> dom (recovered s) - a_released s"
    "map_of (a_monitors s) k = Some t \<Longrightarrow> tickets s k = Some t \<and> k \<notin> a_released s \<and> k \<notin> a_monitor_expired s"
  using assms by (auto simp: inv_ledger_def)

lemma inv_ledgerI:
  assumes "distinct (map fst (a_tickets s))" "distinct (map fst (a_recovered s))"
    "dom (tickets s) \<inter> dom (recovered s) = {}"
    "a_released s \<subseteq> dom (tickets s) \<union> dom (recovered s)"
    "dom (map_of (a_completed_at s)) = a_released s"
    "a_queued_total s = int (card (owned s))"
    "a_monitor_expired s \<subseteq> dom (tickets s) - a_released s"
    "a_recovery_tasks s \<subseteq> dom (recovered s) - a_released s"
    "\<And>k t. map_of (a_monitors s) k = Some t \<Longrightarrow>
       tickets s k = Some t \<and> k \<notin> a_released s \<and> k \<notin> a_monitor_expired s"
  shows "inv_ledger s"
  using assms by (simp add: inv_ledger_def)

text \<open>The invariant reads only the ledger.\<close>

lemma inv_ledger_cong:
  assumes "a_tickets s' = a_tickets s" "a_recovered s' = a_recovered s" "a_released s' = a_released s"
    "a_completed_at s' = a_completed_at s" "a_queued_total s' = a_queued_total s"
    "a_monitor_expired s' = a_monitor_expired s" "a_recovery_tasks s' = a_recovery_tasks s"
    "a_monitors s' = a_monitors s" "inv_ledger s"
  shows "inv_ledger s'"
  using assms by (simp add: inv_ledger_def owned_def)

lemma inv_ledger_init: "inv_ledger (init_admission cfg now)"
  by (simp add: inv_ledger_def init_admission_def owned_def)

lemma owned_release [simp]: "owned (release_capacity_once k s) = owned s - {k}"
  by (auto simp: owned_def release_capacity_once_def)

lemma owned_cancel_monitor [simp]: "owned (snd (cancel_monitor k t s)) = owned s"
  by (simp add: owned_def)

lemma owned_retire [simp]: "owned (retire k t s) = owned s - {k}"
  by (simp add: retire_def)

lemma owned_ticket: "tickets s k = Some t \<Longrightarrow> k \<notin> a_released s \<Longrightarrow> k \<in> owned s"
  by (auto simp: owned_def)

lemma queued_release:
  assumes "a_queued_total s = int (card (owned s))" "k \<in> owned s"
  shows "a_queued_total (release_capacity_once k s) = int (card (owned s - {k}))"
  using assms by (auto simp: release_capacity_once_def owned_def card_Diff_singleton int_ops card_gt_0_iff
    finite_dom_map_of of_nat_diff Suc_leI)

lemma inv_ledger_cancel_monitor: "inv_ledger s \<Longrightarrow> inv_ledger (snd (cancel_monitor k t s))"
  unfolding inv_ledger_def owned_cancel_monitor cancel_monitor_frame
  by (auto simp: cancel_monitor_def)

lemma cancel_monitor_clears:
  assumes "tickets s k = Some t"
  shows "k \<notin> a_monitor_expired (snd (cancel_monitor k t s))" "map_of (a_monitors (snd (cancel_monitor k t s))) k = None"
  using assms by (auto simp: cancel_monitor_def)

lemma release_fields:
  assumes "k \<in> owned s"
  shows "a_released (release_capacity_once k s) = insert k (a_released s)"
    "a_completed_at (release_capacity_once k s) = dict_set (a_completed_at s) k (a_now s)"
  using assms by (simp_all add: release_capacity_once_def owned_def)

lemma inv_ledger_release:
  assumes inv: "inv_ledger s" and k: "k \<in> owned s" "k \<notin> a_monitor_expired s" "map_of (a_monitors s) k = None"
    "k \<notin> a_recovery_tasks s"
  shows "inv_ledger (release_capacity_once k s)"
proof (rule inv_ledgerI, unfold release_capacity_once_frame release_fields[OF k(1)] owned_release)
  note D = inv_ledgerD[OF inv]
  show "distinct (map fst (a_tickets s))" "distinct (map fst (a_recovered s))"
    "dom (tickets s) \<inter> dom (recovered s) = {}" by (fact D)+
  show "insert k (a_released s) \<subseteq> dom (tickets s) \<union> dom (recovered s)"
    using D(4) k(1) by (auto simp: owned_def)
  show "dom (map_of (dict_set (a_completed_at s) k (a_now s))) = insert k (a_released s)"
    using D(5) by simp
  show "a_queued_total (release_capacity_once k s) = int (card (owned s - {k}))"
    by (rule queued_release[OF D(6) k(1)])
  show "a_monitor_expired s \<subseteq> dom (tickets s) - insert k (a_released s)"
    "a_recovery_tasks s \<subseteq> dom (recovered s) - insert k (a_released s)"
    using D(7,8) k by blast+
  show "tickets s k' = Some t \<and> k' \<notin> insert k (a_released s) \<and> k' \<notin> a_monitor_expired s"
    if "map_of (a_monitors s) k' = Some t" for k' t using D(9)[OF that] that k(3) by auto
qed

lemma inv_ledger_retire:
  assumes "inv_ledger s" "tickets s k = Some t" "k \<notin> a_released s"
  shows "inv_ledger (retire k t s)"
proof -
  have "k \<notin> a_recovery_tasks s" using assms inv_ledgerD(3,8)[OF assms(1)] by auto
  then show ?thesis
    unfolding retire_def using assms owned_ticket[OF assms(2,3)]
    by (intro inv_ledger_release inv_ledger_cancel_monitor) (auto simp: cancel_monitor_clears)
qed

text \<open>A second release is a no-op, whichever path asks for it.\<close>

lemma retire_released:
  assumes "inv_ledger s" "tickets s k = Some t" "k \<in> a_released s"
  shows "retire k t s = snd (cancel_monitor k t s)"
  using assms by (simp add: retire_def release_capacity_once_def)

lemma inv_ledger_retire_any: "inv_ledger s \<Longrightarrow> tickets s k = Some t \<Longrightarrow> inv_ledger (retire k t s)"
  by (cases "k \<in> a_released s") (simp_all add: inv_ledger_retire retire_released inv_ledger_cancel_monitor)

lemma inv_ledger_fail_ticket [simp]: "inv_ledger (fail_ticket t e s) = inv_ledger s"
  by (simp add: inv_ledger_def owned_def)

lemma inv_ledger_forget:
  assumes "inv_ledger s" "k \<in> a_released s"
  shows "inv_ledger (forget k s)"
proof -
  have "owned (forget k s) = owned s" using assms(2) by (auto simp: owned_def forget_def)
  then show ?thesis
    using assms unfolding inv_ledger_def by (auto simp: forget_def)
qed

lemma owned_forget: "k \<in> a_released s \<Longrightarrow> owned (forget k s) = owned s"
  by (auto simp: owned_def forget_def)

lemma fold_forget_released [simp]: "a_released (fold forget ks s) = a_released s - set ks"
  by (induction ks arbitrary: s) (auto simp: forget_def)

lemma fold_forget_tickets [simp]: "tickets (fold forget ks s) k = (if k \<in> set ks then None else tickets s k)"
  by (induction ks arbitrary: s) (auto simp: forget_def)

lemma fold_forget_recovered [simp]: "recovered (fold forget ks s) k = (if k \<in> set ks then None else recovered s k)"
  by (induction ks arbitrary: s) (auto simp: forget_def)

lemma inv_ledger_fold_forget:
  assumes "inv_ledger s" "set ks \<subseteq> a_released s" "distinct ks"
  shows "inv_ledger (fold forget ks s)"
  using assms
proof (induction ks arbitrary: s)
  case (Cons k ks)
  have "a_released (forget k s) = a_released s - {k}" by (simp add: forget_def)
  with Cons show ?case by (auto intro!: Cons.IH inv_ledger_forget)
qed simp

section \<open>Admission paths on the ledger\<close>

lemma expired_keys_released: "set (expired_keys s) \<subseteq> a_released s"
  by (auto simp: expired_keys_def)

lemma distinct_expired_keys:
  assumes "inv_ledger s"
  shows "distinct (expired_keys s)"
  using inv_ledgerD(1-3)[OF assms] by (auto simp: expired_keys_def dom_map_of_conv_image_fst)

lemma sweep_fields [simp]:
  "a_tickets (sweep_expired s) = a_tickets (fold forget (expired_keys s) s)"
  "a_recovered (sweep_expired s) = a_recovered (fold forget (expired_keys s) s)"
  "a_released (sweep_expired s) = a_released s - set (expired_keys s)"
  "a_completed_at (sweep_expired s) = a_completed_at (fold forget (expired_keys s) s)"
  "a_monitors (sweep_expired s) = a_monitors (fold forget (expired_keys s) s)"
  "a_monitor_expired (sweep_expired s) = a_monitor_expired (fold forget (expired_keys s) s)"
  by (simp_all add: sweep_expired_def Let_def)

lemma fold_forget_completed_at [simp]:
  "map_of (a_completed_at (fold forget ks s)) k = (if k \<in> set ks then None else map_of (a_completed_at s) k)"
  by (induction ks arbitrary: s) (auto simp: forget_def)

lemma fold_forget_monitors [simp]:
  "map_of (a_monitors (fold forget ks s)) k = (if k \<in> set ks then None else map_of (a_monitors s) k)"
  by (induction ks arbitrary: s) (auto simp: forget_def)

lemma fold_forget_monitor_expired [simp]:
  "a_monitor_expired (fold forget ks s) = a_monitor_expired s - set ks"
  by (induction ks arbitrary: s) (auto simp: forget_def)

lemma inv_ledger_sweep:
  assumes "inv_ledger s"
  shows "inv_ledger (sweep_expired s)"
  by (rule inv_ledger_cong[where s = "fold forget (expired_keys s) s"])
    (simp_all add: assms inv_ledger_fold_forget distinct_expired_keys expired_keys_released)

lemma owned_sweep [simp]: "owned (sweep_expired s) = owned s"
  using expired_keys_released[of s] by (auto simp: owned_def split: if_splits)

text \<open>After the sweep no released key is past its window: the second check of \<open>_existing_ticket\<close> is idle.\<close>

lemma record_of_None: "record_of s k = None \<longleftrightarrow> k \<notin> dom (tickets s) \<union> dom (recovered s)"
  by (auto simp: record_of_def split: option.splits)

lemma existing_after_sweep:
  assumes "inv_ledger s"
  shows "existing_ticket k (sweep_expired s) = (record_of (sweep_expired s) k, sweep_expired s)"
proof -
  have "\<not> window_over (sweep_expired s) k" if "k \<in> a_released (sweep_expired s)"
  proof -
    have k: "k \<in> a_released s" "k \<notin> set (expired_keys s)" using that by auto
    then have "k \<in> fst ` set (a_tickets s) \<union> fst ` set (a_recovered s)"
      using inv_ledgerD(4)[OF assms] by (auto simp: dom_map_of_conv_image_fst)
    with k show ?thesis
      by (auto simp: expired_keys_def window_over_def split: option.splits)
  qed
  then show ?thesis by (auto simp: existing_ticket_def split: option.split)
qed

text \<open>States that differ in the rate windows and the alarms only.\<close>

definition minor :: "adm \<Rightarrow> adm \<Rightarrow> bool" where
  "minor s s' \<longleftrightarrow> (\<exists>ra al. s' = s\<lparr>a_rate_admits := ra, a_alarms := al\<rparr>)"

lemma minor_refl [simp]: "minor s s"
  unfolding minor_def by (rule exI[of _ "a_rate_admits s"], rule exI[of _ "a_alarms s"]) simp

lemma minor_trans: "minor s s' \<Longrightarrow> minor s' s'' \<Longrightarrow> minor s s''"
  unfolding minor_def by (elim exE, simp, intro exI, rule refl)

lemma minor_alarm: "minor s s' \<Longrightarrow> minor s (raise_alarm m b s')"
  unfolding minor_def raise_alarm_def by (elim exE, simp, intro exI, rule refl)

lemma minor_trim: "minor s (trim_window k s)"
  unfolding minor_def trim_window_def by (rule exI, rule exI[of _ "a_alarms s"]) simp

lemma minor_rate: "minor s (snd (run_rate_checks cs s))"
proof (induction cs arbitrary: s)
  case (Cons c cs)
  obtain k cap where c: "c = (k, cap)" by fastforce
  show ?case
    using minor_trans[OF minor_trim[of s k] Cons.IH] minor_alarm[OF minor_trim[of s k]]
    by (simp add: c Let_def)
qed simp

lemma minor_frame:
  assumes "minor s s'"
  shows "a_cfg s' = a_cfg s" "a_now s' = a_now s" "a_heap s' = a_heap s" "a_next s' = a_next s"
    "a_global s' = a_global s" "a_script s' = a_script s" "a_channel_sems s' = a_channel_sems s"
    "a_workspace_sems s' = a_workspace_sems s" "a_queued_total s' = a_queued_total s"
    "a_tickets s' = a_tickets s" "a_recovered s' = a_recovered s" "a_recovery_tasks s' = a_recovery_tasks s"
    "a_completed_at s' = a_completed_at s" "a_released s' = a_released s"
    "a_monitor_expired s' = a_monitor_expired s" "a_monitors s' = a_monitors s" "a_lanes s' = a_lanes s"
    "a_closed s' = a_closed s"
  using assms by (auto simp: minor_def)

text \<open>The lane of a ticket is a function of the ticket.\<close>

definition lane_of :: "adm_config \<Rightarrow> ticket_kind \<Rightarrow> string" where
  "lane_of cfg kind = (case kind of AgentTicket w sref r \<Rightarrow> sref | ScriptTicket ev \<Rightarrow> script_lane_key cfg ev)"

text \<open>A key that the ledger does not know.\<close>

definition fresh :: "adm \<Rightarrow> string \<Rightarrow> bool" where
  "fresh s k \<longleftrightarrow> k \<notin> dom (tickets s) \<union> dom (recovered s)"

text \<open>
  How \<open>admit\<close>, \<open>admit_script\<close> and \<open>recover\<close> change the state: nothing, the sweep with alarms and
  rate windows, or on top of that one new entry under a fresh key.
\<close>

definition add_recovered :: "recovered_run \<Rightarrow> adm \<Rightarrow> adm" where
  "add_recovered r s = s\<lparr>a_recovered := dict_set (a_recovered s) (rr_invocation_id r)
       (r\<lparr>rr_started := Failed (FxRuntime recovered_unknown), rr_completed := Pending\<rparr>),
     a_queued_total := a_queued_total s + 1,
     a_recovery_tasks := insert (rr_invocation_id r) (a_recovery_tasks s)\<rparr>"

inductive admission_change :: "adm \<Rightarrow> adm \<Rightarrow> bool" for s where
  change_none: "admission_change s s"
| change_swept: "minor (sweep_expired s) s' \<Longrightarrow> admission_change s s'"
| change_enqueued:
    "minor (sweep_expired s) s' \<Longrightarrow> \<not> a_closed s \<Longrightarrow> fresh s' key \<Longrightarrow>
     a_queued_total s' < ac_max_queued_total (a_cfg s') \<Longrightarrow>
     admission_change s (snd (enqueue key kind (lane_of (a_cfg s') kind) windows s'))"
| change_recovered:
    "\<not> a_closed s \<Longrightarrow> fresh (sweep_expired s) (rr_invocation_id r) \<Longrightarrow>
     s' = add_recovered r (sweep_expired s) \<Longrightarrow> admission_change s (raise_alarm m b s')"

lemma admit_change:
  assumes "inv_ledger s"
  shows "admission_change s (snd (admit rvt s))"
proof (cases "a_closed s")
  case False
  define s1 where "s1 = sweep_expired s"
  define key where "key = dedup_key s1 (re_channel rvt) (re_event_id rvt)"
  have ex: "existing_ticket key s1 = (record_of s1 key, s1)"
    unfolding s1_def by (rule existing_after_sweep[OF assms])
  note [simp] = False s1_def[symmetric] key_def[symmetric] ex
  show ?thesis
  proof (cases "record_of s1 key")
    case None
    then have fresh: "fresh s1 key" by (simp add: record_of_None fresh_def)
    show ?thesis
    proof (cases "rate_checks (a_cfg s1) rvt")
      case (Inl e)
      with None show ?thesis by (simp add: admit_def Let_def change_swept)
    next
      case (Inr checks)
      obtain res s3 where r: "run_rate_checks checks s1 = (res, s3)" by fastforce
      with minor_rate[of s1 checks] have m: "minor s1 s3" by simp
      then have "fresh s3 key" using fresh by (simp add: fresh_def minor_frame)
      then show ?thesis
        using None Inr r m change_swept[of s s3] change_swept[OF minor_alarm, of s s3]
          change_enqueued[of s s3 key "AgentTicket w sref rvt" for w sref]
        by (cases res) (simp_all add: admit_def Let_def case_prod_beta lane_of_def not_le)
    qed
  next
    case (Some h)
    then show ?thesis
      by (cases h) (simp_all add: admit_def Let_def change_swept minor_alarm)
  qed
qed (simp add: admit_def change_none)

lemma admit_script_change:
  assumes "inv_ledger s"
  shows "admission_change s (snd (admit_script ev s))"
proof (cases "a_closed s")
  case False
  define s1 where "s1 = sweep_expired s"
  define key where "key = dedup_key s1 (ev_channel ev) (ev_id ev)"
  have ex: "existing_ticket key s1 = (record_of s1 key, s1)"
    unfolding s1_def by (rule existing_after_sweep[OF assms])
  note [simp] = False s1_def[symmetric] key_def[symmetric] ex
  show ?thesis
  proof (cases "record_of s1 key")
    case None
    then have "fresh s1 key" by (simp add: record_of_None fresh_def)
    with None show ?thesis
      using change_enqueued[of s s1 key "ScriptTicket ev" "[]"]
      by (simp add: admit_script_def Let_def case_prod_beta lane_of_def not_le change_swept minor_alarm)
  next
    case (Some h)
    then show ?thesis
      by (cases h) (simp_all add: admit_script_def Let_def change_swept minor_alarm)
  qed
qed (simp add: admit_script_def change_none)

lemma recover_change: "admission_change s (snd (recover r s))"
proof (cases "a_closed s")
  case False
  define s1 where "s1 = sweep_expired s"
  note [simp] = False s1_def[symmetric]
  show ?thesis
    using change_recovered[of s r "add_recovered r s1"]
    by (simp add: recover_def Let_def change_swept minor_alarm fresh_def domIff add_recovered_def split: option.split)
qed (simp add: recover_def change_none)

lemma enqueue_fields [simp]:
  "a_tickets (snd (enqueue k kind lk ws s)) = dict_set (a_tickets s) k (a_next s)"
  "a_recovered (snd (enqueue k kind lk ws s)) = a_recovered s"
  "a_released (snd (enqueue k kind lk ws s)) = a_released s"
  "a_completed_at (snd (enqueue k kind lk ws s)) = a_completed_at s"
  "a_queued_total (snd (enqueue k kind lk ws s)) = a_queued_total s + 1"
  "a_monitors (snd (enqueue k kind lk ws s)) = dict_set (a_monitors s) k (a_next s)"
  "a_monitor_expired (snd (enqueue k kind lk ws s)) = a_monitor_expired s"
  "a_recovery_tasks (snd (enqueue k kind lk ws s)) = a_recovery_tasks s"
  "a_next (snd (enqueue k kind lk ws s)) = Suc (a_next s)"
  "a_cfg (snd (enqueue k kind lk ws s)) = a_cfg s" "a_now (snd (enqueue k kind lk ws s)) = a_now s"
  "a_closed (snd (enqueue k kind lk ws s)) = a_closed s"
  "a_global (snd (enqueue k kind lk ws s)) = a_global s" "a_script (snd (enqueue k kind lk ws s)) = a_script s"
  "a_channel_sems (snd (enqueue k kind lk ws s)) = a_channel_sems s"
  "a_workspace_sems (snd (enqueue k kind lk ws s)) = a_workspace_sems s"
  by (simp_all add: enqueue_def Let_def)

lemma fresh_not_released: "inv_ledger s \<Longrightarrow> fresh s k \<Longrightarrow> k \<notin> a_released s"
  using inv_ledgerD(4) by (auto simp: fresh_def)

lemma inv_ledger_enqueue:
  assumes inv: "inv_ledger s" and fresh: "fresh s k"
  shows "inv_ledger (snd (enqueue k kind lk ws s))"
proof -
  note D = inv_ledgerD[OF inv]
  have nr: "k \<notin> a_released s" by (rule fresh_not_released[OF inv fresh])
  have own: "owned (snd (enqueue k kind lk ws s)) = insert k (owned s)" "k \<notin> owned s"
    using fresh nr by (auto simp: owned_def fresh_def)
  show ?thesis
  proof (rule inv_ledgerI, unfold enqueue_fields own(1))
    show "distinct (map fst (dict_set (a_tickets s) k (a_next s)))" "distinct (map fst (a_recovered s))"
      using D(1,2) by simp_all
    show "a_queued_total s + 1 = int (card (insert k (owned s)))"
      using D(6) own(2) by simp
    show "map_of (dict_set (a_tickets s) k (a_next s)) k' = Some t \<and> k' \<notin> a_released s \<and> k' \<notin> a_monitor_expired s"
      if "map_of (dict_set (a_monitors s) k (a_next s)) k' = Some t" for k' t
    proof (cases "k' = k")
      case True
      then show ?thesis using that nr D(7) fresh by (auto simp: fresh_def)
    qed (use that D(9) in auto)
  qed (use D(3-5,7,8) fresh nr in \<open>auto simp: fresh_def\<close>)
qed

lemma add_recovered_fields [simp]:
  "a_tickets (add_recovered r s) = a_tickets s" "a_released (add_recovered r s) = a_released s"
  "a_completed_at (add_recovered r s) = a_completed_at s" "a_monitors (add_recovered r s) = a_monitors s"
  "a_monitor_expired (add_recovered r s) = a_monitor_expired s"
  "a_queued_total (add_recovered r s) = a_queued_total s + 1"
  "a_recovery_tasks (add_recovered r s) = insert (rr_invocation_id r) (a_recovery_tasks s)"
  "recovered (add_recovered r s) = (recovered s)(rr_invocation_id r \<mapsto>
     r\<lparr>rr_started := Failed (FxRuntime recovered_unknown), rr_completed := Pending\<rparr>)"
  "a_heap (add_recovered r s) = a_heap s" "a_lanes (add_recovered r s) = a_lanes s"
  "a_next (add_recovered r s) = a_next s" "a_cfg (add_recovered r s) = a_cfg s" "a_closed (add_recovered r s) = a_closed s"
  "a_now (add_recovered r s) = a_now s" "a_rate_admits (add_recovered r s) = a_rate_admits s"
  "a_global (add_recovered r s) = a_global s" "a_script (add_recovered r s) = a_script s"
  "a_channel_sems (add_recovered r s) = a_channel_sems s" "a_workspace_sems (add_recovered r s) = a_workspace_sems s"
  by (simp_all add: add_recovered_def)

lemma inv_ledger_add_recovered:
  assumes inv: "inv_ledger s" and fresh: "fresh s (rr_invocation_id r)"
  shows "inv_ledger (add_recovered r s)"
proof -
  let ?k = "rr_invocation_id r"
  note D = inv_ledgerD[OF inv]
  have nr: "?k \<notin> a_released s" by (rule fresh_not_released[OF inv fresh])
  have own: "owned (add_recovered r s) = insert ?k (owned s)" "?k \<notin> owned s"
    using fresh nr by (auto simp: owned_def fresh_def)
  show ?thesis
  proof (rule inv_ledgerI, unfold add_recovered_fields own(1))
    show "distinct (map fst (a_recovered (add_recovered r s)))"
      using D(2) by (simp add: add_recovered_def)
    show "a_queued_total s + 1 = int (card (insert ?k (owned s)))"
      using D(6) own(2) by simp
  qed (use D(1,3-5,7-9) fresh nr in \<open>auto simp: fresh_def\<close>)
qed

lemma inv_ledger_raise_alarm [simp]: "inv_ledger (raise_alarm m b s) = inv_ledger s"
  by (simp add: inv_ledger_def owned_def)

lemma inv_ledger_minor: "minor s s' \<Longrightarrow> inv_ledger s \<Longrightarrow> inv_ledger s'"
  by (erule inv_ledger_cong[rotated -1]) (simp_all add: minor_frame)

lemma inv_ledger_admission:
  assumes "admission_change s s'" "inv_ledger s"
  shows "inv_ledger s'"
  using assms
  by cases (auto intro: inv_ledger_minor inv_ledger_sweep inv_ledger_enqueue inv_ledger_add_recovered)

section \<open>The other paths on the ledger\<close>

lemma complete_recovered_keys [simp]:
  "dom (recovered (complete_recovered k v s)) = dom (recovered s)"
  "owned (complete_recovered k v s) = owned s"
  by (auto simp: complete_recovered_def owned_def split: option.split)

lemma inv_ledger_complete_recovered:
  assumes "inv_ledger s"
  shows "inv_ledger (complete_recovered k v s)"
proof -
  have "distinct (map fst (a_recovered (complete_recovered k v s)))"
    using inv_ledgerD(2)[OF assms] by (simp add: complete_recovered_def split: option.split)
  then show ?thesis using assms by (simp add: inv_ledger_def)
qed

text \<open>The observer's task and its claim end together.\<close>

lemma inv_ledger_release_recovered:
  assumes inv: "inv_ledger s" and k: "k \<in> dom (recovered s)" "k \<notin> a_released s"
  shows "inv_ledger ((release_capacity_once k s)\<lparr>a_recovery_tasks := a_recovery_tasks s - {k}\<rparr>)"
proof -
  note D = inv_ledgerD[OF inv]
  define s1 where "s1 = s\<lparr>a_recovery_tasks := a_recovery_tasks s - {k}\<rparr>"
  have "inv_ledger s1" using D by (intro inv_ledgerI) (auto simp: s1_def owned_def)
  moreover have "k \<in> owned s1" using k by (auto simp: owned_def s1_def)
  moreover have "k \<notin> dom (tickets s)" using D(3) k(1) by blast
  then have "k \<notin> a_monitor_expired s1" "map_of (a_monitors s1) k = None"
    using D(7) D(9)[of k] by (simp add: s1_def, blast, cases "map_of (a_monitors s) k") (auto simp: s1_def)
  ultimately have "inv_ledger (release_capacity_once k s1)"
    by (intro inv_ledger_release) (simp_all add: s1_def)
  moreover have "release_capacity_once k s1 = (release_capacity_once k s)\<lparr>a_recovery_tasks := a_recovery_tasks s - {k}\<rparr>"
    by (simp add: release_capacity_once_def s1_def)
  ultimately show ?thesis by simp
qed

lemma inv_ledger_end_task:
  assumes "inv_ledger s"
  shows "inv_ledger (s\<lparr>a_recovery_tasks := a_recovery_tasks s - {k}\<rparr>)"
  using inv_ledgerD[OF assms] by (intro inv_ledgerI) (auto simp: owned_def)

lemma inv_ledger_observer_done:
  assumes inv: "inv_ledger s"
  shows "inv_ledger (observer_done k obs s)"
proof (cases "k \<in> a_recovery_tasks s")
  case True
  then have k: "k \<in> dom (recovered s)" "k \<notin> a_released s" using inv_ledgerD(8)[OF inv] by auto
  have "inv_ledger ((release_capacity_once k (complete_recovered k v s))\<lparr>a_recovery_tasks := a_recovery_tasks s - {k}\<rparr>)" for v
    using inv_ledger_release_recovered[of "complete_recovered k v s" k] inv_ledger_complete_recovered[OF inv] k
    by simp
  moreover have "inv_ledger ((raise_alarm m b s)\<lparr>a_recovery_tasks := a_recovery_tasks s - {k}\<rparr>)" for m b
    using inv_ledger_end_task[of "raise_alarm m b s" k] inv by simp
  ultimately show ?thesis
    using True k by (simp add: observer_done_def Let_def split: observation.split)
qed (simp add: observer_done_def inv)

lemma inv_ledger_cancel_recovery:
  assumes inv: "inv_ledger s"
  shows "inv_ledger (cancel_recovery k s)"
proof (cases "a_closed s \<and> k \<in> a_recovery_tasks s")
  case True
  then have k: "k \<in> dom (recovered s)" "k \<notin> a_released s" using inv_ledgerD(8)[OF inv] by auto
  then show ?thesis
    using True inv_ledger_release_recovered[of "complete_recovered k v s" k for v] inv_ledger_complete_recovered[OF inv]
    by (simp add: cancel_recovery_def drop_recovered_def Let_def)
qed (auto simp: cancel_recovery_def inv)

lemma inv_ledger_monitor_fire:
  assumes inv: "inv_ledger s"
  shows "inv_ledger (monitor_fire k s)"
proof (cases "map_of (a_monitors s) k")
  case (Some t)
  note D = inv_ledgerD[OF inv]
  have k: "k \<in> dom (tickets s)" "k \<notin> a_released s" using D(9)[OF Some] by auto
  let ?s = "s\<lparr>a_monitor_expired := insert k (a_monitor_expired s), a_monitors := dict_del (a_monitors s) k\<rparr>"
  have "inv_ledger ?s"
    using D k by (intro inv_ledgerI) (auto simp: owned_def split: if_splits)
  then have "inv_ledger (monitor_fire k s)" if "a_now s \<ge> tk_deadline_at (a_heap s t)"
    by (rule inv_ledger_cong[rotated -1]) (use that in \<open>simp_all add: monitor_fire_def Some Let_def\<close>)
  then show ?thesis using inv by (auto simp: monitor_fire_def Some)
qed (simp add: monitor_fire_def inv)

end
