(* ===== verification/Admission_Lanes.thy ===== *)
theory Admission_Lanes
  imports Admission_Ledger
begin

text \<open>
  Lanes: every live ticket is in exactly one lane, the one its session (or script project) names, in
  admission order behind the entry the consumer is handling.
\<close>

section \<open>Views of a lane\<close>

definition cur_of :: "adm \<Rightarrow> string \<Rightarrow> (string \<times> tid \<times> phase) option" where
  "cur_of s lk = (case map_of (a_lanes s) lk of None \<Rightarrow> None | Some l \<Rightarrow> ln_current l)"

definition queue_of :: "adm \<Rightarrow> string \<Rightarrow> (string \<times> tid) list" where
  "queue_of s lk = (case map_of (a_lanes s) lk of None \<Rightarrow> [] | Some l \<Rightarrow> ln_queue l)"

definition cur_items :: "(string \<times> tid \<times> phase) option \<Rightarrow> (string \<times> tid) list" where
  "cur_items c = (case c of None \<Rightarrow> [] | Some (k, t, ph) \<Rightarrow> [(k, t)])"

definition items_of :: "adm \<Rightarrow> string \<Rightarrow> (string \<times> tid) list" where
  "items_of s lk = cur_items (cur_of s lk) @ queue_of s lk"

lemma cur_items_simps [simp]: "cur_items None = []" "cur_items (Some (k, t, ph)) = [(k, t)]"
  by (simp_all add: cur_items_def)

lemma lane_cong:
  assumes "a_lanes s' = a_lanes s"
  shows "cur_of s' = cur_of s" "queue_of s' = queue_of s"
  using assms by (simp_all add: cur_of_def queue_of_def fun_eq_iff)

lemma set_lane_view [simp]:
  "cur_of (set_lane lk l s) = (cur_of s)(lk := ln_current l)"
  "queue_of (set_lane lk l s) = (queue_of s)(lk := ln_queue l)"
  by (auto simp: set_lane_def cur_of_def queue_of_def fun_eq_iff)

lemma finish_view [simp]:
  "cur_of (finish lk k t s) = (cur_of s)(lk := None)"
  "queue_of (finish lk k t s) = queue_of s"
  by (auto simp: finish_def cur_of_def queue_of_def fun_eq_iff Let_def split: option.split)

lemma lane_put_view [simp]:
  "cur_of (lane_put lk k t s) = cur_of s"
  "queue_of (lane_put lk k t s) = (queue_of s)(lk := queue_of s lk @ [(k, t)])"
  by (auto simp: lane_put_def cur_of_def queue_of_def fun_eq_iff split: option.splits)

lemma enqueue_view [simp]:
  "cur_of (snd (enqueue k kind lk ws s)) = cur_of s"
  "queue_of (snd (enqueue k kind lk ws s)) = (queue_of s)(lk := queue_of s lk @ [(k, a_next s)])"
proof -
  have c: "cur_of (s1\<lparr>a_monitors := m\<rparr>) = cur_of s" "queue_of (s1\<lparr>a_monitors := m\<rparr>) = queue_of s"
    if "a_lanes s1 = a_lanes s" for s1 m
    using that by (simp_all add: lane_cong[of "s1\<lparr>a_monitors := m\<rparr>" s])
  show "cur_of (snd (enqueue k kind lk ws s)) = cur_of s"
    "queue_of (snd (enqueue k kind lk ws s)) = (queue_of s)(lk := queue_of s lk @ [(k, a_next s)])"
    by (simp_all add: enqueue_def Let_def c)
qed

lemma view_frame [simp]:
  "cur_of (fail_ticket t e s) = cur_of s" "queue_of (fail_ticket t e s) = queue_of s"
  "cur_of (mark_started t s) = cur_of s" "queue_of (mark_started t s) = queue_of s"
  "cur_of (expire t m s) = cur_of s" "queue_of (expire t m s) = queue_of s"
  "cur_of (settle_run t out s) = cur_of s" "queue_of (settle_run t out s) = queue_of s"
  "cur_of (caller_cancel t w s) = cur_of s" "queue_of (caller_cancel t w s) = queue_of s"
  "cur_of (make_sems tk s) = cur_of s" "queue_of (make_sems tk s) = queue_of s"
  "cur_of (release_permits tk s) = cur_of s" "queue_of (release_permits tk s) = queue_of s"
  "cur_of (snd (cancel_monitor k t s)) = cur_of s" "queue_of (snd (cancel_monitor k t s)) = queue_of s"
  "cur_of (fold (fail_and_retire e) xs s) = cur_of s" "queue_of (fold (fail_and_retire e) xs s) = queue_of s"
  "cur_of (fail_and_retire e x s) = cur_of s" "queue_of (fail_and_retire e x s) = queue_of s"
  "cur_of (sweep_expired s) = cur_of s" "queue_of (sweep_expired s) = queue_of s"
  "cur_of (add_recovered r s) = cur_of s" "queue_of (add_recovered r s) = queue_of s"
  "cur_of (raise_alarm m b s) = cur_of s" "queue_of (raise_alarm m b s) = queue_of s"
  by (rule lane_cong; simp)+

section \<open>The invariant\<close>

definition inv_lanes :: "adm \<Rightarrow> bool" where
  "inv_lanes s \<longleftrightarrow>
     (\<forall>k t. tickets s k = Some t \<longrightarrow> t < a_next s \<and> tk_invocation_id (a_heap s t) = k)
     \<and> (\<forall>lk k t. (k, t) \<in> set (items_of s lk) \<longrightarrow>
          tickets s k = Some t \<and> k \<notin> a_released s \<and> lane_of (a_cfg s) (tk_kind (a_heap s t)) = lk)
     \<and> (\<forall>lk. sorted_wrt (<) (map snd (items_of s lk)))
     \<and> (\<not> a_closed s \<longrightarrow> (\<forall>k t. tickets s k = Some t \<and> k \<notin> a_released s \<longrightarrow>
          (k, t) \<in> set (items_of s (lane_of (a_cfg s) (tk_kind (a_heap s t))))))"

lemma inv_lanesD:
  assumes "inv_lanes s"
  shows "tickets s k = Some t \<Longrightarrow> t < a_next s" "tickets s k = Some t \<Longrightarrow> tk_invocation_id (a_heap s t) = k"
    "(k, t) \<in> set (items_of s lk) \<Longrightarrow> tickets s k = Some t"
    "(k, t) \<in> set (items_of s lk) \<Longrightarrow> k \<notin> a_released s"
    "(k, t) \<in> set (items_of s lk) \<Longrightarrow> lane_of (a_cfg s) (tk_kind (a_heap s t)) = lk"
    "sorted_wrt (<) (map snd (items_of s lk))"
    "\<not> a_closed s \<Longrightarrow> tickets s k = Some t \<Longrightarrow> k \<notin> a_released s \<Longrightarrow>
       (k, t) \<in> set (items_of s (lane_of (a_cfg s) (tk_kind (a_heap s t))))"
  using assms unfolding inv_lanes_def by blast+

lemma inv_lanesI:
  assumes "\<And>k t. tickets s k = Some t \<Longrightarrow> t < a_next s \<and> tk_invocation_id (a_heap s t) = k"
    "\<And>lk k t. (k, t) \<in> set (items_of s lk) \<Longrightarrow>
       tickets s k = Some t \<and> k \<notin> a_released s \<and> lane_of (a_cfg s) (tk_kind (a_heap s t)) = lk"
    "\<And>lk. sorted_wrt (<) (map snd (items_of s lk))"
    "\<And>k t. \<not> a_closed s \<Longrightarrow> tickets s k = Some t \<Longrightarrow> k \<notin> a_released s \<Longrightarrow>
       (k, t) \<in> set (items_of s (lane_of (a_cfg s) (tk_kind (a_heap s t))))"
  shows "inv_lanes s"
  using assms unfolding inv_lanes_def by blast

text \<open>The invariant reads the ledger, the lanes and the immutable part of the tickets.\<close>

lemma inv_lanes_cong:
  assumes "inv_lanes s" "a_tickets s' = a_tickets s" "a_released s' = a_released s" "a_next s' = a_next s"
    "a_cfg s' = a_cfg s" "a_closed s' = a_closed s" "cur_of s' = cur_of s" "queue_of s' = queue_of s"
    "\<And>t. tk_static (a_heap s' t) = tk_static (a_heap s t)"
  shows "inv_lanes s'"
  using assms(1) tk_static_eqD[OF assms(9)] by (simp add: inv_lanes_def items_of_def assms(2-8))

lemma cur_item: "cur_of s lk = Some (k, t, ph) \<Longrightarrow> (k, t) \<in> set (items_of s lk)"
  by (simp add: items_of_def)

lemma queue_item: "(k, t) \<in> set (queue_of s lk) \<Longrightarrow> (k, t) \<in> set (items_of s lk)"
  by (simp add: items_of_def)

lemma item_once:
  assumes "inv_lanes s" "(k, t) \<in> set (items_of s lk)" "(k, t') \<in> set (items_of s lk')"
  shows "t' = t" "lk' = lk"
proof -
  show "t' = t" using inv_lanesD(3)[OF assms(1) assms(2)] inv_lanesD(3)[OF assms(1) assms(3)] by simp
  then show "lk' = lk" using inv_lanesD(5)[OF assms(1) assms(2)] inv_lanesD(5)[OF assms(1) assms(3)] by simp
qed

text \<open>The consumer's entry is the oldest of its lane.\<close>

lemma cur_not_queued:
  assumes "inv_lanes s" "cur_of s lk = Some (k, t, ph)" "(k', t') \<in> set (queue_of s lk)"
  shows "t < t'" "k' \<noteq> k"
proof -
  show "t < t'" using inv_lanesD(6)[OF assms(1), of lk] assms(2,3) by (auto simp: items_of_def)
  then show "k' \<noteq> k"
    using item_once(1)[OF assms(1) cur_item[OF assms(2)], of t' lk] queue_item[OF assms(3)] by auto
qed

lemma inv_lanes_init: "inv_lanes (init_admission cfg now)"
  by (simp add: inv_lanes_def init_admission_def items_of_def cur_of_def queue_of_def)

section \<open>Operations on lanes\<close>

lemma retire_released_set: "a_released (retire k t s) = insert k (a_released s)"
  by (auto simp: retire_def release_capacity_once_def)

lemma finish_released [simp]: "a_released (finish lk k t s) = insert k (a_released s)"
  by (simp add: finish_def Let_def retire_released_set split: option.split)

lemma inv_lanes_finish:
  assumes inv: "inv_lanes s" and cur: "cur_of s lk = Some (k, t, ph)"
  shows "inv_lanes (finish lk k t s)"
proof -
  have items: "items_of (finish lk k t s) lk' = (if lk' = lk then queue_of s lk else items_of s lk')" for lk'
    by (simp add: items_of_def)
  have sub: "(k', t') \<in> set (items_of (finish lk k t s) lk') \<longleftrightarrow> (k', t') \<in> set (items_of s lk') \<and> k' \<noteq> k" for k' t' lk'
  proof -
    have "(k, t') \<notin> set (queue_of s lk)" for t' using cur_not_queued(2)[OF inv cur] by blast
    then show ?thesis
      using item_once(2)[OF inv cur_item[OF cur], of t' lk'] cur by (auto simp: items) (auto simp: items_of_def)
  qed
  show ?thesis
  proof (rule inv_lanesI)
    show "sorted_wrt (<) (map snd (items_of (finish lk k t s) lk'))" for lk'
      using inv_lanesD(6)[OF inv, of lk'] by (auto simp: items items_of_def sorted_wrt_append)
  qed (use inv_lanesD[OF inv] in \<open>auto simp: sub\<close>)
qed

lemma enqueue_heap:
  "a_heap (snd (enqueue k kind lk ws s)) = (a_heap s)(a_next s := \<lparr>tk_invocation_id = k,
     tk_namespace = ac_namespace (a_cfg s), tk_agent_uid = ac_agent_uid (a_cfg s), tk_kind = kind,
     tk_deadline_at = a_now s + ac_max_invocation_seconds (a_cfg s), tk_started = Pending, tk_completed = Pending\<rparr>)"
  by (simp add: enqueue_def Let_def)

lemma inv_lanes_enqueue:
  assumes ledger: "inv_ledger s" and inv: "inv_lanes s" and fresh: "fresh s k"
  shows "inv_lanes (snd (enqueue k kind (lane_of (a_cfg s) kind) ws s))" (is "inv_lanes ?s")
proof -
  let ?n = "a_next s"
  have items: "items_of ?s lk = items_of s lk @ (if lk = lane_of (a_cfg s) kind then [(k, ?n)] else [])" for lk
    by (simp add: items_of_def)
  have old: "t < ?n" "t \<noteq> ?n" "k' \<noteq> k" if "tickets s k' = Some t" for k' t
    using inv_lanesD(1)[OF inv that] fresh that by (auto simp: fresh_def)
  note in_old = old[OF inv_lanesD(3)[OF inv]]
  have nr: "k \<notin> a_released s" by (rule fresh_not_released[OF ledger fresh])
  show ?thesis
  proof (rule inv_lanesI)
    show "t < a_next ?s \<and> tk_invocation_id (a_heap ?s t) = k'" if "tickets ?s k' = Some t" for k' t
      using that old[of k' t] inv_lanesD(2)[OF inv, of k' t] by (cases "k' = k") (auto simp: enqueue_heap)
    show "tickets ?s k' = Some t \<and> k' \<notin> a_released ?s \<and> lane_of (a_cfg ?s) (tk_kind (a_heap ?s t)) = lk"
      if "(k', t) \<in> set (items_of ?s lk)" for lk k' t
    proof (cases "(k', t) \<in> set (items_of s lk)")
      case True
      then show ?thesis
        using in_old[OF True] inv_lanesD(3-5)[OF inv True] by (simp add: enqueue_heap)
    next
      case False
      then show ?thesis using that nr by (simp add: items enqueue_heap split: if_splits)
    qed
    show "sorted_wrt (<) (map snd (items_of ?s lk))" for lk
      using inv_lanesD(6)[OF inv, of lk] in_old(1)[of _ _ lk] by (auto simp: items sorted_wrt_append)
    show "(k', t) \<in> set (items_of ?s (lane_of (a_cfg ?s) (tk_kind (a_heap ?s t))))"
      if "\<not> a_closed ?s" "tickets ?s k' = Some t" "k' \<notin> a_released ?s" for k' t
    proof (cases "k' = k")
      case True
      then show ?thesis using that by (simp add: items enqueue_heap)
    next
      case False
      then have "tickets s k' = Some t" using that by simp
      then show ?thesis using that inv_lanesD(7)[OF inv, of k' t] old by (simp add: items enqueue_heap)
    qed
  qed
qed

lemma inv_lanes_admission:
  assumes "admission_change s s'" "inv_ledger s" "inv_lanes s"
  shows "inv_lanes s'"
proof -
  have sweep: "inv_lanes (sweep_expired s)"
  proof -
    have "k \<notin> set (expired_keys s)" if "(k, t) \<in> set (items_of s lk)" for k t lk
      using inv_lanesD(4)[OF assms(3) that] expired_keys_released[of s] by auto
    moreover have "items_of (sweep_expired s) = items_of s" by (simp add: items_of_def fun_eq_iff)
    ultimately show ?thesis
      using inv_lanesD[OF assms(3)] by (intro inv_lanesI) (auto split: if_splits)
  qed
  have minor: "inv_lanes s2" if "minor s1 s2" "inv_lanes s1" for s1 s2
    using that(2) by (rule inv_lanes_cong) (simp_all add: minor_frame[OF that(1)] lane_cong[OF minor_frame(17)[OF that(1)]])
  show ?thesis using assms(1)
  proof cases
    case (change_enqueued s1 key kind windows)
    have i: "inv_lanes s1" using minor sweep change_enqueued by blast
    have l: "inv_ledger s1" using inv_ledger_minor inv_ledger_sweep assms(2) change_enqueued by blast
    show ?thesis using inv_lanes_enqueue[OF l i] change_enqueued by simp
  next
    case (change_recovered r s1 m b)
    then show ?thesis using sweep by (auto intro!: inv_lanes_cong[OF sweep])
  qed (use minor sweep assms(3) in auto)
qed

text \<open>The head of the queue becomes the consumer's entry: the items stay.\<close>

lemma inv_lanes_dequeue:
  assumes inv: "inv_lanes s" and q: "cur_of s lk = None" "queue_of s lk = (k, t) # q"
  shows "inv_lanes (set_lane lk \<lparr>ln_queue = q, ln_current = Some (k, t, ph)\<rparr> s)" (is "inv_lanes ?s")
proof -
  have "items_of ?s = items_of s" using q by (auto simp: items_of_def fun_eq_iff)
  then show ?thesis using inv by (simp add: inv_lanes_def)
qed

lemma inv_lanes_set_phase:
  assumes inv: "inv_lanes s" and l: "map_of (a_lanes s) lk = Some l" "ln_current l = Some (k, t, ph)"
  shows "inv_lanes (set_lane lk (l\<lparr>ln_current := Some (k, t, ph')\<rparr>) s)" (is "inv_lanes ?s")
proof -
  have "items_of ?s = items_of s" using l by (auto simp: items_of_def cur_of_def queue_of_def fun_eq_iff)
  then show ?thesis using inv by (simp add: inv_lanes_def)
qed

text \<open>Retiring entries that leave their lanes.\<close>

lemma fold_retire_released:
  "a_released (fold (fail_and_retire e) xs s) = a_released s \<union> fst ` set xs"
  by (induction xs arbitrary: s) (auto simp: fail_and_retire_def retire_released_set)

lemma inv_ledger_fold_retire:
  assumes "inv_ledger s" "\<And>k t. (k, t) \<in> set xs \<Longrightarrow> tickets s k = Some t"
  shows "inv_ledger (fold (fail_and_retire e) xs s)"
  using assms
proof (induction xs arbitrary: s)
  case (Cons x xs)
  obtain k t where x: "x = (k, t)" by fastforce
  have "inv_ledger (fail_and_retire e x s)"
    using Cons.prems(1) Cons.prems(2)[of k t] by (simp add: x fail_and_retire_def inv_ledger_retire_any)
  then show ?case using Cons by simp
qed simp

lemma inv_lanes_closed:
  assumes inv: "inv_lanes s" and closed: "a_closed s"
    and same: "a_tickets s' = a_tickets s" "a_next s' = a_next s" "a_cfg s' = a_cfg s" "a_closed s'"
      "\<And>t. tk_static (a_heap s' t) = tk_static (a_heap s t)"
    and items: "\<And>lk. items_of s' lk = items_of s lk \<or> items_of s' lk = []"
    and rel: "\<And>lk k t. (k, t) \<in> set (items_of s' lk) \<Longrightarrow> k \<notin> a_released s'"
  shows "inv_lanes s'"
proof (rule inv_lanesI)
  note st = tk_static_eqD[OF same(5)]
  show "t < a_next s' \<and> tk_invocation_id (a_heap s' t) = k" if "tickets s' k = Some t" for k t
    using that inv_lanesD(1,2)[OF inv] by (simp add: same st)
  show "tickets s' k = Some t \<and> k \<notin> a_released s' \<and> lane_of (a_cfg s') (tk_kind (a_heap s' t)) = lk"
    if "(k, t) \<in> set (items_of s' lk)" for lk k t
    using rel[OF that] items[of lk] that inv_lanesD(3,5)[OF inv, of k t lk] by (auto simp: same st)
  show "sorted_wrt (<) (map snd (items_of s' lk))" for lk
    using items[of lk] inv_lanesD(6)[OF inv, of lk] by auto
qed (use same(4) in simp)

section \<open>Ledger and lanes through every operation\<close>

definition inv_core :: "adm \<Rightarrow> bool" where
  "inv_core s \<longleftrightarrow> inv_ledger s \<and> inv_lanes s"

lemma inv_core_cong:
  assumes "inv_core s" "a_tickets s' = a_tickets s" "a_recovered s' = a_recovered s" "a_released s' = a_released s"
    "a_completed_at s' = a_completed_at s" "a_queued_total s' = a_queued_total s"
    "a_monitor_expired s' = a_monitor_expired s" "a_recovery_tasks s' = a_recovery_tasks s"
    "a_monitors s' = a_monitors s" "a_next s' = a_next s" "a_cfg s' = a_cfg s" "a_closed s' = a_closed s"
    "a_lanes s' = a_lanes s" "\<And>t. tk_static (a_heap s' t) = tk_static (a_heap s t)"
  shows "inv_core s'"
  using assms(1) inv_ledger_cong[of s' s] inv_lanes_cong[of s s'] assms(2-) lane_cong[OF assms(13)]
  by (simp add: inv_core_def)

lemma inv_ledger_finish:
  assumes "inv_ledger s" "tickets s k = Some t"
  shows "inv_ledger (finish lk k t s)"
  using inv_ledger_retire_any[OF assms]
  by (rule inv_ledger_cong[rotated -1]) (simp_all add: finish_def Let_def split: option.split)

lemma inv_core_finish:
  assumes "inv_core s" "cur_of s lk = Some (k, t, ph)"
  shows "inv_core (finish lk k t s)"
  using assms inv_lanes_finish inv_ledger_finish inv_lanesD(3)[OF _ cur_item] by (auto simp: inv_core_def)

lemma inv_core_admission: "admission_change s s' \<Longrightarrow> inv_core s \<Longrightarrow> inv_core s'"
  using inv_ledger_admission inv_lanes_admission by (simp add: inv_core_def)

lemma inv_core_monitor_fire:
  assumes "inv_core s"
  shows "inv_core (monitor_fire k s)"
proof -
  have "inv_lanes (monitor_fire k s)"
  proof (rule inv_lanes_cong[of s])
    show "tk_static (a_heap (monitor_fire k s) t) = tk_static (a_heap s t)" for t
      by (simp add: monitor_fire_def Let_def split: option.split)
    show "cur_of (monitor_fire k s) = cur_of s" "queue_of (monitor_fire k s) = queue_of s"
      by (rule lane_cong; simp add: monitor_fire_def Let_def split: option.split)+
  qed (use assms in \<open>simp_all add: inv_core_def monitor_fire_def Let_def split: option.split\<close>)
  then show ?thesis using assms inv_ledger_monitor_fire by (simp add: inv_core_def)
qed

lemma observer_done_frame [simp]:
  "a_tickets (observer_done k obs s) = a_tickets s" "a_next (observer_done k obs s) = a_next s"
  "a_cfg (observer_done k obs s) = a_cfg s" "a_closed (observer_done k obs s) = a_closed s"
  "a_heap (observer_done k obs s) = a_heap s" "a_lanes (observer_done k obs s) = a_lanes s"
  "a_monitors (observer_done k obs s) = a_monitors s"
  "a_monitor_expired (observer_done k obs s) = a_monitor_expired s"
  "a_global (observer_done k obs s) = a_global s" "a_script (observer_done k obs s) = a_script s"
  "a_channel_sems (observer_done k obs s) = a_channel_sems s"
  "a_workspace_sems (observer_done k obs s) = a_workspace_sems s"
  "a_rate_admits (observer_done k obs s) = a_rate_admits s" "a_now (observer_done k obs s) = a_now s"
  by (simp_all add: observer_done_def Let_def split: observation.split)

lemma cancel_recovery_frame [simp]:
  "a_tickets (cancel_recovery k s) = a_tickets s" "a_next (cancel_recovery k s) = a_next s"
  "a_cfg (cancel_recovery k s) = a_cfg s" "a_closed (cancel_recovery k s) = a_closed s"
  "a_heap (cancel_recovery k s) = a_heap s" "a_lanes (cancel_recovery k s) = a_lanes s"
  "a_monitors (cancel_recovery k s) = a_monitors s"
  "a_monitor_expired (cancel_recovery k s) = a_monitor_expired s"
  "a_global (cancel_recovery k s) = a_global s" "a_script (cancel_recovery k s) = a_script s"
  "a_channel_sems (cancel_recovery k s) = a_channel_sems s"
  "a_workspace_sems (cancel_recovery k s) = a_workspace_sems s"
  "a_rate_admits (cancel_recovery k s) = a_rate_admits s" "a_now (cancel_recovery k s) = a_now s"
  by (simp_all add: cancel_recovery_def Let_def)

lemma release_subset: "a_released (release_capacity_once k s) = insert k (a_released s)"
  by (auto simp: release_capacity_once_def)

text \<open>Releasing a recovered run never touches a ticket's key.\<close>

lemma inv_lanes_release_recovered:
  assumes inv: "inv_core s" and k: "k \<in> a_recovery_tasks s"
    and same: "a_tickets s' = a_tickets s" "a_next s' = a_next s" "a_cfg s' = a_cfg s" "a_closed s' = a_closed s"
      "a_heap s' = a_heap s" "a_lanes s' = a_lanes s"
    and rel: "a_released s \<subseteq> a_released s'" "a_released s' \<subseteq> insert k (a_released s)"
  shows "inv_lanes s'"
proof -
  have l: "inv_ledger s" "inv_lanes s" using inv by (simp_all add: inv_core_def)
  have "tickets s k = None" using inv_ledgerD(3,8)[OF l(1)] k by blast
  then have "k' \<notin> a_released s' \<longleftrightarrow> k' \<notin> a_released s" if "tickets s k' = Some t" for k' t
    using that rel by auto
  moreover have "items_of s' = items_of s" using lane_cong[OF same(6)] by (simp add: items_of_def fun_eq_iff)
  ultimately show ?thesis
    using l(2) unfolding inv_lanes_def same by auto
qed

lemma inv_core_observer_done:
  assumes "inv_core s"
  shows "inv_core (observer_done k obs s)"
proof (cases "k \<in> a_recovery_tasks s")
  case True
  have "a_released (observer_done k obs s) \<subseteq> insert k (a_released s)" "a_released s \<subseteq> a_released (observer_done k obs s)"
    by (auto simp: observer_done_def Let_def release_subset split: observation.split)
  with inv_lanes_release_recovered[OF assms True] inv_ledger_observer_done assms
  show ?thesis by (simp add: inv_core_def)
qed (simp add: observer_done_def assms)

lemma inv_core_cancel_recovery:
  assumes "inv_core s"
  shows "inv_core (cancel_recovery k s)"
proof (cases "k \<in> a_recovery_tasks s")
  case True
  have "a_released (cancel_recovery k s) \<subseteq> insert k (a_released s)" "a_released s \<subseteq> a_released (cancel_recovery k s)"
    by (auto simp: cancel_recovery_def drop_recovered_def Let_def release_subset)
  with inv_lanes_release_recovered[OF assms True] inv_ledger_cancel_recovery assms
  show ?thesis by (simp add: inv_core_def)
qed (simp add: cancel_recovery_def assms)

lemma inv_core_dequeue:
  assumes "inv_core s" "cur_of s lk = None" "queue_of s lk = (k, t) # q"
  shows "inv_core (snd (cancel_monitor k t (set_lane lk \<lparr>ln_queue = q, ln_current = Some (k, t, Waiting)\<rparr> s)))"
    (is "inv_core (snd (cancel_monitor k t ?s))")
proof -
  have "inv_ledger ?s" using assms(1) inv_ledger_cong[of ?s s] by (simp add: inv_core_def)
  moreover have "inv_lanes ?s" using assms inv_lanes_dequeue by (simp add: inv_core_def)
  ultimately show ?thesis
    using inv_ledger_cancel_monitor inv_lanes_cong[of ?s "snd (cancel_monitor k t ?s)"] by (simp add: inv_core_def)
qed

lemma lane_start_cases:
  obtains (idle) "lane_start lk s = s"
  | (turn) k t q s2 where "cur_of s lk = None" "queue_of s lk = (k, t) # q"
      "s2 = snd (cancel_monitor k t (set_lane lk \<lparr>ln_queue = q, ln_current = Some (k, t, Waiting)\<rparr> s))"
      "cur_of s2 = (cur_of s)(lk \<mapsto> (k, t, Waiting))" "queue_of s2 = (queue_of s)(lk := q)"
      "lane_start lk s =
         (if fst (cancel_monitor k t (set_lane lk \<lparr>ln_queue = q, ln_current = Some (k, t, Waiting)\<rparr> s))
          then finish lk k t s2
          else if a_now s \<ge> tk_deadline_at (a_heap s t)
          then finish lk k t (expire t ''deadline exceeded before permit wait'' s2)
          else make_sems (a_heap s t) s2)"
proof (cases "map_of (a_lanes s) lk")
  case (Some l)
  show thesis
  proof (cases "ln_current l = None \<and> ln_queue l \<noteq> []")
    case True
    then obtain k t q where q: "ln_queue l = (k, t) # q" "ln_current l = None"
      by (cases "ln_queue l") auto
    show thesis
      using q Some
      by (intro turn[of k t q, OF _ _ refl]) (simp_all add: lane_start_def cur_of_def queue_of_def case_prod_beta Let_def)
  next
    case False
    then show thesis
      using Some by (intro idle) (auto simp: lane_start_def split: option.split list.split)
  qed
qed (simp add: idle lane_start_def)

lemma inv_core_lane_start:
  assumes "inv_core s"
  shows "inv_core (lane_start lk s)"
proof (cases rule: lane_start_cases[of lk s])
  case (turn k t q s2)
  have i: "inv_core s2" using inv_core_dequeue[OF assms turn(1,2)] turn(3) by simp
  have e: "inv_core (expire t m s2)" for m
    using i by (rule inv_core_cong) simp_all
  have "inv_core (finish lk k t s2)" "inv_core (finish lk k t (expire t m s2))" for m
    using inv_core_finish[OF i, where ph = Waiting] inv_core_finish[OF e, where ph = Waiting] turn(4) by simp_all
  moreover have "inv_core (make_sems tk s2)" for tk
    using i by (rule inv_core_cong) simp_all
  ultimately show ?thesis using turn(6) by simp
qed (use assms in simp)

lemma try_acquire_frame:
  assumes "try_acquire tk s = Some s1"
  shows "\<exists>g sc cs ws. s1 = s\<lparr>a_global := g, a_script := sc, a_channel_sems := cs, a_workspace_sems := ws\<rparr>"
proof -
  have *: "\<exists>g sc cs ws. s1 = s\<lparr>a_global := g, a_script := sc, a_channel_sems := cs, a_workspace_sems := ws\<rparr>"
    if "s1 = s\<lparr>a_global := a_global s1, a_script := a_script s1, a_channel_sems := a_channel_sems s1,
      a_workspace_sems := a_workspace_sems s1\<rparr>"
    using that by blast
  show ?thesis
    using assms
    by (intro *) (auto simp: try_acquire_def try_acquire_all_def try_acquire_script_def Let_def add_global_def
      add_channel_def add_workspace_def add_script_def split: ticket_kind.splits if_splits option.splits)
qed

lemma lane_poll_cases:
  obtains (idle) "lane_poll lk later s = s"
  | (expired) k t where "cur_of s lk = Some (k, t, Waiting)"
      "lane_poll lk later s = finish lk k t (expire t (wait_reason (a_heap s t)) s)"
  | (late) k t s1 s2 where "cur_of s lk = Some (k, t, Waiting)" "try_acquire (a_heap s t) s = Some s1"
      "s2 = s1\<lparr>a_now := a_now s1 + int later\<rparr>"
      "lane_poll lk later s = finish lk k t (release_permits (a_heap s t) (expire t (late_reason (a_heap s t)) s2))"
  | (acquired) k t l s1 s2 where "cur_of s lk = Some (k, t, Waiting)" "map_of (a_lanes s) lk = Some l"
      "ln_current l = Some (k, t, Waiting)" "try_acquire (a_heap s t) s = Some s1"
      "s2 = s1\<lparr>a_now := a_now s1 + int later\<rparr>" "a_now s2 < tk_deadline_at (a_heap s t)"
      "lane_poll lk later s = set_lane lk (l\<lparr>ln_current := Some (k, t, Running)\<rparr>) s2"
proof (cases "\<exists>l k t. map_of (a_lanes s) lk = Some l \<and> ln_current l = Some (k, t, Waiting)")
  case True
  then obtain l k t where l: "map_of (a_lanes s) lk = Some l" "ln_current l = Some (k, t, Waiting)" by blast
  note [simp] = l
  have cur: "cur_of s lk = Some (k, t, Waiting)" by (simp add: cur_of_def)
  show thesis
  proof (cases "a_now s \<ge> tk_deadline_at (a_heap s t)")
    case True
    then show thesis using expired[OF cur] by (simp add: lane_poll_def Let_def)
  next
    case False
    show thesis
    proof (cases "try_acquire (a_heap s t) s")
      case None
      then show thesis using idle False by (simp add: lane_poll_def)
    next
      case (Some s1)
      then show thesis
        using late[OF cur Some refl] acquired[OF cur l Some refl] False
        by (cases "tk_deadline_at (a_heap s t) \<le> a_now s1 + int later") (simp_all add: lane_poll_def Let_def)
    qed
  qed
next
  case False
  then show thesis
    by (intro idle) (auto simp: lane_poll_def split: option.split phase.split prod.split)
qed

lemma inv_core_acquire:
  assumes "inv_core s" "try_acquire tk s = Some s1"
  shows "inv_core (s1\<lparr>a_now := n\<rparr>)"
  using try_acquire_frame[OF assms(2)] by (elim exE) (rule inv_core_cong[OF assms(1)]; simp)

lemma acquire_view:
  assumes "try_acquire tk s = Some s1"
  shows "cur_of (s1\<lparr>a_now := n\<rparr>) = cur_of s" "queue_of (s1\<lparr>a_now := n\<rparr>) = queue_of s" "a_lanes s1 = a_lanes s"
    "a_heap s1 = a_heap s"
  using try_acquire_frame[OF assms] by (auto simp: cur_of_def queue_of_def fun_eq_iff)

lemma inv_core_lane_poll:
  assumes "inv_core s"
  shows "inv_core (lane_poll lk later s)"
proof (cases rule: lane_poll_cases[of lk later s])
  case (expired k t)
  have "inv_core (expire t m s)" for m using assms by (rule inv_core_cong) simp_all
  then show ?thesis using expired inv_core_finish[where ph = Waiting] by simp
next
  case (late k t s1 s2)
  have i: "inv_core s2" using inv_core_acquire[OF assms late(2)] late(3) by simp
  have "inv_core (release_permits tk (expire t m s2))" for m tk using i by (rule inv_core_cong) simp_all
  then show ?thesis
    using late(1,3,4) inv_core_finish[where ph = Waiting] acquire_view[OF late(2)] by simp
next
  case (acquired k t l s1 s2)
  have i: "inv_core s2" using inv_core_acquire[OF assms acquired(4)] acquired(5) by simp
  have "a_lanes s2 = a_lanes s" using acquire_view[OF acquired(4)] acquired(5) by simp
  then have "inv_lanes (lane_poll lk later s)"
    using i acquired(2,3,7) inv_lanes_set_phase[of s2 lk l k t Waiting Running] by (simp add: inv_core_def)
  moreover have "inv_ledger (lane_poll lk later s)"
    using i acquired(7) inv_ledger_cong[of "lane_poll lk later s" s2] by (simp add: inv_core_def)
  ultimately show ?thesis by (simp add: inv_core_def)
qed (use assms in simp)

lemma current_running_iff: "current_running lk s = Some (k, t) \<longleftrightarrow> cur_of s lk = Some (k, t, Running)"
  by (auto simp: current_running_def cur_of_def split: option.split phase.splits)

lemma runner_done_cases:
  obtains (idle) "runner_done lk out s = s"
  | (run) k t where "cur_of s lk = Some (k, t, Running)"
      "runner_done lk out s = finish lk k t (release_permits (a_heap s t) (settle_run t out s))"
  by (cases "current_running lk s") (auto simp: runner_done_def current_running_iff)

lemma inv_core_runner_done:
  assumes "inv_core s"
  shows "inv_core (runner_done lk out s)"
proof (cases rule: runner_done_cases[of lk out s])
  case (run k t)
  have "inv_core (release_permits tk (settle_run t out s))" for tk using assms by (rule inv_core_cong) simp_all
  then show ?thesis using run inv_core_finish[where ph = Running] by simp
qed (use assms in simp)

lemma inv_core_runner_started: "inv_core s \<Longrightarrow> inv_core (runner_started lk s)"
  by (auto simp: runner_started_def elim!: inv_core_cong split: option.split)

lemma inv_core_close_start: "inv_core s \<Longrightarrow> inv_core (close_start s)"
proof -
  assume i: "inv_core s"
  have "items_of (close_start s) = items_of s"
    by (simp add: items_of_def cur_of_def queue_of_def close_start_def fun_eq_iff)
  then show ?thesis
    using i inv_ledger_cong[of "close_start s" s] by (simp add: inv_core_def inv_lanes_def close_start_def)
qed

lemma inv_core_tick: "inv_core s \<Longrightarrow> inv_core (tick d s)"
  by (erule inv_core_cong) (simp_all add: tick_def)

lemma inv_core_caller_cancel: "inv_core s \<Longrightarrow> inv_core (caller_cancel t w s)"
  by (erule inv_core_cong) simp_all

text \<open>A cancelled lane retires all its entries, oldest first.\<close>

lemma cancel_lane_cases:
  obtains (idle) "cancel_lane lk s = s"
  | (cancel) s0 where "a_closed s" "s0 = (case cur_of s lk of Some (k, t, Running) \<Rightarrow> release_permits (a_heap s t) s | _ \<Rightarrow> s)"
      "cancel_lane lk s = (let s2 = fold (fail_and_retire FxCancelled) (items_of s lk) s0
         in s2\<lparr>a_lanes := dict_del (a_lanes s) lk\<rparr>)"
proof (cases "a_closed s \<and> map_of (a_lanes s) lk \<noteq> None")
  case True
  then obtain l where l: "map_of (a_lanes s) lk = Some l" by auto
  show thesis
    using True l
    by (intro cancel[OF _ refl])
      (auto simp: cancel_lane_def items_of_def cur_of_def queue_of_def Let_def split: option.split phase.split)
qed (auto simp: idle cancel_lane_def split: option.split bool.split)

lemma inv_core_cancel_lane:
  assumes "inv_core s"
  shows "inv_core (cancel_lane lk s)"
proof (cases rule: cancel_lane_cases[of lk s])
  case (cancel s0)
  have l: "inv_ledger s" "inv_lanes s" using assms by (simp_all add: inv_core_def)
  have s0: "a_tickets s0 = a_tickets s" "a_lanes s0 = a_lanes s" "inv_ledger s0" "a_released s0 = a_released s"
    "a_next s0 = a_next s" "a_cfg s0 = a_cfg s" "a_closed s0 = a_closed s" "a_heap s0 = a_heap s"
    using l(1) inv_ledger_cong[of "release_permits tk s" s for tk]
    by (auto simp: cancel(2) split: option.split phase.split)
  let ?s2 = "fold (fail_and_retire FxCancelled) (items_of s lk) s0"
  let ?s = "?s2\<lparr>a_lanes := dict_del (a_lanes s) lk\<rparr>"
  have items: "items_of ?s lk' = (if lk' = lk then [] else items_of s lk')" for lk'
    by (simp add: items_of_def cur_of_def queue_of_def)
  have "inv_ledger ?s2"
    using inv_ledger_fold_retire[OF s0(3)] inv_lanesD(3)[OF l(2)] s0(1) by simp
  then have "inv_ledger ?s" by (rule inv_ledger_cong[rotated -1]) simp_all
  moreover have "inv_lanes ?s"
  proof (rule inv_lanes_closed[OF l(2) cancel(1)])
    show "k \<notin> a_released ?s" if "(k, t) \<in> set (items_of ?s lk')" for lk' k t
      using that inv_lanesD(4)[OF l(2)] item_once(2)[OF l(2), of k _ lk _ lk']
      by (auto simp: items fold_retire_released s0 split: if_splits)
  qed (use s0 cancel(1) in \<open>simp_all add: items\<close>)
  ultimately show ?thesis using cancel(3) by (simp add: inv_core_def Let_def)
qed (use assms in simp)

lemma inv_core_drop_lane:
  assumes "inv_core s"
  shows "inv_core (drop_lane lk s)"
proof (cases "a_closed s \<and> (\<exists>l. map_of (a_lanes s) lk = Some l \<and> ln_current l = None)")
  case True
  let ?s = "s\<lparr>a_lanes := dict_del (a_lanes s) lk\<rparr>"
  have d: "a_closed s" "drop_lane lk s = ?s" using True by (auto simp: drop_lane_def)
  have items: "items_of ?s lk' = (if lk' = lk then [] else items_of s lk')" for lk'
    by (simp add: items_of_def cur_of_def queue_of_def)
  have l: "inv_ledger s" "inv_lanes s" using assms by (simp_all add: inv_core_def)
  have "inv_lanes ?s"
    by (rule inv_lanes_closed[OF l(2) d(1)])
      (use d(1) inv_lanesD(4)[OF l(2)] in \<open>auto simp: items split: if_splits\<close>)
  moreover have "inv_ledger ?s" using l(1) by (rule inv_ledger_cong[rotated -1]) simp_all
  ultimately show ?thesis using d(2) by (simp add: inv_core_def)
qed (use assms in \<open>auto simp: drop_lane_def split: bool.split option.split\<close>)

lemma inv_ledger_drop_recovered:
  assumes inv: "inv_ledger s" and k: "k \<in> dom (recovered s)" "a_recovery_tasks s = {}"
  shows "inv_ledger (drop_recovered k s)"
proof (cases "k \<in> a_released s")
  case False
  let ?s = "complete_recovered k (Failed closed_exc) s"
  have "inv_ledger ((release_capacity_once k ?s)\<lparr>a_recovery_tasks := a_recovery_tasks ?s - {k}\<rparr>)"
    using inv_ledger_release_recovered[of ?s k] inv_ledger_complete_recovered[OF inv] k False by simp
  then show ?thesis
    by (rule inv_ledger_cong[rotated -1]) (use False k in \<open>simp_all add: drop_recovered_def\<close>)
qed (simp add: drop_recovered_def inv)

lemma drop_recovered_dom [simp]: "dom (recovered (drop_recovered k s)) = dom (recovered s)"
  by (simp add: drop_recovered_def)

lemma inv_ledger_fold_drop:
  assumes "inv_ledger s" "set ks \<subseteq> dom (recovered s)" "a_recovery_tasks s = {}"
  shows "inv_ledger (fold drop_recovered ks s)"
  using assms by (induction ks arbitrary: s) (simp_all add: inv_ledger_drop_recovered)

lemma inv_core_close_finish:
  assumes "inv_core s"
  shows "inv_core (close_finish s)"
proof (cases "a_closed s \<and> a_recovery_tasks s = {} \<and> a_lanes s = []")
  case True
  have l: "inv_ledger s" "inv_lanes s" using assms by (simp_all add: inv_core_def)
  define s1 where "s1 = s\<lparr>a_monitors := []\<rparr>"
  define s2 where "s2 = fold (fail_and_retire closed_exc) (a_tickets s1) s1"
  have "inv_ledger s1" using inv_ledgerD[OF l(1)] by (intro inv_ledgerI) (auto simp: s1_def owned_def)
  then have i2: "inv_ledger s2"
    unfolding s2_def by (rule inv_ledger_fold_retire) (use inv_ledgerD(1)[OF l(1)] in \<open>simp add: s1_def\<close>)
  have f: "close_finish s = fold drop_recovered (map fst (a_recovered s2)) s2"
    using True by (simp add: close_finish_def s1_def s2_def)
  have "inv_ledger (close_finish s)"
    unfolding f by (rule inv_ledger_fold_drop[OF i2]) (use True in \<open>auto simp: s2_def s1_def dom_map_of_conv_image_fst\<close>)
  moreover have "items_of (close_finish s) = (\<lambda>lk. [])"
    using True by (simp add: f s2_def s1_def items_of_def cur_of_def queue_of_def fun_eq_iff)
  then have "inv_lanes (close_finish s)"
    by (intro inv_lanes_closed[OF l(2)]) (use True in \<open>simp_all add: f s2_def s1_def\<close>)
  ultimately show ?thesis by (simp add: inv_core_def)
qed (use assms in \<open>auto simp: close_finish_def\<close>)

theorem inv_core_step: "step s s' \<Longrightarrow> inv_core s \<Longrightarrow> inv_core s'"
proof (induction rule: step.induct)
  case (step_admit s rvt)
  then show ?case using inv_core_admission[OF admit_change] by (simp add: inv_core_def)
next
  case (step_admit_script s ev)
  then show ?case using inv_core_admission[OF admit_script_change] by (simp add: inv_core_def)
qed (simp_all add: inv_core_admission[OF recover_change] inv_core_monitor_fire inv_core_observer_done inv_core_lane_start
  inv_core_lane_poll inv_core_runner_started inv_core_runner_done inv_core_close_start inv_core_cancel_recovery
  inv_core_cancel_lane inv_core_drop_lane inv_core_close_finish inv_core_tick inv_core_caller_cancel)

lemma inv_core_init: "inv_core (init_admission cfg now)"
  by (simp add: inv_core_def inv_ledger_init inv_lanes_init)

lemma reachable_inv_core: "reachable cfg s \<Longrightarrow> inv_core s"
  by (induction rule: reachable.induct) (simp_all add: inv_core_init inv_core_step)

end
