(* ===== verification/Admission_Permits.thy ===== *)
theory Admission_Permits
  imports Admission_Lanes
begin

text \<open>
  Permit accounting: every semaphore's value plus the runs that hold it is its capacity, in every
  reachable state, so no pool is ever overdrawn and none leaks.
\<close>

section \<open>Counting holders\<close>

lemma card_where_insert:
  assumes "finite H" "t \<notin> H"
  shows "int (card {u \<in> insert t H. P u}) = int (card {u \<in> H. P u}) + (if P t then 1 else 0)"
proof -
  have "{u \<in> insert t H. P u} = (if P t then insert t {u \<in> H. P u} else {u \<in> H. P u})" by auto
  then show ?thesis using assms by simp
qed

lemma card_where_remove:
  assumes "finite H" "t \<in> H"
  shows "int (card {u \<in> H - {t}. P u}) = int (card {u \<in> H. P u}) - (if P t then 1 else 0)"
  using card_where_insert[of "H - {t}" t P] assms by (simp add: insert_absorb)

definition inv_counts :: "tid set \<Rightarrow> adm \<Rightarrow> bool" where
  "inv_counts H s \<longleftrightarrow>
     finite H \<and> distinct (map fst (a_channel_sems s)) \<and> distinct (map fst (a_workspace_sems s))
     \<and> a_global s + int (card {t \<in> H. \<not> is_script (a_heap s t) \<or> a_script s = None})
         = ac_max_concurrent_invocations (a_cfg s)
     \<and> ac_max_concurrent_scripts (a_cfg s) =
         map_option (\<lambda>v. v + int (card {t \<in> H. is_script (a_heap s t)})) (a_script s)
     \<and> (\<forall>c v cap. map_of (a_channel_sems s) c = Some (v, cap) \<longrightarrow>
          cap = channel_cap (a_cfg s) c \<and> v + int (card {t \<in> H. tk_channel (a_heap s t) = c}) = cap)
     \<and> (\<forall>w v cap. map_of (a_workspace_sems s) w = Some (v, cap) \<longrightarrow>
          cap = ac_workspace_max_concurrent_sessions (a_cfg s)
          \<and> v + int (card {t \<in> H. tk_workspace (a_heap s t) = Some w}) = cap)"

lemma inv_countsD:
  assumes "inv_counts H s"
  shows "finite H" "distinct (map fst (a_channel_sems s))" "distinct (map fst (a_workspace_sems s))"
    "a_global s + int (card {t \<in> H. \<not> is_script (a_heap s t) \<or> a_script s = None})
       = ac_max_concurrent_invocations (a_cfg s)"
    "ac_max_concurrent_scripts (a_cfg s) =
       map_option (\<lambda>v. v + int (card {t \<in> H. is_script (a_heap s t)})) (a_script s)"
    "map_of (a_channel_sems s) c = Some (v, cap) \<Longrightarrow>
       cap = channel_cap (a_cfg s) c \<and> v + int (card {t \<in> H. tk_channel (a_heap s t) = c}) = cap"
    "map_of (a_workspace_sems s) w = Some (v, cap) \<Longrightarrow>
       cap = ac_workspace_max_concurrent_sessions (a_cfg s)
       \<and> v + int (card {t \<in> H. tk_workspace (a_heap s t) = Some w}) = cap"
  using assms unfolding inv_counts_def by blast+

lemma kind_cong:
  assumes "tk_kind k = tk_kind k'"
  shows "is_script k = is_script k'" "tk_channel k = tk_channel k'" "tk_workspace k = tk_workspace k'"
    "tk_session k = tk_session k'"
  using assms by (simp_all add: is_script_def tk_channel_def tk_workspace_def tk_session_def)

lemma where_cong: "(\<And>t. t \<in> H \<Longrightarrow> f t = g t) \<Longrightarrow> {t \<in> H. P (f t)} = {t \<in> H. P (g t)}"
  by auto

lemma inv_counts_cong:
  assumes "inv_counts H s" "a_channel_sems s' = a_channel_sems s" "a_workspace_sems s' = a_workspace_sems s"
    "a_global s' = a_global s" "a_script s' = a_script s" "a_cfg s' = a_cfg s"
    "\<And>t. t \<in> H \<Longrightarrow> tk_kind (a_heap s' t) = tk_kind (a_heap s t)"
  shows "inv_counts H s'"
proof -
  note k = kind_cong[OF assms(7)]
  have "{t \<in> H. \<not> is_script (a_heap s' t) \<or> b} = {t \<in> H. \<not> is_script (a_heap s t) \<or> b}"
    "{t \<in> H. is_script (a_heap s' t)} = {t \<in> H. is_script (a_heap s t)}"
    "{t \<in> H. tk_channel (a_heap s' t) = c} = {t \<in> H. tk_channel (a_heap s t) = c}"
    "{t \<in> H. tk_workspace (a_heap s' t) = w} = {t \<in> H. tk_workspace (a_heap s t) = w}" for b c w
    using k by auto
  then show ?thesis using assms(1) by (simp add: inv_counts_def assms(2-6))
qed

text \<open>All pools of a ticket moved by \<open>d\<close>.\<close>

definition shifted :: "int \<Rightarrow> ticket \<Rightarrow> adm \<Rightarrow> adm \<Rightarrow> bool" where
  "shifted d tk s s' \<longleftrightarrow>
     a_cfg s' = a_cfg s \<and> (\<forall>t. tk_kind (a_heap s' t) = tk_kind (a_heap s t))
     \<and> a_global s' = a_global s + (if \<not> is_script tk \<or> a_script s = None then d else 0)
     \<and> a_script s' = map_option (\<lambda>v. v + (if is_script tk then d else 0)) (a_script s)
     \<and> (\<forall>c. map_of (a_channel_sems s') c =
          map_option (\<lambda>(v, cap). (v + (if tk_channel tk = c then d else 0), cap)) (map_of (a_channel_sems s) c))
     \<and> (\<forall>w. map_of (a_workspace_sems s') w =
          map_option (\<lambda>(v, cap). (v + (if tk_workspace tk = Some w then d else 0), cap)) (map_of (a_workspace_sems s) w))
     \<and> (distinct (map fst (a_channel_sems s)) \<longrightarrow> distinct (map fst (a_channel_sems s')))
     \<and> (distinct (map fst (a_workspace_sems s)) \<longrightarrow> distinct (map fst (a_workspace_sems s')))"

lemma sem_add_view: "map_of (sem_add sems k d) c =
    map_option (\<lambda>(v, cap). (v + (if k = c then d else 0), cap)) (map_of sems c)"
  by (auto simp: sem_add_def split: option.split)

lemma sem_add_distinct: "distinct (map fst sems) \<Longrightarrow> distinct (map fst (sem_add sems k d))"
  by (simp add: sem_add_def split: option.split)

lemma shifted_agent:
  assumes "tk_kind tk = AgentTicket w sref r"
  shows "shifted d tk s (add_global d (add_channel (re_channel r) d (add_workspace w d s)))"
  using assms
  by (auto simp: shifted_def add_global_def add_channel_def add_workspace_def is_script_def tk_channel_def
      tk_workspace_def sem_add_view sem_add_distinct option.map_ident)

lemma shifted_script:
  assumes "tk_kind tk = ScriptTicket ev"
  shows "shifted d tk s (add_script d (add_channel (ev_channel ev) d s))"
  using assms
  by (auto simp: shifted_def add_global_def add_channel_def add_script_def is_script_def tk_channel_def
      tk_workspace_def sem_add_view sem_add_distinct option.map_id split: option.split)

lemma shifted_release: "shifted 1 tk s (release_permits tk s)"
  by (cases "tk_kind tk") (simp_all add: release_permits_def shifted_agent shifted_script)

lemma shifted_acquire:
  assumes "try_acquire tk s = Some s1"
  shows "shifted (- 1) tk s s1"
proof (cases "tk_kind tk")
  case (AgentTicket w sref r)
  then have "s1 = add_global (- 1) (add_channel (re_channel r) (- 1) (add_workspace w (- 1) s))"
    using assms by (auto simp: try_acquire_def try_acquire_all_def Let_def add_global_def add_channel_def
      add_workspace_def split: if_splits)
  then show ?thesis using shifted_agent[OF AgentTicket] by simp
next
  case (ScriptTicket ev)
  then have "s1 = add_script (- 1) (add_channel (ev_channel ev) (- 1) s)"
    using assms by (auto simp: try_acquire_def try_acquire_script_def split: if_splits)
  then show ?thesis using shifted_script[OF ScriptTicket] by simp
qed

text \<open>Taking a ticket's pools down by one is taking the ticket into the holders, and back.\<close>

lemma inv_counts_shift:
  assumes inv: "inv_counts H s" and sh: "shifted d (a_heap s t) s s'"
    and H: "finite H'" "\<And>P. int (card {u \<in> H'. P u}) = int (card {u \<in> H. P u}) - (if P t then d else 0)"
  shows "inv_counts H' s'"
proof -
  note D = inv_countsD[OF inv]
  have k: "tk_kind (a_heap s' u) = tk_kind (a_heap s u)" for u using sh by (simp add: shifted_def)
  note [simp] = kind_cong[OF k]
  have cfg: "a_cfg s' = a_cfg s" using sh by (simp add: shifted_def)
  have sc: "a_script s' = None \<longleftrightarrow> a_script s = None" using sh by (auto simp: shifted_def)
  show ?thesis
    unfolding inv_counts_def
  proof (intro conjI allI impI)
    show "a_global s' + int (card {u \<in> H'. \<not> is_script (a_heap s' u) \<or> a_script s' = None})
      = ac_max_concurrent_invocations (a_cfg s')"
      using D(4) sh H(2)[of "\<lambda>u. \<not> is_script (a_heap s u) \<or> a_script s = None"] by (simp add: shifted_def sc cfg)
    show "ac_max_concurrent_scripts (a_cfg s') =
        map_option (\<lambda>v. v + int (card {t \<in> H'. is_script (a_heap s' t)})) (a_script s')"
      using D(5) sh H(2)[of "\<lambda>u. is_script (a_heap s u)"]
      by (cases "a_script s") (auto simp: shifted_def cfg)
    fix c v cap
    assume "map_of (a_channel_sems s') c = Some (v, cap)"
    then obtain v0 where v0: "map_of (a_channel_sems s) c = Some (v0, cap)"
      "v = v0 + (if tk_channel (a_heap s t) = c then d else 0)" using sh by (auto simp: shifted_def)
    show "cap = channel_cap (a_cfg s') c" "v + int (card {t \<in> H'. tk_channel (a_heap s' t) = c}) = cap"
      using D(6)[OF v0(1)] v0(2) H(2)[of "\<lambda>u. tk_channel (a_heap s u) = c"] by (simp_all add: cfg)
  next
    fix w v cap
    assume "map_of (a_workspace_sems s') w = Some (v, cap)"
    then obtain v0 where v0: "map_of (a_workspace_sems s) w = Some (v0, cap)"
      "v = v0 + (if tk_workspace (a_heap s t) = Some w then d else 0)" using sh by (auto simp: shifted_def)
    show "cap = ac_workspace_max_concurrent_sessions (a_cfg s')"
      "v + int (card {t \<in> H'. tk_workspace (a_heap s' t) = Some w}) = cap"
      using D(7)[OF v0(1)] v0(2) H(2)[of "\<lambda>u. tk_workspace (a_heap s u) = Some w"] by (simp_all add: cfg)
  qed (use H(1) D(2,3) sh in \<open>simp_all add: shifted_def\<close>)
qed

lemma inv_counts_acquire:
  assumes "inv_counts H s" "t \<notin> H" "try_acquire (a_heap s t) s = Some s1"
  shows "inv_counts (insert t H) s1"
  using assms(1) shifted_acquire[OF assms(3)]
  by (rule inv_counts_shift) (use inv_countsD(1)[OF assms(1)] card_where_insert[OF _ assms(2)] in auto)

lemma inv_counts_release:
  assumes "inv_counts H s" "t \<in> H" "tk_kind tk = tk_kind (a_heap s t)"
  shows "inv_counts (H - {t}) (release_permits tk s)"
proof -
  have "release_permits tk s = release_permits (a_heap s t) s" using assms(3) by (simp add: release_permits_def)
  then show ?thesis
    using inv_counts_shift[OF assms(1) shifted_release, where H' = "H - {t}"]
      inv_countsD(1)[OF assms(1)] card_where_remove[OF _ assms(2)] by auto
qed

section \<open>Semaphores that exist\<close>

definition has_sems :: "adm \<Rightarrow> ticket \<Rightarrow> bool" where
  "has_sems s tk \<longleftrightarrow> tk_channel tk \<in> dom (map_of (a_channel_sems s))
     \<and> (\<forall>w. tk_workspace tk = Some w \<longrightarrow> w \<in> dom (map_of (a_workspace_sems s)))"

text \<open>Every entry a consumer handles outside the lanes \<open>X\<close> has its semaphores.\<close>

definition inv_sems :: "string set \<Rightarrow> adm \<Rightarrow> bool" where
  "inv_sems X s \<longleftrightarrow> (\<forall>lk k t ph. lk \<notin> X \<longrightarrow> cur_of s lk = Some (k, t, ph) \<longrightarrow> has_sems s (a_heap s t))"

definition running :: "adm \<Rightarrow> tid set" where
  "running s = {t. \<exists>lk k. cur_of s lk = Some (k, t, Running)}"

definition inv_permits :: "adm \<Rightarrow> bool" where
  "inv_permits s \<longleftrightarrow> inv_sems {} s \<and> inv_counts (running s) s"

lemma has_sems_cong:
  assumes "tk_kind tk' = tk_kind tk" "dom (map_of (a_channel_sems s)) \<subseteq> dom (map_of (a_channel_sems s'))"
    "dom (map_of (a_workspace_sems s)) \<subseteq> dom (map_of (a_workspace_sems s'))" "has_sems s tk"
  shows "has_sems s' tk'"
  using assms(2-) unfolding has_sems_def kind_cong[OF assms(1)] by blast

lemma inv_semsD: "inv_sems X s \<Longrightarrow> lk \<notin> X \<Longrightarrow> cur_of s lk = Some (k, t, ph) \<Longrightarrow> has_sems s (a_heap s t)"
  unfolding inv_sems_def by blast

lemma inv_sems_mono:
  assumes "inv_sems X s" "\<And>lk k t ph. lk \<notin> Y \<Longrightarrow> cur_of s' lk = Some (k, t, ph) \<Longrightarrow> lk \<notin> X \<and> (\<exists>ph'. cur_of s lk = Some (k, t, ph'))"
    "\<And>t. tk_kind (a_heap s' t) = tk_kind (a_heap s t)"
    "dom (map_of (a_channel_sems s)) \<subseteq> dom (map_of (a_channel_sems s'))"
    "dom (map_of (a_workspace_sems s)) \<subseteq> dom (map_of (a_workspace_sems s'))"
  shows "inv_sems Y s'"
  unfolding inv_sems_def using has_sems_cong[OF assms(3-5)] inv_semsD[OF assms(1)] assms(2) by blast

lemma shifted_dom:
  assumes "shifted d tk s s'"
  shows "dom (map_of (a_channel_sems s')) = dom (map_of (a_channel_sems s))"
    "dom (map_of (a_workspace_sems s')) = dom (map_of (a_workspace_sems s))"
  using assms by (auto simp: shifted_def dom_def)

lemma running_cong: "cur_of s' = cur_of s \<Longrightarrow> running s' = running s"
  by (simp add: running_def)

lemma inv_permits_cong:
  assumes "inv_permits s" "a_channel_sems s' = a_channel_sems s" "a_workspace_sems s' = a_workspace_sems s"
    "a_global s' = a_global s" "a_script s' = a_script s" "a_cfg s' = a_cfg s" "cur_of s' = cur_of s"
    "\<And>t. tk_static (a_heap s' t) = tk_static (a_heap s t)"
  shows "inv_permits s'"
proof -
  note k = tk_static_eqD(1)[OF assms(8)]
  have "inv_sems {} s'"
    using assms(1) unfolding inv_permits_def
    by (elim conjE) (erule inv_sems_mono; simp add: k assms(2-7))
  moreover have "inv_counts (running s') s'"
    using assms(1) unfolding inv_permits_def running_cong[OF assms(7)]
    by (elim conjE) (erule inv_counts_cong; simp add: k assms(2-6))
  ultimately show ?thesis by (simp add: inv_permits_def)
qed

text \<open>A consumer lets go of an entry that waits, or of one that runs and has given its permits back.\<close>

lemma running_drop:
  assumes "inv_lanes s" "cur_of s lk = Some (k, t, ph)" "cur_of s' = (cur_of s)(lk := None)"
  shows "running s' = running s - (if ph = Running then {t} else {})"
proof -
  have u: "lk' = lk" if "cur_of s lk' = Some (k', t, ph')" for lk' k' ph'
    using inv_lanesD(5)[OF assms(1) cur_item[OF that]] inv_lanesD(5)[OF assms(1) cur_item[OF assms(2)]] by simp
  have "u \<in> running s' \<longleftrightarrow> u \<in> running s - (if ph = Running then {t} else {})" for u
  proof -
    have "u \<in> running s' \<longleftrightarrow> (\<exists>lk' k'. lk' \<noteq> lk \<and> cur_of s lk' = Some (k', u, Running))"
      by (auto simp: running_def assms(3))
    also have "\<dots> \<longleftrightarrow> u \<in> running s \<and> \<not> (ph = Running \<and> u = t)"
      using assms(2) by (auto simp: running_def dest: u) (metis option.inject prod.inject)+
    finally show ?thesis by simp
  qed
  then show ?thesis by blast
qed

lemma inv_permits_finish_waiting:
  assumes lanes: "inv_lanes s" and sems: "inv_sems {lk} s" and counts: "inv_counts (running s) s"
    and cur: "cur_of s lk = Some (k, t, Waiting)"
  shows "inv_permits (finish lk k t s)"
proof -
  have r: "running (finish lk k t s) = running s" using running_drop[OF lanes cur] by simp
  have "inv_counts (running s) (finish lk k t s)" using counts by (rule inv_counts_cong) simp_all
  moreover have "inv_sems {} (finish lk k t s)"
    using sems by (rule inv_sems_mono) (auto split: if_splits)
  ultimately show ?thesis by (simp add: inv_permits_def r)
qed

lemma inv_permits_finish_running:
  assumes lanes: "inv_lanes s" and inv: "inv_permits s" and cur: "cur_of s lk = Some (k, t, Running)"
    and tk: "tk_kind tk = tk_kind (a_heap s t)"
  shows "inv_permits (finish lk k t (release_permits tk s))"
proof -
  let ?s = "release_permits tk s"
  have "t \<in> running s" using cur by (auto simp: running_def)
  then have "inv_counts (running s - {t}) ?s"
    using inv tk by (auto simp: inv_permits_def intro!: inv_counts_release)
  then have "inv_counts (running s - {t}) (finish lk k t ?s)" by (rule inv_counts_cong) simp_all
  moreover have "running (finish lk k t ?s) = running s - {t}" using running_drop[OF lanes cur] by simp
  moreover have "inv_sems {} (finish lk k t ?s)"
    using inv shifted_dom[OF shifted_release, of tk s] unfolding inv_permits_def
    by (elim conjE) (erule inv_sems_mono; auto split: if_splits)
  ultimately show ?thesis by (simp add: inv_permits_def)
qed

section \<open>The permit pools through every operation\<close>

text \<open>A new semaphore starts full: nobody can hold one that is not there.\<close>

lemma make_sems_has: "has_sems (make_sems tk s) tk"
  by (auto simp: has_sems_def make_sems_def tk_channel_def tk_workspace_def channel_sem_def workspace_sem_def Let_def
      split: ticket_kind.split option.split)

lemma make_sems_dom:
  "dom (map_of (a_channel_sems s)) \<subseteq> dom (map_of (a_channel_sems (make_sems tk s)))"
  "dom (map_of (a_workspace_sems s)) \<subseteq> dom (map_of (a_workspace_sems (make_sems tk s)))"
  by (auto simp: make_sems_def channel_sem_def workspace_sem_def Let_def split: ticket_kind.splits option.splits if_splits)

lemma inv_counts_channel_sem:
  assumes inv: "inv_counts H s" and H: "\<And>t. t \<in> H \<Longrightarrow> has_sems s (a_heap s t)"
  shows "inv_counts H (channel_sem c s)"
proof (cases "map_of (a_channel_sems s) c")
  case None
  then have "{t \<in> H. tk_channel (a_heap s t) = c} = {}" using H by (fastforce simp: has_sems_def)
  with None inv show ?thesis
    unfolding inv_counts_def by (auto simp: channel_sem_def Let_def)
qed (simp add: channel_sem_def inv)

lemma inv_counts_workspace_sem:
  assumes inv: "inv_counts H s" and H: "\<And>t. t \<in> H \<Longrightarrow> has_sems s (a_heap s t)"
  shows "inv_counts H (workspace_sem w s)"
proof (cases "map_of (a_workspace_sems s) w")
  case None
  then have "{t \<in> H. tk_workspace (a_heap s t) = Some w} = {}" using H by (fastforce simp: has_sems_def)
  with None inv show ?thesis
    unfolding inv_counts_def by (auto simp: workspace_sem_def Let_def)
qed (simp add: workspace_sem_def inv)

lemma inv_counts_make_sems:
  assumes inv: "inv_counts H s" and H: "\<And>t. t \<in> H \<Longrightarrow> has_sems s (a_heap s t)"
  shows "inv_counts H (make_sems tk s)"
proof -
  have "has_sems (channel_sem c s) (a_heap s t)" if "t \<in> H" for c t
    using H[OF that] by (auto simp: has_sems_def channel_sem_def Let_def split: option.split)
  then show ?thesis
    using inv_counts_channel_sem[OF inv H] inv_counts_workspace_sem[of H "channel_sem c s" for c]
    by (simp add: make_sems_def split: ticket_kind.split)
qed

lemma running_has_sems:
  assumes "inv_sems X s" "\<And>lk k t. lk \<in> X \<Longrightarrow> cur_of s lk \<noteq> Some (k, t, Running)" "t \<in> running s"
  shows "has_sems s (a_heap s t)"
  using assms by (auto simp: running_def inv_sems_def)

lemma running_put:
  assumes "\<And>k' t'. cur_of s lk \<noteq> Some (k', t', Running)" "cur_of s' = (cur_of s)(lk \<mapsto> (k, t, ph))"
  shows "running s' = (if ph = Running then insert t (running s) else running s)"
proof -
  have "u \<in> running s' \<longleftrightarrow> (ph = Running \<and> u = t) \<or> u \<in> running s" for u
    using assms(1) by (auto simp: running_def assms(2)) metis
  then show ?thesis by auto
qed

lemma waiting_not_running:
  assumes "inv_lanes s" "cur_of s lk = Some (k, t, Waiting)"
  shows "t \<notin> running s"
proof
  assume "t \<in> running s"
  then obtain lk' k' where c: "cur_of s lk' = Some (k', t, Running)" by (auto simp: running_def)
  have "lk' = lk"
    using inv_lanesD(5)[OF assms(1) cur_item[OF c]] inv_lanesD(5)[OF assms(1) cur_item[OF assms(2)]] by simp
  then show False using c assms(2) by simp
qed

lemma inv_permits_lane_start:
  assumes core: "inv_core s" and inv: "inv_permits s"
  shows "inv_permits (lane_start lk s)"
proof (cases rule: lane_start_cases[of lk s])
  case (turn k t q s2)
  have c2: "cur_of s2 lk = Some (k, t, Waiting)" using turn(4) by simp
  have l2: "inv_lanes s2" using inv_core_dequeue[OF core turn(1,2)] turn(3) by (simp add: inv_core_def)
  have run: "running s2 = running s" using running_put[OF _ turn(4)] turn(1) by simp
  have cnt: "inv_counts (running s2) s2"
    using inv unfolding run inv_permits_def by (elim conjE) (erule inv_counts_cong; simp add: turn(3))
  have sems: "inv_sems {lk} s2"
    using inv unfolding inv_permits_def by (elim conjE) (erule inv_sems_mono; simp add: turn(3))
  have late: "inv_permits (finish lk k t (expire t m s2))" for m
  proof (rule inv_permits_finish_waiting)
    show "inv_lanes (expire t m s2)" using l2 by (rule inv_lanes_cong) simp_all
    show "inv_sems {lk} (expire t m s2)" using sems by (rule inv_sems_mono) (auto intro: tk_static_eqD(1))
    show "inv_counts (running (expire t m s2)) (expire t m s2)"
      using cnt unfolding running_cong[OF view_frame(5)] by (rule inv_counts_cong) (auto intro: tk_static_eqD(1))
  qed (simp add: c2)
  have go: "inv_permits (make_sems (a_heap s t) s2)"
  proof -
    have h: "a_heap s2 = a_heap s" using turn(3) by simp
    have "inv_counts (running s2) (make_sems (a_heap s t) s2)"
      using cnt running_has_sems[OF sems] c2 by (intro inv_counts_make_sems) auto
    moreover have "inv_sems {} (make_sems (a_heap s t) s2)"
      unfolding inv_sems_def
    proof (intro allI impI)
      fix lk' k' t' ph assume c: "cur_of (make_sems (a_heap s t) s2) lk' = Some (k', t', ph)"
      show "has_sems (make_sems (a_heap s t) s2) (a_heap (make_sems (a_heap s t) s2) t')"
      proof (cases "lk' = lk")
        case True
        with c c2 show ?thesis by (simp add: make_sems_has h)
      next
        case False
        with c sems have "has_sems s2 (a_heap s2 t')" by (auto intro: inv_semsD)
        then show ?thesis using has_sems_cong[OF refl make_sems_dom] by simp
      qed
    qed
    ultimately show ?thesis by (simp add: inv_permits_def running_cong[OF view_frame(11)])
  qed
  show ?thesis using turn(6) late go inv_permits_finish_waiting[OF l2 sems cnt c2] by simp
qed (use inv in simp)

lemma inv_permits_lane_poll:
  assumes core: "inv_core s" and inv: "inv_permits s"
  shows "inv_permits (lane_poll lk later s)"
proof (cases rule: lane_poll_cases[of lk later s])
  case (expired k t)
  let ?s = "expire t (wait_reason (a_heap s t)) s"
  have p: "inv_permits ?s" using inv by (rule inv_permits_cong) simp_all
  have "inv_lanes ?s" using core unfolding inv_core_def by (elim conjE) (erule inv_lanes_cong; simp)
  then show ?thesis
    using p expired inv_permits_finish_waiting[of ?s lk k t] inv_sems_mono[of "{}" ?s "{lk}" ?s]
    by (auto simp: inv_permits_def)
next
  case (late k t s1 s2)
  note v = acquire_view[OF late(2)] and sh = shifted_acquire[OF late(2)]
  have nr: "t \<notin> running s" using waiting_not_running core late(1) by (simp add: inv_core_def)
  let ?s3 = "release_permits (a_heap s t) (expire t (late_reason (a_heap s t)) s2)"
  have k3: "tk_kind (a_heap ?s3 u) = tk_kind (a_heap s u)" for u
    using v(4) by (simp add: late(3) tk_static_eqD(1)[OF expire_static])
  have cnt1: "inv_counts (insert t (running s)) s1"
    using inv nr late(2) by (auto simp: inv_permits_def intro: inv_counts_acquire)
  have "inv_counts (insert t (running s)) (expire t (late_reason (a_heap s t)) s2)"
    using cnt1 by (rule inv_counts_cong) (auto simp: late(3) intro!: tk_static_eqD(1))
  then have cnt: "inv_counts (running s) ?s3"
    using inv_counts_release[of "insert t (running s)" _ t "a_heap s t"] nr v(4)
    by (simp add: late(3) tk_static_eqD(1)[OF expire_static])
  have r: "running ?s3 = running s" using v(1) by (intro running_cong) (simp add: late(3))
  have dom: "dom (map_of (a_channel_sems ?s3)) = dom (map_of (a_channel_sems s))"
    "dom (map_of (a_workspace_sems ?s3)) = dom (map_of (a_workspace_sems s))"
    using shifted_dom[OF shifted_release, of "a_heap s t" "expire t (late_reason (a_heap s t)) s2"] shifted_dom[OF sh]
    by (simp_all add: late(3))
  have "inv_sems {lk} ?s3"
    using inv v(1) unfolding inv_permits_def
    by (elim conjE) (erule inv_sems_mono; (simp only: k3 dom)?; simp add: late(3))
  moreover have "inv_lanes ?s3"
    using inv_core_acquire[OF core late(2), of "a_now s1 + int later"] unfolding inv_core_def late(3)
    by (elim conjE) (erule inv_lanes_cong; simp)
  ultimately show ?thesis
    using late(1,3,4) cnt r v(1) inv_permits_finish_waiting[of ?s3 lk k t] by simp
next
  case (acquired k t l s1 s2)
  note v = acquire_view[OF acquired(4)] and sh = shifted_acquire[OF acquired(4)]
  let ?s = "set_lane lk (l\<lparr>ln_current := Some (k, t, Running)\<rparr>) s2"
  have nr: "t \<notin> running s" using waiting_not_running core acquired(1) by (simp add: inv_core_def)
  have c: "cur_of ?s = (cur_of s)(lk \<mapsto> (k, t, Running))" using v(1) by (simp add: acquired(5))
  have "running ?s = insert t (running s)"
    using running_put[OF _ c] acquired(1) by simp
  moreover have "inv_counts (insert t (running s)) ?s"
    using inv_counts_acquire[OF _ nr acquired(4)] inv unfolding inv_permits_def
    by (elim conjE) (rule inv_counts_cong[of _ s1]; simp add: acquired(5))
  moreover have "inv_sems {} ?s"
    using inv acquired(1) shifted_dom[OF sh] v(1,4) unfolding inv_permits_def
    by (elim conjE) (erule inv_sems_mono; auto simp: c acquired(5) split: if_splits)
  ultimately show ?thesis using acquired(7) by (simp add: inv_permits_def)
qed (use inv in simp)

lemma inv_permits_runner_done:
  assumes core: "inv_core s" and inv: "inv_permits s"
  shows "inv_permits (runner_done lk out s)"
proof (cases rule: runner_done_cases[of lk out s])
  case (run k t)
  let ?s = "settle_run t out s"
  have "inv_permits ?s" using inv by (rule inv_permits_cong) simp_all
  moreover have "inv_lanes ?s" using core unfolding inv_core_def by (elim conjE) (erule inv_lanes_cong; simp)
  ultimately show ?thesis
    using run inv_permits_finish_running[of ?s lk k t "a_heap s t"] tk_static_eqD(1)[OF settle_run_static] by simp
qed (use inv in simp)

text \<open>The sweep forgets only semaphores that are full and whose name no live ticket has.\<close>

lemma sweep_sems_Some:
  assumes "distinct (map fst sems)"
  shows "map_of (sweep_sems A sems) k = Some (v, cap) \<longleftrightarrow> map_of sems k = Some (v, cap) \<and> (k \<in> A \<or> v \<noteq> cap)"
  using assms by (auto simp: sweep_sems_def distinct_map_filter)

lemma sweep_sems_active: "k \<in> A \<Longrightarrow> map_of (sweep_sems A sems) k = map_of sems k"
  unfolding sweep_sems_def by (induction sems) auto

lemma active_channelsI: "tickets s k = Some t \<Longrightarrow> tk_channel (a_heap s t) \<in> active_channels s"
  using map_of_SomeD[of "a_tickets s" k t] by (force simp: active_channels_def)

lemma active_workspace_refsI:
  "tickets s k = Some t \<Longrightarrow> tk_workspace (a_heap s t) = Some w \<Longrightarrow> w \<in> active_workspace_refs s"
  using map_of_SomeD[of "a_tickets s" k t] by (force simp: active_workspace_refs_def map_filter_def)

lemma inv_permits_sweep:
  assumes core: "inv_core s" and inv: "inv_permits s"
  shows "inv_permits (sweep_expired s)"
proof -
  define s1 where "s1 = fold forget (expired_keys s) s"
  have f: "a_channel_sems (sweep_expired s) = sweep_sems (active_channels s1) (a_channel_sems s)"
    "a_workspace_sems (sweep_expired s) = sweep_sems (active_workspace_refs s1) (a_workspace_sems s)"
    by (simp_all add: sweep_expired_def s1_def Let_def)
  have cnt: "inv_counts (running s) s" using inv by (simp add: inv_permits_def)
  note D = inv_countsD[OF cnt]
  have "inv_counts (running s) (sweep_expired s)"
    unfolding inv_counts_def f sweep_sems_Some[OF D(2)] sweep_sems_Some[OF D(3)]
    using cnt D(2,3) by (auto simp: inv_counts_def sweep_sems_def distinct_map_filter)
  moreover have "inv_sems {} (sweep_expired s)"
    unfolding inv_sems_def
  proof (intro allI impI)
    fix lk k t ph assume "cur_of (sweep_expired s) lk = Some (k, t, ph)"
    then have c: "cur_of s lk = Some (k, t, ph)" by simp
    then have h: "has_sems s (a_heap s t)" using inv by (auto simp: inv_permits_def intro: inv_semsD)
    have "tickets s k = Some t" "k \<notin> a_released s"
      using core inv_lanesD(3,4)[OF _ cur_item[OF c]] by (simp_all add: inv_core_def)
    then have "tickets s1 k = Some t" "a_heap s1 = a_heap s" using expired_keys_released[of s] by (auto simp: s1_def)
    then show "has_sems (sweep_expired s) (a_heap (sweep_expired s) t)"
      using h active_channelsI[of s1 k t] active_workspace_refsI[of s1 k t]
      by (simp add: has_sems_def f domIff sweep_sems_active)
  qed
  ultimately show ?thesis by (simp add: inv_permits_def running_cong[of "sweep_expired s" s])
qed

lemma running_old: "inv_core s \<Longrightarrow> t \<in> running s \<Longrightarrow> t < a_next s"
  using inv_lanesD(1)[of s] inv_lanesD(3)[OF _ cur_item] by (fastforce simp: running_def inv_core_def)

lemma inv_permits_enqueue:
  assumes core: "inv_core s" and inv: "inv_permits s"
  shows "inv_permits (snd (enqueue k kind lk ws s))" (is "inv_permits ?s")
proof -
  have old: "a_heap ?s t = a_heap s t" if "cur_of s lk' = Some (k', t, ph)" for lk' k' t ph
  proof -
    have "t < a_next s" using core inv_lanesD(1)[OF _ inv_lanesD(3)[OF _ cur_item[OF that]]] by (simp add: inv_core_def)
    then show ?thesis by (simp add: enqueue_heap)
  qed
  have "inv_sems {} ?s"
    using inv old by (auto simp: inv_permits_def inv_sems_def has_sems_def)
  moreover have "inv_counts (running s) ?s"
    using inv running_old[OF core] unfolding inv_permits_def
    by (elim conjE) (erule inv_counts_cong; auto simp: enqueue_heap)
  ultimately show ?thesis by (simp add: inv_permits_def running_cong[of ?s s])
qed

lemma inv_permits_minor:
  assumes "minor s s'" "inv_permits s"
  shows "inv_permits s'"
  using assms(2) by (rule inv_permits_cong) (simp_all add: minor_frame[OF assms(1)] lane_cong[OF minor_frame(17)[OF assms(1)]])

lemma inv_permits_admission:
  assumes "admission_change s s'" "inv_core s" "inv_permits s"
  shows "inv_permits s'"
proof -
  note sweep = inv_permits_sweep[OF assms(2,3)]
  show ?thesis using assms(1)
  proof cases
    case (change_enqueued s1 key kind windows)
    have "inv_core s1"
      using inv_core_admission[OF change_swept assms(2)] change_enqueued by simp
    then show ?thesis using change_enqueued sweep inv_permits_minor inv_permits_enqueue by blast
  next
    case (change_recovered r s1 m b)
    then show ?thesis using sweep by (auto intro!: inv_permits_cong[OF sweep])
  qed (use sweep inv_permits_minor assms(3) in auto)
qed

text \<open>A cancelled lane gives back what its run holds.\<close>

lemma inv_permits_drop:
  assumes core: "inv_core s" and inv: "inv_permits s"
    and cur: "\<And>k t. cur_of s lk \<noteq> Some (k, t, Running)"
    and same: "cur_of s' = (cur_of s)(lk := None)" "a_channel_sems s' = a_channel_sems s"
      "a_workspace_sems s' = a_workspace_sems s" "a_global s' = a_global s" "a_script s' = a_script s"
      "a_cfg s' = a_cfg s" "\<And>t. tk_static (a_heap s' t) = tk_static (a_heap s t)"
  shows "inv_permits s'"
proof -
  have "u \<in> running s' \<longleftrightarrow> u \<in> running s" for u using cur by (auto simp: running_def same(1)) metis
  then have r: "running s' = running s" by blast
  note k = tk_static_eqD(1)[OF same(7)]
  have "inv_sems {} s'"
    using inv unfolding inv_permits_def
    by (elim conjE) (erule inv_sems_mono; auto simp: k same(1-3) split: if_splits)
  moreover have "inv_counts (running s') s'"
    using inv unfolding inv_permits_def r by (elim conjE) (erule inv_counts_cong; simp add: k same(2-6))
  ultimately show ?thesis by (simp add: inv_permits_def)
qed

lemma inv_permits_cancel_lane:
  assumes core: "inv_core s" and inv: "inv_permits s"
  shows "inv_permits (cancel_lane lk s)"
proof (cases rule: cancel_lane_cases[of lk s])
  case (cancel s0)
  let ?s = "(fold (fail_and_retire FxCancelled) (items_of s lk) s0)\<lparr>a_lanes := dict_del (a_lanes s) lk\<rparr>"
  have s: "cancel_lane lk s = ?s" using cancel(3) by (simp add: Let_def)
  have cur: "cur_of ?s = (cur_of s)(lk := None)" by (auto simp: cur_of_def fun_eq_iff)
  show ?thesis
  proof (cases "\<exists>k t. cur_of s lk = Some (k, t, Running)")
    case True
    then obtain k t where c: "cur_of s lk = Some (k, t, Running)" by blast
    then have s0: "s0 = release_permits (a_heap s t) s" using cancel(2) by simp
    have "inv_permits (finish lk k t s0)"
      unfolding s0 by (rule inv_permits_finish_running) (use core inv c in \<open>simp_all add: inv_core_def\<close>)
    then show ?thesis
      unfolding s by (rule inv_permits_cong) (simp_all add: cur[unfolded s0] s0)
  next
    case False
    then have "s0 = s" using cancel(2) by (auto split: option.split phase.split)
    then show ?thesis unfolding s using False cur by (intro inv_permits_drop[OF core inv]) simp_all
  qed
qed (use inv in simp)

lemma inv_permits_drop_lane:
  assumes core: "inv_core s" and inv: "inv_permits s"
  shows "inv_permits (drop_lane lk s)"
proof (cases "a_closed s \<and> (\<exists>l. map_of (a_lanes s) lk = Some l \<and> ln_current l = None)")
  case True
  then have "drop_lane lk s = s\<lparr>a_lanes := dict_del (a_lanes s) lk\<rparr>" "cur_of s lk = None"
    by (auto simp: drop_lane_def cur_of_def)
  then show ?thesis by (intro inv_permits_drop[OF core inv]) (auto simp: cur_of_def fun_eq_iff)
qed (use inv in \<open>auto simp: drop_lane_def split: bool.split option.split\<close>)

lemma inv_permits_close_finish:
  assumes "inv_permits s"
  shows "inv_permits (close_finish s)"
proof (rule inv_permits_cong[OF assms])
  show "cur_of (close_finish s) = cur_of s"
    by (rule lane_cong) (simp add: close_finish_def Let_def)
  show "tk_static (a_heap (close_finish s) t) = tk_static (a_heap s t)" for t
    by (simp add: close_finish_def Let_def)
qed (simp_all add: close_finish_def Let_def)

lemma inv_permits_monitor_fire: "inv_permits s \<Longrightarrow> inv_permits (monitor_fire k s)"
proof (erule inv_permits_cong)
  show "cur_of (monitor_fire k s) = cur_of s"
    by (rule lane_cong) (simp add: monitor_fire_def Let_def split: option.split)
qed (simp_all add: monitor_fire_def Let_def split: option.split)

lemma inv_permits_step: "step s s' \<Longrightarrow> inv_core s \<Longrightarrow> inv_permits s \<Longrightarrow> inv_permits s'"
proof (induction rule: step.induct)
  case (step_admit s rvt)
  then show ?case using inv_permits_admission[OF admit_change] by (simp add: inv_core_def)
next
  case (step_admit_script s ev)
  then show ?case using inv_permits_admission[OF admit_script_change] by (simp add: inv_core_def)
next
  case (step_observer s key obs)
  then show ?case by (auto elim!: inv_permits_cong intro: lane_cong)
next
  case (step_cancel_recovery s key)
  then show ?case by (auto elim!: inv_permits_cong intro: lane_cong)
next
  case (step_close s)
  then show ?case by (auto elim!: inv_permits_cong intro: lane_cong simp: close_start_def)
next
  case (step_tick s d)
  then show ?case by (auto elim!: inv_permits_cong intro: lane_cong simp: tick_def)
next
  case (step_started s lk)
  then show ?case by (auto elim!: inv_permits_cong simp: runner_started_def split: option.split)
next
  case (step_caller_cancel s t which)
  then show ?case by (auto elim!: inv_permits_cong)
qed (simp_all add: inv_permits_admission[OF recover_change] inv_permits_monitor_fire inv_permits_lane_start
  inv_permits_lane_poll inv_permits_runner_done inv_permits_cancel_lane inv_permits_drop_lane inv_permits_close_finish)

lemma inv_permits_init: "inv_permits (init_admission cfg now)"
  by (simp add: inv_permits_def inv_sems_def inv_counts_def running_def cur_of_def init_admission_def option.map_ident)

lemma reachable_inv_permits: "reachable cfg s \<Longrightarrow> inv_permits s"
  by (induction rule: reachable.induct) (auto simp: inv_permits_init intro: inv_permits_step reachable_inv_core)

section \<open>No pool is overdrawn\<close>

definition caps_ok :: "adm_config \<Rightarrow> bool" where
  "caps_ok cfg \<longleftrightarrow> 0 \<le> ac_max_concurrent_invocations cfg \<and> 0 \<le> ac_workspace_max_concurrent_sessions cfg
     \<and> (\<forall>m. ac_max_concurrent_scripts cfg = Some m \<longrightarrow> 0 \<le> m)
     \<and> (\<forall>(c, m) \<in> set (ac_channel_concurrency cfg). 0 \<le> m)"

definition sems_nonneg :: "(string \<times> int \<times> int) list \<Rightarrow> bool" where
  "sems_nonneg sems \<longleftrightarrow> (\<forall>k e. map_of sems k = Some e \<longrightarrow> 0 \<le> fst e)"

definition nonneg :: "adm \<Rightarrow> bool" where
  "nonneg s \<longleftrightarrow> 0 \<le> a_global s \<and> pred_option (\<lambda>v. 0 \<le> v) (a_script s)
     \<and> sems_nonneg (a_channel_sems s) \<and> sems_nonneg (a_workspace_sems s)"

lemma channel_cap_nonneg: "caps_ok cfg \<Longrightarrow> 0 \<le> channel_cap cfg c"
  by (auto simp: caps_ok_def channel_cap_def split: option.split dest!: map_of_SomeD)

lemma sems_nonneg_set: "sems_nonneg sems \<Longrightarrow> 0 \<le> v \<Longrightarrow> sems_nonneg (dict_set sems k (v, cap))"
  by (simp add: sems_nonneg_def)

lemma sems_nonneg_add:
  assumes "sems_nonneg sems" "0 \<le> d \<or> - d \<le> sem_value sems k"
  shows "sems_nonneg (sem_add sems k d)"
proof (cases "map_of sems k")
  case (Some e)
  obtain v cap where e: "e = (v, cap)" by fastforce
  have "0 \<le> v" using assms(1) Some e by (force simp: sems_nonneg_def)
  then show ?thesis
    using assms Some e by (auto simp: sem_add_def sem_value_def intro!: sems_nonneg_set)
qed (simp add: sem_add_def assms)

lemma sems_nonneg_sweep:
  assumes "distinct (map fst sems)" "sems_nonneg sems"
  shows "sems_nonneg (sweep_sems A sems)"
  unfolding sems_nonneg_def
proof (intro allI impI)
  fix k e assume "map_of (sweep_sems A sems) k = Some e"
  then have "map_of sems k = Some e" using sweep_sems_Some[OF assms(1), of A k "fst e" "snd e"] by simp
  then show "0 \<le> fst e" using assms(2) unfolding sems_nonneg_def by blast
qed

lemma nonneg_cong:
  "nonneg s \<Longrightarrow> a_global s' = a_global s \<Longrightarrow> a_script s' = a_script s \<Longrightarrow> a_channel_sems s' = a_channel_sems s \<Longrightarrow>
   a_workspace_sems s' = a_workspace_sems s \<Longrightarrow> nonneg s'"
  by (simp add: nonneg_def)

lemma nonneg_release: "nonneg s \<Longrightarrow> nonneg (release_permits tk s)"
  by (auto simp: nonneg_def release_permits_def add_global_def add_script_def add_channel_def add_workspace_def
      sems_nonneg_add split: ticket_kind.split option.split)

lemma nonneg_make_sems:
  assumes "caps_ok (a_cfg s)" "nonneg s"
  shows "nonneg (make_sems tk s)"
  using assms channel_cap_nonneg[OF assms(1)]
  by (auto simp: nonneg_def make_sems_def channel_sem_def workspace_sem_def Let_def caps_ok_def
      intro!: sems_nonneg_set split: ticket_kind.split option.split)

lemma recovered_count_nonneg: "0 \<le> recovered_count s c w"
  by (simp add: recovered_count_def)

lemma recovered_cong:
  assumes "a_recovered s' = a_recovered s" "a_released s' = a_released s"
  shows "recovered_count s' = recovered_count s" "recovered_owns_session s' = recovered_owns_session s"
  using assms by (simp_all add: recovered_count_def recovered_owns_session_def fun_eq_iff)

lemma acquire_agent:
  assumes "try_acquire tk s = Some s1" "tk_kind tk = AgentTicket w sref r"
  shows "recovered_count s None None < a_global s"
    "recovered_count s (Some (re_channel r)) None < sem_value (a_channel_sems s) (re_channel r)"
    "recovered_count s None (Some w) < sem_value (a_workspace_sems s) w"
    "\<not> recovered_owns_session s w sref"
    "s1 = add_global (- 1) (add_channel (re_channel r) (- 1) (add_workspace w (- 1) s))"
proof -
  have c: "recovered_count (add_channel c d (add_global d s)) = recovered_count s"
    "recovered_count (add_global d s) = recovered_count s"
    "recovered_owns_session (add_channel c d (add_global d s)) = recovered_owns_session s" for c d
    by (rule recovered_cong; simp)+
  show "recovered_count s None None < a_global s"
    "recovered_count s (Some (re_channel r)) None < sem_value (a_channel_sems s) (re_channel r)"
    "recovered_count s None (Some w) < sem_value (a_workspace_sems s) w"
    "\<not> recovered_owns_session s w sref"
    "s1 = add_global (- 1) (add_channel (re_channel r) (- 1) (add_workspace w (- 1) s))"
    using assms
    by (simp_all add: try_acquire_def try_acquire_all_def Let_def c split: if_splits)
      (auto simp: add_global_def add_channel_def add_workspace_def)
qed

lemma acquire_script:
  assumes "try_acquire tk s = Some s1" "tk_kind tk = ScriptTicket ev"
  shows "case a_script s of None \<Rightarrow> recovered_count s None None < a_global s | Some v \<Rightarrow> 0 < v"
    "recovered_count s (Some (ev_channel ev)) None < sem_value (a_channel_sems s) (ev_channel ev)"
    "s1 = add_script (- 1) (add_channel (ev_channel ev) (- 1) s)"
  using assms
  by (simp_all add: try_acquire_def try_acquire_script_def split: if_splits option.splits)

lemma nonneg_acquire:
  assumes "try_acquire tk s = Some s1" "nonneg s"
  shows "nonneg s1"
proof (cases "tk_kind tk")
  case (AgentTicket w sref r)
  note a = acquire_agent[OF assms(1) AgentTicket]
  have "0 < a_global s" "0 < sem_value (a_channel_sems s) (re_channel r)" "0 < sem_value (a_workspace_sems s) w"
    using a(1-3) recovered_count_nonneg order.strict_trans1 by blast+
  then show ?thesis
    using assms(2) by (simp add: nonneg_def a(5) sems_nonneg_add add_global_def add_channel_def add_workspace_def)
next
  case (ScriptTicket ev)
  note a = acquire_script[OF assms(1) ScriptTicket]
  have "0 < sem_value (a_channel_sems s) (ev_channel ev)"
    using a(2) recovered_count_nonneg order.strict_trans1 by blast
  moreover have "0 < a_global s" if "a_script s = None"
    using a(1) recovered_count_nonneg[of s None None] that by simp
  ultimately show ?thesis
    using assms(2) a(1)
    by (auto simp: nonneg_def a(3) sems_nonneg_add add_global_def add_channel_def add_script_def split: option.splits)
qed

lemma nonneg_sweep:
  assumes "inv_permits s" "nonneg s"
  shows "nonneg (sweep_expired s)"
proof -
  have "distinct (map fst (a_channel_sems s))" "distinct (map fst (a_workspace_sems s))"
    using assms(1) inv_countsD(2,3) by (auto simp: inv_permits_def)
  then show ?thesis
    using assms(2) sems_nonneg_sweep by (simp add: nonneg_def sweep_expired_def Let_def)
qed

lemma nonneg_admission:
  assumes "admission_change s s'" "inv_permits s" "nonneg s"
  shows "nonneg s'"
  using assms(1)
proof cases
  case (change_swept)
  then show ?thesis using nonneg_sweep[OF assms(2,3)] by (auto elim!: nonneg_cong simp: minor_frame)
next
  case (change_enqueued s1 key kind windows)
  then show ?thesis using nonneg_sweep[OF assms(2,3)] by (auto elim!: nonneg_cong simp: minor_frame)
next
  case (change_recovered r s1 m b)
  then show ?thesis using nonneg_sweep[OF assms(2,3)] by (auto elim!: nonneg_cong)
qed (use assms(3) in simp)

lemma nonneg_step:
  assumes "step s s'" "inv_core s" "inv_permits s" "caps_ok (a_cfg s)" "nonneg s"
  shows "nonneg s'"
  using assms
proof (induction rule: step.induct)
  case (step_admit s rvt)
  then show ?case using nonneg_admission[OF admit_change] by (simp add: inv_core_def)
next
  case (step_admit_script s ev)
  then show ?case using nonneg_admission[OF admit_script_change] by (simp add: inv_core_def)
next
  case (step_recover s r)
  then show ?case using nonneg_admission[OF recover_change] by simp
next
  case (step_start s lk)
  show ?case
  proof (cases rule: lane_start_cases[of lk s])
    case (turn k t q s2)
    have "nonneg s2" using step_start(4) by (rule nonneg_cong) (simp_all add: turn(3))
    then have "nonneg (finish lk k t s2)" "nonneg (finish lk k t (expire t m s2))" for m
      by - (erule nonneg_cong; simp)+
    then show ?thesis
      using turn(6) nonneg_make_sems[of s2] \<open>nonneg s2\<close> step_start(3) by (simp add: turn(3))
  qed (use step_start in simp)
next
  case (step_poll s lk later)
  show ?case
  proof (cases rule: lane_poll_cases[of lk later s])
    case (expired k t)
    then show ?thesis using step_poll(4) by (auto elim!: nonneg_cong)
  next
    case (late k t s1 s2)
    have "nonneg (expire t (late_reason (a_heap s t)) s2)"
      using nonneg_acquire[OF late(2) step_poll(4)] by (rule nonneg_cong) (simp_all add: late(3))
    from nonneg_release[OF this, of "a_heap s t"] show ?thesis
      unfolding late(4) by (rule nonneg_cong) simp_all
  next
    case (acquired k t l s1 s2)
    show ?thesis
      unfolding acquired(7) using nonneg_acquire[OF acquired(4) step_poll(4)] by (rule nonneg_cong) (simp_all add: acquired(5))
  qed (use step_poll in simp)
next
  case (step_done s lk out)
  show ?case
  proof (cases rule: runner_done_cases[of lk out s])
    case (run k t)
    have "nonneg (settle_run t out s)" using step_done(4) by (rule nonneg_cong) simp_all
    from nonneg_release[OF this, of "a_heap s t"] show ?thesis unfolding run(2) by (rule nonneg_cong) simp_all
  qed (use step_done in simp)
next
  case (step_cancel_lane s lk)
  show ?case
  proof (cases rule: cancel_lane_cases[of lk s])
    case (cancel s0)
    have "nonneg s0" using step_cancel_lane(4) nonneg_release by (simp add: cancel(2) split: option.split phase.split)
    then show ?thesis unfolding cancel(3) Let_def by (rule nonneg_cong) simp_all
  qed (use step_cancel_lane in simp)
qed (auto elim!: nonneg_cong simp: monitor_fire_def runner_started_def close_start_def tick_def drop_lane_def
  close_finish_def Let_def split: option.split bool.split)

lemma step_cfg: "step s s' \<Longrightarrow> a_cfg s' = a_cfg s"
proof (induction rule: step.induct)
  case (step_start s lk)
  then show ?case by (cases rule: lane_start_cases[of lk s]) simp_all
next
  case (step_poll s lk later)
  then show ?case
    by (cases rule: lane_poll_cases[of lk later s]) (auto dest!: try_acquire_frame)
next
  case (step_done s lk out)
  then show ?case by (cases rule: runner_done_cases[of lk out s]) simp_all
next
  case (step_cancel_lane s lk)
  then show ?case
    by (cases rule: cancel_lane_cases[of lk s]) (auto simp: Let_def split: option.split phase.split)
next
  case (step_admit s rvt)
  then show ?case
    by (auto simp: admit_def Let_def case_prod_beta split: option.split handle.split sum.split)
next
  case (step_admit_script s ev)
  then show ?case
    by (auto simp: admit_script_def Let_def case_prod_beta split: option.split handle.split sum.split)
next
  case (step_recover s r)
  then show ?case by (auto simp: recover_def Let_def split: option.split)
qed (simp_all add: monitor_fire_def runner_started_def close_start_def tick_def drop_lane_def
  close_finish_def Let_def split: option.split bool.split)

lemma reachable_cfg: "reachable cfg s \<Longrightarrow> a_cfg s = cfg"
  by (induction rule: reachable.induct) (simp_all add: init_admission_def step_cfg)

lemma reachable_nonneg: "reachable cfg s \<Longrightarrow> caps_ok cfg \<Longrightarrow> nonneg s"
proof (induction rule: reachable.induct)
  case (reach_step s s')
  then show ?case using nonneg_step reachable_inv_core reachable_inv_permits reachable_cfg by metis
qed (auto simp: nonneg_def init_admission_def caps_ok_def sems_nonneg_def pred_option_def)

end
