(* ===== verification/Admission_Futures.thy ===== *)
theory Admission_Futures
  imports Admission_Permits
begin

text \<open>
  Futures and watchdogs: nothing is retired with a pending future, and every queued ticket is watched.
\<close>

definition settled :: "ticket \<Rightarrow> bool" where
  "settled tk \<longleftrightarrow> fut_done (tk_started tk) \<and> fut_done (tk_completed tk)"

text \<open>Futures only move from pending to done.\<close>

definition fut_le :: "fut \<Rightarrow> fut \<Rightarrow> bool" where
  "fut_le f f' \<longleftrightarrow> fut_done f \<longrightarrow> f' = f"

definition futs_le :: "ticket \<Rightarrow> ticket \<Rightarrow> bool" where
  "futs_le k k' \<longleftrightarrow> fut_le (tk_started k) (tk_started k') \<and> fut_le (tk_completed k) (tk_completed k')"

lemma fut_le_simps [simp]: "fut_le f f" "fut_le f (settle f v)"
  by (simp_all add: fut_le_def settle_def)

lemma futs_le_refl [simp]: "futs_le k k"
  by (simp add: futs_le_def)

lemma futs_le_trans: "futs_le k k' \<Longrightarrow> futs_le k' k'' \<Longrightarrow> futs_le k k''"
  by (auto simp: futs_le_def fut_le_def)

lemma futs_le_settled: "futs_le k k' \<Longrightarrow> settled k \<Longrightarrow> settled k'"
  by (auto simp: futs_le_def fut_le_def settled_def)

lemma fut_done_settle [simp]: "fut_done (settle f (Failed e))" "fut_done (settle f (Resolved v))"
  by (simp_all add: settle_def fut_done_def)

lemma ops_futs_le [simp]:
  "futs_le (a_heap s u) (a_heap (fail_ticket t e s) u)" "futs_le (a_heap s u) (a_heap (expire t m s) u)"
  "futs_le (a_heap s u) (a_heap (mark_started t s) u)" "futs_le (a_heap s u) (a_heap (settle_run t out s) u)"
  "futs_le (a_heap s u) (a_heap (caller_cancel t w s) u)" "futs_le (a_heap s u) (a_heap (fail_and_retire e x s) u)"
  by (auto simp: futs_le_def fail_ticket_def expire_def mark_started_def settle_run_def caller_cancel_def
      fail_and_retire_def upd_ticket_def Let_def raise_alarm_def split: sum.split prod.split)

lemma fold_retire_futs_le [simp]: "futs_le (a_heap s u) (a_heap (fold (fail_and_retire e) xs s) u)"
proof (induction xs arbitrary: s)
  case (Cons x xs)
  show ?case using futs_le_trans[OF ops_futs_le(6) Cons.IH] by simp
qed simp

lemma ops_settle:
  "settled (a_heap (fail_ticket t e s) t)" "settled (a_heap (expire t m s) t)"
  "settled (a_heap (settle_run t out s) t)" "settled (a_heap (fail_and_retire e (k, t) s) t)"
  by (auto simp: settled_def fail_ticket_def expire_def settle_run_def fail_and_retire_def upd_ticket_def Let_def
      raise_alarm_def split: sum.split)

lemma fold_retire_settles:
  "(k, t) \<in> set xs \<Longrightarrow> settled (a_heap (fold (fail_and_retire e) xs s) t)"
proof (induction xs arbitrary: s)
  case (Cons x xs)
  show ?case
  proof (cases "(k, t) \<in> set xs")
    case False
    then have "x = (k, t)" using Cons.prems by simp
    then show ?thesis
      using futs_le_settled[OF fold_retire_futs_le ops_settle(4)[of e k t s]] by simp
  qed (simp add: Cons.IH)
qed simp

definition inv_futures :: "adm \<Rightarrow> bool" where
  "inv_futures s \<longleftrightarrow>
     (\<forall>k t. tickets s k = Some t \<and> (k \<in> a_released s \<or> k \<in> a_monitor_expired s) \<longrightarrow> settled (a_heap s t))
     \<and> (\<forall>lk k t. (k, t) \<in> set (queue_of s lk) \<longrightarrow> k \<in> a_monitor_expired s \<or> map_of (a_monitors s) k = Some t)
     \<and> (\<forall>k r. recovered s k = Some r \<longrightarrow>
          fut_done (rr_started r) \<and> (k \<in> a_released s \<longrightarrow> fut_done (rr_completed r)))"

lemma inv_futuresD:
  assumes "inv_futures s"
  shows "tickets s k = Some t \<Longrightarrow> k \<in> a_released s \<Longrightarrow> settled (a_heap s t)"
    "tickets s k = Some t \<Longrightarrow> k \<in> a_monitor_expired s \<Longrightarrow> settled (a_heap s t)"
    "(k, t) \<in> set (queue_of s lk) \<Longrightarrow> k \<in> a_monitor_expired s \<or> map_of (a_monitors s) k = Some t"
    "recovered s k = Some r \<Longrightarrow> fut_done (rr_started r)"
    "recovered s k = Some r \<Longrightarrow> k \<in> a_released s \<Longrightarrow> fut_done (rr_completed r)"
  using assms unfolding inv_futures_def by blast+

lemma inv_futuresI:
  assumes "\<And>k t. tickets s k = Some t \<Longrightarrow> k \<in> a_released s \<or> k \<in> a_monitor_expired s \<Longrightarrow> settled (a_heap s t)"
    "\<And>lk k t. (k, t) \<in> set (queue_of s lk) \<Longrightarrow> k \<in> a_monitor_expired s \<or> map_of (a_monitors s) k = Some t"
    "\<And>k r. recovered s k = Some r \<Longrightarrow> fut_done (rr_started r) \<and> (k \<in> a_released s \<longrightarrow> fut_done (rr_completed r))"
  shows "inv_futures s"
  using assms unfolding inv_futures_def by blast

lemma inv_futures_init: "inv_futures (init_admission cfg now)"
  by (simp add: inv_futures_def init_admission_def queue_of_def)

lemma inv_futures_cong:
  assumes "inv_futures s" "a_tickets s' = a_tickets s" "a_recovered s' = a_recovered s" "a_released s' = a_released s"
    "a_monitor_expired s' = a_monitor_expired s" "a_monitors s' = a_monitors s" "queue_of s' = queue_of s"
    "\<And>t. futs_le (a_heap s t) (a_heap s' t)"
  shows "inv_futures s'"
  using assms(1) futs_le_settled[OF assms(8)] unfolding inv_futures_def assms(2-7) by blast

lemma retire_monitors:
  assumes "tickets s k = Some t"
  shows "map_of (a_monitors (retire k t s)) k' = (if k' = k then None else map_of (a_monitors s) k')"
    "a_monitor_expired (retire k t s) = a_monitor_expired s - {k}"
  using assms by (auto simp: retire_def cancel_monitor_def)

lemma finish_monitors:
  assumes "tickets s k = Some t"
  shows "map_of (a_monitors (finish lk k t s)) k' = (if k' = k then None else map_of (a_monitors s) k')"
    "a_monitor_expired (finish lk k t s) = a_monitor_expired s - {k}"
  using retire_monitors[OF assms] by (simp_all add: finish_def Let_def split: option.split)

lemma inv_futures_finish:
  assumes core: "inv_core s" and inv: "inv_futures s" and cur: "cur_of s lk = Some (k, t, ph)"
    and set: "settled (a_heap s t)"
  shows "inv_futures (finish lk k t s)"
proof -
  have l: "inv_ledger s" "inv_lanes s" using core by (simp_all add: inv_core_def)
  have tk: "tickets s k = Some t" using inv_lanesD(3)[OF l(2) cur_item[OF cur]] .
  note D = inv_futuresD[OF inv]
  show ?thesis
  proof (rule inv_futuresI)
    show "settled (a_heap (finish lk k t s) t')"
      if "tickets (finish lk k t s) k' = Some t'" "k' \<in> a_released (finish lk k t s) \<or> k' \<in> a_monitor_expired (finish lk k t s)"
      for k' t'
      using that D(1,2)[of k' t'] tk set finish_monitors(2)[OF tk] by (cases "k' = k") auto
    show "k' \<in> a_monitor_expired (finish lk k t s) \<or> map_of (a_monitors (finish lk k t s)) k' = Some t'"
      if q: "(k', t') \<in> set (queue_of (finish lk k t s) lk')" for lk' k' t'
    proof -
      have "k' \<noteq> k"
        using q item_once(2)[OF l(2) cur_item[OF cur] queue_item, of t' lk'] cur_not_queued(2)[OF l(2) cur, of k' t'] by auto
      then show ?thesis using D(3)[of k' t' lk'] q by (auto simp: finish_monitors[OF tk])
    qed
    show "fut_done (rr_started r) \<and> (k' \<in> a_released (finish lk k t s) \<longrightarrow> fut_done (rr_completed r))"
      if "recovered (finish lk k t s) k' = Some r" for k' r
      using that D(4,5)[of k' r] tk inv_ledgerD(3)[OF l(1)] by auto
  qed
qed

section \<open>Futures through every operation\<close>

lemma cancel_monitor_view:
  assumes "tickets s k = Some t"
  shows "map_of (a_monitors (snd (cancel_monitor k t s))) k' = (if k' = k then None else map_of (a_monitors s) k')"
    "a_monitor_expired (snd (cancel_monitor k t s)) = a_monitor_expired s - {k}"
    "fst (cancel_monitor k t s) \<longleftrightarrow> k \<in> a_monitor_expired s"
  using assms by (auto simp: cancel_monitor_def)

lemma inv_futures_lane_start:
  assumes core: "inv_core s" and inv: "inv_futures s"
  shows "inv_futures (lane_start lk s)"
proof (cases rule: lane_start_cases[of lk s])
  case (turn k t q s2)
  have l: "inv_ledger s" "inv_lanes s" using core by (simp_all add: inv_core_def)
  have item: "(k, t) \<in> set (items_of s lk)" using turn(2) by (simp add: items_of_def)
  let ?s1 = "set_lane lk \<lparr>ln_queue = q, ln_current = Some (k, t, Waiting)\<rparr> s"
  have tk: "tickets s k = Some t" "tickets ?s1 k = Some t" using inv_lanesD(3)[OF l(2) item] by simp_all
  have core2: "inv_core s2" using inv_core_dequeue[OF core turn(1,2)] turn(3) by simp
  have l2: "inv_lanes s2" using core2 by (simp add: inv_core_def)
  have c2: "cur_of s2 lk = Some (k, t, Waiting)" by (simp add: turn(4))
  have mon: "map_of (a_monitors s2) k' = (if k' = k then None else map_of (a_monitors s) k')"
    "a_monitor_expired s2 = a_monitor_expired s - {k}" for k'
    using cancel_monitor_view[OF tk(2)] by (simp_all add: turn(3))
  have same: "a_tickets s2 = a_tickets s" "a_released s2 = a_released s" "a_recovered s2 = a_recovered s" "a_heap s2 = a_heap s"
    by (simp_all add: turn(3))
  note D = inv_futuresD[OF inv]
  have i2: "inv_futures s2"
  proof (rule inv_futuresI)
    show "settled (a_heap s2 t')" if "tickets s2 k' = Some t'" "k' \<in> a_released s2 \<or> k' \<in> a_monitor_expired s2" for k' t'
      using that D(1,2)[of k' t'] by (auto simp: same mon)
    show "k' \<in> a_monitor_expired s2 \<or> map_of (a_monitors s2) k' = Some t'" if q: "(k', t') \<in> set (queue_of s2 lk')" for lk' k' t'
    proof -
      have "k' \<noteq> k"
        using q item_once(2)[OF l2 cur_item[OF c2] queue_item, of t' lk'] cur_not_queued(2)[OF l2 c2, of k' t'] by auto
      moreover have "(k', t') \<in> set (queue_of s lk')" using q turn(2) by (auto simp: turn(5) split: if_splits)
      ultimately show ?thesis using D(3) by (auto simp: mon)
    qed
    show "fut_done (rr_started r) \<and> (k' \<in> a_released s2 \<longrightarrow> fut_done (rr_completed r))" if "recovered s2 k' = Some r" for k' r
      using that D(4,5)[of k' r] by (simp add: same)
  qed
  have e: "inv_core (expire t m s2)" "inv_futures (expire t m s2)" for m
    using core2 i2 by - (erule inv_core_cong inv_futures_cong; simp)+
  have "inv_futures (finish lk k t (expire t m s2))" for m
    using inv_futures_finish[OF e, where ph = Waiting] c2 ops_settle(2) by simp
  moreover have "inv_futures (finish lk k t s2)" if "k \<in> a_monitor_expired s"
    using inv_futures_finish[OF core2 i2 c2] D(2)[OF tk(1) that] by (simp add: same)
  moreover have "inv_futures (make_sems tk' s2)" for tk'
    using i2 by (rule inv_futures_cong) simp_all
  ultimately show ?thesis using turn(6) cancel_monitor_view(3)[OF tk(2)] by simp
qed (use inv in simp)

lemma inv_futures_lane_poll:
  assumes core: "inv_core s" and inv: "inv_futures s"
  shows "inv_futures (lane_poll lk later s)"
proof (cases rule: lane_poll_cases[of lk later s])
  case (expired k t)
  have "inv_core (expire t m s)" "inv_futures (expire t m s)" for m
    using core inv by - (erule inv_core_cong inv_futures_cong; simp)+
  then show ?thesis using expired inv_futures_finish[where ph = Waiting] ops_settle(2) by simp
next
  case (late k t s1 s2)
  note v = acquire_view[OF late(2)] try_acquire_frame[OF late(2)]
  let ?s = "release_permits (a_heap s t) (expire t (late_reason (a_heap s t)) s2)"
  have "inv_core ?s"
    using inv_core_acquire[OF core late(2), of "a_now s1 + int later"] by (rule inv_core_cong) (simp_all add: late(3))
  moreover have "inv_futures ?s"
    using inv v(1,2,4,5) ops_futs_le(2)[of s2 _ t] by (elim exE) (erule inv_futures_cong; simp add: late(3))
  ultimately show ?thesis
    using late(1,3,4) v(1) inv_futures_finish[where ph = Waiting] ops_settle(2) by simp
next
  case (acquired k t l s1 s2)
  note v = acquire_view[OF acquired(4)] try_acquire_frame[OF acquired(4)]
  have "queue_of (lane_poll lk later s) = queue_of s"
    using acquired(2) v(2) by (simp add: acquired(5,7)) (auto simp: queue_of_def)
  then show ?thesis
    using inv v(5) by (elim exE) (erule inv_futures_cong; simp add: acquired(5,7))
qed (use inv in simp)

lemma inv_futures_runner_done:
  assumes core: "inv_core s" and inv: "inv_futures s"
  shows "inv_futures (runner_done lk out s)"
proof (cases rule: runner_done_cases[of lk out s])
  case (run k t)
  let ?s = "release_permits (a_heap s t) (settle_run t out s)"
  have "inv_core ?s" "inv_futures ?s"
    using core inv by - (erule inv_core_cong inv_futures_cong; simp)+
  then show ?thesis using run inv_futures_finish[where ph = Running] ops_settle(3) by simp
qed (use inv in simp)

lemma inv_futures_monitor_fire:
  assumes core: "inv_core s" and inv: "inv_futures s"
  shows "inv_futures (monitor_fire k s)"
proof (cases "map_of (a_monitors s) k")
  case (Some t)
  show ?thesis
  proof (cases "a_now s \<ge> tk_deadline_at (a_heap s t)")
    case True
    have tk: "tickets s k = Some t" using inv_ledgerD(9)[OF _ Some] core by (auto simp: inv_core_def)
    let ?s1 = "expire t ''deadline exceeded while queued'' (s\<lparr>a_monitor_expired := insert k (a_monitor_expired s)\<rparr>)"
    let ?s = "?s1\<lparr>a_monitors := dict_del (a_monitors s) k\<rparr>"
    have q: "queue_of ?s = queue_of s" by (rule lane_cong) simp
    have le: "futs_le (a_heap s u) (a_heap ?s1 u)" for u
      using ops_futs_le(2)[of "s\<lparr>a_monitor_expired := insert k (a_monitor_expired s)\<rparr>"] by simp
    note D = inv_futuresD[OF inv]
    have "inv_futures ?s"
    proof (rule inv_futuresI)
      show "settled (a_heap ?s t')" if "tickets ?s k' = Some t'" "k' \<in> a_released ?s \<or> k' \<in> a_monitor_expired ?s" for k' t'
      proof (cases "k' = k")
        case True
        then show ?thesis using that tk ops_settle(2) by simp
      next
        case False
        then show ?thesis using that D(1,2)[of k' t'] futs_le_settled[OF le] by auto
      qed
    qed (use D(3-5) in \<open>auto simp: q\<close>)
    then show ?thesis using True by (simp add: monitor_fire_def Some Let_def)
  qed (simp add: monitor_fire_def Some inv)
qed (simp add: monitor_fire_def inv)

text \<open>A recovered run is released only with its completion settled.\<close>

lemma complete_recovered_Some:
  "recovered (complete_recovered k v s) k' = Some r' \<Longrightarrow>
   \<exists>r. recovered s k' = Some r \<and> rr_started r' = rr_started r
     \<and> rr_completed r' = (if k' = k then settle (rr_completed r) v else rr_completed r)"
  by (auto simp: complete_recovered_def split: option.splits if_splits)

lemma inv_futures_release_recovered:
  assumes ledger: "inv_ledger s" and inv: "inv_futures s" and k: "k \<in> dom (recovered s)"
    and v: "\<And>f. fut_done (settle f v)"
    and same: "a_tickets s' = a_tickets s" "a_heap s' = a_heap s" "queue_of s' = queue_of s"
      "a_monitors s' = a_monitors s" "a_monitor_expired s' = a_monitor_expired s"
      "recovered s' = recovered (complete_recovered k v s)" "a_released s' = insert k (a_released s)"
  shows "inv_futures s'"
proof -
  note D = inv_futuresD[OF inv]
  have nt: "tickets s k = None" using inv_ledgerD(3)[OF ledger] k by fastforce
  show ?thesis
  proof (rule inv_futuresI)
    show "fut_done (rr_started r') \<and> (k' \<in> a_released s' \<longrightarrow> fut_done (rr_completed r'))"
      if rr: "recovered s' k' = Some r'" for k' r'
    proof -
      obtain r where "recovered s k' = Some r" "rr_started r' = rr_started r"
        "rr_completed r' = (if k' = k then settle (rr_completed r) v else rr_completed r)"
        using complete_recovered_Some[of k v s k' r'] rr unfolding same(6) by blast
      then show ?thesis using D(4,5)[of k' r] v by (auto simp: same(7))
    qed
  qed (use D(1-3) nt in \<open>auto simp: same(1-5,7)\<close>)
qed

lemma inv_futures_observer_done:
  assumes core: "inv_core s" and inv: "inv_futures s"
  shows "inv_futures (observer_done k obs s)"
proof (cases "k \<in> a_recovery_tasks s")
  case True
  have ledger: "inv_ledger s" using core by (simp add: inv_core_def)
  have k: "k \<in> dom (recovered s)" "k \<notin> a_released s" using inv_ledgerD(8)[OF ledger] True by auto
  have q: "queue_of (observer_done k obs s) = queue_of s" by (rule lane_cong) simp
  show ?thesis
  proof (cases obs)
    case (ObserverFailed m)
    then show ?thesis using inv q by (auto elim!: inv_futures_cong simp: observer_done_def Let_def)
  qed (rule inv_futures_release_recovered[OF ledger inv k(1)];
      use True k q in \<open>simp_all add: observer_done_def Let_def release_subset\<close>)+
qed (simp add: observer_done_def inv)

lemma inv_futures_cancel_recovery:
  assumes core: "inv_core s" and inv: "inv_futures s"
  shows "inv_futures (cancel_recovery k s)"
proof (cases "a_closed s \<and> k \<in> a_recovery_tasks s")
  case True
  have ledger: "inv_ledger s" using core by (simp add: inv_core_def)
  have k: "k \<in> dom (recovered s)" "k \<notin> a_released s" using inv_ledgerD(8)[OF ledger] True by auto
  have q: "queue_of (cancel_recovery k s) = queue_of s" by (rule lane_cong) simp
  show ?thesis
    by (rule inv_futures_release_recovered[OF ledger inv k(1)])
      (use True k q in \<open>simp_all add: cancel_recovery_def drop_recovered_def Let_def release_subset closed_exc_def\<close>)
qed (use inv in \<open>auto simp: cancel_recovery_def\<close>)

section \<open>Futures through admission and closing\<close>

lemma inv_futures_sweep:
  assumes core: "inv_core s" and inv: "inv_futures s"
  shows "inv_futures (sweep_expired s)"
proof -
  note D = inv_futuresD[OF inv]
  have live: "k \<notin> set (expired_keys s)" if "(k, t) \<in> set (queue_of s lk)" for k t lk
    using inv_lanesD(4)[OF _ queue_item[OF that]] core expired_keys_released[of s] by (auto simp: inv_core_def)
  show ?thesis
  proof (rule inv_futuresI)
    show "k \<in> a_monitor_expired (sweep_expired s) \<or> map_of (a_monitors (sweep_expired s)) k = Some t"
      if "(k, t) \<in> set (queue_of (sweep_expired s) lk)" for lk k t
      using that D(3)[of k t lk] live[of k t lk] by auto
    show "settled (a_heap (sweep_expired s) t)"
      if "tickets (sweep_expired s) k = Some t" "k \<in> a_released (sweep_expired s) \<or> k \<in> a_monitor_expired (sweep_expired s)" for k t
      using that D(1,2)[of k t] by (auto split: if_splits)
    show "fut_done (rr_started r) \<and> (k \<in> a_released (sweep_expired s) \<longrightarrow> fut_done (rr_completed r))"
      if "recovered (sweep_expired s) k = Some r" for k r
      using that D(4,5)[of k r] by (auto split: if_splits)
  qed
qed

lemma inv_futures_enqueue:
  assumes core: "inv_core s" and inv: "inv_futures s" and fresh: "fresh s k"
  shows "inv_futures (snd (enqueue k kind lk ws s))" (is "inv_futures ?s")
proof -
  note D = inv_futuresD[OF inv]
  have l: "inv_ledger s" "inv_lanes s" using core by (simp_all add: inv_core_def)
  have new: "k \<notin> a_released s" "k \<notin> a_monitor_expired s"
    using fresh inv_ledgerD(4,7)[OF l(1)] by (auto simp: fresh_def)
  have qk: "k' \<noteq> k" if "(k', t) \<in> set (queue_of s lk')" for k' t lk'
    using inv_lanesD(3)[OF l(2) queue_item[OF that]] fresh by (auto simp: fresh_def)
  show ?thesis
  proof (rule inv_futuresI)
    show "settled (a_heap ?s t)" if "tickets ?s k' = Some t" "k' \<in> a_released ?s \<or> k' \<in> a_monitor_expired ?s" for k' t
    proof -
      have "k' \<noteq> k" using that new by auto
      then have t: "tickets s k' = Some t" using that by simp
      show ?thesis using that t D(1,2)[OF t] inv_lanesD(1)[OF l(2) t] by (auto simp: enqueue_heap)
    qed
    show "k' \<in> a_monitor_expired ?s \<or> map_of (a_monitors ?s) k' = Some t" if "(k', t) \<in> set (queue_of ?s lk')" for lk' k' t
      using that D(3)[of k' t lk'] qk[of k' t lk'] by (auto split: if_splits)
    show "fut_done (rr_started r) \<and> (k' \<in> a_released ?s \<longrightarrow> fut_done (rr_completed r))" if "recovered ?s k' = Some r" for k' r
      using that D(4,5)[of k' r] by simp
  qed
qed

lemma inv_futures_minor:
  assumes "minor s s'" "inv_futures s"
  shows "inv_futures s'"
  using assms(2) by (rule inv_futures_cong) (simp_all add: minor_frame[OF assms(1)] lane_cong[OF minor_frame(17)[OF assms(1)]])

lemma inv_futures_admission:
  assumes "admission_change s s'" "inv_core s" "inv_futures s"
  shows "inv_futures s'"
proof -
  note sweep = inv_futures_sweep[OF assms(2,3)]
  have core: "inv_core (sweep_expired s)"
    using inv_core_admission[OF change_swept assms(2)] by simp
  show ?thesis using assms(1)
  proof cases
    case (change_enqueued s1 key kind windows)
    have "inv_core s1" using inv_core_admission[OF change_swept assms(2)] change_enqueued by simp
    then show ?thesis using change_enqueued sweep inv_futures_minor inv_futures_enqueue by blast
  next
    case (change_recovered r s1 m b)
    have nr: "rr_invocation_id r \<notin> a_released (sweep_expired s)"
      using fresh_not_released change_recovered(3) core unfolding inv_core_def by blast
    have "inv_futures (add_recovered r (sweep_expired s))"
      using inv_futuresD[OF sweep] nr
      by (intro inv_futuresI) (auto simp: fut_done_def simp del: sweep_fields split: if_splits)
    then have "inv_futures (raise_alarm m b (add_recovered r (sweep_expired s)))"
      by (rule inv_futures_cong) simp_all
    then show ?thesis using change_recovered by simp
  qed (use sweep inv_futures_minor assms(3) in auto)
qed

lemma fold_retire_monitors:
  assumes "k \<notin> fst ` set xs"
  shows "map_of (a_monitors (fold (fail_and_retire e) xs s)) k = map_of (a_monitors s) k"
    "k \<in> a_monitor_expired (fold (fail_and_retire e) xs s) \<longleftrightarrow> k \<in> a_monitor_expired s"
  using assms
  by (induction xs arbitrary: s)
    (auto simp: fail_and_retire_def retire_def cancel_monitor_def release_capacity_once_def split: if_splits)

lemma fold_retire_expired_sub: "a_monitor_expired (fold (fail_and_retire e) xs s) \<subseteq> a_monitor_expired s"
proof (induction xs arbitrary: s)
  case (Cons x xs)
  have "a_monitor_expired (fail_and_retire e x s) \<subseteq> a_monitor_expired s"
    by (auto simp: fail_and_retire_def retire_def cancel_monitor_def split: prod.split if_splits)
  then show ?case using Cons.IH[of "fail_and_retire e x s"] by auto
qed simp

text \<open>Failing and retiring a list of tickets whose keys stand in no queue that is kept.\<close>

lemma inv_futures_fold_retire:
  assumes ledger: "inv_ledger s" and inv: "inv_futures s"
    and xs: "\<And>k t. (k, t) \<in> set xs \<Longrightarrow> tickets s k = Some t"
    and same: "a_tickets s0 = a_tickets s" "a_heap s0 = a_heap s" "a_released s0 = a_released s"
      "a_monitors s0 = a_monitors s" "a_monitor_expired s0 = a_monitor_expired s" "a_recovered s0 = a_recovered s"
    and q: "\<And>lk k t. (k, t) \<in> set (queue_of s' lk) \<Longrightarrow> (k, t) \<in> set (queue_of s lk) \<and> k \<notin> fst ` set xs"
    and s': "s' = (fold (fail_and_retire e) xs s0)\<lparr>a_lanes := ls\<rparr>"
  shows "inv_futures s'"
proof -
  note D = inv_futuresD[OF inv]
  have le: "futs_le (a_heap s t) (a_heap s' t)" for t
    using fold_retire_futs_le[of s0 t e xs] by (simp add: s' same)
  show ?thesis
  proof (rule inv_futuresI)
    show "settled (a_heap s' t)" if "tickets s' k = Some t" "k \<in> a_released s' \<or> k \<in> a_monitor_expired s'" for k t
    proof (cases "k \<in> fst ` set xs")
      case True
      then obtain t' where t': "(k, t') \<in> set xs" by auto
      moreover have "t' = t" using xs[OF t'] that by (simp add: s' same)
      ultimately show ?thesis using fold_retire_settles by (simp add: s')
    next
      case False
      then have "k \<in> a_released s \<or> k \<in> a_monitor_expired s"
        using that fold_retire_expired_sub[of e xs s0] by (auto simp: s' same fold_retire_released)
      then show ?thesis using that D(1,2)[of k t] futs_le_settled[OF le] by (auto simp: s' same)
    qed
    show "k \<in> a_monitor_expired s' \<or> map_of (a_monitors s') k = Some t" if "(k, t) \<in> set (queue_of s' lk)" for lk k t
      using q[OF that] D(3)[of k t lk] by (auto simp: s' fold_retire_monitors same)
    show "fut_done (rr_started r) \<and> (k \<in> a_released s' \<longrightarrow> fut_done (rr_completed r))" if "recovered s' k = Some r" for k r
    proof -
      have "k \<notin> fst ` set xs"
        using that xs inv_ledgerD(3)[OF ledger] by (fastforce simp: s' same)
      then show ?thesis using that D(4,5)[of k r] by (auto simp: s' same fold_retire_released)
    qed
  qed
qed

lemma inv_futures_cancel_lane:
  assumes core: "inv_core s" and inv: "inv_futures s"
  shows "inv_futures (cancel_lane lk s)"
proof (cases rule: cancel_lane_cases[of lk s])
  case (cancel s0)
  have l: "inv_lanes s" and ledger: "inv_ledger s" using core by (simp_all add: inv_core_def)
  have s0: "a_tickets s0 = a_tickets s" "a_heap s0 = a_heap s" "a_released s0 = a_released s"
    "a_monitors s0 = a_monitors s" "a_monitor_expired s0 = a_monitor_expired s" "a_recovered s0 = a_recovered s"
    by (auto simp: cancel(2) split: option.split phase.split)
  show ?thesis
    unfolding cancel(3) Let_def
  proof (rule inv_futures_fold_retire[OF ledger inv _ s0 _ refl])
    show "(k, t) \<in> set (queue_of s lk') \<and> k \<notin> fst ` set (items_of s lk)"
      if "(k, t) \<in> set (queue_of ((fold (fail_and_retire FxCancelled) (items_of s lk) s0)\<lparr>a_lanes := dict_del (a_lanes s) lk\<rparr>) lk')"
      for lk' k t
    proof -
      have "lk' \<noteq> lk" "(k, t) \<in> set (queue_of s lk')"
        using that by (auto simp: queue_of_def split: if_splits)
      then show ?thesis using item_once(2)[OF l queue_item[of k t s lk'], of _ lk] by auto
    qed
  qed (use inv_lanesD(3)[OF l] in blast)
qed (use inv in simp)

lemma inv_futures_drop_lane:
  assumes "inv_futures s"
  shows "inv_futures (drop_lane lk s)"
proof (cases "a_closed s \<and> (\<exists>l. map_of (a_lanes s) lk = Some l \<and> ln_current l = None)")
  case True
  then have d: "drop_lane lk s = s\<lparr>a_lanes := dict_del (a_lanes s) lk\<rparr>" by (auto simp: drop_lane_def)
  show ?thesis
    unfolding d using inv_futuresD[OF assms]
    by (intro inv_futuresI) (auto simp: queue_of_def split: if_splits option.splits)
qed (use assms in \<open>auto simp: drop_lane_def split: bool.split option.split\<close>)

lemma inv_futures_fold_drop:
  assumes "inv_ledger s" "inv_futures s" "set ks \<subseteq> dom (recovered s)" "a_recovery_tasks s = {}"
  shows "inv_futures (fold drop_recovered ks s)"
  using assms
proof (induction ks arbitrary: s)
  case (Cons k ks)
  have k: "k \<in> dom (recovered s)" using Cons.prems(3) by simp
  have q: "queue_of (drop_recovered k s) = queue_of s" by (rule lane_cong) simp
  have "inv_futures (drop_recovered k s)"
  proof (cases "k \<in> a_released s")
    case False
    show ?thesis
      by (rule inv_futures_release_recovered[OF Cons.prems(1,2) k, of "Failed closed_exc"])
        (use False q in \<open>simp_all add: drop_recovered_def release_subset\<close>)
  qed (simp add: drop_recovered_def Cons.prems)
  then show ?case using Cons inv_ledger_drop_recovered[OF Cons.prems(1) k Cons.prems(4)] by simp
qed simp

lemma inv_futures_close_finish:
  assumes core: "inv_core s" and inv: "inv_futures s"
  shows "inv_futures (close_finish s)"
proof (cases "a_closed s \<and> a_recovery_tasks s = {} \<and> a_lanes s = []")
  case True
  define s1 where "s1 = s\<lparr>a_monitors := []\<rparr>"
  define s2 where "s2 = fold (fail_and_retire closed_exc) (a_tickets s1) s1"
  have ledger: "inv_ledger s" using core by (simp add: inv_core_def)
  have i1: "inv_ledger s1" using inv_ledgerD[OF ledger] by (intro inv_ledgerI) (auto simp: s1_def owned_def)
  have f1: "inv_futures s1"
    using inv_futuresD[OF inv] True by (intro inv_futuresI) (auto simp: s1_def queue_of_def)
  have i2: "inv_ledger s2"
    unfolding s2_def by (rule inv_ledger_fold_retire[OF i1]) (use inv_ledgerD(1)[OF ledger] in \<open>simp add: s1_def\<close>)
  have q2: "queue_of s2 = (\<lambda>lk. [])" using True by (simp add: s2_def s1_def queue_of_def fun_eq_iff)
  have f2: "inv_futures s2"
    by (rule inv_futures_fold_retire[OF i1 f1, where xs = "a_tickets s1" and e = closed_exc and ls = "a_lanes s2"])
      (use inv_ledgerD(1)[OF ledger] in \<open>simp_all add: q2, simp_all add: s2_def s1_def\<close>)
  have "inv_futures (fold drop_recovered (map fst (a_recovered s2)) s2)"
    by (rule inv_futures_fold_drop[OF i2 f2]) (use True in \<open>auto simp: s2_def s1_def dom_map_of_conv_image_fst\<close>)
  then show ?thesis using True by (simp add: close_finish_def s1_def s2_def)
qed (use inv in \<open>auto simp: close_finish_def\<close>)

lemma inv_futures_step: "step s s' \<Longrightarrow> inv_core s \<Longrightarrow> inv_futures s \<Longrightarrow> inv_futures s'"
proof (induction rule: step.induct)
  case (step_admit s rvt)
  then show ?case using inv_futures_admission[OF admit_change] by (simp add: inv_core_def)
next
  case (step_admit_script s ev)
  then show ?case using inv_futures_admission[OF admit_script_change] by (simp add: inv_core_def)
next
  case (step_close s)
  then show ?case by (auto elim!: inv_futures_cong intro: lane_cong simp: close_start_def)
next
  case (step_tick s d)
  then show ?case by (auto elim!: inv_futures_cong intro: lane_cong simp: tick_def)
next
  case (step_started s lk)
  then show ?case by (auto elim!: inv_futures_cong simp: runner_started_def split: option.split)
next
  case (step_caller_cancel s t which)
  then show ?case by (auto elim!: inv_futures_cong)
qed (simp_all add: inv_futures_admission[OF recover_change] inv_futures_monitor_fire inv_futures_lane_start
  inv_futures_lane_poll inv_futures_runner_done inv_futures_cancel_lane inv_futures_drop_lane inv_futures_close_finish
  inv_futures_observer_done inv_futures_cancel_recovery)

lemma reachable_inv_futures: "reachable cfg s \<Longrightarrow> inv_futures s"
  by (induction rule: reachable.induct) (auto simp: inv_futures_init intro: inv_futures_step reachable_inv_core)

end
