(* ===== verification/Dedup_Contract.thy ===== *)
theory Dedup_Contract
  imports Prelude
begin

text \<open>
  The contract between a source of deliveries that may repeat them (a queue redelivers, a webhook
  retries) and a component that turns deliveries into units of work: an event whose key is owned
  creates nothing, a new one creates at most one unit and owns its key, and no offer gives up a key
  that is owned. Any number of repeats then costs at most one unit of work per key.
\<close>

locale deduplicator =
  fixes inv :: "'s \<Rightarrow> bool" and owned_keys :: "'s \<Rightarrow> 'k set" and count :: "'s \<Rightarrow> nat"
    and key :: "'e \<Rightarrow> 'k" and offer :: "'e \<Rightarrow> 's \<Rightarrow> 's"
  assumes inv_offer: "inv s \<Longrightarrow> inv (offer e s)"
    and owned_mono: "inv s \<Longrightarrow> owned_keys s \<subseteq> owned_keys (offer e s)"
    and offer_known: "inv s \<Longrightarrow> key e \<in> owned_keys s \<Longrightarrow> count (offer e s) = count s"
    and offer_new: "inv s \<Longrightarrow> count (offer e s) = count s
      \<or> count (offer e s) = Suc (count s) \<and> key e \<in> owned_keys (offer e s)"
begin

lemma offer_all:
  assumes "inv s"
  shows "count (fold offer es s) \<le> count s + card (key ` set es - owned_keys s)"
  using assms
proof (induction es arbitrary: s)
  case (Cons e es)
  let ?s = "offer e s"
  have IH: "count (fold offer es ?s) \<le> count ?s + card (key ` set es - owned_keys ?s)"
    using Cons inv_offer by blast
  show ?case
  proof (cases "count ?s = count s")
    case True
    have "card (key ` set es - owned_keys ?s) \<le> card (key ` set (e # es) - owned_keys s)"
      using owned_mono[OF Cons.prems] by (intro card_mono) auto
    then show ?thesis using IH True by simp
  next
    case False
    then have new: "count ?s = Suc (count s)" "key e \<in> owned_keys ?s" using offer_new[OF Cons.prems] by auto
    have k: "key e \<in> key ` set (e # es) - owned_keys s" using False offer_known[OF Cons.prems] by auto
    have "card (key ` set es - owned_keys ?s) \<le> card (key ` set (e # es) - owned_keys s - {key e})"
      using owned_mono[OF Cons.prems] new(2) by (intro card_mono) auto
    moreover have "Suc (card (key ` set (e # es) - owned_keys s - {key e})) = card (key ` set (e # es) - owned_keys s)"
      by (rule card_Suc_Diff1[OF _ k]) simp
    ultimately show ?thesis using IH new(1) by (simp only: fold_Cons o_apply)
  qed
qed simp

lemma inv_fold: "inv s \<Longrightarrow> inv (fold offer es s)"
  by (induction es arbitrary: s) (simp_all add: inv_offer)

lemma owned_fold: "inv s \<Longrightarrow> owned_keys s \<subseteq> owned_keys (fold offer es s)"
proof (induction es arbitrary: s)
  case (Cons e es)
  then show ?case using owned_mono[of s e] inv_offer[of s e] Cons.IH[of "offer e s"] by auto
qed simp

text \<open>Once a delivery is owned, its repeats among other deliveries create nothing for its key.\<close>

lemma repeat_idle:
  assumes "inv s" "key e \<in> owned_keys s"
  shows "count (offer e (fold offer es s)) = count (fold offer es s)"
  using offer_known[OF inv_fold] owned_fold assms by blast

end

end
