(* ===== verification/Admission_Props.thy ===== *)
theory Admission_Props
  imports Admission_Futures Dedup_Contract
begin

section \<open>Capacity\<close>

lemma pool_bound: "inv_counts H s \<Longrightarrow> nonneg s \<Longrightarrow> (\<And>t. t \<in> H \<Longrightarrow> has_sems s (a_heap s t)) \<Longrightarrow> caps_ok (a_cfg s) \<Longrightarrow>
  int (card {t \<in> H. tk_channel (a_heap s t) = c}) \<le> channel_cap (a_cfg s) c
  \<and> int (card {t \<in> H. tk_workspace (a_heap s t) = Some w}) \<le> ac_workspace_max_concurrent_sessions (a_cfg s)"
proof (intro conjI)
  assume inv: "inv_counts H s" and nn: "nonneg s" and sems: "\<And>t. t \<in> H \<Longrightarrow> has_sems s (a_heap s t)"
    and caps: "caps_ok (a_cfg s)"
  note D = inv_countsD[OF inv]
  show "int (card {t \<in> H. tk_channel (a_heap s t) = c}) \<le> channel_cap (a_cfg s) c"
  proof (cases "map_of (a_channel_sems s) c")
    case None
    then have e: "{t \<in> H. tk_channel (a_heap s t) = c} = {}" using sems by (fastforce simp: has_sems_def)
    show ?thesis unfolding e using channel_cap_nonneg[OF caps] by simp
  next
    case (Some e)
    have "0 \<le> fst e" using nn Some unfolding nonneg_def sems_nonneg_def by blast
    then show ?thesis using D(6)[of c "fst e" "snd e"] Some by simp
  qed
  show "int (card {t \<in> H. tk_workspace (a_heap s t) = Some w}) \<le> ac_workspace_max_concurrent_sessions (a_cfg s)"
  proof (cases "map_of (a_workspace_sems s) w")
    case None
    then have e: "{t \<in> H. tk_workspace (a_heap s t) = Some w} = {}" using sems by (fastforce simp: has_sems_def)
    show ?thesis unfolding e using caps by (simp add: caps_ok_def)
  next
    case (Some e)
    have "0 \<le> fst e" using nn Some unfolding nonneg_def sems_nonneg_def by blast
    then show ?thesis using D(7)[of w "fst e" "snd e"] Some by simp
  qed
qed

lemma sems_nonneg:
  assumes "nonneg s"
  shows "map_of (a_channel_sems s) c = Some (v, cap) \<Longrightarrow> 0 \<le> v" "map_of (a_workspace_sems s) c = Some (v, cap) \<Longrightarrow> 0 \<le> v"
  using assms unfolding nonneg_def sems_nonneg_def by fastforce+

text \<open>
  C4. In every reachable state of the admission machine no pool is overdrawn and no permit is lost:
  the free permits of the global pool, of the script pool, of each channel and of each workspace are
  exactly the configured cap less the runs counted there, and never negative, so those runs stay
  within the caps, whatever the interleaving of admissions, polls, completions, cancellations and
  sweeps.
\<close>

theorem admission_capacity:
  assumes "reachable cfg s" "caps_ok cfg"
  shows "int (card {t \<in> running s. \<not> is_script (a_heap s t) \<or> ac_max_concurrent_scripts cfg = None})
           \<le> ac_max_concurrent_invocations cfg
    \<and> (\<forall>m. ac_max_concurrent_scripts cfg = Some m \<longrightarrow> int (card {t \<in> running s. is_script (a_heap s t)}) \<le> m)
    \<and> (\<forall>c. int (card {t \<in> running s. tk_channel (a_heap s t) = c}) \<le> channel_cap cfg c)
    \<and> (\<forall>w. int (card {t \<in> running s. tk_workspace (a_heap s t) = Some w}) \<le> ac_workspace_max_concurrent_sessions cfg)
    \<and> 0 \<le> a_global s
    \<and> a_global s = ac_max_concurrent_invocations cfg
        - int (card {t \<in> running s. \<not> is_script (a_heap s t) \<or> ac_max_concurrent_scripts cfg = None})
    \<and> a_script s = map_option (\<lambda>m. m - int (card {t \<in> running s. is_script (a_heap s t)})) (ac_max_concurrent_scripts cfg)
    \<and> (\<forall>v. a_script s = Some v \<longrightarrow> 0 \<le> v)
    \<and> (\<forall>c v cap. map_of (a_channel_sems s) c = Some (v, cap) \<longrightarrow> 0 \<le> v \<and> cap = channel_cap cfg c
        \<and> v = cap - int (card {t \<in> running s. tk_channel (a_heap s t) = c}))
    \<and> (\<forall>w v cap. map_of (a_workspace_sems s) w = Some (v, cap) \<longrightarrow> 0 \<le> v \<and> cap = ac_workspace_max_concurrent_sessions cfg
        \<and> v = cap - int (card {t \<in> running s. tk_workspace (a_heap s t) = Some w}))"
proof -
  have p: "inv_sems {} s" "inv_counts (running s) s"
    using reachable_inv_permits[OF assms(1)] by (simp_all add: inv_permits_def)
  have nn: "nonneg s" by (rule reachable_nonneg[OF assms])
  have cfg: "a_cfg s = cfg" by (rule reachable_cfg[OF assms(1)])
  note D = inv_countsD[OF p(2)]
  have sc: "a_script s = None \<longleftrightarrow> ac_max_concurrent_scripts cfg = None" using D(5) by (simp add: cfg)
  have g: "0 \<le> a_global s" "a_global s = ac_max_concurrent_invocations cfg
      - int (card {t \<in> running s. \<not> is_script (a_heap s t) \<or> ac_max_concurrent_scripts cfg = None})"
    using D(4) nn by (simp_all add: cfg sc nonneg_def)
  have script: "a_script s = map_option (\<lambda>m. m - int (card {t \<in> running s. is_script (a_heap s t)})) (ac_max_concurrent_scripts cfg)"
    "\<And>v. a_script s = Some v \<Longrightarrow> 0 \<le> v"
    using D(5) nn by (cases "a_script s"; auto simp: cfg nonneg_def)+
  have "0 \<le> v \<and> cap = channel_cap cfg c \<and> v = cap - int (card {t \<in> running s. tk_channel (a_heap s t) = c})"
    if "map_of (a_channel_sems s) c = Some (v, cap)" for c v cap
    using D(6)[OF that] sems_nonneg(1)[OF nn that] by (simp add: cfg)
  moreover have "0 \<le> v \<and> cap = ac_workspace_max_concurrent_sessions cfg
      \<and> v = cap - int (card {t \<in> running s. tk_workspace (a_heap s t) = Some w})"
    if "map_of (a_workspace_sems s) w = Some (v, cap)" for w v cap
    using D(7)[OF that] sems_nonneg(2)[OF nn that] by (simp add: cfg)
  moreover have "int (card {t \<in> running s. is_script (a_heap s t)}) \<le> m" if "ac_max_concurrent_scripts cfg = Some m" for m
    using script(2)[of "m - int (card {t \<in> running s. is_script (a_heap s t)})"] script(1) that by simp
  moreover note pool_bound[OF p(2) nn running_has_sems[OF p(1)]]
  ultimately show ?thesis using assms(2) g script by (simp add: cfg)
qed

definition example_agent_event :: routed_event where
  "example_agent_event = \<lparr>re_event = \<lparr>ev_id = ''e1'', ev_channel = ''ci'', ev_type = ''webhook'', ev_source = ''gitlab'',
     ev_payload = [], ev_context = [], ev_actor = []\<rparr>, re_workspace_key = ''w'', re_session_key = ''s'', re_rate_keys = []\<rparr>"

definition example_config :: adm_config where
  "example_config = \<lparr>ac_sha256 = id, ac_namespace = ''ns'', ac_agent_uid = ''uid'', ac_max_concurrent_invocations = 1,
     ac_max_queued_total = 2, ac_idempotency_window_seconds = 60, ac_max_invocation_seconds = 10,
     ac_workspace_max_concurrent_sessions = 1, ac_channel_concurrency = [], ac_max_concurrent_scripts = None,
     ac_rate_limits = [(''ci'', \<lparr>cl_max_per_hour = Some 1, cl_per_key = []\<rparr>)]\<rparr>"

definition example_admitted :: adm where
  "example_admitted = snd (admit example_agent_event (init_admission example_config 0))"

definition example_lane :: string where
  "example_lane = session_ref id (workspace_ref id ''ns'' ''uid'' ''w'') ''s''"

definition example_waiting :: adm where
  "example_waiting = lane_start example_lane example_admitted"

definition example_running :: adm where
  "example_running = lane_poll example_lane 0 example_waiting"

lemma example_reachable: "reachable example_config example_running"
  unfolding example_running_def example_waiting_def example_admitted_def
  by (intro reach_step[OF _ step_poll] reach_step[OF _ step_start] reach_step[OF _ step_admit] reach_init)

lemma example_caps: "caps_ok example_config"
  by (simp add: caps_ok_def example_config_def)

lemma example_current: "current_running example_lane example_running = Some (dedup_key example_running ''ci'' ''e1'', 0)"
  by code_simp

lemma example_running_0: "0 \<in> running example_running"
  using example_current by (auto simp: current_running_iff running_def)

theorem admission_capacity_witness:
  "0 \<in> running example_running \<and> 0 \<le> a_global example_running
   \<and> int (card {t \<in> running example_running. tk_channel (a_heap example_running t) = ''ci''}) \<le> channel_cap example_config ''ci''"
  using admission_capacity[OF example_reachable example_caps] example_running_0 by blast

section \<open>Starting a run\<close>

lemma running_finish: "running (finish lk k t s) \<subseteq> running s"
  by (auto simp: running_def split: if_splits)

lemma running_mono:
  assumes "\<And>lk. cur_of s' lk = cur_of s lk \<or> cur_of s' lk = None"
  shows "running s' \<subseteq> running s"
proof
  fix t assume "t \<in> running s'"
  then obtain lk k where "cur_of s' lk = Some (k, t, Running)" by (auto simp: running_def)
  with assms[of lk] have "cur_of s lk = Some (k, t, Running)" by simp
  then show "t \<in> running s" by (auto simp: running_def)
qed

lemma admission_change_cur:
  assumes "admission_change s s'"
  shows "cur_of s' = cur_of s"
  using assms by cases (auto simp: lane_cong[OF minor_frame(17)])

text \<open>Only the acquire loop starts a run.\<close>

lemma run_starts_by_poll:
  assumes "step s s'" "inv_core s" "t \<in> running s'" "t \<notin> running s"
  obtains lk k l s1 later where "cur_of s lk = Some (k, t, Waiting)" "try_acquire (a_heap s t) s = Some s1"
    "a_now s1 + int later < tk_deadline_at (a_heap s t)"
    "s' = set_lane lk (l\<lparr>ln_current := Some (k, t, Running)\<rparr>) (s1\<lparr>a_now := a_now s1 + int later\<rparr>)"
proof -
  have no: thesis if "running s' \<subseteq> running s" using that assms(3,4) by blast
  show thesis using assms(1)
  proof cases
    case (step_admit rvt)
    then show thesis
      using no running_cong[OF admission_change_cur[OF admit_change]] assms(2) by (simp add: inv_core_def)
  next
    case (step_admit_script ev)
    then show thesis
      using no running_cong[OF admission_change_cur[OF admit_script_change]] assms(2) by (simp add: inv_core_def)
  next
    case (step_recover r)
    then show thesis using no running_cong[OF admission_change_cur[OF recover_change]] by simp
  next
    case (step_start lk)
    show thesis
    proof (cases rule: lane_start_cases[of lk s])
      case (turn k u q s2)
      have "running s2 = running s" using running_put[OF _ turn(4)] turn(1) by simp
      moreover have "running (expire u m s2) = running s2" "running (make_sems tk s2) = running s2" for m tk
        by (rule running_cong; simp)+
      ultimately show thesis
        using no turn(6) step_start running_finish[of lk k u s2] running_finish[of lk k u "expire u m s2" for m] by auto
    qed (use no step_start in simp)
  next
    case (step_poll lk later)
    show thesis
    proof (cases rule: lane_poll_cases[of lk later s])
      case (expired k u)
      have "running (expire u m s) = running s" for m by (rule running_cong) simp
      then show thesis using no expired(2) step_poll running_finish by metis
    next
      case (late k u s1 s2)
      have "running (release_permits tk (expire u m s2)) = running s" for tk m
        using acquire_view(1)[OF late(2)] by (intro running_cong) (simp add: late(3))
      then show thesis using no late(4) step_poll running_finish by metis
    next
      case (acquired k u l s1 s2)
      have c: "cur_of s' = (cur_of s)(lk \<mapsto> (k, u, Running))"
        using acquire_view(1)[OF acquired(4)] step_poll acquired(5,7) by simp
      have "running s' = insert u (running s)" using running_put[OF _ c] acquired(1) by simp
      then have "u = t" using assms(3,4) by auto
      then show thesis using that[OF _ _ _] acquired step_poll by simp
    qed (use no step_poll in simp)
  next
    case (step_done lk out)
    show thesis
    proof (cases rule: runner_done_cases[of lk out s])
      case (run k u)
      have "running (release_permits tk (settle_run u out s)) = running s" for tk by (rule running_cong) simp
      then show thesis using no run(2) step_done running_finish by metis
    qed (use no step_done in simp)
  next
    case (step_cancel_lane lk)
    show thesis
    proof (cases rule: cancel_lane_cases[of lk s])
      case (cancel s0)
      show thesis
        by (rule no, unfold step_cancel_lane cancel(3) Let_def, rule running_mono) (auto simp: cur_of_def)
    qed (use no step_cancel_lane in simp)
  next
    case (step_drop_lane lk)
    show thesis
      by (rule no, unfold step_drop_lane, rule running_mono) (auto simp: cur_of_def drop_lane_def split: bool.split option.split)
  qed (rule no, rule equalityD1, rule running_cong, rule lane_cong,
    simp add: monitor_fire_def runner_started_def close_start_def close_finish_def tick_def Let_def split: option.split)+
qed

lemma acquire_values:
  assumes "try_acquire tk s = Some s1" "has_sems s tk"
  shows "\<exists>v cap. map_of (a_channel_sems s1) (tk_channel tk) = Some (v, cap) \<and> recovered_count s (Some (tk_channel tk)) None \<le> v"
    "tk_workspace tk = Some w \<Longrightarrow>
       \<exists>v cap. map_of (a_workspace_sems s1) w = Some (v, cap) \<and> recovered_count s None (Some w) \<le> v"
    "\<not> is_script tk \<or> a_script s = None \<Longrightarrow> recovered_count s None None \<le> a_global s1"
    "tk_workspace tk = Some w \<Longrightarrow> tk_session tk = Some sref \<Longrightarrow> \<not> recovered_owns_session s w sref"
proof -
  note sh = shifted_acquire[OF assms(1)]
  obtain v cap where c: "map_of (a_channel_sems s) (tk_channel tk) = Some (v, cap)"
    using assms(2) by (auto simp: has_sems_def)
  have "recovered_count s (Some (tk_channel tk)) None < v"
    using acquire_agent(2)[OF assms(1)] acquire_script(2)[OF assms(1)] c
    by (cases "tk_kind tk") (auto simp: sem_value_def tk_channel_def)
  then show "\<exists>v cap. map_of (a_channel_sems s1) (tk_channel tk) = Some (v, cap) \<and> recovered_count s (Some (tk_channel tk)) None \<le> v"
    using sh c by (auto simp: shifted_def)
  show "\<not> is_script tk \<or> a_script s = None \<Longrightarrow> recovered_count s None None \<le> a_global s1"
    using acquire_agent(1)[OF assms(1)] acquire_script(1)[OF assms(1)] sh
    by (cases "tk_kind tk") (auto simp: shifted_def is_script_def split: option.splits)
  assume w: "tk_workspace tk = Some w"
  then obtain sref' r where k: "tk_kind tk = AgentTicket w sref' r"
    by (auto simp: tk_workspace_def split: ticket_kind.splits)
  obtain v' cap' where c': "map_of (a_workspace_sems s) w = Some (v', cap')"
    using assms(2) w by (auto simp: has_sems_def)
  show "\<exists>v cap. map_of (a_workspace_sems s1) w = Some (v, cap) \<and> recovered_count s None (Some w) \<le> v"
    using acquire_agent(3)[OF assms(1) k] sh c' w by (auto simp: shifted_def sem_value_def)
  show "tk_session tk = Some sref \<Longrightarrow> \<not> recovered_owns_session s w sref"
    using acquire_agent(4)[OF assms(1) k] k by (simp add: tk_session_def)
qed

lemma start_has_room:
  assumes "reachable cfg s" "step s s'" "t \<in> running s'" "t \<notin> running s"
  shows "recovered_count s' (Some (tk_channel (a_heap s' t))) None
        + int (card {u \<in> running s'. tk_channel (a_heap s' u) = tk_channel (a_heap s' t)}) \<le> channel_cap cfg (tk_channel (a_heap s' t))
    \<and> (\<not> is_script (a_heap s' t) \<or> ac_max_concurrent_scripts cfg = None \<longrightarrow> recovered_count s' None None
        + int (card {u \<in> running s'. \<not> is_script (a_heap s' u) \<or> ac_max_concurrent_scripts cfg = None}) \<le> ac_max_concurrent_invocations cfg)
    \<and> (\<forall>w sref. tk_workspace (a_heap s' t) = Some w \<and> tk_session (a_heap s' t) = Some sref \<longrightarrow>
        recovered_count s' None (Some w) + int (card {u \<in> running s'. tk_workspace (a_heap s' u) = Some w})
          \<le> ac_workspace_max_concurrent_sessions cfg
        \<and> \<not> recovered_owns_session s' w sref)"
proof -
  have core: "inv_core s" and inv: "inv_permits s" and cfg: "a_cfg s = cfg"
    using reachable_inv_core reachable_inv_permits reachable_cfg assms(1) by blast+
  obtain lk k l s1 later where r: "cur_of s lk = Some (k, t, Waiting)" "try_acquire (a_heap s t) s = Some s1"
    "a_now s1 + int later < tk_deadline_at (a_heap s t)"
    "s' = set_lane lk (l\<lparr>ln_current := Some (k, t, Running)\<rparr>) (s1\<lparr>a_now := a_now s1 + int later\<rparr>)"
    using run_starts_by_poll[OF assms(2) core assms(3,4)] by metis
  have f: "a_heap s' = a_heap s" "a_cfg s' = cfg" "a_channel_sems s' = a_channel_sems s1" "a_global s' = a_global s1"
    "a_workspace_sems s' = a_workspace_sems s1" "a_now s' = a_now s1 + int later"
    using try_acquire_frame[OF r(2)] by (auto simp: r(4) cfg)
  have rc: "recovered_count s' = recovered_count s" "recovered_owns_session s' = recovered_owns_session s"
    by (rule recovered_cong; use try_acquire_frame[OF r(2)] in \<open>auto simp: r(4)\<close>)+
  have cnt: "inv_counts (running s') s'"
    using inv_permits_step[OF assms(2) core inv] by (simp add: inv_permits_def)
  have sc: "a_script s' = None \<longleftrightarrow> ac_max_concurrent_scripts cfg = None" using inv_countsD(5)[OF cnt] by (simp add: f)
  have sc0: "a_script s = None \<longleftrightarrow> ac_max_concurrent_scripts cfg = None"
    using inv inv_countsD(5)[of "running s" s] by (simp add: inv_permits_def cfg)
  have sems: "has_sems s (a_heap s t)" using inv r(1) by (auto simp: inv_permits_def intro: inv_semsD)
  note a = acquire_values[OF r(2) sems]
  have "recovered_count s' (Some (tk_channel (a_heap s' t))) None
      + int (card {u \<in> running s'. tk_channel (a_heap s' u) = tk_channel (a_heap s' t)}) \<le> channel_cap cfg (tk_channel (a_heap s' t))"
    using a(1) inv_countsD(6)[OF cnt] by (fastforce simp: f rc)
  moreover have "recovered_count s' None None
      + int (card {u \<in> running s'. \<not> is_script (a_heap s' u) \<or> ac_max_concurrent_scripts cfg = None}) \<le> ac_max_concurrent_invocations cfg"
    if "\<not> is_script (a_heap s' t) \<or> ac_max_concurrent_scripts cfg = None"
    using a(3) inv_countsD(4)[OF cnt] that by (simp add: f rc sc sc0)
  moreover have "recovered_count s' None (Some w) + int (card {u \<in> running s'. tk_workspace (a_heap s' u) = Some w})
      \<le> ac_workspace_max_concurrent_sessions cfg" if "tk_workspace (a_heap s' t) = Some w" for w
    using a(2)[of w] that inv_countsD(7)[OF cnt] by (fastforce simp: f rc)
  moreover have "\<not> recovered_owns_session s' w sref"
    if "tk_workspace (a_heap s' t) = Some w" "tk_session (a_heap s' t) = Some sref" for w sref
    using a(4)[of w sref] that by (simp add: f rc)
  ultimately show ?thesis by blast
qed

text \<open>
  C6. A run starts only at the head of its lane, only in time and only where there is room beside the
  recovered runs. Whatever step starts the run of a ticket, that ticket was the waiting entry of its
  own lane, every entry queued behind it was admitted later, and so was, while admission is open,
  every other ticket of that lane that still owns capacity; the clock then reads before the ticket's
  deadline; the runs of its channel, of its workspace and of the shared pool together with the
  recovered runs that still own capacity there are within the caps; and no recovered run owns its
  session.
\<close>

theorem run_start_guarded:
  assumes "reachable cfg s" "step s s'" "t \<in> running s'" "t \<notin> running s"
  shows "(\<exists>k. cur_of s (lane_of cfg (tk_kind (a_heap s t))) = Some (k, t, Waiting) \<and> k \<notin> a_released s
        \<and> cur_of s' (lane_of cfg (tk_kind (a_heap s t))) = Some (k, t, Running))
    \<and> (\<forall>k u. (k, u) \<in> set (queue_of s (lane_of cfg (tk_kind (a_heap s t)))) \<longrightarrow> t < u)
    \<and> (\<forall>k u. \<not> a_closed s \<and> map_of (a_tickets s) k = Some u \<and> k \<notin> a_released s
        \<and> lane_of cfg (tk_kind (a_heap s u)) = lane_of cfg (tk_kind (a_heap s t)) \<and> u \<noteq> t \<longrightarrow> t < u)
    \<and> a_now s' < tk_deadline_at (a_heap s' t)
    \<and> recovered_count s' (Some (tk_channel (a_heap s' t))) None
        + int (card {u \<in> running s'. tk_channel (a_heap s' u) = tk_channel (a_heap s' t)}) \<le> channel_cap cfg (tk_channel (a_heap s' t))
    \<and> (\<not> is_script (a_heap s' t) \<or> ac_max_concurrent_scripts cfg = None \<longrightarrow> recovered_count s' None None
        + int (card {u \<in> running s'. \<not> is_script (a_heap s' u) \<or> ac_max_concurrent_scripts cfg = None}) \<le> ac_max_concurrent_invocations cfg)
    \<and> (\<forall>w sref. tk_workspace (a_heap s' t) = Some w \<and> tk_session (a_heap s' t) = Some sref \<longrightarrow>
        recovered_count s' None (Some w) + int (card {u \<in> running s'. tk_workspace (a_heap s' u) = Some w})
          \<le> ac_workspace_max_concurrent_sessions cfg
        \<and> \<not> recovered_owns_session s' w sref)"
proof -
  have core: "inv_core s" and cfg: "a_cfg s = cfg" using reachable_inv_core reachable_cfg assms(1) by blast+
  then have l: "inv_lanes s" by (simp add: inv_core_def)
  obtain lk k l s1 later where r: "cur_of s lk = Some (k, t, Waiting)" "try_acquire (a_heap s t) s = Some s1"
    "a_now s1 + int later < tk_deadline_at (a_heap s t)"
    "s' = set_lane lk (l\<lparr>ln_current := Some (k, t, Running)\<rparr>) (s1\<lparr>a_now := a_now s1 + int later\<rparr>)"
    using run_starts_by_poll[OF assms(2) core assms(3,4)] by metis
  have f: "a_heap s' = a_heap s" "a_now s' = a_now s1 + int later" using try_acquire_frame[OF r(2)] by (auto simp: r(4))
  note c = cur_item[OF r(1)]
  have lane: "lane_of cfg (tk_kind (a_heap s t)) = lk" using inv_lanesD(5)[OF l c] by (simp add: cfg)
  have first: "t < u" if "(k', u) \<in> set (queue_of s lk)" for k' u by (rule cur_not_queued(1)[OF l r(1) that])
  have "\<forall>k' u. \<not> a_closed s \<and> map_of (a_tickets s) k' = Some u \<and> k' \<notin> a_released s
      \<and> lane_of cfg (tk_kind (a_heap s u)) = lk \<and> u \<noteq> t \<longrightarrow> t < u"
    using inv_lanesD(7)[OF l] r(1) first by (fastforce simp: items_of_def cfg)
  moreover have "cur_of s' lk = Some (k, t, Running)" by (simp add: r(4))
  ultimately show ?thesis using r(1,3) inv_lanesD(4)[OF l c] lane first start_has_room[OF assms] by (simp add: f)
qed

lemma example_waiting_reachable: "reachable example_config example_waiting"
  unfolding example_waiting_def example_admitted_def
  by (intro reach_step[OF _ step_start] reach_step[OF _ step_admit] reach_init)

lemma example_start: "step example_waiting example_running"
  unfolding example_running_def by (rule step_poll)

lemma example_not_running: "0 \<notin> running example_waiting"
proof -
  have "a_lanes example_waiting = [(example_lane, \<lparr>ln_queue = [], ln_current = Some (dedup_key example_waiting ''ci'' ''e1'', 0, Waiting)\<rparr>)]"
    by code_simp
  then show ?thesis by (auto simp: running_def cur_of_def split: if_splits)
qed

theorem run_start_guarded_witness: "a_now example_running < tk_deadline_at (a_heap example_running 0)"
  using run_start_guarded[OF example_waiting_reachable example_start example_running_0 example_not_running] by blast

section \<open>Order within a session\<close>

text \<open>
  C7. Sessions are strictly first in, first out. While admission is open, a running agent ticket is the
  oldest live ticket of its session: every other ticket of the same session that still owns capacity
  was admitted later and is not running.
\<close>

theorem session_fifo:
  assumes "reachable cfg s" "\<not> a_closed s" "t \<in> running s" "tk_session (a_heap s t) = Some sref"
    and "map_of (a_tickets s) k = Some u" "k \<notin> a_released s" "tk_session (a_heap s u) = Some sref" "u \<noteq> t"
  shows "t < u \<and> u \<notin> running s"
proof -
  have l: "inv_lanes s" using reachable_inv_core[OF assms(1)] by (simp add: inv_core_def)
  obtain lk k0 where c: "cur_of s lk = Some (k0, t, Running)" using assms(3) by (auto simp: running_def)
  have lk: "lane_of (a_cfg s) (tk_kind (a_heap s x)) = sref" if "tk_session (a_heap s x) = Some sref" for x
    using that by (auto simp: tk_session_def lane_of_def split: ticket_kind.splits)
  have eq: "lk = sref" using inv_lanesD(5)[OF l cur_item[OF c]] lk[OF assms(4)] by simp
  have "(k, u) \<in> set (items_of s sref)"
    using inv_lanesD(7)[OF l assms(2,5,6)] lk[OF assms(7)] by simp
  then have q: "(k, u) \<in> set (queue_of s lk)" using c assms(8) by (auto simp: items_of_def eq)
  have "u \<notin> running s"
  proof
    assume "u \<in> running s"
    then obtain lk' k' where c': "cur_of s lk' = Some (k', u, Running)" by (auto simp: running_def)
    then have "lk' = sref" using inv_lanesD(5)[OF l cur_item[OF c']] lk[OF assms(7)] by simp
    then show False using c c' eq assms(8) by simp
  qed
  then show ?thesis using cur_not_queued(1)[OF l c q] by simp
qed

text \<open>A second event of the same session, admitted while the first runs (the hourly limit lifted).\<close>

definition example_config2 :: adm_config where
  "example_config2 = example_config\<lparr>ac_rate_limits := [], ac_max_concurrent_invocations := 2\<rparr>"

definition example_second :: routed_event where
  "example_second = example_agent_event\<lparr>re_event := (re_event example_agent_event)\<lparr>ev_id := ''e2''\<rparr>\<rparr>"

definition example_two :: adm where
  "example_two = snd (admit example_second (lane_poll example_lane 0 (lane_start example_lane
     (snd (admit example_agent_event (init_admission example_config2 0))))))"

lemma example_two_reachable: "reachable example_config2 example_two"
  unfolding example_two_def
  by (intro reach_step[OF _ step_poll] reach_step[OF _ step_start] reach_step[OF _ step_admit] reach_init)

theorem session_fifo_witness: "(0::nat) < 1 \<and> 1 \<notin> running example_two"
proof (rule session_fifo[OF example_two_reachable])
  have "current_running example_lane example_two = Some (dedup_key example_two ''ci'' ''e1'', 0)" by code_simp
  then show "0 \<in> running example_two" by (auto simp: current_running_iff running_def)
  show "\<not> a_closed example_two" by code_simp
  show "tk_session (a_heap example_two 0) = Some example_lane" by code_simp
  show "tk_session (a_heap example_two 1) = Some example_lane" by code_simp
  show "map_of (a_tickets example_two) (dedup_key example_two ''ci'' ''e2'') = Some 1" by code_simp
  show "dedup_key example_two ''ci'' ''e2'' \<notin> a_released example_two" by code_simp
qed simp

section \<open>Deduplication\<close>

definition event_key :: "adm_config \<Rightarrow> routed_event \<Rightarrow> string" where
  "event_key cfg rvt = invocation_digest (ac_sha256 cfg) (ac_agent_uid cfg) (re_channel rvt) (re_event_id rvt)"

definition script_key :: "adm_config \<Rightarrow> event \<Rightarrow> string" where
  "script_key cfg ev = invocation_digest (ac_sha256 cfg) (ac_agent_uid cfg) (ev_channel ev) (ev_id ev)"

lemma admission_owned:
  assumes "admission_change s s'"
  shows "owned s \<subseteq> owned s' \<and> a_cfg s' = a_cfg s"
  using assms
proof cases
  case (change_swept)
  then show ?thesis using owned_sweep[of s] by (auto simp: owned_def minor_frame)
next
  case (change_enqueued s1 key kind windows)
  then show ?thesis using owned_sweep[of s] by (auto simp: owned_def minor_frame split: if_splits)
next
  case (change_recovered r s1 m b)
  then show ?thesis using owned_sweep[of s] by (auto simp: owned_def split: if_splits)
qed simp

lemma admit_new:
  assumes "inv_ledger s"
  shows "a_next (snd (admit rvt s)) = a_next s
    \<or> a_next (snd (admit rvt s)) = Suc (a_next s) \<and> event_key (a_cfg s) rvt \<in> owned (snd (admit rvt s))
      \<and> event_key (a_cfg s) rvt \<notin> owned s"
proof (cases "a_next (snd (admit rvt s)) = a_next s")
  case False
  define s1 where "s1 = sweep_expired s"
  define key where "key = dedup_key s1 (re_channel rvt) (re_event_id rvt)"
  have ex: "existing_ticket key s1 = (record_of s1 key, s1)"
    unfolding s1_def by (rule existing_after_sweep[OF assms])
  have nx: "a_next s1 = a_next s" "a_cfg s1 = a_cfg s" "owned s1 = owned s" by (simp_all add: s1_def)
  have kk: "key = event_key (a_cfg s) rvt" by (simp add: key_def dedup_key_def event_key_def nx)
  note [simp] = s1_def[symmetric] key_def[symmetric] ex
  have op: "\<not> a_closed s" using False by (auto simp: admit_def)
  have none: "record_of s1 key = None"
    using False op nx by (cases "record_of s1 key") (auto simp: admit_def Let_def split: handle.splits)
  then have fresh: "fresh s1 key" by (simp add: record_of_None fresh_def)
  obtain checks where ch: "rate_checks (a_cfg s1) rvt = Inr checks"
    using False op none nx by (cases "rate_checks (a_cfg s1) rvt") (auto simp: admit_def Let_def)
  obtain res s3 where r: "run_rate_checks checks s1 = (res, s3)" by fastforce
  have m: "minor s1 s3" using minor_rate[of s1 checks] r by simp
  obtain w sref where adm: "snd (admit rvt s) = snd (enqueue key (AgentTicket w sref rvt) sref (map fst checks) s3)"
    using False op none ch r nx minor_frame(4)[OF m]
    by (cases res) (auto simp: admit_def Let_def case_prod_beta split: if_splits)
  have nr: "key \<notin> a_released s3" using fresh_not_released[of s1 key] inv_ledger_sweep[OF assms] fresh minor_frame(14)[OF m] by simp
  have "key \<in> owned (snd (admit rvt s))" unfolding adm using nr by (auto simp: owned_def)
  moreover have "key \<notin> owned s" using fresh nx(3) by (auto simp: owned_def fresh_def)
  ultimately show ?thesis using adm nx minor_frame(4)[OF m] kk by simp
qed simp

interpretation agent_dedup: deduplicator
  "\<lambda>s. inv_core s \<and> a_cfg s = cfg" owned a_next "event_key cfg" "\<lambda>rvt s. snd (admit rvt s)" for cfg
proof
  fix s rvt assume i: "inv_core s \<and> a_cfg s = cfg"
  then have ch: "admission_change s (snd (admit rvt s))" using admit_change by (simp add: inv_core_def)
  show "inv_core (snd (admit rvt s)) \<and> a_cfg (snd (admit rvt s)) = cfg"
    using inv_core_admission[OF ch] admission_owned[OF ch] i by simp
  show "owned s \<subseteq> owned (snd (admit rvt s))" using admission_owned[OF ch] by simp
  have n: "inv_ledger s" using i by (simp add: inv_core_def)
  show "a_next (snd (admit rvt s)) = a_next s" if "event_key cfg rvt \<in> owned s"
    using admit_new[OF n, of rvt] that i by auto
  show "a_next (snd (admit rvt s)) = a_next s \<or>
      a_next (snd (admit rvt s)) = Suc (a_next s) \<and> event_key cfg rvt \<in> owned (snd (admit rvt s))"
    using admit_new[OF n, of rvt] i by auto
qed

lemma admit_script_new:
  assumes "inv_ledger s"
  shows "a_next (snd (admit_script ev s)) = a_next s
    \<or> a_next (snd (admit_script ev s)) = Suc (a_next s) \<and> script_key (a_cfg s) ev \<in> owned (snd (admit_script ev s))
      \<and> script_key (a_cfg s) ev \<notin> owned s"
proof (cases "a_next (snd (admit_script ev s)) = a_next s")
  case False
  define s1 where "s1 = sweep_expired s"
  define key where "key = dedup_key s1 (ev_channel ev) (ev_id ev)"
  have ex: "existing_ticket key s1 = (record_of s1 key, s1)"
    unfolding s1_def by (rule existing_after_sweep[OF assms])
  have nx: "a_next s1 = a_next s" "a_cfg s1 = a_cfg s" "owned s1 = owned s" by (simp_all add: s1_def)
  have kk: "key = script_key (a_cfg s) ev" by (simp add: key_def dedup_key_def script_key_def nx)
  note [simp] = s1_def[symmetric] key_def[symmetric] ex
  have op: "\<not> a_closed s" using False by (auto simp: admit_script_def)
  have none: "record_of s1 key = None"
    using False op nx by (cases "record_of s1 key") (auto simp: admit_script_def Let_def split: handle.splits if_splits)
  then have fresh: "fresh s1 key" by (simp add: record_of_None fresh_def)
  have adm: "snd (admit_script ev s) = snd (enqueue key (ScriptTicket ev) (script_lane_key (a_cfg s1) ev) [] s1)"
    using False op none nx by (auto simp: admit_script_def Let_def case_prod_beta split: if_splits)
  have nr: "key \<notin> a_released s1" using fresh_not_released[of s1 key] inv_ledger_sweep[OF assms] fresh by simp
  have "key \<in> owned (snd (admit_script ev s))" unfolding adm using nr by (auto simp: owned_def)
  moreover have "key \<notin> owned s" using fresh nx(3) by (auto simp: owned_def fresh_def)
  ultimately show ?thesis using adm nx kk by simp
qed simp

interpretation script_dedup: deduplicator
  "\<lambda>s. inv_core s \<and> a_cfg s = cfg" owned a_next "script_key cfg" "\<lambda>ev s. snd (admit_script ev s)" for cfg
proof
  fix s ev assume i: "inv_core s \<and> a_cfg s = cfg"
  then have ch: "admission_change s (snd (admit_script ev s))" using admit_script_change by (simp add: inv_core_def)
  show "inv_core (snd (admit_script ev s)) \<and> a_cfg (snd (admit_script ev s)) = cfg"
    using inv_core_admission[OF ch] admission_owned[OF ch] i by simp
  show "owned s \<subseteq> owned (snd (admit_script ev s))" using admission_owned[OF ch] by simp
  have n: "inv_ledger s" using i by (simp add: inv_core_def)
  show "a_next (snd (admit_script ev s)) = a_next s" if "script_key cfg ev \<in> owned s"
    using admit_script_new[OF n, of ev] that i by auto
  show "a_next (snd (admit_script ev s)) = a_next s \<or>
      a_next (snd (admit_script ev s)) = Suc (a_next s) \<and> script_key cfg ev \<in> owned (snd (admit_script ev s))"
    using admit_script_new[OF n, of ev] i by auto
qed

text \<open>
  Redelivery costs nothing. Offering any sequence of routed events, with any repetitions, to a
  reachable admission creates at most one ticket per distinct invocation key that was not already
  owned; the same holds for script events.
\<close>

theorem redelivery_bounded:
  assumes "reachable cfg s"
  shows "a_next (fold (\<lambda>rvt s. snd (admit rvt s)) rvts s) \<le> a_next s + card (event_key cfg ` set rvts - owned s)
    \<and> a_next (fold (\<lambda>ev s. snd (admit_script ev s)) evs s) \<le> a_next s + card (script_key cfg ` set evs - owned s)"
  using agent_dedup.offer_all[of s cfg rvts] script_dedup.offer_all[of s cfg evs]
    reachable_inv_core[OF assms] reachable_cfg[OF assms] by simp

theorem redelivery_bounded_witness:
  "a_next (fold (\<lambda>rvt s. snd (admit rvt s)) [example_agent_event, example_agent_event] (init_admission example_config 0)) \<le> 1"
  using redelivery_bounded[OF reach_init[of example_config 0], where rvts = "[example_agent_event, example_agent_event]" and evs = "[]"]
  by (simp add: init_admission_def owned_def)

text \<open>
  A redelivered event joins the run it started. While its ticket owns capacity, or for the
  idempotency window after it gave the capacity back, \<open>admit\<close> answers with that same ticket, creates
  none, and touches no other live entry.
\<close>

theorem redelivery_joins:
  assumes "reachable cfg s" "\<not> a_closed s" "map_of (a_tickets s) (event_key cfg rvt) = Some t"
    and "event_key cfg rvt \<notin> a_released s
      \<or> (\<exists>c. map_of (a_completed_at s) (event_key cfg rvt) = Some c \<and> a_now s - c < ac_idempotency_window_seconds cfg)"
  shows "fst (admit rvt s) = Inr (HTicket t) \<and> a_next (snd (admit rvt s)) = a_next s \<and> owned (snd (admit rvt s)) = owned s
    \<and> a_lanes (snd (admit rvt s)) = a_lanes s"
proof -
  have l: "inv_ledger s" and cfg: "a_cfg s = cfg"
    using reachable_inv_core[OF assms(1)] reachable_cfg[OF assms(1)] by (simp_all add: inv_core_def)
  have k: "dedup_key (sweep_expired s) (re_channel rvt) (re_event_id rvt) = event_key cfg rvt"
    by (simp add: dedup_key_def event_key_def cfg)
  have "event_key cfg rvt \<notin> set (expired_keys s)"
    using assms(4) by (auto simp: expired_keys_def window_over_def cfg)
  then have "record_of (sweep_expired s) (event_key cfg rvt) = Some (HTicket t)"
    using assms(3) by (simp add: record_of_def)
  then show ?thesis
    using assms(2) existing_after_sweep[OF l, of "event_key cfg rvt"] by (simp add: admit_def Let_def k)
qed

theorem redelivery_joins_witness: "fst (admit example_agent_event example_running) = Inr (HTicket 0)"
proof -
  have "\<not> a_closed example_running" by code_simp
  moreover have "map_of (a_tickets example_running) (event_key example_config example_agent_event) = Some 0" by code_simp
  moreover have "event_key example_config example_agent_event \<notin> a_released example_running" by code_simp
  ultimately show ?thesis using redelivery_joins[OF example_reachable] by blast
qed

section \<open>The queue bound\<close>

definition live_tickets :: "adm \<Rightarrow> string set" where
  "live_tickets s = dom (tickets s) - a_released s"

lemma live_sub_owned: "live_tickets s \<subseteq> owned s"
  by (auto simp: live_tickets_def owned_def)

lemma live_anti: "a_tickets s' = a_tickets s \<Longrightarrow> a_released s \<subseteq> a_released s' \<Longrightarrow> live_tickets s' \<subseteq> live_tickets s"
  by (auto simp: live_tickets_def)

lemma live_sweep: "live_tickets (sweep_expired s) = live_tickets s"
  using expired_keys_released[of s] by (auto simp: live_tickets_def split: if_splits)

lemma live_admission:
  assumes "admission_change s s'" "inv_ledger s"
  shows "live_tickets s' \<subseteq> live_tickets s \<or> int (card (live_tickets s')) \<le> ac_max_queued_total (a_cfg s)"
  using assms(1)
proof cases
  case (change_swept)
  then show ?thesis using live_sweep[of s] by (simp add: live_tickets_def minor_frame)
next
  case (change_enqueued s1 key kind windows)
  have i: "inv_ledger s1" using inv_ledger_minor[OF change_enqueued(2) inv_ledger_sweep[OF assms(2)]] .
  have "live_tickets s' \<subseteq> insert key (owned s1)" unfolding change_enqueued by (auto simp: live_tickets_def owned_def)
  then have "card (live_tickets s') \<le> card (insert key (owned s1))" by (rule card_mono[rotated]) simp
  also have "\<dots> \<le> Suc (card (owned s1))" by (rule card_insert_le_m1) simp_all
  finally show ?thesis
    using change_enqueued(5) inv_ledgerD(6)[OF i] minor_frame(1)[OF change_enqueued(2)] by simp
next
  case (change_recovered r s1 m b)
  then show ?thesis using live_sweep[of s] by (simp add: live_tickets_def)
qed simp

lemma live_step:
  assumes "step s s'" "inv_core s"
  shows "live_tickets s' \<subseteq> live_tickets s \<or> int (card (live_tickets s')) \<le> ac_max_queued_total (a_cfg s)"
  using assms(1)
proof cases
  case (step_admit rvt)
  then show ?thesis using live_admission[OF admit_change] assms(2) by (simp add: inv_core_def)
next
  case (step_admit_script ev)
  then show ?thesis using live_admission[OF admit_script_change] assms(2) by (simp add: inv_core_def)
next
  case (step_recover r)
  then show ?thesis using live_admission[OF recover_change] assms(2) by (simp add: inv_core_def)
next
  case (step_start lk)
  show ?thesis
    by (rule disjI1, unfold step_start, cases rule: lane_start_cases[of lk s]) (auto simp: live_tickets_def split: if_splits)
next
  case (step_poll lk later)
  show ?thesis
    by (rule disjI1, unfold step_poll, cases rule: lane_poll_cases[of lk later s])
      (auto simp: live_tickets_def dest!: try_acquire_frame)
next
  case (step_done lk out)
  show ?thesis
    by (rule disjI1, unfold step_done, cases rule: runner_done_cases[of lk out s]) (auto simp: live_tickets_def)
next
  case (step_cancel_lane lk)
  show ?thesis
    by (rule disjI1, unfold step_cancel_lane, cases rule: cancel_lane_cases[of lk s])
      (auto simp: live_tickets_def Let_def fold_retire_released split: option.splits phase.splits)
next
  case step_close_finish
  have "a_released t \<subseteq> a_released (fold drop_recovered ks t)" for ks t
  proof (induction ks arbitrary: t)
    case (Cons k ks)
    show ?case using Cons.IH[of "drop_recovered k t"] by (auto simp: drop_recovered_def release_subset)
  qed simp
  then show ?thesis
    unfolding step_close_finish by (intro disjI1 live_anti) (fastforce simp: close_finish_def Let_def fold_retire_released)+
next
  case (step_observer key obs)
  show ?thesis
    unfolding step_observer
    by (intro disjI1 live_anti) (auto simp: observer_done_def Let_def release_subset split: observation.split)
next
  case (step_cancel_recovery key)
  show ?thesis
    unfolding step_cancel_recovery
    by (intro disjI1 live_anti) (auto simp: cancel_recovery_def drop_recovered_def Let_def release_subset)
qed (rule disjI1, rule live_anti; simp add: monitor_fire_def runner_started_def close_start_def tick_def drop_lane_def Let_def
  split: option.split bool.split)+

lemma live_bounded:
  assumes "reachable cfg s" "0 \<le> ac_max_queued_total cfg"
  shows "int (card (live_tickets s)) \<le> ac_max_queued_total cfg"
  using assms
proof (induction rule: reachable.induct)
  case (reach_step s s')
  have "card (live_tickets s') \<le> card (live_tickets s)" if "live_tickets s' \<subseteq> live_tickets s"
    using that by (rule card_mono[rotated]) (simp add: live_tickets_def finite_dom_map_of)
  then show ?case
    using live_step[OF reach_step(2) reachable_inv_core[OF reach_step(1)]] reachable_cfg[OF reach_step(1)] reach_step by force
qed (simp add: live_tickets_def init_admission_def)

text \<open>
  C8. The backlog is counted exactly and bounded up to recovered runs. In every reachable state
  \<open>queued_total\<close> is the number of tickets and recovered runs that own capacity, so releases are never
  lost nor counted twice; the tickets among them never exceed \<open>limits.maxQueuedTotal\<close>; and the counter
  exceeds that cap by at most the recovered runs that own capacity, which \<open>recover()\<close> takes in without
  looking at the cap.
\<close>

theorem backlog_bounded:
  assumes "reachable cfg s" "0 \<le> ac_max_queued_total cfg"
  shows "a_queued_total s = int (card (owned s)) \<and> int (card (live_tickets s)) \<le> ac_max_queued_total cfg
    \<and> a_queued_total s \<le> ac_max_queued_total cfg + int (card (dom (recovered s) - a_released s))"
proof -
  have live: "int (card (live_tickets s)) \<le> ac_max_queued_total cfg"
    by (rule live_bounded[OF assms])
  have eq: "a_queued_total s = int (card (owned s))"
    using reachable_inv_core[OF assms(1)] inv_ledgerD(6) by (simp add: inv_core_def)
  have "owned s = live_tickets s \<union> (dom (recovered s) - a_released s)" by (auto simp: owned_def live_tickets_def)
  then have "card (owned s) \<le> card (live_tickets s) + card (dom (recovered s) - a_released s)" by (simp add: card_Un_le)
  then show ?thesis using eq live by simp
qed

theorem backlog_bounded_witness: "a_queued_total example_two = int (card (owned example_two)) \<and> int (card (live_tickets example_two)) \<le> 2"
  using backlog_bounded[OF example_two_reachable] by (simp add: example_config2_def example_config_def)

section \<open>Futures\<close>

lemma finish_heap [simp]: "a_heap (finish lk k t s) = a_heap s"
  by (simp add: finish_def Let_def split: option.split)

lemma admission_heap:
  assumes "admission_change s s'" "t < a_next s"
  shows "a_heap s' t = a_heap s t"
  using assms by cases (auto simp: minor_frame enqueue_heap)

lemma step_heap:
  assumes "step s s'" "inv_core s" "t < a_next s"
  shows "futs_le (a_heap s t) (a_heap s' t) \<and> tk_static (a_heap s' t) = tk_static (a_heap s t)"
  using assms(1)
proof cases
  case (step_admit rvt)
  then show ?thesis using admission_heap[OF admit_change assms(3)] assms(2) by (simp add: inv_core_def)
next
  case (step_admit_script ev)
  then show ?thesis using admission_heap[OF admit_script_change assms(3)] assms(2) by (simp add: inv_core_def)
next
  case (step_recover r)
  then show ?thesis using admission_heap[OF recover_change assms(3)] by simp
next
  case (step_start lk)
  show ?thesis unfolding step_start
  proof (cases rule: lane_start_cases[of lk s])
    case (turn k u q s2)
    have "a_heap s2 = a_heap s" by (simp add: turn(3))
    then show "futs_le (a_heap s t) (a_heap (lane_start lk s) t) \<and> tk_static (a_heap (lane_start lk s) t) = tk_static (a_heap s t)"
      using ops_futs_le(2)[of s2 t u] expire_static[of u _ s2 t] by (simp add: turn(6))
  qed simp
next
  case (step_poll lk later)
  show ?thesis unfolding step_poll
  proof (cases rule: lane_poll_cases[of lk later s])
    case (late k u s1 s2)
    have "a_heap s2 = a_heap s" using acquire_view(4)[OF late(2)] by (simp add: late(3))
    then show "futs_le (a_heap s t) (a_heap (lane_poll lk later s) t) \<and> tk_static (a_heap (lane_poll lk later s) t) = tk_static (a_heap s t)"
      using ops_futs_le(2)[of s2 t u] expire_static[of u _ s2 t] by (simp add: late(4))
  next
    case (acquired k u l s1 s2)
    then show "futs_le (a_heap s t) (a_heap (lane_poll lk later s) t) \<and> tk_static (a_heap (lane_poll lk later s) t) = tk_static (a_heap s t)"
      using acquire_view(4)[OF acquired(4)] by simp
  qed simp_all
next
  case (step_done lk out)
  show ?thesis unfolding step_done by (cases rule: runner_done_cases[of lk out s]) simp_all
next
  case (step_cancel_lane lk)
  show ?thesis unfolding step_cancel_lane
  proof (cases rule: cancel_lane_cases[of lk s])
    case (cancel s0)
    have "a_heap s0 = a_heap s" by (auto simp: cancel(2) split: option.split phase.split)
    then show "futs_le (a_heap s t) (a_heap (cancel_lane lk s) t) \<and> tk_static (a_heap (cancel_lane lk s) t) = tk_static (a_heap s t)"
      using fold_retire_futs_le[of s0 t] by (simp add: cancel(3) Let_def)
  qed simp
next
  case (step_monitor key)
  let ?s = "s\<lparr>a_monitor_expired := insert key (a_monitor_expired s)\<rparr>"
  show ?thesis
    unfolding step_monitor using ops_futs_le(2)[of ?s t] expire_static[of _ _ ?s t]
    by (simp add: monitor_fire_def Let_def split: option.split)
next
  case step_close_finish
  show ?thesis unfolding step_close_finish
    using fold_retire_futs_le[of "s\<lparr>a_monitors := []\<rparr>" t] fold_fail_and_retire_static[where s = "s\<lparr>a_monitors := []\<rparr>" and u = t]
    by (simp add: close_finish_def Let_def)
qed (simp_all add: runner_started_def close_start_def tick_def drop_lane_def split: option.split bool.split)

text \<open>
  No caller is left hanging and none is answered twice. In every reachable state a ticket that gave
  its capacity back, on whatever path, has both futures settled, and so has a recovered run; and no
  step ever changes a future that is settled, nor the identity, routing or deadline of a ticket.
\<close>

theorem futures_settle_once:
  assumes "reachable cfg s"
  shows "(\<forall>k t. map_of (a_tickets s) k = Some t \<and> k \<in> a_released s \<longrightarrow> settled (a_heap s t))
    \<and> (\<forall>k r. map_of (a_recovered s) k = Some r \<and> k \<in> a_released s \<longrightarrow> fut_done (rr_started r) \<and> fut_done (rr_completed r))
    \<and> (\<forall>s' t. step s s' \<and> t < a_next s \<longrightarrow>
         futs_le (a_heap s t) (a_heap s' t) \<and> tk_static (a_heap s' t) = tk_static (a_heap s t))"
  using inv_futuresD[OF reachable_inv_futures[OF assms]] step_heap[OF _ reachable_inv_core[OF assms]] by blast

definition example_done :: adm where
  "example_done = runner_done example_lane (Inr (JInt 7)) (runner_started example_lane example_running)"

lemma example_done_reachable: "reachable example_config example_done"
  unfolding example_done_def by (intro reach_step[OF _ step_done] reach_step[OF _ step_started] example_reachable)

theorem futures_settle_once_witness:
  "settled (a_heap example_done 0) \<and> tk_completed (a_heap example_done 0) = Resolved (JInt 7)"
proof -
  have "map_of (a_tickets example_done) (event_key example_config example_agent_event) = Some 0" by code_simp
  moreover have "event_key example_config example_agent_event \<in> a_released example_done" by code_simp
  moreover have "tk_completed (a_heap example_done 0) = Resolved (JInt 7)" by code_simp
  ultimately show ?thesis using futures_settle_once[OF example_done_reachable] by blast
qed

section \<open>Deadlines\<close>

text \<open>
  A deadline is enforced wherever the ticket stands. In a reachable state of an open admission, a
  live ticket past its deadline that is not running has its futures settled by its own monitor's next
  turn if it is queued, however long the entry ahead of it runs, and by the next turn of the acquire
  loop, which also gives its capacity back, if it waits for permits.
\<close>

theorem deadline_enforced:
  assumes "reachable cfg s" "\<not> a_closed s" "map_of (a_tickets s) k = Some t" "k \<notin> a_released s"
    and "tk_deadline_at (a_heap s t) \<le> a_now s" "t \<notin> running s"
  shows "settled (a_heap (monitor_fire k s) t)
    \<or> (\<exists>lk. cur_of s lk = Some (k, t, Waiting) \<and> settled (a_heap (lane_poll lk later s) t) \<and> k \<in> a_released (lane_poll lk later s))"
proof -
  have l: "inv_lanes s" using reachable_inv_core[OF assms(1)] by (simp add: inv_core_def)
  have f: "inv_futures s" by (rule reachable_inv_futures[OF assms(1)])
  let ?lk = "lane_of (a_cfg s) (tk_kind (a_heap s t))"
  have "(k, t) \<in> set (items_of s ?lk)" by (rule inv_lanesD(7)[OF l assms(2-4)])
  then consider "cur_of s ?lk = Some (k, t, Waiting)" | "cur_of s ?lk = Some (k, t, Running)" | "(k, t) \<in> set (queue_of s ?lk)"
    by (auto simp: items_of_def cur_items_def split: option.splits) (metis phase.exhaust)
  then show ?thesis
  proof cases
    case 1
    then obtain ln where ln: "map_of (a_lanes s) ?lk = Some ln" "ln_current ln = Some (k, t, Waiting)"
      by (auto simp: cur_of_def split: option.splits)
    have "lane_poll ?lk later s = finish ?lk k t (expire t (wait_reason (a_heap s t)) s)"
      using assms(5) ln by (simp add: lane_poll_def Let_def)
    then show ?thesis using 1 ops_settle(2) by auto
  next
    case 2
    then show ?thesis using assms(6) by (auto simp: running_def)
  next
    case 3
    then consider "k \<in> a_monitor_expired s" | "map_of (a_monitors s) k = Some t" using inv_futuresD(3)[OF f] by blast
    then show ?thesis
    proof cases
      case 1
      have "settled (a_heap s t)" by (rule inv_futuresD(2)[OF f assms(3) 1])
      then have "settled (a_heap (monitor_fire k s) t)"
        using step_heap[OF step_monitor reachable_inv_core[OF assms(1)] inv_lanesD(1)[OF l assms(3)]] futs_le_settled by blast
      then show ?thesis ..
    next
      case 2
      then show ?thesis using assms(5) ops_settle(2) by (simp add: monitor_fire_def Let_def)
    qed
  qed
qed

text \<open>The second event of the example, still queued behind the first, at its deadline.\<close>

definition example_late :: adm where
  "example_late = tick 10 example_two"

theorem deadline_enforced_witness: "settled (a_heap (monitor_fire (event_key example_config2 example_second) example_late) 1)"
proof -
  let ?k = "event_key example_config2 example_second"
  have r: "reachable example_config2 example_late"
    unfolding example_late_def by (rule reach_step[OF example_two_reachable step_tick])
  have lanes: "a_lanes example_late = [(example_lane, \<lparr>ln_queue = [(?k, 1)],
      ln_current = Some (event_key example_config2 example_agent_event, 0, Running)\<rparr>)]" by code_simp
  have nr: "1 \<notin> running example_late" using lanes by (auto simp: running_def cur_of_def split: if_splits)
  have c: "\<not> a_closed example_late" by code_simp
  have t: "map_of (a_tickets example_late) ?k = Some 1" by code_simp
  have n: "?k \<notin> a_released example_late" by code_simp
  have d: "tk_deadline_at (a_heap example_late 1) \<le> a_now example_late" by code_simp
  show ?thesis
    using deadline_enforced[OF r c t n d nr, of 0] lanes by (auto simp: cur_of_def split: if_splits)
qed

section \<open>Closing\<close>

text \<open>\<open>close()\<close> run to its end with nothing in between.\<close>

definition close_all :: "adm \<Rightarrow> adm" where
  "close_all s =
     (let s1 = close_start s;
          s2 = fold cancel_recovery (map fst (a_recovered s1)) s1;
          s3 = fold cancel_lane (map fst (a_lanes s2)) s2
      in close_finish s3)"

lemma fold_reachable:
  assumes "\<And>x s. step s (f x s)" "reachable cfg s"
  shows "reachable cfg (fold f xs s)"
  using assms(2) by (induction xs arbitrary: s) (auto intro: reach_step assms(1))

lemma fst_set_dict_del: "fst ` set (dict_del d k) = fst ` set d - {k}"
  by (auto simp: dict_del_def)

lemma dict_del_absent: "map_of d k = None \<Longrightarrow> dict_del d k = d"
  by (auto simp: dict_del_def map_of_eq_None_iff intro: filter_True)

lemma cancel_lane_lanes: "a_closed s \<Longrightarrow> a_lanes (cancel_lane lk s) = dict_del (a_lanes s) lk \<and> a_closed (cancel_lane lk s)
    \<and> a_recovery_tasks (cancel_lane lk s) = a_recovery_tasks s"
  by (cases "map_of (a_lanes s) lk")
    (auto simp: cancel_lane_def Let_def dict_del_absent fold_fail_and_retire_frame split: option.split)

lemma fold_cancel_lane_lanes:
  assumes "a_closed s"
  shows "fst ` set (a_lanes (fold cancel_lane lks s)) = fst ` set (a_lanes s) - set lks
    \<and> a_closed (fold cancel_lane lks s) \<and> a_recovery_tasks (fold cancel_lane lks s) = a_recovery_tasks s"
  using assms
proof (induction lks arbitrary: s)
  case (Cons lk lks)
  then show ?case using cancel_lane_lanes[OF Cons.prems, of lk] Cons.IH[of "cancel_lane lk s"] by (auto simp: fst_set_dict_del)
qed simp

lemma fold_cancel_recovery_tasks:
  assumes "a_closed s"
  shows "a_recovery_tasks (fold cancel_recovery ks s) = a_recovery_tasks s - set ks \<and> a_closed (fold cancel_recovery ks s)"
  using assms
proof (induction ks arbitrary: s)
  case (Cons k ks)
  have "a_recovery_tasks (cancel_recovery k s) = a_recovery_tasks s - {k}"
    using Cons.prems by (auto simp: cancel_recovery_def Let_def)
  then show ?case using Cons.IH[of "cancel_recovery k s"] Cons.prems by auto
qed simp

lemma fold_drop_released: "a_released (fold drop_recovered ks s) = a_released s \<union> set ks"
  by (induction ks arbitrary: s) (auto simp: drop_recovered_def release_subset)

text \<open>
  C9. Closing accounts for everything. From any reachable state \<open>close()\<close> ends in a reachable state with
  no lane, monitor or recovery task left, nothing owning capacity, every ticket and every recovered
  run settled, every permit back in its pool, and no event admitted afterwards.
\<close>

theorem close_drains:
  assumes "reachable cfg s" and "s' = close_all s"
  shows "reachable cfg s' \<and> a_lanes s' = [] \<and> a_recovery_tasks s' = {} \<and> a_queued_total s' = 0
    \<and> (\<forall>k t. map_of (a_tickets s') k = Some t \<longrightarrow> settled (a_heap s' t))
    \<and> (\<forall>k r. map_of (a_recovered s') k = Some r \<longrightarrow> fut_done (rr_started r) \<and> fut_done (rr_completed r))
    \<and> a_global s' = ac_max_concurrent_invocations cfg \<and> a_script s' = ac_max_concurrent_scripts cfg
    \<and> (\<forall>c v cap. map_of (a_channel_sems s') c = Some (v, cap) \<longrightarrow> v = cap)
    \<and> (\<forall>w v cap. map_of (a_workspace_sems s') w = Some (v, cap) \<longrightarrow> v = cap)
    \<and> fst (admit rvt s') = Inl AdmissionClosedError"
proof -
  define s1 where "s1 = close_start s"
  define s2 where "s2 = fold cancel_recovery (map fst (a_recovered s1)) s1"
  define s3 where "s3 = fold cancel_lane (map fst (a_lanes s2)) s2"
  have s': "s' = close_finish s3" by (simp add: assms(2) close_all_def s1_def s2_def s3_def Let_def)
  have r1: "reachable cfg s1" unfolding s1_def by (rule reach_step[OF assms(1) step_close])
  have r2: "reachable cfg s2" unfolding s2_def by (rule fold_reachable[OF step_cancel_recovery r1])
  have r3: "reachable cfg s3" unfolding s3_def by (rule fold_reachable[OF step_cancel_lane r2])
  have r: "reachable cfg s'" unfolding s' by (rule reach_step[OF r3 step_close_finish])
  have "a_recovery_tasks s1 \<subseteq> fst ` set (a_recovered s1)"
    using inv_ledgerD(8) reachable_inv_core[OF r1] by (auto simp: inv_core_def dom_map_of_conv_image_fst)
  then have c2: "a_closed s2" "a_recovery_tasks s2 = {}"
    using fold_cancel_recovery_tasks[of s1] by (auto simp: s2_def s1_def close_start_def)
  then have c3: "a_closed s3" "a_recovery_tasks s3 = {}" "a_lanes s3 = []"
    using fold_cancel_lane_lanes[of s2 "map fst (a_lanes s2)"] by (auto simp: s3_def)
  have f: "a_lanes s' = []" "a_recovery_tasks s' = {}" "a_closed s'" "a_tickets s' = a_tickets s3"
    using c3 by (simp_all add: s' close_finish_def Let_def)
  have rel: "dom (tickets s') \<union> dom (recovered s') \<subseteq> a_released s'"
  proof -
    have "dom (recovered (fold drop_recovered ks u)) = dom (recovered u)" for ks u
      by (induction ks arbitrary: u) simp_all
    then show ?thesis
      using c3 by (auto simp: s' close_finish_def Let_def fold_drop_released fold_retire_released dom_map_of_conv_image_fst)
  qed
  then have own: "owned s' = {}" by (auto simp: owned_def)
  have q: "a_queued_total s' = 0" using inv_ledgerD(6) reachable_inv_core[OF r] own by (simp add: inv_core_def)
  have run: "running s' = {}" using f(1) by (simp add: running_def cur_of_def)
  have cnt: "inv_counts {} s'" using reachable_inv_permits[OF r] run by (simp add: inv_permits_def)
  have cfg: "a_cfg s' = cfg" by (rule reachable_cfg[OF r])
  note D = inv_countsD[OF cnt] and F = inv_futuresD[OF reachable_inv_futures[OF r]]
  have sem: "v = cap" if "map_of (a_channel_sems s') c = Some (v, cap) \<or> map_of (a_workspace_sems s') c = Some (v, cap)" for c v cap
    using that D(6)[of c v cap] D(7)[of c v cap] by auto
  have t: "settled (a_heap s' t)" if "tickets s' k = Some t" for k t using F(1)[OF that] rel that by auto
  have rr: "fut_done (rr_started x) \<and> fut_done (rr_completed x)" if "recovered s' k = Some x" for k x
    using F(4)[OF that] F(5)[OF that] rel that by auto
  have g: "a_global s' = ac_max_concurrent_invocations cfg" "a_script s' = ac_max_concurrent_scripts cfg"
    using D(4,5) by (simp_all add: cfg option.map_ident)
  have "fst (admit rvt s') = Inl AdmissionClosedError" by (simp add: admit_def f(3))
  then show ?thesis using r f(1,2) q t rr g sem by blast
qed

theorem close_drains_witness: "a_queued_total (close_all example_two) = 0 \<and> a_global (close_all example_two) = 2"
  using close_drains[OF example_two_reachable refl, of example_agent_event] by (simp add: example_config2_def)

end
