(* ===== verification/Admission_Rate.thy ===== *)
theory Admission_Rate
  imports Admission_Props
begin

text \<open>
  Rate limits: the in-memory windows of \<open>_check_rate\<close> forget only admissions an hour old, so in every
  reachable state at most \<open>cap\<close> of the tickets that count towards a limit were admitted in the last
  hour. The ticket store is the history the windows are compared with.
\<close>

section \<open>History\<close>

text \<open>The limits a ticket counts towards.\<close>

definition kind_checks :: "adm_config \<Rightarrow> ticket_kind \<Rightarrow> (string list \<times> int) list" where
  "kind_checks cfg kind = (case kind of
      AgentTicket w sref r \<Rightarrow> (case rate_checks cfg r of Inr cs \<Rightarrow> cs | Inl _ \<Rightarrow> [])
    | ScriptTicket _ \<Rightarrow> [])"

definition admit_time :: "adm_config \<Rightarrow> ticket \<Rightarrow> instant" where
  "admit_time cfg tk = tk_deadline_at tk - ac_max_invocation_seconds cfg"

definition counts_to :: "adm_config \<Rightarrow> string list \<Rightarrow> ticket \<Rightarrow> bool" where
  "counts_to cfg ck tk \<longleftrightarrow> ck \<in> fst ` set (kind_checks cfg (tk_kind tk))"

definition admit_times :: "adm \<Rightarrow> string list \<Rightarrow> instant list" where
  "admit_times s ck = map (\<lambda>t. admit_time (a_cfg s) (a_heap s t)) (filter (\<lambda>t. counts_to (a_cfg s) ck (a_heap s t)) [0..<a_next s])"

definition recent :: "adm \<Rightarrow> instant \<Rightarrow> bool" where
  "recent s x \<longleftrightarrow> a_now s - x < rate_window"

lemma distinct_checks: "rate_checks cfg r = Inr cs \<Longrightarrow> distinct (map fst cs)"
  by (auto simp: rate_checks_def distinct_map inj_on_def set_zip distinct_zipI1 dest!: nat_str_inject split: option.splits if_splits)

lemma checks_cap:
  assumes "rate_checks cfg r = Inr cs" "rate_checks cfg r' = Inr cs'" "(ck, cap) \<in> set cs" "(ck, cap') \<in> set cs'"
  shows "cap = cap'"
  using assms
  by (auto simp: rate_checks_def set_zip dest!: nat_str_inject split: option.splits if_splits)

lemma kind_checks_cap:
  "(ck, cap) \<in> set (kind_checks cfg k) \<Longrightarrow> (ck, cap') \<in> set (kind_checks cfg k') \<Longrightarrow> cap = cap'"
  by (cases k; cases k') (auto simp: kind_checks_def dest: checks_cap[OF sym sym] split: sum.splits)

lemma distinct_kind_checks: "distinct (map fst (kind_checks cfg k))"
  using distinct_checks by (auto simp: kind_checks_def split: ticket_kind.split sum.split)

section \<open>The invariant\<close>

definition inv_rate :: "adm \<Rightarrow> bool" where
  "inv_rate s \<longleftrightarrow>
     distinct (map fst (a_rate_admits s)) \<and> (\<forall>ck. sorted (admit_times s ck)) \<and> (\<forall>ck. \<forall>x \<in> set (admit_times s ck). x \<le> a_now s)
     \<and> (\<forall>ck. \<exists>old. admit_times s ck = old @ admits_of s ck \<and> (\<forall>x \<in> set old. \<not> recent s x))
     \<and> (\<forall>ck cap t. t < a_next s \<and> (ck, cap) \<in> set (kind_checks (a_cfg s) (tk_kind (a_heap s t))) \<longrightarrow>
          int (length (filter (recent s) (admit_times s ck))) \<le> cap)"

lemma inv_rate_cap:
  "inv_rate s \<Longrightarrow> t < a_next s \<Longrightarrow> (ck, cap) \<in> set (kind_checks (a_cfg s) (tk_kind (a_heap s t))) \<Longrightarrow>
   int (length (filter (recent s) (admit_times s ck))) \<le> cap"
  unfolding inv_rate_def by blast

lemma inv_rate_init: "inv_rate (init_admission cfg now)"
  by (simp add: inv_rate_def init_admission_def admit_times_def admits_of_def)

lemma times_cong:
  assumes "a_next s' = a_next s" "a_cfg s' = a_cfg s" "\<And>t. t < a_next s \<Longrightarrow> tk_static (a_heap s' t) = tk_static (a_heap s t)"
  shows "admit_times s' = admit_times s"
proof
  fix ck
  note k = tk_static_eqD[OF assms(3)]
  have "filter (\<lambda>t. counts_to (a_cfg s) ck (a_heap s' t)) [0..<a_next s] = filter (\<lambda>t. counts_to (a_cfg s) ck (a_heap s t)) [0..<a_next s]"
    by (rule filter_cong) (simp_all add: counts_to_def k)
  then show "admit_times s' ck = admit_times s ck" by (simp add: admit_times_def assms(1,2) admit_time_def k)
qed

text \<open>Time passes, the windows stay.\<close>

lemma inv_rate_later:
  assumes inv: "inv_rate s" and same: "a_next s' = a_next s" "a_cfg s' = a_cfg s"
      "\<And>t. t < a_next s \<Longrightarrow> tk_static (a_heap s' t) = tk_static (a_heap s t)" "a_rate_admits s' = a_rate_admits s"
    and now: "a_now s \<le> a_now s'"
  shows "inv_rate s'"
proof -
  have t: "admit_times s' = admit_times s" by (rule times_cong[OF same(1-3)])
  have ad: "admits_of s' = admits_of s" by (simp add: admits_of_def same(4) fun_eq_iff)
  have r: "recent s' x \<Longrightarrow> recent s x" for x using now by (simp add: recent_def)
  have len: "length (filter (recent s') xs) \<le> length (filter (recent s) xs)" for xs
    using r by (induction xs) auto
  show ?thesis
    unfolding inv_rate_def t ad same(1,2)
  proof (intro conjI allI impI)
    fix ck show "\<exists>old. admit_times s ck = old @ admits_of s ck \<and> (\<forall>x\<in>set old. \<not> recent s' x)"
      using inv r unfolding inv_rate_def by meson
  next
    fix ck cap t assume a: "t < a_next s \<and> (ck, cap) \<in> set (kind_checks (a_cfg s) (tk_kind (a_heap s' t)))"
    then have "int (length (filter (recent s) (admit_times s ck))) \<le> cap"
      using inv_rate_cap[OF inv, of t] tk_static_eqD(1)[OF same(3), of t] by simp
    then show "int (length (filter (recent s') (admit_times s ck))) \<le> cap" using len[of "admit_times s ck"] by linarith
  qed (use inv now same(4) in \<open>auto simp: inv_rate_def intro: order_trans\<close>)
qed

text \<open>Windows may forget what is an hour old.\<close>

lemma inv_rate_forget:
  assumes inv: "inv_rate s" and same: "a_next s' = a_next s" "a_cfg s' = a_cfg s" "a_heap s' = a_heap s" "a_now s' = a_now s"
      "distinct (map fst (a_rate_admits s'))"
    and drop: "\<And>ck. \<exists>old. admits_of s ck = old @ admits_of s' ck \<and> (\<forall>x \<in> set old. \<not> recent s x)"
  shows "inv_rate s'"
proof -
  have t: "admit_times s' = admit_times s" by (rule times_cong) (simp_all add: same)
  have r: "recent s' = recent s" by (simp add: recent_def same fun_eq_iff)
  have "\<exists>old. admit_times s ck = old @ admits_of s' ck \<and> (\<forall>x\<in>set old. \<not> recent s x)" for ck
  proof -
    obtain o1 where "admit_times s ck = o1 @ admits_of s ck" "\<forall>x\<in>set o1. \<not> recent s x"
      using inv unfolding inv_rate_def by blast
    moreover obtain o2 where "admits_of s ck = o2 @ admits_of s' ck" "\<forall>x\<in>set o2. \<not> recent s x" using drop by blast
    ultimately show ?thesis by (intro exI[of _ "o1 @ o2"]) auto
  qed
  then show ?thesis using inv same(5) unfolding inv_rate_def t r same(1-4) by blast
qed

lemma inv_rate_trim:
  assumes "inv_rate s"
  shows "inv_rate (trim_window k s)"
proof (rule inv_rate_forget[OF assms])
  fix ck
  have "admits_of s k = takeWhile (\<lambda>x. a_now s - x \<ge> rate_window) (admits_of s k) @ admits_of (trim_window k s) k"
    by (simp add: admits_of_def trim_window_def split: option.split)
  moreover have "\<forall>x\<in>set (takeWhile (\<lambda>x. a_now s - x \<ge> rate_window) (admits_of s k)). \<not> recent s x"
    using set_takeWhileD by (fastforce simp: recent_def)
  moreover have "admits_of (trim_window k s) ck = admits_of s ck" if "ck \<noteq> k"
    using that by (simp add: admits_of_def trim_window_def)
  ultimately show "\<exists>old. admits_of s ck = old @ admits_of (trim_window k s) ck \<and> (\<forall>x\<in>set old. \<not> recent s x)"
    by (cases "ck = k") (blast, auto)
next
  show "distinct (map fst (a_rate_admits (trim_window k s)))" using assms by (simp add: trim_window_def inv_rate_def)
qed simp_all

lemma inv_rate_alarm: "inv_rate s \<Longrightarrow> inv_rate (raise_alarm m b s)"
  by (erule inv_rate_later) simp_all

lemma inv_rate_checks: "inv_rate s \<Longrightarrow> inv_rate (snd (run_rate_checks cs s))"
proof (induction cs arbitrary: s)
  case (Cons c cs)
  then show ?case
    using inv_rate_trim inv_rate_alarm by (cases c) (simp add: Let_def)
qed simp

lemma map_of_filter_none_or_same:
  "distinct (map fst d) \<Longrightarrow> map_of (filter P d) k = (case map_of d k of None \<Rightarrow> None | Some v \<Rightarrow> if P (k, v) then Some v else None)"
  by (induction d) (auto split: option.splits simp: map_of_eq_None_iff)

lemma inv_rate_sweep:
  assumes inv: "inv_rate s"
  shows "inv_rate (sweep_expired s)"
proof (rule inv_rate_forget[OF inv])
  let ?P = "\<lambda>(k, admits). admits \<noteq> [] \<and> a_now s - last admits < rate_window"
  have ra: "a_rate_admits (sweep_expired s) = filter ?P (a_rate_admits s)"
    by (simp add: sweep_expired_def Let_def)
  have d: "distinct (map fst (a_rate_admits s))" using inv by (simp add: inv_rate_def)
  show "distinct (map fst (a_rate_admits (sweep_expired s)))" unfolding ra using d by (simp add: distinct_map_filter)
  fix ck
  have "sorted (admits_of s ck)"
    using inv unfolding inv_rate_def by (metis sorted_append)
  then have old: "\<not> recent s x" if "x \<in> set (admits_of s ck)" "rate_window \<le> a_now s - last (admits_of s ck)" for x
    using that sorted_wrt_nth_less[of "(\<le>)" "admits_of s ck"] 
    by (cases "admits_of s ck" rule: rev_cases) (auto simp: recent_def sorted_append)
  show "\<exists>old. admits_of s ck = old @ admits_of (sweep_expired s) ck \<and> (\<forall>x\<in>set old. \<not> recent s x)"
  proof (cases "admits_of s ck \<noteq> [] \<and> a_now s - last (admits_of s ck) < rate_window")
    case True
    then have "admits_of (sweep_expired s) ck = admits_of s ck"
      by (auto simp: admits_of_def ra map_of_filter_none_or_same[OF d] split: option.splits)
    then show ?thesis by auto
  next
    case False
    then have "admits_of (sweep_expired s) ck = []"
      by (auto simp: admits_of_def ra map_of_filter_none_or_same[OF d] split: option.splits)
    moreover have "\<forall>x\<in>set (admits_of s ck). \<not> recent s x" using False old by fastforce
    ultimately show ?thesis by auto
  qed
qed simp_all

section \<open>A new ticket\<close>

lemma fold_append_admits:
  assumes "distinct ws"
  shows "admits_of (fold append_admit ws s) ck = admits_of s ck @ (if ck \<in> set ws then [a_now s] else [])"
  using assms
proof (induction ws arbitrary: s)
  case (Cons w ws)
  have "admits_of (append_admit w s) ck = admits_of s ck @ (if ck = w then [a_now s] else [])"
    by (auto simp: append_admit_def admits_of_def)
  then show ?case using Cons by auto
qed simp

lemma fold_append_distinct: "distinct (map fst (a_rate_admits s)) \<Longrightarrow> distinct (map fst (a_rate_admits (fold append_admit ws s)))"
  by (induction ws arbitrary: s) (simp_all add: append_admit_def)

lemma enqueue_rate:
  "a_rate_admits (snd (enqueue k kind lk ws s)) = a_rate_admits (fold append_admit ws
     (s\<lparr>a_heap := a_heap (snd (enqueue k kind lk ws s)), a_next := Suc (a_next s), a_tickets := dict_set (a_tickets s) k (a_next s),
        a_queued_total := a_queued_total s + 1\<rparr>))"
  by (simp add: enqueue_def Let_def)

lemma inv_rate_enqueue:
  assumes inv: "inv_rate s" and ws: "ws = map fst (kind_checks (a_cfg s) kind)"
    and room: "\<And>ck cap. (ck, cap) \<in> set (kind_checks (a_cfg s) kind) \<Longrightarrow> int (length (admits_of s ck)) < cap"
  shows "inv_rate (snd (enqueue k kind lk ws s))" (is "inv_rate ?s")
proof -
  have dist: "distinct ws" unfolding ws by (rule distinct_kind_checks)
  have r: "recent ?s = recent s" by (simp add: recent_def fun_eq_iff)
  have hit: "counts_to (a_cfg s) ck (a_heap ?s (a_next s)) \<longleftrightarrow> ck \<in> set ws" for ck
    by (simp add: counts_to_def enqueue_heap ws)
  have t: "admit_times ?s ck = admit_times s ck @ (if ck \<in> set ws then [a_now s] else [])" for ck
  proof -
    have "filter (\<lambda>t. counts_to (a_cfg s) ck (a_heap ?s t)) [0..<a_next s] = filter (\<lambda>t. counts_to (a_cfg s) ck (a_heap s t)) [0..<a_next s]"
      by (rule filter_cong) (simp_all add: enqueue_heap)
    moreover have "map (\<lambda>t. admit_time (a_cfg s) (a_heap ?s t)) (filter P [0..<a_next s])
        = map (\<lambda>t. admit_time (a_cfg s) (a_heap s t)) (filter P [0..<a_next s])" for P
      by (rule map_cong) (auto simp: enqueue_heap)
    moreover have "admit_time (a_cfg s) (a_heap ?s (a_next s)) = a_now s" by (simp add: admit_time_def enqueue_heap)
    ultimately show ?thesis by (simp add: admit_times_def hit)
  qed
  have ad: "admits_of ?s ck = admits_of s ck @ (if ck \<in> set ws then [a_now s] else [])" for ck
    using fold_append_admits[OF dist, of _ ck] by (simp add: admits_of_def enqueue_rate)
  note D = inv[unfolded inv_rate_def]
  have old: "\<exists>old. admit_times s ck = old @ admits_of s ck \<and> (\<forall>x\<in>set old. \<not> recent s x)" for ck using D by blast
  have few: "int (length (filter (recent s) (admit_times s ck))) \<le> int (length (admits_of s ck))" for ck
    using old[of ck] by (auto simp: filter_empty_conv[THEN iffD2])
  show ?thesis
    unfolding inv_rate_def r
  proof (intro conjI allI impI)
    show "distinct (map fst (a_rate_admits ?s))"
      unfolding enqueue_rate by (rule fold_append_distinct) (use D in simp)
    show "sorted (admit_times ?s ck)" for ck using D by (simp add: t sorted_append)
    show "\<forall>x\<in>set (admit_times ?s ck). x \<le> a_now ?s" for ck using D by (auto simp: t)
    show "\<exists>old. admit_times ?s ck = old @ admits_of ?s ck \<and> (\<forall>x\<in>set old. \<not> recent s x)" for ck
      using old[of ck] by (auto simp: t ad)
    fix ck cap u assume a: "u < a_next ?s \<and> (ck, cap) \<in> set (kind_checks (a_cfg ?s) (tk_kind (a_heap ?s u)))"
    show "int (length (filter (recent s) (admit_times ?s ck))) \<le> cap"
    proof (cases "ck \<in> set ws")
      case True
      then obtain cap' where c: "(ck, cap') \<in> set (kind_checks (a_cfg s) kind)" by (auto simp: ws)
      have "cap = cap'" using kind_checks_cap[OF _ c, of cap "tk_kind (a_heap ?s u)"] a by simp
      then show ?thesis using room[OF c] few[of ck] by (auto simp: t True)
    next
      case False
      then have "u \<noteq> a_next s" using a hit[of ck] by (force simp: counts_to_def)
      then have "u < a_next s" "a_heap ?s u = a_heap s u" using a by (auto simp: enqueue_heap)
      then show ?thesis using a False inv_rate_cap[OF inv, of u ck cap] by (simp add: t)
    qed
  qed
qed

section \<open>Every step\<close>

lemma trim_shorter: "length (admits_of (trim_window k s) ck) \<le> length (admits_of s ck)"
  by (simp add: trim_window_def admits_of_def length_dropWhile_le split: option.split)

lemma checks_shorter: "length (admits_of (snd (run_rate_checks cs s)) ck) \<le> length (admits_of s ck)"
proof (induction cs arbitrary: s)
  case (Cons c cs)
  obtain k cap where c: "c = (k, cap)" by fastforce
  have "admits_of (raise_alarm m b s') ck = admits_of s' ck" for m b s' by (simp add: admits_of_def)
  then show ?case
    using Cons.IH[of "trim_window k s"] trim_shorter[of k s ck] by (auto simp: c Let_def intro: order_trans)
qed simp

lemma checks_room:
  assumes "run_rate_checks cs s = (Inr u, s')" "(ck, cap) \<in> set cs"
  shows "int (length (admits_of s' ck)) < cap"
  using assms
proof (induction cs arbitrary: s)
  case (Cons c cs)
  obtain k c' where c: "c = (k, c')" by fastforce
  have lt: "int (length (admits_of (trim_window k s) k)) < c'" and rest: "run_rate_checks cs (trim_window k s) = (Inr u, s')"
    using Cons.prems(1) by (auto simp: c Let_def split: if_splits)
  show ?case
  proof (cases "(ck, cap) \<in> set cs")
    case False
    then have "ck = k" "cap = c'" using Cons.prems(2) c by auto
    then show ?thesis using lt checks_shorter[of cs "trim_window k s" k] rest by simp
  qed (use Cons.IH rest in blast)
qed simp

lemma admits_cong: "a_rate_admits s' = a_rate_admits s \<Longrightarrow> admits_of s' = admits_of s"
  by (simp add: admits_of_def fun_eq_iff)

lemma inv_rate_admit:
  assumes "inv_ledger s" "inv_rate s"
  shows "inv_rate (snd (admit rvt s))"
proof (cases "a_closed s")
  case False
  define s1 where "s1 = sweep_expired s"
  define key where "key = dedup_key s1 (re_channel rvt) (re_event_id rvt)"
  have ex: "existing_ticket key s1 = (record_of s1 key, s1)"
    unfolding s1_def by (rule existing_after_sweep[OF assms(1)])
  have i1: "inv_rate s1" unfolding s1_def by (rule inv_rate_sweep[OF assms(2)])
  note [simp] = False s1_def[symmetric] key_def[symmetric] ex
  show ?thesis
  proof (cases "record_of s1 key")
    case None
    show ?thesis
    proof (cases "rate_checks (a_cfg s1) rvt")
      case (Inr checks)
      obtain res s3 where r: "run_rate_checks checks s1 = (res, s3)" by fastforce
      have i3: "inv_rate s3" using inv_rate_checks[OF i1, of checks] r by simp
      have cfg: "a_cfg s3 = a_cfg s1" using run_rate_checks_frame(1)[of checks s1] r by simp
      have kc: "kind_checks (a_cfg s3) (AgentTicket w sref rvt) = checks" for w sref
        using Inr by (simp add: kind_checks_def cfg)
      have "inv_rate (snd (enqueue key (AgentTicket w sref rvt) lk (map fst checks) s3))" if "res = Inr u" for w sref lk u
        by (rule inv_rate_enqueue[OF i3]) (use checks_room[of checks s1 u s3] r that in \<open>auto simp: kc\<close>)
      then show ?thesis
        using None Inr r i3 inv_rate_alarm[OF i3] by (cases res) (simp_all add: admit_def Let_def case_prod_beta)
    qed (simp add: admit_def Let_def None i1)
  next
    case (Some h)
    then show ?thesis by (cases h) (simp_all add: admit_def Let_def i1 inv_rate_alarm)
  qed
qed (simp add: admit_def assms)

lemma inv_rate_admit_script:
  assumes "inv_ledger s" "inv_rate s"
  shows "inv_rate (snd (admit_script ev s))"
proof (cases "a_closed s")
  case False
  define s1 where "s1 = sweep_expired s"
  define key where "key = dedup_key s1 (ev_channel ev) (ev_id ev)"
  have ex: "existing_ticket key s1 = (record_of s1 key, s1)"
    unfolding s1_def by (rule existing_after_sweep[OF assms(1)])
  have i1: "inv_rate s1" unfolding s1_def by (rule inv_rate_sweep[OF assms(2)])
  have "inv_rate (snd (enqueue key (ScriptTicket ev) lk [] s1))" for lk
    by (rule inv_rate_enqueue[OF i1]) (simp_all add: kind_checks_def)
  then show ?thesis
    using False ex i1 inv_rate_alarm[OF i1]
    by (simp add: admit_script_def Let_def case_prod_beta s1_def[symmetric] key_def[symmetric] split: option.split handle.split)
qed (simp add: admit_script_def assms)

lemma inv_rate_recover:
  assumes "inv_rate s"
  shows "inv_rate (snd (recover r s))"
proof -
  have i: "inv_rate (sweep_expired s)" by (rule inv_rate_sweep[OF assms])
  have "inv_rate (raise_alarm m b (sweep_expired s))" for m b by (rule inv_rate_alarm[OF i])
  moreover have "inv_rate (snd (recover r s))" if "snd (recover r s) = raise_alarm m b (add_recovered r (sweep_expired s))" for m b
    using i by (rule inv_rate_later) (simp_all add: that)
  ultimately show ?thesis
    using assms i
    by (cases "a_closed s") (auto simp: recover_def Let_def add_recovered_def simp del: sweep_fields split: option.split)
qed

lemma inv_rate_step:
  assumes st: "step s s'" and core: "inv_core s" and inv: "inv_rate s"
  shows "inv_rate s'"
proof -
  have quiet: ?thesis if "a_next s' = a_next s" "a_rate_admits s' = a_rate_admits s" "a_now s \<le> a_now s'"
    using inv that step_cfg[OF st] step_heap[OF st core] by (intro inv_rate_later[OF inv]) auto
  show ?thesis using st
  proof cases
    case (step_admit rvt)
    then show ?thesis using inv_rate_admit core inv by (simp add: inv_core_def)
  next
    case (step_admit_script ev)
    then show ?thesis using inv_rate_admit_script core inv by (simp add: inv_core_def)
  next
    case (step_recover r)
    then show ?thesis using inv_rate_recover inv by simp
  next
    case (step_start lk)
    show ?thesis by (rule quiet; unfold step_start, cases rule: lane_start_cases[of lk s]) simp_all
  next
    case (step_poll lk later)
    show ?thesis
      by (rule quiet; unfold step_poll, cases rule: lane_poll_cases[of lk later s]) (auto dest!: try_acquire_frame)
  next
    case (step_done lk out)
    show ?thesis by (rule quiet; unfold step_done, cases rule: runner_done_cases[of lk out s]) simp_all
  next
    case (step_cancel_lane lk)
    show ?thesis
      by (rule quiet; unfold step_cancel_lane, cases rule: cancel_lane_cases[of lk s])
        (auto simp: Let_def split: option.splits phase.splits)
  qed (rule quiet; simp add: monitor_fire_def runner_started_def close_start_def close_finish_def tick_def drop_lane_def Let_def
    split: option.split bool.split)+
qed

lemma reachable_inv_rate: "reachable cfg s \<Longrightarrow> inv_rate s"
  by (induction rule: reachable.induct) (auto simp: inv_rate_init intro: inv_rate_step reachable_inv_core)

text \<open>
  C10. Rate limits hold over every sliding hour. At any reachable moment, for every limit a ticket
  counts towards (the channel's \<open>maxPerHour\<close>, or \<open>perKey\<close> entry \<open>i\<close> with the ticket's rendered key), at most
  the limit's cap of all tickets ever admitted under that limit were admitted within the last hour,
  although the windows are trimmed and swept.
\<close>

theorem rate_limit_window:
  assumes "reachable cfg s" "t < a_next s" "(ck, cap) \<in> set (kind_checks cfg (tk_kind (a_heap s t)))"
  shows "int (card {u. u < a_next s \<and> counts_to cfg ck (a_heap s u) \<and> a_now s - admit_time cfg (a_heap s u) < 3600}) \<le> cap"
proof -
  have cfg: "a_cfg s = cfg" by (rule reachable_cfg[OF assms(1)])
  let ?P = "\<lambda>u. counts_to cfg ck (a_heap s u) \<and> a_now s - admit_time cfg (a_heap s u) < 3600"
  have "length (filter (recent s) (admit_times s ck)) = length (filter ?P [0..<a_next s])"
    by (simp add: admit_times_def cfg filter_map o_def recent_def rate_window_def conj_commute)
  also have "\<dots> = card (set (filter ?P [0..<a_next s]))" by (rule distinct_card[symmetric]) simp
  also have "set (filter ?P [0..<a_next s]) = {u. u < a_next s \<and> ?P u}" by auto
  finally show ?thesis
    using inv_rate_cap[OF reachable_inv_rate[OF assms(1)] assms(2), of ck cap] assms(3) cfg by simp
qed

theorem rate_limit_window_witness:
  "int (card {u. u < a_next example_running \<and> counts_to example_config [''ci''] (a_heap example_running u)
     \<and> a_now example_running - admit_time example_config (a_heap example_running u) < 3600}) \<le> 1"
proof -
  have "0 < a_next example_running" by code_simp
  moreover have "([''ci''], 1) \<in> set (kind_checks example_config (tk_kind (a_heap example_running 0)))" by code_simp
  ultimately show ?thesis by (rule rate_limit_window[OF example_reachable])
qed

end
