(* ===== verification/Bounded_Cache.thy ===== *)
theory Bounded_Cache
  imports Prelude
begin

text \<open>
  \<open>storage/cache.py\<close>: the bounded, checksummed read cache. The directory's published entries are a list
  in order of modification time, oldest first; reading touches an entry, publishing replaces it, both
  move it to the end. SHA-256 is a parameter. The lock makes each call atomic; private temporary files
  never count as entries, so they do not appear.
\<close>

type_synonym entry = "string \<times> string"

record bcache =
  bc_entries :: "entry list"
  bc_max_bytes :: nat

definition cache_key :: "(string \<Rightarrow> string) \<Rightarrow> string \<Rightarrow> int \<Rightarrow> string" where
  "cache_key sha registry_key version = sha (registry_key @ ''@v'' @ int_str version)"

definition unlink :: "string \<Rightarrow> bcache \<Rightarrow> bcache" where
  "unlink name c = c\<lparr>bc_entries := dict_del (bc_entries c) name\<rparr>"

definition cache_get :: "(string \<Rightarrow> string) \<Rightarrow> string \<Rightarrow> int \<Rightarrow> string \<Rightarrow> bcache \<Rightarrow> string option \<times> bcache" where
  "cache_get sha rkey version expected c =
     (let name = cache_key sha rkey version in
      case map_of (bc_entries c) name of
        None \<Rightarrow> (None, c)
      | Some data \<Rightarrow>
          if length data > bc_max_bytes c then (None, unlink name c)
          else if sha data \<noteq> expected then (None, unlink name c)
          else (Some data, c\<lparr>bc_entries := dict_del (bc_entries c) name @ [(name, data)]\<rparr>))"

definition total_bytes :: "entry list \<Rightarrow> nat" where
  "total_bytes es = sum_list (map (length \<circ> snd) es)"

text \<open>\<open>_evict_over_budget\<close>: the loop over the entries, oldest first, with what is left so far.\<close>

fun evict :: "nat \<Rightarrow> string \<Rightarrow> nat \<Rightarrow> entry list \<Rightarrow> entry list" where
  "evict limit keep tot [] = []"
| "evict limit keep tot ((n, d) # es) =
     (if tot \<le> limit then (n, d) # es
      else if n = keep then (n, d) # evict limit keep tot es
      else evict limit keep (tot - length d) es)"

definition cache_put :: "(string \<Rightarrow> string) \<Rightarrow> string \<Rightarrow> int \<Rightarrow> string \<Rightarrow> bcache \<Rightarrow> bcache" where
  "cache_put sha rkey version data c =
     (if length data > bc_max_bytes c then c
      else let name = cache_key sha rkey version;
               es = dict_del (bc_entries c) name @ [(name, data)]
           in c\<lparr>bc_entries := evict (bc_max_bytes c) name (total_bytes es) es\<rparr>)"

section \<open>Eviction\<close>

definition cache_ok :: "bcache \<Rightarrow> bool" where
  "cache_ok c \<longleftrightarrow> distinct (map fst (bc_entries c)) \<and> total_bytes (bc_entries c) \<le> bc_max_bytes c"

lemma total_bytes_simps [simp]:
  "total_bytes [] = 0" "total_bytes ((n, d) # es) = length d + total_bytes es" "total_bytes (es @ fs) = total_bytes es + total_bytes fs"
  by (simp_all add: total_bytes_def)

lemma total_bytes_del: "total_bytes (dict_del es n) \<le> total_bytes es"
  by (induction es) (auto simp: dict_del_def)

lemma evict_subseq: "subseq (evict limit keep tot es) es"
  by (induction limit keep tot es rule: evict.induct) auto

lemma evict_keep: "(keep, d) \<in> set es \<Longrightarrow> (keep, d) \<in> set (evict limit keep tot es)"
  by (induction limit keep tot es rule: evict.induct) auto

text \<open>The running total is the total of what is kept and what is still ahead.\<close>

lemma evict_total:
  assumes "tot = kept + total_bytes es" "kept + total_bytes (filter (\<lambda>e. fst e = keep) es) \<le> limit"
  shows "kept + total_bytes (evict limit keep tot es) \<le> limit"
  using assms
proof (induction limit keep tot es arbitrary: kept rule: evict.induct)
  case (2 limit keep tot n d es)
  show ?case
  proof (cases "tot \<le> limit")
    case False
    show ?thesis
    proof (cases "n = keep")
      case True
      have "(kept + length d) + total_bytes (evict limit keep tot es) \<le> limit"
        using "2.IH"(1)[OF False True, of "kept + length d"] "2.prems" True by simp
      then show ?thesis using False True by simp
    next
      case n: False
      have "kept + total_bytes (evict limit keep (tot - length d) es) \<le> limit"
        using "2.IH"(2)[OF False n, of kept] "2.prems" n by simp
      then show ?thesis using False n by simp
    qed
  qed (use "2.prems" in simp)
qed simp

lemma map_of_del_append: "map_of (dict_del es n @ [(n, d)]) = (map_of es)(n \<mapsto> d)"
  by (auto simp: map_add_def fun_eq_iff split: option.split)

lemma distinct_del_append: "distinct (map fst es) \<Longrightarrow> distinct (map fst (dict_del es n @ [(n, d)]))"
  by (auto simp: dict_del_def distinct_map_filter)

lemma keep_total: "n \<notin> fst ` set es \<Longrightarrow> total_bytes (filter (\<lambda>e. fst e = n) es) = 0"
  by (induction es) auto

lemma cache_put_ok:
  assumes "cache_ok c"
  shows "cache_ok (cache_put sha rk v d c)"
proof (cases "length d > bc_max_bytes c")
  case False
  let ?n = "cache_key sha rk v"
  let ?es = "dict_del (bc_entries c) ?n @ [(?n, d)]"
  have "total_bytes (filter (\<lambda>e. fst e = ?n) ?es) = length d"
    by (simp add: keep_total[of ?n "dict_del (bc_entries c) ?n"] dict_del_def)
  then have "total_bytes (evict (bc_max_bytes c) ?n (total_bytes ?es) ?es) \<le> bc_max_bytes c"
    using evict_total[of "total_bytes ?es" 0 ?es ?n "bc_max_bytes c"] False by simp
  moreover have "distinct (map fst ?es)" using assms distinct_del_append[of "bc_entries c" ?n d] by (simp add: cache_ok_def)
  then have "distinct (map fst (evict (bc_max_bytes c) ?n (total_bytes ?es) ?es))"
    using subseq_map[OF evict_subseq, of fst] by (metis distinct_nthsI subseq_conv_nths)
  ultimately show ?thesis using False by (simp add: cache_put_def cache_ok_def Let_def)
qed (simp add: cache_put_def assms)

lemma total_bytes_del_entry:
  "distinct (map fst es) \<Longrightarrow> map_of es n = Some d \<Longrightarrow> total_bytes (dict_del es n) + length d = total_bytes es"
proof (induction es)
  case (Cons e es)
  obtain m x where e: "e = (m, x)" by fastforce
  show ?case
  proof (cases "m = n")
    case True
    have "dict_del es n = es" using Cons.prems(1) e True by (auto simp: dict_del_def intro!: filter_True)
    then show ?thesis using Cons.prems e True by (simp add: dict_del_def)
  next
    case False
    then show ?thesis using Cons e by (simp add: dict_del_def)
  qed
qed simp

lemma cache_get_ok:
  assumes "cache_ok c"
  shows "cache_ok (snd (cache_get sha rk v ck c))"
proof -
  let ?n = "cache_key sha rk v"
  have "cache_ok (unlink ?n c)"
    using assms total_bytes_del[of "bc_entries c" ?n] by (simp add: cache_ok_def unlink_def)
  moreover have "cache_ok (c\<lparr>bc_entries := dict_del (bc_entries c) ?n @ [(?n, d)]\<rparr>)" if "map_of (bc_entries c) ?n = Some d" for d
    using assms total_bytes_del_entry[OF _ that] distinct_del_append[of "bc_entries c" ?n d] by (simp add: cache_ok_def)
  ultimately show ?thesis using assms by (simp add: cache_get_def Let_def split: option.split)
qed

section \<open>The contract of a verified cache\<close>

text \<open>
  What the restore path relies on: a hit is verified against the checksum asked for, and the content
  just published is a hit. Restored bytes are then verified whether they come from the cache or not.
\<close>

locale verified_cache =
  fixes sha :: "string \<Rightarrow> string" and get :: "string \<Rightarrow> int \<Rightarrow> string \<Rightarrow> 'c \<Rightarrow> string option \<times> 'c"
    and put :: "string \<Rightarrow> int \<Rightarrow> string \<Rightarrow> 'c \<Rightarrow> 'c" and ok :: "'c \<Rightarrow> bool"
  assumes get_verified: "fst (get k v ck c) = Some d \<Longrightarrow> sha d = ck"
    and get_ok: "ok c \<Longrightarrow> ok (snd (get k v ck c))"
    and put_ok: "ok c \<Longrightarrow> ok (put k v d c)"
begin

text \<open>A read through the cache, falling back on content that was verified on its own.\<close>

lemma read_through_verified:
  assumes "fst (get k v ck c) = Some d \<or> fst (get k v ck c) = None \<and> sha d = ck"
  shows "sha d = ck"
  using assms get_verified by blast

lemma read_through_ok: "ok c \<Longrightarrow> ok (put k v d (snd (get k v ck c)))"
  by (simp add: get_ok put_ok)

end

interpretation bounded: verified_cache sha "cache_get sha" "cache_put sha" cache_ok for sha
proof
  show "sha d = ck" if "fst (cache_get sha k v ck c) = Some d" for k v ck c d
    using that by (auto simp: cache_get_def Let_def split: option.splits if_splits)
qed (simp_all add: cache_get_ok cache_put_ok)

text \<open>
  The cache never exceeds its budget, never serves unverified bytes and never evicts what it has
  just stored: every read and every write keeps the total size of the entries within \<open>max_bytes\<close>, a
  hit has the checksum that was asked for, and an object that fits is a hit right after it is stored,
  whatever had to be evicted for it.
\<close>

theorem cache_bounded_and_verified:
  assumes "cache_ok c"
  shows "cache_ok (cache_put sha rk v d c) \<and> cache_ok (snd (cache_get sha rk' v' ck c))
    \<and> (\<forall>d'. fst (cache_get sha rk' v' ck c) = Some d' \<longrightarrow> sha d' = ck \<and> length d' \<le> bc_max_bytes c)
    \<and> (length d \<le> bc_max_bytes c \<longrightarrow> fst (cache_get sha rk v (sha d) (cache_put sha rk v d c)) = Some d)"
proof (intro conjI allI impI)
  show "cache_ok (cache_put sha rk v d c)" "cache_ok (snd (cache_get sha rk' v' ck c))"
    using assms by (simp_all add: bounded.put_ok bounded.get_ok)
  fix d' assume h: "fst (cache_get sha rk' v' ck c) = Some d'"
  show "sha d' = ck" by (rule bounded.get_verified[OF h])
  show "length d' \<le> bc_max_bytes c" using h by (auto simp: cache_get_def Let_def split: option.splits if_splits)
next
  assume fits: "length d \<le> bc_max_bytes c"
  let ?n = "cache_key sha rk v" and ?c = "cache_put sha rk v d c"
  have "(?n, d) \<in> set (bc_entries ?c)"
    using fits evict_keep[of ?n d] by (simp add: cache_put_def Let_def)
  moreover have "distinct (map fst (bc_entries ?c))" using cache_put_ok[OF assms] by (simp add: cache_ok_def)
  ultimately have "map_of (bc_entries ?c) ?n = Some d" by simp
  moreover have "bc_max_bytes ?c = bc_max_bytes c" by (simp add: cache_put_def Let_def)
  ultimately show "fst (cache_get sha rk v (sha d) ?c) = Some d" using fits by (simp add: cache_get_def Let_def)
qed

definition example_cache :: bcache where
  "example_cache = \<lparr>bc_entries = [(''a'', ''xxx'')], bc_max_bytes = 4\<rparr>"

theorem cache_bounded_and_verified_witness:
  "cache_ok (cache_put id ''k'' 1 ''yy'' example_cache) \<and> fst (cache_get id ''k'' 1 ''yy'' (cache_put id ''k'' 1 ''yy'' example_cache)) = Some ''yy''"
proof -
  have "cache_ok example_cache" by (simp add: cache_ok_def example_cache_def)
  from cache_bounded_and_verified[OF this, of id "''k''" 1 "''yy''"] show ?thesis by (simp add: example_cache_def)
qed

end
