(* ===== verification/State_Ref.thy ===== *)
theory State_Ref
  imports Prelude
begin

text \<open>
  \<open>storage/refs.py\<close>: \<open>StateRef\<close>, its validators, and the object keys Storage derives from it. The
  agent identity is the one of \<open>config/schema.py\<close>; \<open>namespace\<close> is opaque text there, so nothing is
  assumed about it here.
\<close>

section \<open>Identity and reference\<close>

record agent_identity =
  ai_name :: string
  ai_namespace :: string
  ai_uid :: string

text \<open>
  The pattern of \<open>agent.uid\<close> (checked by pydantic, where \<open>$\<close> is the end of the text). \<open>uuid.UUID\<close> reads
  every such text and prints it back unchanged, so the field validator adds nothing to it.
\<close>

fun hex_groups :: "nat list \<Rightarrow> string \<Rightarrow> bool" where
  "hex_groups [] u \<longleftrightarrow> False"
| "hex_groups [n] u \<longleftrightarrow> length u = n \<and> list_all is_hex_lower u"
| "hex_groups (n # ns) u \<longleftrightarrow> length (take n u) = n \<and> list_all is_hex_lower (take n u)
     \<and> (case drop n u of c # u' \<Rightarrow> c = CHR ''-'' \<and> hex_groups ns u' | [] \<Rightarrow> False)"

definition canonical_uuid :: "string \<Rightarrow> bool" where
  "canonical_uuid = hex_groups [8, 4, 4, 4, 12]"

datatype domain = DomainWorkspace | DomainSession

datatype ref_error = BadAgentUid | BadHexRef string | UnknownDomain string | SessionRefRequired | SessionRefForbidden

record state_ref =
  sr_agent :: agent_identity
  sr_workspace_ref :: string
  sr_domain :: domain
  sr_session_ref :: "string option"

definition known_domain :: "string \<Rightarrow> (ref_error, domain) result" where
  "known_domain v = (if v = ''workspace'' then Inr DomainWorkspace
     else if v = ''session'' then Inr DomainSession else Inl (UnknownDomain v))"

text \<open>\<open>_HEX64.match\<close>: anchored at the start, and \<open>$\<close> also matches before a final newline.\<close>

definition hex64_match :: "string \<Rightarrow> bool" where
  "hex64_match = re_dollar hex64"

definition check_ref :: "string \<Rightarrow> (ref_error, unit) result" where
  "check_ref v = require (hex64_match v) (BadHexRef v)"

text \<open>\<open>StateRef(...)\<close>: the field validators in field order, then the model validator.\<close>

definition make_state_ref ::
  "agent_identity \<Rightarrow> string \<Rightarrow> string \<Rightarrow> string option \<Rightarrow> (ref_error, state_ref) result" where
  "make_state_ref agent wref dm sref =
     bind_res (require (canonical_uuid (ai_uid agent)) BadAgentUid) (\<lambda>_.
     bind_res (check_ref wref) (\<lambda>_.
     bind_res (known_domain dm) (\<lambda>d.
     bind_res (case sref of None \<Rightarrow> Inr () | Some r \<Rightarrow> check_ref r) (\<lambda>_.
       if d = DomainSession \<and> sref = None then Inl SessionRefRequired
       else if d = DomainWorkspace \<and> sref \<noteq> None then Inl SessionRefForbidden
       else Inr \<lparr>sr_agent = agent, sr_workspace_ref = wref, sr_domain = d, sr_session_ref = sref\<rparr>))))"

section \<open>Object keys\<close>

definition slash :: "string \<Rightarrow> string \<Rightarrow> string" where
  "slash a b = a @ ''/'' @ b"

definition base_key :: "string \<Rightarrow> state_ref \<Rightarrow> string" where
  "base_key pfx r =
     (let base = slash (slash (slash (strip_char (CHR ''/'') pfx) (ai_namespace (sr_agent r))) (ai_uid (sr_agent r)))
                   (sr_workspace_ref r)
      in if sr_domain r = DomainSession
         then slash (slash base ''sessions'') (case sr_session_ref r of None \<Rightarrow> ''None'' | Some s \<Rightarrow> s)
         else base)"

definition registry_key :: "string \<Rightarrow> state_ref \<Rightarrow> string" where
  "registry_key pfx r = slash (base_key pfx r) ''registry.json''"

definition snapshot_key :: "string \<Rightarrow> state_ref \<Rightarrow> string \<Rightarrow> string" where
  "snapshot_key pfx r sid = slash (slash (base_key pfx r) ''snapshots'') (sid @ ''.tar.gz'')"

definition commit_record_key :: "string \<Rightarrow> state_ref \<Rightarrow> string \<Rightarrow> string" where
  "commit_record_key pfx r sid = slash (slash (base_key pfx r) ''commits'') (sid @ ''.json'')"

section \<open>Keys determine references\<close>

definition flat :: "string \<Rightarrow> bool" where
  "flat s \<longleftrightarrow> CHR ''/'' \<notin> set s"

lemma slash_inject:
  assumes "flat b" "flat b'"
  shows "slash a b = slash a' b' \<longleftrightarrow> a = a' \<and> b = b'"
proof
  assume eq: "slash a b = slash a' b'"
  have "takeWhile (\<lambda>c. c \<noteq> CHR ''/'') (rev (slash a b)) = rev b" if "flat b" for a b
    using that by (simp add: slash_def flat_def) (subst takeWhile_append2; auto)
  then have "b = b'" using assms eq by (metis rev_rev_ident)
  then show "a = a' \<and> b = b'" using eq by (simp add: slash_def)
qed simp

lemma flat_simps [simp]: "flat []" "flat (c # s) \<longleftrightarrow> c \<noteq> CHR ''/'' \<and> flat s" "flat (s @ t) \<longleftrightarrow> flat s \<and> flat t"
  by (auto simp: flat_def)

lemma hex_lower_not_slash: "is_hex_lower c \<Longrightarrow> c \<noteq> CHR ''/''"
  by (auto simp: is_hex_lower_def is_digit_09_def ord_def)

lemma hex_flat: "list_all is_hex_lower u \<Longrightarrow> flat u"
  by (induction u) (auto simp: hex_lower_not_slash)

lemma newline_not_slash: "chr 10 \<noteq> CHR ''/''"
  by code_simp

lemma hex64_match_flat: "hex64_match v \<Longrightarrow> flat v"
  using newline_not_slash hex_flat by (auto simp: hex64_match_def re_dollar_iff hex64_def list_all_iff)

lemma hex_groups_flat: "hex_groups ns u \<Longrightarrow> flat u"
proof (induction ns u rule: hex_groups.induct)
  case (3 n m ns u)
  then obtain u' where d: "drop n u = CHR ''-'' # u'" "hex_groups (m # ns) u'" "list_all is_hex_lower (take n u)"
    by (auto split: list.splits)
  have "flat (take n u @ drop n u)" using d hex_flat 3 by simp
  then show ?case by simp
qed (auto intro: hex_flat)

lemma hex_groups_length: "hex_groups ns u \<Longrightarrow> length u + 1 = sum_list ns + length ns"
proof (induction ns u rule: hex_groups.induct)
  case (3 n m ns u)
  then obtain c u' where d: "drop n u = c # u'" "hex_groups (m # ns) u'" "length (take n u) = n"
    by (auto split: list.splits)
  then have "length u = n + 1 + length u'" by (metis append_take_drop_id length_Cons length_append add.commute add_Suc_right plus_1_eq_Suc)
  then show ?case using 3 d by simp
qed simp_all

lemma make_state_ref_Inr:
  assumes "make_state_ref agent wref dm sref = Inr r"
  shows "flat (ai_uid (sr_agent r))" "length (ai_uid (sr_agent r)) = 36" "flat (sr_workspace_ref r)"
    "sr_domain r = DomainSession \<Longrightarrow> \<exists>s. sr_session_ref r = Some s \<and> flat s"
    "sr_domain r = DomainWorkspace \<Longrightarrow> sr_session_ref r = None"
    "64 \<le> length (sr_workspace_ref r)" "sr_session_ref r = Some x \<Longrightarrow> 64 \<le> length x"
proof -
  have ok: "canonical_uuid (ai_uid agent)" "hex64_match wref" "\<And>s. sref = Some s \<Longrightarrow> hex64_match s"
    and r: "r = \<lparr>sr_agent = agent, sr_workspace_ref = wref, sr_domain = sr_domain r, sr_session_ref = sref\<rparr>"
    and d: "sr_domain r = DomainSession \<longleftrightarrow> sref \<noteq> None"
    using assms by (auto simp: make_state_ref_def bind_res_def check_ref_def split: sum.splits option.splits if_splits) (metis domain.exhaust)+
  have f: "sr_agent r = agent" "sr_workspace_ref r = wref" "sr_session_ref r = sref" using r by (metis state_ref.select_convs)+
  show "flat (ai_uid (sr_agent r))" using ok(1) unfolding canonical_uuid_def f by (rule hex_groups_flat)
  show "length (ai_uid (sr_agent r)) = 36"
    using ok(1)[unfolded canonical_uuid_def, THEN hex_groups_length] by (simp add: f)
  show "flat (sr_workspace_ref r)" using ok(2) hex64_match_flat by (simp add: f)
  show "sr_domain r = DomainSession \<Longrightarrow> \<exists>s. sr_session_ref r = Some s \<and> flat s"
    using ok(3) d hex64_match_flat by (auto simp: f)
  show "sr_domain r = DomainWorkspace \<Longrightarrow> sr_session_ref r = None" using d by (auto simp: f)
  show "64 \<le> length (sr_workspace_ref r)" "sr_session_ref r = Some x \<Longrightarrow> 64 \<le> length x"
    using ok(2,3) by (auto simp: f hex64_match_def re_dollar_iff hex64_def)
qed

text \<open>What the keys are made of.\<close>

definition same_target :: "state_ref \<Rightarrow> state_ref \<Rightarrow> bool" where
  "same_target r r' \<longleftrightarrow> ai_namespace (sr_agent r) = ai_namespace (sr_agent r') \<and> ai_uid (sr_agent r) = ai_uid (sr_agent r')
     \<and> sr_workspace_ref r = sr_workspace_ref r' \<and> sr_domain r = sr_domain r' \<and> sr_session_ref r = sr_session_ref r'"

lemma slash_prefix_inject [simp]: "slash p a = slash p b \<longleftrightarrow> a = b"
  by (simp add: slash_def)

lemma flat_consts: "flat ''sessions''" "flat ''snapshots''" "flat ''commits''" "flat ''registry.json''"
  by (simp_all add: flat_def)

lemma base_key_inject:
  assumes "make_state_ref a w d s = Inr r" "make_state_ref a' w' d' s' = Inr r'"
  shows "base_key p r = base_key p r' \<longleftrightarrow> same_target r r'"
proof -
  note f = make_state_ref_Inr[OF assms(1)] and f' = make_state_ref_Inr[OF assms(2)]
  have ne: "ai_uid (sr_agent r) \<noteq> ''sessions''" "ai_uid (sr_agent r') \<noteq> ''sessions''" using f(2) f'(2) by auto
  note inj = slash_inject[OF f(3) f'(3)] slash_inject[OF f(1) f'(1)] slash_inject[OF flat_consts(1) flat_consts(1)]
  show ?thesis
  proof (cases "sr_domain r"; cases "sr_domain r'")
    assume "sr_domain r = DomainSession" "sr_domain r' = DomainSession"
    moreover obtain x y where "sr_session_ref r = Some x" "flat x" "sr_session_ref r' = Some y" "flat y"
      using f(4) f'(4) calculation by blast
    ultimately show ?thesis by (auto simp: base_key_def Let_def same_target_def inj slash_inject[of x y])
  next
    assume d: "sr_domain r = DomainWorkspace" "sr_domain r' = DomainSession"
    then obtain y where y: "sr_session_ref r' = Some y" "flat y" using f'(4) by blast
    show ?thesis
      using d y ne by (auto simp: base_key_def Let_def same_target_def slash_inject[OF f(3) y(2)] slash_inject[OF f(1) flat_consts(1)])
  next
    assume d: "sr_domain r = DomainSession" "sr_domain r' = DomainWorkspace"
    then obtain y where y: "sr_session_ref r = Some y" "flat y" using f(4) by blast
    show ?thesis
      using d y ne by (auto simp: base_key_def Let_def same_target_def slash_inject[OF y(2) f'(3)] slash_inject[OF flat_consts(1) f'(1)])
  next
    assume "sr_domain r = DomainWorkspace" "sr_domain r' = DomainWorkspace"
    then show ?thesis using f(5) f'(5) by (auto simp: base_key_def Let_def same_target_def inj)
  qed
qed

lemma base_key_last:
  assumes "make_state_ref a w d s = Inr r"
  obtains b y where "base_key p r = slash b y" "flat y" "64 \<le> length y"
proof (cases "sr_domain r")
  case DomainSession
  then obtain x where "sr_session_ref r = Some x" "flat x" using make_state_ref_Inr(4)[OF assms] by blast
  then show thesis using that make_state_ref_Inr(7)[OF assms] DomainSession by (auto simp: base_key_def Let_def)
next
  case DomainWorkspace
  then show thesis using that make_state_ref_Inr(3,6)[OF assms] by (auto simp: base_key_def Let_def)
qed

lemma key_kinds_separate:
  assumes "make_state_ref a w d s = Inr r" "make_state_ref a' w' d' s' = Inr r'" "flat sid'"
  shows "registry_key p r \<noteq> snapshot_key p r' sid'" "registry_key p r \<noteq> commit_record_key p r' sid'"
proof -
  have fl: "flat (sid' @ ''.tar.gz'')" "flat (sid' @ ''.json'')" using assms(3) by simp_all
  note k = registry_key_def snapshot_key_def commit_record_key_def
  show "registry_key p r \<noteq> snapshot_key p r' sid'"
  proof
    assume "registry_key p r = snapshot_key p r' sid'"
    then have "''registry.json'' = sid' @ ''.tar.gz''" by (simp add: k slash_inject[OF flat_consts(4) fl(1)])
    then have "rev ''registry.json'' = rev (sid' @ ''.tar.gz'')" by (rule arg_cong)
    then show False by simp
  qed
  show "registry_key p r \<noteq> commit_record_key p r' sid'"
  proof
    assume "registry_key p r = commit_record_key p r' sid'"
    then have eq: "base_key p r = slash (base_key p r') ''commits''" by (simp add: k slash_inject[OF flat_consts(4) fl(2)])
    obtain b y where "base_key p r = slash b y" "flat y" "64 \<le> length y" by (rule base_key_last[OF assms(1)])
    then have "y = ''commits''" using eq slash_inject[OF _ flat_consts(3), of y b] by metis
    then show False using \<open>64 \<le> length y\<close> by simp
  qed
qed

text \<open>
  Object keys confine every operation to its reference. For references the validators accept, two
  registry keys, two snapshot keys or two commit-record keys are equal only for the same namespace,
  agent uid, workspace, domain and session (and the same snapshot), and a key of one kind is never a
  key of another, even though the namespace is free text that may contain slashes.
\<close>

theorem state_keys_separate:
  assumes "make_state_ref a w d s = Inr r" "make_state_ref a' w' d' s' = Inr r'" "flat sid" "flat sid'"
  shows "(registry_key p r = registry_key p r' \<longleftrightarrow> same_target r r')
    \<and> (snapshot_key p r sid = snapshot_key p r' sid' \<longleftrightarrow> same_target r r' \<and> sid = sid')
    \<and> (commit_record_key p r sid = commit_record_key p r' sid' \<longleftrightarrow> same_target r r' \<and> sid = sid')
    \<and> registry_key p r \<noteq> snapshot_key p r' sid' \<and> registry_key p r \<noteq> commit_record_key p r' sid'
    \<and> snapshot_key p r sid \<noteq> commit_record_key p r' sid'"
proof -
  have fl: "flat (sid @ ''.tar.gz'')" "flat (sid' @ ''.tar.gz'')" "flat (sid @ ''.json'')" "flat (sid' @ ''.json'')"
    using assms(3,4) by (auto simp: flat_def)
  note k = registry_key_def snapshot_key_def commit_record_key_def
  note b = base_key_inject[OF assms(1,2)]
  have "registry_key p r = registry_key p r' \<longleftrightarrow> same_target r r'"
    by (simp add: k b slash_inject[OF flat_consts(4) flat_consts(4)])
  moreover have "snapshot_key p r sid = snapshot_key p r' sid' \<longleftrightarrow> same_target r r' \<and> sid = sid'"
    by (simp add: k b slash_inject[OF fl(1,2)] slash_inject[OF flat_consts(2) flat_consts(2)])
  moreover have "commit_record_key p r sid = commit_record_key p r' sid' \<longleftrightarrow> same_target r r' \<and> sid = sid'"
    by (simp add: k b slash_inject[OF fl(3,4)] slash_inject[OF flat_consts(3) flat_consts(3)])
  moreover note key_kinds_separate[OF assms(1,2,4), of p]
  moreover have "snapshot_key p r sid \<noteq> commit_record_key p r' sid'"
    by (simp add: k slash_inject[OF fl(1) fl(4)] slash_inject[OF flat_consts(2) flat_consts(3)])
  ultimately show ?thesis by blast
qed

definition example_agent :: agent_identity where
  "example_agent = \<lparr>ai_name = ''a'', ai_namespace = ''team/x'', ai_uid = ''01234567-89ab-cdef-0123-456789abcdef''\<rparr>"

definition example_hex :: string where
  "example_hex = replicate 64 (CHR ''a'')"

definition example_ref :: state_ref where
  "example_ref = \<lparr>sr_agent = example_agent, sr_workspace_ref = example_hex, sr_domain = DomainWorkspace, sr_session_ref = None\<rparr>"

definition example_session_ref :: state_ref where
  "example_session_ref = \<lparr>sr_agent = example_agent, sr_workspace_ref = example_hex, sr_domain = DomainSession,
     sr_session_ref = Some example_hex\<rparr>"

lemma example_ref_made: "make_state_ref example_agent example_hex ''workspace'' None = Inr example_ref"
  by code_simp

lemma example_session_ref_made:
  "make_state_ref example_agent example_hex ''session'' (Some example_hex) = Inr example_session_ref"
  by code_simp

theorem state_keys_separate_witness: "registry_key ''ach'' example_ref \<noteq> registry_key ''ach'' example_session_ref"
proof -
  have "flat ''s1''" by (simp add: flat_def)
  moreover have "\<not> same_target example_ref example_session_ref" by code_simp
  ultimately show ?thesis
    using state_keys_separate[OF example_ref_made example_session_ref_made] by blast
qed

text \<open>
  The validator accepts more than a 64-character digest: since \<open>$\<close> also matches before a final
  newline, a workspace reference of 64 hexadecimal characters and a newline passes \<open>_HEX64.match\<close>
  (\<open>storage/s3.py\<close> anchors its own digest pattern with \<open>\Z\<close>). Everything else it accepts is exactly
  a digest.
\<close>

theorem hex_ref_accepts_newline:
  "check_ref v = Inr () \<longleftrightarrow> hex64 v \<or> (\<exists>h. hex64 h \<and> v = h @ [chr 10])"
  by (simp add: check_ref_def hex64_match_def re_dollar_iff)

end
