(* ===== verification/Fencing.thy ===== *)
theory Fencing
  imports State_Ref
begin

text \<open>
  \<open>storage/fencing.py\<close>: the registry document of a domain and the rules for its successor, with the
  lease of \<open>storage/api.py\<close>.
\<close>

record latest_entry =
  le_snapshot_id :: string
  le_checksum :: string
  le_size :: int
  le_version :: int
  le_committed_at :: "string option"
  le_expires_at :: "string option"

record registry_doc =
  rd_writer_epoch :: int
  rd_writer_instance_id :: string
  rd_generation :: int
  rd_latest :: "latest_entry option"

record writer_lease =
  wl_ref :: state_ref
  wl_writer_instance_id :: string
  wl_epoch :: int
  wl_base_etag :: "string option"

definition empty_doc :: "string \<Rightarrow> registry_doc" where
  "empty_doc inst = \<lparr>rd_writer_epoch = 1, rd_writer_instance_id = inst, rd_generation = 1, rd_latest = None\<rparr>"

definition with_new_writer :: "string \<Rightarrow> registry_doc \<Rightarrow> registry_doc" where
  "with_new_writer inst d = d\<lparr>rd_writer_epoch := rd_writer_epoch d + 1, rd_writer_instance_id := inst,
     rd_generation := rd_generation d + 1\<rparr>"

definition with_committed_snapshot :: "int \<Rightarrow> string \<Rightarrow> latest_entry \<Rightarrow> registry_doc \<Rightarrow> registry_doc" where
  "with_committed_snapshot epoch inst e d = d\<lparr>rd_writer_epoch := epoch, rd_writer_instance_id := inst,
     rd_generation := rd_generation d + 1, rd_latest := Some e\<rparr>"

text \<open>\<open>assert_lease_current\<close> passes; otherwise it raises \<open>WriterFenced\<close>.\<close>

definition lease_current :: "registry_doc option \<Rightarrow> writer_lease \<Rightarrow> bool" where
  "lease_current doc lease \<longleftrightarrow>
     (case doc of None \<Rightarrow> False
      | Some d \<Rightarrow> rd_writer_epoch d = wl_epoch lease \<and> rd_writer_instance_id d = wl_writer_instance_id lease)"

section \<open>The life of a registry\<close>

definition version_of :: "registry_doc \<Rightarrow> int" where
  "version_of d = (case rd_latest d of None \<Rightarrow> 0 | Some e \<Rightarrow> le_version e)"

text \<open>
  The two ways a registry may move: a new writer takes over, keeping the committed snapshot, or the
  current writer commits the next version.
\<close>

inductive doc_step :: "registry_doc \<Rightarrow> registry_doc \<Rightarrow> bool" where
  new_writer: "doc_step d (with_new_writer inst d)"
| commit: "le_version e = version_of d + 1 \<Longrightarrow>
    doc_step d (with_committed_snapshot (rd_writer_epoch d) (rd_writer_instance_id d) e d)"

inductive_cases doc_stepE: "doc_step d d'"

text \<open>A history of registry contents, oldest first.\<close>

inductive chain :: "registry_doc list \<Rightarrow> bool" where
  chain_nil: "chain []"
| chain_first: "chain [empty_doc inst]"
| chain_step: "chain h \<Longrightarrow> h \<noteq> [] \<Longrightarrow> doc_step (last h) d \<Longrightarrow> chain (h @ [d])"

lemma doc_step_mono:
  assumes "doc_step d d'"
  shows "rd_generation d' = rd_generation d + 1" "rd_writer_epoch d \<le> rd_writer_epoch d'" "version_of d \<le> version_of d'"
    "version_of d' \<noteq> version_of d \<Longrightarrow> rd_writer_epoch d' = rd_writer_epoch d"
    "rd_writer_epoch d' = rd_writer_epoch d \<Longrightarrow> rd_writer_instance_id d' = rd_writer_instance_id d"
  using assms by (auto elim!: doc_stepE simp: with_new_writer_def with_committed_snapshot_def version_of_def)

lemma chain_generation:
  assumes "chain h" "i < length h"
  shows "rd_generation (h ! i) = int i + 1"
  using assms
proof (induction arbitrary: i rule: chain.induct)
  case (chain_step h d)
  have "rd_generation d = int (length h) + 1"
    using chain_step.IH[of "length h - 1"] chain_step.hyps(2) doc_step_mono(1)[OF chain_step.hyps(3)]
    by (cases h rule: rev_cases) simp_all
  then show ?case using chain_step by (cases "i = length h") (auto simp: nth_append)
qed (auto simp: empty_doc_def)

lemma chain_distinct:
  assumes "chain h" "i < length h" "j < length h" "h ! i = h ! j"
  shows "i = j"
  using chain_generation[OF assms(1,2)] chain_generation[OF assms(1,3)] arg_cong[OF assms(4), of rd_generation] by linarith

lemma chain_prefix: "chain (h @ xs) \<Longrightarrow> chain h"
proof (induction xs rule: rev_induct)
  case (snoc x xs)
  from snoc.prems have "chain (h @ xs)"
  proof (cases rule: chain.cases)
    case (chain_first inst)
    then have "h = []" "xs = []" by (cases h; cases xs; simp)+
    then show ?thesis by (simp add: chain_nil)
  next
    case (chain_step g d)
    then have "g = h @ xs" by (simp flip: append_assoc)
    then show ?thesis using chain_step by simp
  qed simp
  then show ?case by (rule snoc.IH)
qed simp

text \<open>Epochs and versions never go back along a history.\<close>

lemma chain_mono:
  assumes "chain h" "i \<le> j" "j < length h"
  shows "rd_writer_epoch (h ! i) \<le> rd_writer_epoch (h ! j) \<and> version_of (h ! i) \<le> version_of (h ! j)"
  using assms
proof (induction arbitrary: j rule: chain.induct)
  case (chain_step h d)
  have d: "rd_writer_epoch (last h) \<le> rd_writer_epoch d" "version_of (last h) \<le> version_of d"
    using doc_step_mono[OF chain_step.hyps(3)] by simp_all
  show ?case
  proof (cases "j = length h")
    case True
    have "rd_writer_epoch (h ! i) \<le> rd_writer_epoch (last h) \<and> version_of (h ! i) \<le> version_of (last h)" if "i < length h"
      using chain_step.IH[of "length h - 1"] that chain_step.hyps(2) by (simp add: last_conv_nth)
    then show ?thesis using d True chain_step.prems by (cases "i = length h") (auto simp: nth_append)
  qed (use chain_step in \<open>auto simp: nth_append\<close>)
qed auto

end
