(* ===== verification/S3_Storage.thy ===== *)
theory S3_Storage
  imports Fencing Bounded_Cache
begin

text \<open>
  \<open>storage/s3.py\<close>: the registry, snapshot and commit-record protocol of \<open>S3Storage\<close>.

  The S3 client is a parameter: a record of the three calls the code makes, over a backend state of
  any type. A call returns a result or an exception and the backend afterwards; the backend may have
  moved for other reasons in the meantime, so the other writers of the bucket act inside it. An
  object's body is the JSON value it decodes to, or bytes. \<open>datetime\<close>'s reading and printing of ISO
  timestamps is a parameter too. A snapshot stream is its bytes; the private staging file, the worker
  threads and cancellation of the awaiting task are not modelled, and messages of exceptions are
  dropped.
\<close>

section \<open>The client\<close>

datatype body = BDoc json | BBytes string

datatype put_cond = IfNoneMatchAny | IfMatch string

text \<open>The error code of an exception and whether its class is a timeout or connection error.\<close>

datatype client_exc = ClientExc (exc_code: string) (exc_transient: bool)

type_synonym metadata = "(string \<times> string) list"

record 'b s3_client =
  c_get :: "string \<Rightarrow> 'b \<Rightarrow> (client_exc, body \<times> nat \<times> string) result \<times> 'b"
  c_head :: "string \<Rightarrow> 'b \<Rightarrow> (client_exc, metadata \<times> int) result \<times> 'b"
  c_put :: "string \<Rightarrow> body \<Rightarrow> put_cond \<Rightarrow> metadata \<Rightarrow> 'b \<Rightarrow> (client_exc, string) result \<times> 'b"

definition is_not_found :: "client_exc \<Rightarrow> bool" where
  "is_not_found e \<longleftrightarrow> exc_code e \<in> {''404'', ''NoSuchKey'', ''NotFound''}"

definition is_precondition_failed :: "client_exc \<Rightarrow> bool" where
  "is_precondition_failed e \<longleftrightarrow> exc_code e \<in> {''PreconditionFailed'', ''412'', ''ConditionalRequestConflict''}"

definition transient_codes :: "string set" where
  "transient_codes = {''408'', ''429'', ''500'', ''502'', ''503'', ''504'', ''RequestTimeout'',
     ''RequestTimeoutException'', ''SlowDown'', ''InternalError'', ''ServiceUnavailable''}"

definition client_transient :: "client_exc \<Rightarrow> bool" where
  "client_transient e \<longleftrightarrow> exc_transient e \<or> exc_code e \<in> transient_codes"

datatype storage_error =
    StorageUnavailable
  | RestoreFailed
  | SnapshotExpired
  | SnapshotTransientFailure
  | WriterFenced
  | SnapshotConflict
  | ConcurrentModification
  | ArchiveTooLarge
  | StorageRuntimeError
  | StorageValueError
  | ClientError client_exc

definition is_snapshot_transient :: "storage_error \<Rightarrow> bool" where
  "is_snapshot_transient e \<longleftrightarrow> (case e of ClientError x \<Rightarrow> client_transient x | _ \<Rightarrow> False)"

text \<open>Code that calls the client: a result and the backend after it.\<close>

type_synonym ('b, 'a) sto = "'b \<Rightarrow> (storage_error, 'a) result \<times> 'b"

definition ret :: "'a \<Rightarrow> ('b, 'a) sto" where
  "ret x b = (Inr x, b)"

definition raise :: "storage_error \<Rightarrow> ('b, 'a) sto" where
  "raise e b = (Inl e, b)"

definition bind_sto :: "('b, 'a) sto \<Rightarrow> ('a \<Rightarrow> ('b, 'c) sto) \<Rightarrow> ('b, 'c) sto" where
  "bind_sto m f b = (case m b of (Inl e, b') \<Rightarrow> (Inl e, b') | (Inr x, b') \<Rightarrow> f x b')"

text \<open>\<open>try: m except Exception as e: h e\<close>, and lifting of pure checks and of client calls.\<close>

definition catch :: "('b, 'a) sto \<Rightarrow> (storage_error \<Rightarrow> ('b, 'a) sto) \<Rightarrow> ('b, 'a) sto" where
  "catch m h b = (case m b of (Inl e, b') \<Rightarrow> h e b' | (Inr x, b') \<Rightarrow> (Inr x, b'))"

definition check :: "(storage_error, 'a) result \<Rightarrow> ('b, 'a) sto" where
  "check r b = (r, b)"

definition call :: "('b \<Rightarrow> (client_exc, 'a) result \<times> 'b) \<Rightarrow> ('b, (client_exc, 'a) result) sto" where
  "call f b = (case f b of (r, b') \<Rightarrow> (Inr r, b'))"

section \<open>Timestamps\<close>

text \<open>
  \<open>iso_read\<close> reads an aware ISO timestamp (a trailing \<open>Z\<close> is UTC) as an instant, \<open>iso_show\<close> prints an
  instant in UTC with a trailing \<open>Z\<close>.
\<close>

record iso =
  iso_read :: "string \<Rightarrow> int option"
  iso_show :: "int \<Rightarrow> string"

definition parse_retention_date :: "iso \<Rightarrow> json \<Rightarrow> (storage_error, string) result" where
  "parse_retention_date I v =
     (case v of
        JStr t \<Rightarrow> if t = [] then Inl RestoreFailed
                  else (case iso_read I t of None \<Rightarrow> Inl RestoreFailed | Some x \<Rightarrow> Inr (iso_show I x))
      | _ \<Rightarrow> Inl RestoreFailed)"

definition parse_nullable_date :: "iso \<Rightarrow> json \<Rightarrow> (storage_error, string option) result" where
  "parse_nullable_date I v =
     (if v = JNull then Inr None else bind_res (parse_retention_date I v) (\<lambda>t. Inr (Some t)))"

definition before :: "iso \<Rightarrow> string \<Rightarrow> string \<Rightarrow> bool" where
  "before I a b \<longleftrightarrow> (case (iso_read I a, iso_read I b) of (Some x, Some y) \<Rightarrow> x < y | _ \<Rightarrow> False)"

definition validate_retention_metadata ::
  "iso \<Rightarrow> dict \<Rightarrow> (storage_error, string option \<times> string option) result" where
  "validate_retention_metadata I d =
     (case (map_of d ''committed_at'', map_of d ''expires_at'') of
        (None, None) \<Rightarrow> Inr (None, None)
      | (Some c, Some e) \<Rightarrow>
          bind_res (parse_retention_date I c) (\<lambda>ct.
          bind_res (parse_nullable_date I e) (\<lambda>et.
            if (case et of None \<Rightarrow> False | Some t \<Rightarrow> before I t ct) then Inl RestoreFailed else Inr (Some ct, et)))
      | _ \<Rightarrow> Inl RestoreFailed)"

section \<open>Documents\<close>

definition nonempty_str :: "json option \<Rightarrow> (storage_error, string) result" where
  "nonempty_str v = (case v of Some (JStr s) \<Rightarrow> if s = [] then Inl RestoreFailed else Inr s | _ \<Rightarrow> Inl RestoreFailed)"

text \<open>An \<open>int\<close> that is not a \<open>bool\<close>, at least \<open>low\<close>.\<close>

definition int_from :: "int \<Rightarrow> json option \<Rightarrow> (storage_error, int) result" where
  "int_from low v = (case v of Some (JInt i) \<Rightarrow> if i < low then Inl RestoreFailed else Inr i | _ \<Rightarrow> Inl RestoreFailed)"

text \<open>\<open>_SHA256_HEX\<close> ends with \<open>\Z\<close>: exactly a digest.\<close>

definition sha_str :: "json option \<Rightarrow> (storage_error, string) result" where
  "sha_str v = (case v of Some (JStr s) \<Rightarrow> if hex64 s then Inr s else Inl RestoreFailed | _ \<Rightarrow> Inl RestoreFailed)"

definition validate_latest_entry :: "iso \<Rightarrow> json \<Rightarrow> (storage_error, latest_entry) result" where
  "validate_latest_entry I v =
     (case v of
        JObj d \<Rightarrow>
          bind_res (nonempty_str (map_of d ''snapshot_id'')) (\<lambda>sid.
          bind_res (sha_str (map_of d ''checksum'')) (\<lambda>ck.
          bind_res (int_from 0 (map_of d ''size'')) (\<lambda>sz.
          bind_res (int_from 1 (map_of d ''version'')) (\<lambda>ver.
          bind_res (validate_retention_metadata I d) (\<lambda>(ct, et).
            Inr \<lparr>le_snapshot_id = sid, le_checksum = ck, le_size = sz, le_version = ver,
                 le_committed_at = ct, le_expires_at = et\<rparr>)))))
      | _ \<Rightarrow> Inl RestoreFailed)"

definition validate_registry_doc :: "iso \<Rightarrow> json \<Rightarrow> (storage_error, registry_doc) result" where
  "validate_registry_doc I v =
     (case v of
        JObj d \<Rightarrow>
          if map_of d ''latest'' = None then Inl RestoreFailed
          else
          bind_res (int_from 1 (map_of d ''writer_epoch'')) (\<lambda>ep.
          bind_res (nonempty_str (map_of d ''writer_instance_id'')) (\<lambda>inst.
          bind_res (int_from 1 (map_of d ''generation'')) (\<lambda>gen.
          bind_res (case map_of d ''latest'' of
                      Some JNull \<Rightarrow> Inr None
                    | Some l \<Rightarrow> bind_res (validate_latest_entry I l) (\<lambda>e. Inr (Some e))
                    | None \<Rightarrow> Inl RestoreFailed) (\<lambda>lt.
            Inr \<lparr>rd_writer_epoch = ep, rd_writer_instance_id = inst, rd_generation = gen, rd_latest = lt\<rparr>))))
      | _ \<Rightarrow> Inl RestoreFailed)"

record persist_receipt =
  pr_ref :: state_ref
  pr_snapshot_id :: string
  pr_writer_epoch :: int
  pr_generation :: int
  pr_etag :: string
  pr_checksum :: string
  pr_size :: int
  pr_version :: int
  pr_committed_at :: "string option"
  pr_expires_at :: "string option"

text \<open>\<open>_validate_commit_record\<close> and the typed receipt \<open>_read_commit_record\<close> builds from it.\<close>

definition validate_commit_record :: "iso \<Rightarrow> state_ref \<Rightarrow> json \<Rightarrow> (storage_error, persist_receipt) result" where
  "validate_commit_record I ref v =
     (case v of
        JObj d \<Rightarrow>
          bind_res (nonempty_str (map_of d ''snapshot_id'')) (\<lambda>sid.
          bind_res (int_from 1 (map_of d ''writer_epoch'')) (\<lambda>ep.
          bind_res (int_from 1 (map_of d ''generation'')) (\<lambda>gen.
          bind_res (int_from 1 (map_of d ''version'')) (\<lambda>ver.
          bind_res (int_from 0 (map_of d ''size'')) (\<lambda>sz.
          bind_res (nonempty_str (map_of d ''etag'')) (\<lambda>et.
          bind_res (sha_str (map_of d ''checksum'')) (\<lambda>ck.
          bind_res (validate_retention_metadata I d) (\<lambda>(ct, ex).
            Inr \<lparr>pr_ref = ref, pr_snapshot_id = sid, pr_writer_epoch = ep, pr_generation = gen, pr_etag = et,
                 pr_checksum = ck, pr_size = sz, pr_version = ver, pr_committed_at = ct, pr_expires_at = ex\<rparr>))))))))
      | _ \<Rightarrow> Inl RestoreFailed)"

definition opt_str :: "string option \<Rightarrow> json" where
  "opt_str s = (case s of None \<Rightarrow> JNull | Some t \<Rightarrow> JStr t)"

text \<open>The retention fields are written only when \<open>committed_at\<close> is set.\<close>

definition retention_fields :: "string option \<Rightarrow> string option \<Rightarrow> dict" where
  "retention_fields ct et = (case ct of None \<Rightarrow> [] | Some t \<Rightarrow> [(''committed_at'', JStr t), (''expires_at'', opt_str et)])"

definition latest_json :: "latest_entry \<Rightarrow> json" where
  "latest_json e = JObj ([(''snapshot_id'', JStr (le_snapshot_id e)), (''checksum'', JStr (le_checksum e)),
     (''size'', JInt (le_size e)), (''version'', JInt (le_version e))] @ retention_fields (le_committed_at e) (le_expires_at e))"

definition doc_json :: "registry_doc \<Rightarrow> json" where
  "doc_json d = JObj [(''writer_epoch'', JInt (rd_writer_epoch d)), (''writer_instance_id'', JStr (rd_writer_instance_id d)),
     (''generation'', JInt (rd_generation d)),
     (''latest'', (case rd_latest d of None \<Rightarrow> JNull | Some e \<Rightarrow> latest_json e))]"

definition receipt_json :: "persist_receipt \<Rightarrow> json" where
  "receipt_json r = JObj ([(''snapshot_id'', JStr (pr_snapshot_id r)), (''writer_epoch'', JInt (pr_writer_epoch r)),
     (''generation'', JInt (pr_generation r)), (''etag'', JStr (pr_etag r)), (''checksum'', JStr (pr_checksum r)),
     (''size'', JInt (pr_size r)), (''version'', JInt (pr_version r))] @ retention_fields (pr_committed_at r) (pr_expires_at r))"

definition receipt_from :: "state_ref \<Rightarrow> registry_doc \<Rightarrow> string \<Rightarrow> int \<Rightarrow> (storage_error, persist_receipt) result" where
  "receipt_from ref d etag days =
     (case rd_latest d of
        None \<Rightarrow> Inl StorageRuntimeError
      | Some e \<Rightarrow>
          if days > 0 \<and> le_committed_at e = None then Inl RestoreFailed
          else Inr \<lparr>pr_ref = ref, pr_snapshot_id = le_snapshot_id e, pr_writer_epoch = rd_writer_epoch d,
                    pr_generation = rd_generation d, pr_etag = etag, pr_checksum = le_checksum e, pr_size = le_size e,
                    pr_version = le_version e, pr_committed_at = le_committed_at e, pr_expires_at = le_expires_at e\<rparr>)"

section \<open>The backend\<close>

record 'b s3_storage =
  st_client :: "'b s3_client option"
  st_prefix :: string
  st_max_snapshot_bytes :: nat
  st_sha256 :: "string \<Rightarrow> string"
  st_iso :: iso

definition max_registry_bytes :: nat where "max_registry_bytes = 64 * 1024"

definition require_client :: "'b s3_storage \<Rightarrow> ('b, 'b s3_client) sto" where
  "require_client S = (case st_client S of None \<Rightarrow> raise StorageUnavailable | Some c \<Rightarrow> ret c)"

definition fetch_with_etag :: "'b s3_client \<Rightarrow> string \<Rightarrow> nat \<Rightarrow> ('b, (body \<times> string) option) sto" where
  "fetch_with_etag C key cap =
     bind_sto (call (c_get C key)) (\<lambda>r. case r of
        Inl e \<Rightarrow> if is_not_found e then ret None else raise (ClientError e)
      | Inr (b, n, etag) \<Rightarrow> if n > cap then raise RestoreFailed else ret (Some (b, etag)))"

definition read_registry :: "'b s3_storage \<Rightarrow> state_ref \<Rightarrow> ('b, (registry_doc \<times> string) option) sto" where
  "read_registry S ref =
     bind_sto (require_client S) (\<lambda>C.
     bind_sto (fetch_with_etag C (registry_key (st_prefix S) ref) max_registry_bytes) (\<lambda>r. case r of
        None \<Rightarrow> ret None
      | Some (BDoc j, etag) \<Rightarrow> bind_sto (check (validate_registry_doc (st_iso S) j)) (\<lambda>d. ret (Some (d, etag)))
      | Some (BBytes _, etag) \<Rightarrow> raise RestoreFailed))"

definition read_commit_record :: "'b s3_storage \<Rightarrow> state_ref \<Rightarrow> string \<Rightarrow> int \<Rightarrow> ('b, persist_receipt option) sto" where
  "read_commit_record S ref sid days =
     bind_sto (require_client S) (\<lambda>C.
     bind_sto (fetch_with_etag C (commit_record_key (st_prefix S) ref sid) max_registry_bytes) (\<lambda>r. case r of
        None \<Rightarrow> ret None
      | Some (BDoc j, etag) \<Rightarrow>
          bind_sto (check (validate_commit_record (st_iso S) ref j)) (\<lambda>rc.
            if pr_snapshot_id rc \<noteq> sid then raise RestoreFailed
            else if days > 0 \<and> pr_committed_at rc = None then raise RestoreFailed
            else ret (Some rc))
      | Some (BBytes _, etag) \<Rightarrow> raise RestoreFailed))"

definition write_commit_record :: "'b s3_storage \<Rightarrow> state_ref \<Rightarrow> persist_receipt \<Rightarrow> ('b, unit) sto" where
  "write_commit_record S ref rc =
     bind_sto (require_client S) (\<lambda>C.
     bind_sto (call (c_put C (commit_record_key (st_prefix S) ref (pr_snapshot_id rc)) (BDoc (receipt_json rc)) IfNoneMatchAny [])) (\<lambda>r.
       case r of
        Inr etag \<Rightarrow> ret ()
      | Inl e \<Rightarrow>
          if \<not> is_precondition_failed e then raise (ClientError e)
          else bind_sto (read_commit_record S ref (pr_snapshot_id rc) 0) (\<lambda>ex.
            if ex \<noteq> Some rc then raise RestoreFailed else ret ())))"

text \<open>\<open>Inl\<close> is \<open>PreconditionFailed\<close>; every other exception propagates.\<close>

definition cas_write_registry ::
  "'b s3_storage \<Rightarrow> state_ref \<Rightarrow> registry_doc \<Rightarrow> string option \<Rightarrow> ('b, (unit, string) result) sto" where
  "cas_write_registry S ref d expected =
     bind_sto (require_client S) (\<lambda>C.
     bind_sto (call (c_put C (registry_key (st_prefix S) ref) (BDoc (doc_json d))
        (case expected of None \<Rightarrow> IfNoneMatchAny | Some e \<Rightarrow> IfMatch e) [])) (\<lambda>r. case r of
        Inr etag \<Rightarrow> ret (Inr etag)
      | Inl e \<Rightarrow> if is_precondition_failed e then ret (Inl ()) else raise (ClientError e)))"

definition upload_snapshot_immutable ::
  "'b s3_storage \<Rightarrow> state_ref \<Rightarrow> string \<Rightarrow> string \<Rightarrow> string \<Rightarrow> metadata \<Rightarrow> ('b, bool) sto" where
  "upload_snapshot_immutable S ref sid data checksum owner =
     bind_sto (require_client S) (\<lambda>C.
     let key = snapshot_key (st_prefix S) ref sid in
     bind_sto (call (c_put C key (BBytes data) IfNoneMatchAny ((''sha256'', checksum) # owner))) (\<lambda>r. case r of
        Inr etag \<Rightarrow> ret True
      | Inl e \<Rightarrow>
          if \<not> is_precondition_failed e then raise (ClientError e)
          else bind_sto (call (c_head C key)) (\<lambda>h. case h of
              Inl e' \<Rightarrow> raise (ClientError e')
            | Inr (md, n) \<Rightarrow>
                if map_of md ''sha256'' \<noteq> Some checksum \<or> n \<noteq> int (length data) then raise SnapshotConflict
                else ret (list_all (\<lambda>(k, v). map_of md k = Some v) owner))))"

definition latest_is :: "registry_doc \<Rightarrow> string \<Rightarrow> string \<Rightarrow> int \<Rightarrow> bool" where
  "latest_is d sid checksum sz =
     (case rd_latest d of None \<Rightarrow> False
      | Some e \<Rightarrow> le_snapshot_id e = sid \<and> le_checksum e = checksum \<and> le_size e = sz)"

definition assert_lease_current :: "registry_doc option \<Rightarrow> writer_lease \<Rightarrow> ('b, unit) sto" where
  "assert_lease_current d lease = (if lease_current d lease then ret () else raise WriterFenced)"

definition reconciled_receipt_if_applied ::
  "'b s3_storage \<Rightarrow> state_ref \<Rightarrow> writer_lease \<Rightarrow> string \<Rightarrow> string \<Rightarrow> int \<Rightarrow> int \<Rightarrow>
   ('b, persist_receipt option \<times> registry_doc) sto" where
  "reconciled_receipt_if_applied S ref lease sid checksum sz days =
     bind_sto (read_registry S ref) (\<lambda>r.
     bind_sto (assert_lease_current (map_option fst r) lease) (\<lambda>_.
     case r of
       None \<Rightarrow> raise WriterFenced
     | Some (d, etag) \<Rightarrow>
         if latest_is d sid checksum sz
         then bind_sto (check (receipt_from ref d etag days)) (\<lambda>rc.
              bind_sto (write_commit_record S ref rc) (\<lambda>_. ret (Some rc, d)))
         else ret (None, d)))"

definition current_writer :: "'b s3_storage \<Rightarrow> state_ref \<Rightarrow> ('b, string option) sto" where
  "current_writer S ref =
     bind_sto (require_client S) (\<lambda>_. bind_sto (read_registry S ref) (\<lambda>r. ret (map_option (rd_writer_instance_id \<circ> fst) r)))"

section \<open>Writers\<close>

definition cas_retry_limit :: nat where "cas_retry_limit = 20"

definition transient_or :: "storage_error \<Rightarrow> ('b, 'a) sto" where
  "transient_or e = (if is_snapshot_transient e then raise SnapshotTransientFailure else raise e)"

text \<open>One turn of the loop: \<open>Inl\<close> the ETag that was rejected, or \<open>Inr\<close> the lease.\<close>

definition acquire_attempt ::
  "'b s3_storage \<Rightarrow> state_ref \<Rightarrow> string \<Rightarrow> string option \<Rightarrow> ('b, (string option, writer_lease) result) sto" where
  "acquire_attempt S ref inst rejected =
     catch
      (bind_sto (read_registry S ref) (\<lambda>r.
        let etag = map_option snd r in
        if etag \<noteq> None \<and> etag = rejected then raise StorageRuntimeError
        else
          let d = (case r of Some (c, _) \<Rightarrow> with_new_writer inst c | None \<Rightarrow> empty_doc inst) in
          bind_sto (cas_write_registry S ref d etag) (\<lambda>w. case w of
             Inl _ \<Rightarrow> ret (Inl etag)
           | Inr e' \<Rightarrow> ret (Inr \<lparr>wl_ref = ref, wl_writer_instance_id = inst, wl_epoch = rd_writer_epoch d,
               wl_base_etag = (if rd_latest d \<noteq> None then Some e' else None)\<rparr>))))
      transient_or"

fun acquire_loop :: "nat \<Rightarrow> 'b s3_storage \<Rightarrow> state_ref \<Rightarrow> string \<Rightarrow> string option \<Rightarrow> ('b, writer_lease) sto" where
  "acquire_loop 0 S ref inst rejected = raise StorageRuntimeError"
| "acquire_loop (Suc n) S ref inst rejected =
     bind_sto (acquire_attempt S ref inst rejected) (\<lambda>r. case r of
        Inl etag \<Rightarrow> acquire_loop n S ref inst etag
      | Inr lease \<Rightarrow> ret lease)"

definition acquire_writer :: "'b s3_storage \<Rightarrow> state_ref \<Rightarrow> string \<Rightarrow> ('b, writer_lease) sto" where
  "acquire_writer S ref inst =
     bind_sto (require_client S) (\<lambda>_. acquire_loop cas_retry_limit S ref inst None)"

section \<open>Persisting a snapshot\<close>

definition day_micros :: int where "day_micros = 86400 * 1000000"

definition new_entry :: "'b s3_storage \<Rightarrow> registry_doc \<Rightarrow> string \<Rightarrow> string \<Rightarrow> int \<Rightarrow> int \<Rightarrow> int \<Rightarrow> latest_entry" where
  "new_entry S current sid checksum sz now days =
     \<lparr>le_snapshot_id = sid, le_checksum = checksum, le_size = sz, le_version = version_of current + 1,
      le_committed_at = Some (iso_show (st_iso S) now),
      le_expires_at = (if days > 0 then Some (iso_show (st_iso S) (now + days * day_micros)) else None)\<rparr>"

text \<open>The end of \<open>_commit\<close>: the conditional registry write and what its failures mean.\<close>

definition publish ::
  "'b s3_storage \<Rightarrow> state_ref \<Rightarrow> writer_lease \<Rightarrow> registry_doc \<Rightarrow> string \<Rightarrow> string \<Rightarrow> int \<Rightarrow> string option \<Rightarrow> int \<Rightarrow> int \<Rightarrow>
   ('b, persist_receipt) sto" where
  "publish S ref lease current sid checksum sz base now days =
     (let e = new_entry S current sid checksum sz now days;
          d = with_committed_snapshot (wl_epoch lease) (wl_writer_instance_id lease) e current;
          reconcile = reconciled_receipt_if_applied S ref lease sid checksum sz days in
      bind_sto
       (catch (bind_sto (cas_write_registry S ref d base) (\<lambda>w. ret (Inr w)))
         (\<lambda>exc. bind_sto reconcile (\<lambda>(rc, refreshed). case rc of
             Some r \<Rightarrow> ret (Inl r)
           | None \<Rightarrow> if rd_latest refreshed \<noteq> rd_latest current then raise ConcurrentModification else raise exc)))
       (\<lambda>out. case out of
           Inl r \<Rightarrow> ret r
         | Inr (Inl _) \<Rightarrow> bind_sto reconcile (\<lambda>(rc, refreshed). case rc of
             Some r \<Rightarrow> ret r | None \<Rightarrow> raise ConcurrentModification)
         | Inr (Inr etag) \<Rightarrow>
             let rc = \<lparr>pr_ref = ref, pr_snapshot_id = sid, pr_writer_epoch = wl_epoch lease, pr_generation = rd_generation d,
                       pr_etag = etag, pr_checksum = checksum, pr_size = sz, pr_version = le_version e,
                       pr_committed_at = le_committed_at e, pr_expires_at = le_expires_at e\<rparr>
             in bind_sto (write_commit_record S ref rc) (\<lambda>_. ret rc)))"

definition owner_tag :: "writer_lease \<Rightarrow> registry_doc \<Rightarrow> metadata" where
  "owner_tag lease current = [(''writer-epoch'', int_str (wl_epoch lease)),
     (''writer-instance-id'', wl_writer_instance_id lease), (''base-generation'', int_str (rd_generation current))]"

definition commit_snapshot ::
  "'b s3_storage \<Rightarrow> state_ref \<Rightarrow> writer_lease \<Rightarrow> registry_doc \<Rightarrow> string \<Rightarrow> string \<Rightarrow> string \<Rightarrow> string option \<Rightarrow> int \<Rightarrow> int \<Rightarrow>
   ('b, persist_receipt) sto" where
  "commit_snapshot S ref lease current current_etag sid data expected_base now days =
     (let checksum = st_sha256 S data; sz = int (length data) in
      bind_sto (read_commit_record S ref sid days) (\<lambda>hist. case hist of
        Some rc \<Rightarrow> if pr_checksum rc = checksum \<and> pr_size rc = sz then ret rc else raise SnapshotConflict
      | None \<Rightarrow>
          if latest_is current sid checksum sz
          then bind_sto (check (receipt_from ref current current_etag days)) (\<lambda>rc.
               bind_sto (write_commit_record S ref rc) (\<lambda>_. ret rc))
          else
            bind_sto (upload_snapshot_immutable S ref sid data checksum (owner_tag lease current)) (\<lambda>mine.
              if \<not> mine then raise ConcurrentModification
              else if expected_base = None \<and> rd_latest current \<noteq> None then raise ConcurrentModification
              else publish S ref lease current sid checksum sz
                     (Some (case expected_base of None \<Rightarrow> current_etag | Some b \<Rightarrow> b)) now days)))"

definition persist ::
  "'b s3_storage \<Rightarrow> state_ref \<Rightarrow> string \<Rightarrow> string \<Rightarrow> writer_lease \<Rightarrow> string option \<Rightarrow> int \<Rightarrow> int \<Rightarrow> ('b, persist_receipt) sto" where
  "persist S ref sid data lease expected_base now days =
     (if days < 0 then raise StorageValueError
      else if wl_ref lease \<noteq> ref then raise WriterFenced
      else
        bind_sto (catch (read_registry S ref) transient_or) (\<lambda>r.
        bind_sto (assert_lease_current (map_option fst r) lease) (\<lambda>_.
        case r of
          None \<Rightarrow> raise WriterFenced
        | Some (current, etag) \<Rightarrow>
            if length data > st_max_snapshot_bytes S then raise ArchiveTooLarge
            else catch (commit_snapshot S ref lease current etag sid data expected_base now days)
                   (\<lambda>e. if e = SnapshotTransientFailure then raise e else transient_or e))))"

section \<open>Restoring\<close>

definition check_snapshot_expiry :: "iso \<Rightarrow> latest_entry \<Rightarrow> int \<Rightarrow> ('b, unit) sto" where
  "check_snapshot_expiry I e now =
     (case le_expires_at e of
        None \<Rightarrow> ret ()
      | Some t \<Rightarrow> (case iso_read I t of
          Some x \<Rightarrow> if now \<ge> x then raise SnapshotExpired else ret () | None \<Rightarrow> raise StorageValueError))"

text \<open>
  The read path also has the local cache, so its state is the backend and the cache, if one is
  configured. What a receipt carries: the registry fields and the bytes the cache had, if any.
\<close>

definition on_backend :: "('b, 'a) sto \<Rightarrow> ('b \<times> bcache option, 'a) sto" where
  "on_backend m s = (case m (fst s) of (r, b') \<Rightarrow> (r, (b', snd s)))"

definition from_cache :: "'b s3_storage \<Rightarrow> state_ref \<Rightarrow> latest_entry \<Rightarrow> ('b \<times> bcache option, string option) sto" where
  "from_cache S ref e s =
     (case snd s of
        None \<Rightarrow> (Inr None, s)
      | Some c \<Rightarrow> (case cache_get (st_sha256 S) (registry_key (st_prefix S) ref) (le_version e) (le_checksum e) c of
          (r, c') \<Rightarrow> (Inr r, (fst s, Some c'))))"

definition to_cache :: "'b s3_storage \<Rightarrow> state_ref \<Rightarrow> latest_entry \<Rightarrow> string \<Rightarrow> ('b \<times> bcache option, unit) sto" where
  "to_cache S ref e data s =
     (Inr (), (fst s, map_option (cache_put (st_sha256 S) (registry_key (st_prefix S) ref) (le_version e) data) (snd s)))"

record restore_receipt =
  rr_ref :: state_ref
  rr_writer_epoch :: int
  rr_generation :: int
  rr_etag :: string
  rr_latest :: latest_entry
  rr_cached :: "string option"

definition head_check :: "'b s3_client \<Rightarrow> string \<Rightarrow> latest_entry \<Rightarrow> ('b, unit) sto" where
  "head_check C key e =
     bind_sto (call (c_head C key)) (\<lambda>h. case h of
        Inl x \<Rightarrow> if is_not_found x then raise RestoreFailed else raise (ClientError x)
      | Inr (md, n) \<Rightarrow> if n \<noteq> le_size e then raise RestoreFailed else ret ())"

definition restore :: "'b s3_storage \<Rightarrow> state_ref \<Rightarrow> int \<Rightarrow> int \<Rightarrow> ('b \<times> bcache option, restore_receipt option) sto" where
  "restore S ref now days =
     (if days < 0 then raise StorageValueError
      else
        bind_sto (on_backend (require_client S)) (\<lambda>C.
        bind_sto (on_backend (read_registry S ref)) (\<lambda>r. case r of
          None \<Rightarrow> ret None
        | Some (d, etag) \<Rightarrow>
           (case rd_latest d of
              None \<Rightarrow> ret None
            | Some e \<Rightarrow>
                if days > 0 \<and> le_committed_at e = None then raise RestoreFailed
                else bind_sto (check_snapshot_expiry (st_iso S) e now) (\<lambda>_.
                  if le_size e > int (st_max_snapshot_bytes S) then raise RestoreFailed
                  else
                    bind_sto (from_cache S ref e) (\<lambda>cached.
                    bind_sto (if cached = None then on_backend (head_check C (snapshot_key (st_prefix S) ref (le_snapshot_id e)) e)
                              else ret ()) (\<lambda>_.
                    ret (Some \<lparr>rr_ref = ref, rr_writer_epoch = rd_writer_epoch d, rr_generation = rd_generation d,
                               rr_etag = etag, rr_latest = e, rr_cached = cached\<rparr>))))))))"

definition download_capped :: "'b s3_client \<Rightarrow> string \<Rightarrow> nat \<Rightarrow> ('b, string) sto" where
  "download_capped C key cap =
     bind_sto (call (c_get C key)) (\<lambda>r. case r of
        Inl x \<Rightarrow> raise (ClientError x)
      | Inr (BDoc _, n, etag) \<Rightarrow> raise RestoreFailed
      | Inr (BBytes data, n, etag) \<Rightarrow> if length data > cap then raise ArchiveTooLarge else ret data)"

text \<open>
  The content accessor \<open>_open\<close> of a receipt: the clock is read when it starts, after the download
  and after the cache write.
\<close>

definition open_content :: "'b s3_storage \<Rightarrow> restore_receipt \<Rightarrow> int \<Rightarrow> int \<Rightarrow> int \<Rightarrow> ('b \<times> bcache option, string) sto" where
  "open_content S rc t1 t2 t3 =
     (let e = rr_latest rc in
      bind_sto (check_snapshot_expiry (st_iso S) e t1) (\<lambda>_.
      case rr_cached rc of
        Some data \<Rightarrow> ret data
      | None \<Rightarrow>
          bind_sto (on_backend (require_client S)) (\<lambda>C.
          bind_sto (on_backend (download_capped C (snapshot_key (st_prefix S) (rr_ref rc) (le_snapshot_id e)) (st_max_snapshot_bytes S))) (\<lambda>data.
            if int (length data) \<noteq> le_size e then raise RestoreFailed
            else if st_sha256 S data \<noteq> le_checksum e then raise RestoreFailed
            else
              bind_sto (check_snapshot_expiry (st_iso S) e t2) (\<lambda>_.
              bind_sto (to_cache S (rr_ref rc) e data) (\<lambda>_.
              bind_sto (check_snapshot_expiry (st_iso S) e t3) (\<lambda>_. ret data)))))))"

end
