(* ===== verification/S3_Safety.thy ===== *)
theory S3_Safety
  imports S3_Storage Json_Text
begin

text \<open>
  Safety of the registry protocol of \<open>S3Storage\<close> against any number of concurrent writers.
\<close>

section \<open>Documents survive the wire\<close>

definition iso_ok :: "iso \<Rightarrow> bool" where
  "iso_ok I \<longleftrightarrow> (\<forall>x. iso_read I (iso_show I x) = Some x \<and> iso_show I x \<noteq> [])"

definition date_ok :: "iso \<Rightarrow> string option \<Rightarrow> bool" where
  "date_ok I t \<longleftrightarrow> (case t of None \<Rightarrow> True | Some s \<Rightarrow> (\<exists>x. s = iso_show I x))"

text \<open>Timestamps as the code writes them.\<close>

definition dates_ok :: "iso \<Rightarrow> registry_doc \<Rightarrow> bool" where
  "dates_ok I d \<longleftrightarrow> (case rd_latest d of None \<Rightarrow> True
     | Some e \<Rightarrow> date_ok I (le_committed_at e) \<and> date_ok I (le_expires_at e) \<and> (le_committed_at e = None \<longrightarrow> le_expires_at e = None))"

lemma parse_shown: "iso_ok I \<Longrightarrow> parse_retention_date I (JStr (iso_show I x)) = Inr (iso_show I x)"
  by (simp add: parse_retention_date_def iso_ok_def)

lemma retention_fields_parsed:
  assumes "iso_ok I" "date_ok I ct" "date_ok I et" "ct = None \<longrightarrow> et = None"
    and "map_of base ''committed_at'' = None" "map_of base ''expires_at'' = None"
    and "validate_retention_metadata I (base @ retention_fields ct et) = Inr (ct', et')"
  shows "ct' = ct \<and> et' = et"
proof (cases ct)
  case None
  then show ?thesis using assms by (simp add: validate_retention_metadata_def retention_fields_def)
next
  case (Some c)
  obtain x where c: "c = iso_show I x" using assms(2) Some by (auto simp: date_ok_def)
  have m: "map_of (base @ retention_fields ct et) ''committed_at'' = Some (JStr c)"
    "map_of (base @ retention_fields ct et) ''expires_at'' = Some (opt_str et)"
    using assms(5,6) Some by (simp_all add: retention_fields_def map_add_def)
  have "parse_nullable_date I (opt_str et) = Inr et"
    using assms(1,3) by (auto simp: parse_nullable_date_def opt_str_def date_ok_def parse_shown bind_res_def split: option.splits)
  then show ?thesis
    using assms(7) unfolding validate_retention_metadata_def m
    by (auto simp: c parse_shown[OF assms(1)] bind_res_def Some split: if_splits)
qed

lemma validate_latest_json:
  assumes "iso_ok I" "date_ok I (le_committed_at e)" "date_ok I (le_expires_at e)"
    and "le_committed_at e = None \<longrightarrow> le_expires_at e = None" and "validate_latest_entry I (latest_json e) = Inr e'"
  shows "e' = e"
proof -
  let ?base = "[(''snapshot_id'', JStr (le_snapshot_id e)), (''checksum'', JStr (le_checksum e)),
     (''size'', JInt (le_size e)), (''version'', JInt (le_version e))]"
  obtain ct et where v: "validate_retention_metadata I (?base @ retention_fields (le_committed_at e) (le_expires_at e)) = Inr (ct, et)"
    and e': "e' = \<lparr>le_snapshot_id = le_snapshot_id e, le_checksum = le_checksum e, le_size = le_size e, le_version = le_version e,
       le_committed_at = ct, le_expires_at = et\<rparr>"
    using assms(5)
    by (auto simp: validate_latest_entry_def latest_json_def bind_res_def nonempty_str_def sha_str_def int_from_def map_add_def
        split: sum.splits if_splits option.splits)
  have "ct = le_committed_at e \<and> et = le_expires_at e"
    by (rule retention_fields_parsed[OF assms(1-4) _ _ v]) simp_all
  then show ?thesis by (simp add: e')
qed

lemma validate_doc_json:
  assumes "iso_ok I" "dates_ok I d" "validate_registry_doc I (doc_json d) = Inr d'"
  shows "d' = d"
proof (cases "rd_latest d")
  case None
  then show ?thesis
    using assms(3)
    by (auto simp: validate_registry_doc_def doc_json_def bind_res_def nonempty_str_def int_from_def split: if_splits)
next
  case (Some e)
  have lj: "latest_json e \<noteq> JNull" "\<exists>dd. latest_json e = JObj dd" by (simp_all add: latest_json_def)
  obtain e' where e': "validate_latest_entry I (latest_json e) = Inr e'"
    and d': "d' = \<lparr>rd_writer_epoch = rd_writer_epoch d, rd_writer_instance_id = rd_writer_instance_id d,
      rd_generation = rd_generation d, rd_latest = Some e'\<rparr>"
    using assms(3) lj Some
    by (auto simp: validate_registry_doc_def doc_json_def bind_res_def nonempty_str_def int_from_def
        split: sum.splits if_splits json.splits)
  have "e' = e" using validate_latest_json[OF assms(1) _ _ _ e'] assms(2) Some by (simp add: dates_ok_def)
  then show ?thesis using d' Some by simp
qed

section \<open>The contract of the backend\<close>

definition good :: "iso \<Rightarrow> registry_doc list \<Rightarrow> bool" where
  "good I h \<longleftrightarrow> chain h \<and> (\<forall>d \<in> set h. dates_ok I d)"

text \<open>The registry object only gains contents, and as long as it was a proper history it stays one.\<close>

definition evolves :: "iso \<Rightarrow> registry_doc list \<Rightarrow> registry_doc list \<Rightarrow> bool" where
  "evolves I h h' \<longleftrightarrow> (\<exists>xs. h' = h @ xs) \<and> (good I h \<longrightarrow> good I h')"

definition cond_holds :: "(registry_doc \<Rightarrow> string) \<Rightarrow> put_cond \<Rightarrow> registry_doc list \<Rightarrow> bool" where
  "cond_holds tag cond h \<longleftrightarrow> (case cond of IfNoneMatchAny \<Rightarrow> h = [] | IfMatch e \<Rightarrow> h \<noteq> [] \<and> tag (last h) = e)"

text \<open>
  What the code relies on, for the registry object at key \<open>K\<close> with contents \<open>hist\<close> so far: ETags
  identify contents; during any call other writers, which run this same code, may extend the history;
  a read returns the contents of some moment of the call with their ETag, or not-found only if there
  were none; a conditional write that succeeds is applied when its condition holds, one that fails
  with a precondition error is not applied, and one that fails otherwise may or may not be.
\<close>

definition registry_backend :: "iso \<Rightarrow> 'b s3_client \<Rightarrow> string \<Rightarrow> ('b \<Rightarrow> registry_doc list) \<Rightarrow> (registry_doc \<Rightarrow> string) \<Rightarrow> bool" where
  "registry_backend I C K hist tag \<longleftrightarrow>
     inj tag
     \<and> (\<forall>key b. evolves I (hist b) (hist (snd (c_get C key b))))
     \<and> (\<forall>key b. evolves I (hist b) (hist (snd (c_head C key b))))
     \<and> (\<forall>key bd cond md b. key \<noteq> K \<longrightarrow> evolves I (hist b) (hist (snd (c_put C key bd cond md b))))
     \<and> (\<forall>b bd n e b'. c_get C K b = (Inr (bd, n, e), b') \<longrightarrow>
          (\<exists>h. evolves I (hist b) h \<and> evolves I h (hist b') \<and> h \<noteq> [] \<and> bd = BDoc (doc_json (last h)) \<and> e = tag (last h)))
     \<and> (\<forall>b x b'. c_get C K b = (Inl x, b') \<longrightarrow> is_not_found x \<longrightarrow> hist b = [])
     \<and> (\<forall>b d cond md e b'. dates_ok I d \<longrightarrow> c_put C K (BDoc (doc_json d)) cond md b = (Inr e, b') \<longrightarrow>
          e = tag d \<and> (\<exists>h. evolves I (hist b) h \<and> evolves I (h @ [d]) (hist b') \<and> cond_holds tag cond h))
     \<and> (\<forall>b d cond md x b'. dates_ok I d \<longrightarrow> c_put C K (BDoc (doc_json d)) cond md b = (Inl x, b') \<longrightarrow>
          evolves I (hist b) (hist b')
          \<or> \<not> is_precondition_failed x
            \<and> (\<exists>h. evolves I (hist b) h \<and> evolves I (h @ [d]) (hist b') \<and> cond_holds tag cond h))"

lemma evolves_refl [simp]: "evolves I h h"
  by (simp add: evolves_def)

lemma evolves_trans: "evolves I h h' \<Longrightarrow> evolves I h' h'' \<Longrightarrow> evolves I h h''"
  by (auto simp: evolves_def)

section \<open>Code that leaves the registry's history proper\<close>

definition keeps :: "iso \<Rightarrow> ('b \<Rightarrow> registry_doc list) \<Rightarrow> ('b, 'a) sto \<Rightarrow> 'b \<Rightarrow> bool" where
  "keeps I hist m b \<longleftrightarrow> evolves I (hist b) (hist (snd (m b)))"

lemma keeps_simple [simp]: "keeps I hist (ret x) b" "keeps I hist (raise e) b" "keeps I hist (check r) b"
  by (simp_all add: keeps_def ret_def raise_def check_def)

lemma keeps_bind:
  assumes "keeps I hist m b" "\<And>x b'. m b = (Inr x, b') \<Longrightarrow> keeps I hist (f x) b'"
  shows "keeps I hist (bind_sto m f) b"
  using assms evolves_trans[of I "hist b"] by (force simp: keeps_def bind_sto_def split: prod.splits sum.splits)

lemma keeps_catch:
  assumes "keeps I hist m b" "\<And>e b'. m b = (Inl e, b') \<Longrightarrow> keeps I hist (h e) b'"
  shows "keeps I hist (catch m h) b"
  using assms evolves_trans[of I "hist b"] by (force simp: keeps_def catch_def split: prod.splits sum.splits)

lemma keeps_call: "keeps I hist (call f) b \<longleftrightarrow> evolves I (hist b) (hist (snd (f b)))"
  by (simp add: keeps_def call_def split: prod.split)

text \<open>A storage object over such a backend, for one reference and one snapshot id.\<close>

definition backed :: "'b s3_storage \<Rightarrow> 'b s3_client \<Rightarrow> state_ref \<Rightarrow> string \<Rightarrow> ('b \<Rightarrow> registry_doc list) \<Rightarrow> (registry_doc \<Rightarrow> string) \<Rightarrow> bool" where
  "backed S C ref sid hist tag \<longleftrightarrow>
     st_client S = Some C \<and> iso_ok (st_iso S) \<and> registry_backend (st_iso S) C (registry_key (st_prefix S) ref) hist tag
     \<and> commit_record_key (st_prefix S) ref sid \<noteq> registry_key (st_prefix S) ref
     \<and> snapshot_key (st_prefix S) ref sid \<noteq> registry_key (st_prefix S) ref"

lemma backedI:
  assumes "make_state_ref a w dm s = Inr ref" "flat sid" "st_client S = Some C" "iso_ok (st_iso S)"
    "registry_backend (st_iso S) C (registry_key (st_prefix S) ref) hist tag"
  shows "backed S C ref sid hist tag"
  using assms(3-) key_kinds_separate[OF assms(1,1,2), of "st_prefix S", symmetric] by (simp add: backed_def)

lemma backedD:
  assumes "backed S C ref sid hist tag"
  shows "st_client S = Some C" "iso_ok (st_iso S)" "inj tag"
    "\<And>key b. evolves (st_iso S) (hist b) (hist (snd (c_get C key b)))"
    "\<And>key b. evolves (st_iso S) (hist b) (hist (snd (c_head C key b)))"
    "\<And>bd cond md b. evolves (st_iso S) (hist b) (hist (snd (c_put C (commit_record_key (st_prefix S) ref sid) bd cond md b)))"
    "\<And>bd cond md b. evolves (st_iso S) (hist b) (hist (snd (c_put C (snapshot_key (st_prefix S) ref sid) bd cond md b)))"
    "\<And>b bd n e b'. c_get C (registry_key (st_prefix S) ref) b = (Inr (bd, n, e), b') \<Longrightarrow>
       \<exists>h. evolves (st_iso S) (hist b) h \<and> evolves (st_iso S) h (hist b') \<and> h \<noteq> [] \<and> bd = BDoc (doc_json (last h)) \<and> e = tag (last h)"
    "\<And>b x b'. c_get C (registry_key (st_prefix S) ref) b = (Inl x, b') \<Longrightarrow> is_not_found x \<Longrightarrow> hist b = []"
    "\<And>b d cond md e b'. dates_ok (st_iso S) d \<Longrightarrow> c_put C (registry_key (st_prefix S) ref) (BDoc (doc_json d)) cond md b = (Inr e, b') \<Longrightarrow>
       e = tag d \<and> (\<exists>h. evolves (st_iso S) (hist b) h \<and> evolves (st_iso S) (h @ [d]) (hist b') \<and> cond_holds tag cond h)"
    "\<And>b d cond md x b'. dates_ok (st_iso S) d \<Longrightarrow> c_put C (registry_key (st_prefix S) ref) (BDoc (doc_json d)) cond md b = (Inl x, b') \<Longrightarrow>
       evolves (st_iso S) (hist b) (hist b') \<or> \<not> is_precondition_failed x
       \<and> (\<exists>h. evolves (st_iso S) (hist b) h \<and> evolves (st_iso S) (h @ [d]) (hist b') \<and> cond_holds tag cond h)"
  using assms unfolding backed_def registry_backend_def by (elim conjE; (assumption | simp | metis))+

lemma keeps_require [simp]: "keeps I hist (require_client S) b"
  by (simp add: require_client_def split: option.split)

lemma require_client_Some: "st_client S = Some C \<Longrightarrow> require_client S = ret C"
  by (simp add: require_client_def)

lemma bind_ret [simp]: "bind_sto (ret x) f = f x"
  by (simp add: bind_sto_def ret_def fun_eq_iff)

lemma keeps_fetch: "(\<And>b. evolves I (hist b) (hist (snd (c_get C key b)))) \<Longrightarrow> keeps I hist (fetch_with_etag C key n) b"
  unfolding fetch_with_etag_def
  by (rule keeps_bind) (auto simp: keeps_call split: sum.split prod.split)

lemma keeps_read_registry:
  assumes "backed S C ref sid hist tag"
  shows "keeps (st_iso S) hist (read_registry S ref) b"
  unfolding read_registry_def require_client_Some[OF backedD(1)[OF assms]] bind_ret
  using backedD(4)[OF assms]
  by (auto intro!: keeps_bind keeps_fetch split: option.split prod.split body.split)

lemma keeps_read_commit_record:
  assumes "backed S C ref sid hist tag"
  shows "keeps (st_iso S) hist (read_commit_record S ref sid' days) b"
  unfolding read_commit_record_def require_client_Some[OF backedD(1)[OF assms]] bind_ret
  using backedD(4)[OF assms]
  by (auto intro!: keeps_bind keeps_fetch split: option.split prod.split body.split)

lemma keeps_write_commit_record:
  assumes "backed S C ref sid hist tag" "pr_snapshot_id rc = sid"
  shows "keeps (st_iso S) hist (write_commit_record S ref rc) b"
  unfolding write_commit_record_def require_client_Some[OF backedD(1)[OF assms(1)]] bind_ret
  using backedD(6)[OF assms(1)] keeps_read_commit_record[OF assms(1)]
  by (auto intro!: keeps_bind simp: keeps_call assms(2) split: sum.split)

lemma keeps_upload:
  assumes "backed S C ref sid hist tag"
  shows "keeps (st_iso S) hist (upload_snapshot_immutable S ref sid data ck owner) b"
  unfolding upload_snapshot_immutable_def require_client_Some[OF backedD(1)[OF assms]] bind_ret Let_def
  using backedD(5,7)[OF assms]
  by (auto intro!: keeps_bind simp: keeps_call split: sum.split prod.split)

lemma keeps_reconcile:
  assumes "backed S C ref sid hist tag"
  shows "keeps (st_iso S) hist (reconciled_receipt_if_applied S ref lease sid ck sz days) b"
  unfolding reconciled_receipt_if_applied_def
  using keeps_read_registry[OF assms] keeps_write_commit_record[OF assms]
  by (auto intro!: keeps_bind simp: assert_lease_current_def check_def receipt_from_def latest_is_def split: option.splits prod.split if_splits)

text \<open>What a registry read tells: the contents of a moment of the call.\<close>

lemma read_registry_Some:
  assumes B: "backed S C ref sid hist tag" and good: "good (st_iso S) (hist b)"
    and r: "read_registry S ref b = (Inr (Some (d, e)), b')"
  obtains h where "evolves (st_iso S) (hist b) h" "evolves (st_iso S) h (hist b')" "h \<noteq> []" "d = last h" "e = tag d"
proof -
  let ?K = "registry_key (st_prefix S) ref"
  obtain j n where g: "c_get C ?K b = (Inr (BDoc j, n, e), b')" and v: "validate_registry_doc (st_iso S) j = Inr d"
    using r unfolding read_registry_def require_client_Some[OF backedD(1)[OF B]] bind_ret
    by (auto simp: bind_sto_def fetch_with_etag_def call_def ret_def raise_def check_def
        split: prod.splits sum.splits if_splits option.splits body.splits)
  obtain h where h: "evolves (st_iso S) (hist b) h" "evolves (st_iso S) h (hist b')" "h \<noteq> []" "BDoc j = BDoc (doc_json (last h))" "e = tag (last h)"
    using backedD(8)[OF B g] by blast
  have "good (st_iso S) h" using h(1) good by (simp add: evolves_def)
  then have "dates_ok (st_iso S) (last h)" using h(3) by (simp add: good_def)
  then have "d = last h" using validate_doc_json[OF backedD(2)[OF B]] v h(4) by simp
  then show thesis using that h by blast
qed

lemma read_registry_None:
  assumes B: "backed S C ref sid hist tag" and r: "read_registry S ref b = (Inr None, b')"
  shows "hist b = []"
proof -
  obtain x where "c_get C (registry_key (st_prefix S) ref) b = (Inl x, b')" "is_not_found x"
    using r unfolding read_registry_def require_client_Some[OF backedD(1)[OF B]] bind_ret
    by (auto simp: bind_sto_def fetch_with_etag_def call_def ret_def raise_def check_def
        split: prod.splits sum.splits if_splits option.splits body.splits)
  then show ?thesis using backedD(9)[OF B] by blast
qed

text \<open>A conditional registry write is harmless if its document extends every history its condition accepts.\<close>

lemma keeps_cas:
  assumes B: "backed S C ref sid hist tag" and good: "good (st_iso S) (hist b)" and dates: "dates_ok (st_iso S) d"
    and ext: "\<And>h. \<lbrakk>evolves (st_iso S) (hist b) h; good (st_iso S) h; cond_holds tag (case base of None \<Rightarrow> IfNoneMatchAny | Some e \<Rightarrow> IfMatch e) h\<rbrakk>
      \<Longrightarrow> good (st_iso S) (h @ [d])"
  shows "keeps (st_iso S) hist (cas_write_registry S ref d base) b"
proof -
  let ?c = "case base of None \<Rightarrow> IfNoneMatchAny | Some e \<Rightarrow> IfMatch e"
  obtain r b' where p: "c_put C (registry_key (st_prefix S) ref) (BDoc (doc_json d)) ?c [] b = (r, b')" by fastforce
  have applied: "evolves (st_iso S) (hist b) (hist b')"
    if "evolves (st_iso S) (hist b) h" "evolves (st_iso S) (h @ [d]) (hist b')" "cond_holds tag ?c h" for h
  proof -
    have "good (st_iso S) h" using that(1) good by (simp add: evolves_def)
    then have "good (st_iso S) (h @ [d])" using ext that by blast
    then show ?thesis using that by (auto simp: evolves_def)
  qed
  have "evolves (st_iso S) (hist b) (hist b')"
  proof (cases r)
    case (Inl x)
    then show ?thesis using backedD(11)[OF B dates, of ?c "[]" b x b'] p applied by auto
  next
    case (Inr e)
    then show ?thesis using backedD(10)[OF B dates, of ?c "[]" b e b'] p applied by auto
  qed
  then show ?thesis
    unfolding cas_write_registry_def require_client_Some[OF backedD(1)[OF B]] bind_ret
    using p by (auto intro!: keeps_bind simp: keeps_call split: sum.split)
qed

section \<open>Acquiring and persisting\<close>

lemma good_step:
  assumes "good I h" "h \<noteq> []" "doc_step (last h) d" "dates_ok I d"
  shows "good I (h @ [d])"
  using assms by (auto simp: good_def chain_step)

lemma good_evolves: "evolves I h h' \<Longrightarrow> good I h \<Longrightarrow> good I h'"
  by (simp add: evolves_def)

lemma keepsD: "keeps I hist m b \<Longrightarrow> m b = (r, b') \<Longrightarrow> evolves I (hist b) (hist b')"
  by (simp add: keeps_def)

lemma new_writer_dates:
  assumes B: "backed S C ref sid hist tag" and good: "good (st_iso S) (hist b)" and r: "read_registry S ref b = (Inr r, b1)"
  shows "dates_ok (st_iso S) (case r of Some (c, _) \<Rightarrow> with_new_writer inst c | None \<Rightarrow> empty_doc inst)"
proof (cases r)
  case (Some ce)
  obtain c e where ce: "ce = (c, e)" by fastforce
  obtain h where h: "evolves (st_iso S) (hist b) h" "h \<noteq> []" "c = last h"
    using read_registry_Some[OF B good] r Some ce by metis
  then show ?thesis using good_evolves[OF h(1) good] Some ce by (simp add: good_def dates_ok_def with_new_writer_def)
qed (simp add: dates_ok_def empty_doc_def)

lemma keeps_acquire_attempt:
  assumes B: "backed S C ref sid hist tag" and good: "good (st_iso S) (hist b)"
  shows "keeps (st_iso S) hist (acquire_attempt S ref inst rejected) b"
  unfolding acquire_attempt_def
proof (rule keeps_catch[OF keeps_bind[OF keeps_read_registry[OF B]]])
  fix r b1 assume r: "read_registry S ref b = (Inr r, b1)"
  have g1: "good (st_iso S) (hist b1)"
    using good_evolves[OF keepsD[OF keeps_read_registry[OF B] r] good] .
  let ?d = "case r of Some (c, _) \<Rightarrow> with_new_writer inst c | None \<Rightarrow> empty_doc inst"
  have "keeps (st_iso S) hist (cas_write_registry S ref ?d (map_option snd r)) b1"
  proof (rule keeps_cas[OF B g1 new_writer_dates[OF B good r]])
    fix h assume h: "evolves (st_iso S) (hist b1) h" "good (st_iso S) h"
      "cond_holds tag (case map_option snd r of None \<Rightarrow> IfNoneMatchAny | Some e \<Rightarrow> IfMatch e) h"
    show "good (st_iso S) (h @ [?d])"
    proof (cases r)
      case None
      then show ?thesis using h by (simp add: cond_holds_def good_def chain_first dates_ok_def empty_doc_def[of inst])
        (simp flip: empty_doc_def add: chain_first)
    next
      case (Some ce)
      obtain c e where ce: "ce = (c, e)" by fastforce
      obtain h0 where "e = tag c" using read_registry_Some[OF B good] r Some ce by metis
      then have "h \<noteq> []" "last h = c" using h(3) Some ce backedD(3)[OF B] by (auto simp: cond_holds_def dest: injD)
      moreover have "dates_ok (st_iso S) c" using calculation h(2) by (auto simp: good_def)
      ultimately show ?thesis
        using Some ce good_step[OF h(2), of "with_new_writer inst c"] new_writer[of c inst]
        by (simp add: dates_ok_def with_new_writer_def[of inst c])
    qed
  qed
  then show "keeps (st_iso S) hist
      (let etag = map_option snd r in
        if etag \<noteq> None \<and> etag = rejected then raise StorageRuntimeError
        else
          let d = (case r of Some (c, _) \<Rightarrow> with_new_writer inst c | None \<Rightarrow> empty_doc inst) in
          bind_sto (cas_write_registry S ref d etag) (\<lambda>w. case w of
             Inl _ \<Rightarrow> ret (Inl etag)
           | Inr e' \<Rightarrow> ret (Inr \<lparr>wl_ref = ref, wl_writer_instance_id = inst, wl_epoch = rd_writer_epoch d,
               wl_base_etag = (if rd_latest d \<noteq> None then Some e' else None)\<rparr>))) b1"
    by (auto simp: Let_def intro!: keeps_bind split: sum.split)
qed (simp add: transient_or_def)

lemma keeps_acquire_loop:
  assumes B: "backed S C ref sid hist tag"
  shows "good (st_iso S) (hist b) \<Longrightarrow> keeps (st_iso S) hist (acquire_loop n S ref inst rejected) b"
proof (induction n arbitrary: rejected b)
  case (Suc n)
  show ?case unfolding acquire_loop.simps
  proof (rule keeps_bind[OF keeps_acquire_attempt[OF B Suc.prems]])
    fix r b' assume r: "acquire_attempt S ref inst rejected b = (Inr r, b')"
    have "good (st_iso S) (hist b')"
      using good_evolves[OF keepsD[OF keeps_acquire_attempt[OF B Suc.prems] r] Suc.prems] .
    then show "keeps (st_iso S) hist (case r of Inl etag \<Rightarrow> acquire_loop n S ref inst etag | Inr lease \<Rightarrow> ret lease) b'"
      using Suc.IH by (simp split: sum.split)
  qed
qed simp

lemma keeps_publish:
  assumes B: "backed S C ref sid hist tag" and good: "good (st_iso S) (hist b)"
    and lease: "lease_current (Some current) lease" and dates: "dates_ok (st_iso S) current"
    and base: "\<And>h. \<lbrakk>evolves (st_iso S) (hist b) h; good (st_iso S) h; h \<noteq> []; tag (last h) = e\<rbrakk> \<Longrightarrow> last h = current"
  shows "keeps (st_iso S) hist (publish S ref lease current sid ck sz (Some e) now days) b"
proof -
  let ?e = "new_entry S current sid ck sz now days"
  let ?d = "with_committed_snapshot (wl_epoch lease) (wl_writer_instance_id lease) ?e current"
  have nd: "dates_ok (st_iso S) ?d"
    by (auto simp: dates_ok_def with_committed_snapshot_def new_entry_def date_ok_def)
  have cas: "keeps (st_iso S) hist (cas_write_registry S ref ?d (Some e)) b"
  proof (rule keeps_cas[OF B good nd])
    fix h assume h: "evolves (st_iso S) (hist b) h" "good (st_iso S) h"
      "cond_holds tag (case Some e of None \<Rightarrow> IfNoneMatchAny | Some e \<Rightarrow> IfMatch e) h"
    then have l: "h \<noteq> []" "last h = current" using base by (auto simp: cond_holds_def)
    have "doc_step current ?d"
      using commit[of ?e current] lease by (simp add: lease_current_def new_entry_def)
    then show "good (st_iso S) (h @ [?d])" using good_step[OF h(2) l(1)] l(2) nd by simp
  qed
  note rec = keeps_reconcile[OF B, of lease ck sz days]
  show ?thesis
    unfolding publish_def Let_def
    using cas rec keeps_write_commit_record[OF B]
    by (auto intro!: keeps_bind keeps_catch split: sum.split option.split prod.split)
qed

lemma keeps_commit_snapshot:
  assumes B: "backed S C ref sid hist tag" and good0: "good (st_iso S) (hist b0)"
    and h0: "evolves (st_iso S) (hist b0) h0" "evolves (st_iso S) h0 (hist b)" "h0 \<noteq> []" "current = last h0"
    and etag: "etag = tag current" and lease: "lease_current (Some current) lease"
    and eb: "expected_base = None \<or> (\<exists>c \<in> set (hist b0). expected_base = Some (tag c))"
  shows "keeps (st_iso S) hist (commit_snapshot S ref lease current etag sid data expected_base now days) b"
proof -
  have g0: "good (st_iso S) h0" by (rule good_evolves[OF h0(1) good0])
  have gb: "good (st_iso S) (hist b)" by (rule good_evolves[OF h0(2) g0])
  have dates: "dates_ok (st_iso S) current" using g0 h0(3,4) by (simp add: good_def)
  have base: "last h = current"
    if h: "evolves (st_iso S) (hist b) h" "good (st_iso S) h" "h \<noteq> []"
      "tag (last h) = (case expected_base of None \<Rightarrow> etag | Some x \<Rightarrow> x)" for h
  proof (cases expected_base)
    case None
    then show ?thesis using h etag backedD(3)[OF B] by (auto dest: injD)
  next
    case (Some x)
    then obtain c where c: "c \<in> set (hist b0)" "x = tag c" using eb by auto
    then have lc: "last h = c" using h(4) Some backedD(3)[OF B] by (auto dest: injD)
    obtain i where i: "i < length (hist b0)" "hist b0 ! i = c" using c(1) by (auto simp: in_set_conv_nth)
    obtain xs ys zs where e: "h0 = hist b0 @ xs" "hist b = h0 @ ys" "h = hist b @ zs"
      using h0(1,2) h(1) by (auto simp: evolves_def)
    have "i = length h - 1"
      by (rule chain_distinct[of h]) (use h(2,3) i lc e in \<open>auto simp: good_def nth_append last_conv_nth\<close>)
    moreover have "length h = length (hist b0) + length xs + length ys + length zs" using e by simp
    ultimately have "length xs = 0" "length ys = 0" "length zs = 0" using i(1) by linarith+
    then show ?thesis using e h0(4) by simp
  qed
  show ?thesis
    unfolding commit_snapshot_def Let_def
  proof (rule keeps_bind[OF keeps_read_commit_record[OF B]])
    fix r b1 assume r: "read_commit_record S ref sid days b = (Inr r, b1)"
    note e1 = keepsD[OF keeps_read_commit_record[OF B] r]
    have up: "keeps (st_iso S) hist (bind_sto (upload_snapshot_immutable S ref sid data (st_sha256 S data) (owner_tag lease current)) (\<lambda>mine.
              if \<not> mine then raise ConcurrentModification
              else if expected_base = None \<and> rd_latest current \<noteq> None then raise ConcurrentModification
              else publish S ref lease current sid (st_sha256 S data) (int (length data))
                     (Some (case expected_base of None \<Rightarrow> etag | Some b \<Rightarrow> b)) now days)) b1"
    proof (rule keeps_bind[OF keeps_upload[OF B]])
      fix m b2 assume m: "upload_snapshot_immutable S ref sid data (st_sha256 S data) (owner_tag lease current) b1 = (Inr m, b2)"
      have e2: "evolves (st_iso S) (hist b) (hist b2)" using evolves_trans[OF e1 keepsD[OF keeps_upload[OF B] m]] .
      have "keeps (st_iso S) hist (publish S ref lease current sid (st_sha256 S data) (int (length data))
          (Some (case expected_base of None \<Rightarrow> etag | Some b \<Rightarrow> b)) now days) b2"
        by (rule keeps_publish[OF B good_evolves[OF e2 gb] lease dates]) (use base evolves_trans[OF e2] in blast)
      then show "keeps (st_iso S) hist (if \<not> m then raise ConcurrentModification
              else if expected_base = None \<and> rd_latest current \<noteq> None then raise ConcurrentModification
              else publish S ref lease current sid (st_sha256 S data) (int (length data))
                     (Some (case expected_base of None \<Rightarrow> etag | Some b \<Rightarrow> b)) now days) b2" by simp
    qed
    have rep: "keeps (st_iso S) hist (bind_sto (check (receipt_from ref current etag days)) (\<lambda>rc.
        bind_sto (write_commit_record S ref rc) (\<lambda>_. ret rc))) b1" if "latest_is current sid (st_sha256 S data) (int (length data))"
      using keeps_write_commit_record[OF B] that
      by (auto intro!: keeps_bind simp: check_def receipt_from_def latest_is_def split: option.splits if_splits)
    show "keeps (st_iso S) hist (case r of
        Some rc \<Rightarrow> if pr_checksum rc = st_sha256 S data \<and> pr_size rc = int (length data) then ret rc else raise SnapshotConflict
      | None \<Rightarrow>
          if latest_is current sid (st_sha256 S data) (int (length data))
          then bind_sto (check (receipt_from ref current etag days)) (\<lambda>rc.
               bind_sto (write_commit_record S ref rc) (\<lambda>_. ret rc))
          else
            bind_sto (upload_snapshot_immutable S ref sid data (st_sha256 S data) (owner_tag lease current)) (\<lambda>mine.
              if \<not> mine then raise ConcurrentModification
              else if expected_base = None \<and> rd_latest current \<noteq> None then raise ConcurrentModification
              else publish S ref lease current sid (st_sha256 S data) (int (length data))
                     (Some (case expected_base of None \<Rightarrow> etag | Some b \<Rightarrow> b)) now days)) b1"
    proof (cases r)
      case None
      then show ?thesis
        using up rep by (cases "latest_is current sid (st_sha256 S data) (int (length data))")
          (simp_all only: option.case if_True if_False)
    qed simp
  qed
qed

lemma keeps_persist:
  assumes B: "backed S C ref sid hist tag" and good: "good (st_iso S) (hist b)"
    and eb: "expected_base = None \<or> (\<exists>c \<in> set (hist b). expected_base = Some (tag c))"
  shows "keeps (st_iso S) hist (persist S ref sid data lease expected_base now days) b"
proof -
  let ?rd = "catch (read_registry S ref) transient_or"
  have rd: "keeps (st_iso S) hist ?rd b" by (rule keeps_catch[OF keeps_read_registry[OF B]]) (simp add: transient_or_def)
  have body: "keeps (st_iso S) hist (bind_sto (assert_lease_current (map_option fst r) lease) (\<lambda>_.
        case r of
          None \<Rightarrow> raise WriterFenced
        | Some (current, etag) \<Rightarrow>
            if length data > st_max_snapshot_bytes S then raise ArchiveTooLarge
            else catch (commit_snapshot S ref lease current etag sid data expected_base now days)
                   (\<lambda>e. if e = SnapshotTransientFailure then raise e else transient_or e))) b1"
    if r: "?rd b = (Inr r, b1)" for r b1
  proof (cases r)
    case (Some ce)
    obtain current etag where ce: "ce = (current, etag)" by fastforce
    have rr: "read_registry S ref b = (Inr (Some (current, etag)), b1)"
      using r Some ce by (auto simp: catch_def transient_or_def raise_def split: prod.splits sum.splits if_splits)
    obtain h where h: "evolves (st_iso S) (hist b) h" "evolves (st_iso S) h (hist b1)" "h \<noteq> []" "current = last h" "etag = tag current"
      using read_registry_Some[OF B good rr] .
    have "keeps (st_iso S) hist (commit_snapshot S ref lease current etag sid data expected_base now days) b1"
      if "lease_current (Some current) lease"
      by (rule keeps_commit_snapshot[OF B good h that eb])
    then show ?thesis
      using Some ce by (auto intro!: keeps_bind keeps_catch simp: assert_lease_current_def raise_def ret_def transient_or_def split: if_splits)
  qed (auto intro!: keeps_bind simp: assert_lease_current_def)
  show ?thesis
    unfolding persist_def using keeps_bind[OF rd body] by simp
qed

text \<open>
  C5. Writers cannot break the registry. Against a backend with honest conditional writes and any
  number of other writers acting during every call, \<open>acquire_writer\<close> and \<open>persist\<close>, whatever they
  return or raise (lost acknowledgements included), leave the registry's contents a proper history:
  each new document either hands over to a new writer with the next epoch and keeps the committed
  snapshot, or is the next version committed by exactly the writer and epoch in force, with the
  generation one higher. So no fenced writer ever commits and no commit is ever lost or overwritten.
\<close>

theorem registry_history_proper:
  assumes "backed S C ref sid hist tag" "good (st_iso S) (hist b)"
    and "expected_base = None \<or> (\<exists>c \<in> set (hist b). expected_base = Some (tag c))"
  shows "evolves (st_iso S) (hist b) (hist (snd (persist S ref sid data lease expected_base now days b)))
    \<and> evolves (st_iso S) (hist b) (hist (snd (acquire_writer S ref inst b)))
    \<and> chain (hist (snd (persist S ref sid data lease expected_base now days b)))
    \<and> chain (hist (snd (acquire_writer S ref inst b)))"
proof -
  have p: "evolves (st_iso S) (hist b) (hist (snd (persist S ref sid data lease expected_base now days b)))"
    using keeps_persist[OF assms] by (simp add: keeps_def)
  have a: "evolves (st_iso S) (hist b) (hist (snd (acquire_writer S ref inst b)))"
    using keeps_acquire_loop[OF assms(1,2)] by (simp add: keeps_def acquire_writer_def require_client_Some[OF backedD(1)[OF assms(1)]])
  show ?thesis using p a good_evolves[OF p assms(2)] good_evolves[OF a assms(2)] by (simp add: good_def)
qed

lemma attempt_lease:
  assumes B: "backed S C ref sid hist tag" and good: "good (st_iso S) (hist b)"
    and r: "acquire_attempt S ref inst rejected b = (Inr (Inr lease), b')"
  shows "wl_writer_instance_id lease = inst \<and> (\<forall>c \<in> set (hist b). rd_writer_epoch c < wl_epoch lease)
    \<and> (\<exists>d \<in> set (hist b'). rd_writer_epoch d = wl_epoch lease \<and> rd_writer_instance_id d = inst)"
proof -
  let ?K = "registry_key (st_prefix S) ref"
  obtain rr b1 where rd: "read_registry S ref b = (Inr rr, b1)"
    using r by (auto simp: acquire_attempt_def catch_def bind_sto_def transient_or_def raise_def split: prod.splits sum.splits if_splits)
  define d where "d = (case rr of Some (c, _) \<Rightarrow> with_new_writer inst c | None \<Rightarrow> empty_doc inst)"
  define cond where "cond = case_option IfNoneMatchAny (IfMatch \<circ> snd) rr"
  obtain e' where put: "c_put C ?K (BDoc (doc_json d)) cond [] b1 = (Inr e', b')"
    and lease: "wl_writer_instance_id lease = inst" "wl_epoch lease = rd_writer_epoch d"
    using r rd
    by (auto simp: acquire_attempt_def catch_def bind_sto_def transient_or_def raise_def ret_def cas_write_registry_def call_def
        require_client_Some[OF backedD(1)[OF B]] Let_def d_def[symmetric] cond_def[symmetric]
        split: prod.splits sum.splits if_splits)
  note ev1 = keepsD[OF keeps_read_registry[OF B] rd]
  obtain h where h: "evolves (st_iso S) (hist b1) h" "evolves (st_iso S) (h @ [d]) (hist b')" "cond_holds tag cond h"
    using backedD(10)[OF B _ put] new_writer_dates[OF B good rd, of inst] by (auto simp: d_def)
  have gh: "good (st_iso S) h" using good_evolves[OF evolves_trans[OF ev1 h(1)] good] .
  have sub: "set (hist b) \<subseteq> set h" using evolves_trans[OF ev1 h(1)] by (auto simp: evolves_def)
  have inst: "rd_writer_instance_id d = inst" by (auto simp: d_def with_new_writer_def empty_doc_def split: option.split prod.split)
  have "rd_writer_epoch c < rd_writer_epoch d" if ch: "c \<in> set h" for c
  proof (cases rr)
    case None
    then show ?thesis using h(3) ch by (simp add: cond_def cond_holds_def)
  next
    case (Some ce)
    obtain cc e where ce: "ce = (cc, e)" by fastforce
    have "e = tag cc" using read_registry_Some[OF B good] rd Some ce by metis
    then have l: "h \<noteq> []" "last h = cc" using h(3) Some ce backedD(3)[OF B] by (auto simp: cond_def cond_holds_def dest: injD)
    obtain i where i: "i < length h" "h ! i = c" using ch by (auto simp: in_set_conv_nth)
    have "rd_writer_epoch c \<le> rd_writer_epoch cc"
      using chain_mono[of h i "length h - 1"] gh i l by (auto simp: good_def last_conv_nth)
    then show ?thesis using Some ce by (simp add: d_def with_new_writer_def)
  qed
  moreover have "d \<in> set (hist b')" using h(2) by (auto simp: evolves_def)
  ultimately show ?thesis using lease inst sub by auto
qed

lemma acquire_loop_lease:
  assumes B: "backed S C ref sid hist tag"
  shows "good (st_iso S) (hist b) \<Longrightarrow> acquire_loop n S ref inst rejected b = (Inr lease, b') \<Longrightarrow>
    wl_writer_instance_id lease = inst \<and> (\<forall>c \<in> set (hist b). rd_writer_epoch c < wl_epoch lease)
    \<and> (\<exists>d \<in> set (hist b'). rd_writer_epoch d = wl_epoch lease \<and> rd_writer_instance_id d = inst)"
proof (induction n arbitrary: rejected b)
  case (Suc n)
  obtain r b1 where a: "acquire_attempt S ref inst rejected b = (Inr r, b1)"
    using Suc.prems(2) by (auto simp: bind_sto_def split: prod.splits sum.splits)
  note ev = keepsD[OF keeps_acquire_attempt[OF B Suc.prems(1)] a]
  have sub: "set (hist b) \<subseteq> set (hist b1)" using ev by (auto simp: evolves_def)
  show ?case
  proof (cases r)
    case (Inl etag)
    then show ?thesis
      using Suc.IH[OF good_evolves[OF ev Suc.prems(1)], of etag] Suc.prems(2) a sub by (auto simp: bind_sto_def)
  next
    case (Inr l)
    then show ?thesis using attempt_lease[OF B Suc.prems(1)] Suc.prems(2) a by (auto simp: bind_sto_def ret_def)
  qed
qed (simp add: raise_def)

text \<open>
  C11. A lease is exclusive. When \<open>acquire_writer\<close> returns a lease, its epoch is in the registry with the
  caller as the writer and is greater than every epoch the registry had when the call began, so no two
  acquisitions in sequence share an epoch; and from then on \<open>persist\<close> with a lease of any smaller epoch
  fails before it writes anything, with \<open>WriterFenced\<close> unless the read or a check fails first.
\<close>

theorem writer_lease_exclusive:
  assumes "backed S C ref sid hist tag" "good (st_iso S) (hist b)" "acquire_writer S ref inst b = (Inr lease, b')"
    and "wl_epoch old < wl_epoch lease"
  shows "wl_writer_instance_id lease = inst \<and> (\<forall>c \<in> set (hist b). rd_writer_epoch c < wl_epoch lease)
    \<and> (\<exists>d \<in> set (hist b'). rd_writer_epoch d = wl_epoch lease \<and> rd_writer_instance_id d = inst)
    \<and> (\<exists>e. fst (persist S ref sid data old expected_base now days b') = Inl e)"
proof -
  note B = assms(1)
  have loop: "acquire_loop cas_retry_limit S ref inst None b = (Inr lease, b')"
    using assms(3) by (simp add: acquire_writer_def require_client_Some[OF backedD(1)[OF B]])
  note l = acquire_loop_lease[OF B assms(2) loop]
  have g: "good (st_iso S) (hist b')"
    using good_evolves[OF keepsD[OF keeps_acquire_loop[OF B assms(2)] loop] assms(2)] .
  obtain d where d: "d \<in> set (hist b')" "rd_writer_epoch d = wl_epoch lease" using l by blast
  have stale: "rd_writer_epoch c \<noteq> wl_epoch old" if rd: "read_registry S ref b' = (Inr (Some (c, e)), b2)" for c e b2
  proof -
    obtain h where h: "evolves (st_iso S) (hist b') h" "h \<noteq> []" "c = last h" using read_registry_Some[OF B g rd] by metis
    have gh: "chain h" using good_evolves[OF h(1) g] by (simp add: good_def)
    have "d \<in> set h" using d(1) h(1) by (auto simp: evolves_def)
    then obtain i where i: "i < length h" "h ! i = d" by (auto simp: in_set_conv_nth)
    have "rd_writer_epoch d \<le> rd_writer_epoch c"
      using chain_mono[OF gh, of i "length h - 1"] i h(2,3) by (auto simp: last_conv_nth)
    then show ?thesis using d(2) assms(4) by simp
  qed
  have "\<exists>e. fst (persist S ref sid data old expected_base now days b') = Inl e"
    using stale
    by (cases "read_registry S ref b'")
      (auto simp: persist_def raise_def bind_sto_def catch_def transient_or_def assert_lease_current_def lease_current_def
        split: sum.splits option.splits prod.splits)
  then show ?thesis using l by blast
qed

text \<open>What the checks of the read path leave.\<close>

definition alive :: "iso \<Rightarrow> latest_entry \<Rightarrow> int \<Rightarrow> bool" where
  "alive I e t \<longleftrightarrow> (\<forall>s. le_expires_at e = Some s \<longrightarrow> (\<exists>x. iso_read I s = Some x \<and> t < x))"

lemma expiry_passes: "check_snapshot_expiry I e t s = (Inr u, s') \<longleftrightarrow> alive I e t \<and> s' = s"
  by (auto simp: check_snapshot_expiry_def alive_def ret_def raise_def split: option.splits)

lemma restore_receipt_checked:
  assumes "fst (restore S ref now days s) = Inr (Some rc)"
  shows "rr_ref rc = ref \<and> le_size (rr_latest rc) \<le> int (st_max_snapshot_bytes S) \<and> alive (st_iso S) (rr_latest rc) now
    \<and> (\<forall>data. rr_cached rc = Some data \<longrightarrow> st_sha256 S data = le_checksum (rr_latest rc))"
proof -
  have hit: "st_sha256 S data = le_checksum e" if "from_cache S ref e s1 = (Inr (Some data), s2)" for data e s1 s2
    using that by (auto simp: from_cache_def cache_get_def Let_def split: option.splits if_splits prod.splits)
  show ?thesis
    using assms
    by (auto simp: restore_def bind_sto_def ret_def raise_def expiry_passes split: prod.splits sum.splits option.splits if_splits dest: hit)
qed

lemma opened_content_checked:
  assumes "fst (open_content S rc t1 t2 t3 s) = Inr data"
  shows "alive (st_iso S) (rr_latest rc) t1 \<and> (rr_cached rc = Some data \<or>
    rr_cached rc = None \<and> int (length data) = le_size (rr_latest rc) \<and> st_sha256 S data = le_checksum (rr_latest rc)
    \<and> length data \<le> st_max_snapshot_bytes S \<and> alive (st_iso S) (rr_latest rc) t3)"
  using assms
  by (auto simp: open_content_def download_capped_def Let_def bind_sto_def on_backend_def call_def ret_def raise_def expiry_passes
      split: prod.splits sum.splits option.splits body.splits if_splits)

text \<open>
  Restored bytes are the committed bytes. Whatever the bucket and the local cache hold, when
  \<open>restore\<close> returns a receipt and its content accessor later yields bytes, their SHA-256 is the one of
  the registry entry, the entry's size is within the snapshot cap, and the entry had not expired when
  the receipt was made nor when the accessor was opened; downloaded bytes also have exactly the
  entry's size, and the entry had still not expired when they were handed out.
\<close>

theorem restored_content_verified:
  assumes "fst (restore S ref now days s) = Inr (Some rc)" "fst (open_content S rc t1 t2 t3 s') = Inr data"
  shows "st_sha256 S data = le_checksum (rr_latest rc) \<and> le_size (rr_latest rc) \<le> int (st_max_snapshot_bytes S)
    \<and> alive (st_iso S) (rr_latest rc) now \<and> alive (st_iso S) (rr_latest rc) t1
    \<and> (rr_cached rc = None \<longrightarrow> int (length data) = le_size (rr_latest rc) \<and> alive (st_iso S) (rr_latest rc) t3)"
  using restore_receipt_checked[OF assms(1)] opened_content_checked[OF assms(2)] by auto

section \<open>A bucket that satisfies the contract\<close>

text \<open>
  One bucket with a single user: the registry's contents so far and the other objects. Timestamps are
  written in unary and ETags are prefix-free codes of the documents.
\<close>

definition unary :: "int \<Rightarrow> string" where
  "unary x = (if x < 0 then CHR ''-'' else CHR ''+'') # replicate (nat \<bar>x\<bar>) (CHR ''i'')"

definition unary_read :: "string \<Rightarrow> int option" where
  "unary_read s = (case s of [] \<Rightarrow> None | c # r \<Rightarrow> Some (if c = CHR ''-'' then - int (length r) else int (length r)))"

definition unary_iso :: iso where
  "unary_iso = \<lparr>iso_read = unary_read, iso_show = unary\<rparr>"

definition code_str :: "string \<Rightarrow> string" where
  "code_str s = concat (map (\<lambda>c. [CHR ''x'', c]) s) @ ''y''"

definition code_opt :: "string option \<Rightarrow> string" where
  "code_opt s = (case s of None \<Rightarrow> ''n'' | Some t \<Rightarrow> CHR ''s'' # code_str t)"

definition code_latest :: "latest_entry option \<Rightarrow> string" where
  "code_latest l = (case l of None \<Rightarrow> ''n''
     | Some e \<Rightarrow> CHR ''s'' # code_str (le_snapshot_id e) @ code_str (le_checksum e) @ code_str (unary (le_size e))
         @ code_str (unary (le_version e)) @ code_opt (le_committed_at e) @ code_opt (le_expires_at e))"

definition code_doc :: "registry_doc \<Rightarrow> string" where
  "code_doc d = code_str (unary (rd_writer_epoch d)) @ code_str (rd_writer_instance_id d)
     @ code_str (unary (rd_generation d)) @ code_latest (rd_latest d)"

type_synonym bucket = "registry_doc list \<times> (string \<times> body \<times> metadata) list"

definition not_found_exc :: client_exc where "not_found_exc = ClientExc ''NoSuchKey'' False"
definition precondition_exc :: client_exc where "precondition_exc = ClientExc ''PreconditionFailed'' False"

definition bucket_get :: "string \<Rightarrow> string \<Rightarrow> bucket \<Rightarrow> (client_exc, body \<times> nat \<times> string) result \<times> bucket" where
  "bucket_get K key b =
     (if key = K then (if fst b = [] then (Inl not_found_exc, b)
                       else (Inr (BDoc (doc_json (last (fst b))), 200, code_doc (last (fst b))), b))
      else (case map_of (snd b) key of None \<Rightarrow> (Inl not_found_exc, b) | Some (x, md) \<Rightarrow> (Inr (x, 200, ''e''), b)))"

definition bucket_head :: "string \<Rightarrow> bucket \<Rightarrow> (client_exc, metadata \<times> int) result \<times> bucket" where
  "bucket_head key b =
     (case map_of (snd b) key of
        Some (BBytes s, md) \<Rightarrow> (Inr (md, int (length s)), b) | _ \<Rightarrow> (Inl not_found_exc, b))"

definition bucket_put :: "string \<Rightarrow> string \<Rightarrow> body \<Rightarrow> put_cond \<Rightarrow> metadata \<Rightarrow> bucket \<Rightarrow> (client_exc, string) result \<times> bucket" where
  "bucket_put K key x cond md b =
     (if key = K then
        (case x of
           BBytes _ \<Rightarrow> (Inl precondition_exc, b)
         | BDoc j \<Rightarrow> (case validate_registry_doc unary_iso j of
             Inl _ \<Rightarrow> (Inl precondition_exc, b)
           | Inr d \<Rightarrow> if cond_holds code_doc cond (fst b) then (Inr (code_doc d), (fst b @ [d], snd b))
                      else (Inl precondition_exc, b)))
      else if map_of (snd b) key = None then (Inr ''e'', (fst b, (key, x, md) # snd b))
      else (Inl precondition_exc, b))"

definition bucket_client :: "string \<Rightarrow> bucket s3_client" where
  "bucket_client K = \<lparr>c_get = bucket_get K, c_head = bucket_head, c_put = bucket_put K\<rparr>"

definition bucket_storage :: "bucket s3_storage" where
  "bucket_storage = \<lparr>st_client = Some (bucket_client (registry_key ''ach'' example_ref)), st_prefix = ''ach'',
     st_max_snapshot_bytes = 100, st_sha256 = (\<lambda>_. example_hex), st_iso = unary_iso\<rparr>"

lemma unary_roundtrip [simp]: "unary_read (unary x) = Some x"
  by (auto simp: unary_read_def unary_def)

lemma unary_inj [simp]: "unary x = unary y \<longleftrightarrow> x = y"
  using unary_roundtrip by (metis option.inject)

lemma unary_iso_ok: "iso_ok unary_iso"
  by (simp add: iso_ok_def unary_iso_def) (simp add: unary_def)

lemma code_str_append [simp]: "code_str s @ a = code_str t @ b \<longleftrightarrow> s = t \<and> a = b"
proof (induction s arbitrary: t)
  case Nil
  then show ?case by (cases t) (auto simp: code_str_def)
next
  case (Cons c s)
  then show ?case by (cases t) (auto simp: code_str_def)
qed

lemma code_str_inj [simp]: "code_str s = code_str t \<longleftrightarrow> s = t"
  using code_str_append[of s "[]" t "[]"] by simp

lemma code_opt_append [simp]: "code_opt s @ a = code_opt t @ b \<longleftrightarrow> s = t \<and> a = b"
  by (auto simp: code_opt_def split: option.splits)

lemma code_opt_inj [simp]: "code_opt s = code_opt t \<longleftrightarrow> s = t"
  using code_opt_append[of s "[]" t "[]"] by simp

lemma code_doc_inj: "inj code_doc"
  by (rule injI) (auto simp: code_doc_def code_latest_def split: option.splits intro!: registry_doc.equality latest_entry.equality)

lemma bucket_backend: "registry_backend unary_iso (bucket_client K) K fst code_doc"
  unfolding registry_backend_def bucket_client_def
  using code_doc_inj validate_doc_json[OF unary_iso_ok]
  by (auto simp: bucket_get_def bucket_head_def bucket_put_def not_found_exc_def is_not_found_def
      split: option.splits body.splits sum.splits if_splits prod.splits)
    (metis evolves_refl)+

lemma bucket_backed: "backed bucket_storage (bucket_client (registry_key ''ach'' example_ref)) example_ref ''s1'' fst code_doc"
  by (rule backedI[OF example_ref_made]) (simp_all add: bucket_storage_def unary_iso_ok bucket_backend flat_def)

definition first_lease :: writer_lease where
  "first_lease = \<lparr>wl_ref = example_ref, wl_writer_instance_id = ''w1'', wl_epoch = 1, wl_base_etag = None\<rparr>"

definition first_bucket :: bucket where
  "first_bucket = ([empty_doc ''w1''], [])"

lemma first_good: "good (st_iso bucket_storage) (fst first_bucket)"
  by (simp add: good_def first_bucket_def dates_ok_def chain_first) (simp add: empty_doc_def)

lemma example_keys:
  "commit_record_key ''ach'' example_ref ''s1'' \<noteq> registry_key ''ach'' example_ref"
  "snapshot_key ''ach'' example_ref ''s1'' \<noteq> registry_key ''ach'' example_ref"
  "snapshot_key ''ach'' example_ref ''s1'' \<noteq> commit_record_key ''ach'' example_ref ''s1''"
  using bucket_backed by (simp_all add: backed_def bucket_storage_def snapshot_key_def commit_record_key_def slash_def)

lemma bucket_fields:
  "st_client bucket_storage = Some (bucket_client (registry_key ''ach'' example_ref))" "st_prefix bucket_storage = ''ach''"
  "st_max_snapshot_bytes bucket_storage = 100" "st_sha256 bucket_storage x = example_hex" "st_iso bucket_storage = unary_iso"
  by (simp_all add: bucket_storage_def)

lemma empty_fields:
  "rd_writer_epoch (empty_doc w) = 1" "rd_writer_instance_id (empty_doc w) = w" "rd_latest (empty_doc w) = None"
  "rd_writer_epoch (with_new_writer v (empty_doc w)) = 2" "rd_latest (with_new_writer v (empty_doc w)) = None"
  by (simp_all add: empty_doc_def with_new_writer_def)

lemmas run_simps = bind_sto_def catch_def call_def check_def ret_def raise_def require_client_def bind_res_def
  bucket_fields bucket_client_def bucket_get_def bucket_put_def not_found_exc_def precondition_exc_def is_not_found_def
  is_precondition_failed_def first_bucket_def first_lease_def read_registry_def fetch_with_etag_def max_registry_bytes_def
  cas_write_registry_def cond_holds_def Let_def empty_fields transient_or_def is_snapshot_transient_def

lemma example_hex_ok: "hex64 example_hex"
  by code_simp

lemma valid_first: "validate_registry_doc unary_iso (doc_json (empty_doc ''w1'')) = Inr (empty_doc ''w1'')"
  by code_simp

lemma valid_second:
  "validate_registry_doc unary_iso (doc_json (with_new_writer ''w2'' (empty_doc ''w1''))) = Inr (with_new_writer ''w2'' (empty_doc ''w1''))"
  by code_simp

definition stored_entry :: latest_entry where
  "stored_entry = \<lparr>le_snapshot_id = ''s1'', le_checksum = example_hex, le_size = 5, le_version = 1,
     le_committed_at = Some (unary 3), le_expires_at = None\<rparr>"

lemma valid_commit:
  "validate_registry_doc unary_iso (doc_json (with_committed_snapshot 1 ''w1'' stored_entry (empty_doc ''w1'')))
   = Inr (with_committed_snapshot 1 ''w1'' stored_entry (empty_doc ''w1''))"
  by code_simp

lemma first_new_entry: "new_entry bucket_storage (empty_doc ''w1'') ''s1'' example_hex 5 3 0 = stored_entry"
  by (simp add: new_entry_def stored_entry_def bucket_storage_def unary_iso_def version_of_def empty_doc_def)

lemma first_commit:
  "fst (snd (persist bucket_storage example_ref ''s1'' ''bytes'' first_lease None 3 0 first_bucket)) =
   [empty_doc ''w1'', with_committed_snapshot 1 ''w1'' stored_entry (empty_doc ''w1'')]"
  by (simp add: persist_def commit_snapshot_def publish_def read_commit_record_def upload_snapshot_immutable_def
      write_commit_record_def assert_lease_current_def lease_current_def latest_is_def
      first_new_entry run_simps example_keys example_keys[symmetric] valid_first valid_commit)

theorem registry_history_proper_witness:
  "chain [empty_doc ''w1'', with_committed_snapshot 1 ''w1'' stored_entry (empty_doc ''w1'')]"
  using registry_history_proper[OF bucket_backed first_good, of None "''bytes''" first_lease 3 0 "''w2''"]
  unfolding first_commit by simp

lemma second_acquire:
  "acquire_writer bucket_storage example_ref ''w2'' first_bucket =
   (Inr \<lparr>wl_ref = example_ref, wl_writer_instance_id = ''w2'', wl_epoch = 2, wl_base_etag = None\<rparr>,
    ([empty_doc ''w1'', with_new_writer ''w2'' (empty_doc ''w1'')], []))"
  by (simp add: acquire_writer_def acquire_loop.simps(2)[of 19, simplified] cas_retry_limit_def acquire_attempt_def run_simps
      valid_first valid_second)

theorem writer_lease_exclusive_witness:
  "\<exists>e. fst (persist bucket_storage example_ref ''s1'' ''bytes'' first_lease None 3 0
     ([empty_doc ''w1'', with_new_writer ''w2'' (empty_doc ''w1'')], [])) = Inl e"
proof -
  have "wl_epoch first_lease < wl_epoch \<lparr>wl_ref = example_ref, wl_writer_instance_id = ''w2'', wl_epoch = 2, wl_base_etag = None\<rparr>"
    by (simp add: first_lease_def)
  from writer_lease_exclusive[OF bucket_backed first_good second_acquire this, of "''bytes''" None 3 0] show ?thesis by blast
qed

definition stored_bucket :: "bucket \<times> bcache option" where
  "stored_bucket = (([with_committed_snapshot 1 ''w1'' stored_entry (empty_doc ''w1'')],
     [(snapshot_key ''ach'' example_ref ''s1'', BBytes ''bytes'', [])]), None)"

definition stored_receipt :: restore_receipt where
  "stored_receipt = \<lparr>rr_ref = example_ref, rr_writer_epoch = 1, rr_generation = 2,
     rr_etag = code_doc (with_committed_snapshot 1 ''w1'' stored_entry (empty_doc ''w1'')),
     rr_latest = stored_entry, rr_cached = None\<rparr>"

lemma stored_restored: "fst (restore bucket_storage example_ref 4 0 stored_bucket) = Inr (Some stored_receipt)"
proof -
  let ?d = "with_committed_snapshot 1 ''w1'' stored_entry (empty_doc ''w1'')"
  have d: "rd_latest ?d = Some stored_entry" "rd_writer_epoch ?d = 1" "rd_generation ?d = 2"
    by (simp_all add: with_committed_snapshot_def empty_doc_def)
  have e: "le_expires_at stored_entry = None" "le_size stored_entry = 5" "le_snapshot_id stored_entry = ''s1''"
    by (simp_all add: stored_entry_def)
  show ?thesis
    by (simp add: d e valid_commit restore_def on_backend_def from_cache_def head_check_def bucket_head_def check_snapshot_expiry_def
        stored_receipt_def stored_bucket_def run_simps example_keys)
qed

theorem restored_content_verified_witness:
  "st_sha256 bucket_storage ''bytes'' = le_checksum stored_entry \<and> int (length ''bytes'') = le_size stored_entry"
proof -
  have "fst (open_content bucket_storage stored_receipt 4 5 6 stored_bucket) = Inr ''bytes''"
    by (simp add: open_content_def download_capped_def on_backend_def to_cache_def check_snapshot_expiry_def
        stored_receipt_def stored_entry_def stored_bucket_def run_simps example_keys)
  from restored_content_verified[OF stored_restored this] show ?thesis by (simp add: stored_receipt_def)
qed

end
