(* ===== verification/Archive.thy ===== *)
theory Archive
  imports Prelude
begin

text \<open>
  \<open>storage/archive.py\<close>: the check every member of an archive passes, extraction through a staging
  directory, packing and streaming under a byte cap.

  \<open>tarfile\<close>'s reading and writing of the container format is not modelled: an archive is the
  sequence of its members, ending normally or with an error, and the writes of a \<open>TarFile\<close> are a
  sequence of byte strings. A directory tree is the list of members extracted into it.
\<close>

section \<open>Paths\<close>

definition split_path :: "string \<Rightarrow> string list" where
  "split_path p = split_char (CHR ''/'') (map (\<lambda>c. if c = chr 92 then CHR ''/'' else c) p)"

fun resolve_parts :: "string list \<Rightarrow> string list \<Rightarrow> string list option" where
  "resolve_parts stack [] = Some stack"
| "resolve_parts stack (p # ps) =
     (if p = [] \<or> p = ''.'' then resolve_parts stack ps
      else if p = ''..'' then (if stack = [] then None else resolve_parts (butlast stack) ps)
      else resolve_parts (stack @ [p]) ps)"

definition resolve_link_target :: "string list \<Rightarrow> string \<Rightarrow> string list option" where
  "resolve_link_target base link = resolve_parts base (split_path link)"

definition normalize_parent :: "string list \<Rightarrow> string list" where
  "normalize_parent parts = filter (\<lambda>p. p \<noteq> [] \<and> p \<noteq> ''.'') parts"

section \<open>Members\<close>

datatype member_type = REGTYPE | AREGTYPE | DIRTYPE | SYMTYPE | LNKTYPE | OtherType char

record tar_member =
  tm_name :: string
  tm_type :: member_type
  tm_linkname :: string
  tm_size :: int

datatype archive_error =
    ArchiveTooLarge
  | TarError string
  | FileExistsError
  | CancelledError
  | OSError string

definition max_member_name_len :: nat where "max_member_name_len = 4096"

definition allowed_types :: "member_type list" where
  "allowed_types = [REGTYPE, AREGTYPE, DIRTYPE, SYMTYPE, LNKTYPE]"

record member_check =
  mc_max_expanded_bytes :: int
  mc_max_members :: nat
  mc_count :: nat
  mc_total_size :: int

definition new_check :: "int \<Rightarrow> nat \<Rightarrow> member_check" where
  "new_check max_expanded max_members =
     \<lparr>mc_max_expanded_bytes = max_expanded, mc_max_members = max_members, mc_count = 0, mc_total_size = 0\<rparr>"

definition absolute :: "string \<Rightarrow> bool" where
  "absolute p \<longleftrightarrow> prefix ''/'' p \<or> prefix [chr 92] p"

definition link_base :: "tar_member \<Rightarrow> string list" where
  "link_base m = (if tm_type m = LNKTYPE then [] else normalize_parent (butlast (split_path (tm_name m))))"

definition check_link :: "tar_member \<Rightarrow> (archive_error, unit) result" where
  "check_link m =
     (let link = tm_linkname m in
      if length link > max_member_name_len then Inl (TarError ''link target exceeds 4096 characters'')
      else if absolute link then Inl (TarError ''refusing absolute link target'')
      else if resolve_link_target (link_base m) link = None then Inl (TarError ''refusing escaping link target'')
      else Inr ())"

text \<open>The checks on one member that do not depend on the others.\<close>

definition check_shape :: "tar_member \<Rightarrow> (archive_error, unit) result" where
  "check_shape m =
     (let name = tm_name m in
      if length name > max_member_name_len then Inl (TarError ''member name exceeds 4096 characters'')
      else if absolute name then Inl (TarError ''refusing absolute path in archive'')
      else if ''..'' \<in> set (split_path name) then Inl (TarError ''refusing path traversal in archive'')
      else if tm_type m \<notin> set allowed_types then Inl (TarError ''refusing unsupported member type'')
      else if tm_type m = SYMTYPE \<or> tm_type m = LNKTYPE then check_link m
      else Inr ())"

text \<open>\<open>_MemberCheck.__call__\<close>: the counters advance even when the member is refused.\<close>

definition member_check :: "tar_member \<Rightarrow> member_check \<Rightarrow> (archive_error, tar_member) result \<times> member_check" where
  "member_check m s0 =
     (let s = s0\<lparr>mc_count := mc_count s0 + 1\<rparr> in
      if mc_count s > mc_max_members s then (Inl ArchiveTooLarge, s)
      else (case check_shape m of
        Inl e \<Rightarrow> (Inl e, s)
      | Inr _ \<Rightarrow>
          let s' = s\<lparr>mc_total_size := mc_total_size s + tm_size m\<rparr> in
          if mc_total_size s' > mc_max_expanded_bytes s' then (Inl ArchiveTooLarge, s') else (Inr m, s')))"

section \<open>Extraction\<close>

text \<open>
  \<open>tar.extractall\<close> over the checked members: \<open>write m\<close> is the error \<open>tarfile\<close> raises when it writes a
  member under the \<open>data\<close> filter, \<open>ending\<close> the error at the end of the stream, if any.
\<close>

fun extract_members ::
  "(tar_member \<Rightarrow> archive_error option) \<Rightarrow> archive_error option \<Rightarrow> member_check \<Rightarrow> tar_member list \<Rightarrow> tar_member list \<Rightarrow>
   archive_error option \<times> tar_member list" where
  "extract_members write ending s written [] = (ending, written)"
| "extract_members write ending s written (m # ms) =
     (case member_check m s of
        (Inl e, s') \<Rightarrow> (Some e, written)
      | (Inr m', s') \<Rightarrow>
         (case write m' of
            Some e \<Rightarrow> (Some e, written)
          | None \<Rightarrow> extract_members write ending s' (written @ [m']) ms))"

type_synonym tree = "(string \<times> tar_member list) list"

text \<open>\<open>extract\<close>: the directory names, the outcome of each member and of the final rename.\<close>

definition extract_archive ::
  "tree \<Rightarrow> string \<Rightarrow> string \<Rightarrow> int \<Rightarrow> nat \<Rightarrow> tar_member list \<Rightarrow> archive_error option \<Rightarrow>
   (tar_member \<Rightarrow> archive_error option) \<Rightarrow> archive_error option \<Rightarrow> (archive_error, unit) result \<times> tree" where
  "extract_archive fs dest staging max_expanded max_members ms ending write renaming =
     (if dict_has fs dest then (Inl FileExistsError, fs)
      else
        let (err, written) = extract_members write ending (new_check max_expanded max_members) [] ms;
            fs1 = dict_set fs staging written in
        case err of
          Some e \<Rightarrow> (Inl e, dict_del fs1 staging)
        | None \<Rightarrow> (case renaming of
            Some e \<Rightarrow> (Inl e, dict_del fs1 staging)
          | None \<Rightarrow> (Inr (), dict_set (dict_del fs1 staging) dest written)))"

section \<open>Capped writes\<close>

record capped_writer =
  cw_max_bytes :: nat
  cw_written :: nat
  cw_file :: string

definition open_capped :: "nat \<Rightarrow> capped_writer" where
  "open_capped max_bytes = \<lparr>cw_max_bytes = max_bytes, cw_written = 0, cw_file = []\<rparr>"

definition cw_write :: "string \<Rightarrow> capped_writer \<Rightarrow> (archive_error, unit) result \<times> capped_writer" where
  "cw_write data w =
     (let w' = w\<lparr>cw_written := cw_written w + length data\<rparr> in
      if cw_written w' > cw_max_bytes w' then (Inl ArchiveTooLarge, w')
      else (Inr (), w'\<lparr>cw_file := cw_file w' @ data\<rparr>))"

fun cw_write_all :: "string list \<Rightarrow> capped_writer \<Rightarrow> (archive_error, unit) result \<times> capped_writer" where
  "cw_write_all [] w = (Inr (), w)"
| "cw_write_all (d # ds) w =
     (case cw_write d w of (Inl e, w') \<Rightarrow> (Inl e, w') | (Inr _, w') \<Rightarrow> cw_write_all ds w')"

text \<open>
  \<open>pack\<close>: each member \<open>tar.add\<close> meets goes through the filter and is then written as some byte
  strings; \<open>reading\<close> is an error of the source met after them, \<open>final\<close> what \<open>tar.close\<close> writes, whose
  own failure replaces an earlier one. The result is the file at \<open>dest\<close>, if it is left there.
\<close>

definition filter_member :: "tar_member \<Rightarrow> member_check option \<Rightarrow> archive_error option \<times> member_check option" where
  "filter_member m f =
     (case f of
        None \<Rightarrow> (None, None)
      | Some s \<Rightarrow> (case member_check m s of (Inl e, s') \<Rightarrow> (Some e, Some s') | (Inr _, s') \<Rightarrow> (None, Some s')))"

fun add_members ::
  "member_check option \<Rightarrow> archive_error option \<Rightarrow> (tar_member \<times> string list) list \<Rightarrow> capped_writer \<Rightarrow>
   archive_error option \<times> capped_writer" where
  "add_members f reading [] w = (reading, w)"
| "add_members f reading ((m, ds) # ms) w =
     (case filter_member m f of
        (Some e, f') \<Rightarrow> (Some e, w)
      | (None, f') \<Rightarrow> (case cw_write_all ds w of
            (Inl e, w') \<Rightarrow> (Some e, w')
          | (Inr _, w') \<Rightarrow> add_members f' reading ms w'))"

definition pack ::
  "nat \<Rightarrow> member_check option \<Rightarrow> (tar_member \<times> string list) list \<Rightarrow> archive_error option \<Rightarrow> string list \<Rightarrow>
   (archive_error, nat) result \<times> string option" where
  "pack max_bytes member_filter ms reading final =
     (let (err, w) = add_members member_filter reading ms (open_capped max_bytes);
          (closing, w') = cw_write_all final w in
      case closing of
        Inl e \<Rightarrow> (Inl e, None)
      | Inr _ \<Rightarrow> (case err of
          Some e \<Rightarrow> (Inl e, None)
        | None \<Rightarrow> (Inr (length (cw_file w')), Some (cw_file w'))))"

text \<open>
  \<open>write_capped\<close>: every owned call reports whether the caller was cancelled meanwhile and its own
  error. The stream is a sequence of chunks, each with the outcome of writing it, and may end with
  an error of the iterator. The result is what the caller gets and the file, if it is still there.
\<close>

record owned =
  ow_cancelled :: bool
  ow_exc :: "archive_error option"

fun stream_loop ::
  "nat \<Rightarrow> archive_error option \<Rightarrow> nat \<Rightarrow> string \<Rightarrow> (string \<times> owned) list \<Rightarrow> nat \<times> string \<times> bool \<times> archive_error option" where
  "stream_loop max_bytes ending tot fl [] = (tot, fl, False, ending)"
| "stream_loop max_bytes ending tot fl ((chunk, ow) # cs) =
     (let tot = tot + length chunk in
      if tot > max_bytes then (tot, fl, False, Some ArchiveTooLarge)
      else (case ow_exc ow of
         Some e \<Rightarrow> (tot, fl, ow_cancelled ow, Some e)
       | None \<Rightarrow>
           if ow_cancelled ow then (tot, fl @ chunk, True, None)
           else stream_loop max_bytes ending tot (fl @ chunk) cs))"

definition write_capped ::
  "nat \<Rightarrow> owned \<Rightarrow> (string \<times> owned) list \<Rightarrow> archive_error option \<Rightarrow> owned \<Rightarrow> (archive_error, nat) result \<times> string option" where
  "write_capped max_bytes opening chunks ending closing =
     (let (tot, fl, cancelled, exc) =
            (if ow_exc opening = None \<and> \<not> ow_cancelled opening then stream_loop max_bytes ending 0 [] chunks
             else (0, [], ow_cancelled opening, ow_exc opening));
          had = (cancelled \<or> exc \<noteq> None);
          opened = (ow_exc opening = None);
          cancelled' = (if opened \<and> \<not> had then ow_cancelled closing else cancelled);
          exc' = (if opened \<and> \<not> had then ow_exc closing else exc) in
      if cancelled' then (Inl CancelledError, None)
      else case exc' of
        Some e \<Rightarrow> (Inl e, None)
      | None \<Rightarrow> (Inr tot, Some fl))"

section \<open>Link targets\<close>

text \<open>How far a relative path climbs and descends.\<close>

definition climbs :: "string list \<Rightarrow> nat" where
  "climbs ps = length (filter (\<lambda>p. p = ''..'') ps)"

definition descends :: "string list \<Rightarrow> nat" where
  "descends ps = length (filter (\<lambda>p. p \<noteq> [] \<and> p \<noteq> ''.'' \<and> p \<noteq> ''..'') ps)"

definition stays_below :: "nat \<Rightarrow> string list \<Rightarrow> bool" where
  "stays_below n ps \<longleftrightarrow> (\<forall>qs. prefix qs ps \<longrightarrow> climbs qs \<le> n + descends qs)"

lemma count_Cons [simp]:
  "climbs [] = 0" "descends [] = 0"
  "climbs (p # ps) = (if p = ''..'' then 1 else 0) + climbs ps"
  "descends (p # ps) = (if p \<noteq> [] \<and> p \<noteq> ''.'' \<and> p \<noteq> ''..'' then 1 else 0) + descends ps"
  by (simp_all add: climbs_def descends_def)

lemma stays_below_Nil [simp]: "stays_below n []"
  by (simp add: stays_below_def)

lemma stays_below_Cons:
  "stays_below n (p # ps) \<longleftrightarrow>
     (if p = [] \<or> p = ''.'' then stays_below n ps
      else if p = ''..'' then n > 0 \<and> stays_below (n - 1) ps
      else stays_below (Suc n) ps)"
proof -
  have *: "stays_below n (p # ps) \<longleftrightarrow> (\<forall>qs. prefix qs ps \<longrightarrow> climbs (p # qs) \<le> n + descends (p # qs))"
    by (auto simp: stays_below_def prefix_Cons)
  show ?thesis
  proof (cases "p = ''..''")
    case True
    have "(\<forall>qs. prefix qs ps \<longrightarrow> Suc (climbs qs) \<le> n + descends qs)
        \<longleftrightarrow> n > 0 \<and> (\<forall>qs. prefix qs ps \<longrightarrow> climbs qs \<le> n - 1 + descends qs)" (is "?L \<longleftrightarrow> ?R")
    proof
      assume L: ?L
      have "Suc (climbs []) \<le> n + descends []" using L by (simp only: Nil_prefix)
      then have "n > 0" by simp
      then show ?R using L by fastforce
    qed (cases n, auto)
    then show ?thesis using True unfolding * by (simp add: stays_below_def)
  qed (auto simp: * stays_below_def[of n ps] stays_below_def[of "Suc n" ps])
qed

lemma resolve_parts_iff: "resolve_parts stack ps \<noteq> None \<longleftrightarrow> stays_below (length stack) ps"
proof (induction stack ps rule: resolve_parts.induct)
  case (2 stack p ps)
  then show ?case by (cases "stack = []") (auto simp: stays_below_Cons)
qed simp

lemma resolve_parts_depth: "resolve_parts stack ps = Some r \<Longrightarrow> length r + climbs ps = length stack + descends ps"
proof (induction stack ps arbitrary: r rule: resolve_parts.induct)
  case (2 stack p ps)
  show ?case
  proof (cases "p = ''..''")
    case True
    then show ?thesis using "2.IH"(2)[of r] "2.prems" by (cases stack rule: rev_cases) (auto split: if_splits)
  qed (use 2 in \<open>auto split: if_splits\<close>)
qed simp

text \<open>
  The link check is exact. \<open>_resolve_link_target\<close> accepts a target exactly when walking it from
  its base never climbs above the archive root at any point, and the path it returns is as deep as
  that walk ends; a \<open>..\<close> inside the tree is not refused and no sequence of no-op segments hides one
  that leaves it.
\<close>

theorem link_resolution_exact:
  "(resolve_link_target base link \<noteq> None \<longleftrightarrow> stays_below (length base) (split_path link))
   \<and> (\<forall>r. resolve_link_target base link = Some r \<longrightarrow>
        int (length r) = int (length base) + int (descends (split_path link)) - int (climbs (split_path link)))"
  using resolve_parts_iff resolve_parts_depth unfolding resolve_link_target_def by fastforce

theorem link_resolution_exact_witness:
  "resolve_link_target [''a''] ''../../x'' = None \<and> resolve_link_target [''a''] ''b/../../x'' = Some [''x'']
   \<and> int (length [''x'']) = int (length [''a'']) + int (descends (split_path ''b/../../x'')) - int (climbs (split_path ''b/../../x''))"
proof -
  have r: "resolve_link_target [''a''] ''b/../../x'' = Some [''x'']" by code_simp
  have n: "resolve_link_target [''a''] ''../../x'' = None" by code_simp
  show ?thesis using link_resolution_exact[of "[''a'']" "''b/../../x''"] r n by simp
qed

section \<open>Extraction\<close>

definition confined :: "tar_member \<Rightarrow> bool" where
  "confined m \<longleftrightarrow>
     length (tm_name m) \<le> 4096 \<and> \<not> absolute (tm_name m) \<and> ''..'' \<notin> set (split_path (tm_name m))
     \<and> (\<forall>c. tm_type m \<noteq> OtherType c)
     \<and> (tm_type m \<in> {SYMTYPE, LNKTYPE} \<longrightarrow>
          \<not> absolute (tm_linkname m) \<and> stays_below (length (link_base m)) (split_path (tm_linkname m)))"

lemma check_shape_confined: "check_shape m = Inr u \<Longrightarrow> confined m"
  using resolve_parts_iff[of "link_base m"]
  by (cases "tm_type m")
    (auto simp: check_shape_def check_link_def confined_def allowed_types_def max_member_name_len_def resolve_link_target_def Let_def
      split: if_splits)

lemma member_check_Inr:
  assumes "member_check m s = (Inr m', s')"
  shows "m' = m" "confined m" "mc_count s' = mc_count s + 1" "mc_count s' \<le> mc_max_members s'"
    "mc_total_size s' = mc_total_size s + tm_size m" "mc_total_size s' \<le> mc_max_expanded_bytes s'"
    "mc_max_members s' = mc_max_members s" "mc_max_expanded_bytes s' = mc_max_expanded_bytes s"
  using assms check_shape_confined by (auto simp: member_check_def Let_def split: if_splits sum.splits)

lemma extract_members_done:
  assumes "extract_members write ending s written ms = (None, out)"
    and "mc_count s \<le> mc_max_members s" "mc_total_size s \<le> mc_max_expanded_bytes s"
  shows "out = written @ ms \<and> (\<forall>m \<in> set ms. confined m) \<and> mc_count s + length ms \<le> mc_max_members s
    \<and> mc_total_size s + sum_list (map tm_size ms) \<le> mc_max_expanded_bytes s"
  using assms
proof (induction ms arbitrary: s written)
  case (Cons m ms)
  obtain m' s' where c: "member_check m s = (Inr m', s')" and w: "write m' = None"
    and r: "extract_members write ending s' (written @ [m']) ms = (None, out)"
    using Cons.prems(1) by (auto split: prod.splits sum.splits option.splits)
  note k = member_check_Inr[OF c]
  show ?case using Cons.IH[OF r] k by auto
qed simp

text \<open>
  C37. Extraction is confined, bounded and all-or-nothing. If \<open>extract\<close> returns, the destination did
  not exist, it now holds exactly the archive's members, and they are within the member and expansion
  caps; every one has a relative name without \<open>..\<close>, an allowed type, and a link target that never
  leaves the root. If it raises, at a refused member, a write, the end of the stream or the rename,
  the file system is what it was.
\<close>

theorem extraction_confined:
  assumes "extract_archive fs dest staging max_expanded max_members ms ending write renaming = (r, fs')"
    and "map_of fs staging = None" "staging \<noteq> dest" "0 \<le> max_expanded"
  shows "case r of
      Inl e \<Rightarrow> map_of fs' = map_of fs
    | Inr _ \<Rightarrow> map_of fs dest = None \<and> map_of fs' = (map_of fs)(dest \<mapsto> ms) \<and> length ms \<le> max_members
        \<and> sum_list (map tm_size ms) \<le> max_expanded \<and> list_all confined ms"
proof -
  have undo: "map_of (dict_del (dict_set fs staging w) staging) = map_of fs" for w
    using assms(2) by (simp add: fun_eq_iff)
  obtain err out where x: "extract_members write ending (new_check max_expanded max_members) [] ms = (err, out)" by fastforce
  have d: "out = ms \<and> list_all confined ms \<and> length ms \<le> max_members \<and> sum_list (map tm_size ms) \<le> max_expanded" if "err = None"
    using extract_members_done[OF x[unfolded that]] assms(4) by (auto simp: new_check_def list_all_iff)
  show ?thesis
  proof (cases "dict_has fs dest")
    case True
    then show ?thesis using assms(1) by (auto simp: extract_archive_def)
  next
    case False
    then have "map_of fs dest = None" by (simp add: dict_has_def)
    then show ?thesis
      using assms(1) x d undo False by (auto simp: extract_archive_def Let_def split: option.splits)
  qed
qed

definition example_members :: "tar_member list" where
  "example_members = [\<lparr>tm_name = ''d/f'', tm_type = REGTYPE, tm_linkname = [], tm_size = 3\<rparr>,
     \<lparr>tm_name = ''d/l'', tm_type = SYMTYPE, tm_linkname = ''../d/f'', tm_size = 0\<rparr>]"

theorem extraction_confined_witness:
  "length example_members \<le> 2 \<and> sum_list (map tm_size example_members) \<le> 3 \<and> list_all confined example_members"
proof -
  have "extract_archive [] ''ws'' ''st'' 3 2 example_members None (\<lambda>_. None) None = (Inr (), [(''ws'', example_members)])"
    by code_simp
  from extraction_confined[OF this] show ?thesis by simp
qed

section \<open>Capped streams\<close>

lemma stream_loop_done:
  assumes "stream_loop max_bytes ending tot fl cs = (n, out, False, None)" "tot = length fl" "tot \<le> max_bytes"
  shows "out = fl @ concat (map fst cs) \<and> n = length out \<and> n \<le> max_bytes"
  using assms
proof (induction max_bytes ending tot fl cs rule: stream_loop.induct)
  case (2 max_bytes ending tot fl chunk ow cs)
  then show ?case by (auto simp: Let_def split: if_splits option.splits)
qed auto

text \<open>
  A capped stream is whole or absent. When \<open>write_capped\<close> returns, the file holds every chunk of
  the stream in order, the returned count is its size and within the cap; on any other outcome
  (overflow, a failed open, write or close, an error of the stream, a cancellation) it raises and no
  file is left.
\<close>

theorem capped_stream_all_or_nothing:
  "case write_capped max_bytes opening chunks ending closing of
     (Inr n, fl) \<Rightarrow> fl = Some (concat (map fst chunks)) \<and> n = length (concat (map fst chunks)) \<and> n \<le> max_bytes
   | (Inl e, fl) \<Rightarrow> fl = None"
proof -
  obtain tot fl c x where s: "stream_loop max_bytes ending 0 [] chunks = (tot, fl, c, x)" by (metis prod_cases4)
  then show ?thesis
    using stream_loop_done[of max_bytes ending 0 "[]" chunks tot fl]
    by (auto simp: write_capped_def Let_def split: if_splits option.splits)
qed

end
