(* ===== verification/Tokens.thy ===== *)
theory Tokens
  imports Json_Text
begin

text \<open>
  \<open>harness/tokens.py\<close> and \<open>execution/auth.py\<close>: the facade token of a Workspace, the bearer of the
  harness for one Workspace, and the middleware in front of the execution service.

  HMAC-SHA256 and Ed25519 come from libraries and are parameters; base64 is modelled as
  \<open>binascii.a2b_base64\<close> reads it (characters outside the alphabet are skipped, a complete padding
  ends the input).
\<close>

section \<open>Base64\<close>

definition b64_char :: "nat \<Rightarrow> char" where
  "b64_char n = (if n < 26 then chr (65 + n) else if n < 52 then chr (71 + n) else if n < 62 then chr (n - 4)
     else if n = 62 then CHR ''-'' else CHR ''_'')"

fun sextets :: "nat list \<Rightarrow> nat list" where
  "sextets [] = []"
| "sextets [a] = [a div 4, a mod 4 * 16]"
| "sextets [a, b] = [a div 4, a mod 4 * 16 + b div 16, b mod 16 * 4]"
| "sextets (a # b # c # r) = a div 4 # (a mod 4 * 16 + b div 16) # (b mod 16 * 4 + c div 64) # c mod 64 # sextets r"

definition urlsafe_b64encode :: "string \<Rightarrow> string" where
  "urlsafe_b64encode raw = map b64_char (sextets (map ord raw)) @ replicate ((3 - length raw mod 3) mod 3) (CHR ''='')"

definition rstrip_char :: "char \<Rightarrow> string \<Rightarrow> string" where
  "rstrip_char c s = rev (dropWhile (\<lambda>x. x = c) (rev s))"

definition b64 :: "string \<Rightarrow> string" where
  "b64 raw = rstrip_char (CHR ''='') (urlsafe_b64encode raw)"

text \<open>The standard alphabet; \<open>urlsafe_b64decode\<close> first maps \<open>-\<close> and \<open>_\<close> to \<open>+\<close> and \<open>/\<close>.\<close>

definition sextet_of :: "char \<Rightarrow> nat option" where
  "sextet_of c =
     (if is_upper_az c then Some (ord c - 65)
      else if is_lower_az c then Some (ord c - 71)
      else if is_digit_09 c then Some (ord c + 4)
      else if c = CHR ''+'' then Some 62 else if c = CHR ''/'' then Some 63 else None)"

definition from_urlsafe :: "char \<Rightarrow> char" where
  "from_urlsafe c = (if c = CHR ''-'' then CHR ''+'' else if c = CHR ''_'' then CHR ''/'' else c)"

fun a2b :: "nat \<Rightarrow> nat \<Rightarrow> nat \<Rightarrow> string \<Rightarrow> string option" where
  "a2b quad left pads [] = (if quad = 0 then Some [] else None)"
| "a2b quad left pads (c # cs) =
     (if c = CHR ''='' then
        (if quad \<ge> 2 \<and> quad + (pads + 1) \<ge> 4 then Some []
         else a2b quad left (if quad \<ge> 2 then pads + 1 else pads) cs)
      else case sextet_of c of
        None \<Rightarrow> a2b quad left pads cs
      | Some v \<Rightarrow>
          if quad = 0 then a2b 1 v 0 cs
          else if quad = 1 then map_option (\<lambda>r. chr (left * 4 + v div 16) # r) (a2b 2 (v mod 16) 0 cs)
          else if quad = 2 then map_option (\<lambda>r. chr (left * 16 + v div 4) # r) (a2b 3 (v mod 4) 0 cs)
          else map_option (\<lambda>r. chr (left * 64 + v) # r) (a2b 0 0 0 cs))"

definition urlsafe_b64decode :: "string \<Rightarrow> string option" where
  "urlsafe_b64decode s = (if \<exists>c \<in> set s. ord c \<ge> 128 then None else a2b 0 0 0 (map from_urlsafe s))"

definition unb64 :: "string \<Rightarrow> string option" where
  "unb64 text = urlsafe_b64decode (text @ replicate ((4 - length text mod 4) mod 4) (CHR ''=''))"

section \<open>Tokens\<close>

text \<open>\<open>hexdigest\<close> and \<open>digest\<close> of the HMAC, and the Ed25519 calls on a seed and on public bytes.\<close>

record crypto =
  cr_hmac_hex :: "string \<Rightarrow> string \<Rightarrow> string"
  cr_hmac_raw :: "string \<Rightarrow> string \<Rightarrow> string"
  cr_ed_public :: "string \<Rightarrow> string"
  cr_ed_sign :: "string \<Rightarrow> string \<Rightarrow> string"
  cr_ed_key_ok :: "string \<Rightarrow> bool"
  cr_ed_verify :: "string \<Rightarrow> string \<Rightarrow> string \<Rightarrow> bool"

definition rpartition :: "char \<Rightarrow> string \<Rightarrow> (string \<times> string) option" where
  "rpartition sep s =
     (if sep \<in> set s
      then Some (rev (drop 1 (dropWhile (\<lambda>c. c \<noteq> sep) (rev s))), rev (takeWhile (\<lambda>c. c \<noteq> sep) (rev s)))
      else None)"

definition mac :: "crypto \<Rightarrow> string \<Rightarrow> string \<Rightarrow> string \<Rightarrow> string" where
  "mac K key purpose claim = cr_hmac_hex K key (utf8 (purpose @ '':'' @ claim))"

definition facade_token :: "crypto \<Rightarrow> string \<Rightarrow> string \<Rightarrow> string" where
  "facade_token K key claim = claim @ ''.'' @ mac K key ''facade'' claim"

definition host_token :: "crypto \<Rightarrow> string \<Rightarrow> string \<Rightarrow> string" where
  "host_token K key agent_uid = mac K key ''host'' agent_uid"

definition verify_facade_token :: "crypto \<Rightarrow> string \<Rightarrow> string \<Rightarrow> string option" where
  "verify_facade_token K key token =
     (case rpartition (CHR ''.'') token of
        None \<Rightarrow> None
      | Some (claim, m) \<Rightarrow>
          if claim = [] then None
          else if utf8 m = utf8 (mac K key ''facade'' claim) then Some claim else None)"

definition engine_seed :: "crypto \<Rightarrow> string \<Rightarrow> string" where
  "engine_seed K key = cr_hmac_raw K key ''ach-sandbox-engine''"

definition engine_verify_key :: "crypto \<Rightarrow> string \<Rightarrow> string" where
  "engine_verify_key K key = b64 (cr_ed_public K (engine_seed K key))"

definition engine_message :: "string \<Rightarrow> string" where
  "engine_message claim = utf8 (''ach-engine:'' @ claim)"

definition engine_bearer :: "crypto \<Rightarrow> string \<Rightarrow> string \<Rightarrow> string" where
  "engine_bearer K key claim = claim @ ''.'' @ b64 (cr_ed_sign K (engine_seed K key) (engine_message claim))"

definition verify_engine_bearer :: "crypto \<Rightarrow> string \<Rightarrow> string \<Rightarrow> string option" where
  "verify_engine_bearer K verify_key bearer =
     (case rpartition (CHR ''.'') bearer of
        None \<Rightarrow> None
      | Some (claim, sig) \<Rightarrow>
          if claim = [] then None
          else (case (unb64 verify_key, unb64 sig) of
              (Some pk, Some raw) \<Rightarrow> if cr_ed_key_ok K pk \<and> cr_ed_verify K pk raw (engine_message claim) then Some claim else None
            | _ \<Rightarrow> None))"

text \<open>\<open>WorkspaceAuthenticationFailed\<close> carries the claim, if the token had one.\<close>

definition authenticate_facade :: "crypto \<Rightarrow> string \<Rightarrow> string \<Rightarrow> (string \<Rightarrow> bool) \<Rightarrow> (string, string) result" where
  "authenticate_facade K key token owned_workspace =
     (case verify_facade_token K key token of
        None \<Rightarrow> Inl ''<malformed token>''
      | Some claim \<Rightarrow> if owned_workspace claim then Inr claim else Inl claim)"

definition load_harness_key :: "(string \<Rightarrow> string option) \<Rightarrow> string \<Rightarrow> string option" where
  "load_harness_key env name = (case env name of None \<Rightarrow> None | Some v \<Rightarrow> if v = [] then None else Some (utf8 v))"

section \<open>The middleware\<close>

record workspace_auth =
  wa_verify_key :: string
  wa_workspace_name :: string
  wa_instance_id :: string

datatype auth_config_error = MissingVerifyKey | MissingWorkspaceName | MissingInstanceId | MalformedVerifyKey

text \<open>\<open>^[A-Za-z0-9_-]+$\<close>, with \<open>re.match\<close>.\<close>

definition verify_key_alphabet :: "string \<Rightarrow> bool" where
  "verify_key_alphabet = re_dollar (\<lambda>s. s \<noteq> [] \<and>
     list_all (\<lambda>c. is_upper_az c \<or> is_lower_az c \<or> is_digit_09 c \<or> c = CHR ''_'' \<or> c = CHR ''-'') s)"

definition validate_verify_key :: "crypto \<Rightarrow> string \<Rightarrow> (auth_config_error, unit) result" where
  "validate_verify_key K vk =
     (if \<not> verify_key_alphabet vk then Inl MalformedVerifyKey
      else case unb64 vk of
        None \<Rightarrow> Inl MalformedVerifyKey
      | Some pk \<Rightarrow> if cr_ed_key_ok K pk then Inr () else Inl MalformedVerifyKey)"

definition create_authenticated_app :: "crypto \<Rightarrow> string \<Rightarrow> string \<Rightarrow> string \<Rightarrow> (auth_config_error, workspace_auth) result" where
  "create_authenticated_app K vk name inst =
     (if vk = [] then Inl MissingVerifyKey
      else if name = [] then Inl MissingWorkspaceName
      else if inst = [] then Inl MissingInstanceId
      else bind_res (validate_verify_key K vk) (\<lambda>_.
        Inr \<lparr>wa_verify_key = vk, wa_workspace_name = name, wa_instance_id = inst\<rparr>))"

record http_scope =
  hs_type :: string
  hs_path :: string
  hs_headers :: "(string \<times> string) list"

text \<open>What the wrapped application sees: the request as it is, or nothing and a 401.\<close>

datatype auth_outcome = Forward | ForwardTagged | Unauthorized

text \<open>\<open>dict(scope["headers"])\<close>: of repeated headers the last one counts.\<close>

definition scope_header :: "http_scope \<Rightarrow> string \<Rightarrow> string" where
  "scope_header sc name = (case map_of (rev (hs_headers sc)) name of None \<Rightarrow> [] | Some v \<Rightarrow> v)"

definition bearer_claim :: "crypto \<Rightarrow> workspace_auth \<Rightarrow> http_scope \<Rightarrow> string option" where
  "bearer_claim K w sc =
     (let header = scope_header sc ''authorization'' in
      if prefix ''Bearer '' header then verify_engine_bearer K (wa_verify_key w) (drop 7 header) else None)"

definition workspace_auth_call :: "crypto \<Rightarrow> workspace_auth \<Rightarrow> http_scope \<Rightarrow> auth_outcome" where
  "workspace_auth_call K w sc =
     (if hs_type sc \<noteq> ''http'' then Forward
      else if hs_path sc \<in> {''/healthz'', ''/readyz''} then ForwardTagged
      else if bearer_claim K w sc \<noteq> Some (wa_workspace_name w) \<or> scope_header sc ''x-ach-instance-id'' \<noteq> wa_instance_id w
      then Unauthorized else ForwardTagged)"

section \<open>Base64 round trip\<close>

lemma char_codes:
  "c = CHR ''='' \<longleftrightarrow> ord c = 61" "c = CHR ''-'' \<longleftrightarrow> ord c = 45" "c = CHR ''_'' \<longleftrightarrow> ord c = 95"
  "c = CHR ''+'' \<longleftrightarrow> ord c = 43" "c = CHR ''/'' \<longleftrightarrow> ord c = 47" "c = CHR ''.'' \<longleftrightarrow> ord c = 46"
  by (simp_all flip: ord_inject add: ord_def)

lemma ord_b64_char:
  "n < 64 \<Longrightarrow> ord (b64_char n) = (if n < 26 then 65 + n else if n < 52 then 71 + n else if n < 62 then n - 4 else if n = 62 then 45 else 95)"
  by (auto simp: b64_char_def) (simp_all add: ord_def)

lemma b64_char_cases:
  assumes "n < 64"
  shows "sextet_of (from_urlsafe (b64_char n)) = Some n" "b64_char n \<noteq> CHR ''=''" "b64_char n \<noteq> CHR ''.''"
    "from_urlsafe (b64_char n) \<noteq> CHR ''=''" "ord (b64_char n) < 128"
proof -
  have u: "ord (from_urlsafe (b64_char n)) = (if n < 62 then ord (b64_char n) else if n = 62 then 43 else 47)"
    using assms by (simp add: from_urlsafe_def char_codes ord_b64_char) (auto simp: ord_def)
  define k where "k = ord (from_urlsafe (b64_char n))"
  have k: "k = (if n < 26 then 65 + n else if n < 52 then 71 + n else if n < 62 then n - 4 else if n = 62 then 43 else 47)"
    using assms by (auto simp: k_def u ord_b64_char)
  then show "sextet_of (from_urlsafe (b64_char n)) = Some n"
    using assms unfolding sextet_of_def char_codes char_class_defs k_def[symmetric] by (auto split: if_splits)
  show "b64_char n \<noteq> CHR ''=''" "b64_char n \<noteq> CHR ''.''" "ord (b64_char n) < 128"
    using assms by (auto simp: char_codes ord_b64_char)
  show "from_urlsafe (b64_char n) \<noteq> CHR ''=''" using assms by (auto simp: char_codes u ord_b64_char)
qed

lemma a2b_step:
  assumes "n < 64"
  shows "a2b quad left pads (from_urlsafe (b64_char n) # cs) =
      (if quad = 0 then a2b 1 n 0 cs
       else if quad = 1 then map_option (\<lambda>r. chr (left * 4 + n div 16) # r) (a2b 2 (n mod 16) 0 cs)
       else if quad = 2 then map_option (\<lambda>r. chr (left * 16 + n div 4) # r) (a2b 3 (n mod 4) 0 cs)
       else map_option (\<lambda>r. chr (left * 64 + n) # r) (a2b 0 0 0 cs))"
  using b64_char_cases[OF assms] by simp

lemma a2b_pad: "a2b 2 left 0 [CHR ''='', CHR ''=''] = Some []" "a2b 3 left 0 [CHR ''=''] = Some []"
  by simp_all

declare a2b.simps(2) [simp del]

lemma byte_split:
  fixes a b c :: nat
  assumes "a < 256" "b < 256" "c < 256"
  shows "a div 4 < 64" "a mod 4 * 16 + b div 16 < 64" "b mod 16 * 4 + c div 64 < 64" "c mod 64 < 64"
    "a mod 4 * 16 < 64" "b mod 16 * 4 < 64"
    "a div 4 * 4 + (a mod 4 * 16 + b div 16) div 16 = a"
    "(a mod 4 * 16 + b div 16) mod 16 * 16 + (b mod 16 * 4 + c div 64) div 4 = b"
    "(b mod 16 * 4 + c div 64) mod 4 * 64 + c mod 64 = c"
proof -
  have d: "b div 16 < 16" "c div 64 < 4" "a mod 4 < 4" "b mod 16 < 16" "c mod 64 < 64" "a div 4 < 64"
    using assms by (simp_all add: less_mult_imp_div_less)
  then show "a div 4 < 64" "a mod 4 * 16 + b div 16 < 64" "b mod 16 * 4 + c div 64 < 64" "c mod 64 < 64"
    "a mod 4 * 16 < 64" "b mod 16 * 4 < 64" by linarith+
  have "(a mod 4 * 16 + b div 16) div 16 = a mod 4" "(a mod 4 * 16 + b div 16) mod 16 = b div 16"
    "(b mod 16 * 4 + c div 64) div 4 = b mod 16" "(b mod 16 * 4 + c div 64) mod 4 = c div 64" using d by simp_all
  then show "a div 4 * 4 + (a mod 4 * 16 + b div 16) div 16 = a"
    "(a mod 4 * 16 + b div 16) mod 16 * 16 + (b mod 16 * 4 + c div 64) div 4 = b"
    "(b mod 16 * 4 + c div 64) mod 4 * 64 + c mod 64 = c" by simp_all
qed

lemma high_nibble: "ord y div 16 mod 16 = ord y div 16" "ord y div 16 div 16 = 0"
proof -
  have "ord y div 16 < 16" using ord_less[of y] by linarith
  then show "ord y div 16 mod 16 = ord y div 16" "ord y div 16 div 16 = 0" by simp_all
qed

lemma replicate_two: "replicate 2 x = [x, x]"
  by (simp add: numeral_2_eq_2)

text \<open>Decoding the sextets, followed by the padding \<open>_unb64\<close> adds, gives the bytes back.\<close>

lemma a2b_sextets:
  "a2b 0 0 0 (map (from_urlsafe \<circ> b64_char) (sextets (map ord raw)) @
     replicate ((4 - length (sextets (map ord raw)) mod 4) mod 4) (CHR ''='')) = Some raw"
proof (induction "map ord raw" arbitrary: raw rule: sextets.induct)
  case (2 a)
  then obtain x where r: "raw = [x]" "a = ord x" by auto
  then show ?case using byte_split[of "ord x" 0 0] by (simp add: a2b_step replicate_two a2b_pad)
next
  case (3 a b)
  then obtain x y where r: "raw = [x, y]" "a = ord x" "b = ord y" by (auto simp: Cons_eq_map_conv)
  then show ?case using byte_split[of "ord x" "ord y" 0] by (simp add: a2b_step a2b_pad)
next
  case (4 a b c rs)
  then obtain x y z raw' where r: "raw = x # y # z # raw'" "rs = map ord raw'" "a = ord x" "b = ord y" "c = ord z"
    by (auto simp: Cons_eq_map_conv)
  then show ?case using byte_split[of "ord x" "ord y" "ord z"] 4(1)[of raw'] by (simp add: a2b_step high_nibble)
qed simp

lemma sextets_bytes: "list_all (\<lambda>n. n < 256) xs \<Longrightarrow> list_all (\<lambda>n. n < 64) (sextets xs)"
proof (induction xs rule: sextets.induct)
  case (2 a)
  then show ?case using byte_split[of a 0 0] by simp
next
  case (3 a b)
  then show ?case using byte_split[of a b 0] by simp
next
  case (4 a b c r)
  then show ?case using byte_split[of a b c] by simp
qed simp

lemma sextets_small: "n \<in> set (sextets (map ord raw)) \<Longrightarrow> n < 64"
  using sextets_bytes[of "map ord raw"] by (simp add: list_all_iff)

lemma rstrip_pad: "x \<notin> set s \<Longrightarrow> rstrip_char x (s @ replicate n x) = s"
  by (simp add: rstrip_char_def dropWhile_append dropWhile_eq_self_iff) (cases s rule: rev_cases; auto)

lemma b64_sextets: "b64 raw = map b64_char (sextets (map ord raw))"
proof -
  have "CHR ''='' \<notin> set (map b64_char (sextets (map ord raw)))"
    using b64_char_cases(2) sextets_small by (metis (no_types, lifting) in_set_conv_nth length_map nth_map nth_mem)
  then show ?thesis by (simp add: b64_def urlsafe_b64encode_def rstrip_pad)
qed

lemma b64_chars: "c \<in> set (b64 raw) \<Longrightarrow> c \<noteq> CHR ''.'' \<and> ord c < 128"
  using b64_char_cases sextets_small by (auto simp: b64_sextets)

lemma b64_no_dot: "CHR ''.'' \<notin> set (b64 raw)"
  using b64_chars by blast

lemma unb64_b64 [simp]: "unb64 (b64 raw) = Some raw"
proof -
  have "ord (CHR ''='') = 61" "from_urlsafe (CHR ''='') = CHR ''=''" by (simp_all add: ord_def from_urlsafe_def)
  then have "\<not> (\<exists>c \<in> set (b64 raw @ replicate k (CHR ''='')). ord c \<ge> 128)" for k
    using b64_chars[of _ raw] by fastforce
  then show ?thesis
    using a2b_sextets[of raw] \<open>from_urlsafe (CHR ''='') = CHR ''=''\<close>
    by (simp add: unb64_def urlsafe_b64decode_def b64_sextets)
qed

section \<open>Tokens\<close>

lemma rpartition_append: "sep \<notin> set b \<Longrightarrow> rpartition sep (a @ sep # b) = Some (a, b)"
  by (simp add: rpartition_def takeWhile_append dropWhile_append)

lemma rpartition_Some: "rpartition sep s = Some (a, b) \<Longrightarrow> s = a @ sep # b \<and> sep \<notin> set b"
proof -
  assume r: "rpartition sep s = Some (a, b)"
  then have "sep \<in> set (rev s)" by (auto simp: rpartition_def split: if_splits)
  from split_list_first[OF this] obtain u v where s: "rev s = u @ sep # v" "sep \<notin> set u" by blast
  from arg_cong[OF s(1), of rev] have "s = rev v @ sep # rev u" by simp
  then show ?thesis using rpartition_append[of sep "rev u" "rev v"] r s(2) by auto
qed

text \<open>
  What the libraries promise: a hex digest has only hexadecimal digits, and a signature made with a
  seed verifies under the public key of that seed.
\<close>

definition hex_digests :: "crypto \<Rightarrow> bool" where
  "hex_digests K \<longleftrightarrow> (\<forall>key msg. list_all is_hex_lower (cr_hmac_hex K key msg))"

definition signatures_verify :: "crypto \<Rightarrow> bool" where
  "signatures_verify K \<longleftrightarrow>
     (\<forall>seed msg. cr_ed_key_ok K (cr_ed_public K seed) \<and> cr_ed_verify K (cr_ed_public K seed) (cr_ed_sign K seed msg) msg)"

lemma mac_no_dot: "hex_digests K \<Longrightarrow> CHR ''.'' \<notin> set (mac K key purpose claim)"
proof
  assume h: "hex_digests K" and d: "CHR ''.'' \<in> set (mac K key purpose claim)"
  have "ord (CHR ''.'') = 46" by (simp add: ord_def)
  then have "\<not> is_hex_lower (CHR ''.'')" by (simp add: char_class_defs)
  then show False using h d by (auto simp: hex_digests_def mac_def list_all_iff)
qed

lemma engine_bearer_verifies:
  assumes "signatures_verify K" "claim \<noteq> []"
  shows "verify_engine_bearer K (engine_verify_key K key) (engine_bearer K key claim) = Some claim"
  using assms
  by (simp add: verify_engine_bearer_def engine_bearer_def engine_verify_key_def signatures_verify_def
      rpartition_append[OF b64_no_dot])

text \<open>
  Tokens identify their holder. A facade token verifies exactly when it is the one \<open>facade_token\<close>
  makes for that nonempty claim under the same key, whatever dots the claim has, so a verified claim
  is never another one and a host token is never a facade token; and the bearer the harness makes for
  a claim is accepted under its published key as that claim.
\<close>

theorem tokens_roundtrip:
  assumes "hex_digests K" "signatures_verify K"
  shows "(verify_facade_token K key token = Some claim \<longleftrightarrow> claim \<noteq> [] \<and> token = facade_token K key claim)
    \<and> verify_facade_token K key (host_token K key uid) = None
    \<and> (claim \<noteq> [] \<longrightarrow> verify_engine_bearer K (engine_verify_key K key) (engine_bearer K key claim) = Some claim)"
proof (intro conjI impI)
  show "verify_facade_token K key token = Some claim \<longleftrightarrow> claim \<noteq> [] \<and> token = facade_token K key claim" (is "?L \<longleftrightarrow> ?R")
  proof
    assume ?L
    then show ?R
      by (auto simp: verify_facade_token_def facade_token_def split: option.splits if_splits dest: rpartition_Some)
  next
    assume ?R
    then show ?L
      using rpartition_append[OF mac_no_dot[OF assms(1)]] by (simp add: verify_facade_token_def facade_token_def)
  qed
  show "verify_facade_token K key (host_token K key uid) = None"
    using mac_no_dot[OF assms(1)] by (simp add: verify_facade_token_def host_token_def rpartition_def)
qed (rule engine_bearer_verifies[OF assms(2)])

text \<open>A toy instance of the library functions.\<close>

definition example_crypto :: crypto where
  "example_crypto = \<lparr>cr_hmac_hex = (\<lambda>key msg. concat (map (hex_byte \<circ> ord) (key @ msg))), cr_hmac_raw = (\<lambda>key msg. key @ msg),
     cr_ed_public = id, cr_ed_sign = (\<lambda>seed msg. seed @ msg), cr_ed_key_ok = (\<lambda>_. True), cr_ed_verify = (\<lambda>pk sig msg. sig = pk @ msg)\<rparr>"

lemma example_crypto_ok: "hex_digests example_crypto" "signatures_verify example_crypto"
proof -
  have "is_hex_lower (hex_digit k)" if "k < 16" for k
    using that by (auto simp: char_class_defs ord_hex_digit)
  moreover have "ord c div 16 < 16" for c using ord_less[of c] by linarith
  ultimately show "hex_digests example_crypto" by (auto simp: hex_digests_def example_crypto_def hex_byte_def list_all_iff)
qed (simp add: signatures_verify_def example_crypto_def)

theorem tokens_roundtrip_witness:
  "verify_facade_token example_crypto ''k'' (facade_token example_crypto ''k'' ''ws.1'') = Some ''ws.1''
   \<and> verify_engine_bearer example_crypto (engine_verify_key example_crypto ''k'') (engine_bearer example_crypto ''k'' ''ws.1'') = Some ''ws.1''"
  using tokens_roundtrip[OF example_crypto_ok, of "''k''" _ "''ws.1''"] by simp

text \<open>
  C38. The execution service is behind its middleware. An HTTP request reaches a private route only
  with a bearer that verifies under the configured key for exactly this Workspace and with this
  instance's id in the last instance header; a bearer signed for another Workspace, or made for an
  earlier instance of it, gets a 401. A middleware that was created has a nonempty name and instance.
\<close>

theorem workspace_auth_enforced:
  assumes "create_authenticated_app K vk name inst = Inr w" "hs_type sc = ''http''" "workspace_auth_call K w sc \<noteq> Unauthorized"
  shows "hs_path sc \<in> {''/healthz'', ''/readyz''} \<or>
    (\<exists>bearer sig pk raw. scope_header sc ''authorization'' = ''Bearer '' @ bearer \<and> bearer = name @ ''.'' @ sig
       \<and> unb64 vk = Some pk \<and> unb64 sig = Some raw \<and> cr_ed_verify K pk raw (engine_message name)
       \<and> name \<noteq> [] \<and> inst \<noteq> [] \<and> scope_header sc ''x-ach-instance-id'' = inst)"
proof -
  have w: "w = \<lparr>wa_verify_key = vk, wa_workspace_name = name, wa_instance_id = inst\<rparr>" "name \<noteq> []" "inst \<noteq> []"
    using assms(1) by (auto simp: create_authenticated_app_def split: if_splits)
  show ?thesis
  proof (cases "hs_path sc \<in> {''/healthz'', ''/readyz''}")
    case False
    then have "bearer_claim K w sc = Some name" and i: "scope_header sc ''x-ach-instance-id'' = inst"
      using assms(2,3) w(1) by (auto simp: workspace_auth_call_def split: if_splits)
    then obtain bearer where b: "scope_header sc ''authorization'' = ''Bearer '' @ bearer"
      and v: "verify_engine_bearer K vk bearer = Some name"
      using w(1) by (auto simp: bearer_claim_def Let_def prefix_def split: if_splits)
    from v obtain sig pk raw where "bearer = name @ ''.'' @ sig" "unb64 vk = Some pk" "unb64 sig = Some raw"
        "cr_ed_verify K pk raw (engine_message name)"
      by (auto simp: verify_engine_bearer_def split: option.splits if_splits dest!: rpartition_Some)
    then show ?thesis using b i w(2,3) by blast
  qed simp
qed

lemma b64_alphabet:
  assumes "raw \<noteq> []"
  shows "verify_key_alphabet (b64 raw)"
proof -
  have "is_upper_az c \<or> is_lower_az c \<or> is_digit_09 c \<or> c = CHR ''_'' \<or> c = CHR ''-''" if cb: "c \<in> set (b64 raw)" for c
  proof -
    obtain n where n: "n < 64" "c = b64_char n" using cb sextets_small by (auto simp: b64_sextets)
    then show ?thesis unfolding char_class_defs char_codes by (auto simp: ord_b64_char split: if_splits)
  qed
  moreover have "b64 raw \<noteq> []" using assms by (cases "map ord raw" rule: sextets.cases) (auto simp: b64_sextets)
  ultimately show ?thesis by (simp add: verify_key_alphabet_def re_dollar_iff list_all_iff)
qed

definition example_auth :: workspace_auth where
  "example_auth = \<lparr>wa_verify_key = engine_verify_key example_crypto ''k'', wa_workspace_name = ''ws'', wa_instance_id = ''i1''\<rparr>"

definition example_scope :: http_scope where
  "example_scope = \<lparr>hs_type = ''http'', hs_path = ''/start'', hs_headers =
     [(''authorization'', ''Bearer '' @ engine_bearer example_crypto ''k'' ''ws''), (''x-ach-instance-id'', ''i1'')]\<rparr>"

theorem workspace_auth_enforced_witness:
  "\<exists>sig raw. engine_bearer example_crypto ''k'' ''ws'' = ''ws.'' @ sig \<and> unb64 sig = Some raw
     \<and> cr_ed_verify example_crypto (engine_seed example_crypto ''k'') raw (engine_message ''ws'')"
proof -
  have "engine_verify_key example_crypto ''k'' = b64 (engine_seed example_crypto ''k'')"
    by (simp add: engine_verify_key_def example_crypto_def)
  moreover have "engine_seed example_crypto ''k'' \<noteq> []" by (simp add: engine_seed_def example_crypto_def)
  ultimately have vk: "unb64 (engine_verify_key example_crypto ''k'') = Some (engine_seed example_crypto ''k'')"
    "verify_key_alphabet (engine_verify_key example_crypto ''k'')"
    by (simp_all add: b64_alphabet)
  then have "engine_verify_key example_crypto ''k'' \<noteq> []" by (auto simp: verify_key_alphabet_def re_dollar_iff)
  then have a: "create_authenticated_app example_crypto (engine_verify_key example_crypto ''k'') ''ws'' ''i1'' = Inr example_auth"
    using vk by (simp add: create_authenticated_app_def validate_verify_key_def example_auth_def)
      (simp add: example_crypto_def)
  have t: "workspace_auth_call example_crypto example_auth example_scope \<noteq> Unauthorized"
    using engine_bearer_verifies[OF example_crypto_ok(2), of "''ws''" "''k''"]
    by (simp add: workspace_auth_call_def bearer_claim_def scope_header_def example_scope_def example_auth_def)
  have h: "hs_type example_scope = ''http''" "hs_path example_scope \<notin> {''/healthz'', ''/readyz''}"
    "scope_header example_scope ''authorization'' = ''Bearer '' @ engine_bearer example_crypto ''k'' ''ws''"
    by (simp_all add: example_scope_def scope_header_def)
  from workspace_auth_enforced[OF a h(1) t] h(2,3) vk(1) show ?thesis by auto
qed

end
