(* ===== verification/Wire.thy ===== *)
theory Wire
  imports Prelude
begin

text \<open>
  \<open>execution/wire.py\<close>: the messages between the harness and the service inside a Workspace, and what
  their strict models accept of a decoded JSON value. Timestamps are read by a parameter that gives
  an instant only for an ISO text with an offset.
\<close>

section \<open>Messages\<close>

datatype run_state =
  RunQueued | RunPreparing | RunSending | RunRunning | RunCompleted | RunFailed | RunCancelled | RunSkipped | RunUnknown

definition run_states :: "(string \<times> run_state) list" where
  "run_states = [(''queued'', RunQueued), (''preparing'', RunPreparing), (''sending'', RunSending), (''running'', RunRunning),
     (''completed'', RunCompleted), (''failed'', RunFailed), (''cancelled'', RunCancelled), (''skipped'', RunSkipped),
     (''unknown'', RunUnknown)]"

record start_request =
  sq_invocation_id :: string
  sq_channel :: string
  sq_workspace_ref :: string
  sq_session_ref :: string
  sq_workspace_key :: string
  sq_session_key :: string
  sq_config_version :: string
  sq_prompt :: string
  sq_deadline_at :: int
  sq_memory_available :: "bool option"
  sq_inform_user :: bool

record started =
  sd_invocation_id :: string
  sd_session_ref :: string
  sd_run_id :: string
  sd_config_version :: string

record run_status =
  rs_invocation_id :: string
  rs_channel :: string
  rs_workspace_ref :: string
  rs_session_ref :: string
  rs_run_id :: "string option"
  rs_config_version :: string
  rs_deadline_at :: int
  rs_state :: run_state
  rs_error :: "string option"
  rs_result :: json

record cancel_request =
  cq_invocation_id :: string
  cq_reason :: string

section \<open>Validation\<close>

datatype wire_error = WireInvalid

text \<open>\<open>extra="forbid"\<close> and the fields of a strict model.\<close>

definition only_keys :: "string list \<Rightarrow> dict \<Rightarrow> (wire_error, unit) result" where
  "only_keys ks d = require (list_all (\<lambda>kv. fst kv \<in> set ks) d) WireInvalid"

definition str_field :: "nat \<Rightarrow> dict \<Rightarrow> string \<Rightarrow> (wire_error, string) result" where
  "str_field min_length d k =
     (case map_of d k of Some (JStr s) \<Rightarrow> if length s < min_length then Inl WireInvalid else Inr s | _ \<Rightarrow> Inl WireInvalid)"

definition opt_str_field :: "bool \<Rightarrow> dict \<Rightarrow> string \<Rightarrow> (wire_error, string option) result" where
  "opt_str_field required d k =
     (case map_of d k of
        None \<Rightarrow> if required then Inl WireInvalid else Inr None
      | Some JNull \<Rightarrow> Inr None
      | Some (JStr s) \<Rightarrow> Inr (Some s)
      | _ \<Rightarrow> Inl WireInvalid)"

definition bool_field :: "dict \<Rightarrow> string \<Rightarrow> (wire_error, bool) result" where
  "bool_field d k = (case map_of d k of None \<Rightarrow> Inr False | Some (JBool b) \<Rightarrow> Inr b | _ \<Rightarrow> Inl WireInvalid)"

definition opt_bool_field :: "dict \<Rightarrow> string \<Rightarrow> (wire_error, bool option) result" where
  "opt_bool_field d k =
     (case map_of d k of None \<Rightarrow> Inr None | Some JNull \<Rightarrow> Inr None | Some (JBool b) \<Rightarrow> Inr (Some b) | _ \<Rightarrow> Inl WireInvalid)"

definition deadline_field :: "(string \<Rightarrow> int option) \<Rightarrow> dict \<Rightarrow> (wire_error, int) result" where
  "deadline_field aware d =
     (case map_of d ''deadlineAt'' of
        Some (JStr s) \<Rightarrow> (case aware s of Some t \<Rightarrow> Inr t | None \<Rightarrow> Inl WireInvalid)
      | _ \<Rightarrow> Inl WireInvalid)"

definition state_field :: "dict \<Rightarrow> (wire_error, run_state) result" where
  "state_field d =
     (case map_of d ''state'' of
        Some (JStr s) \<Rightarrow> (case map_of run_states s of Some st \<Rightarrow> Inr st | None \<Rightarrow> Inl WireInvalid)
      | _ \<Rightarrow> Inl WireInvalid)"

definition as_object :: "json \<Rightarrow> (wire_error, dict) result" where
  "as_object v = (case v of JObj d \<Rightarrow> Inr d | _ \<Rightarrow> Inl WireInvalid)"

definition parse_start_request :: "(string \<Rightarrow> int option) \<Rightarrow> json \<Rightarrow> (wire_error, start_request) result" where
  "parse_start_request aware v =
     bind_res (as_object v) (\<lambda>d.
     bind_res (only_keys [''invocationId'', ''channel'', ''workspaceRef'', ''sessionRef'', ''workspaceKey'', ''sessionKey'',
       ''configVersion'', ''prompt'', ''deadlineAt'', ''memoryAvailable'', ''informUser''] d) (\<lambda>_.
     bind_res (str_field 1 d ''invocationId'') (\<lambda>inv.
     bind_res (str_field 1 d ''channel'') (\<lambda>ch.
     bind_res (str_field 1 d ''workspaceRef'') (\<lambda>wr.
     bind_res (str_field 1 d ''sessionRef'') (\<lambda>sr.
     bind_res (str_field 1 d ''workspaceKey'') (\<lambda>wk.
     bind_res (str_field 1 d ''sessionKey'') (\<lambda>sk.
     bind_res (str_field 0 d ''configVersion'') (\<lambda>cv.
     bind_res (require (hex64 cv) WireInvalid) (\<lambda>_.
     bind_res (str_field 0 d ''prompt'') (\<lambda>pr.
     bind_res (deadline_field aware d) (\<lambda>dl.
     bind_res (opt_bool_field d ''memoryAvailable'') (\<lambda>mem.
     bind_res (bool_field d ''informUser'') (\<lambda>inf.
       Inr \<lparr>sq_invocation_id = inv, sq_channel = ch, sq_workspace_ref = wr, sq_session_ref = sr, sq_workspace_key = wk,
            sq_session_key = sk, sq_config_version = cv, sq_prompt = pr, sq_deadline_at = dl,
            sq_memory_available = mem, sq_inform_user = inf\<rparr>))))))))))))))"

definition parse_started :: "json \<Rightarrow> (wire_error, started) result" where
  "parse_started v =
     bind_res (as_object v) (\<lambda>d.
     bind_res (only_keys [''invocationId'', ''sessionRef'', ''runId'', ''configVersion''] d) (\<lambda>_.
     bind_res (str_field 0 d ''invocationId'') (\<lambda>inv.
     bind_res (str_field 0 d ''sessionRef'') (\<lambda>sr.
     bind_res (str_field 0 d ''runId'') (\<lambda>run.
     bind_res (str_field 0 d ''configVersion'') (\<lambda>cv.
       Inr \<lparr>sd_invocation_id = inv, sd_session_ref = sr, sd_run_id = run, sd_config_version = cv\<rparr>))))))"

definition parse_run_status :: "(string \<Rightarrow> int option) \<Rightarrow> json \<Rightarrow> (wire_error, run_status) result" where
  "parse_run_status aware v =
     bind_res (as_object v) (\<lambda>d.
     bind_res (only_keys [''invocationId'', ''channel'', ''workspaceRef'', ''sessionRef'', ''runId'', ''configVersion'',
       ''deadlineAt'', ''state'', ''error'', ''result''] d) (\<lambda>_.
     bind_res (str_field 0 d ''invocationId'') (\<lambda>inv.
     bind_res (str_field 0 d ''channel'') (\<lambda>ch.
     bind_res (str_field 0 d ''workspaceRef'') (\<lambda>wr.
     bind_res (str_field 0 d ''sessionRef'') (\<lambda>sr.
     bind_res (opt_str_field True d ''runId'') (\<lambda>run.
     bind_res (str_field 0 d ''configVersion'') (\<lambda>cv.
     bind_res (deadline_field aware d) (\<lambda>dl.
     bind_res (state_field d) (\<lambda>st.
     bind_res (opt_str_field False d ''error'') (\<lambda>err.
       Inr \<lparr>rs_invocation_id = inv, rs_channel = ch, rs_workspace_ref = wr, rs_session_ref = sr, rs_run_id = run,
            rs_config_version = cv, rs_deadline_at = dl, rs_state = st, rs_error = err,
            rs_result = dict_get d ''result'' JNull\<rparr>)))))))))))"

definition parse_cancel_request :: "json \<Rightarrow> (wire_error, cancel_request) result" where
  "parse_cancel_request v =
     bind_res (as_object v) (\<lambda>d.
     bind_res (only_keys [''invocationId'', ''reason''] d) (\<lambda>_.
     bind_res (str_field 1 d ''invocationId'') (\<lambda>inv.
     bind_res (str_field 1 d ''reason'') (\<lambda>rs.
       Inr \<lparr>cq_invocation_id = inv, cq_reason = rs\<rparr>))))"

section \<open>Printing\<close>

text \<open>\<open>model_dump(by_alias=True, mode="json")\<close>, with the timestamps printed by a parameter.\<close>

definition opt_json :: "('a \<Rightarrow> json) \<Rightarrow> 'a option \<Rightarrow> json" where
  "opt_json f x = (case x of None \<Rightarrow> JNull | Some v \<Rightarrow> f v)"

definition dump_start_request :: "(int \<Rightarrow> string) \<Rightarrow> start_request \<Rightarrow> dict" where
  "dump_start_request show_time r =
     [(''invocationId'', JStr (sq_invocation_id r)), (''channel'', JStr (sq_channel r)),
      (''workspaceRef'', JStr (sq_workspace_ref r)), (''sessionRef'', JStr (sq_session_ref r)),
      (''workspaceKey'', JStr (sq_workspace_key r)), (''sessionKey'', JStr (sq_session_key r)),
      (''configVersion'', JStr (sq_config_version r)), (''prompt'', JStr (sq_prompt r)),
      (''deadlineAt'', JStr (show_time (sq_deadline_at r))),
      (''memoryAvailable'', opt_json JBool (sq_memory_available r)), (''informUser'', JBool (sq_inform_user r))]"

definition dump_run_status :: "(int \<Rightarrow> string) \<Rightarrow> run_status \<Rightarrow> dict" where
  "dump_run_status show_time r =
     [(''invocationId'', JStr (rs_invocation_id r)), (''channel'', JStr (rs_channel r)),
      (''workspaceRef'', JStr (rs_workspace_ref r)), (''sessionRef'', JStr (rs_session_ref r)),
      (''runId'', opt_json JStr (rs_run_id r)), (''configVersion'', JStr (rs_config_version r)),
      (''deadlineAt'', JStr (show_time (rs_deadline_at r))),
      (''state'', JStr (case find (\<lambda>p. snd p = rs_state r) run_states of Some p \<Rightarrow> fst p | None \<Rightarrow> [])),
      (''error'', opt_json JStr (rs_error r)), (''result'', rs_result r)]"

section \<open>Round trips\<close>

text \<open>A request that a \<open>StartRequest\<close> can hold.\<close>

definition start_request_ok :: "start_request \<Rightarrow> bool" where
  "start_request_ok r \<longleftrightarrow> sq_invocation_id r \<noteq> [] \<and> sq_channel r \<noteq> [] \<and> sq_workspace_ref r \<noteq> [] \<and> sq_session_ref r \<noteq> []
     \<and> sq_workspace_key r \<noteq> [] \<and> sq_session_key r \<noteq> [] \<and> hex64 (sq_config_version r)"

lemmas parse_simps = as_object_def only_keys_def str_field_def opt_str_field_def bool_field_def opt_bool_field_def
  deadline_field_def state_field_def require_def opt_json_def

lemma state_name_roundtrip: "map_of run_states (case find (\<lambda>p. snd p = st) run_states of Some p \<Rightarrow> fst p | None \<Rightarrow> []) = Some st"
  by (cases st) (simp_all add: run_states_def)

lemma parse_dumped_request:
  "(\<And>t. aware (show_time t) = Some t) \<Longrightarrow> start_request_ok q \<Longrightarrow> parse_start_request aware (JObj (dump_start_request show_time q)) = Inr q"
  by (cases "sq_memory_available q") (auto simp: parse_start_request_def dump_start_request_def start_request_ok_def parse_simps)

lemma str_field_nonempty: "str_field (Suc 0) d k = Inr [] \<Longrightarrow> False"
  by (simp add: str_field_def split: option.splits json.splits if_splits)

text \<open>
  C39. The wire format is faithful. What the harness prints of a start request, and what the service
  prints of a run's status, is read back by the other side as the same record, deadline included;
  and every start request that is read has nonempty references and a config version of 64 hex digits.
\<close>

theorem wire_roundtrip:
  assumes "\<And>t. aware (show_time t) = Some t" "start_request_ok q"
  shows "parse_start_request aware (JObj (dump_start_request show_time q)) = Inr q
    \<and> parse_run_status aware (JObj (dump_run_status show_time s)) = Inr s
    \<and> (\<forall>v r. parse_start_request aware v = Inr r \<longrightarrow> start_request_ok r)"
proof (intro conjI allI impI)
  show "parse_start_request aware (JObj (dump_start_request show_time q)) = Inr q" using assms by (rule parse_dumped_request)
  show "parse_run_status aware (JObj (dump_run_status show_time s)) = Inr s"
    using assms(1) state_name_roundtrip[of "rs_state s"]
    by (cases "rs_run_id s"; cases "rs_error s") (auto simp: parse_run_status_def dump_run_status_def parse_simps dict_get_def)
  fix v r assume "parse_start_request aware v = Inr r"
  then show "start_request_ok r"
    unfolding parse_start_request_def by (auto simp: start_request_ok_def dest: str_field_nonempty)
qed

text \<open>The \<open>result\<close> of a run may hold a number that is not finite: nothing applies \<open>_finite_json\<close>.\<close>

lemma run_status_accepts_nan:
  "\<exists>r. parse_run_status (\<lambda>_. Some 0) (JObj [(''invocationId'', JStr ''i''), (''channel'', JStr ''c''), (''workspaceRef'', JStr ''w''),
     (''sessionRef'', JStr ''s''), (''runId'', JNull), (''configVersion'', JStr ''v''), (''deadlineAt'', JStr ''t''),
     (''state'', JStr ''running''), (''result'', JFloat PyNan)]) = Inr r \<and> rs_result r = JFloat PyNan"
  by (simp add: parse_run_status_def parse_simps run_states_def dict_get_def)

definition example_start :: start_request where
  "example_start = \<lparr>sq_invocation_id = ''i'', sq_channel = ''c'', sq_workspace_ref = ''w'', sq_session_ref = ''s'',
     sq_workspace_key = ''wk'', sq_session_key = ''sk'', sq_config_version = replicate 64 (CHR ''a''), sq_prompt = [],
     sq_deadline_at = 3, sq_memory_available = None, sq_inform_user = False\<rparr>"

definition tick_time :: "int \<Rightarrow> string" where
  "tick_time t = (if t < 0 then CHR ''-'' else CHR ''+'') # replicate (nat \<bar>t\<bar>) (CHR ''i'')"

definition tick_read :: "string \<Rightarrow> int option" where
  "tick_read s = (case s of [] \<Rightarrow> None | c # r \<Rightarrow> Some (if c = CHR ''-'' then - int (length r) else int (length r)))"

theorem wire_roundtrip_witness:
  "parse_start_request tick_read (JObj (dump_start_request tick_time example_start)) = Inr example_start"
proof -
  have a: "tick_read (tick_time t) = Some t" for t by (simp add: tick_read_def tick_time_def)
  have "hex64 (replicate 64 (CHR ''a''))" by code_simp
  then have b: "start_request_ok example_start" by (simp add: start_request_ok_def example_start_def)
  from wire_roundtrip[OF a b] show ?thesis by blast
qed

end
