(* ===== verification/A2A.thy ===== *)
theory A2A
  imports Wire Routing
begin

text \<open>
  \<open>channels/a2a.py\<close>: the extraction of the reply from an agent's output, the guard in front of the
  protocol's routes, and the bridge that turns a protocol request into an admitted event and the
  run's result into the events its caller sees.

  \<open>json.loads\<close> is an argument; a text it rejects is \<open>None\<close>. Awaiting a future gives its value, the
  cancellation of the task, or the exception it holds.
\<close>

section \<open>Extraction of the reply\<close>

text \<open>\<open>_find_matching_brace\<close> on the rest of the text; \<open>None\<close> is the result \<open>-1\<close>.\<close>

fun scan_brace :: "int \<Rightarrow> bool \<Rightarrow> bool \<Rightarrow> nat \<Rightarrow> string \<Rightarrow> nat option" where
  "scan_brace depth in_string escape i [] = None"
| "scan_brace depth in_string escape i (c # cs) =
     (if escape then scan_brace depth in_string False (i + 1) cs
      else if c = chr 92 \<and> in_string then scan_brace depth in_string True (i + 1) cs
      else
        let in_string' = (if c = chr 34 then \<not> in_string else in_string) in
        if in_string' then scan_brace depth in_string' False (i + 1) cs
        else if c = CHR ''{'' then scan_brace (depth + 1) in_string' False (i + 1) cs
        else if c = CHR ''}'' then
          (if depth - 1 = 0 then Some i else scan_brace (depth - 1) in_string' False (i + 1) cs)
        else scan_brace depth in_string' False (i + 1) cs)"

definition find_matching_brace :: "string \<Rightarrow> nat \<Rightarrow> nat option" where
  "find_matching_brace text start = scan_brace 0 False False start (drop start text)"

text \<open>
  \<open>_FENCE_RE\<close>, with \<open>group(1).strip()\<close>: the text between the first three backticks, after an
  optional \<open>json\<close>, and the next three. (No shorter match of the blanks before the body, and no later
  opening fence, can match where this one fails.)
\<close>

definition fence :: string where
  "fence = replicate 3 (chr 96)"

definition fence_body :: "string \<Rightarrow> string option" where
  "fence_body text =
     (case find_sub fence text of
        None \<Rightarrow> None
      | Some (_, rest) \<Rightarrow>
          let rest' = lstrip (if prefix ''json'' rest then drop 4 rest else rest) in
          map_option (\<lambda>(body, _). strip body) (find_sub fence rest'))"

definition action_key :: string where
  "action_key = [chr 34] @ ''action'' @ [chr 34]"

definition opener_at :: "string \<Rightarrow> bool" where
  "opener_at s = (case s of [] \<Rightarrow> False | c # r \<Rightarrow> c = CHR ''{'' \<and> prefix action_key (lstrip r))"

text \<open>\<open>_OPENER_RE.finditer\<close>: a match has no brace after its first character, so matches never overlap.\<close>

definition opener_starts :: "string \<Rightarrow> nat list" where
  "opener_starts text = filter (\<lambda>i. opener_at (drop i text)) [0..<length text]"

fun try_openers :: "(string \<Rightarrow> json option) \<Rightarrow> string \<Rightarrow> nat list \<Rightarrow> dict option" where
  "try_openers loads text [] = None"
| "try_openers loads text (pos # ps) =
     (case find_matching_brace text pos of
        None \<Rightarrow> try_openers loads text ps
      | Some e \<Rightarrow> (case loads (take (e + 1 - pos) (drop pos text)) of
          Some (JObj d) \<Rightarrow> Some d
        | _ \<Rightarrow> try_openers loads text ps))"

definition extract_terminal :: "(string \<Rightarrow> json option) \<Rightarrow> string \<Rightarrow> dict option" where
  "extract_terminal loads accumulated =
     (let text = (case fence_body accumulated of Some b \<Rightarrow> b | None \<Rightarrow> accumulated)
      in try_openers loads text (rev (opener_starts text)))"

record a2a_reply =
  ar_text :: string
  ar_thoughts :: string

definition validate_a2a_reply :: "dict option \<Rightarrow> a2a_reply option" where
  "validate_a2a_reply v =
     (case v of
        None \<Rightarrow> None
      | Some d \<Rightarrow>
          if map_of d ''action'' \<noteq> Some (JStr ''a2a_reply'') then None
          else if \<not> list_all (\<lambda>kv. fst kv \<in> {''action'', ''text'', ''thoughts''}) d then None
          else (case (map_of d ''text'', dict_get d ''thoughts'' (JStr [])) of
              (Some (JStr t), JStr h) \<Rightarrow> if strip t = [] then None else Some \<lparr>ar_text = t, ar_thoughts = h\<rparr>
            | _ \<Rightarrow> None))"

section \<open>Authorisation\<close>

type_synonym environ = "string \<Rightarrow> string option"

definition env_get :: "environ \<Rightarrow> string \<Rightarrow> string" where
  "env_get env k = (case env k of None \<Rightarrow> [] | Some v \<Rightarrow> v)"

definition authorized :: "environ \<Rightarrow> channel_config \<Rightarrow> (string \<times> string) list \<Rightarrow> bool" where
  "authorized env ch headers =
     (case ch_a2a ch of
        None \<Rightarrow> False
      | Some auth \<Rightarrow>
          env_get env (aa_env auth) \<noteq> []
          \<and> utf8 (case map_of headers (lower (aa_header auth)) of None \<Rightarrow> [] | Some v \<Rightarrow> v) = utf8 (env_get env (aa_env auth)))"

definition card_paths :: "string list" where
  "card_paths = [''/.well-known/agent-card.json'', ''/.well-known/agent.json'']"

record a2a_request =
  aq_scope :: string
  aq_method :: string
  aq_root_path :: string
  aq_path :: string
  aq_headers :: "(string \<times> string) list"

text \<open>\<open>_AuthGuardMiddleware.__call__\<close>: whether the request reaches the protocol's routes.\<close>

definition guard_passes :: "environ \<Rightarrow> channel_config \<Rightarrow> a2a_request \<Rightarrow> bool" where
  "guard_passes env ch r \<longleftrightarrow>
     aq_scope r \<noteq> ''http''
     \<or> aq_method r \<in> {''GET'', ''HEAD''} \<and> aq_path r \<in> (\<lambda>p. aq_root_path r @ p) ` set card_paths
     \<or> authorized env ch (aq_headers r)"

section \<open>The bridge\<close>

datatype task_state = TaskCanceled | TaskCompleted | TaskFailed | TaskRejected | TaskWorking

record status_event =
  se_state :: task_state
  se_text :: "string option"
  se_task_id :: string
  se_context_id :: string

definition unroutable_headers :: "string list" where
  "unroutable_headers = [''authorization'', ''cookie'', ''proxy-authorization'']"

definition hidden_headers :: "channel_config \<Rightarrow> string list" where
  "hidden_headers ch = unroutable_headers @ (case ch_a2a ch of None \<Rightarrow> [] | Some auth \<Rightarrow> [lower (aa_header auth)])"

definition routable_headers :: "channel_config \<Rightarrow> (string \<times> string) list \<Rightarrow> dict" where
  "routable_headers ch headers =
     foldl (\<lambda>d (k, v). if lower k \<in> set (hidden_headers ch) then d else dict_set d (lower k) (JStr v)) [] headers"

definition a2a_event :: "channel_config \<Rightarrow> string \<Rightarrow> string \<Rightarrow> string \<Rightarrow> (string \<times> string) list \<Rightarrow> event" where
  "a2a_event ch task_id context_id text headers =
     \<lparr>ev_id = ''a2a:'' @ task_id, ev_channel = ch_name ch, ev_type = ''a2a'', ev_source = ''a2a'',
      ev_payload = [(''text'', JStr text), (''task_id'', JStr task_id), (''context_id'', JStr context_id)],
      ev_context = [(''a2a'', JObj [(''taskId'', JStr task_id), (''contextId'', JStr context_id)]),
                    (''headers'', JObj (routable_headers ch headers))],
      ev_actor = []\<rparr>"

text \<open>The bridge's registers and the emitters of the control process, each emitter by a number.\<close>

record bridge =
  br_cancel_events :: "(string \<times> bool) list"
  br_waiter_counts :: "(string \<times> int) list"
  br_progress :: "(string \<times> nat list) list"

text \<open>The exceptions \<open>execute\<close> distinguishes, with their message where it is shown.\<close>

datatype a2a_exc =
    QueueFullExc
  | RateLimitedExc
  | NamedExc string
  | OtherExc
  | TaskCancelledExc

definition exc_event :: "string \<Rightarrow> string \<Rightarrow> a2a_exc \<Rightarrow> status_event list" where
  "exc_event task_id context_id e =
     (case e of
        TaskCancelledExc \<Rightarrow> []
      | _ \<Rightarrow>
         [\<lparr>se_state = TaskFailed,
           se_text = Some (case e of QueueFullExc \<Rightarrow> ''Queue full'' | RateLimitedExc \<Rightarrow> ''Rate limited''
             | NamedExc m \<Rightarrow> (if m = [] then ''Invocation failed'' else m) | _ \<Rightarrow> ''Invocation failed''),
           se_task_id = task_id, se_context_id = context_id\<rparr>])"

datatype 'a waited = Done 'a | Interrupted | Raised a2a_exc

text \<open>The last part of \<open>execute\<close>: the caller's view of a finished run; \<open>None\<close> is a result of another type.\<close>

definition result_event :: "(string \<Rightarrow> json option) \<Rightarrow> string \<Rightarrow> string \<Rightarrow> run_status option \<Rightarrow> status_event" where
  "result_event loads task_id context_id r =
     (let ev = (\<lambda>st t. \<lparr>se_state = st, se_text = Some t, se_task_id = task_id, se_context_id = context_id\<rparr>) in
      case r of
        None \<Rightarrow> ev TaskFailed ''Invocation failed''
      | Some s \<Rightarrow>
          if rs_state s = RunSkipped then ev TaskRejected ''skipped by sessionStart''
          else if rs_state s \<noteq> RunCompleted then
            ev TaskFailed (case rs_error s of Some e \<Rightarrow> if e = [] then ''Invocation failed'' else e | None \<Rightarrow> ''Invocation failed'')
          else
            let raw = (case rs_result s of JObj d \<Rightarrow> map_of d ''text'' | _ \<Rightarrow> None);
                terminal = (case raw of Some (JStr t) \<Rightarrow> extract_terminal loads t | _ \<Rightarrow> None) in
            case validate_a2a_reply terminal of
              None \<Rightarrow> ev TaskFailed ''invalid terminal output''
            | Some reply \<Rightarrow> ev TaskCompleted (ar_text reply))"

text \<open>
  Before admission: the text of the failure event that ends the call, an exception that leaves
  \<open>execute\<close>, or the routed event. \<open>show_routing\<close> is the message of a \<open>RoutingError\<close>.
\<close>

datatype prepared = PreparedFail string | PreparedRaise | PreparedEvent routed_event

definition prepare_execute ::
  "(routing_error \<Rightarrow> string) \<Rightarrow> environ \<Rightarrow> channel_config \<Rightarrow> bool \<Rightarrow> bool \<Rightarrow> string \<Rightarrow> string \<Rightarrow> (string \<times> string) list \<Rightarrow>
   string \<Rightarrow> prepared" where
  "prepare_execute show_routing env ch ready stopping task_id context_id headers text =
     (if \<not> authorized env ch headers then PreparedFail ''Unauthorized''
      else if task_id = [] then PreparedFail ''Missing task identifier''
      else if \<not> ready \<or> stopping then PreparedFail ''Control is not ready''
      else case route (a2a_event ch task_id context_id text headers) ch of
        Inl (RoutingExc x) \<Rightarrow> PreparedRaise
      | Inl e \<Rightarrow> PreparedFail (show_routing e)
      | Inr r \<Rightarrow> PreparedEvent r)"

definition register_waiter :: "string \<Rightarrow> bridge \<Rightarrow> bridge" where
  "register_waiter task_id b =
     b\<lparr>br_cancel_events := (if dict_has (br_cancel_events b) task_id then br_cancel_events b
                            else dict_set (br_cancel_events b) task_id False),
       br_waiter_counts := dict_set (br_waiter_counts b) task_id
         ((case map_of (br_waiter_counts b) task_id of None \<Rightarrow> 0 | Some n \<Rightarrow> n) + 1)\<rparr>"

definition add_emitter :: "string \<Rightarrow> nat \<Rightarrow> bridge \<Rightarrow> bridge" where
  "add_emitter invocation_id emit b =
     b\<lparr>br_progress := dict_set (br_progress b) invocation_id
         ((case map_of (br_progress b) invocation_id of None \<Rightarrow> [] | Some es \<Rightarrow> es) @ [emit])\<rparr>"

definition remove_emitter :: "string \<Rightarrow> nat \<Rightarrow> bridge \<Rightarrow> bridge" where
  "remove_emitter invocation_id emit b =
     (let es = remove1 emit (case map_of (br_progress b) invocation_id of None \<Rightarrow> [] | Some es \<Rightarrow> es) in
      b\<lparr>br_progress := (if es = [] then dict_del (br_progress b) invocation_id else dict_set (br_progress b) invocation_id es)\<rparr>)"

definition release_waiter :: "string \<Rightarrow> bridge \<Rightarrow> bridge" where
  "release_waiter task_id b =
     (let n = (case map_of (br_waiter_counts b) task_id of None \<Rightarrow> 0 | Some n \<Rightarrow> n) - 1 in
      if n = 0 then b\<lparr>br_waiter_counts := dict_del (br_waiter_counts b) task_id,
                      br_cancel_events := dict_del (br_cancel_events b) task_id\<rparr>
      else b\<lparr>br_waiter_counts := dict_set (br_waiter_counts b) task_id n\<rparr>)"

text \<open>The registers at the end of a call: \<open>admitted\<close> is the invocation and its emitter, if admission gave one.\<close>

definition finish_execute :: "string \<Rightarrow> (string \<times> nat) option \<Rightarrow> bridge \<Rightarrow> bridge" where
  "finish_execute task_id admitted b =
     release_waiter task_id (case admitted of None \<Rightarrow> b | Some (ivk, emit) \<Rightarrow> remove_emitter ivk emit b)"

text \<open>
  The events of one call, given the outcome of admission and of the two waits.
\<close>

definition execute_events ::
  "(string \<Rightarrow> json option) \<Rightarrow> string \<Rightarrow> string \<Rightarrow> (a2a_exc, string) result \<Rightarrow> unit waited \<Rightarrow> run_status option waited \<Rightarrow>
   status_event list" where
  "execute_events loads task_id context_id admitted started completed =
     (case admitted of
        Inl e \<Rightarrow> exc_event task_id context_id e
      | Inr _ \<Rightarrow>
         (case started of
            Interrupted \<Rightarrow> []
          | Raised e \<Rightarrow> exc_event task_id context_id e
          | Done _ \<Rightarrow>
             \<lparr>se_state = TaskWorking, se_text = None, se_task_id = task_id, se_context_id = context_id\<rparr> #
             (case completed of
                Interrupted \<Rightarrow> []
              | Raised e \<Rightarrow> exc_event task_id context_id e
              | Done r \<Rightarrow> [result_event loads task_id context_id r])))"

definition cancel_call :: "string \<Rightarrow> string \<Rightarrow> bridge \<Rightarrow> status_event \<times> bridge" where
  "cancel_call task_id context_id b =
     (\<lparr>se_state = TaskCanceled, se_text = None, se_task_id = task_id, se_context_id = context_id\<rparr>,
      if dict_has (br_cancel_events b) task_id
      then b\<lparr>br_cancel_events := dict_set (br_cancel_events b) task_id True\<rparr> else b)"

definition shutdown_bridge :: "bridge \<Rightarrow> bridge" where
  "shutdown_bridge b = b\<lparr>br_cancel_events := map (\<lambda>(k, _). (k, True)) (br_cancel_events b)\<rparr>"

section \<open>Matching braces of JSON text\<close>

text \<open>The text of a value as \<open>json.dumps\<close> writes it without blanks; \<open>PyFin t v\<close> carries its own text.\<close>

fun json_text :: "bool \<Rightarrow> json \<Rightarrow> string" where
  "json_text a JNull = ''null''"
| "json_text a (JBool b) = (if b then ''true'' else ''false'')"
| "json_text a (JInt i) = int_str i"
| "json_text a (JFloat f) = (case f of PyFin t v \<Rightarrow> t | PyInf neg \<Rightarrow> (if neg then ''-Infinity'' else ''Infinity'') | PyNan \<Rightarrow> ''NaN'')"
| "json_text a (JStr s) = json_quote a s"
| "json_text a (JList xs) = ''['' @ join '','' (map (json_text a) xs) @ '']''"
| "json_text a (JObj d) = ''{'' @ join '','' (map (\<lambda>kv. json_quote a (fst kv) @ '':'' @ json_text a (snd kv)) d) @ ''}''"

definition plain :: "string \<Rightarrow> bool" where
  "plain s \<longleftrightarrow> list_all (\<lambda>c. c \<noteq> chr 34 \<and> c \<noteq> CHR ''{'' \<and> c \<noteq> CHR ''}'') s"

text \<open>The text of a float is a number.\<close>

fun plain_floats :: "json \<Rightarrow> bool" where
  "plain_floats (JFloat (PyFin t v)) \<longleftrightarrow> plain t"
| "plain_floats (JList xs) \<longleftrightarrow> (\<forall>x \<in> set xs. plain_floats x)"
| "plain_floats (JObj d) \<longleftrightarrow> (\<forall>kv \<in> set d. plain_floats (snd kv))"
| "plain_floats _ \<longleftrightarrow> True"

text \<open>A text that leaves the scanner, outside strings and inside an object, as it was.\<close>

definition neutral :: "string \<Rightarrow> bool" where
  "neutral t \<longleftrightarrow> (\<forall>d i rest. d \<ge> 1 \<longrightarrow> scan_brace d False False i (t @ rest) = scan_brace d False False (i + length t) rest)"

lemma neutral_Nil [simp]: "neutral []"
  by (simp add: neutral_def)

lemma neutral_append [intro]: "neutral a \<Longrightarrow> neutral b \<Longrightarrow> neutral (a @ b)"
  by (simp add: neutral_def add.assoc)

lemma neutral_join: "neutral sep \<Longrightarrow> (\<And>t. t \<in> set ts \<Longrightarrow> neutral t) \<Longrightarrow> neutral (join sep ts)"
  by (induction sep ts rule: join.induct) (auto intro: neutral_append)

lemma eq_chr: "n < 256 \<Longrightarrow> c = chr n \<longleftrightarrow> ord c = n" "n < 256 \<Longrightarrow> chr n = c \<longleftrightarrow> ord c = n"
  by (metis ord_chr chr_ord)+

lemma chr_codes: "chr 34 \<noteq> CHR ''{''" "chr 34 \<noteq> CHR ''}''" "chr 92 \<noteq> CHR ''{''" "chr 92 \<noteq> CHR ''}''" "chr 34 \<noteq> chr 92"
  by (simp_all add: eq_chr) (simp_all add: ord_def)

lemma neutral_plain: "plain t \<Longrightarrow> neutral t"
proof (induction t)
  case (Cons c t)
  then have "neutral [c]" by (simp add: neutral_def plain_def)
  then show ?case using Cons neutral_append[of "[c]" t] by (simp add: plain_def)
qed simp

lemma neutral_braces:
  assumes "neutral t"
  shows "neutral (''{'' @ t @ ''}'')"
  unfolding neutral_def
proof (intro allI impI)
  fix d :: int and i rest assume d: "d \<ge> 1"
  have "scan_brace d False False i ((''{'' @ t @ ''}'') @ rest) = scan_brace (d + 1) False False (i + 1) (t @ ''}'' @ rest)"
    by (simp add: chr_codes[symmetric])
  also have "\<dots> = scan_brace (d + 1) False False (i + 1 + length t) (''}'' @ rest)"
    using assms d by (simp add: neutral_def)
  also have "\<dots> = scan_brace d False False (i + length (''{'' @ t @ ''}'')) rest"
    using d by (simp add: chr_codes[symmetric])
  finally show "scan_brace d False False i ((''{'' @ t @ ''}'') @ rest) = scan_brace d False False (i + length (''{'' @ t @ ''}'')) rest" .
qed

lemma hex_digit_plain: "k < 16 \<Longrightarrow> hex_digit k \<noteq> chr 34 \<and> hex_digit k \<noteq> chr 92"
  by (auto simp: eq_chr ord_hex_digit split: if_splits)

lemma scan_in_string:
  "c \<noteq> chr 34 \<Longrightarrow> c \<noteq> chr 92 \<Longrightarrow> scan_brace d True False i (c # rest) = scan_brace d True False (i + 1) rest"
  "scan_brace d True False i (chr 92 # x # rest) = scan_brace d True False (i + 2) rest"
  "scan_brace d True False i (chr 34 # rest) = scan_brace d False False (i + 1) rest"
  "scan_brace d False False i (chr 34 # rest) = scan_brace d True False (i + 1) rest"
  by (simp_all add: Let_def chr_codes chr_codes[symmetric])

declare scan_brace.simps(2) [simp del]

lemma scan_esc:
  "scan_brace d True False i (json_esc a c @ rest) = scan_brace d True False (i + length (json_esc a c)) rest"
proof -
  have h: "hex_digit (ord c div 16) \<noteq> chr 34" "hex_digit (ord c div 16) \<noteq> chr 92"
    "hex_digit (ord c mod 16) \<noteq> chr 34" "hex_digit (ord c mod 16) \<noteq> chr 92"
    using hex_digit_plain[of "ord c div 16"] hex_digit_plain[of "ord c mod 16"] ord_less[of c] by (auto simp: less_mult_imp_div_less)
  have z: "CHR ''0'' \<noteq> chr 34" "CHR ''0'' \<noteq> chr 92" by (simp_all add: eq_chr) (simp_all add: ord_def)
  show ?thesis
  proof (cases "ord c = 34 \<or> ord c = 92")
    case True
    then show ?thesis by (simp add: json_esc_def Let_def scan_in_string)
  next
    case False
    then have "c \<noteq> chr 34" "c \<noteq> chr 92" by auto
    then show ?thesis using h z by (simp add: json_esc_def Let_def hex_byte_def scan_in_string)
  qed
qed

lemma scan_body:
  "scan_brace d True False i (concat (map (json_esc a) s) @ rest) = scan_brace d True False (i + length (concat (map (json_esc a) s))) rest"
  by (induction s arbitrary: i) (simp_all add: scan_esc add.assoc)

lemma neutral_quote: "neutral (json_quote a s)"
  by (simp add: neutral_def json_quote_def scan_in_string scan_body add.assoc)

lemma plain_consts: "plain ''null''" "plain ''true''" "plain ''false''" "plain ''-Infinity''" "plain ''Infinity''" "plain ''NaN''"
  "plain '':''" "plain '',''" "plain ''[''" "plain '']''"
  by (simp_all add: plain_def eq_chr) (simp_all add: ord_def)

lemma plain_int: "plain (int_str i)"
proof -
  have "c \<noteq> chr 34 \<and> c \<noteq> CHR ''{'' \<and> c \<noteq> CHR ''}''" if "is_digit_09 c" for c
    using that by (auto simp: is_digit_09_def eq_chr) (simp_all add: ord_def)
  moreover have "CHR ''-'' \<noteq> chr 34" by (simp add: eq_chr) (simp add: ord_def)
  ultimately show ?thesis using nat_str_digits by (auto simp: plain_def int_str_def list_all_iff)
qed

lemma neutral_item: "neutral t \<Longrightarrow> neutral (json_quote a k @ CHR '':'' # t)"
  using neutral_append[OF neutral_quote neutral_append[OF neutral_plain[OF plain_consts(7)]]] by simp

lemma neutral_json: "plain_floats v \<Longrightarrow> neutral (json_text a v)"
proof (induction a v rule: json_text.induct)
  case (4 a f)
  then show ?case by (cases f) (auto intro: neutral_plain plain_consts)
next
  case (6 a xs)
  then have "neutral (join '','' (map (json_text a) xs))"
    by (intro neutral_join) (auto intro: neutral_plain plain_consts)
  then show ?case using neutral_plain[OF plain_consts(9)] neutral_plain[OF plain_consts(10)] by (auto intro!: neutral_append simp del: append.simps)
next
  case (7 a d)
  then have "neutral (join '','' (map (\<lambda>kv. json_quote a (fst kv) @ '':'' @ json_text a (snd kv)) d))"
    by (intro neutral_join) (auto intro!: neutral_item intro: neutral_plain plain_consts(8))
  then show ?case using neutral_braces by simp
qed (auto intro: neutral_plain plain_consts plain_int neutral_quote)

lemma matching_brace:
  assumes "plain_floats (JObj d)"
  shows "find_matching_brace (before @ json_text a (JObj d) @ after) (length before)
    = Some (length before + length (json_text a (JObj d)) - 1)"
proof -
  let ?t = "join '','' (map (\<lambda>kv. json_quote a (fst kv) @ '':'' @ json_text a (snd kv)) d)"
  have n: "neutral ?t"
    using neutral_json assms by (intro neutral_join) (auto intro!: neutral_item intro: neutral_plain plain_consts(8))
  have "find_matching_brace (before @ json_text a (JObj d) @ after) (length before)
      = scan_brace 1 False False (length before + 1) (?t @ ''}'' @ after)"
    by (simp add: find_matching_brace_def scan_brace.simps(2) chr_codes[symmetric])
  also have "\<dots> = scan_brace 1 False False (length before + 1 + length ?t) (''}'' @ after)"
    using n by (simp add: neutral_def)
  also have "\<dots> = Some (length before + 1 + length ?t)" by (simp add: scan_brace.simps(2) chr_codes[symmetric])
  finally show ?thesis by simp
qed

text \<open>
  The brace matcher is right on JSON. Wherever the text of an object stands, with objects, lists,
  strings and escaped quotes and braces nested in it, the matcher started at its first brace returns
  the position of its last one.
\<close>

theorem brace_matcher_exact:
  "plain_floats (JObj d) \<Longrightarrow>
   find_matching_brace (before @ json_text a (JObj d) @ after) (length before)
     = Some (length before + length (json_text a (JObj d)) - 1)"
  by (rule matching_brace)

theorem brace_matcher_exact_witness:
  "find_matching_brace (''ok '' @ json_text True (JObj [(''k'', JStr ''}'')]) @ ''}'') (length ''ok '') =
     Some (length ''ok '' + length (json_text True (JObj [(''k'', JStr ''}'')])) - 1)"
  by (rule brace_matcher_exact) simp

section \<open>A reply is found\<close>

definition reply_obj :: "string \<Rightarrow> string \<Rightarrow> dict" where
  "reply_obj t h = [(''action'', JStr ''a2a_reply''), (''text'', JStr t), (''thoughts'', JStr h)]"

definition reply_text :: "bool \<Rightarrow> string \<Rightarrow> string \<Rightarrow> string" where
  "reply_text a t h = json_text a (JObj (reply_obj t h))"

abbreviation body :: "bool \<Rightarrow> string \<Rightarrow> string" where
  "body a s \<equiv> concat (map (json_esc a) s)"

text \<open>No opener starts inside \<open>A\<close> when \<open>T\<close> follows it.\<close>

definition closed :: "string \<Rightarrow> string \<Rightarrow> bool" where
  "closed A T \<longleftrightarrow> (\<forall>j < length A. \<not> opener_at (drop j (A @ T)))"

lemma closed_append: "closed A (B @ T) \<Longrightarrow> closed B T \<Longrightarrow> closed (A @ B) T"
  unfolding closed_def
proof (intro allI impI)
  fix j assume A: "\<forall>j<length A. \<not> opener_at (drop j (A @ B @ T))" and B: "\<forall>j<length B. \<not> opener_at (drop j (B @ T))"
    and j: "j < length (A @ B)"
  show "\<not> opener_at (drop j ((A @ B) @ T))"
  proof (cases "j < length A")
    case False
    then have "drop j ((A @ B) @ T) = drop (j - length A) (B @ T)" by simp
    then show ?thesis using B j False by simp
  qed (use A in simp)
qed

lemma closed_plain: "CHR ''{'' \<notin> set A \<Longrightarrow> closed A T"
  unfolding closed_def
proof (intro allI impI)
  fix j assume "CHR ''{'' \<notin> set A" and j: "j < length A"
  then have "A ! j \<noteq> CHR ''{''" by (metis nth_mem)
  moreover have "drop j (A @ T) = A ! j # drop (Suc j) (A @ T)" using j by (simp add: Cons_nth_drop_Suc[symmetric] nth_append)
  ultimately show "\<not> opener_at (drop j (A @ T))" by (simp add: opener_at_def)
qed

lemma hex_digit_not_brace: "k < 16 \<Longrightarrow> hex_digit k \<noteq> CHR ''{''"
proof
  assume k: "k < 16" "hex_digit k = CHR ''{''"
  then have "ord (hex_digit k) = 123" by (simp add: ord_def)
  then show False using ord_hex_digit[OF k(1)] k(1) by (simp split: if_splits)
qed

lemma esc_brace: "CHR ''{'' \<in> set (json_esc a c) \<Longrightarrow> json_esc a c = ''{''"
proof (cases "json_esc a c = [c]")
  case False
  have o: "ord (CHR ''{'') = 123" by (simp add: ord_def)
  have h: "hex_digit (ord c div 16) \<noteq> CHR ''{''" "hex_digit (ord c mod 16) \<noteq> CHR ''{''"
    using hex_digit_not_brace ord_less[of c] by (auto simp: less_mult_imp_div_less)
  have q: "c \<noteq> CHR ''{''" if "ord c = 34 \<or> ord c = 92" using that o by auto
  assume "CHR ''{'' \<in> set (json_esc a c)"
  then have "c = CHR ''{'' \<and> (ord c = 34 \<or> ord c = 92)"
    using False h chr_codes(3) by (simp add: json_esc_def Let_def hex_byte_def split: if_splits)
  then show ?thesis using q by blast
qed simp

lemma brace_in_body:
  "drop i (body a s @ T) = CHR ''{'' # r \<Longrightarrow> i < length (body a s) \<Longrightarrow> \<exists>s'. r = body a s' @ T"
proof (induction s arbitrary: i)
  case (Cons x s)
  show ?case
  proof (cases "i < length (json_esc a x)")
    case True
    then have "drop i (json_esc a x) = json_esc a x ! i # drop (Suc i) (json_esc a x)" by (simp add: Cons_nth_drop_Suc)
    then have "json_esc a x ! i = CHR ''{''" using Cons.prems(1) True by simp
    then have e: "json_esc a x = ''{''" using True esc_brace nth_mem by metis
    then show ?thesis using Cons.prems(1) True by (intro exI[of _ s]) simp
  next
    case False
    then show ?thesis using Cons.IH[of "i - length (json_esc a x)"] Cons.prems by simp
  qed
qed simp

lemma lstrip_simps [simp]: "lstrip (c # s) = (if is_space c then lstrip s else c # s)" "lstrip [] = []"
  by (simp_all add: lstrip_def)

lemma quote_not_space [simp]: "\<not> is_space (chr 34)" "\<not> is_space (chr 92)"
  by (simp_all add: is_space_def)

lemma esc_head:
  obtains (plain) "json_esc a x = [x]" "x \<noteq> chr 34" | (escaped) w where "json_esc a x = chr 92 # w"
  by (cases "json_esc a x = [x]") (auto simp: json_esc_def Let_def eq_chr split: if_splits)

lemma opener_in_string: "opener_at (CHR ''{'' # body a s @ chr 34 # c # T) \<Longrightarrow> c = CHR ''a''"
proof (induction s)
  case Nil
  then show ?case by (simp add: opener_at_def action_key_def)
next
  case (Cons x s)
  show ?case
  proof (cases a x rule: esc_head)
    case plain
    then show ?thesis using Cons by (auto simp: opener_at_def action_key_def split: if_splits)
  next
    case (escaped w)
    then show ?thesis using Cons.prems chr_codes(5) by (simp add: opener_at_def action_key_def)
  qed
qed

lemma closed_body:
  assumes "c \<noteq> CHR ''a''"
  shows "closed (body a s) (chr 34 # c # T)"
  unfolding closed_def
proof (intro allI impI notI)
  fix j assume j: "j < length (body a s)" and "opener_at (drop j (body a s @ chr 34 # c # T))"
  then obtain r where r: "drop j (body a s @ chr 34 # c # T) = CHR ''{'' # r" "opener_at (CHR ''{'' # r)"
    by (cases "drop j (body a s @ chr 34 # c # T)") (auto simp: opener_at_def)
  then obtain s' where "r = body a s' @ chr 34 # c # T" using brace_in_body[OF r(1) j] by blast
  then show False using r(2) opener_in_string[of a s' c T] assms by simp
qed

text \<open>The reply's text after its first brace.\<close>

definition reply_tail :: "bool \<Rightarrow> string \<Rightarrow> string \<Rightarrow> string" where
  "reply_tail a t h = (action_key @ '':'' @ json_quote a ''a2a_reply'' @ '','' @ json_quote a ''text'' @ '':'' @ [chr 34])
     @ body a t @ ([chr 34] @ '','' @ json_quote a ''thoughts'' @ '':'' @ [chr 34]) @ body a h @ [chr 34] @ ''}''"

lemma esc_letters: "list_all (\<lambda>c. is_lower_az c \<or> is_digit_09 c \<or> c = CHR ''_'') s \<Longrightarrow> body a s = s"
proof (induction s)
  case (Cons c s)
  have "ord (CHR ''_'') = 95" by (simp add: ord_def)
  then show ?case using Cons by (auto simp: json_esc_def Let_def char_class_defs)
qed simp

lemma letters: "list_all (\<lambda>c. is_lower_az c \<or> is_digit_09 c \<or> c = CHR ''_'') s" if "s \<in> {''action'', ''a2a_reply'', ''text'', ''thoughts''}"
  using that by (auto simp: char_class_defs) (simp_all add: ord_def)

lemma quote_consts:
  "json_quote a ''action'' = action_key" "json_quote a ''a2a_reply'' = chr 34 # ''a2a_reply'' @ [chr 34]"
  "json_quote a ''text'' = chr 34 # ''text'' @ [chr 34]" "json_quote a ''thoughts'' = chr 34 # ''thoughts'' @ [chr 34]"
  unfolding json_quote_def action_key_def
  using esc_letters[OF letters, of "''action''" a] esc_letters[OF letters, of "''a2a_reply''" a]
    esc_letters[OF letters, of "''text''" a] esc_letters[OF letters, of "''thoughts''" a] by simp_all

lemma reply_text_tail: "reply_text a t h = CHR ''{'' # reply_tail a t h"
  by (simp add: reply_text_def reply_obj_def reply_tail_def quote_consts) (simp add: json_quote_def)

lemma reply_tail_closed: "closed (reply_tail a t h) T"
proof -
  let ?A = "action_key @ '':'' @ json_quote a ''a2a_reply'' @ '','' @ json_quote a ''text'' @ '':'' @ [chr 34]"
  let ?B = "[chr 34] @ '','' @ json_quote a ''thoughts'' @ '':'' @ [chr 34]"
  have p: "CHR ''{'' \<notin> set ?A" "CHR ''{'' \<notin> set ?B" "CHR ''{'' \<notin> set ([chr 34] @ ''}'')"
    using chr_codes(1) by (auto simp: quote_consts action_key_def)
  have h: "closed (body a h @ [chr 34] @ ''}'') T"
    using closed_append[OF _ closed_plain[OF p(3)]] closed_body[of "CHR ''}''" a h T] by simp
  have B: "closed (?B @ body a h @ [chr 34] @ ''}'') T"
    by (rule closed_append[OF closed_plain[OF p(2)] h])
  have t: "closed (body a t) ((?B @ body a h @ [chr 34] @ ''}'') @ T)"
    using closed_body[of "CHR '',''" a t] by simp
  have "closed (body a t @ ?B @ body a h @ [chr 34] @ ''}'') T"
    by (rule closed_append[OF t B])
  then show ?thesis unfolding reply_tail_def by (rule closed_append[OF closed_plain[OF p(1)]])
qed

lemma drop_after: "n < i \<Longrightarrow> length xs = n \<Longrightarrow> drop i (xs @ c # ys) = drop (i - Suc n) ys"
proof -
  assume "n < i" "length xs = n"
  then obtain k where "i = Suc (length xs + k)" using less_iff_Suc_add by metis
  then show "drop i (xs @ c # ys) = drop (i - Suc n) ys" using \<open>length xs = n\<close> by simp
qed

lemma opener_starts_snoc:
  assumes "opener_starts after = []"
  shows "opener_starts (before @ reply_text a t h @ after) = filter (\<lambda>i. opener_at (drop i (before @ reply_text a t h @ after))) [0..<length before] @ [length before]"
proof -
  let ?s = "before @ reply_text a t h @ after" and ?n = "length before" and ?m = "length (reply_tail a t h)"
  have first: "opener_at (drop ?n ?s)"
  proof -
    have "\<not> is_space (chr 34)" by simp
    moreover obtain w where "reply_tail a t h = action_key @ w" by (simp add: reply_tail_def)
    ultimately show ?thesis by (simp add: reply_text_tail opener_at_def action_key_def)
  qed
  have none: "\<not> opener_at (drop i ?s)" if i: "?n < i" "i < length ?s" for i
  proof (cases "i - Suc ?n < ?m")
    case True
    have "drop i ?s = drop (i - Suc ?n) (reply_tail a t h @ after)"
      using drop_after[OF i(1) refl, of "CHR ''{''"] by (simp add: reply_text_tail)
    then show ?thesis using reply_tail_closed[of a t h after] True by (simp add: closed_def)
  next
    case False
    define k where "k = i - Suc ?n - ?m"
    have "drop i ?s = drop k after"
      using drop_after[OF i(1) refl, of "CHR ''{''"] False by (simp add: reply_text_tail k_def)
    moreover have "k < length after" using i False by (simp add: reply_text_tail k_def)
    ultimately show ?thesis using assms by (simp add: opener_starts_def filter_empty_conv)
  qed
  have l: "?n < length ?s" by (simp add: reply_text_tail)
  then have "[0..<length ?s] = [0..<?n] @ ?n # [Suc ?n..<length ?s]"
    using upt_add_eq_append[of 0 ?n "length ?s - ?n"] upt_conv_Cons[OF l] by simp
  then show ?thesis unfolding opener_starts_def using first none by simp
qed

lemma extract_reply:
  assumes "fence_body (before @ reply_text a t h @ after) = None" "opener_starts after = []"
    and "loads (reply_text a t h) = Some (JObj (reply_obj t h))"
  shows "extract_terminal loads (before @ reply_text a t h @ after) = Some (reply_obj t h)"
proof -
  let ?s = "before @ reply_text a t h @ after" and ?n = "length before" and ?r = "reply_text a t h"
  have pf: "plain_floats (JObj (reply_obj t h))" by (simp add: reply_obj_def)
  have ne: "length ?r > 0" by (simp add: reply_text_tail)
  have "find_matching_brace ?s ?n = Some (?n + length ?r - 1)"
    using matching_brace[OF pf, of before a after] by (simp add: reply_text_def)
  moreover have "?n + length ?r - 1 + 1 - ?n = length ?r" using ne by simp
  ultimately have "try_openers loads ?s (?n # ps) = Some (reply_obj t h)" for ps using assms(3) by simp
  then show ?thesis
    using assms(1) opener_starts_snoc[OF assms(2), of before a t h] by (simp add: extract_terminal_def)
qed

lemma validate_reply: "strip t \<noteq> [] \<Longrightarrow> validate_a2a_reply (Some (reply_obj t h)) = Some \<lparr>ar_text = t, ar_thoughts = h\<rparr>"
  by (simp add: validate_a2a_reply_def reply_obj_def dict_get_def)

text \<open>
  A reply in the required form always reaches the caller. When a completed run's output ends, after
  any prose, with the JSON object the instructions ask for, followed by anything without another
  opener, and holds no code fence, the caller gets one completed event with exactly the reply's text,
  whatever quotes, braces, backslashes or control characters that text contains.
\<close>

theorem reply_delivered:
  assumes "fence_body (before @ reply_text a t h @ after) = None" "opener_starts after = []"
    and "loads (reply_text a t h) = Some (JObj (reply_obj t h))" and "strip t \<noteq> []"
    and "rs_state s = RunCompleted" "rs_result s = JObj [(''text'', JStr (before @ reply_text a t h @ after))]"
  shows "execute_events loads tid cid (Inr ivk) (Done ()) (Done (Some s)) =
    [\<lparr>se_state = TaskWorking, se_text = None, se_task_id = tid, se_context_id = cid\<rparr>,
     \<lparr>se_state = TaskCompleted, se_text = Some t, se_task_id = tid, se_context_id = cid\<rparr>]"
  using extract_reply[where loads = loads, OF assms(1-3)] validate_reply[OF assms(4), of h] assms(5,6)
  by (simp add: execute_events_def result_event_def)

lemma try_openers_sound:
  "try_openers loads tx ps = Some d \<Longrightarrow> \<exists>x w y. tx = x @ w @ y \<and> loads w = Some (JObj d)"
proof (induction loads tx ps rule: try_openers.induct)
  case (2 loads tx pos ps)
  show ?case
  proof (cases "find_matching_brace tx pos")
    case (Some e)
    have w: "tx = take pos tx @ take (e + 1 - pos) (drop pos tx) @ drop (e + 1 - pos) (drop pos tx)"
      by (metis append_take_drop_id)
    show ?thesis
    proof (cases "loads (take (e + 1 - pos) (drop pos tx)) = Some (JObj d)")
      case True
      then show ?thesis using w by blast
    next
      case False
      then show ?thesis using 2 Some by (auto split: option.splits json.splits)
    qed
  qed (use 2 in auto)
qed simp

definition after_fence :: "string \<Rightarrow> string" where
  "after_fence rest = (if prefix ''json'' rest then drop 4 rest else rest)"

lemma fence_body_Some:
  "fence_body tx = Some b \<longleftrightarrow>
     (\<exists>p rest u q. find_sub fence tx = Some (p, rest) \<and> find_sub fence (lstrip (after_fence rest)) = Some (u, q) \<and> b = strip u)"
  unfolding fence_body_def after_fence_def[symmetric] by (auto split: option.splits)

lemma strip_sub: "\<exists>x y. u = x @ strip u @ y"
proof -
  have "dropWhile is_space u = strip u @ rev (takeWhile is_space (rev (dropWhile is_space u)))"
    unfolding strip_def by (metis rev_append rev_rev_ident takeWhile_dropWhile_id)
  then show ?thesis by (metis takeWhile_dropWhile_id)
qed

lemma fence_body_sound: "fence_body tx = Some b \<Longrightarrow> \<exists>x y. tx = x @ b @ y"
proof -
  assume "fence_body tx = Some b"
  then obtain p rest u q where 1: "find_sub fence tx = Some (p, rest)"
    and 2: "find_sub fence (lstrip (after_fence rest)) = Some (u, q)" and b: "b = strip u"
    unfolding fence_body_Some by blast
  have "rest = (if prefix ''json'' rest then take 4 rest else []) @ after_fence rest" by (simp add: after_fence_def)
  then obtain x1 where x1: "rest = x1 @ after_fence rest" by blast
  obtain x2 where x2: "after_fence rest = x2 @ lstrip (after_fence rest)"
    unfolding lstrip_def by (metis takeWhile_dropWhile_id)
  obtain x3 y3 where x3: "u = x3 @ b @ y3" using strip_sub[of u] b by blast
  have "after_fence rest = x2 @ u @ fence @ q" using x2 find_sub_Some[OF 2] by metis
  then have "rest = x1 @ x2 @ (x3 @ b @ y3) @ fence @ q" using x1 x3 by metis
  then have "tx = (p @ fence @ x1 @ x2 @ x3) @ b @ (y3 @ fence @ q)" using find_sub_Some[OF 1] by simp
  then show ?thesis by blast
qed

lemma extract_sound:
  assumes "extract_terminal loads tx = Some d"
  shows "\<exists>x w y. tx = x @ w @ y \<and> loads w = Some (JObj d)"
proof (cases "fence_body tx")
  case None
  then show ?thesis using assms try_openers_sound by (auto simp: extract_terminal_def)
next
  case (Some b)
  obtain x y where "tx = x @ b @ y" using fence_body_sound[OF Some] by blast
  moreover obtain x' w y' where "b = x' @ w @ y'" "loads w = Some (JObj d)"
    using assms Some try_openers_sound by (auto simp: extract_terminal_def) metis
  ultimately have "tx = (x @ x') @ w @ (y' @ y)" "loads w = Some (JObj d)" by simp_all
  then show ?thesis by blast
qed

lemma validate_sound:
  assumes "validate_a2a_reply v = Some r"
  obtains d where "v = Some d" "map_of d ''action'' = Some (JStr ''a2a_reply'')" "map_of d ''text'' = Some (JStr (ar_text r))"
    "strip (ar_text r) \<noteq> []" "fst ` set d \<subseteq> {''action'', ''text'', ''thoughts''}"
  using assms
  by (auto simp: validate_a2a_reply_def list_all_iff image_subset_iff split: option.splits if_splits json.splits)

lemma exc_event_failed: "e \<in> set (exc_event tid cid x) \<Longrightarrow> se_state e = TaskFailed"
  by (cases x) (auto simp: exc_event_def)

lemma result_event_completed:
  assumes "se_state (result_event loads tid cid r) = TaskCompleted"
  obtains s t d where "r = Some s" "rs_state s = RunCompleted" "rs_result s = JObj d" "map_of d ''text'' = Some (JStr t)"
    "\<exists>rp. validate_a2a_reply (extract_terminal loads t) = Some rp \<and> se_text (result_event loads tid cid r) = Some (ar_text rp)"
  using assms
  by (auto simp: result_event_def Let_def validate_a2a_reply_def[of None] split: option.splits if_splits json.splits)

text \<open>
  Nothing else is delivered as completed. If any call of the bridge emits a completed event, the
  invocation was admitted, started and ended with a completed run, and the event's text is the
  nonblank text of a reply object that is literally in the run's output, of the exact shape with no
  other keys. A failed, cancelled or skipped run, an exception or an interrupted wait never is.
\<close>

theorem a2a_completed_sound:
  assumes "e \<in> set (execute_events loads tid cid admitted started completed)" "se_state e = TaskCompleted"
  shows "\<exists>s d t x w y rd. completed = Done (Some s) \<and> rs_state s = RunCompleted \<and> rs_result s = JObj d
    \<and> map_of d ''text'' = Some (JStr (x @ w @ y)) \<and> loads w = Some (JObj rd)
    \<and> map_of rd ''action'' = Some (JStr ''a2a_reply'') \<and> map_of rd ''text'' = Some (JStr t)
    \<and> fst ` set rd \<subseteq> {''action'', ''text'', ''thoughts''} \<and> strip t \<noteq> [] \<and> se_text e = Some t"
proof -
  obtain r where r: "completed = Done r" "e = result_event loads tid cid r"
    using assms exc_event_failed by (auto simp: execute_events_def split: sum.splits waited.splits)
  obtain s t d where s: "r = Some s" "rs_state s = RunCompleted" "rs_result s = JObj d" "map_of d ''text'' = Some (JStr t)"
    and v: "\<exists>rp. validate_a2a_reply (extract_terminal loads t) = Some rp \<and> se_text e = Some (ar_text rp)"
    using result_event_completed assms(2) r(2) by metis
  from v obtain rp where rp: "validate_a2a_reply (extract_terminal loads t) = Some rp" "se_text e = Some (ar_text rp)" by blast
  obtain rd where rd: "extract_terminal loads t = Some rd" "map_of rd ''action'' = Some (JStr ''a2a_reply'')"
    "map_of rd ''text'' = Some (JStr (ar_text rp))" "strip (ar_text rp) \<noteq> []" "fst ` set rd \<subseteq> {''action'', ''text'', ''thoughts''}"
    using validate_sound[OF rp(1)] by metis
  obtain x w y where "t = x @ w @ y" "loads w = Some (JObj rd)" using extract_sound[OF rd(1)] by blast
  then show ?thesis using r(1) s rp(2) rd by blast
qed

text \<open>A reply whose text has a fenced block in it is lost: the fence is searched before the object.\<close>

lemma fenced_reply_lost:
  "extract_terminal loads (reply_text True (fence @ ''x'' @ fence) ''y'') = None"
proof -
  have f: "fence_body (reply_text True (fence @ ''x'' @ fence) ''y'') = Some ''x''" by code_simp
  have "opener_starts ''x'' = []" by (simp add: opener_starts_def opener_at_def)
  then show ?thesis using f by (simp add: extract_terminal_def)
qed

definition demo_loads :: "string \<Rightarrow> json option" where
  "demo_loads w = (if w = reply_text True ''hi'' [] then Some (JObj (reply_obj ''hi'' [])) else None)"

definition demo_status :: run_status where
  "demo_status = \<lparr>rs_invocation_id = ''i'', rs_channel = ''c'', rs_workspace_ref = ''w'', rs_session_ref = ''s'', rs_run_id = None,
     rs_config_version = ''v'', rs_deadline_at = 0, rs_state = RunCompleted, rs_error = None,
     rs_result = JObj [(''text'', JStr (''done: '' @ reply_text True ''hi'' [] @ []))]\<rparr>"

lemma demo_facts:
  "fence_body (''done: '' @ reply_text True ''hi'' [] @ []) = None" "opener_starts [] = []"
  "demo_loads (reply_text True ''hi'' []) = Some (JObj (reply_obj ''hi'' []))" "strip ''hi'' \<noteq> []"
  "rs_state demo_status = RunCompleted" "rs_result demo_status = JObj [(''text'', JStr (''done: '' @ reply_text True ''hi'' [] @ []))]"
proof -
  show "fence_body (''done: '' @ reply_text True ''hi'' [] @ []) = None" by code_simp
  show "strip ''hi'' \<noteq> []" by code_simp
qed (simp_all add: opener_starts_def demo_loads_def demo_status_def)

theorem reply_delivered_witness:
  "execute_events demo_loads ''t'' ''c'' (Inr ''i'') (Done ()) (Done (Some demo_status)) =
    [\<lparr>se_state = TaskWorking, se_text = None, se_task_id = ''t'', se_context_id = ''c''\<rparr>,
     \<lparr>se_state = TaskCompleted, se_text = Some ''hi'', se_task_id = ''t'', se_context_id = ''c''\<rparr>]"
  by (rule reply_delivered[where loads = demo_loads, OF demo_facts])

theorem a2a_completed_sound_witness:
  "\<exists>x w y rd. ''done: '' @ reply_text True ''hi'' [] @ [] = x @ w @ y \<and> demo_loads w = Some (JObj rd) \<and> map_of rd ''text'' = Some (JStr ''hi'')"
proof -
  let ?e = "\<lparr>se_state = TaskCompleted, se_text = Some ''hi'', se_task_id = ''t'', se_context_id = ''c''\<rparr>"
  have "result_event demo_loads ''t'' ''c'' (Some demo_status) = ?e"
    using extract_reply[where loads = demo_loads, OF demo_facts(1-3)] validate_reply[OF demo_facts(4), of "[]"] demo_facts(5,6)
    by (simp add: result_event_def)
  then have "?e \<in> set (execute_events demo_loads ''t'' ''c'' (Inr ''i'') (Done ()) (Done (Some demo_status)))"
    by (simp add: execute_events_def)
  from a2a_completed_sound[OF this] show ?thesis using demo_facts(6) by auto
qed

end
