(* ===== verification/Delivery.thy ===== *)
theory Delivery
  imports Wire
begin

text \<open>
  \<open>harness/delivery.py\<close>: the delivery of an admitted invocation to the service inside its Workspace.

  The Workspace manager, the preparation callback, the HTTP transport, the clock and sleeping are
  parameters over a world of any type; what the code itself does is logged beside the world. Times
  are in microseconds. The \<open>while True\<close> of \<open>start\<close> takes fuel, and running out of it is an outcome
  of its own, which a theorem excludes.
\<close>

section \<open>The world\<close>

datatype delivery_error =
    DeliveryErr string
  | GatewayUnavailable
  | StartOutcomeUnknown
  | StartRejected int
  | AssemblyUnavailable
  | TimeoutErr
  | ConnectErr
  | TransportErr
  | OtherErr
  | OutOfFuel

text \<open>What the transport raises when it sends, and while a response is read; what the callbacks raise.\<close>

datatype http_error = HttpConnect | HttpTransport | HttpTimeout

datatype stream_error = StreamTransport | StreamTimeout

datatype call_error = CallTimeout | CallAssembly | CallOther

definition http_exc :: "http_error \<Rightarrow> delivery_error" where
  "http_exc e = (case e of HttpConnect \<Rightarrow> ConnectErr | HttpTransport \<Rightarrow> TransportErr | HttpTimeout \<Rightarrow> TimeoutErr)"

definition stream_exc :: "stream_error \<Rightarrow> delivery_error" where
  "stream_exc e = (case e of StreamTransport \<Rightarrow> TransportErr | StreamTimeout \<Rightarrow> TimeoutErr)"

definition call_exc :: "call_error \<Rightarrow> delivery_error" where
  "call_exc e = (case e of CallTimeout \<Rightarrow> TimeoutErr | CallAssembly \<Rightarrow> AssemblyUnavailable | CallOther \<Rightarrow> OtherErr)"

record endpoint =
  ep_name :: string
  ep_instance_id :: string

record http_response =
  hr_instance_id :: "string option"
  hr_status :: int
  hr_chunks :: "string list"
  hr_ending :: "stream_error option"

datatype http_call = PostStart dict | GetStatus string | GetRuns | PostCancel dict

record delivery_ticket =
  dt_namespace :: string
  dt_agent_uid :: string
  dt_invocation_id :: string
  dt_workspace_ref :: string
  dt_session_ref :: string
  dt_deadline_at :: int

text \<open>
  \<open>dw_clock\<close> is \<open>None\<close> for a naive datetime; \<open>dw_loads\<close> is \<open>json.loads\<close> on a body; \<open>dw_send\<close> is
  \<open>client.send\<close> under the call's timeout.
\<close>

record 'w delivery_world =
  dw_clock :: "'w \<Rightarrow> int option"
  dw_gateway_available :: "'w \<Rightarrow> bool"
  dw_wait_gateway :: "int \<Rightarrow> 'w \<Rightarrow> bool \<times> 'w"
  dw_ensure :: "delivery_ticket \<Rightarrow> int \<Rightarrow> 'w \<Rightarrow> (call_error, endpoint) result \<times> 'w"
  dw_prepare :: "delivery_ticket \<Rightarrow> endpoint \<Rightarrow> int \<Rightarrow> 'w \<Rightarrow> (call_error, start_request) result \<times> 'w"
  dw_send :: "endpoint \<Rightarrow> http_call \<Rightarrow> int \<Rightarrow> 'w \<Rightarrow> (http_error, http_response) result \<times> 'w"
  dw_report_lost :: "endpoint \<Rightarrow> 'w \<Rightarrow> 'w"
  dw_sleep :: "int \<Rightarrow> 'w \<Rightarrow> 'w"
  dw_loads :: "string \<Rightarrow> json option"
  dw_aware :: "string \<Rightarrow> int option"
  dw_show_time :: "int \<Rightarrow> string"

record delivery =
  dl_namespace :: string
  dl_agent_uid :: string
  dl_config_version :: string
  dl_closed :: bool

text \<open>
  The log is of what passes the transport: every start request handed to it, with the instance it is for and whether it
  could not even connect, every response to a request for the record of a run, as it came, and every alarm.
\<close>

datatype entry = Sent string dict bool | Answered http_response | Alarmed string

type_synonym ('w, 'a) dlv = "'w \<times> entry list \<Rightarrow> (delivery_error, 'a) result \<times> 'w \<times> entry list"

definition dret :: "'a \<Rightarrow> ('w, 'a) dlv" where "dret x s = (Inr x, s)"

definition dfail :: "delivery_error \<Rightarrow> ('w, 'a) dlv" where "dfail e s = (Inl e, s)"

definition dbind :: "('w, 'a) dlv \<Rightarrow> ('a \<Rightarrow> ('w, 'b) dlv) \<Rightarrow> ('w, 'b) dlv" where
  "dbind m f s = (case m s of (Inl e, s') \<Rightarrow> (Inl e, s') | (Inr x, s') \<Rightarrow> f x s')"

definition dcatch :: "('w, 'a) dlv \<Rightarrow> (delivery_error \<Rightarrow> ('w, 'a) dlv) \<Rightarrow> ('w, 'a) dlv" where
  "dcatch m h s = (case m s of (Inl e, s') \<Rightarrow> h e s' | (Inr x, s') \<Rightarrow> (Inr x, s'))"

definition dworld :: "('w \<Rightarrow> 'a \<times> 'w) \<Rightarrow> ('w, 'a) dlv" where
  "dworld f s = (case f (fst s) of (r, w) \<Rightarrow> (Inr r, w, snd s))"

definition dcall :: "('w \<Rightarrow> (call_error, 'a) result \<times> 'w) \<Rightarrow> ('w, 'a) dlv" where
  "dcall f = dbind (dworld f) (\<lambda>r. case r of Inl e \<Rightarrow> dfail (call_exc e) | Inr x \<Rightarrow> dret x)"

definition dget :: "('w \<Rightarrow> 'a) \<Rightarrow> ('w, 'a) dlv" where "dget f s = (Inr (f (fst s)), s)"

definition dlog :: "entry \<Rightarrow> ('w, unit) dlv" where "dlog e s = (Inr (), fst s, snd s @ [e])"

section \<open>Requests\<close>

definition max_response_bytes :: nat where "max_response_bytes = 1024 * 1024"

definition second :: int where "second = 1000000"

definition remaining :: "'w delivery_world \<Rightarrow> int \<Rightarrow> ('w, int) dlv" where
  "remaining W deadline_at =
     dbind (dget (dw_clock W)) (\<lambda>t. case t of
        None \<Rightarrow> dfail (DeliveryErr ''Delivery clock must return an aware datetime'')
      | Some now \<Rightarrow> if deadline_at - now \<le> 0 then dfail TimeoutErr else dret (deadline_at - now))"

fun read_chunks :: "stream_error option \<Rightarrow> nat \<Rightarrow> string \<Rightarrow> string list \<Rightarrow> (delivery_error, string) result" where
  "read_chunks ending n acc [] = (case ending of None \<Rightarrow> Inr acc | Some e \<Rightarrow> Inl (stream_exc e))"
| "read_chunks ending n acc (c # cs) =
     (if n + length c > max_response_bytes then Inl (DeliveryErr ''Workspace response exceeds 1 MiB'')
      else read_chunks ending (n + length c) (acc @ c) cs)"

definition instance_changed :: "http_response \<Rightarrow> endpoint \<Rightarrow> bool" where
  "instance_changed r ep \<longleftrightarrow> (case hr_instance_id r of None \<Rightarrow> False | Some i \<Rightarrow> i \<noteq> ep_instance_id ep)"

definition log_sent :: "endpoint \<Rightarrow> http_call \<Rightarrow> (http_error, http_response) result \<Rightarrow> ('w, unit) dlv" where
  "log_sent ep c r =
     (case c of
        PostStart payload \<Rightarrow> dlog (Sent (ep_instance_id ep) payload (r = Inl HttpConnect))
      | GetStatus _ \<Rightarrow> (case r of Inl _ \<Rightarrow> dret () | Inr resp \<Rightarrow> dlog (Answered resp))
      | _ \<Rightarrow> dret ())"

definition handle_response :: "'w delivery_world \<Rightarrow> endpoint \<Rightarrow> http_response \<Rightarrow> ('w, int \<times> string) dlv" where
  "handle_response W ep r =
     (if hr_instance_id r \<noteq> Some (ep_instance_id ep)
      then dbind (if instance_changed r ep then dworld (\<lambda>w. ((), dw_report_lost W ep w)) else dret ()) (\<lambda>_.
           dfail (DeliveryErr ''Workspace response instance ID did not match endpoint''))
      else case read_chunks (hr_ending r) 0 [] (hr_chunks r) of
        Inl e \<Rightarrow> dfail e
      | Inr raw \<Rightarrow> dret (hr_status r, raw))"

definition request :: "delivery \<Rightarrow> 'w delivery_world \<Rightarrow> endpoint \<Rightarrow> http_call \<Rightarrow> int option \<Rightarrow> ('w, int \<times> string) dlv" where
  "request D W ep c deadline_at =
     (if dl_closed D then dfail (DeliveryErr ''delivery is closed'')
      else
        dbind (case deadline_at of None \<Rightarrow> dret (10 * second) | Some t \<Rightarrow> remaining W t) (\<lambda>timeout.
        dbind (dworld (dw_send W ep c timeout)) (\<lambda>r.
        dbind (log_sent ep c r) (\<lambda>_.
        case r of Inl e \<Rightarrow> dfail (http_exc e) | Inr resp \<Rightarrow> handle_response W ep resp))))"

definition parse_body :: "'w delivery_world \<Rightarrow> string \<Rightarrow> ('w, json) dlv" where
  "parse_body W raw =
     (case dw_loads W raw of
        None \<Rightarrow> dfail (DeliveryErr ''Workspace response was not complete valid JSON'') | Some v \<Rightarrow> dret v)"

definition started_call :: "delivery \<Rightarrow> 'w delivery_world \<Rightarrow> endpoint \<Rightarrow> start_request \<Rightarrow> int \<Rightarrow> ('w, started) dlv" where
  "started_call D W ep q deadline_at =
     dbind (request D W ep (PostStart (dump_start_request (dw_show_time W) q)) (Some deadline_at)) (\<lambda>(status, raw).
       if status \<noteq> 202 then dfail (StartRejected status)
       else
         dbind (parse_body W raw) (\<lambda>v.
         case parse_started v of
           Inl _ \<Rightarrow> dfail (DeliveryErr ''Workspace returned an invalid Started receipt'')
         | Inr r \<Rightarrow>
             if sd_invocation_id r \<noteq> sq_invocation_id q \<or> sd_session_ref r \<noteq> sq_session_ref q
               \<or> sd_config_version r \<noteq> sq_config_version q \<or> sd_run_id r = []
             then dfail (DeliveryErr ''Workspace Started receipt identity did not match request'')
             else dret r))"

text \<open>\<open>_validate_status\<close> against the request the run was started with.\<close>

definition status_matches :: "run_status \<Rightarrow> start_request \<Rightarrow> bool" where
  "status_matches r q \<longleftrightarrow>
     rs_invocation_id r = sq_invocation_id q \<and> rs_channel r = sq_channel q \<and> rs_workspace_ref r = sq_workspace_ref q
     \<and> rs_session_ref r = sq_session_ref q \<and> rs_config_version r = sq_config_version q \<and> rs_deadline_at r = sq_deadline_at q"

text \<open>\<open>_validate_status\<close> against an earlier status of the run.\<close>

definition status_continues :: "run_status \<Rightarrow> run_status \<Rightarrow> bool" where
  "status_continues r p \<longleftrightarrow>
     rs_invocation_id r = rs_invocation_id p \<and> rs_channel r = rs_channel p \<and> rs_workspace_ref r = rs_workspace_ref p
     \<and> rs_session_ref r = rs_session_ref p \<and> rs_config_version r = rs_config_version p \<and> rs_deadline_at r = rs_deadline_at p
     \<and> (rs_run_id p = None \<or> rs_run_id r = rs_run_id p)"

section \<open>Start\<close>

definition ensure_endpoint :: "'w delivery_world \<Rightarrow> delivery_ticket \<Rightarrow> ('w, endpoint) dlv" where
  "ensure_endpoint W t = dbind (remaining W (dt_deadline_at t)) (\<lambda>left. dcall (dw_ensure W t left))"

text \<open>The resolution of an ambiguous send: the record of the same instance, then the same request.\<close>

definition resolve_ambiguous ::
  "delivery \<Rightarrow> 'w delivery_world \<Rightarrow> delivery_ticket \<Rightarrow> endpoint \<Rightarrow> start_request \<Rightarrow> ('w, started) dlv" where
  "resolve_ambiguous D W t ep q =
     dbind (ensure_endpoint W t) (\<lambda>current.
       if ep_instance_id current \<noteq> ep_instance_id ep then dfail StartOutcomeUnknown
       else
         dbind (request D W current (GetStatus (dt_invocation_id t)) (Some (dt_deadline_at t))) (\<lambda>(status, raw).
           if status \<noteq> 200 then dfail StartOutcomeUnknown
           else
             dbind (parse_body W raw) (\<lambda>v.
             case parse_run_status (dw_aware W) v of
               Inl _ \<Rightarrow> dfail OtherErr
             | Inr r \<Rightarrow>
                 if \<not> status_matches r q then dfail (DeliveryErr ''Workspace RunStatus identity did not match expected run'')
                 else
                   dbind (ensure_endpoint W t) (\<lambda>retry.
                     if ep_instance_id retry \<noteq> ep_instance_id ep then dfail StartOutcomeUnknown
                     else started_call D W retry q (dt_deadline_at t)))))"

definition give_up :: "string \<Rightarrow> ('w, 'a) dlv" where
  "give_up reason = dbind (dlog (Alarmed reason)) (\<lambda>_. dfail StartOutcomeUnknown)"

fun start_loop ::
  "nat \<Rightarrow> delivery \<Rightarrow> 'w delivery_world \<Rightarrow> delivery_ticket \<Rightarrow> endpoint \<Rightarrow> start_request \<Rightarrow> int \<Rightarrow> ('w, started) dlv" where
  "start_loop 0 D W t ep q delay = dfail OutOfFuel"
| "start_loop (Suc n) D W t ep q delay =
     dcatch (started_call D W ep q (dt_deadline_at t)) (\<lambda>e.
       case e of
         StartRejected _ \<Rightarrow> dfail e
       | DeliveryErr m \<Rightarrow> give_up m
       | GatewayUnavailable \<Rightarrow> give_up ''gateway_unavailable''
       | StartOutcomeUnknown \<Rightarrow> give_up ''unknown''
       | AssemblyUnavailable \<Rightarrow> dfail e
       | OtherErr \<Rightarrow> dfail e
       | OutOfFuel \<Rightarrow> dfail e
       | _ \<Rightarrow>
          dbind (dget (dw_gateway_available W)) (\<lambda>up.
            if e = ConnectErr \<and> \<not> up
            then
              dbind (remaining W (dt_deadline_at t)) (\<lambda>left.
                if left \<le> delay then dfail GatewayUnavailable
                else
                  dbind (dworld (\<lambda>w. ((), dw_sleep W delay w))) (\<lambda>_.
                  start_loop n D W t ep q (min (delay * 2) (5 * second))))
            else dcatch (resolve_ambiguous D W t ep q) (\<lambda>x. give_up ''recovery failed'')))"

definition matches_ticket :: "delivery \<Rightarrow> delivery_ticket \<Rightarrow> start_request \<Rightarrow> bool" where
  "matches_ticket D t q \<longleftrightarrow>
     sq_invocation_id q = dt_invocation_id t \<and> sq_session_ref q = dt_session_ref t \<and> sq_workspace_ref q = dt_workspace_ref t
     \<and> sq_deadline_at q = dt_deadline_at t \<and> sq_config_version q = dl_config_version D"

definition await_gateway :: "'w delivery_world \<Rightarrow> int \<Rightarrow> ('w, bool) dlv" where
  "await_gateway W left =
     dbind (dget (dw_gateway_available W)) (\<lambda>up.
       if up then dret True else dworld (dw_wait_gateway W left))"

definition start :: "nat \<Rightarrow> delivery \<Rightarrow> 'w delivery_world \<Rightarrow> delivery_ticket \<Rightarrow> ('w, started) dlv" where
  "start fuel D W t =
     (if dt_namespace t \<noteq> dl_namespace D \<or> dt_agent_uid t \<noteq> dl_agent_uid D
      then dfail (DeliveryErr ''ticket identity does not match PublicConfig'')
      else
        dbind (remaining W (dt_deadline_at t)) (\<lambda>left.
        dbind (await_gateway W left) (\<lambda>ok.
          if \<not> ok then dfail GatewayUnavailable
          else
            dbind (ensure_endpoint W t) (\<lambda>ep.
            dbind (remaining W (dt_deadline_at t)) (\<lambda>_.
            dbind (remaining W (dt_deadline_at t)) (\<lambda>left2.
            dbind (dcall (dw_prepare W t ep left2)) (\<lambda>q.
              if \<not> matches_ticket D t q
              then dfail (DeliveryErr ''prepared StartRequest does not match immutable ticket/config'')
              else start_loop fuel D W t ep q (second div 2))))))))"

section \<open>Queries\<close>

definition status_call :: "delivery \<Rightarrow> 'w delivery_world \<Rightarrow> endpoint \<Rightarrow> string \<Rightarrow> ('w, run_status) dlv" where
  "status_call D W ep invocation_id =
     dbind (request D W ep (GetStatus invocation_id) None) (\<lambda>(code, raw).
       if code \<noteq> 200 then dfail (DeliveryErr ''Workspace status failed'')
       else dbind (parse_body W raw) (\<lambda>v.
         case parse_run_status (dw_aware W) v of
           Inl _ \<Rightarrow> dfail (DeliveryErr ''Workspace returned invalid RunStatus'') | Inr r \<Rightarrow> dret r))"

definition list_runs :: "delivery \<Rightarrow> 'w delivery_world \<Rightarrow> endpoint \<Rightarrow> ('w, run_status list) dlv" where
  "list_runs D W ep =
     dbind (request D W ep GetRuns None) (\<lambda>(code, raw).
       if code \<noteq> 200 then dfail (DeliveryErr ''Workspace runs failed'')
       else dbind (parse_body W raw) (\<lambda>v.
         case v of
           JList items \<Rightarrow> (case map_res (parse_run_status (dw_aware W)) items of
               Inl _ \<Rightarrow> dfail (DeliveryErr ''Workspace returned invalid run inventory'') | Inr rs \<Rightarrow> dret rs)
         | _ \<Rightarrow> dfail (DeliveryErr ''Workspace returned invalid run inventory'')))"

definition cancel_run :: "delivery \<Rightarrow> 'w delivery_world \<Rightarrow> endpoint \<Rightarrow> cancel_request \<Rightarrow> ('w, unit) dlv" where
  "cancel_run D W ep c =
     dbind (request D W ep (PostCancel [(''invocationId'', JStr (cq_invocation_id c)), (''reason'', JStr (cq_reason c))]) None)
       (\<lambda>(code, raw). if code \<noteq> 200 then dfail (DeliveryErr ''Workspace cancel failed'') else dret ())"

definition close_delivery :: "delivery \<Rightarrow> delivery" where
  "close_delivery D = D\<lparr>dl_closed := True\<rparr>"

section \<open>What a computation logs\<close>

text \<open>From any state, \<open>m\<close> only appends to the log, and what it appends with its result satisfies \<open>P\<close>.\<close>

definition emits :: "('w, 'a) dlv \<Rightarrow> ((delivery_error, 'a) result \<Rightarrow> entry list \<Rightarrow> bool) \<Rightarrow> bool" where
  "emits m P \<longleftrightarrow> (\<forall>w l. \<exists>ext. snd (snd (m (w, l))) = l @ ext \<and> P (fst (m (w, l))) ext)"

lemma emitsI: "(\<And>w l r w' l'. m (w, l) = (r, w', l') \<Longrightarrow> \<exists>ext. l' = l @ ext \<and> P r ext) \<Longrightarrow> emits m P"
  unfolding emits_def by (metis prod.collapse)

lemma emitsD: "emits m P \<Longrightarrow> m (w, l) = (r, w', l') \<Longrightarrow> \<exists>ext. l' = l @ ext \<and> P r ext"
  unfolding emits_def by (metis fst_conv snd_conv)

lemma emits_mono: "emits m P \<Longrightarrow> (\<And>r ext. P r ext \<Longrightarrow> Q r ext) \<Longrightarrow> emits m Q"
  unfolding emits_def by blast

lemma emits_bind:
  assumes "emits m P" "\<And>x. emits (f x) (Q x)"
    and "\<And>e l. P (Inl e) l \<Longrightarrow> R (Inl e) l" "\<And>x l r l'. P (Inr x) l \<Longrightarrow> Q x r l' \<Longrightarrow> R r (l @ l')"
  shows "emits (dbind m f) R"
proof (rule emitsI)
  fix w l r w' l' assume d: "dbind m f (w, l) = (r, w', l')"
  obtain r1 w1 l1 where m: "m (w, l) = (r1, w1, l1)" by (cases "m (w, l)")
  obtain e1 where e1: "l1 = l @ e1" "P r1 e1" using emitsD[OF assms(1) m] by blast
  show "\<exists>ext. l' = l @ ext \<and> R r ext"
  proof (cases r1)
    case (Inl e)
    then show ?thesis using d m e1 assms(3) by (auto simp: dbind_def)
  next
    case (Inr x)
    then have "f x (w1, l1) = (r, w', l')" using d m by (simp add: dbind_def)
    then obtain e2 where "l' = l1 @ e2" "Q x r e2" using emitsD[OF assms(2)] by blast
    then show ?thesis using e1 Inr assms(4) by auto
  qed
qed

lemma emits_catch:
  assumes "emits m P" "\<And>e. emits (h e) (Q e)"
    and "\<And>x l. P (Inr x) l \<Longrightarrow> R (Inr x) l" "\<And>e l r l'. P (Inl e) l \<Longrightarrow> Q e r l' \<Longrightarrow> R r (l @ l')"
  shows "emits (dcatch m h) R"
proof (rule emitsI)
  fix w l r w' l' assume d: "dcatch m h (w, l) = (r, w', l')"
  obtain r1 w1 l1 where m: "m (w, l) = (r1, w1, l1)" by (cases "m (w, l)")
  obtain e1 where e1: "l1 = l @ e1" "P r1 e1" using emitsD[OF assms(1) m] by blast
  show "\<exists>ext. l' = l @ ext \<and> R r ext"
  proof (cases r1)
    case (Inr x)
    then show ?thesis using d m e1 assms(3) by (auto simp: dcatch_def)
  next
    case (Inl e)
    then have "h e (w1, l1) = (r, w', l')" using d m by (simp add: dcatch_def)
    then obtain e2 where "l' = l1 @ e2" "Q e r e2" using emitsD[OF assms(2)] by blast
    then show ?thesis using e1 Inl assms(4) by auto
  qed
qed

abbreviation quiet :: "('w, 'a) dlv \<Rightarrow> bool" where
  "quiet m \<equiv> emits m (\<lambda>r l. l = [])"

lemma emits_basic:
  "emits (dret x) (\<lambda>r l. r = Inr x \<and> l = [])" "emits (dfail e) (\<lambda>r l. r = Inl e \<and> l = [])"
  "emits (dlog en) (\<lambda>r l. r = Inr () \<and> l = [en])" "emits (dworld f) (\<lambda>r l. (\<exists>x. r = Inr x) \<and> l = [])" "emits (dget g) (\<lambda>r l. (\<exists>x. r = Inr x) \<and> l = [])"
  by (auto intro!: emitsI simp: dret_def dfail_def dlog_def dworld_def dget_def split: prod.splits)

lemma quiet_bind: "quiet m \<Longrightarrow> (\<And>x. quiet (f x)) \<Longrightarrow> quiet (dbind m f)"
  by (rule emits_bind[where P = "\<lambda>r l. l = []" and Q = "\<lambda>x r l. l = []"]) auto

lemma quiet_then: "quiet m \<Longrightarrow> (\<And>x. emits (f x) R) \<Longrightarrow> (\<And>e. R (Inl e) []) \<Longrightarrow> emits (dbind m f) R"
  by (rule emits_bind[where P = "\<lambda>r l. l = []" and Q = "\<lambda>x. R"]) auto

lemma emits_if: "emits a R \<Longrightarrow> emits b R \<Longrightarrow> emits (if c then a else b) R"
  by simp

lemma quiet_basic [intro]: "quiet (dret x)" "quiet (dfail e)" "quiet (dworld f)" "quiet (dget g)"
  by (rule emits_mono[OF emits_basic(1)] emits_mono[OF emits_basic(2)] emits_mono[OF emits_basic(4)] emits_mono[OF emits_basic(5)]; simp)+

lemma quiet_parts: "quiet (remaining W d)" "quiet (dcall f)" "quiet (ensure_endpoint W t)" "quiet (parse_body W raw)"
  "quiet (handle_response W ep r)" "quiet (await_gateway W left)"
  unfolding remaining_def ensure_endpoint_def parse_body_def handle_response_def await_gateway_def dcall_def
  by (auto intro!: quiet_bind split: option.split sum.split)

section \<open>Sends\<close>

definition receipt_ok :: "start_request \<Rightarrow> started \<Rightarrow> bool" where
  "receipt_ok q r \<longleftrightarrow> sd_invocation_id r = sq_invocation_id q \<and> sd_session_ref r = sq_session_ref q
     \<and> sd_config_version r = sq_config_version q \<and> sd_run_id r \<noteq> []"

text \<open>One start request: nothing was sent, or one send, refused exactly when the call ends in a connect error.\<close>

definition one_send :: "string \<Rightarrow> dict \<Rightarrow> (delivery_error, 'a) result \<Rightarrow> entry list \<Rightarrow> bool" where
  "one_send i p r l \<longleftrightarrow> l = [] \<and> (\<exists>e. r = Inl e \<and> e \<noteq> ConnectErr) \<or> (\<exists>x. l = [Sent i p x] \<and> (x \<longleftrightarrow> r = Inl ConnectErr))"

lemma remaining_error: "emits (remaining W d) (\<lambda>r l. l = [] \<and> r \<noteq> Inl ConnectErr)"
  by (auto intro!: emitsI simp: remaining_def dbind_def dget_def dret_def dfail_def split: option.splits if_splits)

lemma read_chunks_error: "read_chunks ending n acc cs \<noteq> Inl ConnectErr"
  by (induction ending n acc cs rule: read_chunks.induct) (auto simp: stream_exc_def split: option.splits stream_error.splits)

lemma handle_response_error: "emits (handle_response W ep r) (\<lambda>x l. l = [] \<and> x \<noteq> Inl ConnectErr)"
  using read_chunks_error[of "hr_ending r" 0 "[]" "hr_chunks r"]
  by (auto intro!: emitsI simp: handle_response_def dbind_def dworld_def dret_def dfail_def split: sum.splits prod.splits if_splits)

lemma http_exc_connect: "http_exc e = ConnectErr \<longleftrightarrow> e = HttpConnect"
  by (cases e) (simp_all add: http_exc_def)

lemma send_start: "emits (request D W ep (PostStart p) (Some d)) (one_send (ep_instance_id ep) p)"
proof -
  let ?send = "\<lambda>timeout. dbind (dworld (dw_send W ep (PostStart p) timeout)) (\<lambda>r.
        dbind (log_sent ep (PostStart p) r) (\<lambda>_.
        case r of Inl e \<Rightarrow> dfail (http_exc e) | Inr resp \<Rightarrow> handle_response W ep resp))"
  have inner: "emits (case r of Inl e \<Rightarrow> dfail (http_exc e) | Inr resp \<Rightarrow> handle_response W ep resp)
      (\<lambda>x l. l = [] \<and> (x = Inl ConnectErr \<longleftrightarrow> r = Inl HttpConnect))" for r
  proof (cases r)
    case (Inl e)
    then show ?thesis using http_exc_connect[of e] by (auto intro: emits_mono[OF emits_basic(2)])
  next
    case (Inr resp)
    then show ?thesis using handle_response_error[of W ep resp] by (auto elim: emits_mono)
  qed
  have "emits (?send timeout) (\<lambda>r l. \<exists>x. l = [Sent (ep_instance_id ep) p x] \<and> (x \<longleftrightarrow> r = Inl ConnectErr))" for timeout
  proof (rule emits_bind[OF emits_basic(4)])
    fix r
    show "emits (dbind (log_sent ep (PostStart p) r) (\<lambda>_. case r of Inl e \<Rightarrow> dfail (http_exc e) | Inr resp \<Rightarrow> handle_response W ep resp))
       (\<lambda>x l. l = [Sent (ep_instance_id ep) p (r = Inl HttpConnect)] \<and> (x = Inl ConnectErr \<longleftrightarrow> r = Inl HttpConnect))"
      unfolding log_sent_def http_call.case by (rule emits_bind[OF emits_basic(3) inner[of r]]) auto
  qed auto
  then have "emits (dbind (remaining W d) ?send) (one_send (ep_instance_id ep) p)"
    by (rule emits_bind[OF remaining_error]) (auto simp: one_send_def)
  then show ?thesis
    by (cases "dl_closed D") (auto simp: request_def one_send_def intro: emits_mono[OF emits_basic(2)])
qed

text \<open>Asking for a record: at most one response, and what is returned is its status and its whole body.\<close>

definition status_answer :: "string \<Rightarrow> (delivery_error, int \<times> string) result \<Rightarrow> entry list \<Rightarrow> bool" where
  "status_answer i r l \<longleftrightarrow> (l = [] \<and> isl r) \<or> (\<exists>resp. l = [Answered resp] \<and> (\<forall>status raw. r = Inr (status, raw) \<longrightarrow>
     hr_instance_id resp = Some i \<and> hr_status resp = status \<and> hr_ending resp = None \<and> concat (hr_chunks resp) = raw))"

lemma read_chunks_whole: "read_chunks ending n acc cs = Inr raw \<Longrightarrow> raw = acc @ concat cs \<and> ending = None"
  by (induction ending n acc cs rule: read_chunks.induct) (auto split: option.splits if_splits)

lemma handle_response_whole:
  "emits (handle_response W ep resp) (\<lambda>r l. l = [] \<and> (\<forall>status raw. r = Inr (status, raw) \<longrightarrow>
     hr_instance_id resp = Some (ep_instance_id ep) \<and> hr_status resp = status \<and> hr_ending resp = None \<and> concat (hr_chunks resp) = raw))"
  by (auto intro!: emitsI simp: handle_response_def dbind_def dworld_def dret_def dfail_def split: sum.splits prod.splits if_splits dest: read_chunks_whole)

lemma status_request: "emits (request D W ep (GetStatus i) d) (status_answer (ep_instance_id ep))"
proof -
  have fail: "emits (dfail e) (status_answer j)" for e j by (rule emits_mono[OF emits_basic(2)]) (simp add: status_answer_def)
  have after: "emits (dbind (log_sent ep (GetStatus i) r) (\<lambda>_.
        case r of Inl e \<Rightarrow> dfail (http_exc e) | Inr resp \<Rightarrow> handle_response W ep resp)) (status_answer (ep_instance_id ep))" for r
  proof (cases r)
    case (Inl e)
    then show ?thesis using fail by (auto simp: log_sent_def status_answer_def intro!: quiet_then[OF quiet_basic(1)])
  next
    case (Inr resp)
    have "emits (dbind (dlog (Answered resp)) (\<lambda>_. handle_response W ep resp)) (status_answer (ep_instance_id ep))"
      by (rule emits_bind[OF emits_basic(3) handle_response_whole]) (auto simp: status_answer_def)
    then show ?thesis using Inr by (simp add: log_sent_def)
  qed
  have none: "status_answer (ep_instance_id ep) (Inl e) []" for e by (simp add: status_answer_def)
  have timeout: "quiet (case d of None \<Rightarrow> dret (10 * second) | Some t \<Rightarrow> remaining W t)"
    using quiet_parts(1)[of W] by (auto split: option.split)
  have "emits (request D W ep (GetStatus i) d) (status_answer (ep_instance_id ep))" if "\<not> dl_closed D"
    unfolding request_def using that
    by simp (intro quiet_then[OF timeout] quiet_then[OF quiet_basic(3)] after none)
  then show ?thesis using fail by (cases "dl_closed D") (simp_all add: request_def)
qed

lemma send_started:
  "emits (started_call D W ep q d)
     (\<lambda>r l. one_send (ep_instance_id ep) (dump_start_request (dw_show_time W) q) r l \<and> (\<forall>x. r = Inr x \<longrightarrow> receipt_ok q x))"
  unfolding started_call_def
proof (rule emits_bind[OF send_start])
  fix sr :: "int \<times> string"
  show "emits (case sr of (status, raw) \<Rightarrow>
       if status \<noteq> 202 then dfail (StartRejected status)
       else
         dbind (parse_body W raw) (\<lambda>v.
         case parse_started v of
           Inl _ \<Rightarrow> dfail (DeliveryErr ''Workspace returned an invalid Started receipt'')
         | Inr r \<Rightarrow>
             if sd_invocation_id r \<noteq> sq_invocation_id q \<or> sd_session_ref r \<noteq> sq_session_ref q
               \<or> sd_config_version r \<noteq> sq_config_version q \<or> sd_run_id r = []
             then dfail (DeliveryErr ''Workspace Started receipt identity did not match request'')
             else dret r)) (\<lambda>r l. l = [] \<and> r \<noteq> Inl ConnectErr \<and> (\<forall>x. r = Inr x \<longrightarrow> receipt_ok q x))"
    by (auto intro!: emitsI simp: dbind_def parse_body_def dret_def dfail_def receipt_ok_def split: prod.splits sum.splits option.splits if_splits)
qed (auto simp: one_send_def)

text \<open>A response that shows the record of the run of this request: it comes whole from that instance and names the
  invocation, channel, Workspace, session, config version and deadline.\<close>

definition shows_run :: "'w delivery_world \<Rightarrow> string \<Rightarrow> start_request \<Rightarrow> http_response \<Rightarrow> bool" where
  "shows_run W i q resp \<longleftrightarrow> hr_instance_id resp = Some i \<and> hr_status resp = 200 \<and> hr_ending resp = None
     \<and> (\<exists>v rs. dw_loads W (concat (hr_chunks resp)) = Some v \<and> parse_run_status (dw_aware W) v = Inr rs
          \<and> rs_invocation_id rs = sq_invocation_id q \<and> rs_channel rs = sq_channel q \<and> rs_workspace_ref rs = sq_workspace_ref q
          \<and> rs_session_ref rs = sq_session_ref q \<and> rs_config_version rs = sq_config_version q \<and> rs_deadline_at rs = sq_deadline_at q)"

text \<open>After an ambiguous send: nothing more, or a response, and only when it shows the run perhaps one more send of the same.\<close>

definition resolution :: "'w delivery_world \<Rightarrow> string \<Rightarrow> start_request \<Rightarrow> entry list \<Rightarrow> bool" where
  "resolution W i q l \<longleftrightarrow> l = [] \<or> (\<exists>resp. l = [Answered resp])
     \<or> (\<exists>resp x. shows_run W i q resp \<and> l = [Answered resp, Sent i (dump_start_request (dw_show_time W) q) x])"

definition tail_ok :: "'w delivery_world \<Rightarrow> string \<Rightarrow> start_request \<Rightarrow> entry list \<Rightarrow> bool" where
  "tail_ok W i q l \<longleftrightarrow> (\<exists>c d. l = c @ d \<and> resolution W i q c \<and> (d = [] \<or> (\<exists>m. d = [Alarmed m])))"

definition shape :: "'w delivery_world \<Rightarrow> string \<Rightarrow> start_request \<Rightarrow> entry list \<Rightarrow> bool" where
  "shape W i q l \<longleftrightarrow> (\<exists>n b c. l = replicate n (Sent i (dump_start_request (dw_show_time W) q) True) @ b @ c
     \<and> (b = [] \<or> (\<exists>x. b = [Sent i (dump_start_request (dw_show_time W) q) x])) \<and> tail_ok W i q c)"

lemma resolve_emits:
  "emits (resolve_ambiguous D W t ep q) (\<lambda>r l. resolution W (ep_instance_id ep) q l \<and> (\<forall>x. r = Inr x \<longrightarrow> receipt_ok q x))"
  (is "emits _ ?R")
proof -
  let ?i = "ep_instance_id ep" and ?p = "dump_start_request (dw_show_time W) q"
  let ?again = "\<lambda>r l. (l = [] \<or> (\<exists>x. l = [Sent ?i ?p x])) \<and> (\<forall>x. r = Inr x \<longrightarrow> receipt_ok q x)"
  let ?after = "\<lambda>status raw r l. (l = [] \<and> isl r) \<or> ((\<exists>v rs. status = 200 \<and> dw_loads W raw = Some v \<and> parse_run_status (dw_aware W) v = Inr rs
      \<and> status_matches rs q) \<and> ?again r l)"
  have fail: "emits (dfail e) ?R" for e by (rule emits_mono[OF emits_basic(2)]) (simp add: resolution_def)
  have again: "emits (dbind (ensure_endpoint W t) (\<lambda>retry.
        if ep_instance_id retry \<noteq> ?i then dfail StartOutcomeUnknown else started_call D W retry q (dt_deadline_at t))) ?again"
  proof (rule quiet_then[OF quiet_parts(3)])
    show "emits (if ep_instance_id retry \<noteq> ?i then dfail StartOutcomeUnknown else started_call D W retry q (dt_deadline_at t)) ?again" for retry
      using send_started[of D W retry q "dt_deadline_at t"]
      by (auto elim!: emits_mono intro!: emits_mono[OF emits_basic(2)] simp: one_send_def)
  qed simp
  have after: "emits (if status \<noteq> 200 then dfail StartOutcomeUnknown
           else
             dbind (parse_body W raw) (\<lambda>v.
             case parse_run_status (dw_aware W) v of
               Inl _ \<Rightarrow> dfail OtherErr
             | Inr r \<Rightarrow>
                 if \<not> status_matches r q then dfail (DeliveryErr ''Workspace RunStatus identity did not match expected run'')
                 else
                   dbind (ensure_endpoint W t) (\<lambda>retry.
                     if ep_instance_id retry \<noteq> ?i then dfail StartOutcomeUnknown
                     else started_call D W retry q (dt_deadline_at t)))) (?after status raw)" for status raw
  proof (cases "\<exists>v rs. status = 200 \<and> dw_loads W raw = Some v \<and> parse_run_status (dw_aware W) v = Inr rs \<and> status_matches rs q")
    case True
    then obtain v rs where v: "status = 200" "dw_loads W raw = Some v" "parse_run_status (dw_aware W) v = Inr rs" "status_matches rs q" by blast
    have "parse_body W raw = dret v" by (rule ext) (simp add: parse_body_def v(2))
    moreover have "dbind (dret v) f = f v" for f :: "json \<Rightarrow> ('a, started) dlv" by (rule ext) (simp add: dbind_def dret_def)
    ultimately show ?thesis using v emits_mono[OF again] by simp
  next
    case False
    then show ?thesis
      by (auto intro!: emitsI simp: dbind_def parse_body_def dret_def dfail_def split: option.splits sum.splits if_splits)
  qed
  have status: "emits (dbind (request D W current (GetStatus (dt_invocation_id t)) (Some (dt_deadline_at t))) (\<lambda>(status, raw).
           if status \<noteq> 200 then dfail StartOutcomeUnknown
           else
             dbind (parse_body W raw) (\<lambda>v.
             case parse_run_status (dw_aware W) v of
               Inl _ \<Rightarrow> dfail OtherErr
             | Inr r \<Rightarrow>
                 if \<not> status_matches r q then dfail (DeliveryErr ''Workspace RunStatus identity did not match expected run'')
                 else
                   dbind (ensure_endpoint W t) (\<lambda>retry.
                     if ep_instance_id retry \<noteq> ?i then dfail StartOutcomeUnknown
                     else started_call D W retry q (dt_deadline_at t))))) ?R"
    if c: "ep_instance_id current = ?i" for current
  proof (rule emits_bind[OF status_request, where Q = "\<lambda>(status, raw). ?after status raw"])
    fix e l assume "status_answer (ep_instance_id current) (Inl e) l"
    then show "?R (Inl e) l" by (auto simp: status_answer_def resolution_def)
  next
    fix sr l l' and r :: "(delivery_error, started) result"
    assume a: "status_answer (ep_instance_id current) (Inr sr) l" "(case sr of (status, raw) \<Rightarrow> ?after status raw) r l'"
    then show "?R r (l @ l')"
      by (cases sr) (auto simp: status_answer_def resolution_def shows_run_def status_matches_def c isl_def)
  next
    fix sr :: "int \<times> string"
    show "emits (case sr of (status, raw) \<Rightarrow> if status \<noteq> 200 then dfail StartOutcomeUnknown
           else
             dbind (parse_body W raw) (\<lambda>v.
             case parse_run_status (dw_aware W) v of
               Inl _ \<Rightarrow> dfail OtherErr
             | Inr r \<Rightarrow>
                 if \<not> status_matches r q then dfail (DeliveryErr ''Workspace RunStatus identity did not match expected run'')
                 else
                   dbind (ensure_endpoint W t) (\<lambda>retry.
                     if ep_instance_id retry \<noteq> ?i then dfail StartOutcomeUnknown
                     else started_call D W retry q (dt_deadline_at t)))) (case sr of (status, raw) \<Rightarrow> ?after status raw)"
      unfolding prod.case_eq_if by (rule after)
  qed
  show ?thesis
    unfolding resolve_ambiguous_def
    by (rule quiet_then[OF quiet_parts(3)]) (use fail status in \<open>auto simp: resolution_def\<close>)
qed

lemma give_up_emits: "emits (give_up m) (\<lambda>r l. l = [Alarmed m] \<and> r = Inl StartOutcomeUnknown)"
  unfolding give_up_def by (rule emits_bind[OF emits_basic(3) emits_basic(2)]) auto

lemma shape_refused: "shape W i q l \<Longrightarrow> shape W i q (Sent i (dump_start_request (dw_show_time W) q) True # l)"
  unfolding shape_def by (metis append_Cons replicate_Suc)

lemma tail_shape:
  assumes "tail_ok W i q l"
  shows "shape W i q l" "shape W i q (Sent i (dump_start_request (dw_show_time W) q) x # l)"
proof -
  let ?s = "\<lambda>x. Sent i (dump_start_request (dw_show_time W) q) x"
  have "l = replicate 0 (?s True) @ [] @ l" "?s x # l = replicate 0 (?s True) @ [?s x] @ l" by simp_all
  then show "shape W i q l" "shape W i q (?s x # l)" unfolding shape_def using assms by blast+
qed

lemma loop_emits:
  "emits (start_loop n D W t ep q delay)
     (\<lambda>r l. shape W (ep_instance_id ep) q l \<and> (\<forall>x. r = Inr x \<longrightarrow> receipt_ok q x))"
  (is "emits _ ?R")
proof (induction n arbitrary: delay)
  let ?i = "ep_instance_id ep" and ?p = "dump_start_request (dw_show_time W) q"
  have nil: "tail_ok W ?i q []" and alarmed: "tail_ok W ?i q [Alarmed m]" for m by (auto simp: tail_ok_def resolution_def)
  case 0
  then show ?case using tail_shape(1)[OF nil] by (auto intro: emits_mono[OF emits_basic(2)])
next
  let ?i = "ep_instance_id ep" and ?p = "dump_start_request (dw_show_time W) q"
  let ?Q = "\<lambda>e r l. (tail_ok W ?i q l \<or> e = ConnectErr \<and> shape W ?i q l) \<and> (\<forall>x. r = Inr x \<longrightarrow> receipt_ok q x)"
  have nil: "tail_ok W ?i q []" and alarmed: "tail_ok W ?i q [Alarmed m]" for m by (auto simp: tail_ok_def resolution_def)
  case (Suc n)
  have fail: "emits (dfail x) (?Q e)" for e x using nil by (auto intro: emits_mono[OF emits_basic(2)])
  have give: "emits (give_up m) (?Q e)" for e m using alarmed by (auto intro: emits_mono[OF give_up_emits])
  have amb: "emits (dcatch (resolve_ambiguous D W t ep q) (\<lambda>x. give_up ''recovery failed'')) (?Q e)" for e
    by (rule emits_catch[OF resolve_emits give_up_emits]) (auto simp: tail_ok_def)
  have loop: "emits (dbind (remaining W (dt_deadline_at t)) (\<lambda>left.
                if left \<le> delay then dfail GatewayUnavailable
                else
                  dbind (dworld (\<lambda>w. ((), dw_sleep W delay w))) (\<lambda>_.
                  start_loop n D W t ep q (min (delay * 2) (5 * second))))) (?Q ConnectErr)"
  proof (rule emits_bind[OF quiet_parts(1), where Q = "\<lambda>x. ?Q ConnectErr"])
    fix left
    have "emits (dbind (dworld (\<lambda>w. ((), dw_sleep W delay w))) (\<lambda>_. start_loop n D W t ep q (min (delay * 2) (5 * second)))) (?Q ConnectErr)"
      by (rule emits_bind[OF emits_basic(4) Suc.IH]) auto
    then show "emits (if left \<le> delay then dfail GatewayUnavailable
                else
                  dbind (dworld (\<lambda>w. ((), dw_sleep W delay w))) (\<lambda>_.
                  start_loop n D W t ep q (min (delay * 2) (5 * second)))) (?Q ConnectErr)"
      using fail[of _ ConnectErr] by auto
  qed (use nil in auto)
  have net: "emits (dbind (dget (dw_gateway_available W)) (\<lambda>up.
            if e = ConnectErr \<and> \<not> up
            then
              dbind (remaining W (dt_deadline_at t)) (\<lambda>left.
                if left \<le> delay then dfail GatewayUnavailable
                else
                  dbind (dworld (\<lambda>w. ((), dw_sleep W delay w))) (\<lambda>_.
                  start_loop n D W t ep q (min (delay * 2) (5 * second))))
            else dcatch (resolve_ambiguous D W t ep q) (\<lambda>x. give_up ''recovery failed''))) (?Q e)" for e
    by (rule emits_bind[OF emits_basic(5), where Q = "\<lambda>x. ?Q e"]) (use loop amb in auto)
  show ?case
    unfolding start_loop.simps
  proof (rule emits_catch[OF send_started, where Q = ?Q])
    fix e
    show "emits (case e of
         StartRejected _ \<Rightarrow> dfail e
       | DeliveryErr m \<Rightarrow> give_up m
       | GatewayUnavailable \<Rightarrow> give_up ''gateway_unavailable''
       | StartOutcomeUnknown \<Rightarrow> give_up ''unknown''
       | AssemblyUnavailable \<Rightarrow> dfail e
       | OtherErr \<Rightarrow> dfail e
       | OutOfFuel \<Rightarrow> dfail e
       | _ \<Rightarrow>
          dbind (dget (dw_gateway_available W)) (\<lambda>up.
            if e = ConnectErr \<and> \<not> up
            then
              dbind (remaining W (dt_deadline_at t)) (\<lambda>left.
                if left \<le> delay then dfail GatewayUnavailable
                else
                  dbind (dworld (\<lambda>w. ((), dw_sleep W delay w))) (\<lambda>_.
                  start_loop n D W t ep q (min (delay * 2) (5 * second))))
            else dcatch (resolve_ambiguous D W t ep q) (\<lambda>x. give_up ''recovery failed''))) (?Q e)"
      using net[of e] fail[of _ e] give[of _ e] by (cases e) simp_all
  next
    fix x l assume "one_send ?i ?p (Inr x) l \<and> (\<forall>y. Inr x = Inr y \<longrightarrow> receipt_ok q y)"
    then show "?R (Inr x) l" using tail_shape(2)[OF nil] by (auto simp: one_send_def)
  next
    fix e l l' and r :: "(delivery_error, started) result"
    assume "one_send ?i ?p (Inl e :: (delivery_error, started) result) l \<and> (\<forall>x. Inl e = Inr x \<longrightarrow> receipt_ok q x)" "?Q e r l'"
    then show "?R r (l @ l')" using tail_shape[of W ?i q l'] shape_refused[of W ?i q l'] by (auto simp: one_send_def)
  qed
qed

lemma start_emits:
  "emits (start fuel D W t) (\<lambda>r l. \<exists>i q. shape W i q l
     \<and> (l \<noteq> [] \<or> (\<exists>x. r = Inr x) \<longrightarrow> matches_ticket D t q) \<and> (\<forall>x. r = Inr x \<longrightarrow> receipt_ok q x))"
  (is "emits _ ?R")
proof -
  have nil: "shape W i q []" for i q by (rule tail_shape(1)) (simp add: tail_ok_def resolution_def)
  have fail: "emits (dfail e) ?R" for e using nil by (auto intro: emits_mono[OF emits_basic(2)])
  have loop: "emits (if \<not> matches_ticket D t q
              then dfail (DeliveryErr ''prepared StartRequest does not match immutable ticket/config'')
              else start_loop fuel D W t ep q (second div 2)) ?R" for q ep
    using fail emits_mono[OF loop_emits[of fuel D W t ep q "second div 2"], of ?R] by auto
  have none: "?R (Inl e) []" for e using nil by auto
  show ?thesis
    unfolding start_def
    by (cases "dt_namespace t \<noteq> dl_namespace D \<or> dt_agent_uid t \<noteq> dl_agent_uid D", simp_all only: if_True if_False)
      (intro fail quiet_then[OF quiet_parts(1)] quiet_then[OF quiet_parts(6)] quiet_then[OF quiet_parts(3)]
        quiet_then[OF quiet_parts(2)] loop none emits_if)+
qed

text \<open>
  A monitor of the log: after a send that may have arrived, another one is allowed only once a response of the same
  instance has shown its record of the run; every send is of the same request to the same instance.
\<close>

fun monitor :: "'w delivery_world \<Rightarrow> string \<Rightarrow> start_request \<Rightarrow> bool \<Rightarrow> entry list \<Rightarrow> bool" where
  "monitor W i q uncertain [] = True"
| "monitor W i q uncertain (Sent j p refused # l) =
     (j = i \<and> p = dump_start_request (dw_show_time W) q \<and> \<not> uncertain \<and> monitor W i q (\<not> refused) l)"
| "monitor W i q uncertain (Answered resp # l) = monitor W i q (uncertain \<and> \<not> shows_run W i q resp) l"
| "monitor W i q uncertain (Alarmed m # l) = monitor W i q uncertain l"

fun arrived :: "entry \<Rightarrow> bool" where
  "arrived (Sent i p refused) = (\<not> refused)"
| "arrived _ = False"

lemma tail_monitor: "tail_ok W i q l \<Longrightarrow> monitor W i q u l \<and> length (filter arrived l) \<le> 1"
  by (auto simp: tail_ok_def resolution_def)

lemma shape_monitor: "shape W i q l \<Longrightarrow> monitor W i q False l \<and> length (filter arrived l) \<le> 2"
proof -
  assume "shape W i q l"
  then obtain n b c where l: "l = replicate n (Sent i (dump_start_request (dw_show_time W) q) True) @ b @ c"
    "b = [] \<or> (\<exists>x. b = [Sent i (dump_start_request (dw_show_time W) q) x])" "tail_ok W i q c"
    by (auto simp: shape_def)
  have "monitor W i q False (b @ c) \<and> length (filter arrived (b @ c)) \<le> 2"
    using l(2) tail_monitor[OF l(3)] by fastforce
  then show ?thesis unfolding l(1) by (induction n) auto
qed

text \<open>
  C35. A start is never duplicated blindly. Whatever the manager, the network and the service do, the
  start requests one delivery hands to the transport are all the same request, made for this ticket
  and config version, to one instance of the Workspace; after one that may have arrived, another is
  sent only once a response with that instance's ID and status 200 has shown, whole, its record of this very run: of this
  invocation, Workspace, session, deadline and config version and of the request's channel; at most two can have arrived;
  and a returned receipt names this invocation, session and config version and a run.
\<close>

theorem start_never_duplicates:
  assumes "start fuel D W t (w, []) = (r, w', lg)"
  shows "\<exists>i q. monitor W i q False lg \<and> length (filter arrived lg) \<le> 2
    \<and> (lg \<noteq> [] \<or> (\<exists>x. r = Inr x) \<longrightarrow> sq_invocation_id q = dt_invocation_id t \<and> sq_session_ref q = dt_session_ref t
         \<and> sq_workspace_ref q = dt_workspace_ref t \<and> sq_deadline_at q = dt_deadline_at t \<and> sq_config_version q = dl_config_version D)
    \<and> (\<forall>x. r = Inr x \<longrightarrow> sd_invocation_id x = dt_invocation_id t \<and> sd_session_ref x = dt_session_ref t
         \<and> sd_config_version x = dl_config_version D \<and> sd_run_id x \<noteq> [])"
proof -
  obtain i q where s: "shape W i q lg"
    and m: "lg \<noteq> [] \<or> (\<exists>x. r = Inr x) \<longrightarrow> matches_ticket D t q" and k: "\<forall>x. r = Inr x \<longrightarrow> receipt_ok q x"
    using emitsD[OF start_emits assms] by auto
  then show ?thesis using shape_monitor[OF s] by (intro exI[of _ i] exI[of _ q]) (auto simp: receipt_ok_def matches_ticket_def)
qed

section \<open>Termination\<close>

text \<open>The clock is aware and never goes back, and sleeping lasts at least as long as asked.\<close>

definition moves_to :: "'w delivery_world \<Rightarrow> int \<Rightarrow> 'w \<Rightarrow> bool" where
  "moves_to W t w \<longleftrightarrow> (\<exists>t' \<ge> t. dw_clock W w = Some t')"

definition clock_runs :: "'w delivery_world \<Rightarrow> bool" where
  "clock_runs W \<longleftrightarrow> (\<forall>w t. dw_clock W w = Some t \<longrightarrow>
     (\<forall>d. moves_to W (t + d) (dw_sleep W d w)) \<and> (\<forall>d. moves_to W t (snd (dw_wait_gateway W d w)))
     \<and> (\<forall>k d. moves_to W t (snd (dw_ensure W k d w))) \<and> (\<forall>k e d. moves_to W t (snd (dw_prepare W k e d w)))
     \<and> (\<forall>e c d. moves_to W t (snd (dw_send W e c d w))) \<and> (\<forall>e. moves_to W t (dw_report_lost W e w)))"

definition steady :: "'w delivery_world \<Rightarrow> ('w, 'a) dlv \<Rightarrow> bool" where
  "steady W m \<longleftrightarrow> (\<forall>w l t r w' l'. dw_clock W w = Some t \<longrightarrow> m (w, l) = (r, w', l') \<longrightarrow> r \<noteq> Inl OutOfFuel \<and> moves_to W t w')"

lemma moves_trans: "moves_to W t w \<Longrightarrow> t0 \<le> t \<Longrightarrow> moves_to W t0 w"
  by (auto simp: moves_to_def)

lemma steady_bind: "steady W m \<Longrightarrow> (\<And>x. steady W (f x)) \<Longrightarrow> steady W (dbind m f)"
  unfolding steady_def dbind_def
  by (auto split: sum.splits prod.splits) (metis moves_to_def moves_trans)+

lemma steady_catch: "steady W m \<Longrightarrow> (\<And>e. steady W (h e)) \<Longrightarrow> steady W (dcatch m h)"
  unfolding steady_def dcatch_def
  by (auto split: sum.splits prod.splits) (metis moves_to_def moves_trans)+

lemma steady_basic: "steady W (dret x)" "e \<noteq> OutOfFuel \<Longrightarrow> steady W (dfail e)" "steady W (dlog en)" "steady W (dget g)"
  by (auto simp: steady_def dret_def dfail_def dlog_def dget_def moves_to_def)

lemma steady_world: "(\<And>w t. dw_clock W w = Some t \<Longrightarrow> moves_to W t (snd (f w))) \<Longrightarrow> steady W (dworld f)"
  by (auto simp: steady_def dworld_def split: prod.splits) (metis snd_conv)

lemma read_chunks_fuel: "read_chunks ending n acc cs \<noteq> Inl OutOfFuel"
  by (induction ending n acc cs rule: read_chunks.induct) (auto simp: stream_exc_def split: option.splits stream_error.splits)

lemma exc_fuel: "http_exc e \<noteq> OutOfFuel" "call_exc c \<noteq> OutOfFuel"
  by (cases e; simp add: http_exc_def) (cases c; simp add: call_exc_def)

lemma steady_parts:
  assumes "clock_runs W"
  shows "steady W (remaining W d)" "steady W (ensure_endpoint W t)" "steady W (parse_body W raw)"
    "steady W (await_gateway W left)" "steady W (dcall (dw_prepare W t ep left))" "steady W (request D W ep c dl)"
proof -
  note c = assms[unfolded clock_runs_def]
  have call: "steady W (dcall f)" if "\<And>w t. dw_clock W w = Some t \<Longrightarrow> moves_to W t (snd (f w))" for f :: "'a \<Rightarrow> (call_error, 'b) result \<times> 'a"
    unfolding dcall_def using steady_world[OF that] exc_fuel by (auto intro!: steady_bind steady_basic split: sum.split)
  show rem: "steady W (remaining W d)" for d
    unfolding remaining_def by (auto intro!: steady_bind steady_basic split: option.split)
  show "steady W (ensure_endpoint W t)" unfolding ensure_endpoint_def
    by (rule steady_bind[OF rem]) (auto simp: dcall_def c intro!: steady_bind steady_world steady_basic exc_fuel split: sum.split)
  show "steady W (parse_body W raw)" unfolding parse_body_def by (auto intro!: steady_basic split: option.split)
  show "steady W (await_gateway W left)" unfolding await_gateway_def using c by (auto intro!: steady_bind steady_basic steady_world)
  show "steady W (dcall (dw_prepare W t ep left))"
    using c by (auto simp: dcall_def intro!: steady_bind steady_world steady_basic exc_fuel split: sum.split)
  have hr: "steady W (handle_response W ep r)" for r
    unfolding handle_response_def using c read_chunks_fuel[of "hr_ending r" 0 "[]" "hr_chunks r"]
    by (auto intro!: steady_bind steady_basic steady_world split: sum.split)
  have ls: "steady W (log_sent ep c b)" for b by (auto simp: log_sent_def intro: steady_basic split: http_call.split sum.split)
  show "steady W (request D W ep c dl)"
    unfolding request_def using c
    by (auto intro!: steady_bind steady_basic steady_world rem hr ls exc_fuel split: sum.split option.split)
qed

lemma steady_started: "clock_runs W \<Longrightarrow> steady W (started_call D W ep q d)"
  unfolding started_call_def
  by (auto intro!: steady_bind steady_parts steady_basic split: sum.split prod.split)

lemma steady_resolve: "clock_runs W \<Longrightarrow> steady W (resolve_ambiguous D W t ep q)"
  unfolding resolve_ambiguous_def
  by (auto intro!: steady_bind steady_parts steady_basic steady_started split: sum.split prod.split)

lemma steady_give_up: "steady W (give_up m)"
  unfolding give_up_def by (auto intro!: steady_bind steady_basic)

text \<open>Started at \<open>T\<close> or later, \<open>m\<close> does not run out of fuel.\<close>

definition timely :: "'w delivery_world \<Rightarrow> int \<Rightarrow> ('w, 'a) dlv \<Rightarrow> bool" where
  "timely W T m \<longleftrightarrow> (\<forall>w l t. dw_clock W w = Some t \<longrightarrow> T \<le> t \<longrightarrow> fst (m (w, l)) \<noteq> Inl OutOfFuel)"

lemma timely_bind:
  assumes "steady W m" "\<And>x. timely W T (f x)"
  shows "timely W T (dbind m f)"
  unfolding timely_def
proof (intro allI impI)
  fix w l t assume t: "dw_clock W w = Some t" "T \<le> t"
  obtain r w1 l1 where m: "m (w, l) = (r, w1, l1)" by (cases "m (w, l)")
  then obtain t1 where r: "r \<noteq> Inl OutOfFuel" "t \<le> t1" "dw_clock W w1 = Some t1"
    using assms(1) t(1) unfolding steady_def moves_to_def by blast
  show "fst (dbind m f (w, l)) \<noteq> Inl OutOfFuel"
    using m r assms(2) t(2) unfolding timely_def dbind_def by (cases r) (auto dest: order_trans)
qed

lemma timely_catch:
  assumes "steady W m" "\<And>e. e \<noteq> OutOfFuel \<Longrightarrow> timely W T (h e)"
  shows "timely W T (dcatch m h)"
  unfolding timely_def
proof (intro allI impI)
  fix w l t assume t: "dw_clock W w = Some t" "T \<le> t"
  obtain r w1 l1 where m: "m (w, l) = (r, w1, l1)" by (cases "m (w, l)")
  then obtain t1 where r: "r \<noteq> Inl OutOfFuel" "t \<le> t1" "dw_clock W w1 = Some t1"
    using assms(1) t(1) unfolding steady_def moves_to_def by blast
  show "fst (dcatch m h (w, l)) \<noteq> Inl OutOfFuel"
    using m r assms(2) t(2) unfolding timely_def dcatch_def by (cases r) (auto dest: order_trans)
qed

lemma steady_timely: "steady W m \<Longrightarrow> timely W T m"
  unfolding steady_def timely_def by (metis fst_conv prod_cases3)

lemma timely_if: "timely W T a \<Longrightarrow> timely W T b \<Longrightarrow> timely W T (if c then a else b)"
  by simp

lemma retry_timely:
  assumes "clock_runs W" "0 \<le> delay" "deadline - T \<ge> delay \<Longrightarrow> timely W (T + delay) m"
  shows "timely W T (dbind (remaining W deadline) (\<lambda>left.
                if left \<le> delay then dfail GatewayUnavailable
                else dbind (dworld (\<lambda>w. ((), dw_sleep W delay w))) (\<lambda>_. m)))"
  unfolding timely_def
proof (intro allI impI)
  fix w l t assume t: "dw_clock W w = Some t" "T \<le> t"
  show "fst (dbind (remaining W deadline) (\<lambda>left.
                if left \<le> delay then dfail GatewayUnavailable
                else dbind (dworld (\<lambda>w. ((), dw_sleep W delay w))) (\<lambda>_. m)) (w, l)) \<noteq> Inl OutOfFuel"
  proof (cases "deadline - t \<le> delay")
    case True
    then show ?thesis using t by (simp add: remaining_def dbind_def dget_def dret_def dfail_def)
  next
    case False
    have "moves_to W (t + delay) (dw_sleep W delay w)" using assms(1) t(1) by (simp add: clock_runs_def)
    then obtain t2 where "t + delay \<le> t2" "dw_clock W (dw_sleep W delay w) = Some t2" by (auto simp: moves_to_def)
    moreover have "timely W (T + delay) m" using assms(3) False t(2) by simp
    ultimately have "fst (m (dw_sleep W delay w, l)) \<noteq> Inl OutOfFuel" using t(2) by (auto simp: timely_def)
    then show ?thesis using t False assms(2) by (simp add: remaining_def dbind_def dget_def dret_def dworld_def)
  qed
qed

lemma loop_timely:
  assumes "clock_runs W"
  shows "500000 \<le> delay \<Longrightarrow> 0 < n \<Longrightarrow> dt_deadline_at t - T < int n * 500000 \<Longrightarrow> timely W T (start_loop n D W t ep q delay)"
proof (induction n arbitrary: delay T)
  case (Suc n)
  let ?d = "min (delay * 2) (5 * second)"
  have again: "timely W (T + delay) (start_loop n D W t ep q ?d)" if "dt_deadline_at t - T \<ge> delay"
  proof (rule Suc.IH)
    show "500000 \<le> ?d" using Suc.prems(1) by (simp add: second_def)
    have "int n * 500000 > dt_deadline_at t - (T + delay)" using Suc.prems(1,3) by (simp add: algebra_simps)
    then show "dt_deadline_at t - (T + delay) < int n * 500000" .
    show "0 < n" using \<open>int n * 500000 > dt_deadline_at t - (T + delay)\<close> that by (cases n) auto
  qed
  have retry: "timely W T (dbind (remaining W (dt_deadline_at t)) (\<lambda>left.
                if left \<le> delay then dfail GatewayUnavailable
                else dbind (dworld (\<lambda>w. ((), dw_sleep W delay w))) (\<lambda>_. start_loop n D W t ep q ?d)))"
    by (rule retry_timely[OF assms]) (use Suc.prems(1) again in auto)
  have amb: "timely W T (dcatch (resolve_ambiguous D W t ep q) (\<lambda>x. give_up ''recovery failed''))"
    by (rule steady_timely[OF steady_catch[OF steady_resolve[OF assms] steady_give_up]])
  have net: "timely W T (dbind (dget (dw_gateway_available W)) (\<lambda>up.
            if e = ConnectErr \<and> \<not> up
            then dbind (remaining W (dt_deadline_at t)) (\<lambda>left.
                if left \<le> delay then dfail GatewayUnavailable
                else dbind (dworld (\<lambda>w. ((), dw_sleep W delay w))) (\<lambda>_. start_loop n D W t ep q ?d))
            else dcatch (resolve_ambiguous D W t ep q) (\<lambda>x. give_up ''recovery failed'')))" for e
    by (rule timely_bind[OF steady_basic(4)]) (use retry amb in auto)
  have give: "timely W T (give_up m)" for m by (rule steady_timely[OF steady_give_up])
  have fail: "timely W T (dfail e)" if "e \<noteq> OutOfFuel" for e by (rule steady_timely[OF steady_basic(2)[OF that]])
  show ?case
    unfolding start_loop.simps
  proof (rule timely_catch[OF steady_started[OF assms]])
    fix e assume "e \<noteq> OutOfFuel"
    then show "timely W T (case e of
         StartRejected _ \<Rightarrow> dfail e
       | DeliveryErr m \<Rightarrow> give_up m
       | GatewayUnavailable \<Rightarrow> give_up ''gateway_unavailable''
       | StartOutcomeUnknown \<Rightarrow> give_up ''unknown''
       | AssemblyUnavailable \<Rightarrow> dfail e
       | OtherErr \<Rightarrow> dfail e
       | OutOfFuel \<Rightarrow> dfail e
       | _ \<Rightarrow>
          dbind (dget (dw_gateway_available W)) (\<lambda>up.
            if e = ConnectErr \<and> \<not> up
            then
              dbind (remaining W (dt_deadline_at t)) (\<lambda>left.
                if left \<le> delay then dfail GatewayUnavailable
                else
                  dbind (dworld (\<lambda>w. ((), dw_sleep W delay w))) (\<lambda>_.
                  start_loop n D W t ep q (min (delay * 2) (5 * second))))
            else dcatch (resolve_ambiguous D W t ep q) (\<lambda>x. give_up ''recovery failed'')))"
      using net[of e] fail[of e] give by (cases e) simp_all
  qed
qed simp

text \<open>
  C36. Delivery ends by its deadline. When the clock runs and sleeping takes as long as asked, \<open>start\<close>
  returns a receipt or raises: the retries while the gateway is down are at most one per half second
  left until the ticket's deadline, so fuel for that many is enough whatever the network does.
\<close>

theorem start_terminates:
  assumes "clock_runs W" "dw_clock W w = Some now" "0 < fuel" "dt_deadline_at t - now < int fuel * 500000"
  shows "fst (start fuel D W t (w, l)) \<noteq> Inl OutOfFuel"
proof -
  have loop: "timely W now (if \<not> matches_ticket D t q
              then dfail (DeliveryErr ''prepared StartRequest does not match immutable ticket/config'')
              else start_loop fuel D W t ep q (second div 2))" for ep q
    using loop_timely[OF assms(1) _ assms(3,4), of "second div 2" D ep q] steady_timely[OF steady_basic(2)]
    by (auto simp: second_def)
  have fail: "timely W now (dfail e)" if "e \<noteq> OutOfFuel" for e by (rule steady_timely[OF steady_basic(2)[OF that]])
  have "timely W now (start fuel D W t)"
    unfolding start_def
    by (cases "dt_namespace t \<noteq> dl_namespace D \<or> dt_agent_uid t \<noteq> dl_agent_uid D", simp_all only: if_True if_False)
      (intro fail timely_bind[OF steady_parts(1)[OF assms(1)]] timely_bind[OF steady_parts(4)[OF assms(1)]]
        timely_bind[OF steady_parts(2)[OF assms(1)]] timely_bind[OF steady_parts(5)[OF assms(1)]] loop timely_if delivery_error.distinct
        notI; simp)+
  then show ?thesis using assms(2) by (auto simp: timely_def)
qed

section \<open>A quiet world\<close>

definition demo_endpoint :: endpoint where "demo_endpoint = \<lparr>ep_name = ''ws'', ep_instance_id = ''i1''\<rparr>"

definition demo_receipt :: json where
  "demo_receipt = JObj [(''invocationId'', JStr ''i''), (''sessionRef'', JStr ''s''), (''runId'', JStr ''r''),
     (''configVersion'', JStr (sq_config_version example_start))]"

definition demo_world :: "int delivery_world" where
  "demo_world = \<lparr>dw_clock = Some, dw_gateway_available = (\<lambda>w. True), dw_wait_gateway = (\<lambda>d w. (True, w)),
     dw_ensure = (\<lambda>t d w. (Inr demo_endpoint, w)), dw_prepare = (\<lambda>t e d w. (Inr example_start, w)),
     dw_send = (\<lambda>e c d w. (Inr \<lparr>hr_instance_id = Some ''i1'', hr_status = 202, hr_chunks = [''ok''], hr_ending = None\<rparr>, w + 1)),
     dw_report_lost = (\<lambda>e w. w), dw_sleep = (\<lambda>d w. w + max d 0), dw_loads = (\<lambda>s. if s = ''ok'' then Some demo_receipt else None),
     dw_aware = (\<lambda>_. None), dw_show_time = (\<lambda>_. [])\<rparr>"

definition demo_delivery :: delivery where
  "demo_delivery = \<lparr>dl_namespace = ''n'', dl_agent_uid = ''u'', dl_config_version = sq_config_version example_start, dl_closed = False\<rparr>"

definition demo_ticket :: delivery_ticket where
  "demo_ticket = \<lparr>dt_namespace = ''n'', dt_agent_uid = ''u'', dt_invocation_id = ''i'', dt_workspace_ref = ''w'',
     dt_session_ref = ''s'', dt_deadline_at = 3\<rparr>"

definition demo_started :: started where
  "demo_started = \<lparr>sd_invocation_id = ''i'', sd_session_ref = ''s'', sd_run_id = ''r'', sd_config_version = sq_config_version example_start\<rparr>"

lemma demo_parse: "parse_started demo_receipt = Inr demo_started"
  by (simp add: parse_started_def demo_receipt_def demo_started_def parse_simps)

lemma demo_matches: "matches_ticket demo_delivery demo_ticket example_start"
  by (simp add: matches_ticket_def demo_delivery_def demo_ticket_def example_start_def)

text \<open>The first send times out; the record of the run is asked for and shown, and the same request is sent again.\<close>

definition demo_record :: run_status where
  "demo_record = \<lparr>rs_invocation_id = ''i'', rs_channel = ''c'', rs_workspace_ref = ''w'', rs_session_ref = ''s'', rs_run_id = Some ''r'',
     rs_config_version = sq_config_version example_start, rs_deadline_at = 3, rs_state = RunRunning, rs_error = None, rs_result = JNull\<rparr>"

definition demo_answer :: http_response where
  "demo_answer = \<lparr>hr_instance_id = Some ''i1'', hr_status = 200, hr_chunks = [''re'', ''c''], hr_ending = None\<rparr>"

definition slow_world :: "int delivery_world" where
  "slow_world = demo_world\<lparr>
     dw_send := (\<lambda>e c d w. (case c of GetStatus _ \<Rightarrow> Inr demo_answer
       | _ \<Rightarrow> if w = 0 then Inl HttpTimeout else Inr \<lparr>hr_instance_id = Some ''i1'', hr_status = 202, hr_chunks = [''ok''], hr_ending = None\<rparr>, w + 1)),
     dw_loads := (\<lambda>s. if s = ''ok'' then Some demo_receipt else if s = ''rec'' then Some (JObj (dump_run_status tick_time demo_record)) else None),
     dw_aware := tick_read\<rparr>"

lemma demo_record_read: "parse_run_status tick_read (JObj (dump_run_status tick_time demo_record)) = Inr demo_record"
  by (simp add: parse_run_status_def dump_run_status_def parse_simps dict_get_def demo_record_def run_states_def tick_read_def tick_time_def)

lemma slow_run:
  "start 1 demo_delivery slow_world demo_ticket (0, []) = (Inr demo_started, 3,
     [Sent ''i1'' (dump_start_request (\<lambda>_. []) example_start) False, Answered demo_answer, Sent ''i1'' (dump_start_request (\<lambda>_. []) example_start) False])"
proof -
  have s: "sq_invocation_id example_start = ''i''" "sq_session_ref example_start = ''s''" by (simp_all add: example_start_def)
  have m: "status_matches demo_record example_start" by (simp add: status_matches_def demo_record_def example_start_def)
  have t: "dt_namespace demo_ticket = dl_namespace demo_delivery" "dt_agent_uid demo_ticket = dl_agent_uid demo_delivery"
    "dt_deadline_at demo_ticket = 3" "dt_invocation_id demo_ticket = ''i''" "dl_closed demo_delivery = False"
    by (simp_all add: demo_ticket_def demo_delivery_def)
  show ?thesis
    by (simp add: t s m demo_matches demo_parse demo_record_read start_def dbind_def dcatch_def dret_def dfail_def dget_def dworld_def dcall_def dlog_def
        remaining_def await_gateway_def ensure_endpoint_def started_call_def request_def log_sent_def handle_response_def resolve_ambiguous_def
        parse_body_def max_response_bytes_def slow_world_def demo_world_def demo_endpoint_def demo_answer_def http_exc_def)
      (simp add: demo_started_def)
qed

theorem start_never_duplicates_witness:
  "\<exists>i q. monitor slow_world i q False
     [Sent ''i1'' (dump_start_request (\<lambda>_. []) example_start) False, Answered demo_answer, Sent ''i1'' (dump_start_request (\<lambda>_. []) example_start) False]
     \<and> sq_invocation_id q = dt_invocation_id demo_ticket \<and> sd_invocation_id demo_started = dt_invocation_id demo_ticket"
  using start_never_duplicates[OF slow_run] by blast

theorem start_terminates_witness: "fst (start 1 demo_delivery demo_world demo_ticket (0, [])) \<noteq> Inl OutOfFuel"
  by (rule start_terminates[where now = 0])
    (auto simp: clock_runs_def moves_to_def demo_world_def demo_ticket_def)

end
