(* ===== verification/Keys.thy ===== *)
theory Keys
  imports Prelude
begin

text \<open>
  \<open>harness/keys.py\<close>: the rotated credential of the control process. Times are seconds as rationals;
  \<open>None\<close> stands for the infinite \<open>_expires_at\<close> and \<open>_refresh_at\<close> of a static key and for the
  \<open>-inf\<close> of \<open>_obtained_at\<close>. The projected token, the HTTP client and \<open>float()\<close> of a decoded value are
  arguments; metrics and the log are not modelled.
\<close>

section \<open>The exchange\<close>

definition refresh_at :: rat where "refresh_at = 8 / 10"
definition min_backoff :: rat where "min_backoff = 1"
definition max_backoff :: rat where "max_backoff = 60"
definition rejected_code :: string where "rejected_code = ''expired_or_revoked''"
definition rejection_cooldown :: rat where "rejection_cooldown = 10"

datatype key_exc = ExchangeRefused string "rat option" | OtherKeyExc

record key_response =
  kr_status :: int
  kr_headers :: "(string \<times> string) list"
  kr_body :: "json option"

definition kr_header :: "key_response \<Rightarrow> string \<Rightarrow> string" where
  "kr_header r k = (case map_of (kr_headers r) k of None \<Rightarrow> [] | Some v \<Rightarrow> v)"

text \<open>\<open>str.isdigit\<close> on the characters that \<open>float\<close> then reads; the superscripts it also accepts make \<open>float\<close> raise.\<close>

definition retry_after :: "key_response \<Rightarrow> rat option" where
  "retry_after r =
     (if kr_status r \<noteq> 429 then None
      else let v = strip (kr_header r ''retry-after'') in
        if v \<noteq> [] \<and> list_all is_digit_09 v then Some (of_nat (digits_value v)) else None)"

definition error_code :: "key_response \<Rightarrow> string" where
  "error_code r =
     (case kr_body r of
        Some (JObj d) \<Rightarrow> (case map_of d ''error'' of
            Some (JObj e) \<Rightarrow> (case map_of e ''code'' of
                Some (JStr c) \<Rightarrow> if c = [] then ''http_'' @ int_str (kr_status r) else c
              | _ \<Rightarrow> ''http_'' @ int_str (kr_status r))
          | _ \<Rightarrow> ''http_'' @ int_str (kr_status r))
      | _ \<Rightarrow> ''http_'' @ int_str (kr_status r))"

definition exchange_result :: "(json \<Rightarrow> rat option) \<Rightarrow> key_response \<Rightarrow> (key_exc, string \<times> rat) result" where
  "exchange_result to_float r =
     (if kr_status r \<noteq> 200 then Inl (ExchangeRefused (error_code r) (retry_after r))
      else case kr_body r of
        Some (JObj d) \<Rightarrow>
          (case (map_of d ''token'', map_of d ''expires_in'') of
             (Some jwt, Some e) \<Rightarrow>
               (case (jwt, to_float e) of
                  (JStr j, Some x) \<Rightarrow> if j = [] \<or> x \<le> 0 then Inl (ExchangeRefused ''invalid_response'' None) else Inr (j, x)
                | _ \<Rightarrow> Inl (ExchangeRefused ''invalid_response'' None))
           | _ \<Rightarrow> Inl (ExchangeRefused ''invalid_response'' None))
      | _ \<Rightarrow> Inl (ExchangeRefused ''invalid_response'' None))"

section \<open>The key source\<close>

record key_source =
  ks_value :: string
  ks_exchange :: bool
  ks_expires_at :: "rat option"
  ks_refresh_at :: "rat option"
  ks_generation :: nat
  ks_attempts :: nat
  ks_obtained_at :: "rat option"
  ks_backoff :: rat

definition new_key_source :: "string \<Rightarrow> bool \<Rightarrow> key_source" where
  "new_key_source key0 exchange =
     \<lparr>ks_value = key0, ks_exchange = exchange, ks_expires_at = None, ks_refresh_at = None, ks_generation = 0,
      ks_attempts = 0, ks_obtained_at = None, ks_backoff = min_backoff\<rparr>"

definition ready :: "rat \<Rightarrow> key_source \<Rightarrow> bool" where
  "ready now s \<longleftrightarrow> ks_value s \<noteq> [] \<and> (case ks_expires_at s of None \<Rightarrow> True | Some t \<Rightarrow> now < t)"

text \<open>\<open>_renew\<close> with the outcome of the exchange and the clock after it.\<close>

definition renew :: "rat \<Rightarrow> (key_exc, string \<times> rat) result \<Rightarrow> key_source \<Rightarrow> (key_exc, unit) result \<times> key_source" where
  "renew now outcome s =
     (let s' = s\<lparr>ks_attempts := ks_attempts s + 1\<rparr> in
      case outcome of
        Inl e \<Rightarrow> (Inl e, s')
      | Inr (jwt, expires_in) \<Rightarrow>
          (Inr (), s'\<lparr>ks_value := jwt, ks_generation := ks_generation s' + 1, ks_obtained_at := Some now,
                      ks_backoff := min_backoff, ks_expires_at := Some (now + expires_in),
                      ks_refresh_at := Some (now + refresh_at * expires_in)\<rparr>))"

definition start_keys :: "rat \<Rightarrow> (key_exc, string \<times> rat) result \<Rightarrow> key_source \<Rightarrow> (key_exc, unit) result \<times> key_source" where
  "start_keys now outcome s = (if ks_exchange s then renew now outcome s else (Inr (), s))"

text \<open>The sleep after a failed refresh at \<open>now\<close>.\<close>

definition exc_retry_after :: "key_exc \<Rightarrow> rat option" where
  "exc_retry_after e = (case e of ExchangeRefused _ r \<Rightarrow> r | OtherKeyExc \<Rightarrow> None)"

definition wanted_delay :: "key_exc \<Rightarrow> key_source \<Rightarrow> rat" where
  "wanted_delay e s =
     min (case exc_retry_after e of Some r \<Rightarrow> if r = 0 then ks_backoff s else r | None \<Rightarrow> ks_backoff s) max_backoff"

definition failure_delay :: "rat \<Rightarrow> key_exc \<Rightarrow> key_source \<Rightarrow> rat" where
  "failure_delay now e s =
     (case ks_expires_at s of
        None \<Rightarrow> wanted_delay e s
      | Some t \<Rightarrow> let left = t - now in
          if left > 0 then min (wanted_delay e s) (max (left / 2) min_backoff) else wanted_delay e s)"

text \<open>
  One turn of \<open>_rotate\<close>: the time to sleep, and the source after it. The exchange starts at \<open>now\<close>
  and its failure is handled at \<open>later\<close>.
\<close>

definition rotate_turn :: "rat \<Rightarrow> rat \<Rightarrow> (key_exc, string \<times> rat) result \<Rightarrow> key_source \<Rightarrow> rat option \<times> key_source" where
  "rotate_turn now later outcome s =
     (case ks_refresh_at s of
        None \<Rightarrow> (None, s)
      | Some t \<Rightarrow>
          if t - now > 0 then (Some (t - now), s)
          else (case renew later outcome s of
             (Inr _, s') \<Rightarrow> (Some 0, s')
           | (Inl e, s') \<Rightarrow> (Some (failure_delay later e s'), s'\<lparr>ks_backoff := min (ks_backoff s' * 2) max_backoff\<rparr>)))"

text \<open>\<open>_reexchange\<close> when it gets the lock at \<open>now\<close>; the exchange ends at \<open>later\<close>. Failures are swallowed.\<close>

definition may_reexchange :: "rat \<Rightarrow> nat \<Rightarrow> nat \<Rightarrow> key_source \<Rightarrow> bool" where
  "may_reexchange now generation seen s \<longleftrightarrow>
     ks_generation s = generation \<and> ks_attempts s = seen
     \<and> (case ks_obtained_at s of None \<Rightarrow> True | Some t \<Rightarrow> \<not> now - t < rejection_cooldown)"

definition reexchange :: "rat \<Rightarrow> rat \<Rightarrow> nat \<Rightarrow> nat \<Rightarrow> (key_exc, string \<times> rat) result \<Rightarrow> key_source \<Rightarrow> key_source" where
  "reexchange now later generation seen outcome s =
     (if may_reexchange now generation seen s then snd (renew later outcome s) else s)"

section \<open>The key on requests\<close>

text \<open>
  \<open>KeyAuth.async_auth_flow\<close>: the keys of the requests sent. \<open>after\<close> is the source once the shared
  re-exchange is over, or the source as it is when there is none to wait for.
\<close>

definition rejected_by_ach :: "key_response \<Rightarrow> bool" where
  "rejected_by_ach r \<longleftrightarrow> kr_status r = 401 \<and> contains ''json'' (kr_header r ''content-type'') \<and> error_code r = rejected_code"

definition refresh_rejected :: "nat \<Rightarrow> key_source \<Rightarrow> key_source \<Rightarrow> bool" where
  "refresh_rejected generation s after \<longleftrightarrow> ks_exchange s \<and> ks_generation after \<noteq> generation"

definition auth_flow :: "key_source \<Rightarrow> key_response \<Rightarrow> key_source \<Rightarrow> string list" where
  "auth_flow s response after =
     ks_value s # (if rejected_by_ach response \<and> refresh_rejected (ks_generation s) s after then [ks_value after] else [])"

section \<open>The life of the source\<close>

text \<open>
  The lock serialises the exchanges, so the source moves by whole turns: a rotation turn or a
  re-exchange, at times that never go back. The state has the source and the clock.
\<close>

inductive key_step :: "key_source \<times> rat \<Rightarrow> key_source \<times> rat \<Rightarrow> bool" where
  rotate: "t \<le> now \<Longrightarrow> now \<le> later \<Longrightarrow> exchange_result to_float r = outcome \<or> outcome = Inl OtherKeyExc \<Longrightarrow>
     key_step (s, t) (snd (rotate_turn now later outcome s), later)"
| rejected: "t \<le> now \<Longrightarrow> now \<le> later \<Longrightarrow> exchange_result to_float r = outcome \<or> outcome = Inl OtherKeyExc \<Longrightarrow>
     key_step (s, t) (reexchange now later generation seen outcome s, later)"

inductive_cases key_stepE: "key_step (s, t) (s', t')"

inductive key_reachable :: "key_source \<times> rat \<Rightarrow> bool" where
  initial: "start_keys t outcome (new_key_source [] True) = (Inr (), s) \<Longrightarrow>
     exchange_result to_float r = outcome \<Longrightarrow> key_reachable (s, t)"
| step: "key_reachable st \<Longrightarrow> key_step st st' \<Longrightarrow> key_reachable st'"

definition keys_ok :: "key_source \<Rightarrow> rat \<Rightarrow> bool" where
  "keys_ok s t \<longleftrightarrow>
     ks_exchange s \<and> ks_value s \<noteq> [] \<and> 1 \<le> ks_backoff s \<and> ks_backoff s \<le> 60 \<and> 0 < ks_generation s
     \<and> ks_generation s \<le> ks_attempts s
     \<and> (\<exists>ob rf ex. ks_obtained_at s = Some ob \<and> ks_refresh_at s = Some rf \<and> ks_expires_at s = Some ex \<and> ob < rf \<and> rf < ex \<and> ob \<le> t)"

lemma exchange_ok: "exchange_result to_float r = Inr (jwt, x) \<Longrightarrow> jwt \<noteq> [] \<and> x > 0"
  by (auto simp: exchange_result_def split: if_splits option.splits json.splits)

lemma renew_ok:
  assumes "renew now outcome s = (Inr (), s')" "exchange_result to_float r = outcome \<or> outcome = Inl OtherKeyExc"
    "ks_exchange s" "ks_generation s \<le> ks_attempts s"
  shows "keys_ok s' now"
proof -
  obtain jwt x where oc: "outcome = Inr (jwt, x)" using assms(1) by (cases outcome) (auto simp: renew_def)
  then have "jwt \<noteq> []" "x > 0" using exchange_ok[of _ r jwt x] assms(2) by auto
  then show ?thesis using assms(1,3,4) oc by (auto simp: renew_def keys_ok_def Let_def min_backoff_def refresh_at_def)
qed

lemma renew_failed: "renew now outcome s = (Inl e, s') \<Longrightarrow> s' = s\<lparr>ks_attempts := ks_attempts s + 1\<rparr>"
  by (auto simp: renew_def Let_def split: sum.splits prod.splits)

lemma keys_ok_attempt: "keys_ok s t \<Longrightarrow> t \<le> t' \<Longrightarrow> keys_ok (s\<lparr>ks_attempts := ks_attempts s + 1\<rparr>) t'"
  by (auto simp: keys_ok_def)

lemma keys_ok_later: "keys_ok s t \<Longrightarrow> t \<le> t' \<Longrightarrow> keys_ok s t'"
  by (auto simp: keys_ok_def)

lemma rotate_ok:
  assumes "keys_ok s t" "t \<le> now" "now \<le> later" "exchange_result to_float r = outcome \<or> outcome = Inl OtherKeyExc"
  shows "keys_ok (snd (rotate_turn now later outcome s)) later"
proof -
  obtain res s' where ren: "renew later outcome s = (res, s')" by fastforce
  have "keys_ok s' later" if "res = Inr ()"
    using renew_ok[OF _ assms(4)] ren that assms(1) by (simp add: keys_ok_def)
  moreover have "keys_ok (s'\<lparr>ks_backoff := min (ks_backoff s' * 2) max_backoff\<rparr>) later" if "res = Inl e" for e
    using keys_ok_attempt[OF assms(1), of later] renew_failed[of later outcome s e s'] ren that assms(2,3)
    by (auto simp: keys_ok_def max_backoff_def)
  ultimately show ?thesis
    using ren keys_ok_later[OF assms(1), of later] assms(2,3)
    by (cases res) (auto simp: rotate_turn_def split: option.split)
qed

lemma reexchange_ok:
  assumes "keys_ok s t" "t \<le> now" "now \<le> later" "exchange_result to_float r = outcome \<or> outcome = Inl OtherKeyExc"
  shows "keys_ok (reexchange now later g seen outcome s) later"
proof -
  obtain res s' where ren: "renew later outcome s = (res, s')" by fastforce
  have "keys_ok s' later"
  proof (cases res)
    case (Inl e)
    then show ?thesis using renew_failed[of later outcome s e s'] ren keys_ok_attempt[OF assms(1), of later] assms(2,3) by simp
  next
    case (Inr u)
    then show ?thesis using renew_ok[OF _ assms(4)] ren assms(1) by (simp add: keys_ok_def)
  qed
  then show ?thesis using ren keys_ok_later[OF assms(1), of later] assms(2,3) by (simp add: reexchange_def)
qed

lemma reachable_keys_ok: "key_reachable (s, t) \<Longrightarrow> keys_ok s t"
proof (induction "(s, t)" arbitrary: s t rule: key_reachable.induct)
  case (initial t outcome s to_float r)
  then show ?case using renew_ok[of t outcome "new_key_source [] True" s] by (auto simp: start_keys_def new_key_source_def)
next
  case (step st s t)
  obtain s0 t0 where st: "st = (s0, t0)" by fastforce
  then have "keys_ok s0 t0" using step by blast
  then show ?case using step(3) unfolding st by (auto elim!: key_stepE intro: rotate_ok reexchange_ok)
qed

lemma exc_retry_ok: "exchange_result to_float r = Inl e \<Longrightarrow> exc_retry_after e = Some x \<Longrightarrow> x = 0 \<or> 1 \<le> x"
proof -
  assume a: "exchange_result to_float r = Inl e" "exc_retry_after e = Some x"
  then have "retry_after r = Some x"
    by (auto simp: exchange_result_def exc_retry_after_def split: if_splits option.splits json.splits)
  then show "x = 0 \<or> 1 \<le> x" by (auto simp: retry_after_def Let_def split: if_splits)
qed

definition granted :: key_response where
  "granted = \<lparr>kr_status = 200, kr_headers = [], kr_body = Some (JObj [(''token'', JStr ''k1''), (''expires_in'', JInt 100)])\<rparr>"

definition int_float :: "json \<Rightarrow> rat option" where
  "int_float j = (case j of JInt i \<Rightarrow> Some (of_int i) | _ \<Rightarrow> None)"

definition granted_source :: key_source where
  "granted_source = \<lparr>ks_value = ''k1'', ks_exchange = True, ks_expires_at = Some 100, ks_refresh_at = Some 80,
     ks_generation = 1, ks_attempts = 1, ks_obtained_at = Some 0, ks_backoff = 1\<rparr>"

lemma json_content: "contains ''json'' ''application/json''"
  unfolding contains_iff by (rule exI[of _ "''application/''"], rule exI[of _ "[]"]) simp

lemma granted_reachable: "key_reachable (granted_source, 0)"
  by (rule initial[of 0 "exchange_result int_float granted" _ int_float granted])
     (simp_all add: start_keys_def renew_def new_key_source_def exchange_result_def granted_def int_float_def granted_source_def
      min_backoff_def refresh_at_def)

text \<open>
  The credential is rotated in time. In every reachable state of an exchanged key the source holds
  a nonempty credential whose refresh comes strictly before its expiry; a refresh that fails waits at
  least one second and at most sixty before the next one, and while more than a second of the current
  credential is left it waits less than what is left, so another attempt comes before it expires.
\<close>

theorem rotation_before_expiry:
  assumes "key_reachable (s, t)" "t \<le> now" "exchange_result to_float r = Inl e \<or> e = OtherKeyExc"
  shows "ks_value s \<noteq> [] \<and> (\<exists>rf ex. ks_refresh_at s = Some rf \<and> ks_expires_at s = Some ex \<and> rf < ex
    \<and> 1 \<le> failure_delay now e s \<and> failure_delay now e s \<le> 60 \<and> (ex - now > 1 \<longrightarrow> now + failure_delay now e s < ex))"
proof -
  have k: "keys_ok s t" using reachable_keys_ok[OF assms(1)] .
  then obtain rf ex where x: "ks_refresh_at s = Some rf" "ks_expires_at s = Some ex" "rf < ex" by (auto simp: keys_ok_def)
  have "1 \<le> wanted_delay e s \<and> wanted_delay e s \<le> 60"
    using k exc_retry_ok[of to_float r e] assms(3)
    by (auto simp: wanted_delay_def keys_ok_def max_backoff_def exc_retry_after_def split: option.split key_exc.splits)
  then have "1 \<le> failure_delay now e s \<and> failure_delay now e s \<le> 60 \<and> (ex - now > 1 \<longrightarrow> now + failure_delay now e s < ex)"
    using x by (auto simp: failure_delay_def Let_def min_backoff_def max_def min_def field_simps)
  then show ?thesis using x k by (auto simp: keys_ok_def)
qed

theorem rotation_before_expiry_witness:
  "1 \<le> failure_delay 98 OtherKeyExc granted_source \<and> 98 + failure_delay 98 OtherKeyExc granted_source < 100"
  using rotation_before_expiry[OF granted_reachable, of 98 int_float granted OtherKeyExc] by (simp add: granted_source_def)

text \<open>
  A rejected key is retried once and never blindly. A request is sent at most twice; the second time
  only when the answer was ACH's own 401 rejection and a newer credential is there. From any reachable
  state a re-exchange runs only if no other attempt finished meanwhile and the credential is at least
  the cooldown old, and it replaces the credential at most once.
\<close>

theorem rejected_key_retried_once:
  assumes "key_reachable (s, t)" "t \<le> now" "now \<le> later" "exchange_result to_float r = outcome"
  shows "length (auth_flow s response (reexchange now later (ks_generation s) seen outcome s)) \<le> 2
    \<and> (length (auth_flow s response (reexchange now later (ks_generation s) seen outcome s)) = 2 \<longrightarrow>
         kr_status response = 401 \<and> error_code response = ''expired_or_revoked'' \<and> seen = ks_attempts s
         \<and> (\<exists>ob. ks_obtained_at s = Some ob \<and> now - ob \<ge> 10)
         \<and> ks_generation (reexchange now later (ks_generation s) seen outcome s) = ks_generation s + 1)"
  using reachable_keys_ok[OF assms(1)]
  by (auto simp: auth_flow_def refresh_rejected_def reexchange_def may_reexchange_def renew_def Let_def rejected_by_ach_def
      rejected_code_def rejection_cooldown_def keys_ok_def split: sum.splits prod.splits if_splits)

theorem rejected_key_retried_once_witness:
  "length (auth_flow granted_source \<lparr>kr_status = 401, kr_headers = [(''content-type'', ''application/json'')],
       kr_body = Some (JObj [(''error'', JObj [(''code'', JStr ''expired_or_revoked'')])])\<rparr>
     (reexchange 20 21 1 1 (exchange_result int_float granted) granted_source)) = 2
   \<and> ks_generation (reexchange 20 21 1 1 (exchange_result int_float granted) granted_source) = 2"
  using rejected_key_retried_once[OF granted_reachable, of 20 21 int_float granted "exchange_result int_float granted"
      "\<lparr>kr_status = 401, kr_headers = [(''content-type'', ''application/json'')],
       kr_body = Some (JObj [(''error'', JObj [(''code'', JStr ''expired_or_revoked'')])])\<rparr>" 1]
  by (simp add: auth_flow_def refresh_rejected_def reexchange_def may_reexchange_def renew_def rejected_by_ach_def
      rejected_code_def rejection_cooldown_def granted_source_def exchange_result_def granted_def int_float_def
      kr_header_def error_code_def json_content)

end
