(* ===== verification/Workspaces.thy ===== *)
theory Workspaces
  imports S3_Storage
begin

text \<open>
  \<open>harness/workspaces.py\<close>: the \<open>WorkspaceManager\<close> over a \<open>WorkspaceSource\<close>.

  Every coroutine of the manager is cut at its awaits into handlers, one per segment that runs
  without interruption; what an awaited call answered is an argument of the next handler. The
  tasks of a Workspace reference are a list in the order of their lock: the head holds the lock,
  the others wait. The name of a unit is a function of its reference (\<open>workspace_name\<close>), so units are
  identified by the reference. Times are seconds, logs and metrics are left out, and so is the
  cancellation of the tasks themselves, which only happens when the process stops.
\<close>

section \<open>Data\<close>

record ws_ref =
  wr_namespace :: string
  wr_agent_uid :: string
  wr_ref :: string

record placement =
  pl_name :: string
  pl_base_url :: string
  pl_registration :: nat

record ws_endpoint =
  we_ref :: ws_ref
  we_name :: string
  we_instance_id :: string
  we_base_url :: string

datatype ws_exc =
    WsAssemblyUnavailable
  | WsReleaseMismatch string
  | WsConflict
  | WsUnhosted
  | WsInstanceMismatch
  | WsRetireTimeout nat
  | WsCapacityExceeded
  | WsBadRef
  | WsTransientFailure
  | WsOther string

definition canonical_ws_ref :: "ws_ref \<Rightarrow> (ws_exc, unit) result" where
  "canonical_ws_ref r =
     require (wr_namespace r \<noteq> [] \<and> canonical_uuid (wr_agent_uid r) \<and> hex64 (wr_ref r)) WsBadRef"

text \<open>The coroutines that run under the lock of a reference, and where each stands.\<close>

datatype job =
    Activate "rat option"
  | Close "ws_endpoint option"
  | Recover string
  | Retire
  | Adopt placement bool

datatype after_retire = RaiseAfter ws_exc | CloseDone | RecoverNext | RetireDone

datatype phase =
    Waiting
  | Placing rat
  | Probing placement
  | Restoring placement ws_endpoint
  | Reconnecting placement ws_endpoint
  | Committing ws_endpoint
  | Retiring after_retire
  | AdoptGateway placement
  | AdoptProbing placement
  | AdoptReconnecting placement ws_endpoint
  | AdoptSettling

record task =
  tk_job :: job
  tk_phase :: phase

datatype adoption = NotStarted | Listing | Adopting | Adopted

record mgr =
  mg_agent :: agent_identity
  mg_s3 :: bool
  mg_ready_timeout :: rat
  mg_has_restore :: bool
  mg_has_commit :: bool
  mg_has_health :: bool
  mg_capacity :: nat
  mg_occupied :: "string set"
  mg_active :: "string \<rightharpoonup> ws_endpoint"
  mg_queue :: "string \<Rightarrow> task list"
  mg_errors :: "string \<rightharpoonup> ws_exc"
  mg_adoption :: adoption
  mg_lost :: "string set"
  mg_late :: "(string \<times> nat) set"
  mg_fresh :: nat
  mg_alarms :: "(string \<times> string) list"

definition new_manager ::
  "agent_identity \<Rightarrow> bool \<Rightarrow> rat \<Rightarrow> nat \<Rightarrow> bool \<Rightarrow> bool \<Rightarrow> bool \<Rightarrow> bool \<Rightarrow> (ws_exc, mgr) result" where
  "new_manager agent s3 ready_timeout capacity has_restore has_commit has_reconnect has_health =
     (if \<not> has_reconnect then Inl WsAssemblyUnavailable
      else if s3 \<and> (\<not> has_restore \<or> \<not> has_commit) then Inl WsAssemblyUnavailable
      else Inr \<lparr>mg_agent = agent, mg_s3 = s3, mg_ready_timeout = ready_timeout, mg_has_restore = has_restore,
        mg_has_commit = has_commit, mg_has_health = has_health, mg_capacity = capacity, mg_occupied = {},
        mg_active = Map.empty, mg_queue = (\<lambda>_. []), mg_errors = Map.empty, mg_adoption = NotStarted,
        mg_lost = {}, mg_late = {}, mg_fresh = 0, mg_alarms = []\<rparr>)"

definition bind_callbacks :: "bool \<Rightarrow> bool \<Rightarrow> bool \<Rightarrow> mgr \<Rightarrow> mgr" where
  "bind_callbacks restoring committing probing s =
     s\<lparr>mg_has_restore := restoring \<or> mg_has_restore s, mg_has_commit := committing \<or> mg_has_commit s,
       mg_has_health := probing \<or> mg_has_health s\<rparr>"

definition validate_ref :: "ws_ref \<Rightarrow> mgr \<Rightarrow> bool" where
  "validate_ref r s \<longleftrightarrow> wr_namespace r = ai_namespace (mg_agent s) \<and> wr_agent_uid r = ai_uid (mg_agent s)"

definition is_lost :: "string \<Rightarrow> mgr \<Rightarrow> bool" where
  "is_lost i s \<longleftrightarrow> i \<in> mg_lost s"

section \<open>Slots\<close>

definition has_slot :: "string \<Rightarrow> mgr \<Rightarrow> bool" where
  "has_slot k s \<longleftrightarrow> k \<in> mg_occupied s \<or> card (mg_occupied s) < mg_capacity s"

definition reserve :: "string \<Rightarrow> mgr \<Rightarrow> (ws_exc, mgr) result" where
  "reserve k s =
     (if k \<in> mg_occupied s then Inr s
      else if \<not> has_slot k s then Inl WsCapacityExceeded
      else Inr (s\<lparr>mg_occupied := insert k (mg_occupied s)\<rparr>))"

definition release :: "string \<Rightarrow> mgr \<Rightarrow> mgr" where
  "release k s = s\<lparr>mg_occupied := mg_occupied s - {k}, mg_errors := (mg_errors s)(k := None)\<rparr>"

text \<open>The wait for a slot fails at once when no time is left.\<close>

definition slot_wait :: "rat \<Rightarrow> rat option \<Rightarrow> (ws_exc, rat) result" where
  "slot_wait now deadline_at =
     (let left = (case deadline_at of None \<Rightarrow> 0 | Some d \<Rightarrow> d - now) in
      if left \<le> 0 then Inl WsCapacityExceeded else Inr left)"

definition startup_deadline :: "rat \<Rightarrow> rat \<Rightarrow> rat option \<Rightarrow> mgr \<Rightarrow> rat" where
  "startup_deadline now monotonic deadline_at s =
     monotonic + (case deadline_at of None \<Rightarrow> mg_ready_timeout s
                  | Some d \<Rightarrow> max 0 (min (mg_ready_timeout s) (d - now)))"

section \<open>Tasks of a reference\<close>

fun same_kind :: "job \<Rightarrow> job \<Rightarrow> bool" where
  "same_kind (Activate _) (Activate _) = True"
| "same_kind (Close _) (Close _) = True"
| "same_kind (Recover _) (Recover _) = True"
| "same_kind Retire Retire = True"
| "same_kind (Adopt _ _) (Adopt _ _) = True"
| "same_kind _ _ = False"

definition pending :: "job \<Rightarrow> task list \<Rightarrow> bool" where
  "pending j q \<longleftrightarrow> (\<exists>t \<in> set q. same_kind (tk_job t) j)"

definition enqueue_job :: "string \<Rightarrow> job \<Rightarrow> mgr \<Rightarrow> mgr" where
  "enqueue_job k j s = s\<lparr>mg_queue := (mg_queue s)(k := mg_queue s k @ [\<lparr>tk_job = j, tk_phase = Waiting\<rparr>])\<rparr>"

definition run_job :: "string \<Rightarrow> job \<Rightarrow> mgr \<Rightarrow> mgr" where
  "run_job k j s = (if pending j (mg_queue s k) then s else enqueue_job k j s)"

definition finish_task :: "string \<Rightarrow> mgr \<Rightarrow> mgr" where
  "finish_task k s = s\<lparr>mg_queue := (mg_queue s)(k := tl (mg_queue s k))\<rparr>"

definition set_phase :: "string \<Rightarrow> phase \<Rightarrow> mgr \<Rightarrow> mgr" where
  "set_phase k p s = (case mg_queue s k of [] \<Rightarrow> s
     | t # ts \<Rightarrow> s\<lparr>mg_queue := (mg_queue s)(k := t\<lparr>tk_phase := p\<rparr> # ts)\<rparr>)"

definition publish_endpoint :: "string \<Rightarrow> ws_endpoint \<Rightarrow> mgr \<Rightarrow> mgr" where
  "publish_endpoint k ep s = s\<lparr>mg_active := (mg_active s)(k \<mapsto> ep)\<rparr>"

definition unpublish :: "string \<Rightarrow> mgr \<Rightarrow> mgr" where
  "unpublish k s = s\<lparr>mg_active := (mg_active s)(k := None)\<rparr>"

definition retain_error :: "string \<Rightarrow> ws_exc \<Rightarrow> mgr \<Rightarrow> mgr" where
  "retain_error k e s = s\<lparr>mg_errors := (mg_errors s)(k \<mapsto> e)\<rparr>"

definition lose_unit :: "string \<Rightarrow> string \<Rightarrow> mgr \<Rightarrow> mgr" where
  "lose_unit k i s = s\<lparr>mg_lost := insert i (mg_lost s), mg_alarms := mg_alarms s @ [(''pod_unhealthy'', k)]\<rparr>"

section \<open>Callers\<close>

text \<open>One turn of the delivery loop of \<open>ensure\<close>: what it waits for, raises or returns.\<close>

datatype ensure_turn =
    AwaitLifecycle
  | EnsureRaise ws_exc
  | AwaitAdoption
  | Deliver ws_endpoint
  | AwaitSlot rat
  | AwaitActivation

definition lifecycle_pending :: "task list \<Rightarrow> bool" where
  "lifecycle_pending q \<longleftrightarrow> (\<exists>t \<in> set q. \<not> same_kind (tk_job t) (Activate None))"

definition start_adoption :: "mgr \<Rightarrow> mgr" where
  "start_adoption s = (if mg_adoption s = NotStarted then s\<lparr>mg_adoption := Listing\<rparr> else s)"

definition ensure :: "rat \<Rightarrow> ws_ref \<Rightarrow> rat option \<Rightarrow> mgr \<Rightarrow> ensure_turn \<times> mgr" where
  "ensure now r deadline_at s =
     (let k = wr_ref r in
      if \<not> validate_ref r s then (EnsureRaise WsBadRef, s)
      else if lifecycle_pending (mg_queue s k) then (AwaitLifecycle, s)
      else case mg_errors s k of
        Some e \<Rightarrow> (EnsureRaise e, s)
      | None \<Rightarrow>
          if mg_adoption s \<noteq> Adopted then (AwaitAdoption, start_adoption s)
          else case mg_active s k of
            Some ep \<Rightarrow> (Deliver ep, s)
          | None \<Rightarrow>
              if \<not> has_slot k s
              then (case slot_wait now deadline_at of Inl e \<Rightarrow> (EnsureRaise e, s) | Inr left \<Rightarrow> (AwaitSlot left, s))
              else case reserve k s of
                Inl e \<Rightarrow> (EnsureRaise e, s)
              | Inr s' \<Rightarrow> (AwaitActivation, run_job k (Activate deadline_at) s'))"

definition close :: "ws_ref \<Rightarrow> mgr \<Rightarrow> (ws_exc, unit) result \<times> mgr" where
  "close r s =
     (let k = wr_ref r in
      if \<not> validate_ref r s then (Inl WsBadRef, s)
      else if k \<notin> mg_occupied s then (Inr (), s)
      else (Inr (), run_job k (Close (mg_active s k)) (unpublish k s)))"

definition recover :: "ws_ref \<Rightarrow> string \<Rightarrow> mgr \<Rightarrow> (ws_exc, unit) result \<times> mgr" where
  "recover r lost s =
     (if \<not> validate_ref r s then (Inl WsBadRef, s) else (Inr (), run_job (wr_ref r) (Recover lost) s))"

definition report_lost :: "ws_endpoint \<Rightarrow> mgr \<Rightarrow> mgr" where
  "report_lost ep s = snd (recover (we_ref ep) (we_instance_id ep) s)"

text \<open>\<open>_source_lost\<close>, given the published endpoint of that unit name, if any.\<close>

definition source_lost :: "ws_endpoint option \<Rightarrow> string option \<Rightarrow> mgr \<Rightarrow> mgr" where
  "source_lost named i s = (case named of
     Some ep \<Rightarrow> if Some (we_instance_id ep) = i then report_lost ep s else s | None \<Rightarrow> s)"

section \<open>Activation\<close>

definition endpoint_of :: "string \<Rightarrow> placement \<Rightarrow> string \<Rightarrow> mgr \<Rightarrow> ws_endpoint" where
  "endpoint_of k pl i s =
     \<lparr>we_ref = \<lparr>wr_namespace = ai_namespace (mg_agent s), wr_agent_uid = ai_uid (mg_agent s), wr_ref = k\<rparr>,
      we_name = pl_name pl, we_instance_id = i, we_base_url = pl_base_url pl\<rparr>"

definition begin_activate :: "rat \<Rightarrow> rat \<Rightarrow> string \<Rightarrow> rat option \<Rightarrow> mgr \<Rightarrow> mgr" where
  "begin_activate now monotonic k deadline_at s =
     (case mg_errors s k of Some _ \<Rightarrow> finish_task k s
      | None \<Rightarrow> (case mg_active s k of Some _ \<Rightarrow> finish_task k s
         | None \<Rightarrow> (case reserve k s of
             Inl _ \<Rightarrow> finish_task k s
           | Inr s' \<Rightarrow> set_phase k (Placing (startup_deadline now monotonic deadline_at s)) s')))"

text \<open>\<open>place\<close> answered; only the errors that prove that the source holds nothing free the slot.\<close>

definition holds_nothing :: "ws_exc \<Rightarrow> bool" where
  "holds_nothing e = (case e of WsUnhosted \<Rightarrow> True | WsAssemblyUnavailable \<Rightarrow> True | WsReleaseMismatch _ \<Rightarrow> True | _ \<Rightarrow> False)"

definition place_done :: "string \<Rightarrow> (ws_exc, placement) result \<Rightarrow> mgr \<Rightarrow> mgr" where
  "place_done k r s =
     (case r of
        Inr pl \<Rightarrow> set_phase k (Probing pl) s
      | Inl e \<Rightarrow> finish_task k (if holds_nothing e then release k s else s))"

definition fail_start :: "string \<Rightarrow> ws_exc \<Rightarrow> mgr \<Rightarrow> mgr" where
  "fail_start k e = set_phase k (Retiring (RaiseAfter e))"

text \<open>The health callback is what \<open>_probe\<close> needs; \<open>observed\<close> is the source's answer once the probe is in.\<close>

definition probed :: "mgr \<Rightarrow> (ws_exc, string) result \<Rightarrow> (ws_exc, string) result" where
  "probed s r = (if mg_has_health s then r else Inl WsAssemblyUnavailable)"

definition after_probe :: "string \<Rightarrow> placement \<Rightarrow> string \<Rightarrow> bool \<Rightarrow> mgr \<Rightarrow> mgr" where
  "after_probe k pl i observed s =
     (let ep = endpoint_of k pl i s in
      if \<not> observed then fail_start k WsConflict s
      else if mg_has_restore s then set_phase k (Restoring pl ep) s
      else set_phase k (Reconnecting pl ep) s)"

definition probe_done :: "string \<Rightarrow> placement \<Rightarrow> (ws_exc, string) result \<Rightarrow> bool \<Rightarrow> mgr \<Rightarrow> mgr" where
  "probe_done k pl r observed s =
     (case probed s r of
        Inr i \<Rightarrow> after_probe k pl i observed s
      | Inl (WsReleaseMismatch i) \<Rightarrow> after_probe k pl i observed s
      | Inl e \<Rightarrow> fail_start k e s)"

definition restore_done :: "string \<Rightarrow> placement \<Rightarrow> ws_endpoint \<Rightarrow> (ws_exc, unit) result \<Rightarrow> mgr \<Rightarrow> mgr" where
  "restore_done k pl ep r s = (case r of Inl e \<Rightarrow> fail_start k e s | Inr _ \<Rightarrow> set_phase k (Reconnecting pl ep) s)"

definition reconnect_done :: "string \<Rightarrow> ws_endpoint \<Rightarrow> (ws_exc, unit) result \<Rightarrow> bool \<Rightarrow> mgr \<Rightarrow> mgr" where
  "reconnect_done k ep r serving s =
     (case r of Inl e \<Rightarrow> fail_start k e s
      | Inr _ \<Rightarrow> if \<not> serving then fail_start k WsConflict s else finish_task k (publish_endpoint k ep s))"

section \<open>Retiring\<close>

text \<open>
  The retire ended in time; or the source raised: the slot stays held, nothing is retained and the error
  goes to the caller; or the wait for it ended first.
\<close>

definition retired :: "rat \<Rightarrow> rat \<Rightarrow> string \<Rightarrow> after_retire \<Rightarrow> mgr \<Rightarrow> mgr" where
  "retired now monotonic k a s =
     (let s' = release k s in
      case a of
        RecoverNext \<Rightarrow> (case reserve k s' of
            Inl _ \<Rightarrow> finish_task k s'
          | Inr s2 \<Rightarrow> set_phase k (Placing (startup_deadline now monotonic None s2)) s2)
      | _ \<Rightarrow> finish_task k s')"

definition retire_raised :: "string \<Rightarrow> mgr \<Rightarrow> mgr" where
  "retire_raised k s = finish_task k s"

definition retire_timeout :: "string \<Rightarrow> mgr \<Rightarrow> mgr" where
  "retire_timeout k s =
     finish_task k (retain_error k (WsRetireTimeout (mg_fresh s))
       (s\<lparr>mg_alarms := mg_alarms s @ [(''workspace_retire_timeout'', k)], mg_late := insert (k, mg_fresh s) (mg_late s),
          mg_fresh := mg_fresh s + 1\<rparr>))"

text \<open>
  The retire that outlived its wait is over: the source confirmed it, raised, or was cancelled. Only a
  cancelled one keeps the slot.
\<close>

datatype late_end = LateConfirmed | LateRaised | LateCancelled

definition retired_late :: "string \<Rightarrow> nat \<Rightarrow> late_end \<Rightarrow> mgr \<Rightarrow> mgr" where
  "retired_late k i how s =
     (let s' = s\<lparr>mg_late := mg_late s - {(k, i)}\<rparr> in
      if how = LateCancelled \<or> mg_errors s k \<noteq> Some (WsRetireTimeout i) then s' else release k s')"

section \<open>Close\<close>

definition validate_receipt :: "string \<Rightarrow> persist_receipt option \<Rightarrow> mgr \<Rightarrow> (ws_exc, unit) result" where
  "validate_receipt k receipt s =
     (case receipt of
        None \<Rightarrow> if mg_s3 s then Inl WsAssemblyUnavailable else Inr ()
      | Some p \<Rightarrow>
          let r = pr_ref p in
          if sr_domain r \<noteq> DomainWorkspace \<or> sr_workspace_ref r \<noteq> k \<or> sr_session_ref r \<noteq> None
            \<or> ai_name (sr_agent r) \<noteq> ai_name (mg_agent s) \<or> ai_namespace (sr_agent r) \<noteq> ai_namespace (mg_agent s)
            \<or> ai_uid (sr_agent r) \<noteq> ai_uid (mg_agent s)
          then Inl WsAssemblyUnavailable else Inr ())"

definition commit_done :: "string \<Rightarrow> ws_endpoint \<Rightarrow> (ws_exc, persist_receipt option) result \<Rightarrow> mgr \<Rightarrow> mgr" where
  "commit_done k ep r s =
     (case (case r of Inl e \<Rightarrow> Inl e | Inr receipt \<Rightarrow> validate_receipt k receipt s) of
        Inr _ \<Rightarrow> set_phase k (Retiring CloseDone) s
      | Inl WsInstanceMismatch \<Rightarrow> set_phase k (Retiring CloseDone) (lose_unit k (we_instance_id ep) s)
      | Inl WsTransientFailure \<Rightarrow> finish_task k (retain_error k WsTransientFailure (publish_endpoint k ep s))
      | Inl e \<Rightarrow> finish_task k (retain_error k e s))"

definition begin_close :: "string \<Rightarrow> ws_endpoint option \<Rightarrow> mgr \<Rightarrow> mgr" where
  "begin_close k unpublished s =
     (let s' = unpublish k s in
      case (case mg_active s k of Some ep \<Rightarrow> Some ep | None \<Rightarrow> unpublished) of
        None \<Rightarrow> finish_task k s'
      | Some ep \<Rightarrow>
          if k \<notin> mg_occupied s then finish_task k s'
          else if mg_has_commit s then set_phase k (Committing ep) s'
          else commit_done k ep (Inr None) s')"

section \<open>Recovery\<close>

definition begin_recover :: "string \<Rightarrow> string \<Rightarrow> mgr \<Rightarrow> mgr" where
  "begin_recover k lost s =
     (case mg_active s k of
        None \<Rightarrow> finish_task k s
      | Some ep \<Rightarrow>
          if we_instance_id ep \<noteq> lost then finish_task k s
          else set_phase k (Retiring RecoverNext) (lose_unit k lost (unpublish k s)))"

section \<open>Adoption\<close>

text \<open>The inventory is in: every unit holds a slot, whatever the capacity, and is adopted by a task of its own.\<close>

definition adoption_listed :: "(string \<times> placement) list \<Rightarrow> mgr \<Rightarrow> mgr" where
  "adoption_listed units s =
     fold (\<lambda>(k, pl). run_job k (Adopt pl False)) units
       (s\<lparr>mg_occupied := mg_occupied s \<union> fst ` set units, mg_adoption := Adopting\<rparr>)"

text \<open>The first attempts are over; the deferred ones go on by themselves.\<close>

definition first_attempt :: "task \<Rightarrow> bool" where
  "first_attempt t = (case tk_job t of Adopt _ deferred \<Rightarrow> \<not> deferred | _ \<Rightarrow> False)"

definition adoption_settled :: "mgr \<Rightarrow> mgr" where
  "adoption_settled s = s\<lparr>mg_adoption := Adopted\<rparr>"

definition begin_adopt :: "string \<Rightarrow> placement \<Rightarrow> bool \<Rightarrow> mgr \<Rightarrow> mgr" where
  "begin_adopt k pl deferred s = set_phase k (if deferred then AdoptGateway pl else AdoptProbing pl) s"

definition adopt_failed :: "string \<Rightarrow> placement \<Rightarrow> bool \<Rightarrow> mgr \<Rightarrow> mgr" where
  "adopt_failed k pl gateway s =
     (if \<not> gateway then enqueue_job k (Adopt pl True) (finish_task k s) else set_phase k AdoptSettling s)"

definition adopt_probe_done :: "string \<Rightarrow> placement \<Rightarrow> (ws_exc, string) result \<Rightarrow> bool \<Rightarrow> bool \<Rightarrow> mgr \<Rightarrow> mgr" where
  "adopt_probe_done k pl r observed gateway s =
     (case probed s r of
        Inl _ \<Rightarrow> adopt_failed k pl gateway s
      | Inr i \<Rightarrow> if \<not> observed then adopt_failed k pl gateway s
                else set_phase k (AdoptReconnecting pl (endpoint_of k pl i s)) s)"

definition adopt_reconnect_done ::
  "string \<Rightarrow> placement \<Rightarrow> ws_endpoint \<Rightarrow> (ws_exc, unit) result \<Rightarrow> bool \<Rightarrow> bool \<Rightarrow> mgr \<Rightarrow> mgr" where
  "adopt_reconnect_done k pl ep r serving gateway s =
     (case r of
        Inl _ \<Rightarrow> adopt_failed k pl gateway s
      | Inr _ \<Rightarrow> if \<not> serving then adopt_failed k pl gateway s else finish_task k (publish_endpoint k ep s))"

definition adopt_settle :: "string \<Rightarrow> mgr \<Rightarrow> mgr" where
  "adopt_settle k s = finish_task k (run_job k Retire s)"

text \<open>The head of the tasks of \<open>k\<close> gets the lock.\<close>

definition begin_task :: "rat \<Rightarrow> rat \<Rightarrow> string \<Rightarrow> job \<Rightarrow> mgr \<Rightarrow> mgr" where
  "begin_task now monotonic k j s =
     (case j of
        Activate d \<Rightarrow> begin_activate now monotonic k d s
      | Close u \<Rightarrow> begin_close k u s
      | Recover i \<Rightarrow> begin_recover k i s
      | Retire \<Rightarrow> set_phase k (Retiring RetireDone) s
      | Adopt pl deferred \<Rightarrow> begin_adopt k pl deferred s)"

end
