(* ===== verification/Workspaces_Safety.thy ===== *)
theory Workspaces_Safety
  imports Workspaces
begin

text \<open>
  The runs of the Workspace manager: its handlers in any order, with the units that the source has
  handed out and has not confirmed gone, among them those in doubt, whose retire the source answered
  with an error. The invariant is stated per reference, over a view of what the manager holds of it
  and of whether it has a unit out that is not in doubt.
\<close>

section \<open>Runs\<close>

record mstate =
  ms_mgr :: mgr
  ms_units :: "string set"
  ms_adopted :: nat

definition mstate :: "mgr \<Rightarrow> string set \<Rightarrow> nat \<Rightarrow> mstate" where
  "mstate s u n = \<lparr>ms_mgr = s, ms_units = u, ms_adopted = n\<rparr>"

definition at_phase :: "string \<Rightarrow> phase \<Rightarrow> mgr \<Rightarrow> bool" where
  "at_phase k p s = (case mg_queue s k of [] \<Rightarrow> False | t # _ \<Rightarrow> tk_phase t = p)"

text \<open>
  A state of a run: the manager, the units out that are not in doubt, the number of units found at
  startup; and the units in doubt.
\<close>

inductive mstep :: "mstate \<times> string set \<Rightarrow> mstate \<times> string set \<Rightarrow> bool" where
  ensure: "mstep (mstate s u n, x) (mstate (snd (ensure now r d s)) u n, x)"
| close: "\<not> pending (Close None) (mg_queue s (wr_ref r)) \<Longrightarrow> mstep (mstate s u n, x) (mstate (snd (close r s)) u n, x)"
| recover: "mstep (mstate s u n, x) (mstate (snd (recover r lost s)) u n, x)"
| begin_task: "mg_queue s k = t # ts \<Longrightarrow> tk_phase t = Waiting \<Longrightarrow>
     mstep (mstate s u n, x) (mstate (begin_task now monotonic k (tk_job t) s) u n, x)"
| place_done: "at_phase k (Placing d) s \<Longrightarrow>
     mstep (mstate s u n, x) (mstate (place_done k r s) (case r of Inl _ \<Rightarrow> u | Inr _ \<Rightarrow> insert k u) n, x)"
| probe_done: "at_phase k (Probing pl) s \<Longrightarrow> mstep (mstate s u n, x) (mstate (probe_done k pl pr observed s) u n, x)"
| restore_done: "at_phase k (Restoring pl ep) s \<Longrightarrow> mstep (mstate s u n, x) (mstate (restore_done k pl ep ur s) u n, x)"
| reconnect_done: "at_phase k (Reconnecting pl ep) s \<Longrightarrow>
     mstep (mstate s u n, x) (mstate (reconnect_done k ep ur serving s) u n, x)"
| commit_done: "at_phase k (Committing ep) s \<Longrightarrow> (\<And>i. cr \<noteq> Inl (WsRetireTimeout i)) \<Longrightarrow>
     mstep (mstate s u n, x) (mstate (commit_done k ep cr s) u n, x)"
| retired: "at_phase k (Retiring a) s \<Longrightarrow> mstep (mstate s u n, x) (mstate (retired now monotonic k a s) (u - {k}) n, x)"
| retire_raised: "at_phase k (Retiring a) s \<Longrightarrow> mstep (mstate s u n, x) (mstate (retire_raised k s) (u - {k}) n, insert k x)"
| retire_timeout: "at_phase k (Retiring a) s \<Longrightarrow> mstep (mstate s u n, x) (mstate (retire_timeout k s) u n, x)"
| retired_late: "(k, i) \<in> mg_late s \<Longrightarrow>
     mstep (mstate s u n, x) (mstate (retired_late k i how s) (if how = LateCancelled then u else u - {k}) n,
       if how = LateRaised then insert k x else x)"
| start_adoption: "mstep (mstate s u n, x) (mstate (start_adoption s) u n, x)"
| adoption_listed: "mg_adoption s = Listing \<Longrightarrow> distinct (map fst units) \<Longrightarrow>
     mstep (mstate s u n, x) (mstate (adoption_listed units s) (u \<union> fst ` set units) (length units), x)"
| adoption_settled: "mg_adoption s = Adopting \<Longrightarrow> (\<And>k t. t \<in> set (mg_queue s k) \<Longrightarrow> \<not> first_attempt t) \<Longrightarrow>
     mstep (mstate s u n, x) (mstate (adoption_settled s) u n, x)"
| gateway_back: "at_phase k (AdoptGateway pl) s \<Longrightarrow> mstep (mstate s u n, x) (mstate (set_phase k (AdoptProbing pl) s) u n, x)"
| adopt_probe_done: "at_phase k (AdoptProbing pl) s \<Longrightarrow>
     mstep (mstate s u n, x) (mstate (adopt_probe_done k pl pr observed gateway s) u n, x)"
| adopt_reconnect_done: "at_phase k (AdoptReconnecting pl ep) s \<Longrightarrow>
     mstep (mstate s u n, x) (mstate (adopt_reconnect_done k pl ep ur serving gateway s) u n, x)"
| adopt_settle: "at_phase k AdoptSettling s \<Longrightarrow> mstep (mstate s u n, x) (mstate (adopt_settle k s) u n, x)"
| bind_callbacks: "mstep (mstate s u n, x) (mstate (bind_callbacks b1 b2 b3 s) u n, x)"
| unit_gone: "mstep (mstate s u n, x) (mstate s (u - {k}) n, x)"
| doubt_gone: "mstep (mstate s u n, x) (mstate s u n, x - {k})"

inductive mreachable :: "mstate \<times> string set \<Rightarrow> bool" where
  initial: "new_manager agent s3 ready capacity b1 b2 b3 b4 = Inr s \<Longrightarrow> mreachable (mstate s {} 0, {})"
| step: "mreachable st \<Longrightarrow> mstep st st' \<Longrightarrow> mreachable st'"

lemma mstate_simps [simp]:
  "ms_mgr (mstate s u n) = s" "ms_units (mstate s u n) = u" "ms_adopted (mstate s u n) = n"
  "mstate s u n = mstate s' u' n' \<longleftrightarrow> s = s' \<and> u = u' \<and> n = n'"
  by (auto simp: mstate_def)

section \<open>The invariant of one reference\<close>

definition is_unit_job :: "task \<Rightarrow> bool" where
  "is_unit_job t = (case tk_job t of Retire \<Rightarrow> True | Adopt _ _ \<Rightarrow> True | _ \<Rightarrow> False)"

definition is_close :: "task \<Rightarrow> bool" where
  "is_close t = (case tk_job t of Close _ \<Rightarrow> True | _ \<Rightarrow> False)"

definition is_activate :: "task \<Rightarrow> bool" where
  "is_activate t = (case tk_job t of Activate _ \<Rightarrow> True | _ \<Rightarrow> False)"

definition is_unpublished :: "task \<Rightarrow> bool" where
  "is_unpublished t \<longleftrightarrow> tk_phase t = Waiting \<and> (case tk_job t of Close (Some _) \<Rightarrow> True | _ \<Rightarrow> False)"

fun nunits :: "task list \<Rightarrow> nat" where
  "nunits [] = 0"
| "nunits (t # ts) = (if is_unit_job t then 1 else 0) + nunits ts"

fun ncloses :: "task list \<Rightarrow> nat" where
  "ncloses [] = 0"
| "ncloses (t # ts) = (if is_close t then 1 else 0) + ncloses ts"

fun acts :: "task list \<Rightarrow> bool" where
  "acts [] = False"
| "acts (t # ts) = (is_activate t \<or> acts ts)"

fun unpub :: "task list \<Rightarrow> bool" where
  "unpub [] = False"
| "unpub (t # ts) = (is_unpublished t \<or> unpub ts)"

fun waits :: "task list \<Rightarrow> bool" where
  "waits [] = True"
| "waits (t # ts) = (tk_phase t = Waiting \<and> waits ts)"

lemma queue_append [simp]:
  "nunits (q @ r) = nunits q + nunits r" "ncloses (q @ r) = ncloses q + ncloses r" "acts (q @ r) = (acts q \<or> acts r)"
  "unpub (q @ r) = (unpub q \<or> unpub r)" "waits (q @ r) = (waits q \<and> waits r)"
  by (induction q) auto

lemma unpub_close: "unpub q \<Longrightarrow> 0 < ncloses q"
  by (induction q) (auto simp: is_unpublished_def is_close_def split: job.splits)

fun started :: "task list \<Rightarrow> bool" where
  "started [] = False"
| "started (t # _) = (tk_phase t \<noteq> Waiting)"

fun head_unit :: "task list \<Rightarrow> bool" where
  "head_unit [] = False"
| "head_unit (t # _) = is_unit_job t"

fun holds_unit :: "phase \<Rightarrow> bool" where
  "holds_unit (Probing _) = True"
| "holds_unit (Restoring _ _) = True"
| "holds_unit (Reconnecting _ _) = True"
| "holds_unit (Committing _) = True"
| "holds_unit (Retiring _) = True"
| "holds_unit _ = False"

fun head_holds :: "task list \<Rightarrow> bool" where
  "head_holds [] = False"
| "head_holds (t # _) = holds_unit (tk_phase t)"

fun is_placing :: "phase \<Rightarrow> bool" where
  "is_placing (Placing _) = True"
| "is_placing _ = False"

fun head_placing :: "task list \<Rightarrow> bool" where
  "head_placing [] = False"
| "head_placing (t # _) = is_placing (tk_phase t)"

text \<open>The phases of the coroutines that start or stop a unit, and of those that adopt one.\<close>

fun phase_of_job :: "phase \<Rightarrow> bool \<Rightarrow> bool" where
  "phase_of_job Waiting unit_job = True"
| "phase_of_job (Retiring RetireDone) unit_job = unit_job"
| "phase_of_job (AdoptGateway _) unit_job = unit_job"
| "phase_of_job (AdoptProbing _) unit_job = unit_job"
| "phase_of_job (AdoptReconnecting _ _) unit_job = unit_job"
| "phase_of_job AdoptSettling unit_job = unit_job"
| "phase_of_job _ unit_job = (\<not> unit_job)"

fun is_settling :: "phase \<Rightarrow> bool" where
  "is_settling AdoptSettling = True"
| "is_settling (AdoptGateway _) = True"
| "is_settling (AdoptProbing _) = True"
| "is_settling (AdoptReconnecting _ _) = True"
| "is_settling _ = False"

fun phase_ok :: "task list \<Rightarrow> bool" where
  "phase_ok [] = True"
| "phase_ok (t # _) \<longleftrightarrow> phase_of_job (tk_phase t) (is_unit_job t) \<and> (is_settling (tk_phase t) \<longrightarrow> tk_job t \<noteq> Retire)"

fun is_timeout :: "ws_exc option \<Rightarrow> bool" where
  "is_timeout (Some (WsRetireTimeout _)) = True"
| "is_timeout _ = False"

definition queue_ok :: "bool \<Rightarrow> bool \<Rightarrow> task list \<Rightarrow> bool" where
  "queue_ok occ act q \<longleftrightarrow>
     waits (tl q) \<and> \<not> acts (tl q) \<and> nunits q \<le> 1 \<and> ncloses q \<le> 1 \<and> phase_ok q
     \<and> (acts q \<longrightarrow> \<not> unpub q \<and> nunits q = 0 \<and> \<not> act)
     \<and> (0 < nunits q \<longrightarrow> \<not> unpub q \<and> occ \<and> \<not> act \<and> (started q \<longrightarrow> head_unit q))
     \<and> (started q \<longrightarrow> \<not> unpub q \<and> occ \<and> \<not> act)
     \<and> (unpub q \<longrightarrow> occ \<and> \<not> act)"

definition holds_ok :: "bool \<Rightarrow> bool \<Rightarrow> ws_exc option \<Rightarrow> task list \<Rightarrow> bool \<Rightarrow> nat set \<Rightarrow> bool" where
  "holds_ok occ act err q unit_up late \<longleftrightarrow>
     (act \<longrightarrow> occ) \<and> (err \<noteq> None \<longrightarrow> occ)
     \<and> (is_timeout err \<longrightarrow> \<not> act \<and> \<not> started q \<and> \<not> unpub q \<and> nunits q = 0)
     \<and> (\<forall>i \<in> late. err = Some (WsRetireTimeout i))
     \<and> (unit_up \<longrightarrow> occ \<and> (act \<or> err \<noteq> None \<or> unpub q \<or> 0 < nunits q \<or> head_holds q))
     \<and> (head_placing q \<longrightarrow> \<not> unit_up)"

definition key_ok :: "bool \<Rightarrow> bool \<Rightarrow> ws_exc option \<Rightarrow> task list \<Rightarrow> bool \<Rightarrow> nat set \<Rightarrow> bool" where
  "key_ok occ act err q unit_up late \<longleftrightarrow> queue_ok occ act q \<and> holds_ok occ act err q unit_up late"

definition ok_at :: "string \<Rightarrow> mgr \<Rightarrow> string set \<Rightarrow> bool" where
  "ok_at k s u = key_ok (k \<in> mg_occupied s) (mg_active s k \<noteq> None) (mg_errors s k) (mg_queue s k) (k \<in> u) {i. (k, i) \<in> mg_late s}"

section \<open>The invariant of the manager\<close>

definition minv :: "mstate \<Rightarrow> bool" where
  "minv st \<longleftrightarrow> (let s = ms_mgr st in
     finite (mg_occupied s) \<and> (\<forall>k. ok_at k s (ms_units st))
     \<and> (mg_adoption s \<in> {NotStarted, Listing} \<longrightarrow> mg_occupied s = {} \<and> ms_adopted st = 0)
     \<and> (mg_adoption s \<noteq> Adopted \<longrightarrow> (\<forall>k. \<not> acts (mg_queue s k)))
     \<and> card (mg_occupied s) \<le> max (mg_capacity s) (ms_adopted st))"

lemma minvI:
  assumes "finite (mg_occupied s)" "\<And>k. ok_at k s u"
    "mg_adoption s \<in> {NotStarted, Listing} \<Longrightarrow> mg_occupied s = {} \<and> n = 0"
    "\<And>k. mg_adoption s \<noteq> Adopted \<Longrightarrow> \<not> acts (mg_queue s k)"
    "card (mg_occupied s) \<le> max (mg_capacity s) n"
  shows "minv (mstate s u n)"
  using assms unfolding minv_def Let_def mstate_simps by blast

lemma minvD:
  assumes "minv (mstate s u n)"
  shows "finite (mg_occupied s)" "ok_at k s u"
    "mg_adoption s \<in> {NotStarted, Listing} \<Longrightarrow> mg_occupied s = {} \<and> n = 0"
    "mg_adoption s \<noteq> Adopted \<Longrightarrow> \<not> acts (mg_queue s k)"
    "card (mg_occupied s) \<le> max (mg_capacity s) n"
  using assms by (auto simp: minv_def)

text \<open>What a handler of \<open>k\<close> leaves alone.\<close>

definition frame_at :: "string \<Rightarrow> mgr \<Rightarrow> string set \<Rightarrow> mgr \<Rightarrow> string set \<Rightarrow> bool" where
  "frame_at k s u s' u' \<longleftrightarrow>
     mg_adoption s' = mg_adoption s \<and> mg_capacity s' = mg_capacity s
     \<and> (\<forall>k'. k' \<noteq> k \<longrightarrow> mg_active s' k' = mg_active s k' \<and> mg_errors s' k' = mg_errors s k' \<and> mg_queue s' k' = mg_queue s k'
          \<and> (k' \<in> u') = (k' \<in> u) \<and> {i. (k', i) \<in> mg_late s'} = {i. (k', i) \<in> mg_late s})"

lemma minv_local:
  assumes inv: "minv (mstate s u n)" and frame: "frame_at k s u s' u'" and ok: "ok_at k s' u'"
    and occ: "mg_occupied s' = mg_occupied s - {k}
       \<or> (mg_occupied s' = insert k (mg_occupied s) \<and> has_slot k s \<and> mg_adoption s = Adopted) \<or> mg_occupied s' = mg_occupied s"
    and act: "mg_adoption s \<noteq> Adopted \<Longrightarrow> \<not> acts (mg_queue s' k)"
  shows "minv (mstate s' u' n)"
proof (rule minvI)
  have same: "mg_adoption s' = mg_adoption s" "mg_capacity s' = mg_capacity s" using frame by (simp_all add: frame_at_def)
  show "finite (mg_occupied s')" using occ minvD(1)[OF inv] by (elim disjE) simp_all
  show "ok_at k' s' u'" for k'
  proof (cases "k' = k")
    case False
    have "k' \<in> mg_occupied s' \<longleftrightarrow> k' \<in> mg_occupied s" using occ False by auto
    then show ?thesis using frame False minvD(2)[OF inv, of k'] by (simp add: ok_at_def frame_at_def)
  qed (use ok in simp)
  show "mg_occupied s' = {} \<and> n = 0" if "mg_adoption s' \<in> {NotStarted, Listing}"
    using occ same(1) minvD(3)[OF inv] that by auto
  show "\<not> acts (mg_queue s' k')" if h: "mg_adoption s' \<noteq> Adopted" for k'
    using act frame h minvD(4)[OF inv, of k'] same(1) by (cases "k' = k") (simp_all add: frame_at_def)
  have "card (mg_occupied s') \<le> card (mg_occupied s) \<or> card (mg_occupied s') \<le> mg_capacity s"
    using occ
  proof (elim disjE)
    assume "mg_occupied s' = insert k (mg_occupied s) \<and> has_slot k s \<and> mg_adoption s = Adopted"
    then show ?thesis using card_insert_le_m1 minvD(1)[OF inv] by (auto simp: has_slot_def insert_absorb card_insert_if)
  qed (auto intro: card_Diff1_le)
  then show "card (mg_occupied s') \<le> max (mg_capacity s') n" using minvD(5)[OF inv] same(2) by auto
qed

lemmas task_ops = finish_task_def set_phase_def publish_endpoint_def unpublish_def retain_error_def lose_unit_def release_def
  enqueue_job_def

lemmas key_defs = key_ok_def queue_ok_def holds_ok_def

lemma at_phaseE:
  assumes "at_phase k p s"
  obtains t ts where "mg_queue s k = t # ts" "tk_phase t = p"
  using assms by (auto simp: at_phase_def split: list.splits)

lemma task_upd [simp]:
  "is_unit_job (t\<lparr>tk_phase := p\<rparr>) = is_unit_job t" "is_close (t\<lparr>tk_phase := p\<rparr>) = is_close t"
  "is_activate (t\<lparr>tk_phase := p\<rparr>) = is_activate t"
  "is_unpublished (t\<lparr>tk_phase := p\<rparr>) = (p = Waiting \<and> (case tk_job t of Close (Some _) \<Rightarrow> True | _ \<Rightarrow> False))"
  by (simp_all add: is_unit_job_def is_close_def is_activate_def is_unpublished_def)

section \<open>One reference\<close>

lemma phase_ok_waits: "waits q \<Longrightarrow> phase_ok q"
  by (cases q) auto

lemma started_waits: "waits q \<Longrightarrow> \<not> started q \<and> \<not> head_holds q \<and> \<not> head_placing q"
  by (cases q) auto

lemma started_facts:
  assumes "key_ok occ act err (t # ts) h late" "tk_phase t \<noteq> Waiting"
  shows "occ" "\<not> act" "late = {}" "\<not> is_timeout err" "nunits ts = 0" "\<not> unpub ts" "\<not> acts ts" "waits ts" "ncloses ts \<le> 1"
    "phase_of_job (tk_phase t) (is_unit_job t)" "is_placing (tk_phase t) \<Longrightarrow> \<not> h"
proof -
  have base: "occ \<and> \<not> act \<and> \<not> is_timeout err \<and> \<not> unpub ts \<and> \<not> acts ts \<and> waits ts
      \<and> phase_of_job (tk_phase t) (is_unit_job t) \<and> (is_placing (tk_phase t) \<longrightarrow> \<not> h)"
    using assms by (simp add: key_defs)
  have "\<forall>i \<in> late. is_timeout err" using assms(1) by (auto simp: key_defs)
  then show "late = {}" using base by auto
  show "nunits ts = 0" "ncloses ts \<le> 1"
    using assms by (cases "is_unit_job t"; cases "is_close t"; simp add: key_defs)+
qed (use assms in \<open>simp_all add: key_defs\<close>)

lemma queue_ok_waits:
  assumes "waits q" "\<not> acts q" "nunits q = 0" "ncloses q \<le> 1" "\<not> unpub q"
  shows "queue_ok occ act q"
  using assms started_waits[OF assms(1)] phase_ok_waits[OF assms(1)] by (cases q) (simp_all add: queue_ok_def)

lemma key_phase:
  assumes "key_ok occ act err (t # ts) h late" "tk_phase t \<noteq> Waiting" "p \<noteq> Waiting" "phase_of_job p (is_unit_job t)"
    "is_settling p \<Longrightarrow> tk_job t \<noteq> Retire" "h \<Longrightarrow> holds_unit (tk_phase t) \<longrightarrow> holds_unit p \<or> is_unit_job t" "is_placing p \<Longrightarrow> \<not> h"
  shows "key_ok occ act err (t\<lparr>tk_phase := p\<rparr> # ts) h late"
  using assms by (auto simp: key_defs)

text \<open>A running task ends: the unit is published, the error is kept, or the slot is free again.\<close>

lemma key_finish:
  assumes "key_ok occ act err (t # ts) h late" "tk_phase t \<noteq> Waiting"
  shows "\<not> is_timeout err \<Longrightarrow> key_ok occ True err ts h late"
    and "\<not> is_timeout (Some e) \<Longrightarrow> key_ok occ act (Some e) ts h late"
    and "\<not> is_timeout (Some e) \<Longrightarrow> key_ok occ True (Some e) ts h late"
    and "key_ok occ act (Some (WsRetireTimeout i)) ts h {i}"
    and "key_ok False act None ts False late"
    and "\<not> h \<Longrightarrow> key_ok occ act err ts h late"
  using started_facts[OF assms] queue_ok_waits[of ts] started_waits[of ts]
  by (auto simp: key_ok_def holds_ok_def)

lemma key_skip:
  assumes "key_ok occ act err (t # ts) h late" "tk_phase t = Waiting" "\<not> is_unit_job t" "\<not> is_unpublished t"
  shows "key_ok occ act err ts h late"
  using assms started_waits[of ts] phase_ok_waits[of ts] by (cases ts) (auto simp: key_defs split: if_splits)

lemma key_begin_activate:
  assumes "key_ok occ False None (t # ts) h late" "tk_phase t = Waiting" "is_activate t"
  shows "key_ok True False None (t\<lparr>tk_phase := Placing d\<rparr> # ts) h late" "\<not> h"
  using assms by (auto simp: key_defs is_activate_def is_unit_job_def split: job.splits if_splits)

lemma key_begin_close:
  assumes "key_ok occ act err (t # ts) h late" "tk_phase t = Waiting" "is_close t" "act \<or> is_unpublished t"
  shows "key_ok occ False err (t\<lparr>tk_phase := Committing ep\<rparr> # ts) h late" "occ"
  using assms unpub_close[of ts]
  by (auto simp: key_defs is_close_def is_unit_job_def is_activate_def split: job.splits if_splits)

lemma key_begin_recover:
  assumes "key_ok occ True err (t # ts) h late" "tk_phase t = Waiting" "\<not> is_unit_job t"
  shows "key_ok occ False err (t\<lparr>tk_phase := Retiring RecoverNext\<rparr> # ts) h late"
  using assms by (auto simp: key_defs split: if_splits)

lemma key_begin_unit:
  assumes "key_ok occ act err (t # ts) h late" "tk_phase t = Waiting" "is_unit_job t" "p \<noteq> Waiting" "phase_of_job p True"
    "is_settling p \<Longrightarrow> tk_job t \<noteq> Retire" "\<not> is_placing p"
  shows "key_ok occ act err (t\<lparr>tk_phase := p\<rparr> # ts) h late"
  using assms by (auto simp: key_defs split: if_splits)

lemma key_append_recover:
  assumes "key_ok occ act err q h late"
  shows "key_ok occ act err (q @ [\<lparr>tk_job = Recover i, tk_phase = Waiting\<rparr>]) h late"
  using assms by (cases q) (auto simp: key_defs is_unit_job_def is_close_def is_activate_def is_unpublished_def)

lemma key_append_close:
  assumes "key_ok occ (u \<noteq> None) err q h late" "ncloses q = 0" "occ"
  shows "key_ok occ False err (q @ [\<lparr>tk_job = Close u, tk_phase = Waiting\<rparr>]) h late"
  using assms by (cases q; cases u)
    (auto simp: key_defs is_unit_job_def is_close_def is_activate_def is_unpublished_def split: if_splits)

lemma key_first_activate:
  assumes "key_ok occ False None [] h late"
  shows "key_ok True False None [\<lparr>tk_job = Activate d, tk_phase = Waiting\<rparr>] h late"
  using assms by (auto simp: key_defs is_unit_job_def is_close_def is_activate_def is_unpublished_def)

lemma key_replace:
  assumes "key_ok True False None (t # ts) h late" "tk_phase t \<noteq> Waiting" "\<not> is_unit_job t"
  shows "key_ok True False None (t\<lparr>tk_phase := Placing d\<rparr> # ts) False late"
  using assms by (auto simp: key_defs)

lemma key_unit_gone: "key_ok occ act err q h late \<Longrightarrow> key_ok occ act err q False late"
  by (auto simp: key_defs)

lemma key_late:
  assumes "key_ok occ act err q h late" "i \<in> late"
  shows "key_ok False act None q False (late - {i})" "key_ok occ act err q h (late - {i})" "err = Some (WsRetireTimeout i)"
proof -
  have all: "\<forall>j \<in> late. err = Some (WsRetireTimeout j)" using assms(1) by (simp add: key_defs)
  then show err: "err = Some (WsRetireTimeout i)" using assms(2) by simp
  have "j = i" if "j \<in> late" for j
    using bspec[OF all that] err by simp
  then have late: "late - {i} = {}" by auto
  have idle: "\<not> act" "\<not> started q" "\<not> unpub q" "nunits q = 0"
    using assms(1) unfolding err key_defs by simp_all
  have "queue_ok occ act q" using assms(1) by (simp add: key_ok_def)
  then have "queue_ok False act q" using idle by (simp add: queue_ok_def)
  then show "key_ok False act None q False (late - {i})"
    using idle unfolding late by (cases q) (simp_all add: key_ok_def holds_ok_def)
  show "key_ok occ act err q h (late - {i})" using assms(1) unfolding late by (simp add: key_ok_def holds_ok_def)
qed

lemma key_requeue:
  assumes "key_ok occ act err (t # ts) h late" "tk_phase t \<noteq> Waiting" "is_unit_job j" "tk_phase j = Waiting"
  shows "key_ok occ act err (ts @ [j]) h late"
proof -
  have j: "\<not> is_close j" "\<not> is_activate j" "\<not> is_unpublished j"
    using assms(3) by (auto simp: is_unit_job_def is_close_def is_activate_def is_unpublished_def split: job.splits)
  have late: "err \<noteq> None \<Longrightarrow> occ" "\<not> is_timeout err" using started_facts[OF assms(1,2)] by auto
  show ?thesis
    using started_facts[OF assms(1,2)] j assms(3,4) late by (cases ts) (simp_all add: key_defs)
qed

lemma key_listed:
  assumes "key_ok False act err q h late" "\<not> acts q"
  shows "key_ok True act err (q @ [\<lparr>tk_job = Adopt pl d, tk_phase = Waiting\<rparr>]) True late"
  using assms by (cases q) (auto simp: key_defs is_unit_job_def is_close_def is_activate_def is_unpublished_def split: if_splits)

section \<open>The handlers\<close>

lemma frame_refl [simp]: "frame_at k s u s u"
  by (simp add: frame_at_def)

lemma frame_ops [simp]:
  "frame_at k s u (finish_task k s') u' = frame_at k s u s' u'"
  "frame_at k s u (set_phase k p s') u' = frame_at k s u s' u'"
  "frame_at k s u (publish_endpoint k ep s') u' = frame_at k s u s' u'"
  "frame_at k s u (unpublish k s') u' = frame_at k s u s' u'"
  "frame_at k s u (retain_error k e s') u' = frame_at k s u s' u'"
  "frame_at k s u (lose_unit k i s') u' = frame_at k s u s' u'"
  "frame_at k s u (release k s') u' = frame_at k s u s' u'"
  "frame_at k s u (enqueue_job k j s') u' = frame_at k s u s' u'"
  "frame_at k s u (s'\<lparr>mg_occupied := x\<rparr>) u' = frame_at k s u s' u'"
  "frame_at k s u s' (insert k u') = frame_at k s u s' u'"
  "frame_at k s u s' (u' - {k}) = frame_at k s u s' u'"
  by (auto simp: frame_at_def task_ops split: list.splits)

lemma mgr_ops [simp]:
  "mg_queue (finish_task k s) k = tl (mg_queue s k)" "mg_queue (publish_endpoint k ep s) = mg_queue s"
  "mg_queue (unpublish k s) = mg_queue s" "mg_queue (retain_error k e s) = mg_queue s" "mg_queue (lose_unit k i s) = mg_queue s"
  "mg_queue (release k s) = mg_queue s" "mg_queue (enqueue_job k j s) k = mg_queue s k @ [\<lparr>tk_job = j, tk_phase = Waiting\<rparr>]"
  "mg_occupied (finish_task k s) = mg_occupied s" "mg_occupied (set_phase k p s) = mg_occupied s"
  "mg_occupied (publish_endpoint k ep s) = mg_occupied s" "mg_occupied (unpublish k s) = mg_occupied s"
  "mg_occupied (retain_error k e s) = mg_occupied s" "mg_occupied (lose_unit k i s) = mg_occupied s"
  "mg_occupied (enqueue_job k j s) = mg_occupied s" "mg_occupied (release k s) = mg_occupied s - {k}"
  "mg_active (finish_task k s) = mg_active s" "mg_active (set_phase k p s) = mg_active s"
  "mg_active (retain_error k e s) = mg_active s" "mg_active (lose_unit k i s) = mg_active s"
  "mg_active (enqueue_job k j s) = mg_active s" "mg_active (release k s) = mg_active s"
  "mg_active (publish_endpoint k ep s) k = Some ep" "mg_active (unpublish k s) k = None"
  "mg_errors (finish_task k s) = mg_errors s" "mg_errors (set_phase k p s) = mg_errors s"
  "mg_errors (publish_endpoint k ep s) = mg_errors s" "mg_errors (unpublish k s) = mg_errors s"
  "mg_errors (lose_unit k i s) = mg_errors s" "mg_errors (enqueue_job k j s) = mg_errors s"
  "mg_errors (retain_error k e s) k = Some e" "mg_errors (release k s) k = None"
  "mg_late (finish_task k s) = mg_late s" "mg_late (set_phase k p s) = mg_late s" "mg_late (publish_endpoint k ep s) = mg_late s"
  "mg_late (unpublish k s) = mg_late s" "mg_late (retain_error k e s) = mg_late s" "mg_late (lose_unit k i s) = mg_late s"
  "mg_late (enqueue_job k j s) = mg_late s" "mg_late (release k s) = mg_late s"
  by (auto simp: task_ops split: list.splits)

lemma queue_set_phase [simp]: "mg_queue s k = t # ts \<Longrightarrow> mg_queue (set_phase k p s) k = t\<lparr>tk_phase := p\<rparr> # ts"
  by (simp add: set_phase_def)

lemma set_phase_inv:
  assumes inv: "minv (mstate s u n)" and q: "mg_queue s k = t # ts" and st: "tk_phase t \<noteq> Waiting" and p: "p \<noteq> Waiting"
    and ph: "phase_of_job p (is_unit_job t)" "is_settling p \<Longrightarrow> tk_job t \<noteq> Retire"
    and hu: "k \<in> u \<Longrightarrow> holds_unit (tk_phase t) \<longrightarrow> holds_unit p \<or> is_unit_job t" "is_placing p \<Longrightarrow> k \<notin> u"
  shows "minv (mstate (set_phase k p s) u n)"
proof (rule minv_local[OF inv, of k])
  show "ok_at k (set_phase k p s) u"
    using minvD(2)[OF inv, of k] q by (simp add: ok_at_def key_phase[OF _ st p ph hu])
  show "\<not> acts (mg_queue (set_phase k p s) k)" if "mg_adoption s \<noteq> Adopted"
    using minvD(4)[OF inv that, of k] q by simp
qed simp_all

text \<open>A task that runs, and the forms its end has.\<close>

lemma end_task_inv:
  assumes inv: "minv (mstate s u n)" and q: "mg_queue s k = t # ts" and st: "tk_phase t \<noteq> Waiting"
  shows "minv (mstate (finish_task k (publish_endpoint k ep s)) u n)"
    and "\<not> is_timeout (Some e) \<Longrightarrow> minv (mstate (finish_task k (retain_error k e s)) u n)"
    and "\<not> is_timeout (Some e) \<Longrightarrow> minv (mstate (finish_task k (retain_error k e (publish_endpoint k ep s))) u n)"
    and "minv (mstate (finish_task k (release k s)) (u - {k}) n)"
    and "k \<notin> u \<Longrightarrow> minv (mstate (finish_task k s) u n)"
    and "minv (mstate (retire_timeout k s) u n)"
proof -
  note kok = minvD(2)[OF inv, of k, unfolded ok_at_def q]
  note facts = started_facts[OF kok st] and fin = key_finish[OF kok st]
  have noact: "\<not> acts ts" by (rule facts)
  show "minv (mstate (finish_task k (publish_endpoint k ep s)) u n)"
    using facts fin(1) q by (intro minv_local[OF inv, of k]) (simp_all add: ok_at_def)
  show "minv (mstate (finish_task k (retain_error k e s)) u n)" if "\<not> is_timeout (Some e)"
    using facts fin(2)[OF that] q by (intro minv_local[OF inv, of k]) (simp_all add: ok_at_def)
  show "minv (mstate (finish_task k (retain_error k e (publish_endpoint k ep s))) u n)" if "\<not> is_timeout (Some e)"
    using facts fin(3)[OF that] q by (intro minv_local[OF inv, of k]) (simp_all add: ok_at_def)
  show "minv (mstate (finish_task k (release k s)) (u - {k}) n)"
    using facts fin(5) q by (intro minv_local[OF inv, of k]) (simp_all add: ok_at_def)
  show "minv (mstate (finish_task k s) u n)" if "k \<notin> u"
    using facts fin(6) that q by (intro minv_local[OF inv, of k]) (simp_all add: ok_at_def)
  show "minv (mstate (retire_timeout k s) u n)"
  proof (rule minv_local[OF inv, of k])
    show "frame_at k s u (retire_timeout k s) u" by (auto simp: retire_timeout_def frame_at_def task_ops)
    show "ok_at k (retire_timeout k s) u"
      using facts fin(4)[of "mg_fresh s"] q by (simp add: ok_at_def retire_timeout_def)
  qed (use q noact in \<open>simp_all add: retire_timeout_def\<close>)
qed

lemma place_done_inv:
  assumes inv: "minv (mstate s u n)" and ph: "at_phase k (Placing d) s"
  shows "minv (mstate (place_done k r s) (case r of Inl _ \<Rightarrow> u | Inr _ \<Rightarrow> insert k u) n)"
proof -
  obtain t ts where q: "mg_queue s k = t # ts" "tk_phase t = Placing d" using ph by (rule at_phaseE)
  note kok = minvD(2)[OF inv, of k, unfolded ok_at_def q(1)]
  have st: "tk_phase t \<noteq> Waiting" using q(2) by simp
  have nu: "k \<notin> u" and unit: "\<not> is_unit_job t" and occ: "k \<in> mg_occupied s"
    using started_facts[OF kok st] q(2) by simp_all
  show ?thesis
  proof (cases r)
    case (Inl e)
    then show ?thesis
      using end_task_inv(4)[OF inv q(1) st] end_task_inv(5)[OF inv q(1) st nu] nu by (simp add: place_done_def)
  next
    case (Inr pl)
    have "key_ok True False (mg_errors s k) (t\<lparr>tk_phase := Probing pl\<rparr> # ts) True {}"
      using started_facts[OF kok st] kok unit by (simp add: key_defs)
    then have "minv (mstate (set_phase k (Probing pl) s) (insert k u) n)"
      using started_facts[OF kok st] occ q(1) minvD(4)[OF inv, of k]
      by (intro minv_local[OF inv, of k]) (simp_all add: ok_at_def)
    then show ?thesis using Inr by (simp add: place_done_def)
  qed
qed

lemma fail_start_inv:
  assumes "minv (mstate s u n)" "mg_queue s k = t # ts" "tk_phase t \<noteq> Waiting" "\<not> is_unit_job t"
  shows "minv (mstate (fail_start k e s) u n)"
  using assms by (auto simp: fail_start_def intro!: set_phase_inv)

lemma probe_done_inv:
  assumes inv: "minv (mstate s u n)" and ph: "at_phase k (Probing pl) s"
  shows "minv (mstate (probe_done k pl pr observed s) u n)"
proof -
  obtain t ts where q: "mg_queue s k = t # ts" "tk_phase t = Probing pl" using ph by (rule at_phaseE)
  then have u: "\<not> is_unit_job t" using started_facts(10)[of _ _ _ t] minvD(2)[OF inv, of k] by (fastforce simp: ok_at_def)
  have "minv (mstate (after_probe k pl i observed s) u n)" for i
    using q u inv by (auto simp: after_probe_def Let_def intro!: set_phase_inv fail_start_inv)
  moreover have "minv (mstate (fail_start k e s) u n)" for e
    using q u inv by (auto intro!: fail_start_inv)
  ultimately show ?thesis by (simp add: probe_done_def split: sum.split ws_exc.split)
qed

lemma restore_done_inv:
  assumes inv: "minv (mstate s u n)" and ph: "at_phase k (Restoring pl ep) s"
  shows "minv (mstate (restore_done k pl ep ur s) u n)"
proof -
  obtain t ts where q: "mg_queue s k = t # ts" "tk_phase t = Restoring pl ep" using ph by (rule at_phaseE)
  then have "\<not> is_unit_job t" using started_facts(10)[of _ _ _ t] minvD(2)[OF inv, of k] by (fastforce simp: ok_at_def)
  then show ?thesis using q inv by (auto simp: restore_done_def intro!: set_phase_inv fail_start_inv split: sum.split)
qed

lemma reconnect_done_inv:
  assumes inv: "minv (mstate s u n)" and ph: "at_phase k (Reconnecting pl ep) s"
  shows "minv (mstate (reconnect_done k ep ur serving s) u n)"
proof -
  obtain t ts where q: "mg_queue s k = t # ts" "tk_phase t = Reconnecting pl ep" using ph by (rule at_phaseE)
  then have "\<not> is_unit_job t" using started_facts(10)[of _ _ _ t] minvD(2)[OF inv, of k] by (fastforce simp: ok_at_def)
  then show ?thesis
    using q inv end_task_inv(1)[OF inv q(1)] by (auto simp: reconnect_done_def intro!: fail_start_inv split: sum.split)
qed

lemma lose_unit_inv: "minv (mstate s u n) \<Longrightarrow> minv (mstate (lose_unit k i s) u n)"
  by (simp add: minv_def ok_at_def lose_unit_def)

lemma receipt_exc: "validate_receipt k p s = Inl e \<Longrightarrow> e = WsAssemblyUnavailable"
  by (auto simp: validate_receipt_def Let_def split: option.splits if_splits)

lemma commit_done_inv:
  assumes inv: "minv (mstate s u n)" and ph: "at_phase k (Committing ep) s" and cr: "\<And>i. cr \<noteq> Inl (WsRetireTimeout i)"
  shows "minv (mstate (commit_done k ep cr s) u n)"
proof -
  obtain t ts where q: "mg_queue s k = t # ts" "tk_phase t = Committing ep" using ph by (rule at_phaseE)
  then have u: "\<not> is_unit_job t" using started_facts(10)[of _ _ _ t] minvD(2)[OF inv, of k] by (fastforce simp: ok_at_def)
  have st: "tk_phase t \<noteq> Waiting" using q by simp
  note ends = end_task_inv[OF inv q(1) st]
  have "minv (mstate (set_phase k (Retiring CloseDone) s) u n)"
    using q u inv by (auto intro!: set_phase_inv)
  moreover have "minv (mstate (set_phase k (Retiring CloseDone) (lose_unit k (we_instance_id ep) s)) u n)"
    using q u by (auto intro!: set_phase_inv lose_unit_inv[OF inv])
  moreover have "minv (mstate (finish_task k (retain_error k WsTransientFailure (publish_endpoint k ep s))) u n)"
    by (rule ends(3)) simp
  moreover have "minv (mstate (finish_task k (retain_error k e s)) u n)" if "\<not> is_timeout (Some e)" for e
    by (rule ends(2)[OF that])
  ultimately show ?thesis
    using cr receipt_exc[of k _ s] by (auto simp: commit_done_def split: sum.split ws_exc.split)
qed

lemma retired_inv:
  assumes inv: "minv (mstate s u n)" and ph: "at_phase k (Retiring a) s"
  shows "minv (mstate (retired now monotonic k a s) (u - {k}) n)"
proof -
  obtain t ts where q: "mg_queue s k = t # ts" "tk_phase t = Retiring a" using ph by (rule at_phaseE)
  have st: "tk_phase t \<noteq> Waiting" using q by simp
  note kok = minvD(2)[OF inv, of k, unfolded ok_at_def q(1)]
  note ended = end_task_inv(4)[OF inv q(1) st]
  have occ: "k \<in> mg_occupied s" using started_facts[OF kok st] by simp
  show ?thesis
  proof (cases "a = RecoverNext")
    case True
    have u: "\<not> is_unit_job t" using started_facts(10)[OF kok st] q(2) True by simp
    show ?thesis
    proof (cases "reserve k (release k s)")
      case (Inl e)
      then show ?thesis using ended True by (simp add: retired_def Let_def)
    next
      case (Inr s2)
      then have s2: "s2 = (release k s)\<lparr>mg_occupied := insert k (mg_occupied s - {k})\<rparr>"
        by (auto simp: reserve_def split: if_splits)
      have "key_ok True False None (t # ts) False {}"
        using kok started_facts[OF kok st] u st by (simp add: key_defs)
      then have "ok_at k (set_phase k (Placing (startup_deadline now monotonic None s2)) s2) (u - {k})"
        using key_replace[OF _ st u] started_facts[OF kok st] q(1) unfolding s2 by (simp add: ok_at_def set_phase_def)
      moreover have "mg_occupied (set_phase k (Placing x) s2) = mg_occupied s" for x using occ s2 by auto
      ultimately have "minv (mstate (set_phase k (Placing (startup_deadline now monotonic None s2)) s2) (u - {k}) n)"
        using q(1) minvD(4)[OF inv, of k] unfolding s2
        by (intro minv_local[OF inv, of k]) (auto simp: set_phase_def frame_at_def release_def)
      then show ?thesis using Inr True by (simp add: retired_def Let_def)
    qed
  next
    case False
    then show ?thesis using ended by (cases a) (simp_all add: retired_def Let_def)
  qed
qed

lemma retired_late_inv:
  assumes inv: "minv (mstate s u n)" and late: "(k, i) \<in> mg_late s"
  shows "minv (mstate (retired_late k i how s) (if how = LateCancelled then u else u - {k}) n)"
proof -
  note kok = minvD(2)[OF inv, of k, unfolded ok_at_def]
  have late2: "{j. (k, j) \<in> mg_late s - {(k, i)}} = {j. (k, j) \<in> mg_late s} - {i}" by auto
  have err: "mg_errors s k = Some (WsRetireTimeout i)" using key_late(3)[OF kok] late by simp
  have frame: "frame_at k s u (s\<lparr>mg_late := mg_late s - {(k, i)}\<rparr>) u" by (auto simp: frame_at_def)
  show ?thesis
  proof (cases "how = LateCancelled")
    case True
    have "ok_at k (s\<lparr>mg_late := mg_late s - {(k, i)}\<rparr>) u"
      using key_late(2)[OF kok, of i] late late2 by (simp add: ok_at_def)
    then have "minv (mstate (s\<lparr>mg_late := mg_late s - {(k, i)}\<rparr>) u n)"
      using frame minvD(4)[OF inv, of k] by (intro minv_local[OF inv, of k]) simp_all
    then show ?thesis using True by (simp add: retired_late_def Let_def)
  next
    case False
    have "ok_at k (release k (s\<lparr>mg_late := mg_late s - {(k, i)}\<rparr>)) (u - {k})"
      using key_late(1)[OF kok, of i] late late2 by (simp add: ok_at_def)
    then have "minv (mstate (release k (s\<lparr>mg_late := mg_late s - {(k, i)}\<rparr>)) (u - {k}) n)"
      using frame minvD(4)[OF inv, of k] by (intro minv_local[OF inv, of k]) simp_all
    then show ?thesis using False err by (simp add: retired_late_def Let_def)
  qed
qed

lemma adopt_failed_inv:
  assumes inv: "minv (mstate s u n)" and q: "mg_queue s k = t # ts" "is_settling (tk_phase t)"
  shows "minv (mstate (adopt_failed k pl gateway s) u n)"
proof -
  have st: "tk_phase t \<noteq> Waiting" and hold: "\<not> holds_unit (tk_phase t)" using q(2) by (cases "tk_phase t"; simp)+
  note kok = minvD(2)[OF inv, of k, unfolded ok_at_def q(1)]
  have job: "is_unit_job t" "tk_job t \<noteq> Retire" using kok q(2) started_facts(10)[OF kok st]
    by (cases "tk_phase t"; simp add: key_defs)+
  have "key_ok (k \<in> mg_occupied s) (mg_active s k \<noteq> None) (mg_errors s k) (ts @ [\<lparr>tk_job = Adopt pl True, tk_phase = Waiting\<rparr>])
      (k \<in> u) {i. (k, i) \<in> mg_late s}"
    by (rule key_requeue[OF kok st]) (simp_all add: is_unit_job_def)
  then have "minv (mstate (enqueue_job k (Adopt pl True) (finish_task k s)) u n)"
    using q(1) minvD(4)[OF inv, of k]
    by (intro minv_local[OF inv, of k]) (simp_all add: ok_at_def is_activate_def)
  moreover have "minv (mstate (set_phase k AdoptSettling s) u n)"
    using st job hold by (intro set_phase_inv[OF inv q(1)]) simp_all
  ultimately show ?thesis by (simp add: adopt_failed_def)
qed

lemma adopt_probe_done_inv:
  assumes inv: "minv (mstate s u n)" and ph: "at_phase k (AdoptProbing pl) s"
  shows "minv (mstate (adopt_probe_done k pl pr observed gateway s) u n)"
proof -
  obtain t ts where q: "mg_queue s k = t # ts" "tk_phase t = AdoptProbing pl" using ph by (rule at_phaseE)
  then have "is_unit_job t" "tk_job t \<noteq> Retire" using minvD(2)[OF inv, of k] by (simp_all add: ok_at_def key_defs)
  then have "minv (mstate (set_phase k (AdoptReconnecting pl ep) s) u n)" for ep
    using q(2) by (intro set_phase_inv[OF inv q(1)]) simp_all
  then show ?thesis
    using adopt_failed_inv[OF inv q(1)] q(2) by (simp add: adopt_probe_done_def split: sum.split)
qed

lemma adopt_reconnect_done_inv:
  assumes inv: "minv (mstate s u n)" and ph: "at_phase k (AdoptReconnecting pl ep) s"
  shows "minv (mstate (adopt_reconnect_done k pl ep ur serving gateway s) u n)"
proof -
  obtain t ts where q: "mg_queue s k = t # ts" "tk_phase t = AdoptReconnecting pl ep" using ph by (rule at_phaseE)
  then show ?thesis
    using adopt_failed_inv[OF inv q(1)] end_task_inv(1)[OF inv q(1)]
    by (simp add: adopt_reconnect_done_def split: sum.split)
qed

lemma adopt_settle_inv:
  assumes inv: "minv (mstate s u n)" and ph: "at_phase k AdoptSettling s"
  shows "minv (mstate (adopt_settle k s) u n)"
proof -
  obtain t ts where q: "mg_queue s k = t # ts" "tk_phase t = AdoptSettling" using ph by (rule at_phaseE)
  have st: "tk_phase t \<noteq> Waiting" using q by simp
  note kok = minvD(2)[OF inv, of k, unfolded ok_at_def q(1)]
  have "tk_job t \<noteq> Retire" using kok q(2) by (simp add: key_defs)
  moreover have "nunits ts = 0 \<Longrightarrow> x \<in> set ts \<Longrightarrow> tk_job x \<noteq> Retire" for x
    by (induction ts) (auto simp: is_unit_job_def split: if_splits)
  moreover have kind: "same_kind j Retire \<Longrightarrow> j = Retire" for j by (cases j) auto
  ultimately have np: "\<not> pending Retire (mg_queue s k)"
    using started_facts(5)[OF kok st] unfolding q(1) pending_def by (auto dest!: kind)
  have "key_ok (k \<in> mg_occupied s) (mg_active s k \<noteq> None) (mg_errors s k) (ts @ [\<lparr>tk_job = Retire, tk_phase = Waiting\<rparr>])
      (k \<in> u) {i. (k, i) \<in> mg_late s}"
    by (rule key_requeue[OF kok st]) (simp_all add: is_unit_job_def)
  then have "minv (mstate (finish_task k (enqueue_job k Retire s)) u n)"
    using q(1) minvD(4)[OF inv, of k]
    by (intro minv_local[OF inv, of k]) (simp_all add: ok_at_def is_activate_def)
  then show ?thesis using np by (simp add: adopt_settle_def run_job_def)
qed

lemma gateway_back_inv:
  assumes inv: "minv (mstate s u n)" and ph: "at_phase k (AdoptGateway pl) s"
  shows "minv (mstate (set_phase k (AdoptProbing pl) s) u n)"
proof -
  obtain t ts where q: "mg_queue s k = t # ts" "tk_phase t = AdoptGateway pl" using ph by (rule at_phaseE)
  then have "is_unit_job t" "tk_job t \<noteq> Retire" using minvD(2)[OF inv, of k] by (simp_all add: ok_at_def key_defs)
  then show ?thesis using q(2) by (intro set_phase_inv[OF inv q(1)]) simp_all
qed

section \<open>The callers and the first segments\<close>

lemma recover_inv:
  assumes inv: "minv (mstate s u n)"
  shows "minv (mstate (snd (recover r lost s)) u n)"
proof -
  have "minv (mstate (enqueue_job k (Recover lost) s) u n)" for k
    using key_append_recover minvD(2)[OF inv, of k] minvD(4)[OF inv, of k]
    by (intro minv_local[OF inv, of k]) (simp_all add: ok_at_def is_activate_def)
  then show ?thesis using inv by (simp add: recover_def run_job_def)
qed

lemma pending_close: "pending (Close u) q \<longleftrightarrow> 0 < ncloses q"
proof (induction q)
  case (Cons t q)
  have "same_kind (tk_job t) (Close u) \<longleftrightarrow> is_close t" by (cases "tk_job t") (simp_all add: is_close_def)
  then show ?case using Cons by (auto simp: pending_def)
qed (simp add: pending_def)

lemma close_inv:
  assumes inv: "minv (mstate s u n)" and np: "\<not> pending (Close None) (mg_queue s (wr_ref r))"
  shows "minv (mstate (snd (close r s)) u n)"
proof -
  let ?k = "wr_ref r"
  have np2: "\<not> pending (Close x) (mg_queue s ?k)" "ncloses (mg_queue s ?k) = 0" for x using np by (simp_all add: pending_close)
  have "minv (mstate (enqueue_job ?k (Close (mg_active s ?k)) (unpublish ?k s)) u n)" if "?k \<in> mg_occupied s"
    using key_append_close[OF _ np2(2), of _ "mg_active s ?k"] minvD(2)[OF inv, of ?k] minvD(4)[OF inv, of ?k] that
    by (intro minv_local[OF inv, of ?k]) (simp_all add: ok_at_def is_activate_def)
  then show ?thesis using inv np2 by (simp add: close_def Let_def run_job_def)
qed

lemma not_unit_activate: "is_activate t \<Longrightarrow> \<not> is_unit_job t"
  by (auto simp: is_activate_def is_unit_job_def split: job.splits)

lemma activations_only:
  assumes "\<not> lifecycle_pending q" "\<not> acts (tl q)"
  shows "q = [] \<or> pending (Activate d) q"
proof (cases q)
  case (Cons t ts)
  then have "same_kind (tk_job t) (Activate None)" using assms(1) by (simp add: lifecycle_pending_def)
  then show ?thesis using Cons by (cases "tk_job t") (auto simp: pending_def)
qed simp

lemma flags_inv:
  assumes "minv (mstate s u n)"
  shows "minv (mstate (start_adoption s) u n)" "minv (mstate (bind_callbacks b1 b2 b3 s) u n)"
    "mg_adoption s = Adopting \<Longrightarrow> minv (mstate (adoption_settled s) u n)"
proof -
  show "minv (mstate (start_adoption s) u n)"
  proof (rule minvI)
    show "ok_at k (start_adoption s) u" for k
      using minvD(2)[OF assms, of k] unfolding ok_at_def start_adoption_def by (cases "mg_adoption s = NotStarted") simp_all
  qed (use minvD(1,5)[OF assms] minvD(3,4)[OF assms] in \<open>auto simp: start_adoption_def\<close>)
  show "minv (mstate (bind_callbacks b1 b2 b3 s) u n)"
    using minvD(1,2,5)[OF assms] minvD(3,4)[OF assms] by (intro minvI) (simp_all add: bind_callbacks_def ok_at_def)
  show "minv (mstate (adoption_settled s) u n)" if "mg_adoption s = Adopting"
    using minvD(1,2,5)[OF assms] minvD(3,4)[OF assms] that by (intro minvI) (simp_all add: adoption_settled_def ok_at_def)
qed

lemma ensure_inv:
  assumes inv: "minv (mstate s u n)"
  shows "minv (mstate (snd (ensure now r d s)) u n)"
proof -
  let ?k = "wr_ref r"
  note kok = minvD(2)[OF inv, of ?k, unfolded ok_at_def]
  have adopt: "minv (mstate (start_adoption s) u n)" by (rule flags_inv(1)[OF inv])
  have act: "minv (mstate (run_job ?k (Activate d) s') u n)"
    if h: "\<not> lifecycle_pending (mg_queue s ?k)" "mg_errors s ?k = None" "mg_adoption s = Adopted" "mg_active s ?k = None"
      "has_slot ?k s" "reserve ?k s = Inr s'" for s'
  proof -
    have s': "s' = s\<lparr>mg_occupied := insert ?k (mg_occupied s)\<rparr>" using h(5,6) by (auto simp: reserve_def insert_absorb split: if_splits)
    have tl: "\<not> acts (tl (mg_queue s ?k))" using kok by (simp add: key_defs)
    show ?thesis
    proof (cases "pending (Activate d) (mg_queue s ?k)")
      case True
      then have "mg_queue s ?k \<noteq> []" by (auto simp: pending_def)
      then obtain t ts where q: "mg_queue s ?k = t # ts" by (cases "mg_queue s ?k") auto
      have "is_activate t" using h(1) unfolding q lifecycle_pending_def by (cases "tk_job t") (auto simp: is_activate_def)
      then have "key_ok True False None (mg_queue s ?k) (?k \<in> u) {i. (?k, i) \<in> mg_late s}"
        using kok h(2,4) not_unit_activate[of t] unfolding q by (auto simp: key_defs)
      then have "minv (mstate s' u n)"
        using h s' minvD(4)[OF inv, of ?k] by (intro minv_local[OF inv, of ?k]) (simp_all add: ok_at_def)
      then show ?thesis using True s' by (simp add: run_job_def)
    next
      case False
      then have q: "mg_queue s ?k = []" using activations_only[OF h(1) tl] by blast
      have "minv (mstate (enqueue_job ?k (Activate d) s') u n)"
        using h s' q key_first_activate kok by (intro minv_local[OF inv, of ?k]) (simp_all add: ok_at_def)
      then show ?thesis using False s' by (simp add: run_job_def)
    qed
  qed
  show ?thesis
    using inv adopt act by (auto simp: ensure_def Let_def split: option.split sum.split)
qed

lemma skip_inv:
  assumes inv: "minv (mstate s u n)" and q: "mg_queue s k = t # ts" "tk_phase t = Waiting" "\<not> is_unit_job t" "\<not> is_unpublished t"
  shows "minv (mstate (finish_task k s) u n)"
  using key_skip[OF _ q(2-4)] minvD(2)[OF inv, of k] minvD(4)[OF inv, of k] q(1)
  by (intro minv_local[OF inv, of k]) (simp_all add: ok_at_def)

lemma begin_activate_inv:
  assumes inv: "minv (mstate s u n)" and q: "mg_queue s k = t # ts" "tk_phase t = Waiting" "tk_job t = Activate d"
  shows "minv (mstate (begin_activate now monotonic k d s) u n)"
proof -
  have t: "\<not> is_unit_job t" "\<not> is_unpublished t" "is_activate t"
    using q(3) by (simp_all add: is_unit_job_def is_unpublished_def is_activate_def)
  note skip = skip_inv[OF inv q(1,2) t(1,2)] and kok = minvD(2)[OF inv, of k, unfolded ok_at_def q(1)]
  have adopted: "mg_adoption s = Adopted" using minvD(4)[OF inv, of k] q(1) t(3) by auto
  have "minv (mstate (set_phase k (Placing x) s') u n)"
    if h: "mg_errors s k = None" "mg_active s k = None" "reserve k s = Inr s'" for s' x
  proof -
    have s': "s' = s\<lparr>mg_occupied := insert k (mg_occupied s)\<rparr>" and slot: "has_slot k s"
      using h(3) by (auto simp: reserve_def has_slot_def insert_absorb split: if_splits)
    have "key_ok True False None (t\<lparr>tk_phase := Placing x\<rparr> # ts) (k \<in> u) {i. (k, i) \<in> mg_late s}"
      using key_begin_activate(1)[OF _ q(2) t(3)] kok h(1,2) by simp
    then show ?thesis
      using s' slot adopted h q(1) by (intro minv_local[OF inv, of k]) (simp_all add: ok_at_def)
  qed
  then show ?thesis using skip by (auto simp: begin_activate_def split: option.split sum.split)
qed

lemma set_phase_first:
  "finish_task k (set_phase k p s) = finish_task k s" "set_phase k p' (set_phase k p s) = set_phase k p' s"
  "retain_error k e (set_phase k p s) = set_phase k p (retain_error k e s)"
  "publish_endpoint k ep (set_phase k p s) = set_phase k p (publish_endpoint k ep s)"
  "lose_unit k i (set_phase k p s) = set_phase k p (lose_unit k i s)"
  "validate_receipt k r (set_phase k p s) = validate_receipt k r s"
  by (simp_all add: task_ops validate_receipt_def split: list.split option.split)

lemma commit_started: "commit_done k ep r (set_phase k p s) = commit_done k ep r s"
  by (simp add: commit_done_def set_phase_first cong: sum.case_cong ws_exc.case_cong)

lemma begin_close_inv:
  assumes inv: "minv (mstate s u n)" and q: "mg_queue s k = t # ts" "tk_phase t = Waiting" "tk_job t = Close x"
  shows "minv (mstate (begin_close k x s) u n)"
proof -
  have t: "\<not> is_unit_job t" "is_close t" "is_unpublished t \<longleftrightarrow> x \<noteq> None"
    using q(2,3) by (auto simp: is_unit_job_def is_unpublished_def is_close_def split: option.split)
  note kok = minvD(2)[OF inv, of k, unfolded ok_at_def q(1)]
  show ?thesis
  proof (cases "mg_active s k = None \<and> x = None")
    case True
    then have "unpublish k s = s" by (simp add: unpublish_def fun_upd_idem)
    then show ?thesis using True skip_inv[OF inv q(1,2) t(1)] t(3) by (simp add: begin_close_def Let_def)
  next
    case False
    then obtain ep where ep: "(case mg_active s k of Some e \<Rightarrow> Some e | None \<Rightarrow> x) = Some ep" by (cases "mg_active s k") auto
    have occ: "k \<in> mg_occupied s" using key_begin_close(2)[OF kok q(2) t(2)] False t(3) by auto
    have "key_ok (k \<in> mg_occupied s) False (mg_errors s k) (t\<lparr>tk_phase := Committing ep\<rparr> # ts) (k \<in> u) {i. (k, i) \<in> mg_late s}"
      using key_begin_close(1)[OF kok q(2) t(2)] False t(3) by auto
    then have committing: "minv (mstate (set_phase k (Committing ep) (unpublish k s)) u n)"
      using q(1) minvD(4)[OF inv, of k] by (intro minv_local[OF inv, of k]) (simp_all add: ok_at_def)
    moreover have "at_phase k (Committing ep) (set_phase k (Committing ep) (unpublish k s))"
      using q(1) by (simp add: at_phase_def)
    ultimately have "minv (mstate (commit_done k ep (Inr None) (unpublish k s)) u n)"
      using commit_done_inv[of "set_phase k (Committing ep) (unpublish k s)" u n k ep "Inr None"] by (simp add: commit_started)
    then show ?thesis using committing occ ep by (simp add: begin_close_def Let_def)
  qed
qed

lemma begin_recover_inv:
  assumes inv: "minv (mstate s u n)" and q: "mg_queue s k = t # ts" "tk_phase t = Waiting" "tk_job t = Recover i"
  shows "minv (mstate (begin_recover k i s) u n)"
proof -
  have t: "\<not> is_unit_job t" "\<not> is_unpublished t" using q(3) by (simp_all add: is_unit_job_def is_unpublished_def)
  note kok = minvD(2)[OF inv, of k, unfolded ok_at_def q(1)]
  have "minv (mstate (set_phase k (Retiring RecoverNext) (lose_unit k i (unpublish k s))) u n)" if h: "mg_active s k = Some ep" for ep
  proof -
    have "key_ok (k \<in> mg_occupied s) False (mg_errors s k) (t\<lparr>tk_phase := Retiring RecoverNext\<rparr> # ts) (k \<in> u) {i. (k, i) \<in> mg_late s}"
      using key_begin_recover[OF _ q(2) t(1)] kok h by simp
    then show ?thesis
      using q(1) minvD(4)[OF inv, of k] by (intro minv_local[OF inv, of k]) (simp_all add: ok_at_def)
  qed
  then show ?thesis
    using skip_inv[OF inv q(1,2) t] by (auto simp: begin_recover_def split: option.split)
qed

lemma begin_unit_inv:
  assumes inv: "minv (mstate s u n)" and q: "mg_queue s k = t # ts" "tk_phase t = Waiting" "is_unit_job t"
    and p: "p \<noteq> Waiting" "phase_of_job p True" "is_settling p \<Longrightarrow> tk_job t \<noteq> Retire" "\<not> is_placing p"
  shows "minv (mstate (set_phase k p s) u n)"
  using key_begin_unit[OF _ q(2,3) p] minvD(2)[OF inv, of k] minvD(4)[OF inv, of k] q(1)
  by (intro minv_local[OF inv, of k]) (simp_all add: ok_at_def)

lemma begin_task_inv:
  assumes inv: "minv (mstate s u n)" and q: "mg_queue s k = t # ts" "tk_phase t = Waiting"
  shows "minv (mstate (begin_task now monotonic k (tk_job t) s) u n)"
proof (cases "tk_job t")
  case Retire
  then show ?thesis using begin_unit_inv[OF inv q, of "Retiring RetireDone"] by (simp add: begin_task_def is_unit_job_def)
next
  case (Adopt pl d)
  then show ?thesis using begin_unit_inv[OF inv q] by (simp add: begin_task_def begin_adopt_def is_unit_job_def)
qed (use begin_activate_inv[OF inv q] begin_close_inv[OF inv q] begin_recover_inv[OF inv q] in \<open>simp_all add: begin_task_def\<close>)

lemma adopt_jobs:
  assumes "distinct (map fst units)" "\<And>k. nunits (mg_queue s k) = 0"
  shows "fold (\<lambda>(k, pl). run_job k (Adopt pl False)) units s =
    s\<lparr>mg_queue := (\<lambda>k. case map_of units k of None \<Rightarrow> mg_queue s k
        | Some pl \<Rightarrow> mg_queue s k @ [\<lparr>tk_job = Adopt pl False, tk_phase = Waiting\<rparr>])\<rparr>"
  using assms
proof (induction units rule: rev_induct)
  case (snoc x units)
  obtain k pl where x: "x = (k, pl)" by fastforce
  have none: "map_of units k = None" using snoc.prems(1) x by (simp add: map_of_eq_None_iff)
  have "nunits q = 0 \<Longrightarrow> \<not> pending (Adopt pl False) q" for q
  proof (induction q)
    case (Cons t q)
    have "same_kind (tk_job t) (Adopt pl False) \<Longrightarrow> is_unit_job t" by (cases "tk_job t") (simp_all add: is_unit_job_def)
    then show ?case using Cons by (auto simp: pending_def split: if_splits)
  qed (simp add: pending_def)
  then have np: "\<not> pending (Adopt pl False) (mg_queue s k)" using snoc.prems(2) by blast
  have "map_of (units @ [x]) k' = (if k' = k then Some pl else map_of units k')" for k'
    using none x by (auto simp: map_add_def split: option.split)
  then show ?case
    using snoc x np none by (auto simp: run_job_def enqueue_job_def fun_eq_iff)
qed simp

lemma adoption_listed_inv:
  assumes inv: "minv (mstate s u n)" and ad: "mg_adoption s = Listing" and di: "distinct (map fst units)"
  shows "minv (mstate (adoption_listed units s) (u \<union> fst ` set units) (length units))"
proof -
  have empty: "mg_occupied s = {}" "n = 0" using minvD(3)[OF inv] ad by auto
  have kok: "key_ok False (mg_active s k \<noteq> None) (mg_errors s k) (mg_queue s k) (k \<in> u) {i. (k, i) \<in> mg_late s}" for k
    using minvD(2)[OF inv, of k] empty by (simp add: ok_at_def)
  have idle: "nunits (mg_queue s k) = 0" "\<not> acts (mg_queue s k)" for k
    using kok[of k] minvD(4)[OF inv, of k] ad by (simp_all add: key_defs)
  let ?s = "s\<lparr>mg_occupied := mg_occupied s \<union> fst ` set units, mg_adoption := Adopting\<rparr>"
  have eq: "adoption_listed units s = ?s\<lparr>mg_queue := (\<lambda>k. case map_of units k of None \<Rightarrow> mg_queue s k
        | Some pl \<Rightarrow> mg_queue s k @ [\<lparr>tk_job = Adopt pl False, tk_phase = Waiting\<rparr>])\<rparr>"
    using adopt_jobs[OF di, of ?s] idle by (simp add: adoption_listed_def cong: option.case_cong)
  have card: "card (fst ` set units) = length units" using di by (metis distinct_card length_map list.set_map)
  show ?thesis
  proof (rule minvI)
    show "ok_at k (adoption_listed units s) (u \<union> fst ` set units)" for k
    proof (cases "map_of units k")
      case None
      then have "k \<notin> fst ` set units" by (simp add: map_of_eq_None_iff)
      then show ?thesis using kok[of k] None empty by (simp add: eq ok_at_def)
    next
      case (Some pl)
      then have "k \<in> fst ` set units" by (metis map_of_eq_None_iff option.distinct(1))
      then show ?thesis using key_listed[OF kok[of k] idle(2)] Some by (simp add: eq ok_at_def)
    qed
    show "\<not> acts (mg_queue (adoption_listed units s) k)" for k
      using idle(2)[of k] by (simp add: eq is_activate_def split: option.split)
  qed (use empty card in \<open>simp_all add: eq\<close>)
qed

lemma timeout_inv: "minv (mstate s u n) \<Longrightarrow> at_phase k (Retiring a) s \<Longrightarrow> minv (mstate (retire_timeout k s) u n)"
  by (erule at_phaseE) (rule end_task_inv(6), auto)

lemma gone_inv:
  assumes inv: "minv (mstate s u n)"
  shows "minv (mstate s (u - {k}) n)"
  using key_unit_gone minvD(2)[OF inv, of k] minvD(4)[OF inv, of k]
  by (intro minv_local[OF inv, of k]) (auto simp: ok_at_def)

lemma raised_inv:
  assumes inv: "minv (mstate s u n)" and ph: "at_phase k (Retiring a) s"
  shows "minv (mstate (retire_raised k s) (u - {k}) n)"
proof -
  obtain t ts where q: "mg_queue s k = t # ts" "tk_phase t = Retiring a" using ph by (rule at_phaseE)
  then show ?thesis
    using end_task_inv(5)[OF gone_inv[OF inv, of k] q(1)] by (simp add: retire_raised_def)
qed

lemma minv_reachable: "mreachable st \<Longrightarrow> minv (fst st)"
proof (induction rule: mreachable.induct)
  case (initial agent s3 ready capacity b1 b2 b3 b4 s)
  have "minv (mstate s {} 0)"
    using initial by (intro minvI) (auto simp: new_manager_def ok_at_def key_defs split: if_splits)
  then show ?case by simp
next
  case (step st st')
  from step(2) step.IH show ?case
    by (cases rule: mstep.cases) (simp_all add: ensure_inv close_inv recover_inv begin_task_inv place_done_inv probe_done_inv restore_done_inv
      reconnect_done_inv commit_done_inv retired_inv raised_inv timeout_inv retired_late_inv adoption_listed_inv gateway_back_inv
      adopt_probe_done_inv adopt_reconnect_done_inv adopt_settle_inv flags_inv gone_inv)
qed

section \<open>Properties\<close>

definition demo_agent :: agent_identity where
  "demo_agent = \<lparr>ai_name = ''a'', ai_namespace = ''ns'', ai_uid = ''u''\<rparr>"

definition demo_ref :: ws_ref where
  "demo_ref = \<lparr>wr_namespace = ''ns'', wr_agent_uid = ''u'', wr_ref = ''w''\<rparr>"

definition demo_placement :: placement where
  "demo_placement = \<lparr>pl_name = ''agent-w'', pl_base_url = ''http://w'', pl_registration = 1\<rparr>"

definition demo_adopted :: mgr where
  "demo_adopted = \<lparr>mg_agent = demo_agent, mg_s3 = False, mg_ready_timeout = 60, mg_has_restore = False, mg_has_commit = False,
     mg_has_health = True, mg_capacity = 1, mg_occupied = {}, mg_active = Map.empty, mg_queue = (\<lambda>_. []),
     mg_errors = Map.empty, mg_adoption = Adopted, mg_lost = {}, mg_late = {}, mg_fresh = 0, mg_alarms = []\<rparr>"

definition demo_placing :: mgr where
  "demo_placing = demo_adopted\<lparr>mg_occupied := {''w''}, mg_queue := (\<lambda>_. [])(''w'' := [\<lparr>tk_job = Activate None, tk_phase = Placing 60\<rparr>])\<rparr>"

definition demo_serving :: mgr where
  "demo_serving = reconnect_done ''w'' (endpoint_of ''w'' demo_placement ''i1'' demo_adopted) (Inr ()) True
     (probe_done ''w'' demo_placement (Inr ''i1'') True (place_done ''w'' (Inr demo_placement) demo_placing))"

lemma demo_adopted_reachable: "mreachable (mstate demo_adopted {} 0, {})"
proof -
  obtain s where s: "new_manager demo_agent False 60 1 False False True True = Inr s" by (simp add: new_manager_def)
  have "mreachable (mstate s {} 0, {})" by (rule initial[OF s])
  then have "mreachable (mstate (start_adoption s) {} 0, {})" by (rule mreachable.step) (rule mstep.start_adoption)
  then have "mreachable (mstate (adoption_listed [] (start_adoption s)) ({} \<union> fst ` set ([] :: (string \<times> placement) list)) (length ([] :: (string \<times> placement) list)), {})"
    by (rule mreachable.step) (rule mstep.adoption_listed, use s in \<open>auto simp: new_manager_def start_adoption_def\<close>)
  then have "mreachable (mstate (adoption_settled (adoption_listed [] (start_adoption s))) ({} \<union> fst ` set ([] :: (string \<times> placement) list)) (length ([] :: (string \<times> placement) list)), {})"
    by (rule mreachable.step)
       (rule mstep.adoption_settled, use s in \<open>auto simp: new_manager_def start_adoption_def adoption_listed_def\<close>)
  moreover have "adoption_settled (adoption_listed [] (start_adoption s)) = demo_adopted"
    using s by (auto simp: new_manager_def start_adoption_def adoption_listed_def adoption_settled_def demo_adopted_def)
  ultimately show ?thesis by simp
qed

lemma demo_placing_reachable: "mreachable (mstate demo_placing {} 0, {})"
proof -
  let ?s = "snd (ensure 0 demo_ref None demo_adopted)"
  have "mreachable (mstate ?s {} 0, {})"
    by (rule mreachable.step[OF demo_adopted_reachable]) (rule mstep.ensure)
  then have "mreachable (mstate (begin_task 0 0 ''w'' (tk_job \<lparr>tk_job = Activate None, tk_phase = Waiting\<rparr>) ?s) {} 0, {})"
    by (rule mreachable.step)
       (rule mstep.begin_task[of _ _ _ "[]"], simp_all add: ensure_def Let_def demo_ref_def demo_adopted_def demo_agent_def
          validate_ref_def lifecycle_pending_def has_slot_def reserve_def run_job_def pending_def enqueue_job_def)
  moreover have "begin_task 0 0 ''w'' (Activate None) ?s = demo_placing"
    by (simp add: ensure_def Let_def demo_ref_def demo_adopted_def demo_agent_def begin_task_def begin_activate_def set_phase_def
          validate_ref_def lifecycle_pending_def has_slot_def reserve_def run_job_def pending_def enqueue_job_def
          startup_deadline_def demo_placing_def)
  ultimately show ?thesis by simp
qed

lemma demo_serving_reachable: "mreachable (mstate demo_serving {''w''} 0, {})"
proof -
  let ?s1 = "place_done ''w'' (Inr demo_placement) demo_placing"
  let ?s2 = "probe_done ''w'' demo_placement (Inr ''i1'') True ?s1"
  have "mreachable (mstate ?s1 (case Inr demo_placement :: (ws_exc, placement) result of Inl _ \<Rightarrow> {} | Inr _ \<Rightarrow> insert ''w'' {}) 0, {})"
    by (rule mreachable.step[OF demo_placing_reachable]) (rule mstep.place_done, simp add: at_phase_def demo_placing_def)
  then have "mreachable (mstate ?s1 {''w''} 0, {})" by simp
  then have "mreachable (mstate ?s2 {''w''} 0, {})"
    by (rule mreachable.step)
       (rule mstep.probe_done, simp add: at_phase_def place_done_def set_phase_def demo_placing_def)
  then show ?thesis unfolding demo_serving_def
    by (rule mreachable.step)
       (rule mstep.reconnect_done[of _ demo_placement], simp add: at_phase_def place_done_def probe_done_def probed_def after_probe_def
          set_phase_def demo_placing_def demo_adopted_def endpoint_of_def)
qed

text \<open>
  C12. The host never runs more units than \<open>limits.maxActiveWorkspaces\<close> allows, short of those whose retire
  failed. In every reachable state each unit handed out, not confirmed gone and not left in doubt by a
  retire that raised holds a slot, and so do a published endpoint and a retained error; the slots
  taken, and so those units, are at most the configured capacity, or the number of units found at
  startup when that is more.
\<close>

theorem units_within_capacity:
  assumes "mreachable (st, doubt)"
  shows "ms_units st \<subseteq> mg_occupied (ms_mgr st) \<and> dom (mg_active (ms_mgr st)) \<union> dom (mg_errors (ms_mgr st)) \<subseteq> mg_occupied (ms_mgr st)
    \<and> card (mg_occupied (ms_mgr st)) \<le> max (mg_capacity (ms_mgr st)) (ms_adopted st)
    \<and> card (ms_units st) \<le> max (mg_capacity (ms_mgr st)) (ms_adopted st)"
proof -
  obtain s u n where st: "st = mstate s u n" by (metis mstate_def mstate.surjective unit.exhaust)
  then have inv: "minv (mstate s u n)" using minv_reachable[OF assms] by simp
  have "key_ok (k \<in> mg_occupied s) (mg_active s k \<noteq> None) (mg_errors s k) (mg_queue s k) (k \<in> u) {i. (k, i) \<in> mg_late s}" for k
    using minvD(2)[OF inv, of k] by (simp add: ok_at_def)
  then have "(k \<in> u \<longrightarrow> k \<in> mg_occupied s) \<and> (mg_active s k \<noteq> None \<longrightarrow> k \<in> mg_occupied s)
      \<and> (mg_errors s k \<noteq> None \<longrightarrow> k \<in> mg_occupied s)" for k
    unfolding key_ok_def holds_ok_def by blast
  then have "u \<subseteq> mg_occupied s" "dom (mg_active s) \<union> dom (mg_errors s) \<subseteq> mg_occupied s" by (auto simp: dom_def)
  moreover have "card u \<le> card (mg_occupied s)" using calculation(1) minvD(1)[OF inv] by (rule card_mono[rotated])
  ultimately show ?thesis using minvD(5)[OF inv] st by simp
qed

theorem units_within_capacity_witness: "''w'' \<in> mg_occupied demo_serving \<and> card (mg_occupied demo_serving) \<le> mg_capacity demo_serving"
  using units_within_capacity[OF demo_serving_reachable] by simp

text \<open>
  C13. A Workspace never gets a second unit beside one that was retired in order. Whenever the manager
  asks the source to place a Workspace, every unit that the source handed out for it before was
  confirmed gone or is known lost, unless the source raised when that unit was to be retired. The
  request holds a slot, and nothing of that Workspace is published meanwhile.
\<close>

theorem unit_never_doubled:
  assumes "mreachable (st, doubt)" "at_phase k (Placing d) (ms_mgr st)"
  shows "k \<notin> ms_units st \<and> k \<in> mg_occupied (ms_mgr st) \<and> mg_active (ms_mgr st) k = None"
proof -
  obtain s u n where st: "st = mstate s u n" by (metis mstate_def mstate.surjective unit.exhaust)
  then have inv: "minv (mstate s u n)" using minv_reachable[OF assms(1)] by simp
  obtain t ts where q: "mg_queue s k = t # ts" "tk_phase t = Placing d" using assms(2) st by (auto elim: at_phaseE)
  have "tk_phase t \<noteq> Waiting" "is_placing (tk_phase t)" using q by simp_all
  then show ?thesis
    using started_facts[OF minvD(2)[OF inv, of k, unfolded ok_at_def q(1)]] st by simp
qed

theorem unit_never_doubled_witness: "''w'' \<notin> ms_units (mstate demo_placing {} 0) \<and> mg_active demo_placing ''w'' = None"
  using unit_never_doubled[OF demo_placing_reachable, of "''w''" 60] by (simp add: at_phase_def demo_placing_def)

text \<open>
  The two ways a raising retire ends. The activation whose unit could not be retired leaves the slot
  held and nothing else, and the next demand places the Workspace again while the first unit is in
  doubt; and a retire that raises after its wait frees the slot of a unit nobody confirmed gone.
\<close>

definition demo_doubt :: mgr where
  "demo_doubt = probe_done ''w'' demo_placement (Inr ''i1'') False (place_done ''w'' (Inr demo_placement) demo_placing)"

definition demo_again :: mgr where
  "demo_again = begin_task 0 0 ''w'' (Activate None) (snd (ensure 0 demo_ref None (retire_raised ''w'' demo_doubt)))"

lemmas demo_defs = demo_serving_def demo_again_def demo_doubt_def demo_placing_def demo_adopted_def demo_ref_def demo_agent_def
  place_done_def probe_done_def probed_def after_probe_def fail_start_def set_phase_def at_phase_def retire_raised_def finish_task_def
  ensure_def Let_def validate_ref_def lifecycle_pending_def has_slot_def reserve_def run_job_def pending_def enqueue_job_def
  begin_task_def begin_activate_def startup_deadline_def endpoint_of_def retire_timeout_def retain_error_def retired_late_def release_def

lemma demo_doubt_reachable: "mreachable (mstate demo_doubt {''w''} 0, {})"
proof -
  let ?s1 = "place_done ''w'' (Inr demo_placement) demo_placing"
  have "mreachable (mstate ?s1 (case Inr demo_placement :: (ws_exc, placement) result of Inl _ \<Rightarrow> {} | Inr _ \<Rightarrow> insert ''w'' {}) 0, {})"
    by (rule mreachable.step[OF demo_placing_reachable]) (rule mstep.place_done, simp add: demo_defs)
  then have "mreachable (mstate ?s1 {''w''} 0, {})" by simp
  then show ?thesis unfolding demo_doubt_def
    by (rule mreachable.step) (rule mstep.probe_done, simp add: demo_defs)
qed

lemma raised_retire_doubles: "mreachable (mstate demo_again {} 0, {''w''}) \<and> at_phase ''w'' (Placing 60) demo_again"
proof -
  have "at_phase ''w'' (Retiring (RaiseAfter WsConflict)) demo_doubt" by (simp add: demo_defs)
  then have "mreachable (mstate (retire_raised ''w'' demo_doubt) ({''w''} - {''w''}) 0, insert ''w'' {})"
    by (rule mreachable.step[OF demo_doubt_reachable mstep.retire_raised])
  then have "mreachable (mstate (retire_raised ''w'' demo_doubt) {} 0, {''w''})" by simp
  then have "mreachable (mstate (snd (ensure 0 demo_ref None (retire_raised ''w'' demo_doubt))) {} 0, {''w''})"
    by (rule mreachable.step[OF _ mstep.ensure])
  then have "mreachable (mstate (begin_task 0 0 ''w'' (tk_job \<lparr>tk_job = Activate None, tk_phase = Waiting\<rparr>)
      (snd (ensure 0 demo_ref None (retire_raised ''w'' demo_doubt)))) {} 0, {''w''})"
    by (rule mreachable.step) (rule mstep.begin_task[of _ _ _ "[]"], simp_all add: demo_defs)
  then show ?thesis by (simp add: demo_again_def) (simp add: demo_defs)
qed

lemma raised_late_frees:
  "mreachable (mstate (retired_late ''w'' 0 LateRaised (retire_timeout ''w'' demo_doubt)) {} 0, {''w''})
   \<and> ''w'' \<notin> mg_occupied (retired_late ''w'' 0 LateRaised (retire_timeout ''w'' demo_doubt))"
proof -
  have "at_phase ''w'' (Retiring (RaiseAfter WsConflict)) demo_doubt" by (simp add: demo_defs)
  then have r: "mreachable (mstate (retire_timeout ''w'' demo_doubt) {''w''} 0, {})"
    by (rule mreachable.step[OF demo_doubt_reachable mstep.retire_timeout])
  have "(''w'', 0) \<in> mg_late (retire_timeout ''w'' demo_doubt)" by (simp add: demo_defs)
  from mreachable.step[OF r mstep.retired_late[OF this, of _ _ _ LateRaised]]
  show ?thesis by simp (simp add: demo_defs)
qed

text \<open>
  \<open>ensure\<close> never delivers an endpoint that is being frozen, retired or replaced. Whenever it returns an
  endpoint, that endpoint is the published one, its Workspace holds a slot, no task of the Workspace is
  running or waiting, and no error of it is retained.
\<close>

theorem delivered_endpoint_settled:
  assumes "mreachable (st, doubt)" "fst (ensure now r d (ms_mgr st)) = Deliver ep"
  shows "mg_active (ms_mgr st) (wr_ref r) = Some ep \<and> wr_ref r \<in> mg_occupied (ms_mgr st)
    \<and> mg_queue (ms_mgr st) (wr_ref r) = [] \<and> mg_errors (ms_mgr st) (wr_ref r) = None"
proof -
  obtain s u n where st: "st = mstate s u n" by (metis mstate_def mstate.surjective unit.exhaust)
  then have inv: "minv (mstate s u n)" using minv_reachable[OF assms(1)] by simp
  let ?k = "wr_ref r"
  have en: "mg_active s ?k = Some ep" "mg_errors s ?k = None" "\<not> lifecycle_pending (mg_queue s ?k)"
    using assms(2) unfolding st
    by (auto simp: ensure_def Let_def slot_wait_def split: if_splits option.splits sum.splits)
  have kok: "key_ok (?k \<in> mg_occupied s) True None (mg_queue s ?k) (?k \<in> u) {i. (?k, i) \<in> mg_late s}"
    using minvD(2)[OF inv, of ?k] en by (simp add: ok_at_def)
  have "\<not> acts (mg_queue s ?k)" "\<not> acts (tl (mg_queue s ?k))" "?k \<in> mg_occupied s" using kok by (simp_all add: key_defs)
  moreover have "pending (Activate None) q \<Longrightarrow> acts q" for q
    by (induction q) (auto simp: pending_def is_activate_def split: job.splits)
  ultimately show ?thesis using activations_only[OF en(3), of None] en st by auto
qed

theorem delivered_endpoint_settled_witness: "mg_queue demo_serving ''w'' = []"
proof -
  have "fst (ensure 0 demo_ref None (ms_mgr (mstate demo_serving {''w''} 0))) = Deliver (endpoint_of ''w'' demo_placement ''i1'' demo_adopted)"
    by (simp add: demo_serving_def ensure_def Let_def demo_ref_def demo_adopted_def demo_agent_def demo_placing_def place_done_def probe_done_def
        probed_def after_probe_def set_phase_def reconnect_done_def finish_task_def publish_endpoint_def validate_ref_def lifecycle_pending_def)
  from delivered_endpoint_settled[OF demo_serving_reachable this] show ?thesis by (simp add: demo_ref_def)
qed

end
