(* ===== verification/Hosted.thy ===== *)
theory Hosted
  imports Workspaces Refs
begin

text \<open>
  \<open>harness/hosted.py\<close>, \<open>harness/local.py\<close> and \<open>harness/launch.py\<close>: the two \<open>WorkspaceSource\<close>s and the host API.

  The entries of the hosted source are a dictionary in insertion order; an entry carries a number that
  stands for the identity of its object. The coroutines are cut at their awaits: \<open>place_begin\<close> and
  \<open>place_poll\<close>, \<open>retire_begin\<close> and \<open>retire_poll\<close>. The name of a Workspace, JSON reading and the environment of
  a started application are arguments.
\<close>

section \<open>Launch environment\<close>

definition env_value_max :: nat where "env_value_max = 8 * 1024"

definition env_value_ok :: "string \<Rightarrow> bool" where
  "env_value_ok v \<longleftrightarrow> chr 10 \<notin> set v \<and> length (utf8 v) \<le> env_value_max"

definition launch_env :: "string \<Rightarrow> string \<Rightarrow> ws_ref \<Rightarrow> string \<Rightarrow> (ws_exc, (string \<times> string) list) result" where
  "launch_env bootstrap_json verify_key r name =
     (let env = [(''ACH_SANDBOX_VERIFY_KEY'', verify_key), (''ACH_WORKSPACE_NAME'', name),
                 (''ACH_WORKSPACE_REF'', wr_ref r), (''ACH_BOOTSTRAP_JSON'', bootstrap_json)] in
      if \<forall>(k, v) \<in> set env. env_value_ok v then Inr env else Inl WsAssemblyUnavailable)"

section \<open>The hosted source\<close>

datatype desired = Running | Released

datatype unit_state = ProbingUnit | ServingUnit

record hosted =
  ho_ref :: ws_ref
  ho_name :: string
  ho_desired :: desired
  ho_launch :: "(string \<times> string) list"
  ho_placement :: "placement option"
  ho_observed_instance :: "string option"
  ho_state :: "unit_state option"
  ho_id :: nat

record hosted_source =
  hs_agent :: agent_identity
  hs_verify_key :: string
  hs_bootstrap_json :: string
  hs_epoch :: string
  hs_revision :: nat
  hs_adopting :: bool
  hs_stopping :: bool
  hs_entries :: "(string \<times> hosted) list"
  hs_inventory :: "(ws_ref \<times> placement) list"
  hs_registrations :: nat
  hs_next_id :: nat
  hs_gateway :: bool
  hs_lost_calls :: "(string \<times> string option) list"

definition new_hosted_source :: "agent_identity \<Rightarrow> string \<Rightarrow> string \<Rightarrow> string \<Rightarrow> hosted_source" where
  "new_hosted_source agent bootstrap_json verify_key epoch =
     \<lparr>hs_agent = agent, hs_verify_key = verify_key, hs_bootstrap_json = bootstrap_json, hs_epoch = epoch, hs_revision = 0,
      hs_adopting = True, hs_stopping = False, hs_entries = [], hs_inventory = [], hs_registrations = 1, hs_next_id = 0,
      hs_gateway = True, hs_lost_calls = []\<rparr>"

definition entry_of :: "hosted_source \<Rightarrow> string \<Rightarrow> hosted option" where
  "entry_of s name = map_of (hs_entries s) name"

fun dict_update :: "'a \<Rightarrow> 'b \<Rightarrow> ('a \<times> 'b) list \<Rightarrow> ('a \<times> 'b) list" where
  "dict_update k v [] = [(k, v)]"
| "dict_update k v ((a, b) # d) = (if a = k then (k, v) # d else (a, b) # dict_update k v d)"

definition dict_del :: "'a \<Rightarrow> ('a \<times> 'b) list \<Rightarrow> ('a \<times> 'b) list" where
  "dict_del k d = filter (\<lambda>(a, _). a \<noteq> k) d"

definition touch :: "hosted_source \<Rightarrow> hosted_source" where
  "touch s = s\<lparr>hs_revision := hs_revision s + 1\<rparr>"

definition set_entry :: "string \<Rightarrow> hosted \<Rightarrow> hosted_source \<Rightarrow> hosted_source" where
  "set_entry name e s = s\<lparr>hs_entries := dict_update name e (hs_entries s)\<rparr>"

definition del_entry :: "string \<Rightarrow> hosted_source \<Rightarrow> hosted_source" where
  "del_entry name s = s\<lparr>hs_entries := dict_del name (hs_entries s)\<rparr>"

definition set_gateway :: "bool \<Rightarrow> hosted_source \<Rightarrow> hosted_source" where
  "set_gateway available s = s\<lparr>hs_gateway := available\<rparr>"

text \<open>\<open>wait_gateway\<close> up to its wait, and after it, when \<open>s\<close> is the state by then.\<close>

definition wait_gateway_now :: "rat \<Rightarrow> rat \<Rightarrow> hosted_source \<Rightarrow> bool option" where
  "wait_gateway_now now deadline s = (if hs_gateway s \<or> deadline - now \<le> 0 then Some (hs_gateway s) else None)"

definition cursor :: "hosted_source \<Rightarrow> string" where
  "cursor s = hs_epoch s @ ''.'' @ nat_str (hs_revision s)"

definition launch_spec :: "ws_ref \<Rightarrow> string \<Rightarrow> hosted_source \<Rightarrow> (ws_exc, (string \<times> string) list) result" where
  "launch_spec r name s = launch_env (hs_bootstrap_json s) (hs_verify_key s) r name"

definition place_begin :: "ws_ref \<Rightarrow> string \<Rightarrow> hosted_source \<Rightarrow> (ws_exc, nat) result \<times> hosted_source" where
  "place_begin r name s =
     (if entry_of s name \<noteq> None then (Inl WsConflict, s)
      else case launch_spec r name s of
        Inl e \<Rightarrow> (Inl e, s)
      | Inr env \<Rightarrow>
          (Inr (hs_next_id s), touch ((set_entry name \<lparr>ho_ref = r, ho_name = name, ho_desired = Running, ho_launch = env,
             ho_placement = None, ho_observed_instance = None, ho_state = None, ho_id = hs_next_id s\<rparr> s)
             \<lparr>hs_next_id := hs_next_id s + 1\<rparr>)))"

text \<open>
  \<open>place_poll\<close> is a turn of the wait of \<open>place\<close> for the entry \<open>i\<close>; \<open>registered\<close> is the placement that entry
  has got, kept by the coroutine even when the dictionary no longer holds the entry.
\<close>

datatype poll = PlaceReturns placement | PlaceWaits rat | PlaceUnhosted

definition is_entry :: "hosted_source \<Rightarrow> string \<Rightarrow> nat \<Rightarrow> bool" where
  "is_entry s name i = (case entry_of s name of Some e \<Rightarrow> ho_id e = i | None \<Rightarrow> False)"

definition place_poll :: "rat \<Rightarrow> rat \<Rightarrow> string \<Rightarrow> nat \<Rightarrow> placement option \<Rightarrow> hosted_source \<Rightarrow> poll \<times> hosted_source" where
  "place_poll now deadline name i registered s =
     (case registered of
        Some pl \<Rightarrow> (PlaceReturns pl, s)
      | None \<Rightarrow> if deadline - now \<le> 0
                then (PlaceUnhosted, if is_entry s name i then touch (del_entry name s) else s)
                else (PlaceWaits (deadline - now), s))"

definition retire_begin :: "string \<Rightarrow> hosted_source \<Rightarrow> nat option \<times> hosted_source" where
  "retire_begin name s =
     (case entry_of s name of
        None \<Rightarrow> (None, s)
      | Some e \<Rightarrow> (Some (ho_id e), touch (set_entry name (e\<lparr>ho_desired := Released\<rparr>) s)))"

definition retire_poll :: "string \<Rightarrow> nat \<Rightarrow> hosted_source \<Rightarrow> bool" where
  "retire_poll name i s \<longleftrightarrow> \<not> is_entry s name i"

definition adopt_poll :: "hosted_source \<Rightarrow> (ws_ref \<times> placement) list option" where
  "adopt_poll s = (if hs_adopting s then None else Some (hs_inventory s))"

definition current :: "placement \<Rightarrow> hosted_source \<Rightarrow> hosted option" where
  "current pl s = (case entry_of s (pl_name pl) of
     Some e \<Rightarrow> if ho_desired e \<noteq> Running \<or> ho_placement e \<noteq> Some pl then None else Some e | None \<Rightarrow> None)"

definition observed :: "placement \<Rightarrow> string \<Rightarrow> hosted_source \<Rightarrow> bool \<times> hosted_source" where
  "observed pl i s = (case current pl s of
     None \<Rightarrow> (False, s)
   | Some e \<Rightarrow> (True, touch (set_entry (pl_name pl) (e\<lparr>ho_observed_instance := Some i\<rparr>) s)))"

definition serving :: "placement \<Rightarrow> string \<Rightarrow> hosted_source \<Rightarrow> bool \<times> hosted_source" where
  "serving pl i s = (case current pl s of
     None \<Rightarrow> (False, s)
   | Some e \<Rightarrow> (True, touch (set_entry (pl_name pl) (e\<lparr>ho_state := Some ServingUnit\<rparr>) s)))"

definition close_source :: "hosted_source \<Rightarrow> hosted_source" where
  "close_source s = touch (s\<lparr>hs_stopping := True\<rparr>)"

section \<open>Operations of the host\<close>

definition launch_json :: "string \<Rightarrow> (string \<times> string) list \<Rightarrow> json" where
  "launch_json ver env = JObj [(''runtimeRelease'', JStr ver), (''port'', JInt 8080),
     (''command'', JList (map JStr [''python'', ''-m'', ''ach_runtime'', ''execution''])),
     (''env'', JObj (map (\<lambda>(k, v). (k, JStr v)) env))]"

definition instance_json :: "hosted \<Rightarrow> json" where
  "instance_json e = (case ho_placement e of
     None \<Rightarrow> JNull
   | Some pl \<Rightarrow> JObj [(''instanceId'', opt_str (ho_observed_instance e)), (''baseUrl'', JStr (pl_base_url pl)),
       (''state'', opt_str (map_option (\<lambda>x. case x of ProbingUnit \<Rightarrow> ''probing'' | ServingUnit \<Rightarrow> ''serving'') (ho_state e)))])"

definition entry_json :: "string \<Rightarrow> hosted \<Rightarrow> json" where
  "entry_json ver e = JObj [(''name'', JStr (ho_name e)), (''workspaceRef'', JStr (wr_ref (ho_ref e))),
     (''desired'', JStr (case ho_desired e of Running \<Rightarrow> ''running'' | Released \<Rightarrow> ''released'')),
     (''launch'', launch_json ver (ho_launch e)), (''instance'', instance_json e)]"

definition snapshot :: "string \<Rightarrow> hosted_source \<Rightarrow> json" where
  "snapshot ver s = JObj [(''cursor'', JStr (cursor s)), (''runtimeEpoch'', JStr (hs_epoch s)), (''adopting'', JBool (hs_adopting s)),
     (''workspaces'', JList (if hs_adopting s then [] else map (entry_json ver \<circ> snd) (hs_entries s)))]"

text \<open>Whether \<open>listing\<close> is held, and what it answers from the state by then.\<close>

definition listing_held :: "string option \<Rightarrow> int \<Rightarrow> hosted_source \<Rightarrow> bool" where
  "listing_held after wait_seconds s \<longleftrightarrow> after = Some (cursor s) \<and> wait_seconds > 0 \<and> \<not> hs_stopping s"

definition listing_answer :: "string \<Rightarrow> hosted_source \<Rightarrow> json option" where
  "listing_answer ver s = (if hs_stopping s then None else Some (snapshot ver s))"

datatype register_error = NotDesired | Registered

definition register :: "string \<Rightarrow> string \<Rightarrow> hosted_source \<Rightarrow> (int \<times> register_error option) \<times> hosted_source" where
  "register name base_url s =
     (case entry_of s name of
        None \<Rightarrow> ((409, Some NotDesired), s)
      | Some e \<Rightarrow>
          if ho_desired e \<noteq> Running then ((409, Some NotDesired), s)
          else case ho_placement e of
            Some pl \<Rightarrow> if pl_base_url pl = base_url then ((200, None), s) else ((409, Some Registered), s)
          | None \<Rightarrow>
              ((202, None), touch (set_entry name
                 (e\<lparr>ho_placement := Some \<lparr>pl_name = name, pl_base_url = base_url, pl_registration = hs_registrations s\<rparr>,
                    ho_state := Some ProbingUnit\<rparr>) (s\<lparr>hs_registrations := hs_registrations s + 1\<rparr>))))"

definition unregister :: "string \<Rightarrow> string option \<Rightarrow> hosted_source \<Rightarrow> hosted_source" where
  "unregister name instance_id s =
     (case entry_of s name of
        None \<Rightarrow> s
      | Some e \<Rightarrow>
          if ho_placement e = None then s
          else if ho_observed_instance e \<noteq> None \<and> instance_id \<noteq> ho_observed_instance e then s
          else let s' = touch (del_entry name s) in
            if ho_desired e = Running then s'\<lparr>hs_lost_calls := hs_lost_calls s' @ [(name, ho_observed_instance e)]\<rparr> else s')"

text \<open>A unit of the inventory: its name, its Workspace reference and its base URL.\<close>

type_synonym host_unit = "string \<times> string \<times> string"

fun parse_units ::
  "(string \<Rightarrow> string option) \<Rightarrow> agent_identity \<Rightarrow> nat \<Rightarrow> host_unit list \<Rightarrow> nat \<times> (ws_ref \<times> placement) list option" where
  "parse_units name_of agent n [] = (n, Some [])"
| "parse_units name_of agent n ((name, wref, url) # us) =
     (let r = \<lparr>wr_namespace = ai_namespace agent, wr_agent_uid = ai_uid agent, wr_ref = wref\<rparr> in
      if canonical_ws_ref r \<noteq> Inr () \<or> name_of wref \<noteq> Some name then (n, None)
      else case parse_units name_of agent (n + 1) us of
        (m, None) \<Rightarrow> (m, None)
      | (m, Some ps) \<Rightarrow> (m, Some ((r, \<lparr>pl_name = name, pl_base_url = url, pl_registration = n\<rparr>) # ps)))"

text \<open>The entries of the inventory; a launch environment that does not fit ends the loop with an error.\<close>

fun inventory_entries :: "(ws_ref \<times> placement) list \<Rightarrow> hosted_source \<Rightarrow> (ws_exc, unit) result \<times> hosted_source" where
  "inventory_entries [] s = (Inr (), s)"
| "inventory_entries ((r, pl) # ps) s =
     (case launch_spec r (pl_name pl) s of
        Inl e \<Rightarrow> (Inl e, s)
      | Inr env \<Rightarrow> inventory_entries ps ((set_entry (pl_name pl) \<lparr>ho_ref = r, ho_name = pl_name pl, ho_desired = Running, ho_launch = env,
          ho_placement = Some pl, ho_observed_instance = None, ho_state = Some ProbingUnit, ho_id = hs_next_id s\<rparr> s)
          \<lparr>hs_next_id := hs_next_id s + 1\<rparr>))"

definition accept_inventory ::
  "(string \<Rightarrow> string option) \<Rightarrow> string \<Rightarrow> host_unit list \<Rightarrow> hosted_source \<Rightarrow> (ws_exc, int) result \<times> hosted_source" where
  "accept_inventory name_of epoch units s =
     (if epoch \<noteq> hs_epoch s then (Inr 409, s)
      else if \<not> hs_adopting s then (Inr 200, s)
      else case parse_units name_of (hs_agent s) (hs_registrations s) units of
        (m, None) \<Rightarrow> (Inr 422, s\<lparr>hs_registrations := m\<rparr>)
      | (m, Some parsed) \<Rightarrow>
          let s1 = s\<lparr>hs_registrations := m\<rparr> in
          if \<not> distinct (map (pl_name \<circ> snd) parsed) then (Inr 422, s1)
          else case inventory_entries parsed s1 of
            (Inl e, s2) \<Rightarrow> (Inl e, s2)
          | (Inr _, s2) \<Rightarrow> (Inr 202, touch (s2\<lparr>hs_inventory := parsed, hs_adopting := False\<rparr>)))"

section \<open>The routes of the host API\<close>

datatype host_route =
    GetWorkspaces "string option" "string option"
  | PutInstance string
  | DeleteInstance string "string option"
  | PutInventory
  | PutGateway

datatype answer = Status int | StatusError int register_error | Workspaces_Listed json | Held int | ServerError

definition max_body :: nat where "max_body = 1024 * 1024"

definition read_body :: "(string \<Rightarrow> json option) \<Rightarrow> string \<Rightarrow> dict option" where
  "read_body loads raw =
     (if length raw \<le> max_body then (case loads raw of Some (JObj d) \<Rightarrow> Some d | _ \<Rightarrow> None) else None)"

text \<open>\<open>re.match(ENDPOINT_PATTERN, v)\<close>: a scheme, and at least one character that is no slash and no white space.\<close>

definition endpoint_url :: "string \<Rightarrow> bool" where
  "endpoint_url v \<longleftrightarrow> (\<exists>pfx \<in> {''http://'', ''https://''}. take (length pfx) v = pfx \<and>
     (case drop (length pfx) v of [] \<Rightarrow> False | c # _ \<Rightarrow> c \<noteq> CHR ''/'' \<and> \<not> is_space c))"

definition valid_url :: "json \<Rightarrow> bool" where
  "valid_url v = (case v of JStr u \<Rightarrow> endpoint_url u | _ \<Rightarrow> False)"

definition str_of :: "json \<Rightarrow> string" where
  "str_of v = (case v of JStr x \<Rightarrow> x | _ \<Rightarrow> [])"

definition is_jstr :: "json \<Rightarrow> bool" where
  "is_jstr v = (case v of JStr _ \<Rightarrow> True | _ \<Rightarrow> False)"

definition unit_of :: "json \<Rightarrow> host_unit option" where
  "unit_of v = (case v of
     JObj d \<Rightarrow> if is_jstr (dict_get d ''name'' JNull) \<and> is_jstr (dict_get d ''workspaceRef'' JNull) \<and> valid_url (dict_get d ''baseUrl'' JNull)
               then Some (str_of (dict_get d ''name'' JNull), str_of (dict_get d ''workspaceRef'' JNull), str_of (dict_get d ''baseUrl'' JNull))
               else None
   | _ \<Rightarrow> None)"

definition list_workspaces :: "string \<Rightarrow> string option \<Rightarrow> string option \<Rightarrow> hosted_source \<Rightarrow> answer" where
  "list_workspaces ver after wait s =
     (case py_int_of_str (case wait of None \<Rightarrow> ''0'' | Some w \<Rightarrow> w) of
        None \<Rightarrow> Status 422
      | Some w \<Rightarrow>
          let secs = min 60 (max 0 w) in
          if listing_held after secs s then Held secs
          else case listing_answer ver s of None \<Rightarrow> Status 503 | Some v \<Rightarrow> Workspaces_Listed v)"

definition put_instance :: "string \<Rightarrow> dict option \<Rightarrow> hosted_source \<Rightarrow> answer \<times> hosted_source" where
  "put_instance name payload s =
     (case payload of
        None \<Rightarrow> (Status 422, s)
      | Some d \<Rightarrow>
          if \<not> valid_url (dict_get d ''baseUrl'' JNull) then (Status 422, s)
          else case register name (str_of (dict_get d ''baseUrl'' JNull)) s of
            ((c, None), s') \<Rightarrow> (Status c, s')
          | ((c, Some e), s') \<Rightarrow> (StatusError c e, s'))"

definition put_inventory :: "(string \<Rightarrow> string option) \<Rightarrow> dict option \<Rightarrow> hosted_source \<Rightarrow> answer \<times> hosted_source" where
  "put_inventory name_of payload s =
     (case payload of
        None \<Rightarrow> (Status 422, s)
      | Some d \<Rightarrow>
          (case (dict_get d ''runtimeEpoch'' JNull, dict_get d ''units'' JNull) of
             (JStr epoch, JList us) \<Rightarrow>
               if \<exists>v \<in> set us. unit_of v = None then (Status 422, s)
               else (case accept_inventory name_of epoch (map (\<lambda>v. the (unit_of v)) us) s of
                  (Inl _, s') \<Rightarrow> (ServerError, s') | (Inr c, s') \<Rightarrow> (Status c, s'))
           | _ \<Rightarrow> (Status 422, s)))"

definition put_gateway :: "dict option \<Rightarrow> hosted_source \<Rightarrow> answer \<times> hosted_source" where
  "put_gateway payload s =
     (case payload of
        None \<Rightarrow> (Status 422, s)
      | Some d \<Rightarrow> (case dict_get d ''available'' JNull of
          JBool b \<Rightarrow> (Status 204, set_gateway b s) | _ \<Rightarrow> (Status 422, s)))"

text \<open>\<open>guarded\<close>: the token of the host, then whether the source is stopping. Bodies are read by \<open>loads\<close>.\<close>

definition host_api ::
  "string \<Rightarrow> (string \<Rightarrow> string option) \<Rightarrow> (string \<Rightarrow> json option) \<Rightarrow> string \<Rightarrow> string \<Rightarrow> string \<Rightarrow> host_route \<Rightarrow> hosted_source \<Rightarrow> answer \<times> hosted_source" where
  "host_api ver name_of loads token authorization raw rt s =
     (if utf8 authorization \<noteq> utf8 (''Bearer '' @ token) then (Status 401, s)
      else if hs_stopping s then (Status 503, s)
      else case rt of
        GetWorkspaces after wait \<Rightarrow> (list_workspaces ver after wait s, s)
      | PutInstance name \<Rightarrow> put_instance name (read_body loads raw) s
      | DeleteInstance name i \<Rightarrow> (Status 204, unregister name i s)
      | PutInventory \<Rightarrow> put_inventory name_of (read_body loads raw) s
      | PutGateway \<Rightarrow> put_gateway (read_body loads raw) s)"

section \<open>The local source\<close>

text \<open>
  \<open>place\<close> checks the name, and after the clean-up and the start of the application registers it; the
  pieces are cut at those awaits. \<open>started_app\<close> is what the start of the application gave. The units are
  those whose application runs, \<open>ls_hosts\<close> the hosts the transport routes and \<open>ls_dirs\<close> the unit directories.
\<close>

record local_source =
  ls_units :: "string set"
  ls_hosts :: "string set"
  ls_dirs :: "string set"
  ls_registrations :: nat

definition new_local_source :: local_source where
  "new_local_source = \<lparr>ls_units = {}, ls_hosts = {}, ls_dirs = {}, ls_registrations = 1\<rparr>"

definition local_host :: "string \<Rightarrow> string" where
  "local_host name = name @ ''.local''"

definition local_place_begin :: "string \<Rightarrow> local_source \<Rightarrow> (ws_exc, unit) result" where
  "local_place_begin name s = require (name \<notin> ls_units s) WsConflict"

definition local_place_done :: "string \<Rightarrow> (string, unit) result \<Rightarrow> local_source \<Rightarrow> (ws_exc, placement) result \<times> local_source" where
  "local_place_done name started_app s =
     (case started_app of
        Inl _ \<Rightarrow> (Inl WsAssemblyUnavailable, s\<lparr>ls_dirs := ls_dirs s - {name}\<rparr>)
      | Inr _ \<Rightarrow> (Inr \<lparr>pl_name = name, pl_base_url = ''http://'' @ local_host name, pl_registration = ls_registrations s\<rparr>,
          s\<lparr>ls_units := insert name (ls_units s), ls_hosts := insert (local_host name) (ls_hosts s),
            ls_dirs := insert name (ls_dirs s), ls_registrations := ls_registrations s + 1\<rparr>))"

text \<open>
  \<open>retire\<close> forgets the unit and its route first; then the application is left, whose shutdown may raise
  (\<open>exited\<close>), and the directory is removed in any case. The error reaches the caller.
\<close>

definition local_retire :: "string \<Rightarrow> (ws_exc, unit) result \<Rightarrow> local_source \<Rightarrow> (ws_exc, unit) result \<times> local_source" where
  "local_retire name exited s =
     (let s' = s\<lparr>ls_units := ls_units s - {name}, ls_hosts := ls_hosts s - {local_host name}\<rparr>;
          r = (if name \<in> ls_units s then exited else Inr ())
      in (r, s'\<lparr>ls_dirs := ls_dirs s' - {name}\<rparr>))"

text \<open>\<open>adopt\<close> never takes over a unit of an earlier process: it removes what is left of them.\<close>

definition local_adopt :: "local_source \<Rightarrow> (ws_ref \<times> placement) list \<times> local_source" where
  "local_adopt s = ([], s\<lparr>ls_dirs := {}\<rparr>)"

definition local_routed :: "string \<Rightarrow> local_source \<Rightarrow> bool" where
  "local_routed host s \<longleftrightarrow> host \<in> ls_hosts s"

section \<open>Changes and the cursor\<close>

text \<open>What a listing shows besides the cursor.\<close>

definition visible :: "hosted_source \<Rightarrow> bool \<times> (string \<times> hosted) list" where
  "visible s = (hs_adopting s, if hs_adopting s then [] else hs_entries s)"

definition advances :: "hosted_source \<Rightarrow> hosted_source \<Rightarrow> bool" where
  "advances s s' \<longleftrightarrow> hs_epoch s' = hs_epoch s \<and> hs_revision s \<le> hs_revision s'
     \<and> (hs_revision s' = hs_revision s \<longrightarrow> visible s' = visible s)"

text \<open>Steps of the source other than a new placement, the inventory of the host among them, and all of them.\<close>

inductive hs_event :: "hosted_source \<Rightarrow> hosted_source \<Rightarrow> bool" where
  ev_poll: "hs_event s (snd (place_poll now deadline name i registered s))"
| ev_retire: "hs_event s (snd (retire_begin name s))"
| ev_observed: "hs_event s (snd (observed pl i s))"
| ev_serving: "hs_event s (snd (serving pl i s))"
| ev_close: "hs_event s (close_source s)"
| ev_gateway: "hs_event s (set_gateway b s)"
| ev_register: "hs_event s (snd (register name url s))"
| ev_unregister: "hs_event s (unregister name i' s)"
| ev_inventory: "hs_event s (snd (accept_inventory name_of epoch units s))"

inductive hs_step :: "hosted_source \<Rightarrow> hosted_source \<Rightarrow> bool" where
  st_event: "hs_event s s' \<Longrightarrow> hs_step s s'"
| st_place: "hs_step s (snd (place_begin r name s))"

lemmas source_ops = touch_def set_entry_def del_entry_def

lemma advances_refl [simp]: "advances s s"
  by (simp add: advances_def)

lemma advances_trans: "advances s s' \<Longrightarrow> advances s' s'' \<Longrightarrow> advances s s''"
  by (auto simp: advances_def)

lemma advances_touch: "hs_epoch s' = hs_epoch s \<Longrightarrow> hs_revision s' = hs_revision s \<Longrightarrow> advances s (touch s')"
  by (simp add: advances_def touch_def)

lemma inventory_entries_same:
  "inventory_entries ps s = (x, s') \<Longrightarrow> hs_epoch s' = hs_epoch s \<and> hs_revision s' = hs_revision s \<and> hs_adopting s' = hs_adopting s
     \<and> hs_registrations s' = hs_registrations s"
  by (induction ps s rule: inventory_entries.induct) (auto simp: set_entry_def split: sum.splits)

lemma accept_advances: "advances s (snd (accept_inventory name_of epoch units s))"
proof (cases "epoch = hs_epoch s \<and> hs_adopting s")
  case True
  obtain m ps where p: "parse_units name_of (hs_agent s) (hs_registrations s) units = (m, ps)" by fastforce
  have same: "advances s (s\<lparr>hs_registrations := m\<rparr>)" by (simp add: advances_def visible_def)
  have "advances s (snd (case inventory_entries parsed (s\<lparr>hs_registrations := m\<rparr>) of (Inl e, s2) \<Rightarrow> (Inl e, s2)
      | (Inr _, s2) \<Rightarrow> (Inr 202, touch (s2\<lparr>hs_inventory := parsed, hs_adopting := False\<rparr>)))) " for parsed
  proof -
    obtain x s2 where i: "inventory_entries parsed (s\<lparr>hs_registrations := m\<rparr>) = (x, s2)" by fastforce
    show ?thesis using inventory_entries_same[OF i] True i
      by (cases x) (auto simp: advances_def visible_def touch_def)
  qed
  then show ?thesis using True p same by (auto simp: accept_inventory_def Let_def split: option.split)
qed (auto simp: accept_inventory_def)

lemma event_advances: "hs_event s s' \<Longrightarrow> advances s s'"
proof (induction rule: hs_event.induct)
  case (ev_inventory s name_of epoch units)
  show ?case by (rule accept_advances)
qed (auto simp: place_poll_def retire_begin_def observed_def serving_def close_source_def set_gateway_def register_def
       unregister_def Let_def set_entry_def del_entry_def visible_def intro!: advances_touch split: option.split,
      auto simp: advances_def visible_def touch_def)

lemma step_advances: "hs_step s s' \<Longrightarrow> advances s s'"
  by (induction rule: hs_step.induct)
     (auto simp: event_advances place_begin_def set_entry_def intro!: advances_touch split: sum.split)

lemma steps_advance: "hs_step\<^sup>*\<^sup>* s s' \<Longrightarrow> advances s s'"
  by (induction rule: rtranclp_induct) (auto intro: advances_trans step_advances)

text \<open>
  C14. The long poll misses nothing. However the source changes, in any number of steps, a state with the
  same cursor lists the same: a host that holds the cursor of its last listing and is held because
  it is still current has seen the desired state, and every change of it moves the cursor.
\<close>

theorem listing_never_misses:
  assumes "hs_step\<^sup>*\<^sup>* s s'" "cursor s' = cursor s"
  shows "snapshot ver s' = snapshot ver s"
proof -
  have a: "advances s s'" by (rule steps_advance[OF assms(1)])
  then have "hs_revision s' = hs_revision s" using assms(2) by (auto simp: advances_def cursor_def dest: nat_str_inject)
  then have "visible s' = visible s" "hs_epoch s' = hs_epoch s" using a by (simp_all add: advances_def)
  then show ?thesis using assms(2) by (auto simp: snapshot_def visible_def)
qed

definition demo_source :: hosted_source where
  "demo_source = new_hosted_source \<lparr>ai_name = ''a'', ai_namespace = ''ns'', ai_uid = ''u''\<rparr> ''{}'' ''key'' ''e''"

theorem listing_never_misses_witness: "snapshot ''1.0'' (set_gateway False demo_source) = snapshot ''1.0'' demo_source"
proof -
  have "hs_step demo_source (set_gateway False demo_source)" by (rule st_event[OF ev_gateway])
  then show ?thesis using listing_never_misses[OF r_into_rtranclp] by (simp add: cursor_def set_gateway_def)
qed

section \<open>Registrations\<close>

lemma map_of_dict_update: "map_of (dict_update k v d) = (map_of d)(k \<mapsto> v)"
  by (induction k v d rule: dict_update.induct) auto

lemma map_of_entry_del: "map_of (dict_del k d) = (map_of d)(k := None)"
  by (induction d) (auto simp: dict_del_def)

lemma entry_ops [simp]:
  "entry_of (touch s) = entry_of s" "entry_of (set_entry n e s) = (entry_of s)(n \<mapsto> e)" "entry_of (del_entry n s) = (entry_of s)(n := None)"
  "entry_of (s\<lparr>hs_next_id := x\<rparr>) = entry_of s" "entry_of (s\<lparr>hs_registrations := x\<rparr>) = entry_of s"
  "entry_of (s\<lparr>hs_lost_calls := c\<rparr>) = entry_of s" "entry_of (s\<lparr>hs_inventory := ps, hs_adopting := y\<rparr>) = entry_of s"
  "entry_of (s\<lparr>hs_stopping := y\<rparr>) = entry_of s" "entry_of (s\<lparr>hs_gateway := y\<rparr>) = entry_of s"
  by (auto simp: entry_of_def source_ops map_of_dict_update map_of_entry_del fun_eq_iff)

lemma registration_ops [simp]:
  "hs_registrations (touch s) = hs_registrations s" "hs_registrations (set_entry n e s) = hs_registrations s"
  "hs_registrations (del_entry n s) = hs_registrations s"
  by (simp_all add: source_ops)

text \<open>A placement that is not current is not made current by a step, and its number is not given again.\<close>

definition stale :: "placement \<Rightarrow> hosted_source \<Rightarrow> bool" where
  "stale pl s \<longleftrightarrow> current pl s = None \<and> pl_registration pl < hs_registrations s"

lemma stale_iff: "stale pl s \<longleftrightarrow> pl_registration pl < hs_registrations s
    \<and> (\<forall>e. entry_of s (pl_name pl) = Some e \<longrightarrow> ho_desired e = Released \<or> ho_placement e \<noteq> Some pl)"
  by (auto simp: stale_def current_def split: option.splits desired.splits if_splits) (metis desired.exhaust)+

lemma placement_number: "\<lparr>pl_name = a, pl_base_url = b, pl_registration = n\<rparr> = pl \<Longrightarrow> pl_registration pl = n"
  by auto

lemma inventory_stale:
  "inventory_entries ps s = (x, s') \<Longrightarrow> (\<And>r p. (r, p) \<in> set ps \<Longrightarrow> pl_registration p \<noteq> pl_registration pl) \<Longrightarrow> stale pl s \<Longrightarrow> stale pl s'"
proof (induction ps s rule: inventory_entries.induct)
  case (2 r p ps s)
  have "p \<noteq> pl" using 2(3) by auto
  then have next_stale: "stale pl ((set_entry (pl_name p) e s)\<lparr>hs_next_id := m\<rparr>)" if "ho_placement e = Some p" for e m
    using 2(4) that by (auto simp: stale_iff)
  show ?case
  proof (cases "launch_spec r (pl_name p) s")
    case (Inr env)
    then show ?thesis using 2(1)[OF Inr] 2(2) 2(3)[of _ _] next_stale by (fastforce intro: 2(3))
  qed (use 2 in simp)
qed simp

lemma parse_units_numbers:
  "parse_units name_of agent n us = (m, ps) \<Longrightarrow> n \<le> m \<and> (\<forall>qs r p. ps = Some qs \<longrightarrow> (r, p) \<in> set qs \<longrightarrow> n \<le> pl_registration p)"
proof (induction name_of agent n us arbitrary: m ps rule: parse_units.induct)
  case (2 name_of agent n name wref url us)
  show ?case
  proof (cases "parse_units name_of agent (n + 1) us")
    case (Pair m' qs)
    show ?thesis using 2 Pair by (cases qs) (fastforce simp: Let_def split: if_splits)+
  qed
qed auto

lemma accept_stale:
  assumes "stale pl s"
  shows "stale pl (snd (accept_inventory name_of epoch units s))"
proof -
  obtain m ps where p: "parse_units name_of (hs_agent s) (hs_registrations s) units = (m, ps)" by fastforce
  note num = parse_units_numbers[OF p]
  have s1: "stale pl (s\<lparr>hs_registrations := m\<rparr>)" using assms num by (simp add: stale_iff)
  have "stale pl s2" if h: "ps = Some parsed" "inventory_entries parsed (s\<lparr>hs_registrations := m\<rparr>) = (x, s2)" for parsed x s2
  proof (rule inventory_stale[OF h(2) _ s1])
    show "pl_registration p \<noteq> pl_registration pl" if "(r, p) \<in> set parsed" for r p
      using num h(1) that assms by (fastforce simp: stale_def)
  qed
  then show ?thesis
    using assms p s1 by (auto simp: accept_inventory_def Let_def stale_iff split: option.split prod.split sum.split)
qed

lemma event_stale: "hs_event s s' \<Longrightarrow> stale pl s \<Longrightarrow> stale pl s'"
proof (induction rule: hs_event.induct)
  case (ev_inventory s name_of epoch units)
  then show ?case by (rule accept_stale)
qed (auto dest!: placement_number simp: stale_iff place_poll_def retire_begin_def observed_def serving_def close_source_def
       set_gateway_def register_def unregister_def Let_def current_def split: option.split if_splits)

lemma step_stale: "hs_step s s' \<Longrightarrow> stale pl s \<Longrightarrow> stale pl s'"
proof (induction rule: hs_step.induct)
  case (st_event s s')
  then show ?case by (rule event_stale)
next
  case (st_place s r name)
  then show ?case by (auto simp: place_begin_def stale_iff split: sum.split if_splits)
qed

text \<open>
  A registration that was withdrawn or replaced never serves again. Once a placement the source has
  given out is no longer current, it stays so in every later state: neither the instance probed at it
  nor its readiness is recorded from then on, so an activation that still holds it fails.
\<close>

theorem stale_registration_stays:
  assumes "hs_step\<^sup>*\<^sup>* s s'" "current pl s = None" "pl_registration pl < hs_registrations s"
  shows "observed pl i s' = (False, s') \<and> serving pl i s' = (False, s')"
proof -
  have "stale pl s" using assms(2,3) by (simp add: stale_def)
  with assms(1) have "stale pl s'"
    by (induction rule: rtranclp_induct) (auto intro: step_stale)
  then show ?thesis by (simp add: observed_def serving_def stale_def)
qed

theorem stale_registration_stays_witness:
  "serving \<lparr>pl_name = ''w'', pl_base_url = ''http://w'', pl_registration = 0\<rparr> ''i'' (close_source demo_source) = (False, close_source demo_source)"
  using stale_registration_stays[of demo_source "close_source demo_source" "\<lparr>pl_name = ''w'', pl_base_url = ''http://w'', pl_registration = 0\<rparr>" "''i''"]
    r_into_rtranclp[of hs_step, OF st_event[OF ev_close[of demo_source]]]
  by (simp add: demo_source_def new_hosted_source_def current_def entry_of_def)

section \<open>What a source promises\<close>

text \<open>
  The contract between the manager and a source about the names it holds, over what holds a name: a
  placement is refused exactly when the name is held; once the units of an earlier process are in, a
  step that does not place the name leaves what holds it or frees it; a retire request answers what
  held the name, and is over when that no longer does.
\<close>

locale workspace_source =
  fixes holder :: "'s \<Rightarrow> string \<Rightarrow> nat option"
    and adopted :: "'s \<Rightarrow> bool"
    and refused :: "ws_ref \<Rightarrow> string \<Rightarrow> 's \<Rightarrow> bool"
    and other_step :: "string \<Rightarrow> 's \<Rightarrow> 's \<Rightarrow> bool"
    and retire_request :: "string \<Rightarrow> 's \<Rightarrow> nat option \<times> 's"
    and retire_over :: "string \<Rightarrow> nat \<Rightarrow> 's \<Rightarrow> bool"
  assumes refused_iff: "refused r n s \<longleftrightarrow> holder s n \<noteq> None"
    and other_adopted: "adopted s \<Longrightarrow> other_step n s s' \<Longrightarrow> adopted s'"
    and other_holder: "adopted s \<Longrightarrow> other_step n s s' \<Longrightarrow> holder s' n \<noteq> None \<Longrightarrow> holder s' n = holder s n"
    and request_answer: "fst (retire_request n s) = holder s n"
    and request_step: "other_step n s (snd (retire_request n s))"
    and over_iff: "retire_over n i s \<longleftrightarrow> holder s n \<noteq> Some i"
begin

lemma others:
  assumes "(other_step n)\<^sup>*\<^sup>* s s'" "adopted s"
  shows "adopted s' \<and> (holder s' n \<noteq> None \<longrightarrow> holder s' n = holder s n)"
  using assms(1)
proof (induction rule: rtranclp_induct)
  case (step s' s'')
  then show ?case using other_adopted[of s' n s''] other_holder[of s' n s''] by metis
qed (use assms(2) in simp)

text \<open>While the retire goes on the name stays with the unit it is for, and is free as soon as it is over.\<close>

lemma place_after_retire:
  assumes "adopted s" "retire_request n s = (w, s1)" "(other_step n)\<^sup>*\<^sup>* s1 s2"
  shows "w = holder s n \<and> (if \<exists>i. w = Some i \<and> \<not> retire_over n i s2 then refused r n s2 \<and> holder s2 n = w else \<not> refused r n s2)"
proof -
  have w: "w = holder s n" using request_answer[of n s] assms(2) by simp
  have "other_step n s s1" using request_step[of n s] assms(2) by simp
  then have "(other_step n)\<^sup>*\<^sup>* s s2" using assms(3) by (rule converse_rtranclp_into_rtranclp)
  from others[OF this assms(1)] show ?thesis
    using w by (cases "holder s2 n") (auto simp: refused_iff over_iff)
qed

end

definition hosted_holder :: "hosted_source \<Rightarrow> string \<Rightarrow> nat option" where
  "hosted_holder s n = map_option ho_id (entry_of s n)"

definition hosted_refused :: "ws_ref \<Rightarrow> string \<Rightarrow> hosted_source \<Rightarrow> bool" where
  "hosted_refused r n s \<longleftrightarrow> fst (place_begin r n s) = Inl WsConflict"

text \<open>Every step of the source but a placement of the name \<open>n\<close>.\<close>

inductive hs_other :: "string \<Rightarrow> hosted_source \<Rightarrow> hosted_source \<Rightarrow> bool" for n where
  ot_event: "hs_event s s' \<Longrightarrow> hs_other n s s'"
| ot_place: "m \<noteq> n \<Longrightarrow> hs_other n s (snd (place_begin r m s))"

lemma accept_adopted: "\<not> hs_adopting s \<Longrightarrow> snd (accept_inventory name_of epoch units s) = s"
  by (simp add: accept_inventory_def)

lemma adopting_ops [simp]:
  "hs_adopting (touch s) = hs_adopting s" "hs_adopting (set_entry n e s) = hs_adopting s" "hs_adopting (del_entry n s) = hs_adopting s"
  by (simp_all add: source_ops)

lemma lost_ops [simp]: "hs_lost_calls (touch s) = hs_lost_calls s" "hs_lost_calls (del_entry n s) = hs_lost_calls s"
  by (simp_all add: source_ops)

text \<open>An event leaves at a name the entry that was there, with its placement and its release, or none.\<close>

definition goes_on :: "hosted \<Rightarrow> hosted \<Rightarrow> bool" where
  "goes_on e e' \<longleftrightarrow> ho_id e' = ho_id e \<and> (ho_placement e \<noteq> None \<longrightarrow> ho_placement e' = ho_placement e)
     \<and> (ho_desired e = Released \<longrightarrow> ho_desired e' = Released)"

lemma goes_on_refl [simp]: "goes_on e e"
  by (simp add: goes_on_def)

lemma goes_on_trans: "goes_on e e' \<Longrightarrow> goes_on e' e'' \<Longrightarrow> goes_on e e''"
  by (auto simp: goes_on_def)

lemma event_entry:
  assumes "hs_event s s'" "\<not> hs_adopting s"
  shows "\<not> hs_adopting s' \<and> (\<forall>e'. entry_of s' n = Some e' \<longrightarrow> (\<exists>e. entry_of s n = Some e \<and> goes_on e e'))"
  using assms
proof (induction rule: hs_event.induct)
  case (ev_inventory s name_of epoch units)
  then show ?case by (simp add: accept_adopted)
qed (auto simp: place_poll_def retire_begin_def observed_def serving_def close_source_def set_gateway_def register_def
       unregister_def Let_def current_def goes_on_def split: option.splits if_splits)

lemma other_entry:
  assumes "hs_other n s s'" "\<not> hs_adopting s"
  shows "\<not> hs_adopting s' \<and> (\<forall>e'. entry_of s' n = Some e' \<longrightarrow> (\<exists>e. entry_of s n = Some e \<and> goes_on e e'))"
  using assms
proof (induction rule: hs_other.induct)
  case (ot_event s s')
  then show ?case by (simp add: event_entry)
next
  case (ot_place m s r)
  then show ?case by (auto simp: place_begin_def split: sum.split)
qed

lemma others_entry:
  assumes "(hs_other n)\<^sup>*\<^sup>* s s'" "\<not> hs_adopting s"
  shows "\<not> hs_adopting s' \<and> (\<forall>e'. entry_of s' n = Some e' \<longrightarrow> (\<exists>e. entry_of s n = Some e \<and> goes_on e e'))"
  using assms
proof (induction rule: rtranclp_induct)
  case (step s' s'')
  then show ?case using other_entry[of n s' s''] by (meson goes_on_trans)
qed auto

lemma launch_no_conflict: "launch_spec r n s \<noteq> Inl WsConflict"
  by (simp add: launch_spec_def launch_env_def Let_def)

interpretation hosted_units: workspace_source hosted_holder "\<lambda>s. \<not> hs_adopting s" hosted_refused hs_other retire_begin retire_poll
proof
  show "hosted_refused r n s \<longleftrightarrow> hosted_holder s n \<noteq> None" for r n s
    using launch_no_conflict[of r n s] by (auto simp: hosted_refused_def hosted_holder_def place_begin_def split: sum.split)
  show "hosted_holder s' n = hosted_holder s n" if "\<not> hs_adopting s" "hs_other n s s'" "hosted_holder s' n \<noteq> None" for s s' n
    using other_entry[OF that(2,1)] that(3) by (fastforce simp: hosted_holder_def goes_on_def)
  show "\<not> hs_adopting s'" if "\<not> hs_adopting s" "hs_other n s s'" for s s' n
    using other_entry[OF that(2,1)] by blast
  show "hs_other n s (snd (retire_begin n s))" for n s by (intro ot_event ev_retire)
qed (auto simp: hosted_holder_def retire_begin_def retire_poll_def is_entry_def split: option.split)

inductive local_other :: "string \<Rightarrow> local_source \<Rightarrow> local_source \<Rightarrow> bool" for n where
  lo_retire: "local_other n s (snd (local_retire m exited s))"
| lo_place: "m \<noteq> n \<Longrightarrow> local_other n s (snd (local_place_done m started_app s))"
| lo_adopt: "local_other n s (snd (local_adopt s))"

definition local_holder :: "local_source \<Rightarrow> string \<Rightarrow> nat option" where
  "local_holder s n = (if n \<in> ls_units s then Some 0 else None)"

lemma local_place_units: "n \<in> ls_units (snd (local_place_done m started_app s)) \<Longrightarrow> n \<in> ls_units s \<or> n = m"
  by (cases started_app) (auto simp: local_place_done_def)

interpretation local_units: workspace_source local_holder "\<lambda>_. True" "\<lambda>r n s. local_place_begin n s = Inl WsConflict" local_other
    "\<lambda>n s. (local_holder s n, snd (local_retire n exited s))" "\<lambda>n i s. local_holder s n \<noteq> Some i" for exited
  by unfold_locales
    (auto simp: local_holder_def local_place_begin_def require_def local_other.simps local_retire_def
      local_adopt_def Let_def dest!: local_place_units split: if_splits)

text \<open>
  C15. A Workspace whose unit was retired can be placed again, and not before. From a retire of a
  registered unit on, whatever the host and the manager do short of placing that name, the inventory
  sent again among it: while the retire goes on, its unit stays released, every placement of the
  name is refused, and the host's notice for the instance that was probed ends the retire without
  reporting a loss; once it is over a placement of the name is not refused. The local source frees
  the name, its route and its directory even when the shutdown of the application raises, and the
  caller gets that error.
\<close>

theorem replacement_accepted:
  assumes "\<not> hs_adopting s" "entry_of s n = Some e" "ho_placement e \<noteq> None"
    and "retire_begin n s = (w, s1)" "(hs_other n)\<^sup>*\<^sup>* s1 s2"
    and "n \<in> ls_units l" "local_retire n exited l = (out, l1)" "(local_other n)\<^sup>*\<^sup>* l1 l2"
  shows "w = Some (ho_id e)
    \<and> (if retire_poll n (ho_id e) s2 then fst (place_begin r n s2) \<noteq> Inl WsConflict
       else \<exists>e2. entry_of s2 n = Some e2 \<and> ho_id e2 = ho_id e \<and> ho_desired e2 = Released
         \<and> place_begin r n s2 = (Inl WsConflict, s2)
         \<and> retire_poll n (ho_id e) (unregister n (ho_observed_instance e2) s2)
         \<and> hs_lost_calls (unregister n (ho_observed_instance e2) s2) = hs_lost_calls s2
         \<and> fst (place_begin r n (unregister n (ho_observed_instance e2) s2)) \<noteq> Inl WsConflict)
    \<and> out = exited \<and> local_place_begin n l2 = Inr () \<and> n \<notin> ls_dirs l1 \<and> \<not> local_routed (local_host n) l1"
proof -
  note h = hosted_units.place_after_retire[OF assms(1,4,5), of r]
  have w: "w = Some (ho_id e)" using h assms(2) by (simp add: hosted_holder_def)
  have s1: "s1 = touch (set_entry n (e\<lparr>ho_desired := Released\<rparr>) s)" using assms(2,4) by (auto simp: retire_begin_def)
  have a1: "\<not> hs_adopting s1" using assms(1) by (simp add: s1)
  have freed: "fst (place_begin r n (unregister n (ho_observed_instance e2) s2)) \<noteq> Inl WsConflict
      \<and> retire_poll n i (unregister n (ho_observed_instance e2) s2)
      \<and> hs_lost_calls (unregister n (ho_observed_instance e2) s2) = hs_lost_calls s2"
    if "entry_of s2 n = Some e2" "ho_placement e2 \<noteq> None" "ho_desired e2 = Released" for e2 i
    using that launch_no_conflict[of r n]
    by (auto simp: unregister_def Let_def place_begin_def retire_poll_def is_entry_def split: sum.split)
  have hosted: "if retire_poll n (ho_id e) s2 then fst (place_begin r n s2) \<noteq> Inl WsConflict
       else \<exists>e2. entry_of s2 n = Some e2 \<and> ho_id e2 = ho_id e \<and> ho_desired e2 = Released
         \<and> place_begin r n s2 = (Inl WsConflict, s2)
         \<and> retire_poll n (ho_id e) (unregister n (ho_observed_instance e2) s2)
         \<and> hs_lost_calls (unregister n (ho_observed_instance e2) s2) = hs_lost_calls s2
         \<and> fst (place_begin r n (unregister n (ho_observed_instance e2) s2)) \<noteq> Inl WsConflict"
  proof (cases "retire_poll n (ho_id e) s2")
    case False
    then obtain e2 where e2: "entry_of s2 n = Some e2" "ho_id e2 = ho_id e"
      by (auto simp: retire_poll_def is_entry_def split: option.splits)
    then have "ho_desired e2 = Released" "ho_placement e2 \<noteq> None"
      using others_entry[OF assms(5) a1] assms(3) by (auto simp: s1 goes_on_def)
    then show ?thesis using False e2 freed[of e2] by (auto simp: place_begin_def)
  qed (use h w in \<open>simp add: hosted_refused_def\<close>)
  have "out = exited" "n \<notin> ls_dirs l1" "\<not> local_routed (local_host n) l1" "l1 = snd (local_retire n exited l)"
    using assms(6,7) by (auto simp: local_retire_def Let_def local_routed_def)
  moreover have "local_place_begin n l2 = Inr ()"
    using local_units.place_after_retire[where s = l and n = n and w = "local_holder l n" and exited = exited and ?s1.0 = l1 and ?s2.0 = l2]
      local_units.others[OF assms(8)] calculation assms(6)
    by (simp add: local_place_begin_def local_holder_def local_retire_def Let_def require_def split: if_splits)
  ultimately show ?thesis using w hosted by simp
qed

text \<open>
  A unit placed, registered and probed, then retired: first while the host has not answered, then after
  its notice; and a local unit whose shutdown raises.
\<close>

definition demo_unit_ref :: ws_ref where
  "demo_unit_ref = \<lparr>wr_namespace = ''ns'', wr_agent_uid = ''u'', wr_ref = ''w''\<rparr>"

definition demo_hosting :: hosted_source where
  "demo_hosting = snd (observed \<lparr>pl_name = ''a-w'', pl_base_url = ''http://w'', pl_registration = 1\<rparr> ''i1''
     (snd (register ''a-w'' ''http://w'' (snd (place_begin demo_unit_ref ''a-w''
       (snd (accept_inventory (\<lambda>_. None) ''e'' [] demo_source)))))))"

definition demo_released :: hosted_source where
  "demo_released = snd (retire_begin ''a-w'' demo_hosting)"

definition demo_withdrawn :: hosted_source where
  "demo_withdrawn = unregister ''a-w'' (Some ''i1'') demo_released"

definition demo_local :: local_source where
  "demo_local = snd (local_place_done ''a-w'' (Inr ()) new_local_source)"

theorem replacement_accepted_witness:
  "place_begin demo_unit_ref ''a-w'' demo_released = (Inl WsConflict, demo_released)
   \<and> retire_poll ''a-w'' 0 demo_withdrawn \<and> fst (place_begin demo_unit_ref ''a-w'' demo_withdrawn) \<noteq> Inl WsConflict
   \<and> fst (local_retire ''a-w'' (Inl (WsOther ''shutdown'')) demo_local) = Inl (WsOther ''shutdown'')
   \<and> local_place_begin ''a-w'' (snd (local_retire ''a-w'' (Inl (WsOther ''shutdown'')) demo_local)) = Inr ()"
proof -
  have ad: "\<not> hs_adopting demo_hosting" by code_simp
  obtain e where e: "entry_of demo_hosting ''a-w'' = Some e" "ho_id e = 0" "ho_placement e \<noteq> None" "ho_observed_instance e = Some ''i1''"
  proof -
    have "case entry_of demo_hosting ''a-w'' of Some e \<Rightarrow> ho_id e = 0 \<and> ho_placement e \<noteq> None \<and> ho_observed_instance e = Some ''i1'' | None \<Rightarrow> False"
      by code_simp
    then show thesis using that by (auto split: option.splits)
  qed
  obtain w where w: "retire_begin ''a-w'' demo_hosting = (w, demo_released)" unfolding demo_released_def by (metis prod.collapse)
  have l: "''a-w'' \<in> ls_units demo_local" by (simp add: demo_local_def local_place_done_def)
  let ?exit = "Inl (WsOther ''shutdown'') :: (ws_exc, unit) result"
  have lr: "local_retire ''a-w'' ?exit demo_local = (fst (local_retire ''a-w'' ?exit demo_local), snd (local_retire ''a-w'' ?exit demo_local))"
    by simp
  have on: "hs_other ''a-w'' demo_released demo_withdrawn" unfolding demo_withdrawn_def by (intro ot_event ev_unregister)
  have np: "\<not> retire_poll ''a-w'' 0 demo_released" and p: "retire_poll ''a-w'' 0 demo_withdrawn" by code_simp+
  note now = replacement_accepted[OF ad e(1,3) w rtranclp.rtrancl_refl l lr rtranclp.rtrancl_refl, where r = demo_unit_ref]
    and later = replacement_accepted[OF ad e(1,3) w r_into_rtranclp[of "hs_other ''a-w''", OF on] l lr rtranclp.rtrancl_refl, where r = demo_unit_ref]
  have "place_begin demo_unit_ref ''a-w'' demo_released = (Inl WsConflict, demo_released)" using now np e(2) by auto
  then show ?thesis using later p e(2) by simp
qed

end
