(* ===== verification/Lifecycle.thy ===== *)
theory Lifecycle
  imports Effects Workspaces Archive Wire
begin

text \<open>
  \<open>harness/lifecycle.py\<close> and \<open>harness/transfer.py\<close>, with the request helper \<open>_mini_json\<close> of \<open>harness/control.py\<close>: persistence
  of Workspaces and sessions, and the idle observer.

  Storage, the Workspace manager, admission, the HTTP client, the clock and sleeping are parameters over a
  world of any type; each has a model of its own in this development. What the lifecycle itself
  decides is logged beside the world. Times are seconds. The retry loops of a close take fuel; running out
  of it is an outcome of its own, which a theorem excludes. Metrics and log lines are left out.
\<close>

section \<open>Data\<close>

datatype life_kind =
    LkTransient
  | LkTimeout
  | LkTransport
  | LkHttpStatus int
  | LkInstanceMismatch
  | LkAssembly
  | LkRuntime
  | LkTooLarge
  | LkOther
  | LkOutOfFuel

text \<open>An exception with the attributes \<open>_ach_anomaly_reported\<close> and \<open>_ach_retire_pending\<close> the code sets on it.\<close>

record life_exc =
  lx_kind :: life_kind
  lx_reported :: bool
  lx_retire_pending :: bool

definition exc_of :: "life_kind \<Rightarrow> life_exc" where
  "exc_of k = \<lparr>lx_kind = k, lx_reported = False, lx_retire_pending = False\<rparr>"

datatype persistence = PersistNone | PersistS3 | PersistVolume

record life_config =
  cf_agent :: agent_identity
  cf_persistence :: persistence
  cf_retention_days :: int
  cf_session_retention_days :: int
  cf_idle_timeout :: rat
  cf_session_idle_timeout :: rat
  cf_shutdown_timeout :: rat

record mini_response =
  mr_instance :: "string option"
  mr_status :: int
  mr_body :: "json option"

record archive_response =
  ar_instance :: "string option"
  ar_status :: int
  ar_length :: "string option"
  ar_chunks :: "string list"
  ar_ending :: "life_kind option"

text \<open>
  \<open>lw_request\<close> is \<open>None\<close> when the request fails or times out; \<open>lw_restored\<close> gives the chunks and the ETag of a
  snapshot; \<open>lw_put\<close> takes the chunks that are sent and whether the body is broken off after them; \<open>lw_float\<close> is \<open>float()\<close> of a decoded value.
\<close>

record 'w life_world =
  lw_monotonic :: "'w \<Rightarrow> rat"
  lw_sleep :: "rat \<Rightarrow> 'w \<Rightarrow> 'w"
  lw_uuid :: "'w \<Rightarrow> string \<times> 'w"
  lw_sha256 :: "string \<Rightarrow> string"
  lw_float :: "json \<Rightarrow> rat option"
  lw_request :: "ws_endpoint \<Rightarrow> string \<Rightarrow> string \<Rightarrow> json option \<Rightarrow> rat \<Rightarrow> 'w \<Rightarrow> mini_response option \<times> 'w"
  lw_stream :: "ws_endpoint \<Rightarrow> string \<Rightarrow> rat \<Rightarrow> 'w \<Rightarrow> (life_kind, archive_response) result \<times> 'w"
  lw_put :: "ws_endpoint \<Rightarrow> string \<Rightarrow> string list \<Rightarrow> bool \<Rightarrow> 'w \<Rightarrow> (life_kind, mini_response) result \<times> 'w"
  lw_report_lost :: "ws_endpoint \<Rightarrow> 'w \<Rightarrow> 'w"
  lw_active :: "string \<Rightarrow> 'w \<Rightarrow> ws_endpoint option"
  lw_gateway :: "'w \<Rightarrow> bool"
  lw_recover :: "ws_ref \<Rightarrow> string \<Rightarrow> 'w \<Rightarrow> (life_kind, unit) result \<times> 'w"
  lw_close_ws :: "ws_ref \<Rightarrow> 'w \<Rightarrow> (life_exc, unit) result \<times> 'w"
  lw_hook :: "ws_endpoint \<Rightarrow> bool \<Rightarrow> bool \<Rightarrow> 'w \<Rightarrow> (life_kind, unit) result \<times> 'w"
  lw_has_work :: "string \<Rightarrow> string option \<Rightarrow> 'w \<Rightarrow> bool"
  lw_list_runs :: "ws_endpoint \<Rightarrow> 'w \<Rightarrow> (life_kind, run_status list) result \<times> 'w"
  lw_acquire :: "state_ref \<Rightarrow> string \<Rightarrow> 'w \<Rightarrow> (life_kind, writer_lease) result \<times> 'w"
  lw_persist :: "state_ref \<Rightarrow> string \<Rightarrow> string \<Rightarrow> writer_lease \<Rightarrow> string option \<Rightarrow> int \<Rightarrow> rat \<Rightarrow> 'w \<Rightarrow> (life_kind, persist_receipt) result \<times> 'w"
  lw_restored :: "state_ref \<Rightarrow> int \<Rightarrow> 'w \<Rightarrow> (life_kind, (string list \<times> string) option) result \<times> 'w"

type_synonym session_key = "string \<times> string \<times> string"

record lifecycle =
  lc_leases :: "(string \<times> string option \<times> string) \<rightharpoonup> writer_lease"
  lc_bases :: "(string \<times> string option) \<rightharpoonup> string option"
  lc_last_session :: "(string \<times> string) \<rightharpoonup> rat"
  lc_last_workspace :: "string \<rightharpoonup> rat"
  lc_failed_session_saves :: "session_key set"
  lc_failed_workspace_saves :: "(string \<times> string) set"
  lc_session_retry_at :: "session_key \<rightharpoonup> rat"
  lc_workspace_retry_at :: "(string \<times> string) \<rightharpoonup> rat"
  lc_confirmed_closes :: "session_key set"
  lc_pending_retire :: "session_key set"
  lc_saw_activity :: bool
  lc_closed :: bool

definition new_lifecycle :: lifecycle where
  "new_lifecycle = \<lparr>lc_leases = Map.empty, lc_bases = Map.empty, lc_last_session = Map.empty, lc_last_workspace = Map.empty,
     lc_failed_session_saves = {}, lc_failed_workspace_saves = {}, lc_session_retry_at = Map.empty, lc_workspace_retry_at = Map.empty,
     lc_confirmed_closes = {}, lc_pending_retire = {}, lc_saw_activity = False, lc_closed = False\<rparr>"

text \<open>
  The log: an archive exported, a call of \<open>persist\<close> with all it is given, a receipt that was accepted, a
  volume session suspended, an unpersisted one drained, a retire confirmed, a session found with what
  the pod says of it, a Workspace about to be closed, an alarm.
\<close>

datatype life_event =
    Exported string string
  | Persisting state_ref string string writer_lease "string option"
  | Persisted state_ref string
  | Suspended session_key
  | Drained session_key
  | RetireConfirmed session_key
  | SessionSeen session_key dict
  | ClosingWorkspace string string
  | LifeAlarm string

record 'w lstate =
  lt_lc :: lifecycle
  lt_w :: 'w
  lt_log :: "life_event list"

type_synonym ('w, 'a) life = "('w lstate, life_exc, 'a) eff"

definition on_lc :: "(lifecycle \<Rightarrow> lifecycle) \<Rightarrow> ('w, unit) life" where
  "on_lc f = modify (\<lambda>s. s\<lparr>lt_lc := f (lt_lc s)\<rparr>)"

definition get_lc :: "(lifecycle \<Rightarrow> 'a) \<Rightarrow> ('w, 'a) life" where
  "get_lc f = gets (f \<circ> lt_lc)"

definition peek :: "('w \<Rightarrow> 'a) \<Rightarrow> ('w, 'a) life" where
  "peek f = gets (f \<circ> lt_w)"

definition note_event :: "life_event \<Rightarrow> ('w, unit) life" where
  "note_event e = modify (\<lambda>s. s\<lparr>lt_log := lt_log s @ [e]\<rparr>)"

definition raise_alarm :: "string \<Rightarrow> ('w, unit) life" where
  "raise_alarm reason = note_event (LifeAlarm reason)"

definition io :: "('w \<Rightarrow> 'a \<times> 'w) \<Rightarrow> ('w, 'a) life" where
  "io f s = (case f (lt_w s) of (x, w) \<Rightarrow> (Inr x, s\<lparr>lt_w := w\<rparr>))"

definition call :: "('w \<Rightarrow> (life_kind, 'a) result \<times> 'w) \<Rightarrow> ('w, 'a) life" where
  "call f = andThen (io f) (\<lambda>r. case r of Inl k \<Rightarrow> throw (exc_of k) | Inr x \<Rightarrow> pure x)"

definition fail :: "life_kind \<Rightarrow> ('w, 'a) life" where
  "fail k = throw (exc_of k)"

section \<open>Requests to the pod\<close>

definition other_instance :: "string option \<Rightarrow> ws_endpoint \<Rightarrow> bool" where
  "other_instance got ep \<longleftrightarrow> (case got of None \<Rightarrow> False | Some i \<Rightarrow> i \<noteq> we_instance_id ep)"

definition lose :: "'w life_world \<Rightarrow> ws_endpoint \<Rightarrow> string option \<Rightarrow> ('w, unit) life" where
  "lose W ep got = (if other_instance got ep then io (\<lambda>w. ((), lw_report_lost W ep w)) else pure ())"

definition mini_json :: "'w life_world \<Rightarrow> ws_endpoint \<Rightarrow> string \<Rightarrow> string \<Rightarrow> json option \<Rightarrow> rat \<Rightarrow> ('w, int \<times> json) life" where
  "mini_json W ep verb path payload timeout =
     andThen (io (lw_request W ep verb path payload timeout)) (\<lambda>r. case r of
        None \<Rightarrow> fail LkAssembly
      | Some m \<Rightarrow>
          if mr_instance m \<noteq> Some (we_instance_id ep) then andThen (lose W ep (mr_instance m)) (\<lambda>_. fail LkAssembly)
          else case mr_body m of None \<Rightarrow> fail LkAssembly | Some v \<Rightarrow> pure (mr_status m, v))"

definition max_archive_bytes :: nat where "max_archive_bytes = 2 * 1024 ^ 3"

fun bounded_chunks :: "nat \<Rightarrow> life_kind option \<Rightarrow> string list \<Rightarrow> string list \<times> life_kind option" where
  "bounded_chunks n ending [] = ([], ending)"
| "bounded_chunks n ending (c # cs) =
     (if n + length c > max_archive_bytes then ([], Some LkRuntime)
      else case bounded_chunks (n + length c) ending cs of (ds, e) \<Rightarrow> (if c = [] then ds else c # ds, e))"

text \<open>\<open>get_archive\<close>: the chunks it yields and how it ends.\<close>

definition get_archive :: "'w life_world \<Rightarrow> ws_endpoint \<Rightarrow> string \<Rightarrow> rat \<Rightarrow> ('w, string list \<times> life_kind option) life" where
  "get_archive W ep path timeout =
     andThen (io (lw_stream W ep path timeout)) (\<lambda>r. case r of
        Inl k \<Rightarrow> pure ([], Some k)
      | Inr a \<Rightarrow>
          if other_instance (ar_instance a) ep then andThen (lose W ep (ar_instance a)) (\<lambda>_. pure ([], Some LkInstanceMismatch))
          else if ar_instance a = None then pure ([], Some LkRuntime)
          else if \<not> (200 \<le> ar_status a \<and> ar_status a < 300) then pure ([], Some (LkHttpStatus (ar_status a)))
          else case ar_length a of
            None \<Rightarrow> pure (bounded_chunks 0 (ar_ending a) (ar_chunks a))
          | Some l \<Rightarrow> (case py_int_of_str l of
              None \<Rightarrow> pure ([], Some LkOther)
            | Some n \<Rightarrow> if n > int max_archive_bytes then pure ([], Some LkRuntime)
                        else pure (bounded_chunks 0 (ar_ending a) (ar_chunks a))))"

text \<open>
  \<open>put_archive\<close>: the body is bounded while it is streamed. The chunk that passes the limit raises in the
  middle of the request, which ends with that error unless it fails before.
\<close>

definition put_archive :: "'w life_world \<Rightarrow> ws_endpoint \<Rightarrow> string \<Rightarrow> string list \<Rightarrow> ('w, dict) life" where
  "put_archive W ep path chunks =
     (let (sent, ending) = bounded_chunks 0 None chunks in
      andThen (call (lw_put W ep path sent (ending \<noteq> None))) (\<lambda>m.
        if ending \<noteq> None then fail LkRuntime
        else if other_instance (mr_instance m) ep then andThen (lose W ep (mr_instance m)) (\<lambda>_. fail LkInstanceMismatch)
        else if mr_instance m = None then fail LkRuntime
        else if \<not> (200 \<le> mr_status m \<and> mr_status m < 300) then fail (LkHttpStatus (mr_status m))
        else case mr_body m of Some (JObj d) \<Rightarrow> pure d | _ \<Rightarrow> fail LkRuntime))"

section \<open>Closing: one archive, retried writes\<close>

definition retryable_archive_error :: "life_kind \<Rightarrow> bool" where
  "retryable_archive_error k = (case k of
     LkTransport \<Rightarrow> True | LkTimeout \<Rightarrow> True | LkHttpStatus n \<Rightarrow> n \<in> {408, 429, 500, 502, 503, 504} | _ \<Rightarrow> False)"

definition retry_wait :: "'w life_world \<Rightarrow> rat \<Rightarrow> rat \<Rightarrow> ('w, rat) life" where
  "retry_wait W deadline delay =
     andThen (peek (lw_monotonic W)) (\<lambda>now.
     if deadline - now \<le> 0 then fail LkTransient
     else
       andThen (io (\<lambda>w. ((), lw_sleep W (min (min delay 30) (deadline - now)) w))) (\<lambda>_.
       andThen (peek (lw_monotonic W)) (\<lambda>later.
       if deadline - later \<le> 0 then fail LkTransient else pure (min (delay * 2) 30))))"

text \<open>\<open>write_capped\<close> of the exported archive, with no failure of the local file.\<close>

definition export_once :: "'w life_world \<Rightarrow> ws_endpoint \<Rightarrow> string \<Rightarrow> rat \<Rightarrow> ('w, string) life" where
  "export_once W ep path left =
     andThen (get_archive W ep path left) (\<lambda>(chunks, ending).
       let ok = \<lparr>ow_cancelled = False, ow_exc = None\<rparr> in
       case write_capped max_archive_bytes ok (map (\<lambda>c. (c, ok)) chunks) (map_option (\<lambda>_. OSError []) ending) ok of
         (Inr _, Some content) \<Rightarrow> andThen (note_event (Exported path content)) (\<lambda>_. pure content)
       | (Inl Archive.ArchiveTooLarge, _) \<Rightarrow> fail LkTooLarge
       | _ \<Rightarrow> fail (case ending of Some k \<Rightarrow> k | None \<Rightarrow> LkOther))"

fun export_loop :: "nat \<Rightarrow> 'w life_world \<Rightarrow> ws_endpoint \<Rightarrow> string \<Rightarrow> rat \<Rightarrow> rat \<Rightarrow> ('w, string \<times> rat) life" where
  "export_loop 0 W ep path deadline delay = fail LkOutOfFuel"
| "export_loop (Suc n) W ep path deadline delay =
     andThen (peek (lw_monotonic W)) (\<lambda>now.
     if deadline - now \<le> 0 then fail LkTransient
     else
       handle (andThen (export_once W ep path (deadline - now)) (\<lambda>content. pure (content, delay))) (\<lambda>e.
         if \<not> retryable_archive_error (lx_kind e) then throw e
         else andThen (retry_wait W deadline delay) (\<lambda>d. export_loop n W ep path deadline d)))"

definition receipt_valid :: "'w life_world \<Rightarrow> state_ref \<Rightarrow> string \<Rightarrow> writer_lease \<Rightarrow> string \<Rightarrow> persist_receipt \<Rightarrow> bool" where
  "receipt_valid W ref snapshot_id lease content p \<longleftrightarrow>
     pr_ref p = ref \<and> pr_snapshot_id p = snapshot_id \<and> pr_writer_epoch p = wl_epoch lease \<and> pr_etag p \<noteq> []
     \<and> pr_generation p > 0 \<and> pr_version p > 0 \<and> pr_checksum p = lw_sha256 W content \<and> pr_size p = int (length content)"

definition persist_once ::
  "'w life_world \<Rightarrow> state_ref \<Rightarrow> string \<Rightarrow> writer_lease \<Rightarrow> string option \<Rightarrow> int \<Rightarrow> string \<Rightarrow> rat \<Rightarrow> ('w, persist_receipt) life" where
  "persist_once W ref snapshot_id lease base days content left =
     andThen (note_event (Persisting ref snapshot_id content lease base)) (\<lambda>_.
     andThen (call (lw_persist W ref snapshot_id content lease base days left)) (\<lambda>p.
     if \<not> receipt_valid W ref snapshot_id lease content p then fail LkRuntime
     else
       andThen (note_event (Persisted ref content)) (\<lambda>_.
       andThen (on_lc (\<lambda>l. l\<lparr>lc_bases := (lc_bases l)((sr_workspace_ref ref, sr_session_ref ref) \<mapsto> Some (pr_etag p))\<rparr>)) (\<lambda>_.
       pure p))))"

fun persist_loop ::
  "nat \<Rightarrow> 'w life_world \<Rightarrow> state_ref \<Rightarrow> string \<Rightarrow> writer_lease \<Rightarrow> string option \<Rightarrow> int \<Rightarrow> string \<Rightarrow> rat \<Rightarrow> rat \<Rightarrow> ('w, persist_receipt) life" where
  "persist_loop 0 W ref snapshot_id lease base days content deadline delay = fail LkOutOfFuel"
| "persist_loop (Suc n) W ref snapshot_id lease base days content deadline delay =
     andThen (peek (lw_monotonic W)) (\<lambda>now.
     if deadline - now \<le> 0 then fail LkTransient
     else
       handle (persist_once W ref snapshot_id lease base days content (deadline - now)) (\<lambda>e.
         if lx_kind e \<noteq> LkTransient \<and> lx_kind e \<noteq> LkTimeout then throw e
         else andThen (retry_wait W deadline delay) (\<lambda>d. persist_loop n W ref snapshot_id lease base days content deadline d)))"

definition lease_for :: "'w life_world \<Rightarrow> ws_endpoint \<Rightarrow> state_ref \<Rightarrow> ('w, writer_lease) life" where
  "lease_for W ep ref =
     (let k = (sr_workspace_ref ref, sr_session_ref ref, we_instance_id ep) in
      andThen (get_lc (\<lambda>l. lc_leases l k)) (\<lambda>known. case known of
        Some lease \<Rightarrow> pure lease
      | None \<Rightarrow>
          andThen (call (lw_acquire W ref (we_instance_id ep))) (\<lambda>lease.
          andThen (on_lc (\<lambda>l. l\<lparr>lc_leases := (lc_leases l)(k \<mapsto> lease)\<rparr>)) (\<lambda>_. pure lease))))"

definition base_for :: "state_ref \<Rightarrow> writer_lease \<Rightarrow> ('w, string option) life" where
  "base_for ref lease =
     (let k = (sr_workspace_ref ref, sr_session_ref ref) in
      andThen (get_lc (\<lambda>l. lc_bases l k)) (\<lambda>known. case known of
        Some base \<Rightarrow> pure base
      | None \<Rightarrow> andThen (on_lc (\<lambda>l. l\<lparr>lc_bases := (lc_bases l)(k \<mapsto> wl_base_etag lease)\<rparr>)) (\<lambda>_. pure (wl_base_etag lease))))"

definition persist_close ::
  "nat \<Rightarrow> 'w life_world \<Rightarrow> life_config \<Rightarrow> ws_endpoint \<Rightarrow> state_ref \<Rightarrow> string \<Rightarrow> int \<Rightarrow> ('w, persist_receipt) life" where
  "persist_close fuel W C ep ref path days =
     andThen (peek (lw_monotonic W)) (\<lambda>now.
     andThen (io (lw_uuid W)) (\<lambda>snapshot_id.
     andThen (lease_for W ep ref) (\<lambda>lease.
     andThen (base_for ref lease) (\<lambda>base.
     andThen (export_loop fuel W ep path (now + cf_shutdown_timeout C) 1) (\<lambda>(content, delay).
     persist_loop fuel W ref snapshot_id lease base days content (now + cf_shutdown_timeout C) delay)))))"

section \<open>Workspaces\<close>

definition state_ref_of :: "life_config \<Rightarrow> ws_endpoint \<Rightarrow> string option \<Rightarrow> state_ref" where
  "state_ref_of C ep session = \<lparr>sr_agent = cf_agent C, sr_workspace_ref = wr_ref (we_ref ep),
     sr_domain = (case session of None \<Rightarrow> DomainWorkspace | Some _ \<Rightarrow> DomainSession), sr_session_ref = session\<rparr>"

text \<open>\<open>_report_failure\<close>: the alarm, and the mark on the exception that is raised again.\<close>

definition report_failure :: "string \<Rightarrow> ('w, 'a) life \<Rightarrow> ('w, 'a) life" where
  "report_failure reason m = handle m (\<lambda>e. andThen (raise_alarm reason) (\<lambda>_. throw (e\<lparr>lx_reported := True\<rparr>)))"

definition alarm_and_raise :: "string \<Rightarrow> ('w, 'a) life \<Rightarrow> ('w, 'a) life" where
  "alarm_and_raise reason m = handle m (\<lambda>e. andThen (raise_alarm reason) (\<lambda>_. throw e))"

definition alarm_and_go_on :: "string \<Rightarrow> ('w, unit) life \<Rightarrow> ('w, unit) life" where
  "alarm_and_go_on reason m = handle m (\<lambda>e. raise_alarm reason)"

definition take_writer :: "'w life_world \<Rightarrow> ws_endpoint \<Rightarrow> state_ref \<Rightarrow> ('w, unit) life" where
  "take_writer W ep ref =
     andThen (call (lw_acquire W ref (we_instance_id ep))) (\<lambda>lease.
     on_lc (\<lambda>l. l\<lparr>lc_leases := (lc_leases l)((sr_workspace_ref ref, sr_session_ref ref, we_instance_id ep) \<mapsto> lease),
                  lc_bases := (lc_bases l)((sr_workspace_ref ref, sr_session_ref ref) \<mapsto> wl_base_etag lease)\<rparr>))"

definition restore_workspace_archive :: "'w life_world \<Rightarrow> life_config \<Rightarrow> ws_endpoint \<Rightarrow> ('w, bool) life" where
  "restore_workspace_archive W C ep =
     (let ref = state_ref_of C ep None in
      alarm_and_raise ''restore_failed''
        (andThen (call (lw_restored W ref (cf_retention_days C))) (\<lambda>r.
         andThen (case r of
            None \<Rightarrow> pure ()
          | Some (content, etag) \<Rightarrow>
              andThen (put_archive W ep ''/workspace/archive'' content) (\<lambda>_.
              on_lc (\<lambda>l. l\<lparr>lc_bases := (lc_bases l)((sr_workspace_ref ref, None) \<mapsto> Some etag)\<rparr>))) (\<lambda>_.
         andThen (take_writer W ep ref) (\<lambda>_. pure (r \<noteq> None))))))"

definition session_call_timeout :: rat where "session_call_timeout = 180"

definition says :: "string \<Rightarrow> string list \<Rightarrow> json \<Rightarrow> bool" where
  "says k vs body = (case body of JObj d \<Rightarrow> dict_get d k JNull \<in> JStr ` set vs | _ \<Rightarrow> False)"

definition prune_sessions :: "'w life_world \<Rightarrow> life_config \<Rightarrow> ws_endpoint \<Rightarrow> ('w, unit) life" where
  "prune_sessions W C ep =
     alarm_and_go_on ''persistence_failed''
       (andThen (mini_json W ep ''POST'' ''/sessions/prune'' (Some (JObj [(''retentionDays'', JInt (cf_session_retention_days C))]))
          session_call_timeout) (\<lambda>(status, body).
        if status \<noteq> 200 \<or> \<not> says ''status'' [''ok''] body then fail LkRuntime else pure ()))"

definition restore_workspace :: "'w life_world \<Rightarrow> life_config \<Rightarrow> ws_endpoint \<Rightarrow> ('w, unit) life" where
  "restore_workspace W C ep =
     andThen (case cf_persistence C of
         PersistS3 \<Rightarrow> restore_workspace_archive W C ep
       | PersistVolume \<Rightarrow> andThen (prune_sessions W C ep) (\<lambda>_. pure False)
       | PersistNone \<Rightarrow> pure False) (\<lambda>restored.
     alarm_and_go_on ''workspace_start_failed'' (call (lw_hook W ep True restored)))"

definition commit_workspace :: "nat \<Rightarrow> 'w life_world \<Rightarrow> life_config \<Rightarrow> ws_endpoint \<Rightarrow> ('w, persist_receipt option) life" where
  "commit_workspace fuel W C ep =
     andThen (alarm_and_go_on ''workspace_stop_failed'' (call (lw_hook W ep False False))) (\<lambda>_.
     if cf_persistence C \<noteq> PersistS3 then pure None
     else report_failure ''Harness Workspace persistence failed''
       (andThen (persist_close fuel W C ep (state_ref_of C ep None) ''/workspace/archive'' (cf_retention_days C)) (\<lambda>p. pure (Some p))))"

definition ensure_workspace_writer :: "'w life_world \<Rightarrow> life_config \<Rightarrow> ws_endpoint \<Rightarrow> ('w, unit) life" where
  "ensure_workspace_writer W C ep =
     (if cf_persistence C \<noteq> PersistS3 then pure ()
      else andThen (get_lc (\<lambda>l. lc_leases l (wr_ref (we_ref ep), None, we_instance_id ep))) (\<lambda>known.
        case known of Some _ \<Rightarrow> pure () | None \<Rightarrow> take_writer W ep (state_ref_of C ep None)))"

section \<open>Sessions\<close>

definition session_path :: "string \<Rightarrow> string \<Rightarrow> string" where
  "session_path session action = ''/sessions/'' @ session @ ''/'' @ action"

definition resume_session :: "'w life_world \<Rightarrow> ws_endpoint \<Rightarrow> string \<Rightarrow> string \<Rightarrow> ('w, unit) life" where
  "resume_session W ep session deadline_at =
     alarm_and_raise ''restore_failed''
       (andThen (mini_json W ep ''POST'' (session_path session ''resume'') (Some (JObj [(''deadlineAt'', JStr deadline_at)]))
          session_call_timeout) (\<lambda>(status, body).
        if status \<noteq> 200 \<or> \<not> says ''status'' [''live'', ''fresh'', ''resumed''] body then fail LkRuntime else pure ()))"

definition restore_session :: "'w life_world \<Rightarrow> life_config \<Rightarrow> ws_endpoint \<Rightarrow> string \<Rightarrow> string \<Rightarrow> ('w, unit) life" where
  "restore_session W C ep session deadline_at =
     (case cf_persistence C of
        PersistVolume \<Rightarrow> resume_session W ep session deadline_at
      | PersistNone \<Rightarrow> pure ()
      | PersistS3 \<Rightarrow>
          (let ref = state_ref_of C ep (Some session) in
           alarm_and_raise ''restore_failed''
             (andThen (mini_json W ep ''GET'' (session_path session ''info'') None 10) (\<lambda>(status, info).
              let load = andThen (call (lw_restored W ref (cf_session_retention_days C))) (\<lambda>r. case r of
                    None \<Rightarrow> pure ()
                  | Some (content, etag) \<Rightarrow>
                      andThen (put_archive W ep (session_path session ''archive'') content) (\<lambda>_. take_writer W ep ref)) in
              case info of
                JObj d \<Rightarrow>
                  if status = 200
                  then (if truthy (dict_get d ''active'' JNull) \<or> truthy (dict_get d ''initialized'' JNull) then pure () else load)
                  else if status \<noteq> 404 then fail LkRuntime else load
              | _ \<Rightarrow> if status \<noteq> 404 then fail LkRuntime else load))))"

definition report_suspend_hook :: "'w life_world \<Rightarrow> ws_endpoint \<Rightarrow> string \<Rightarrow> ('w, unit) life" where
  "report_suspend_hook W ep session =
     andThen (handle (andThen (mini_json W ep ''GET'' (session_path session ''info'') None 10) (\<lambda>r. pure (Some r))) (\<lambda>e. pure None)) (\<lambda>r.
     case r of
       Some (status, JObj d) \<Rightarrow>
         if status = 200 \<and> dict_get d ''suspendHookFailed'' JNull = JBool True then raise_alarm ''Harness suspend hook failed'' else pure ()
     | _ \<Rightarrow> pure ())"

definition session_key_of :: "ws_endpoint \<Rightarrow> string \<Rightarrow> session_key" where
  "session_key_of ep session = (wr_ref (we_ref ep), session, we_instance_id ep)"

definition suspend_session :: "'w life_world \<Rightarrow> ws_endpoint \<Rightarrow> string \<Rightarrow> ('w, unit) life" where
  "suspend_session W ep session =
     report_failure ''Harness session persistence failed''
       (andThen (mini_json W ep ''POST'' (session_path session ''suspend'') None session_call_timeout) (\<lambda>(status, body).
        if status \<noteq> 200 \<or> \<not> says ''status'' [''suspended''] body then fail LkRuntime
        else note_event (Suspended (session_key_of ep session))))"

definition retire_session :: "'w life_world \<Rightarrow> ws_endpoint \<Rightarrow> string \<Rightarrow> ('w, unit) life" where
  "retire_session W ep session =
     handle (andThen (mini_json W ep ''POST'' (session_path session ''retire'') None 10) (\<lambda>(status, body).
        if status \<noteq> 200 \<or> \<not> says ''status'' [''retired''] body \<or> \<not> says ''sessionRef'' [session] body then fail LkRuntime
        else note_event (RetireConfirmed (session_key_of ep session))))
       (\<lambda>e. andThen (raise_alarm ''Harness session retire failed'') (\<lambda>_. throw (e\<lparr>lx_retire_pending := True, lx_reported := True\<rparr>)))"

text \<open>Without persistence the archive is read to its end and dropped.\<close>

definition drain_archive :: "'w life_world \<Rightarrow> ws_endpoint \<Rightarrow> string \<Rightarrow> ('w, unit) life" where
  "drain_archive W ep session =
     report_failure ''Harness session archive export failed''
       (andThen (get_archive W ep (session_path session ''archive'') 180) (\<lambda>(chunks, ending).
        case ending of Some k \<Rightarrow> fail k | None \<Rightarrow> note_event (Drained (session_key_of ep session))))"

definition save_session :: "nat \<Rightarrow> 'w life_world \<Rightarrow> life_config \<Rightarrow> ws_endpoint \<Rightarrow> string \<Rightarrow> ('w, unit) life" where
  "save_session fuel W C ep session =
     (case cf_persistence C of
        PersistVolume \<Rightarrow> andThen (suspend_session W ep session) (\<lambda>_. report_suspend_hook W ep session)
      | PersistNone \<Rightarrow>
          andThen (drain_archive W ep session) (\<lambda>_.
          andThen (report_suspend_hook W ep session) (\<lambda>_. retire_session W ep session))
      | PersistS3 \<Rightarrow>
          andThen (report_failure ''Harness session persistence failed''
            (persist_close fuel W C ep (state_ref_of C ep (Some session)) (session_path session ''archive'') (cf_session_retention_days C))) (\<lambda>_.
          andThen (report_suspend_hook W ep session) (\<lambda>_. retire_session W ep session)))"

definition session_failed :: "session_key \<Rightarrow> life_exc \<Rightarrow> rat \<Rightarrow> lifecycle \<Rightarrow> lifecycle" where
  "session_failed k e now l =
     l\<lparr>lc_failed_session_saves := insert k (lc_failed_session_saves l),
       lc_pending_retire := (if lx_retire_pending e then insert k (lc_pending_retire l) else lc_pending_retire l),
       lc_session_retry_at := (if lx_kind e = LkTransient \<or> lx_retire_pending e then (lc_session_retry_at l)(k \<mapsto> now + 30)
                               else lc_session_retry_at l)\<rparr>"

definition session_saved :: "session_key \<Rightarrow> lifecycle \<Rightarrow> lifecycle" where
  "session_saved k l =
     l\<lparr>lc_pending_retire := lc_pending_retire l - {k}, lc_failed_session_saves := lc_failed_session_saves l - {k},
       lc_session_retry_at := (lc_session_retry_at l)(k := None)\<rparr>"

definition attempt_session_save :: "nat \<Rightarrow> 'w life_world \<Rightarrow> life_config \<Rightarrow> ws_endpoint \<Rightarrow> string \<Rightarrow> ('w, bool) life" where
  "attempt_session_save fuel W C ep session =
     (let k = session_key_of ep session in
      handle
        (andThen (get_lc (\<lambda>l. k \<in> lc_pending_retire l)) (\<lambda>committed.
         andThen (if committed then retire_session W ep session else save_session fuel W C ep session) (\<lambda>_.
         andThen (on_lc (session_saved k)) (\<lambda>_. pure True))))
        (\<lambda>e.
         andThen (peek (lw_monotonic W)) (\<lambda>now.
         andThen (on_lc (session_failed k e now)) (\<lambda>_.
         andThen (if lx_reported e then pure () else raise_alarm ''Harness session persistence failed'') (\<lambda>_. pure False)))))"

section \<open>The idle observer\<close>

definition finished_states :: "run_state set" where
  "finished_states = {RunCompleted, RunFailed, RunCancelled, RunSkipped}"

text \<open>What a turn of the loop over the sessions adds: the session still counts as active, or is uncertain.\<close>

record seen =
  sn_active :: "string set"
  sn_uncertain :: bool

definition field :: "string \<Rightarrow> dict \<Rightarrow> json" where
  "field k d = dict_get d k JNull"

definition session_due :: "life_config \<Rightarrow> dict \<Rightarrow> bool \<Rightarrow> bool" where
  "session_due C info confirmed \<longleftrightarrow>
     (cf_persistence C = PersistVolume \<and> truthy (field ''needsSuspend'' info))
     \<or> (cf_persistence C = PersistS3 \<and> (truthy (field ''initialized'' info) \<or> truthy (field ''nativeSessionId'' info)) \<and> \<not> confirmed)"

definition mark_busy :: "session_key \<Rightarrow> rat \<Rightarrow> lifecycle \<Rightarrow> lifecycle" where
  "mark_busy k now l = l\<lparr>lc_saw_activity := True, lc_confirmed_closes := lc_confirmed_closes l - {k},
     lc_last_session := (lc_last_session l)((fst k, fst (snd k)) \<mapsto> now)\<rparr>"

definition still_waiting :: "session_key \<Rightarrow> rat \<Rightarrow> lifecycle \<Rightarrow> bool" where
  "still_waiting k now l \<longleftrightarrow> k \<in> lc_failed_session_saves l
     \<and> (case lc_session_retry_at l k of None \<Rightarrow> True | Some t \<Rightarrow> now < t)"

definition forget_failure :: "session_key \<Rightarrow> lifecycle \<Rightarrow> lifecycle" where
  "forget_failure k l = (if k \<in> lc_failed_session_saves l
     then l\<lparr>lc_failed_session_saves := lc_failed_session_saves l - {k}, lc_session_retry_at := (lc_session_retry_at l)(k := None)\<rparr> else l)"

definition tick_live ::
  "nat \<Rightarrow> 'w life_world \<Rightarrow> life_config \<Rightarrow> ws_endpoint \<Rightarrow> string \<Rightarrow> dict \<Rightarrow> rat \<Rightarrow> seen \<Rightarrow> ('w, seen) life" where
  "tick_live fuel W C ep session info now sn =
     (let k = session_key_of ep session; lk = (wr_ref (we_ref ep), session); active = sn\<lparr>sn_active := insert session (sn_active sn)\<rparr> in
      andThen (on_lc (\<lambda>l. l\<lparr>lc_confirmed_closes := lc_confirmed_closes l - {k}\<rparr>)) (\<lambda>_.
      case lw_float W (if truthy (field ''idleSeconds'' info) then field ''idleSeconds'' info else JInt 0) of
        None \<Rightarrow> fail LkOther
      | Some idle0 \<Rightarrow>
          andThen (get_lc (\<lambda>l. case lc_last_session l lk of Some t \<Rightarrow> t | None \<Rightarrow> now - idle0)) (\<lambda>last.
          andThen (on_lc (\<lambda>l. l\<lparr>lc_last_session := (lc_last_session l)(lk \<mapsto> last)\<rparr>)) (\<lambda>_.
          if now - last < cf_session_idle_timeout C then pure active
          else
            andThen (attempt_session_save fuel W C ep session) (\<lambda>saved.
            if \<not> saved then pure active
            else
              andThen (on_lc (\<lambda>l. l\<lparr>lc_confirmed_closes := (if cf_persistence C = PersistS3 then insert k (lc_confirmed_closes l)
                                                         else lc_confirmed_closes l),
                                   lc_last_session := (lc_last_session l)(lk := None)\<rparr>)) (\<lambda>_. pure active))))))"

definition tick_stopped ::
  "nat \<Rightarrow> 'w life_world \<Rightarrow> life_config \<Rightarrow> ws_endpoint \<Rightarrow> string \<Rightarrow> dict \<Rightarrow> seen \<Rightarrow> ('w, seen) life" where
  "tick_stopped fuel W C ep session info sn =
     (let k = session_key_of ep session in
      andThen (on_lc (\<lambda>l. l\<lparr>lc_last_session := (lc_last_session l)((wr_ref (we_ref ep), session) := None)\<rparr>)) (\<lambda>_.
      andThen (get_lc (\<lambda>l. session_due C info (k \<in> lc_confirmed_closes l))) (\<lambda>due.
      if \<not> due then pure sn
      else
        andThen (attempt_session_save fuel W C ep session) (\<lambda>saved.
        if \<not> saved then pure (sn\<lparr>sn_active := insert session (sn_active sn)\<rparr>)
        else andThen (on_lc (\<lambda>l. l\<lparr>lc_confirmed_closes := insert k (lc_confirmed_closes l)\<rparr>)) (\<lambda>_. pure sn)))))"

definition tick_session ::
  "nat \<Rightarrow> 'w life_world \<Rightarrow> life_config \<Rightarrow> ws_endpoint \<Rightarrow> run_status list \<Rightarrow> rat \<Rightarrow> json \<Rightarrow> seen \<Rightarrow> ('w, seen) life" where
  "tick_session fuel W C ep runs now item sn =
     (case item of
        JObj d \<Rightarrow>
          (case map_of d ''sessionRef'' of
             Some (JStr session) \<Rightarrow>
               (let k = session_key_of ep session; active = sn\<lparr>sn_active := insert session (sn_active sn)\<rparr> in
                andThen (mini_json W ep ''GET'' (session_path session ''info'') None 10) (\<lambda>(status, body).
                case body of
                  JObj info \<Rightarrow>
                    if status \<noteq> 200 then fail LkRuntime
                    else
                      andThen (note_event (SessionSeen k info)) (\<lambda>_.
                      if truthy (field ''uncertain'' info)
                      then andThen (on_lc (\<lambda>l. l\<lparr>lc_confirmed_closes := lc_confirmed_closes l - {k}\<rparr>)) (\<lambda>_. pure (sn\<lparr>sn_uncertain := True\<rparr>))
                      else
                        andThen (peek (lw_has_work W (wr_ref (we_ref ep)) (Some session))) (\<lambda>has_work.
                        if has_work \<or> (\<exists>r \<in> set runs. rs_session_ref r = session \<and> rs_state r \<notin> finished_states)
                        then andThen (on_lc (mark_busy k now)) (\<lambda>_. pure active)
                        else
                          andThen (peek (lw_monotonic W)) (\<lambda>t.
                          andThen (get_lc (still_waiting k t)) (\<lambda>waiting.
                          if waiting then pure active
                          else
                            andThen (on_lc (forget_failure k)) (\<lambda>_.
                            if truthy (field ''active'' info) then tick_live fuel W C ep session info now sn
                            else tick_stopped fuel W C ep session info sn)))))
                | _ \<Rightarrow> fail LkRuntime))
           | _ \<Rightarrow> fail LkRuntime)
      | _ \<Rightarrow> fail LkRuntime)"

fun tick_sessions ::
  "nat \<Rightarrow> 'w life_world \<Rightarrow> life_config \<Rightarrow> ws_endpoint \<Rightarrow> run_status list \<Rightarrow> rat \<Rightarrow> json list \<Rightarrow> seen \<Rightarrow> ('w, seen) life" where
  "tick_sessions fuel W C ep runs now [] sn = pure sn"
| "tick_sessions fuel W C ep runs now (item # items) sn =
     andThen (tick_session fuel W C ep runs now item sn) (\<lambda>sn'. tick_sessions fuel W C ep runs now items sn')"

definition close_idle :: "'w life_world \<Rightarrow> ws_endpoint \<Rightarrow> ('w, unit) life" where
  "close_idle W ep =
     (let wref = wr_ref (we_ref ep); wk = (wref, we_instance_id ep) in
      andThen (note_event (ClosingWorkspace wref (we_instance_id ep))) (\<lambda>_.
      andThen (io (lw_close_ws W (we_ref ep))) (\<lambda>r. case r of
        Inl e \<Rightarrow>
          andThen (peek (lw_monotonic W)) (\<lambda>t.
          andThen (on_lc (\<lambda>l. l\<lparr>lc_failed_workspace_saves := insert wk (lc_failed_workspace_saves l),
              lc_workspace_retry_at := (if lx_kind e = LkTransient then (lc_workspace_retry_at l)(wk \<mapsto> t + 30) else lc_workspace_retry_at l)\<rparr>)) (\<lambda>_.
          if lx_reported e then pure () else raise_alarm ''Harness Workspace persistence failed''))
      | Inr _ \<Rightarrow>
          on_lc (\<lambda>l. l\<lparr>lc_failed_workspace_saves := lc_failed_workspace_saves l - {wk},
              lc_workspace_retry_at := (lc_workspace_retry_at l)(wk := None), lc_last_workspace := (lc_last_workspace l)(wref := None)\<rparr>))))"

definition settle_workspace :: "'w life_world \<Rightarrow> life_config \<Rightarrow> ws_endpoint \<Rightarrow> rat \<Rightarrow> seen \<Rightarrow> ('w, unit) life" where
  "settle_workspace W C ep now sn =
     (let wref = wr_ref (we_ref ep) in
      andThen (peek (lw_has_work W wref None)) (\<lambda>queued.
      if sn_active sn \<noteq> {} \<or> sn_uncertain sn \<or> queued
      then on_lc (\<lambda>l. l\<lparr>lc_saw_activity := lc_saw_activity l \<or> sn_uncertain sn \<or> queued, lc_last_workspace := (lc_last_workspace l)(wref := None)\<rparr>)
      else
        andThen (get_lc (\<lambda>l. case lc_last_workspace l wref of Some t \<Rightarrow> t | None \<Rightarrow> now)) (\<lambda>last_idle.
        andThen (on_lc (\<lambda>l. l\<lparr>lc_last_workspace := (lc_last_workspace l)(wref \<mapsto> last_idle)\<rparr>)) (\<lambda>_.
        if now - last_idle \<ge> cf_idle_timeout C then close_idle W ep else pure ()))))"

definition workspace_waiting :: "string \<times> string \<Rightarrow> rat \<Rightarrow> lifecycle \<Rightarrow> bool" where
  "workspace_waiting wk now l \<longleftrightarrow> wk \<in> lc_failed_workspace_saves l
     \<and> (case lc_workspace_retry_at l wk of None \<Rightarrow> True | Some t \<Rightarrow> now < t)"

definition observe_workspace :: "nat \<Rightarrow> 'w life_world \<Rightarrow> life_config \<Rightarrow> ws_endpoint \<Rightarrow> rat \<Rightarrow> ('w, unit) life" where
  "observe_workspace fuel W C ep now =
     andThen (mini_json W ep ''GET'' ''/sessions'' None 10) (\<lambda>(status, body).
     case body of
       JList items \<Rightarrow>
         if status \<noteq> 200 then fail LkRuntime
         else
           andThen (call (lw_list_runs W ep)) (\<lambda>runs.
           andThen (tick_sessions fuel W C ep runs now items \<lparr>sn_active = {}, sn_uncertain = False\<rparr>) (\<lambda>sn.
           settle_workspace W C ep now sn))
     | _ \<Rightarrow> fail LkRuntime)"

definition tick_workspace :: "nat \<Rightarrow> 'w life_world \<Rightarrow> life_config \<Rightarrow> string \<Rightarrow> ws_endpoint \<Rightarrow> rat \<Rightarrow> ('w, unit) life" where
  "tick_workspace fuel W C wref ep now =
     andThen (peek (lw_active W wref)) (\<lambda>current.
     if current \<noteq> Some ep then pure ()
     else
       andThen (handle (andThen (mini_json W ep ''GET'' ''/healthz'' None 10) (\<lambda>r. pure (Some (fst r)))) (\<lambda>e. pure None)) (\<lambda>health.
       if health \<noteq> Some 200
       then andThen (peek (lw_gateway W)) (\<lambda>up.
            if \<not> up then pure ()
            else andThen (on_lc (\<lambda>l. l\<lparr>lc_saw_activity := True\<rparr>)) (\<lambda>_. call (lw_recover W (we_ref ep) (we_instance_id ep))))
       else
         andThen (peek (lw_monotonic W)) (\<lambda>t.
         andThen (get_lc (workspace_waiting (wref, we_instance_id ep) t)) (\<lambda>waiting.
         if waiting then pure ()
         else
           andThen (handle (andThen (ensure_workspace_writer W C ep) (\<lambda>_. pure True))
              (\<lambda>e. andThen (raise_alarm ''Harness Workspace persistence failed'') (\<lambda>_. pure False))) (\<lambda>ok.
           if ok then observe_workspace fuel W C ep now else pure ())))))"

text \<open>The delay after a tick.\<close>

definition tick_delays :: "rat list" where "tick_delays = [1, 1, 2, 5]"

definition tick_delay :: "life_config \<Rightarrow> nat \<Rightarrow> rat" where
  "tick_delay C idle_ticks =
     min (tick_delays ! min idle_ticks (length tick_delays - 1)) (max 1 (1 / 10 * min (cf_idle_timeout C) (cf_session_idle_timeout C)))"

definition next_idle_ticks :: "nat \<Rightarrow> bool \<Rightarrow> bool \<Rightarrow> nat \<Rightarrow> nat" where
  "next_idle_ticks failures saw_activity admitted idle_ticks =
     (if failures > 0 then failures else if saw_activity \<or> admitted then 0 else idle_ticks + 1)"

end
