(* ===== verification/Lifecycle_Safety.thy ===== *)
theory Lifecycle_Safety
  imports Lifecycle
begin

text \<open>
  What the lifecycle does with a close and with an idle Workspace: the shape of the log of one close, the
  end of its retries, and what holds of the sessions when a Workspace is closed.
\<close>

section \<open>Computations that log nothing\<close>

definition silent :: "('w, 'a) life \<Rightarrow> bool" where
  "silent m \<longleftrightarrow> (\<forall>s. lt_log (snd (m s)) = lt_log s)"

lemma silent_basic [simp]:
  "silent (pure x)" "silent (throw e)" "silent (fail k)" "silent (gets f)" "silent (get_lc g)" "silent (peek p)" "silent (on_lc h)"
  by (simp_all add: silent_def fail_def get_lc_def peek_def on_lc_def eff_simps)

lemma silent_io [simp]: "silent (io f)"
  by (simp add: silent_def io_def split: prod.split)

lemma silent_bind: "silent m \<Longrightarrow> (\<And>x. silent (f x)) \<Longrightarrow> silent (andThen m f)"
  unfolding silent_def andThen_def by (auto split: prod.split sum.split) (metis snd_conv)+

lemma silent_handle: "silent m \<Longrightarrow> (\<And>e. silent (h e)) \<Longrightarrow> silent (handle m h)"
  unfolding silent_def handle_def by (auto split: prod.split sum.split) (metis snd_conv)+

lemma silent_call [simp]: "silent (call f)"
  unfolding call_def by (intro silent_bind) (auto split: sum.split)

lemma silent_lose [simp]: "silent (lose W ep got)"
  by (simp add: lose_def)

lemma silent_mini [simp]: "silent (mini_json W ep verb path payload timeout)"
  unfolding mini_json_def by (intro silent_bind) (auto intro!: silent_bind split: option.split)

lemma silent_get_archive [simp]: "silent (get_archive W ep path timeout)"
  unfolding get_archive_def by (intro silent_bind) (auto intro!: silent_bind split: sum.split option.split)

lemma silent_put_archive [simp]: "silent (put_archive W ep path content)"
  unfolding put_archive_def by (auto simp: Let_def intro!: silent_bind split: prod.split option.split json.split)

lemma silent_retry [simp]: "silent (retry_wait W deadline delay)"
  unfolding retry_wait_def by (intro silent_bind) (auto intro!: silent_bind)

lemma silent_lease [simp]: "silent (lease_for W ep ref)" "silent (base_for ref lease)" "silent (take_writer W ep ref)"
  unfolding lease_for_def base_for_def take_writer_def Let_def by (auto intro!: silent_bind split: option.split)

lemma silent_triple: "silent m \<Longrightarrow> triple (\<lambda>s. lt_log s = L) m (\<lambda>_ s. lt_log s = L) (\<lambda>_ s. lt_log s = L)"
  unfolding silent_def triple_def by (auto split: prod.split sum.split) (metis snd_conv)+

lemma triple_fail [intro!]: "(\<And>s. P s \<Longrightarrow> E (exc_of k) s) \<Longrightarrow> triple P (fail k) Q E"
  unfolding fail_def by (rule triple_throw)

section \<open>The log of a close\<close>

abbreviation logged :: "life_event list \<Rightarrow> 'w lstate \<Rightarrow> bool" where
  "logged L s \<equiv> lt_log s = L"

lemma note_triple: "triple (logged L) (note_event e) (\<lambda>_. logged (L @ [e])) E"
  unfolding note_event_def by (rule triple_modify) simp

lemma export_once_log:
  "triple (logged L) (export_once W ep path left) (\<lambda>c. logged (L @ [Exported path c])) (\<lambda>_. logged L)"
  unfolding export_once_def
proof (rule triple_bind[OF silent_triple[OF silent_get_archive]], clarify)
  fix chunks ending
  show "triple (logged L) (let ok = \<lparr>ow_cancelled = False, ow_exc = None\<rparr> in
       case write_capped max_archive_bytes ok (map (\<lambda>c. (c, ok)) chunks) (map_option (\<lambda>_. OSError []) ending) ok of
         (Inr _, Some content) \<Rightarrow> andThen (note_event (Exported path content)) (\<lambda>_. pure content)
       | (Inl Archive.ArchiveTooLarge, _) \<Rightarrow> fail LkTooLarge
       | _ \<Rightarrow> fail (case ending of Some k \<Rightarrow> k | None \<Rightarrow> LkOther)) (\<lambda>c. logged (L @ [Exported path c])) (\<lambda>_. logged L)"
    by (auto simp: Let_def split: prod.split sum.split option.split archive_error.split
        intro!: triple_bind[OF note_triple])
qed

lemma export_loop_log:
  "triple (logged L) (export_loop n W ep path deadline delay) (\<lambda>x. logged (L @ [Exported path (fst x)])) (\<lambda>_. logged L)"
proof (induction n arbitrary: delay)
  case 0
  then show ?case by auto
next
  case (Suc n)
  show ?case
    unfolding export_loop.simps
  proof (rule triple_bind[OF silent_triple[OF silent_basic(6)]], rule triple_if)
    fix now
    show "triple (logged L) (handle (andThen (export_once W ep path (deadline - now)) (\<lambda>content. pure (content, delay))) (\<lambda>e.
         if \<not> retryable_archive_error (lx_kind e) then throw e
         else andThen (retry_wait W deadline delay) (\<lambda>d. export_loop n W ep path deadline d)))
       (\<lambda>x. logged (L @ [Exported path (fst x)])) (\<lambda>_. logged L)"
    proof (rule triple_handle)
      show "triple (logged L) (andThen (export_once W ep path (deadline - now)) (\<lambda>content. pure (content, delay)))
          (\<lambda>x. logged (L @ [Exported path (fst x)])) (\<lambda>_. logged L)"
        by (rule triple_bind[OF export_once_log]) auto
      show "triple (logged L) (if \<not> retryable_archive_error (lx_kind e) then throw e
         else andThen (retry_wait W deadline delay) (\<lambda>d. export_loop n W ep path deadline d))
         (\<lambda>x. logged (L @ [Exported path (fst x)])) (\<lambda>_. logged L)" for e
        using Suc by (auto intro!: triple_bind[OF silent_triple[OF silent_retry]])
    qed
  qed auto
qed

lemma persist_once_log:
  "triple (logged L) (persist_once W ref sid lease base days content left)
     (\<lambda>p s. logged (L @ [Persisting ref sid content lease base, Persisted ref content]) s \<and> receipt_valid W ref sid lease content p
        \<and> lc_bases (lt_lc s) (sr_workspace_ref ref, sr_session_ref ref) = Some (Some (pr_etag p)))
     (\<lambda>_. logged (L @ [Persisting ref sid content lease base]))"
  unfolding persist_once_def on_lc_def
  by (rule triple_bind[OF note_triple], rule triple_bind[OF silent_triple[OF silent_call]])
     (auto intro!: triple_bind[OF note_triple] triple_bind[OF triple_modify] simp: triple_def eff_simps andThen_def note_event_def fail_def)

definition retried :: "life_event list \<Rightarrow> life_event \<Rightarrow> life_event list \<Rightarrow> 'w lstate \<Rightarrow> bool" where
  "retried L e tail s \<longleftrightarrow> (\<exists>n. lt_log s = L @ replicate n e @ tail)"

lemma retried_more: "lt_log s = L' \<Longrightarrow> L' = L @ replicate n e \<Longrightarrow> tail = [] \<Longrightarrow> retried L e tail s"
  by (auto simp: retried_def)

lemma persist_loop_log:
  "triple (\<lambda>s. retried L (Persisting ref sid content lease base) [] s) (persist_loop n W ref sid lease base days content deadline delay)
     (\<lambda>p s. retried L (Persisting ref sid content lease base) [Persisted ref content] s \<and> receipt_valid W ref sid lease content p
        \<and> lc_bases (lt_lc s) (sr_workspace_ref ref, sr_session_ref ref) = Some (Some (pr_etag p)))
     (\<lambda>_. retried L (Persisting ref sid content lease base) [])"
proof (induction n arbitrary: delay)
  case 0
  then show ?case by auto
next
  case (Suc n)
  let ?e = "Persisting ref sid content lease base"
  let ?Q = "\<lambda>p s. retried L ?e [Persisted ref content] s \<and> receipt_valid W ref sid lease content p
        \<and> lc_bases (lt_lc s) (sr_workspace_ref ref, sr_session_ref ref) = Some (Some (pr_etag p))"
  have silent_retried: "triple (retried L ?e []) m (\<lambda>_. retried L ?e []) (\<lambda>_. retried L ?e [])" if "silent m" for m :: "('a, 'b) life"
    using that unfolding silent_def triple_def retried_def by (auto split: prod.split sum.split) (metis snd_conv)+
  have once: "triple (retried L ?e []) (persist_once W ref sid lease base days content left) ?Q (\<lambda>_. retried L ?e [])" for left
    unfolding triple_def
  proof (intro allI impI)
    fix s :: "'a lstate"
    assume "retried L ?e [] s"
    then obtain m where m: "lt_log s = L @ replicate m ?e" by (auto simp: retried_def)
    obtain x s' where run: "persist_once W ref sid lease base days content left s = (x, s')" by fastforce
    show "case persist_once W ref sid lease base days content left s of (Inr x, s') \<Rightarrow> ?Q x s' | (Inl e, s') \<Rightarrow> retried L ?e [] s'"
    proof (cases x)
      case (Inl e)
      have "lt_log s' = L @ replicate m ?e @ [?e]"
        using tripleE[OF persist_once_log _ run[unfolded Inl], of "lt_log s"] m by simp
      then have "retried L ?e [] s'" unfolding retried_def by (intro exI[of _ "Suc m"]) (simp add: replicate_append_same)
      then show ?thesis using run Inl by simp
    next
      case (Inr p)
      have l: "lt_log s' = L @ replicate m ?e @ ?e # [Persisted ref content]" and "receipt_valid W ref sid lease content p"
        "lc_bases (lt_lc s') (sr_workspace_ref ref, sr_session_ref ref) = Some (Some (pr_etag p))"
        using tripleD[OF persist_once_log _ run[unfolded Inr], of "lt_log s"] m by simp_all
      moreover have "retried L ?e [Persisted ref content] s'"
        unfolding retried_def l by (intro exI[of _ "Suc m"]) (simp add: replicate_app_Cons_same)
      ultimately show ?thesis using run Inr by simp
    qed
  qed
  have "triple (retried L ?e []) (persist_loop n W ref sid lease base days content deadline d) ?Q (\<lambda>_. retried L ?e [])" for d
    by (rule Suc)
  then show ?case
    unfolding persist_loop.simps
    by (intro triple_bind[OF silent_retried[OF silent_basic(6)]] triple_if triple_handle[OF once])
       (auto intro!: triple_bind[OF silent_retried[OF silent_retry[where W = W]]])
qed

text \<open>
  C16. One close writes one snapshot. Whatever fails on the way, the archive of a close is exported once and
  every write of it, however often retried, has the same snapshot ID, lease, base and content; the
  close returns only a receipt for exactly that snapshot, and the next write then builds on its ETag.
\<close>

theorem close_writes_one_snapshot:
  "persist_close fuel W C ep ref path days s = (r, s') \<Longrightarrow>
   (lt_log s' = lt_log s \<and> isl r)
   \<or> (\<exists>content sid lease base n.
        lt_log s' = lt_log s @ Exported path content # replicate n (Persisting ref sid content lease base)
           @ (case r of Inl _ \<Rightarrow> [] | Inr _ \<Rightarrow> [Persisted ref content])
        \<and> (\<forall>p. r = Inr p \<longrightarrow> receipt_valid W ref sid lease content p
             \<and> lc_bases (lt_lc s') (sr_workspace_ref ref, sr_session_ref ref) = Some (Some (pr_etag p))))"
proof -
  let ?L = "lt_log s"
  define Q where "Q p s' \<longleftrightarrow> (\<exists>content sid lease base n. lt_log s' = ?L @ Exported path content
      # replicate n (Persisting ref sid content lease base) @ [Persisted ref content] \<and> receipt_valid W ref sid lease content p
      \<and> lc_bases (lt_lc s') (sr_workspace_ref ref, sr_session_ref ref) = Some (Some (pr_etag p)))" for p and s' :: "'a lstate"
  define E where "E s' \<longleftrightarrow> lt_log s' = ?L \<or> (\<exists>content sid lease base n. lt_log s' = ?L @ Exported path content
      # replicate n (Persisting ref sid content lease base))" for s' :: "'a lstate"
  have tail: "triple (logged (?L @ [Exported path content])) (persist_loop fuel W ref sid lease base days content d delay) Q (\<lambda>_. E)"
    for content sid lease base d delay
  proof (rule triple_weaken[OF persist_loop_log[of "?L @ [Exported path content]"]])
    show "retried (?L @ [Exported path content]) (Persisting ref sid content lease base) [] s'" if "logged (?L @ [Exported path content]) s'" for s'
      using that by (auto simp: retried_def intro: exI[of _ 0])
  qed (fastforce simp: Q_def E_def retried_def)+
  have silentE: "triple (logged ?L) m (\<lambda>_. logged ?L) (\<lambda>_. E)" if "silent m" for m :: "('a, 'b) life"
    by (rule triple_weaken[OF silent_triple[OF that]]) (auto simp: E_def)
  have exportE: "triple (logged ?L) (export_loop fuel W ep path d 1) (\<lambda>x. logged (?L @ [Exported path (fst x)])) (\<lambda>_. E)" for d
    by (rule triple_weaken[OF export_loop_log]) (auto simp: E_def)
  have "triple (logged ?L) (persist_close fuel W C ep ref path days) Q (\<lambda>_. E)"
    unfolding persist_close_def
    by (intro triple_bind[OF silentE[OF silent_basic(6)]] triple_bind[OF silentE[OF silent_io]] triple_bind[OF silentE[OF silent_lease(1)]]
        triple_bind[OF silentE[OF silent_lease(2)]] triple_bind[OF exportE]) (auto intro!: tail)
  moreover assume "persist_close fuel W C ep ref path days s = (r, s')"
  ultimately have "case r of Inl _ \<Rightarrow> E s' | Inr p \<Rightarrow> Q p s'"
    by (auto dest: tripleD tripleE split: sum.split)
  then show ?thesis by (cases r) (fastforce simp: Q_def E_def)+
qed

section \<open>The end of the retries\<close>

text \<open>
  The clock never goes back during a call, a sleep takes at least the time it is given, and no call
  answers with the outcome that stands for the end of the fuel.
\<close>

definition steady_call :: "'w life_world \<Rightarrow> ('w \<Rightarrow> 'a \<times> 'w) \<Rightarrow> bool" where
  "steady_call W f \<longleftrightarrow> (\<forall>w. lw_monotonic W w \<le> lw_monotonic W (snd (f w)))"

definition clock_ok :: "'w life_world \<Rightarrow> bool" where
  "clock_ok W \<longleftrightarrow>
     (\<forall>d w. 0 \<le> d \<longrightarrow> lw_monotonic W w + d \<le> lw_monotonic W (lw_sleep W d w))
     \<and> steady_call W (lw_uuid W) \<and> (\<forall>ep. steady_call W (\<lambda>w. ((), lw_report_lost W ep w)))
     \<and> (\<forall>ep path t. steady_call W (lw_stream W ep path t)) \<and> (\<forall>ref i. steady_call W (lw_acquire W ref i))
     \<and> (\<forall>ref sid c lease base days t. steady_call W (lw_persist W ref sid c lease base days t))
     \<and> (\<forall>ep path t w. fst (lw_stream W ep path t w) \<noteq> Inl LkOutOfFuel)
     \<and> (\<forall>ep path t w a. fst (lw_stream W ep path t w) = Inr a \<longrightarrow> ar_ending a \<noteq> Some LkOutOfFuel)
     \<and> (\<forall>ref i w. fst (lw_acquire W ref i w) \<noteq> Inl LkOutOfFuel)
     \<and> (\<forall>ref sid c lease base days t w. fst (lw_persist W ref sid c lease base days t w) \<noteq> Inl LkOutOfFuel)"

text \<open>From time \<open>t\<close> on, and without running out of fuel.\<close>

definition runs_on :: "'w life_world \<Rightarrow> ('w, 'a) life \<Rightarrow> bool" where
  "runs_on W m \<longleftrightarrow> (\<forall>t. triple (\<lambda>s. t \<le> lw_monotonic W (lt_w s)) m (\<lambda>_ s. t \<le> lw_monotonic W (lt_w s))
     (\<lambda>e s. t \<le> lw_monotonic W (lt_w s) \<and> lx_kind e \<noteq> LkOutOfFuel))"

lemma runs_on_basic [simp]:
  "runs_on W (pure x)" "k \<noteq> LkOutOfFuel \<Longrightarrow> runs_on W (fail k)" "runs_on W (get_lc g)" "runs_on W (peek p)" "runs_on W (on_lc h)"
  "runs_on W (note_event ev)"
  by (simp_all add: runs_on_def triple_def fail_def get_lc_def peek_def on_lc_def note_event_def eff_simps exc_of_def)

lemma runs_on_throw: "lx_kind e \<noteq> LkOutOfFuel \<Longrightarrow> runs_on W (throw e)"
  by (simp add: runs_on_def triple_def eff_simps)

lemma runs_on_bind: "runs_on W m \<Longrightarrow> (\<And>x. runs_on W (f x)) \<Longrightarrow> runs_on W (andThen m f)"
  unfolding runs_on_def by (blast intro: triple_bind)

lemma triple_io:
  "(\<And>s. P s \<Longrightarrow> Q (fst (f (lt_w s))) (s\<lparr>lt_w := snd (f (lt_w s))\<rparr>)) \<Longrightarrow> triple P (io f) Q E"
  by (simp add: triple_def io_def split_beta)

lemma steady_triple:
  assumes "steady_call W f" "\<And>w. R (fst (f w))"
  shows "triple (\<lambda>s. t \<le> lw_monotonic W (lt_w s)) (io f) (\<lambda>r s. t \<le> lw_monotonic W (lt_w s) \<and> R r) E"
  using assms by (intro triple_io) (auto simp: steady_call_def intro: order_trans)

lemma runs_on_io: "steady_call W f \<Longrightarrow> runs_on W (io f)"
  unfolding runs_on_def by (intro allI triple_weaken[OF steady_triple[where R = "\<lambda>_. True" and E = "\<lambda>_ _. False"]]) auto

lemma runs_on_call:
  assumes "steady_call W f" "\<And>w. fst (f w) \<noteq> Inl LkOutOfFuel"
  shows "runs_on W (call f)"
  unfolding runs_on_def call_def
  by (intro allI triple_bind[OF steady_triple[OF assms(1), where R = "\<lambda>r. r \<noteq> Inl LkOutOfFuel", OF assms(2)]])
     (auto simp: exc_of_def split: sum.split intro!: triple_throw)

lemma bounded_ending: "snd (bounded_chunks n ending cs) = Some k \<Longrightarrow> ending = Some k \<or> k = LkRuntime"
  by (induction n ending cs rule: bounded_chunks.induct) (auto split: if_splits prod.splits)

lemma get_archive_runs:
  assumes "clock_ok W"
  shows "triple (\<lambda>s. t \<le> lw_monotonic W (lt_w s)) (get_archive W ep path left)
    (\<lambda>x s. t \<le> lw_monotonic W (lt_w s) \<and> snd x \<noteq> Some LkOutOfFuel) (\<lambda>e s. False)"
proof -
  have steady: "steady_call W (lw_stream W ep path left)" "steady_call W (\<lambda>w. ((), lw_report_lost W ep w))"
    and no: "\<And>w. fst (lw_stream W ep path left w) \<noteq> Inl LkOutOfFuel"
      "\<And>w a. fst (lw_stream W ep path left w) = Inr a \<Longrightarrow> ar_ending a \<noteq> Some LkOutOfFuel"
    using assms by (auto simp: clock_ok_def)
  have first: "triple (\<lambda>s. t \<le> lw_monotonic W (lt_w s)) (io (lw_stream W ep path left))
     (\<lambda>r s. t \<le> lw_monotonic W (lt_w s) \<and> r \<noteq> Inl LkOutOfFuel \<and> (\<forall>a. r = Inr a \<longrightarrow> ar_ending a \<noteq> Some LkOutOfFuel)) (\<lambda>e s. False)"
    by (rule steady_triple[OF steady(1), where R = "\<lambda>r. r \<noteq> Inl LkOutOfFuel \<and> (\<forall>a. r = Inr a \<longrightarrow> ar_ending a \<noteq> Some LkOutOfFuel)"])
       (use no in auto)
  have lost: "triple (\<lambda>s. t \<le> lw_monotonic W (lt_w s)) (lose W ep got) (\<lambda>_ s. t \<le> lw_monotonic W (lt_w s)) (\<lambda>e s. False)" for got
    unfolding lose_def
    by (rule triple_if, rule triple_weaken[OF steady_triple[OF steady(2), where R = "\<lambda>_. True" and E = "\<lambda>_ _. False"]]) auto
  show ?thesis
    unfolding get_archive_def
  proof (rule triple_bind[OF first])
    fix r :: "(life_kind, archive_response) result"
    let ?P = "\<lambda>s. t \<le> lw_monotonic W (lt_w s) \<and> r \<noteq> Inl LkOutOfFuel \<and> (\<forall>a. r = Inr a \<longrightarrow> ar_ending a \<noteq> Some LkOutOfFuel)"
    have lost2: "triple ?P (andThen (lose W ep got) (\<lambda>_. pure ([], Some LkInstanceMismatch)))
        (\<lambda>x s. t \<le> lw_monotonic W (lt_w s) \<and> snd x \<noteq> Some LkOutOfFuel) (\<lambda>e s. False)" for got
      by (rule triple_bind[where R = "\<lambda>_ s. t \<le> lw_monotonic W (lt_w s)"], rule triple_weaken[OF lost]) auto
    show "triple ?P (case r of
        Inl k \<Rightarrow> pure ([], Some k)
      | Inr a \<Rightarrow>
          if other_instance (ar_instance a) ep then andThen (lose W ep (ar_instance a)) (\<lambda>_. pure ([], Some LkInstanceMismatch))
          else if ar_instance a = None then pure ([], Some LkRuntime)
          else if \<not> (200 \<le> ar_status a \<and> ar_status a < 300) then pure ([], Some (LkHttpStatus (ar_status a)))
          else case ar_length a of
            None \<Rightarrow> pure (bounded_chunks 0 (ar_ending a) (ar_chunks a))
          | Some l \<Rightarrow> (case py_int_of_str l of
              None \<Rightarrow> pure ([], Some LkOther)
            | Some n \<Rightarrow> if n > int max_archive_bytes then pure ([], Some LkRuntime)
                        else pure (bounded_chunks 0 (ar_ending a) (ar_chunks a))))
      (\<lambda>x s. t \<le> lw_monotonic W (lt_w s) \<and> snd x \<noteq> Some LkOutOfFuel) (\<lambda>e s. False)"
    proof (cases r)
      case (Inr a)
      have ok: "triple ?P (pure x) (\<lambda>x s. t \<le> lw_monotonic W (lt_w s) \<and> snd x \<noteq> Some LkOutOfFuel) (\<lambda>e s. False)"
        if "snd x = Some LkOutOfFuel \<longrightarrow> ar_ending a = Some LkOutOfFuel" for x :: "string list \<times> life_kind option"
        using that Inr by (intro triple_pure) blast
      have bounded: "snd (bounded_chunks 0 (ar_ending a) (ar_chunks a)) = Some LkOutOfFuel \<longrightarrow> ar_ending a = Some LkOutOfFuel"
        using bounded_ending[of 0 "ar_ending a" "ar_chunks a" LkOutOfFuel] by blast
      have size_checked: "triple ?P (case ar_length a of
            None \<Rightarrow> pure (bounded_chunks 0 (ar_ending a) (ar_chunks a))
          | Some l \<Rightarrow> (case py_int_of_str l of
              None \<Rightarrow> pure ([], Some LkOther)
            | Some n \<Rightarrow> if n > int max_archive_bytes then pure ([], Some LkRuntime)
                        else pure (bounded_chunks 0 (ar_ending a) (ar_chunks a))))
          (\<lambda>x s. t \<le> lw_monotonic W (lt_w s) \<and> snd x \<noteq> Some LkOutOfFuel) (\<lambda>e s. False)"
      proof (cases "ar_length a")
        case None
        show ?thesis unfolding None option.case by (rule ok[OF bounded])
      next
        case (Some l)
        show ?thesis unfolding Some option.case
        proof (cases "py_int_of_str l")
          case None
          show "triple ?P (case py_int_of_str l of
              None \<Rightarrow> pure ([], Some LkOther)
            | Some n \<Rightarrow> if n > int max_archive_bytes then pure ([], Some LkRuntime)
                        else pure (bounded_chunks 0 (ar_ending a) (ar_chunks a)))
            (\<lambda>x s. t \<le> lw_monotonic W (lt_w s) \<and> snd x \<noteq> Some LkOutOfFuel) (\<lambda>e s. False)"
            unfolding None option.case by (rule ok) simp
        next
          case (Some n)
          show "triple ?P (case py_int_of_str l of
              None \<Rightarrow> pure ([], Some LkOther)
            | Some n \<Rightarrow> if n > int max_archive_bytes then pure ([], Some LkRuntime)
                        else pure (bounded_chunks 0 (ar_ending a) (ar_chunks a)))
            (\<lambda>x s. t \<le> lw_monotonic W (lt_w s) \<and> snd x \<noteq> Some LkOutOfFuel) (\<lambda>e s. False)"
            unfolding Some option.case by (intro triple_if ok bounded) simp
        qed
      qed
      show ?thesis unfolding Inr sum.case
        by (intro triple_if size_checked[unfolded Inr] lost2[unfolded Inr] ok[unfolded Inr]) simp_all
    qed (auto intro!: triple_pure)
  qed
qed

lemma runs_on_cases:
  assumes "triple (\<lambda>s. t \<le> lw_monotonic W (lt_w s)) m (\<lambda>x s. t \<le> lw_monotonic W (lt_w s) \<and> R x) (\<lambda>e s. False)" "\<And>x. R x \<Longrightarrow> runs_on W (f x)"
  shows "triple (\<lambda>s. t \<le> lw_monotonic W (lt_w s)) (andThen m f) (\<lambda>_ s. t \<le> lw_monotonic W (lt_w s))
     (\<lambda>e s. t \<le> lw_monotonic W (lt_w s) \<and> lx_kind e \<noteq> LkOutOfFuel)"
proof (rule triple_bind)
  show "triple (\<lambda>s. t \<le> lw_monotonic W (lt_w s)) m (\<lambda>x s. t \<le> lw_monotonic W (lt_w s) \<and> R x)
     (\<lambda>e s. t \<le> lw_monotonic W (lt_w s) \<and> lx_kind e \<noteq> LkOutOfFuel)"
    by (rule triple_weaken[OF assms(1)]) auto
  show "triple (\<lambda>s. t \<le> lw_monotonic W (lt_w s) \<and> R x) (f x) (\<lambda>_ s. t \<le> lw_monotonic W (lt_w s))
     (\<lambda>e s. t \<le> lw_monotonic W (lt_w s) \<and> lx_kind e \<noteq> LkOutOfFuel)" for x
  proof (cases "R x")
    case True
    then show ?thesis using assms(2)[OF True, unfolded runs_on_def, rule_format, of t] by simp
  qed (simp add: triple_def)
qed

lemma export_once_runs: "clock_ok W \<Longrightarrow> runs_on W (export_once W ep path left)"
  unfolding runs_on_def export_once_def
proof (intro allI runs_on_cases[OF get_archive_runs])
  fix x :: "string list \<times> life_kind option"
  assume "snd x \<noteq> Some LkOutOfFuel"
  then show "runs_on W (case x of (chunks, ending) \<Rightarrow>
       let ok = \<lparr>ow_cancelled = False, ow_exc = None\<rparr> in
       case write_capped max_archive_bytes ok (map (\<lambda>c. (c, ok)) chunks) (map_option (\<lambda>_. OSError []) ending) ok of
         (Inr _, Some content) \<Rightarrow> andThen (note_event (Exported path content)) (\<lambda>_. pure content)
       | (Inl Archive.ArchiveTooLarge, _) \<Rightarrow> fail LkTooLarge
       | _ \<Rightarrow> fail (case ending of Some k \<Rightarrow> k | None \<Rightarrow> LkOther))"
    by (auto simp: Let_def split: prod.split sum.split option.split archive_error.split intro!: runs_on_bind)
qed

lemma persist_once_runs: "clock_ok W \<Longrightarrow> runs_on W (persist_once W ref sid lease base days content left)"
  unfolding persist_once_def by (auto intro!: runs_on_bind runs_on_call simp: clock_ok_def)

text \<open>A wait that is not the last one ends a second later at least.\<close>

lemma retry_wait_later:
  assumes "clock_ok W" "1 \<le> delay"
  shows "triple (\<lambda>s. t \<le> lw_monotonic W (lt_w s)) (retry_wait W deadline delay)
    (\<lambda>d s. 1 \<le> d \<and> t + 1 \<le> lw_monotonic W (lt_w s) \<and> lw_monotonic W (lt_w s) < deadline) (\<lambda>e s. t \<le> lw_monotonic W (lt_w s) \<and> lx_kind e \<noteq> LkOutOfFuel)"
proof -
  have sl: "lw_monotonic W w + d \<le> lw_monotonic W (lw_sleep W d w)" if "0 \<le> d" for d w using assms(1) that by (simp add: clock_ok_def)
  have "case retry_wait W deadline delay s of (Inr d, s') \<Rightarrow> 1 \<le> d \<and> t + 1 \<le> lw_monotonic W (lt_w s') \<and> lw_monotonic W (lt_w s') < deadline
      | (Inl e, s') \<Rightarrow> t \<le> lw_monotonic W (lt_w s') \<and> lx_kind e \<noteq> LkOutOfFuel" if h: "t \<le> lw_monotonic W (lt_w s)" for s
  proof -
    let ?now = "lw_monotonic W (lt_w s)" and ?d = "min (min delay 30) (deadline - lw_monotonic W (lt_w s))"
    have "?now + ?d \<le> lw_monotonic W (lw_sleep W ?d (lt_w s))" if "0 < deadline - ?now" using sl[of ?d "lt_w s"] assms(2) that by simp
    then show ?thesis
      using h assms(2)
      by (auto simp: retry_wait_def andThen_def peek_def io_def eff_simps fail_def exc_of_def min_def split: if_splits)
  qed
  then show ?thesis unfolding triple_def by simp
qed

lemma runs_on_triple: "runs_on W m \<Longrightarrow> triple (\<lambda>s. t \<le> lw_monotonic W (lt_w s)) m (\<lambda>_ s. t \<le> lw_monotonic W (lt_w s))
     (\<lambda>e s. t \<le> lw_monotonic W (lt_w s) \<and> lx_kind e \<noteq> LkOutOfFuel)"
  by (simp add: runs_on_def)

text \<open>A loop that waits before each further turn ends within a turn per second left.\<close>

lemma retry_loop_runs:
  fixes body :: "rat \<Rightarrow> rat \<Rightarrow> ('w, 'a) life" and loop :: "nat \<Rightarrow> rat \<Rightarrow> ('w, 'a) life"
  assumes clock: "clock_ok W"
    and body: "\<And>t now delay. 1 \<le> delay \<Longrightarrow> triple (\<lambda>s. t \<le> lw_monotonic W (lt_w s)) (body now delay) (\<lambda>x s. t \<le> lw_monotonic W (lt_w s) \<and> R x)
      (\<lambda>e s. t \<le> lw_monotonic W (lt_w s) \<and> lx_kind e \<noteq> LkOutOfFuel)"
    and loop: "\<And>n delay. loop (Suc n) delay = andThen (peek (lw_monotonic W)) (\<lambda>now.
       if deadline - now \<le> 0 then fail LkTransient
       else handle (body now delay) (\<lambda>e. if \<not> again e then throw e else andThen (retry_wait W deadline delay) (\<lambda>d. loop n d)))"
  shows "deadline - t < of_nat n \<Longrightarrow> 1 \<le> delay \<Longrightarrow> 1 \<le> n \<Longrightarrow>
    triple (\<lambda>s. t \<le> lw_monotonic W (lt_w s)) (loop n delay) (\<lambda>x s. t \<le> lw_monotonic W (lt_w s) \<and> R x)
      (\<lambda>e s. t \<le> lw_monotonic W (lt_w s) \<and> lx_kind e \<noteq> LkOutOfFuel)"
proof (induction n arbitrary: t delay)
  case 0
  then show ?case by simp
next
  case (Suc n)
  let ?T = "\<lambda>t s. t \<le> lw_monotonic W (lt_w s)" and ?E = "\<lambda>t e s. t \<le> lw_monotonic W (lt_w s) \<and> lx_kind e \<noteq> LkOutOfFuel"
  let ?Q = "\<lambda>t x s. t \<le> lw_monotonic W (lt_w s) \<and> R x"
  have again_turn: "triple (?E t e) (if \<not> again e then throw e else andThen (retry_wait W deadline delay) (\<lambda>d. loop n d)) (?Q t) (?E t)" for e
  proof (rule triple_if)
    show "triple (?E t e) (andThen (retry_wait W deadline delay) (\<lambda>d. loop n d)) (?Q t) (?E t)"
    proof (rule triple_bind[where R = "\<lambda>d s. 1 \<le> d \<and> ?T (t + 1) s \<and> lw_monotonic W (lt_w s) < deadline"])
      show "triple (?E t e) (retry_wait W deadline delay) (\<lambda>d s. 1 \<le> d \<and> ?T (t + 1) s \<and> lw_monotonic W (lt_w s) < deadline) (?E t)"
        by (rule triple_weaken[OF retry_wait_later[OF clock Suc.prems(2), of t]]) auto
      show "triple (\<lambda>s. 1 \<le> d \<and> ?T (t + 1) s \<and> lw_monotonic W (lt_w s) < deadline) (loop n d) (?Q t) (?E t)" for d
      proof (cases "1 \<le> d \<and> n \<noteq> 0")
        case True
        then have "triple (?T (t + 1)) (loop n d) (?Q (t + 1)) (?E (t + 1))"
          using Suc.prems(1) by (intro Suc.IH) auto
        then show ?thesis by (rule triple_weaken) auto
      next
        case False
        then have "\<not> (1 \<le> d \<and> t + 1 \<le> x \<and> x < deadline)" for x using Suc.prems(1) by auto
        then show ?thesis unfolding triple_def by blast
      qed
    qed
  qed auto
  have turn: "triple (?T t) (if deadline - now \<le> 0 then fail LkTransient
       else handle (body now delay) (\<lambda>e. if \<not> again e then throw e else andThen (retry_wait W deadline delay) (\<lambda>d. loop n d))) (?Q t) (?E t)" for now
  proof (rule triple_if)
    show "triple (?T t) (fail LkTransient) (?Q t) (?E t)" by (rule triple_fail) (simp add: exc_of_def)
  qed (rule triple_handle[OF body[OF Suc.prems(2)] again_turn])
  show ?case unfolding loop
    by (rule triple_bind[OF _ turn]) (unfold peek_def, rule triple_gets)
qed

lemma export_loop_ends:
  assumes "clock_ok W" "deadline - t < of_nat fuel" "1 \<le> fuel"
  shows "triple (\<lambda>s. t \<le> lw_monotonic W (lt_w s)) (export_loop fuel W ep path deadline 1) (\<lambda>x s. t \<le> lw_monotonic W (lt_w s) \<and> 1 \<le> snd x)
    (\<lambda>e s. t \<le> lw_monotonic W (lt_w s) \<and> lx_kind e \<noteq> LkOutOfFuel)"
proof -
  have once: "triple (\<lambda>s. t \<le> lw_monotonic W (lt_w s)) (andThen (export_once W ep path (deadline - now)) (\<lambda>content. pure (content, delay)))
      (\<lambda>x s. t \<le> lw_monotonic W (lt_w s) \<and> 1 \<le> snd x) (\<lambda>e s. t \<le> lw_monotonic W (lt_w s) \<and> lx_kind e \<noteq> LkOutOfFuel)"
    if "1 \<le> delay" for t now and delay :: rat
    by (rule triple_bind[OF runs_on_triple[OF export_once_runs[OF assms(1)]]]) (use that in auto)
  show ?thesis
    by (rule retry_loop_runs[where loop = "\<lambda>n. export_loop n W ep path deadline" and deadline = deadline
          and again = "\<lambda>e. retryable_archive_error (lx_kind e)" and R = "\<lambda>x. 1 \<le> snd x", OF assms(1) once])
       (use assms(2,3) in simp_all)
qed

lemma persist_loop_ends:
  assumes "clock_ok W" "deadline - t < of_nat fuel" "1 \<le> fuel"
  shows "triple (\<lambda>s. t \<le> lw_monotonic W (lt_w s) \<and> 1 \<le> delay) (persist_loop fuel W ref sid lease base days content deadline delay)
    (\<lambda>_ _. True) (\<lambda>e _. lx_kind e \<noteq> LkOutOfFuel)"
proof (cases "1 \<le> delay")
  case True
  have once: "triple (\<lambda>s. t \<le> lw_monotonic W (lt_w s)) (persist_once W ref sid lease base days content (deadline - now))
      (\<lambda>x s. t \<le> lw_monotonic W (lt_w s) \<and> True) (\<lambda>e s. t \<le> lw_monotonic W (lt_w s) \<and> lx_kind e \<noteq> LkOutOfFuel)" for t now
    using runs_on_triple[OF persist_once_runs[OF assms(1)]] by simp
  have "triple (\<lambda>s. t \<le> lw_monotonic W (lt_w s)) (persist_loop fuel W ref sid lease base days content deadline delay)
      (\<lambda>_ s. t \<le> lw_monotonic W (lt_w s) \<and> True) (\<lambda>e s. t \<le> lw_monotonic W (lt_w s) \<and> lx_kind e \<noteq> LkOutOfFuel)"
    by (rule retry_loop_runs[where loop = "\<lambda>n. persist_loop n W ref sid lease base days content deadline" and deadline = deadline
          and again = "\<lambda>e. \<not> (lx_kind e \<noteq> LkTransient \<and> lx_kind e \<noteq> LkTimeout)" and R = "\<lambda>x. True"
          and body = "\<lambda>now delay. persist_once W ref sid lease base days content (deadline - now)", OF assms(1) once])
       (use assms(2,3) True in \<open>simp_all cong: if_cong\<close>)
  then show ?thesis by (rule triple_weaken) auto
qed (simp add: triple_def)

lemma close_has_fuel:
  assumes "clock_ok W" "cf_shutdown_timeout C < of_nat fuel" "0 \<le> cf_shutdown_timeout C"
  shows "\<forall>e. fst (persist_close fuel W C ep ref path days s) = Inl e \<longrightarrow> lx_kind e \<noteq> LkOutOfFuel"
proof -
  let ?t = "lw_monotonic W (lt_w s)" and ?d = "lw_monotonic W (lt_w s) + cf_shutdown_timeout C"
  have fuel: "?d - ?t < of_nat fuel" "1 \<le> fuel" using assms(2,3) by (simp, cases fuel) simp_all
  have silent_runs: "runs_on W (io (lw_uuid W))" "runs_on W (lease_for W ep ref)" "runs_on W (base_for ref lease)" for lease
    using assms(1) unfolding lease_for_def base_for_def Let_def
    by (auto simp: clock_ok_def intro!: runs_on_io runs_on_bind runs_on_call split: option.split)
  note start = runs_on_triple[OF silent_runs(1), of ?t] runs_on_triple[OF silent_runs(2), of ?t] runs_on_triple[OF silent_runs(3), of ?t]
  have run: "triple (\<lambda>s. ?t \<le> lw_monotonic W (lt_w s))
     (andThen (io (lw_uuid W)) (\<lambda>sid. andThen (lease_for W ep ref) (\<lambda>lease. andThen (base_for ref lease) (\<lambda>base.
       andThen (export_loop fuel W ep path ?d 1) (\<lambda>(content, delay). persist_loop fuel W ref sid lease base days content ?d delay)))))
     (\<lambda>_ _. True) (\<lambda>e _. lx_kind e \<noteq> LkOutOfFuel)"
    by (intro triple_seq[OF start(1)] triple_seq[OF start(2)] triple_seq[OF start(3)] triple_seq[OF export_loop_ends[OF assms(1) fuel]])
       (use persist_loop_ends[OF assms(1) fuel] in \<open>auto simp: split_beta\<close>)
  have eq: "persist_close fuel W C ep ref path days s = andThen (io (lw_uuid W)) (\<lambda>sid. andThen (lease_for W ep ref) (\<lambda>lease.
     andThen (base_for ref lease) (\<lambda>base. andThen (export_loop fuel W ep path ?d 1) (\<lambda>(content, delay).
     persist_loop fuel W ref sid lease base days content ?d delay)))) s"
    unfolding persist_close_def peek_def by simp
  show ?thesis
    using run unfolding triple_def eq by (fastforce split: prod.splits sum.splits)
qed

text \<open>
  What bounds a close on the clock: a timer fires when its time is over and not after, so a call under
  \<open>asyncio.timeout\<close> has ended by then; scheduling a task takes no time.
\<close>

definition timers_ok :: "'w life_world \<Rightarrow> bool" where
  "timers_ok W \<longleftrightarrow>
     (\<forall>d w. 0 \<le> d \<longrightarrow> lw_monotonic W (lw_sleep W d w) \<le> lw_monotonic W w + d)
     \<and> (\<forall>ep w. lw_monotonic W (lw_report_lost W ep w) = lw_monotonic W w)
     \<and> (\<forall>ep path left w. 0 \<le> left \<longrightarrow> lw_monotonic W (snd (lw_stream W ep path left w)) \<le> lw_monotonic W w + left)
     \<and> (\<forall>ref sid c lease base days left w. 0 \<le> left \<longrightarrow>
          lw_monotonic W (snd (lw_persist W ref sid c lease base days left w)) \<le> lw_monotonic W w + left)"

abbreviation ends_by :: "'w life_world \<Rightarrow> rat \<Rightarrow> ('w, 'a) life \<Rightarrow> bool" where
  "ends_by W b m \<equiv> keeps (\<lambda>s. lw_monotonic W (lt_w s) \<le> b) m"

lemma ends_by_basic [simp]:
  "ends_by W b (pure x)" "ends_by W b (throw e)" "ends_by W b (fail k)" "ends_by W b (get_lc g)" "ends_by W b (on_lc h)"
  "ends_by W b (note_event ev)"
  by (simp_all add: triple_def fail_def get_lc_def on_lc_def note_event_def eff_simps)

lemma ends_by_lose: "timers_ok W \<Longrightarrow> ends_by W b (lose W ep got)"
  by (simp add: triple_def lose_def io_def eff_simps timers_ok_def)

lemma ends_by_bind: "ends_by W b m \<Longrightarrow> (\<And>x. ends_by W b (f x)) \<Longrightarrow> ends_by W b (andThen m f)"
  by (rule triple_bind)

lemma export_once_within:
  assumes "timers_ok W" "0 \<le> left"
  shows "triple (\<lambda>s. lw_monotonic W (lt_w s) + left \<le> b) (export_once W ep path left) (\<lambda>_ s. lw_monotonic W (lt_w s) \<le> b)
    (\<lambda>_ s. lw_monotonic W (lt_w s) \<le> b)"
  unfolding export_once_def
proof (rule triple_bind)
  have "lw_monotonic W (snd (lw_stream W ep path left w)) \<le> lw_monotonic W w + left" for w
    using assms by (simp add: timers_ok_def)
  then have "lw_monotonic W w + left \<le> b \<Longrightarrow> lw_monotonic W (snd (lw_stream W ep path left w)) \<le> b" for w
    using order_trans by blast
  then show "triple (\<lambda>s. lw_monotonic W (lt_w s) + left \<le> b) (get_archive W ep path left) (\<lambda>_ s. lw_monotonic W (lt_w s) \<le> b)
    (\<lambda>_ s. lw_monotonic W (lt_w s) \<le> b)"
    unfolding get_archive_def
    by (intro triple_bind[OF triple_io[where Q = "\<lambda>_ s. lw_monotonic W (lt_w s) \<le> b"]])
       (auto simp: assms(1) split: sum.split option.split intro!: ends_by_bind ends_by_lose)
qed (auto simp: Let_def split: prod.split sum.split option.split archive_error.split intro!: ends_by_bind)

lemma persist_once_within:
  assumes "timers_ok W" "0 \<le> left"
  shows "triple (\<lambda>s. lw_monotonic W (lt_w s) + left \<le> b) (persist_once W ref sid lease base days content left)
    (\<lambda>_ s. lw_monotonic W (lt_w s) \<le> b) (\<lambda>_ s. lw_monotonic W (lt_w s) \<le> b)"
proof -
  let ?f = "lw_persist W ref sid content lease base days left"
  have le: "lw_monotonic W (snd (?f w)) \<le> lw_monotonic W w + left" for w using assms by (simp add: timers_ok_def)
  have call: "triple (\<lambda>s. lw_monotonic W (lt_w s) + left \<le> b) (call ?f) (\<lambda>_ s. lw_monotonic W (lt_w s) \<le> b) (\<lambda>_ s. lw_monotonic W (lt_w s) \<le> b)"
    unfolding call_def
    by (rule triple_bind[OF triple_io[where Q = "\<lambda>_ s. lw_monotonic W (lt_w s) \<le> b"]])
       (use le in \<open>auto split: sum.split intro: order_trans\<close>)
  have noting: "triple (\<lambda>s. lw_monotonic W (lt_w s) + left \<le> b) (note_event ev) (\<lambda>_ s. lw_monotonic W (lt_w s) + left \<le> b)
      (\<lambda>_ s. lw_monotonic W (lt_w s) \<le> b)" for ev
    by (simp add: triple_def note_event_def eff_simps)
  show ?thesis unfolding persist_once_def
    by (intro triple_bind[OF noting] triple_bind[OF call]) (auto intro!: ends_by_bind)
qed

lemma retry_wait_within:
  assumes "timers_ok W" "deadline \<le> b" "0 \<le> delay"
  shows "ends_by W b (retry_wait W deadline delay)"
proof -
  have sl: "lw_monotonic W (lw_sleep W d w) \<le> lw_monotonic W w + d" if "0 \<le> d" for d w using assms(1) that by (simp add: timers_ok_def)
  have "lw_monotonic W (lw_sleep W (min (min delay 30) (deadline - lw_monotonic W w)) w) \<le> b" if "lw_monotonic W w < deadline" for w
    using sl[of "min (min delay 30) (deadline - lw_monotonic W w)" w] that assms(2,3) by simp
  then show ?thesis
    by (auto simp: triple_def retry_wait_def andThen_def peek_def io_def eff_simps fail_def split: if_splits)
qed

text \<open>A loop whose turns are bounded by the time left ends by \<open>b\<close> when the deadline does.\<close>

lemma retry_loop_within:
  fixes body :: "rat \<Rightarrow> rat \<Rightarrow> ('w, 'a) life" and loop :: "nat \<Rightarrow> rat \<Rightarrow> ('w, 'a) life"
  assumes timers: "timers_ok W" and b: "deadline \<le> b"
    and body: "\<And>now delay. now < deadline \<Longrightarrow> triple (\<lambda>s. lw_monotonic W (lt_w s) + (deadline - now) \<le> b) (body now delay)
      (\<lambda>_ s. lw_monotonic W (lt_w s) \<le> b) (\<lambda>_ s. lw_monotonic W (lt_w s) \<le> b)"
    and zero: "\<And>delay. loop 0 delay = fail LkOutOfFuel"
    and loop: "\<And>n delay. loop (Suc n) delay = andThen (peek (lw_monotonic W)) (\<lambda>now.
       if deadline - now \<le> 0 then fail LkTransient
       else handle (body now delay) (\<lambda>e. if \<not> again e then throw e else andThen (retry_wait W deadline delay) (\<lambda>d. loop n d)))"
  shows "0 \<le> delay \<Longrightarrow> ends_by W b (loop n delay)"
proof (induction n arbitrary: delay)
  case 0
  then show ?case by (simp add: zero)
next
  case (Suc n)
  have wait: "triple (\<lambda>s. lw_monotonic W (lt_w s) \<le> b) (retry_wait W deadline delay) (\<lambda>d s. 0 \<le> d \<and> lw_monotonic W (lt_w s) \<le> b)
      (\<lambda>_ s. lw_monotonic W (lt_w s) \<le> b)"
  proof -
    have "triple (\<lambda>_. True) (retry_wait W deadline delay) (\<lambda>d _. 0 \<le> d) (\<lambda>_ _. True)"
      using Suc.prems by (auto simp: triple_def retry_wait_def andThen_def peek_def io_def eff_simps fail_def split: if_splits)
    from triple_conj[OF this retry_wait_within[OF timers b Suc.prems]] show ?thesis by (rule triple_weaken) auto
  qed
  have next_turn: "triple (\<lambda>s. 0 \<le> d \<and> lw_monotonic W (lt_w s) \<le> b) (loop n d) (\<lambda>_ s. lw_monotonic W (lt_w s) \<le> b) (\<lambda>_ s. lw_monotonic W (lt_w s) \<le> b)" for d
    by (rule triple_pre[where b = "0 \<le> d"]) (auto intro: triple_weaken[OF Suc.IH])
  have turn: "triple (\<lambda>s. lw_monotonic W (lt_w s) = now \<and> now \<le> b) (if deadline - now \<le> 0 then fail LkTransient
       else handle (body now delay) (\<lambda>e. if \<not> again e then throw e else andThen (retry_wait W deadline delay) (\<lambda>d. loop n d)))
      (\<lambda>_ s. lw_monotonic W (lt_w s) \<le> b) (\<lambda>_ s. lw_monotonic W (lt_w s) \<le> b)" for now
  proof (rule triple_if)
    assume "\<not> deadline - now \<le> 0"
    then show "triple (\<lambda>s. lw_monotonic W (lt_w s) = now \<and> now \<le> b)
        (handle (body now delay) (\<lambda>e. if \<not> again e then throw e else andThen (retry_wait W deadline delay) (\<lambda>d. loop n d)))
        (\<lambda>_ s. lw_monotonic W (lt_w s) \<le> b) (\<lambda>_ s. lw_monotonic W (lt_w s) \<le> b)"
      using b by (intro triple_handle[where R = "\<lambda>_ s. lw_monotonic W (lt_w s) \<le> b"] triple_weaken[OF body[of now delay]]
          triple_if triple_bind[OF wait next_turn]) auto
  qed (auto simp: triple_def fail_def eff_simps)
  show ?case unfolding loop
    by (rule triple_bind[OF _ turn]) (simp add: peek_def triple_def eff_simps)
qed

lemma export_loop_within:
  assumes "timers_ok W" "deadline \<le> b" "0 \<le> delay"
  shows "triple (\<lambda>s. lw_monotonic W (lt_w s) \<le> b) (export_loop fuel W ep path deadline delay)
    (\<lambda>x s. lw_monotonic W (lt_w s) \<le> b) (\<lambda>_ s. lw_monotonic W (lt_w s) \<le> b)"
  by (rule retry_loop_within[where loop = "\<lambda>n. export_loop n W ep path deadline" and deadline = deadline
        and again = "\<lambda>e. retryable_archive_error (lx_kind e)"
        and body = "\<lambda>now delay. andThen (export_once W ep path (deadline - now)) (\<lambda>content. pure (content, delay))"])
     (use assms in \<open>auto intro!: triple_bind[OF export_once_within]\<close>)

lemma persist_loop_within:
  assumes "timers_ok W" "deadline \<le> b" "0 \<le> delay"
  shows "ends_by W b (persist_loop fuel W ref sid lease base days content deadline delay)"
  by (rule retry_loop_within[where loop = "\<lambda>n. persist_loop n W ref sid lease base days content deadline" and deadline = deadline
        and again = "\<lambda>e. \<not> (lx_kind e \<noteq> LkTransient \<and> lx_kind e \<noteq> LkTimeout)"
        and body = "\<lambda>now delay. persist_once W ref sid lease base days content (deadline - now)"])
     (use assms in \<open>auto intro!: persist_once_within cong: if_cong\<close>)

lemma later_keepsD: "m s = (r, s') \<Longrightarrow> keeps I m \<Longrightarrow> I s \<Longrightarrow> I s'"
  by (cases r) (auto dest: tripleD tripleE)

lemma triple_any: "triple P m (\<lambda>_ _. True) (\<lambda>_ _. True)"
  by (simp add: triple_def split: prod.split sum.split)

lemma export_delay: "1 \<le> delay \<Longrightarrow> triple (\<lambda>_. True) (export_loop n W ep path deadline delay) (\<lambda>x _. 1 \<le> snd x) (\<lambda>_ _. True)"
proof (induction n arbitrary: delay)
  case (Suc n)
  have wait: "triple (\<lambda>_. True) (retry_wait W deadline delay) (\<lambda>d _. 1 \<le> d) (\<lambda>_ _. True)"
    using Suc.prems by (auto simp: triple_def retry_wait_def andThen_def peek_def io_def eff_simps fail_def split: if_splits)
  have again: "triple (\<lambda>_. 1 \<le> d) (export_loop n W ep path deadline d) (\<lambda>x _. 1 \<le> snd x) (\<lambda>_ _. True)" for d
    by (rule triple_pre[where b = "1 \<le> d"]) (auto intro: triple_weaken[OF Suc.IH])
  show ?case unfolding export_loop.simps
    by (rule triple_bind[OF triple_any], intro triple_if triple_handle[where R = "\<lambda>_ _. True"] triple_bind[OF wait again] triple_bind[OF triple_any])
       (use Suc.prems in \<open>auto simp: fail_def\<close>)
qed (auto simp: fail_def)

lemma andThen_run: "m s = (x, s') \<Longrightarrow> andThen m f s = (case x of Inl e \<Rightarrow> (Inl e, s') | Inr y \<Rightarrow> f y s')"
  by (simp add: andThen_def split: sum.split)

text \<open>The state once the writer lease is held or refused: \<open>acquire_writer\<close> stands outside every timeout.\<close>

definition after_lease :: "'w life_world \<Rightarrow> ws_endpoint \<Rightarrow> state_ref \<Rightarrow> 'w lstate \<Rightarrow> 'w lstate" where
  "after_lease W ep ref s = snd (andThen (io (lw_uuid W)) (\<lambda>_. lease_for W ep ref) s)"


text \<open>A Workspace \<open>w\<close> whose archive is \<open>data\<close> and a storage that fails until the clock shows 1; the world is the clock.\<close>

definition demo_state_ref :: state_ref where
  "demo_state_ref = \<lparr>sr_agent = \<lparr>ai_name = ''a'', ai_namespace = ''n'', ai_uid = ''u''\<rparr>, sr_workspace_ref = ''w'', sr_domain = DomainWorkspace,
     sr_session_ref = None\<rparr>"

definition demo_lease :: writer_lease where
  "demo_lease = \<lparr>wl_ref = demo_state_ref, wl_writer_instance_id = ''i'', wl_epoch = 1, wl_base_etag = None\<rparr>"

definition demo_ep :: ws_endpoint where
  "demo_ep = \<lparr>we_ref = \<lparr>wr_namespace = ''n'', wr_agent_uid = ''u'', wr_ref = ''w''\<rparr>, we_name = ''p'', we_instance_id = ''i'', we_base_url = ''http''\<rparr>"

definition demo_life :: "rat life_world" where
  "demo_life = \<lparr>lw_monotonic = id, lw_sleep = (\<lambda>d w. w + d), lw_uuid = Pair ''s'', lw_sha256 = id, lw_float = (\<lambda>_. None),
     lw_request = (\<lambda>_ _ _ _ _ w. (None, w)),
     lw_stream = (\<lambda>_ _ _ w. (Inr \<lparr>ar_instance = Some ''i'', ar_status = 200, ar_length = None, ar_chunks = [''da'', ''ta''], ar_ending = None\<rparr>, w)),
     lw_put = (\<lambda>_ _ _ _ w. (Inl LkOther, w)), lw_report_lost = (\<lambda>_ w. w), lw_active = (\<lambda>_ _. None), lw_gateway = (\<lambda>_. True),
     lw_recover = (\<lambda>_ _ w. (Inr (), w)), lw_close_ws = (\<lambda>_ w. (Inr (), w)), lw_hook = (\<lambda>_ _ _ w. (Inr (), w)), lw_has_work = (\<lambda>_ _ _. False),
     lw_list_runs = (\<lambda>_ w. (Inr [], w)), lw_acquire = (\<lambda>_ _ w. (Inr demo_lease, w)),
     lw_persist = (\<lambda>ref sid c lease base _ _ w. (if w < 1 then Inl LkTransient else
        Inr \<lparr>pr_ref = ref, pr_snapshot_id = sid, pr_writer_epoch = wl_epoch lease, pr_generation = 1, pr_etag = ''e'', pr_checksum = c,
          pr_size = int (length c), pr_version = 1, pr_committed_at = None, pr_expires_at = None\<rparr>, w)),
     lw_restored = (\<lambda>_ _ w. (Inr None, w))\<rparr>"

definition demo_config :: life_config where
  "demo_config = \<lparr>cf_agent = sr_agent demo_state_ref, cf_persistence = PersistS3, cf_retention_days = 7, cf_session_retention_days = 7,
     cf_idle_timeout = 600, cf_session_idle_timeout = 300, cf_shutdown_timeout = 2\<rparr>"

definition demo_start :: "rat lstate" where
  "demo_start = \<lparr>lt_lc = new_lifecycle, lt_w = 0, lt_log = []\<rparr>"

lemmas demo_life_defs = demo_life_def demo_lease_def demo_state_ref_def demo_ep_def demo_config_def demo_start_def new_lifecycle_def

lemmas close_defs = persist_close_def lease_for_def base_for_def export_once_def get_archive_def persist_once_def retry_wait_def
  write_capped_def receipt_valid_def max_archive_bytes_def other_instance_def

lemmas life_defs = andThen_def handle_def eff_simps get_lc_def peek_def on_lc_def note_event_def io_def call_def fail_def exc_of_def Let_def

lemma demo_close:
  "lt_log (snd (persist_close 3 demo_life demo_config demo_ep demo_state_ref ''/workspace/archive'' 7 demo_start)) =
     [Exported ''/workspace/archive'' ''data'', Persisting demo_state_ref ''s'' ''data'' demo_lease None,
      Persisting demo_state_ref ''s'' ''data'' demo_lease None, Persisted demo_state_ref ''data'']"
  by (simp add: close_defs life_defs demo_life_defs numeral_3_eq_3)

theorem close_writes_one_snapshot_witness:
  "\<exists>content sid lease base n. lt_log (snd (persist_close 3 demo_life demo_config demo_ep demo_state_ref ''/workspace/archive'' 7 demo_start))
     = Exported ''/workspace/archive'' content # replicate n (Persisting demo_state_ref sid content lease base) @ [Persisted demo_state_ref content]"
proof -
  obtain r s' where run: "persist_close 3 demo_life demo_config demo_ep demo_state_ref ''/workspace/archive'' 7 demo_start = (r, s')" by fastforce
  have "lt_log s' \<noteq> []" and last: "last (lt_log s') = Persisted demo_state_ref ''data''" using demo_close run by simp_all
  then obtain content sid lease base n where "lt_log s' = Exported ''/workspace/archive'' content
      # replicate n (Persisting demo_state_ref sid content lease base) @ (case r of Inl _ \<Rightarrow> [] | Inr _ \<Rightarrow> [Persisted demo_state_ref content])"
    using close_writes_one_snapshot[OF run] unfolding demo_start_def by fastforce
  moreover from this last have "\<not> isl r" by (cases r; cases n) (auto split: if_splits simp: last_replicate)
  ultimately show ?thesis using run by (cases r) auto
qed


section \<open>A session that waits for its retire\<close>

definition adds_only :: "life_event set \<Rightarrow> ('w, 'a) life \<Rightarrow> bool" where
  "adds_only A m \<longleftrightarrow> (\<forall>s. \<exists>xs. lt_log (snd (m s)) = lt_log s @ xs \<and> set xs \<subseteq> A)"

lemma adds_only_silent: "silent m \<Longrightarrow> adds_only A m"
  unfolding silent_def adds_only_def by (metis append_Nil2 empty_subsetI list.set(1))

lemma adds_only_note: "e \<in> A \<Longrightarrow> adds_only A (note_event e)"
  by (simp add: adds_only_def note_event_def eff_simps)

lemma adds_only_bind: "adds_only A m \<Longrightarrow> (\<And>x. adds_only A (f x)) \<Longrightarrow> adds_only A (andThen m f)"
  unfolding adds_only_def andThen_def
  by (auto split: prod.split sum.split) (metis (no_types, lifting) append_assoc set_append snd_conv sup.bounded_iff)+

lemma adds_only_handle: "adds_only A m \<Longrightarrow> (\<And>e. adds_only A (h e)) \<Longrightarrow> adds_only A (handle m h)"
  unfolding adds_only_def handle_def
  by (auto split: prod.split sum.split) (metis (no_types, lifting) append_assoc set_append snd_conv sup.bounded_iff)+

text \<open>
  A session whose snapshot was committed but whose retire failed stays marked even when it gets new work. The next
  save of it sends only the retire: whatever it did since is neither exported nor persisted.
\<close>

theorem pending_session_never_saved:
  fixes s :: "'w lstate"
  assumes "session_key_of ep session \<in> lc_pending_retire l" "lt_lc s = mark_busy (session_key_of ep session) t l"
  shows "\<exists>xs. lt_log (snd (attempt_session_save fuel W C ep session s)) = lt_log s @ xs
    \<and> set xs \<subseteq> insert (RetireConfirmed (session_key_of ep session)) (range LifeAlarm)"
proof -
  let ?k = "session_key_of ep session" and ?A = "insert (RetireConfirmed (session_key_of ep session)) (range LifeAlarm)"
  let ?m = "handle (andThen (retire_session W ep session) (\<lambda>_. andThen (on_lc (session_saved ?k)) (\<lambda>_. pure True)))
        (\<lambda>e. andThen (peek (lw_monotonic W)) (\<lambda>now. andThen (on_lc (session_failed ?k e now)) (\<lambda>_.
         andThen (if lx_reported e then pure () else raise_alarm ''Harness session persistence failed'') (\<lambda>_. pure False)))) :: ('w, bool) life"
  have "?k \<in> lc_pending_retire (lt_lc s)" using assms by (simp add: mark_busy_def)
  then have eq: "attempt_session_save fuel W C ep session s = ?m s"
    by (simp add: attempt_session_save_def Let_def handle_def get_lc_def)
  have r: "adds_only ?A (retire_session W ep session)" unfolding retire_session_def raise_alarm_def
    by (intro adds_only_handle adds_only_bind) (auto simp: adds_only_silent adds_only_note)
  have m: "adds_only ?A ?m" unfolding raise_alarm_def
    by (intro adds_only_handle adds_only_bind) (simp_all add: r adds_only_silent adds_only_note)
  show ?thesis unfolding eq using m by (simp add: adds_only_def)
qed

end
