(* ===== verification/Execution.thy ===== *)
theory Execution
  imports Wire State_Ref Refs "HOL-Library.List_Lexorder" "HOL-Library.Char_ord"
begin

text \<open>
  \<open>execution/service.py\<close>: the service of an execution unit that accepts runs, prepares them, sends them to the
  engine and settles them.

  Coroutines are cut at their awaits: a definition is a stretch that runs without interruption. An
  invocation is an object at an address; the registry maps invocation IDs to addresses. Tasks are fields of the
  invocation: how far the owner is, whether the watchdog and the settlement run, and the two proofs of
  the cleanup. So are the end the watchdog computed when it began, and the two deadlines of the budget of the
  cleanup. The engine is outside; \<open>sv_live\<close> notes for which invocations its native work may still run. It is
  not part of the program's state: no definition reads it.
\<close>

section \<open>Data\<close>

text \<open>What the service reads of a \<open>PublicConfig\<close>.\<close>

record exec_public =
  xp_config_version :: string
  xp_session_start :: bool
  xp_facade_endpoint :: string
  xp_idempotency_window :: rat
  xp_max_stall :: rat
  xp_agent :: agent_identity

datatype run_exc = ExcTimeout string | ExcAmbiguous string | ExcOther string

datatype started_fut = StartedPending | StartedResult started | StartedFailed run_exc | StartedCancelled

datatype owner =
    OwnerNew
  | OwnerAcquiring
  | OwnerHook
  | OwnerProbing string "dict option"
  | OwnerSending
  | OwnerDone
  | OwnerCancelled
  | OwnerRaised string

datatype proof_task = NoTask | TaskPending | TaskOk | TaskRaised string | TaskCancelled

datatype cleanup = NoCleanup | Claimed string run_state | Observing string run_state | CleanupDone

record invocation =
  iv_request :: start_request
  iv_public :: exec_public
  iv_catalog :: "dict option"
  iv_run_id :: string
  iv_started :: started_fut
  iv_received_at :: rat
  iv_terminal :: bool
  iv_state :: run_state
  iv_error :: "string option"
  iv_result :: json
  iv_terminal_at :: "rat option"
  iv_owner :: owner
  iv_owner_cancel :: bool
  iv_watch :: bool
  iv_settling :: bool
  iv_cleanup :: cleanup
  iv_reserved :: bool
  iv_receipt :: "string option"
  iv_possible_send :: bool
  iv_engine_cancel :: proof_task
  iv_owner_stop :: proof_task
  iv_watch_end :: "rat option"
  iv_force_deadline :: "rat option"
  iv_confirm_deadline :: "rat option"

text \<open>A session as the registry knows it; \<open>ss_marker\<close> is the file \<open>.ach-session-started\<close> of its HOME.\<close>

record session_state =
  ss_native_session_id :: "string option"
  ss_started :: bool
  ss_suspend_hook_failed :: "bool option"
  ss_suspended :: bool

datatype lock_holder = HeldRun nat | HeldOther

record svc =
  sv_workspace_ref :: "string option"
  sv_public :: "exec_public option"
  sv_catalog :: "dict option"
  sv_closed :: bool
  sv_frozen :: bool
  sv_invocations :: "(string \<times> nat) list"
  sv_heap :: "nat \<Rightarrow> invocation"
  sv_next :: nat
  sv_locks :: "string \<rightharpoonup> lock_holder"
  sv_sessions :: "string \<rightharpoonup> session_state"
  sv_live :: "nat set"
  sv_sends :: "(nat \<times> string \<times> dict option) list"

text \<open>The clocks, the texts of numbers, and what the engine answers without waiting.\<close>

record engine_view =
  nv_utc :: int
  nv_mono :: rat
  nv_float :: "rat \<Rightarrow> string"
  nv_usage :: "string \<Rightarrow> dict option"
  nv_result :: "string \<Rightarrow> string option"

datatype start_error =
    WorkspaceFrozen
  | WorkspaceMismatch
  | ServiceClosing
  | ConflictingStart
  | NotConfigured
  | WrongConfigVersion
  | CapacityExceeded

definition max_retained_runs :: nat where "max_retained_runs = 1024"

definition skip_exit_code :: int where "skip_exit_code = 78"

definition hook_error_tail :: nat where "hook_error_tail = 500"

definition cancel_kill_bound :: rat where "cancel_kill_bound = 10"

definition confirmation_window :: rat where "confirmation_window = 5"

section \<open>The service's own state\<close>

definition new_service :: "string option \<Rightarrow> svc" where
  "new_service wref = \<lparr>sv_workspace_ref = wref, sv_public = None, sv_catalog = None, sv_closed = False, sv_frozen = False,
     sv_invocations = [], sv_heap = (\<lambda>_. undefined), sv_next = 0, sv_locks = Map.empty, sv_sessions = Map.empty,
     sv_live = {}, sv_sends = []\<rparr>"

definition service_ready :: "svc \<Rightarrow> bool" where
  "service_ready s \<longleftrightarrow> sv_public s \<noteq> None \<and> \<not> sv_closed s"

definition configure :: "exec_public \<Rightarrow> dict option \<Rightarrow> svc \<Rightarrow> (start_error, svc) result" where
  "configure public catalog s =
     (if sv_closed s then Inl ServiceClosing else Inr (s\<lparr>sv_public := Some public, sv_catalog := catalog\<rparr>))"

definition upd :: "nat \<Rightarrow> (invocation \<Rightarrow> invocation) \<Rightarrow> svc \<Rightarrow> svc" where
  "upd i f s = s\<lparr>sv_heap := (sv_heap s)(i := f (sv_heap s i))\<rparr>"

definition remaining_time :: "int \<Rightarrow> int \<Rightarrow> int" where
  "remaining_time deadline now = max 0 (deadline - now)"

text \<open>Timestamps are microseconds, as fine as a \<open>datetime\<close> is; the monotonic clock is in seconds.\<close>

definition remaining_seconds :: "int \<Rightarrow> int \<Rightarrow> rat" where
  "remaining_seconds deadline now = of_int (remaining_time deadline now) / 1000000"

definition out_of_time :: "engine_view \<Rightarrow> invocation \<Rightarrow> bool" where
  "out_of_time E v \<longleftrightarrow> remaining_time (sq_deadline_at (iv_request v)) (nv_utc E) \<le> 0"

definition proof_done :: "proof_task \<Rightarrow> bool" where
  "proof_done t = (case t of TaskPending \<Rightarrow> False | _ \<Rightarrow> True)"

definition cleanup_done :: "cleanup \<Rightarrow> bool" where
  "cleanup_done c = (case c of Claimed _ _ \<Rightarrow> False | Observing _ _ \<Rightarrow> False | _ \<Rightarrow> True)"

section \<open>Reports\<close>

definition known_terminal :: "run_state set" where
  "known_terminal = {RunCompleted, RunFailed, RunCancelled, RunSkipped}"

text \<open>\<open>_retain_reporting\<close>: the report is merged once into the result.\<close>

definition retained_result :: "json \<Rightarrow> dict" where
  "retained_result r = (case r of JObj d \<Rightarrow> d | JNull \<Rightarrow> [] | v \<Rightarrow> [(''value'', v)])"

definition has_report :: "json \<Rightarrow> bool" where
  "has_report r = (case r of JObj d \<Rightarrow> dict_has d ''reporting'' | _ \<Rightarrow> False)"

definition report_of :: "engine_view \<Rightarrow> invocation \<Rightarrow> json" where
  "report_of E v =
     (let known = (if iv_state v \<in> known_terminal then iv_terminal_at v else None);
          duration = (case known of None \<Rightarrow> JNull
             | Some t \<Rightarrow> let d = max 0 ((t - iv_received_at v) * 1000) in JFloat (PyFin (nv_float E d) d));
          usage = (case known of None \<Rightarrow> JNull
             | Some _ \<Rightarrow> (case nv_usage E (sq_invocation_id (iv_request v)) of None \<Rightarrow> JNull | Some u \<Rightarrow> JObj u)) in
      JObj [(''duration_ms'', duration), (''usage'', usage)])"

definition retain_reporting :: "engine_view \<Rightarrow> invocation \<Rightarrow> invocation" where
  "retain_reporting E v =
     (if has_report (iv_result v) then v
      else v\<lparr>iv_result := JObj (dict_set (retained_result (iv_result v)) ''reporting'' (report_of E v))\<rparr>)"

text \<open>The end of an invocation: its state, its time and its report.\<close>

definition finalize :: "engine_view \<Rightarrow> run_state \<Rightarrow> string option \<Rightarrow> invocation \<Rightarrow> invocation" where
  "finalize E st err v =
     retain_reporting E (v\<lparr>iv_terminal := True, iv_state := st, iv_error := err, iv_terminal_at := Some (nv_mono E)\<rparr>)"

section \<open>Reservations\<close>

definition session_of :: "nat \<Rightarrow> svc \<Rightarrow> string" where
  "session_of i s = sq_session_ref (iv_request (sv_heap s i))"

definition release_session_lock :: "nat \<Rightarrow> svc \<Rightarrow> svc" where
  "release_session_lock i s =
     (if iv_reserved (sv_heap s i)
      then (upd i (\<lambda>v. v\<lparr>iv_reserved := False\<rparr>) s)\<lparr>sv_locks := (sv_locks s)(session_of i s := None)\<rparr> else s)"

section \<open>Admission\<close>

definition evictable :: "rat \<Rightarrow> rat \<Rightarrow> invocation \<Rightarrow> bool" where
  "evictable window now v \<longleftrightarrow>
     iv_terminal v \<and> (case iv_terminal_at v of None \<Rightarrow> False | Some t \<Rightarrow> now - t \<ge> window) \<and> \<not> iv_reserved v
     \<and> cleanup_done (iv_cleanup v) \<and> iv_state v \<noteq> RunUnknown \<and> proof_done (iv_engine_cancel v) \<and> proof_done (iv_owner_stop v)"

definition reserve_capacity :: "rat \<Rightarrow> svc \<Rightarrow> (start_error, svc) result" where
  "reserve_capacity now s =
     (if length (sv_invocations s) < max_retained_runs then Inr s
      else
        let window = (case sv_public s of Some p \<Rightarrow> xp_idempotency_window p | None \<Rightarrow> 0);
            old = filter (\<lambda>(iid, i). evictable window now (sv_heap s i)) (sv_invocations s) in
        if old = [] then Inl CapacityExceeded
        else Inr (s\<lparr>sv_invocations := foldl dict_del (sv_invocations s)
                      (map fst (take (length (sv_invocations s) - max_retained_runs + 1) old))\<rparr>))"

definition drop_server :: "string \<Rightarrow> dict \<Rightarrow> dict" where
  "drop_server name catalog =
     (case map_of catalog ''mcp'' of Some (JObj mcp) \<Rightarrow> dict_set catalog ''mcp'' (JObj (dict_del mcp name)) | _ \<Rightarrow> catalog)"

definition admitted_catalog :: "start_request \<Rightarrow> dict option \<Rightarrow> dict option" where
  "admitted_catalog q catalog =
     map_option (\<lambda>c. (if sq_inform_user q then id else drop_server ''progress'')
       ((if sq_memory_available q = Some False then drop_server ''memory'' else id) c)) catalog"

definition new_invocation :: "start_request \<Rightarrow> exec_public \<Rightarrow> dict option \<Rightarrow> string \<Rightarrow> rat \<Rightarrow> invocation" where
  "new_invocation q public catalog run_id now =
     \<lparr>iv_request = q, iv_public = public, iv_catalog = catalog, iv_run_id = run_id, iv_started = StartedPending, iv_received_at = now,
      iv_terminal = False, iv_state = RunPreparing, iv_error = None, iv_result = JNull, iv_terminal_at = None,
      iv_owner = OwnerNew, iv_owner_cancel = False, iv_watch = True, iv_settling = False, iv_cleanup = NoCleanup, iv_reserved = False,
      iv_receipt = None, iv_possible_send = False, iv_engine_cancel = NoTask, iv_owner_stop = NoTask,
      iv_watch_end = None, iv_force_deadline = None, iv_confirm_deadline = None\<rparr>"

text \<open>\<open>start\<close>: the address whose \<open>started\<close> the caller then awaits.\<close>

definition start_run :: "engine_view \<Rightarrow> string \<Rightarrow> start_request \<Rightarrow> svc \<Rightarrow> (start_error, nat) result \<times> svc" where
  "start_run E run_id q s =
     (if sv_frozen s then (Inl WorkspaceFrozen, s)
      else if (case sv_workspace_ref s of None \<Rightarrow> False | Some w \<Rightarrow> sq_workspace_ref q \<noteq> w) then (Inl WorkspaceMismatch, s)
      else if sv_closed s then (Inl ServiceClosing, s)
      else case map_of (sv_invocations s) (sq_invocation_id q) of
        Some i \<Rightarrow> (if iv_request (sv_heap s i) \<noteq> q then Inl ConflictingStart else Inr i, s)
      | None \<Rightarrow>
          (case sv_public s of
             None \<Rightarrow> (Inl NotConfigured, s)
           | Some public \<Rightarrow>
               if sq_config_version q \<noteq> xp_config_version public then (Inl WrongConfigVersion, s)
               else case reserve_capacity (nv_mono E) s of
                 Inl e \<Rightarrow> (Inl e, s)
               | Inr s' \<Rightarrow>
                   let i = sv_next s' in
                   (Inr i, s'\<lparr>sv_invocations := dict_set (sv_invocations s') (sq_invocation_id q) i,
                     sv_heap := (sv_heap s')(i := new_invocation q public (admitted_catalog q (sv_catalog s')) run_id (nv_mono E)),
                     sv_next := i + 1\<rparr>)))"

section \<open>Failing and finishing\<close>

definition exc_text :: "run_exc \<Rightarrow> string" where
  "exc_text e = (case e of ExcTimeout m \<Rightarrow> m | ExcAmbiguous m \<Rightarrow> m | ExcOther m \<Rightarrow> m)"

definition settle_started :: "started_fut \<Rightarrow> invocation \<Rightarrow> invocation" where
  "settle_started f v = (if iv_started v = StartedPending then v\<lparr>iv_started := f\<rparr> else v)"

definition receipt_of :: "invocation \<Rightarrow> started" where
  "receipt_of v = \<lparr>sd_invocation_id = sq_invocation_id (iv_request v), sd_session_ref = sq_session_ref (iv_request v),
     sd_run_id = iv_run_id v, sd_config_version = sq_config_version (iv_request v)\<rparr>"

definition fail_before_started :: "engine_view \<Rightarrow> nat \<Rightarrow> run_exc \<Rightarrow> bool \<Rightarrow> svc \<Rightarrow> svc" where
  "fail_before_started E i e release s =
     (if iv_terminal (sv_heap s i) then s
      else
        let s' = upd i (\<lambda>v. settle_started (StartedFailed e) ((finalize E RunFailed (Some (exc_text e)) v)\<lparr>iv_watch := False\<rparr>)) s in
        if release then release_session_lock i s' else s')"

definition finish_without_engine :: "engine_view \<Rightarrow> nat \<Rightarrow> run_state \<Rightarrow> string option \<Rightarrow> svc \<Rightarrow> svc" where
  "finish_without_engine E i st err s =
     (if iv_terminal (sv_heap s i) then s
      else release_session_lock i
        (upd i (\<lambda>v. settle_started (StartedResult (receipt_of v)) ((finalize E st err v)\<lparr>iv_watch := False\<rparr>)) s))"

definition owner_ends :: "nat \<Rightarrow> owner \<Rightarrow> svc \<Rightarrow> svc" where
  "owner_ends i p = upd i (\<lambda>v. v\<lparr>iv_owner := p\<rparr>)"

section \<open>Cleanup\<close>

text \<open>
  \<open>_ensure_cleanup\<close>: the first trigger claims it and starts its clock; the watchdog is cancelled, or is itself
  the trigger and ends.
\<close>

definition ensure_cleanup :: "engine_view \<Rightarrow> nat \<Rightarrow> string \<Rightarrow> run_state \<Rightarrow> svc \<Rightarrow> svc" where
  "ensure_cleanup E i reason st =
     upd i (\<lambda>v. if iv_cleanup v \<noteq> NoCleanup then v
                else v\<lparr>iv_terminal := True, iv_watch := False, iv_cleanup := Claimed reason st,
                  iv_force_deadline := Some (case iv_force_deadline v of None \<Rightarrow> nv_mono E + cancel_kill_bound | Some f \<Rightarrow> f)\<rparr>)"

text \<open>
  The worker starts: \<open>engine.cancel\<close> is entered and the owner is asked to stop, by two tasks that are scheduled one
  after the other and run back to back. An engine that does not know the invocation returns at once.
\<close>

definition owner_over :: "owner \<Rightarrow> bool" where
  "owner_over p = (case p of OwnerDone \<Rightarrow> True | OwnerCancelled \<Rightarrow> True | OwnerRaised _ \<Rightarrow> True | _ \<Rightarrow> False)"

definition cleanup_begin :: "nat \<Rightarrow> svc \<Rightarrow> svc" where
  "cleanup_begin i =
     upd i (\<lambda>v. case iv_cleanup v of
        Claimed reason st \<Rightarrow>
          v\<lparr>iv_cleanup := Observing reason st, iv_engine_cancel := TaskPending, iv_owner_stop := TaskPending,
            iv_owner_cancel := iv_owner_cancel v \<or> \<not> owner_over (iv_owner v)\<rparr>
      | _ \<Rightarrow> v)"

text \<open>\<open>engine.cancel\<close> returned, raised or was cancelled.\<close>

definition engine_cancel_done :: "nat \<Rightarrow> proof_task \<Rightarrow> svc \<Rightarrow> svc" where
  "engine_cancel_done i r s =
     (let s' = upd i (\<lambda>v. v\<lparr>iv_engine_cancel := r\<rparr>) s in
      if r = TaskOk then s'\<lparr>sv_live := sv_live s' - {i}\<rparr> else s')"

text \<open>
  The engine resorts to force, which freezes the deadline of the confirmation once. The wait for a proof goes
  on to the force deadline, and to the frozen one when there is one by then.
\<close>

definition engine_forced :: "engine_view \<Rightarrow> nat \<Rightarrow> svc \<Rightarrow> svc" where
  "engine_forced E i =
     upd i (\<lambda>v. v\<lparr>iv_confirm_deadline := Some (case iv_confirm_deadline v of None \<Rightarrow> nv_mono E + confirmation_window | Some c \<Rightarrow> c)\<rparr>)"

definition wait_expired :: "engine_view \<Rightarrow> invocation \<Rightarrow> bool" where
  "wait_expired E v \<longleftrightarrow> (case iv_force_deadline v of None \<Rightarrow> True | Some f \<Rightarrow> f \<le> nv_mono E)
     \<and> (case iv_confirm_deadline v of None \<Rightarrow> True | Some c \<Rightarrow> c \<le> nv_mono E)"

text \<open>\<open>_stop_owner\<close> of an owner that is over, or whose time to stop is over; before, it waits.\<close>

definition owner_stop_done :: "engine_view \<Rightarrow> nat \<Rightarrow> svc \<Rightarrow> svc" where
  "owner_stop_done E i =
     upd i (\<lambda>v. v\<lparr>iv_owner_stop := (case iv_owner v of
        OwnerDone \<Rightarrow> TaskOk
      | OwnerCancelled \<Rightarrow> TaskOk
      | OwnerRaised m \<Rightarrow> TaskRaised m
      | _ \<Rightarrow> if \<not> wait_expired E v then iv_owner_stop v else TaskRaised ''owner task did not stop within the shared cleanup deadline'')\<rparr>)"

definition or_reason :: "string option \<Rightarrow> string \<Rightarrow> string" where
  "or_reason err reason = (case err of None \<Rightarrow> reason | Some m \<Rightarrow> if m = [] then reason else m)"

definition task_failure :: "proof_task \<Rightarrow> string option" where
  "task_failure t = (case t of
     TaskCancelled \<Rightarrow> Some ''retained task was cancelled'' | TaskRaised m \<Rightarrow> Some m | _ \<Rightarrow> None)"

text \<open>
  The end of \<open>_confirm_halt_and_release\<close>: it waits until both proofs are in or the wait has expired. When a proof is
  missing, failed or was cancelled the run is unknown and keeps its reservation.
\<close>

definition cleanup_verdict :: "invocation \<Rightarrow> string option" where
  "cleanup_verdict v =
     (if \<not> proof_done (iv_engine_cancel v) \<or> \<not> proof_done (iv_owner_stop v) then Some ''observation expired''
      else case task_failure (iv_engine_cancel v) of
        Some m \<Rightarrow> Some m
      | None \<Rightarrow> task_failure (iv_owner_stop v))"

definition observation_over :: "engine_view \<Rightarrow> invocation \<Rightarrow> bool" where
  "observation_over E v \<longleftrightarrow> proof_done (iv_engine_cancel v) \<and> proof_done (iv_owner_stop v) \<or> wait_expired E v"

definition cleanup_decide :: "engine_view \<Rightarrow> nat \<Rightarrow> svc \<Rightarrow> svc" where
  "cleanup_decide E i s =
     (let v = sv_heap s i in
      case iv_cleanup v of
        Observing reason st \<Rightarrow>
          if \<not> observation_over E v then s
          else (case cleanup_verdict v of
             Some why \<Rightarrow>
               upd i (\<lambda>v. (finalize E RunUnknown (Some (or_reason (iv_error v) reason @ ''; cleanup uncertain: '' @ why)) v)\<lparr>iv_cleanup := CleanupDone\<rparr>) s
           | None \<Rightarrow>
               release_session_lock i
                 (upd i (\<lambda>v. (finalize E st (Some (or_reason (iv_error v) reason)) v)\<lparr>iv_cleanup := CleanupDone\<rparr>) s))
      | _ \<Rightarrow> s)"

definition fail_after_possible_send :: "engine_view \<Rightarrow> nat \<Rightarrow> run_exc \<Rightarrow> svc \<Rightarrow> svc" where
  "fail_after_possible_send E i e s =
     (if iv_terminal (sv_heap s i) then s
      else case e of
        ExcOther _ \<Rightarrow> fail_before_started E i e True s
      | _ \<Rightarrow>
          upd i (settle_started (StartedFailed e))
            (ensure_cleanup E i (''unconfirmed send: '' @ exc_text e) (case e of ExcAmbiguous _ \<Rightarrow> RunUnknown | _ \<Rightarrow> RunFailed)
              (upd i (\<lambda>v. v\<lparr>iv_error := Some (exc_text e)\<rparr>) s)))"

section \<open>The owner: preparation and send\<close>

datatype hook_end = HookRaised string | HookOther run_exc | HookRan int string string

text \<open>\<open>urllib.parse.quote\<close> with nothing safe.\<close>

definition unreserved :: "char \<Rightarrow> bool" where
  "unreserved c \<longleftrightarrow> is_lower_az c \<or> is_upper_az c \<or> is_digit_09 c \<or> c \<in> set ''_.-~''"

definition percent :: "char \<Rightarrow> string" where
  "percent c = (let up = (\<lambda>n. if n < 10 then chr (48 + n) else chr (55 + n)) in [CHR ''%'', up (ord c div 16), up (ord c mod 16)])"

definition quote :: "string \<Rightarrow> string" where
  "quote t = concat (map (\<lambda>c. if unreserved c then [c] else percent c) (utf8 t))"

definition point_at_run :: "string \<Rightarrow> string \<Rightarrow> string \<Rightarrow> dict \<Rightarrow> dict" where
  "point_at_run name url url' mcp =
     (case map_of mcp name of
        Some (JObj e) \<Rightarrow> if map_of e ''url'' = Some (JStr url) then dict_set mcp name (JObj (dict_set e ''url'' (JStr url'))) else mcp
      | _ \<Rightarrow> mcp)"

definition run_catalog :: "invocation \<Rightarrow> dict option" where
  "run_catalog v =
     map_option (\<lambda>c. case map_of c ''mcp'' of
        Some (JObj mcp) \<Rightarrow>
          (let facade = rstrip_char CHR ''/'' (xp_facade_endpoint (iv_public v));
               run = quote (sq_invocation_id (iv_request v)) in
           dict_set c ''mcp'' (JObj (point_at_run ''progress'' (facade @ ''/progress'') (facade @ ''/progress/runs/'' @ run @ ''/'')
             (point_at_run ''artifacts'' (facade @ ''/artifacts'') (facade @ ''/artifacts/runs/'' @ run @ ''/'') mcp))))
      | _ \<Rightarrow> c) (iv_catalog v)"

text \<open>The rest after the gate, up to the probe of the MCP servers; \<open>built\<close> is the result of \<open>build_invocation\<close>.\<close>

definition build_and_probe :: "engine_view \<Rightarrow> nat \<Rightarrow> string \<Rightarrow> (run_exc, unit) result \<Rightarrow> svc \<Rightarrow> svc" where
  "build_and_probe E i prompt built s =
     (let s' = upd i (\<lambda>v. v\<lparr>iv_state := RunSending\<rparr>) s in
      case built of
        Inl e \<Rightarrow> owner_ends i OwnerDone (fail_before_started E i e True s')
      | Inr _ \<Rightarrow> owner_ends i (OwnerProbing prompt (run_catalog (sv_heap s' i))) s')"

definition after_gate :: "engine_view \<Rightarrow> (string \<Rightarrow> string) \<Rightarrow> nat \<Rightarrow> (int \<times> string \<times> string) option \<Rightarrow> (run_exc, unit) result \<Rightarrow> svc \<Rightarrow> svc" where
  "after_gate E redact i gate built s =
     (let prompt = sq_prompt (iv_request (sv_heap s i)) in
      case gate of
        None \<Rightarrow> build_and_probe E i prompt built s
      | Some (code, out, err) \<Rightarrow>
          if code = skip_exit_code then owner_ends i OwnerDone (finish_without_engine E i RunSkipped None s)
          else if code \<noteq> 0
          then (let red = redact err in owner_ends i OwnerDone (finish_without_engine E i RunFailed
                 (Some (''sessionStart exited '' @ int_str code @ '': '' @ drop (length red - hook_error_tail) red)) s))
          else build_and_probe E i (if strip out \<noteq> [] then prompt @ [chr 10, chr 10] @ out else prompt) built s)"

definition owner_begin :: "engine_view \<Rightarrow> nat \<Rightarrow> svc \<Rightarrow> svc" where
  "owner_begin E i s =
     (if out_of_time E (sv_heap s i)
      then owner_ends i OwnerDone (fail_before_started E i (ExcTimeout ''deadline already expired before preparation'') False s)
      else owner_ends i OwnerAcquiring s)"

definition acquire_timeout :: "engine_view \<Rightarrow> nat \<Rightarrow> svc \<Rightarrow> svc" where
  "acquire_timeout E i s = owner_ends i OwnerDone (fail_before_started E i (ExcTimeout []) False s)"

definition take_lock :: "nat \<Rightarrow> svc \<Rightarrow> svc" where
  "take_lock i s = (upd i (\<lambda>v. v\<lparr>iv_reserved := True\<rparr>) s)\<lparr>sv_locks := (sv_locks s)(session_of i s \<mapsto> HeldRun i)\<rparr>"

definition fresh_session :: "bool \<Rightarrow> session_state" where
  "fresh_session marker = \<lparr>ss_native_session_id = None, ss_started = marker, ss_suspend_hook_failed = None, ss_suspended = False\<rparr>"

definition get_or_create :: "string \<Rightarrow> bool \<Rightarrow> svc \<Rightarrow> session_state \<times> svc" where
  "get_or_create k marker s =
     (case sv_sessions s k of
        Some st \<Rightarrow> (st, s)
      | None \<Rightarrow> (fresh_session marker, s\<lparr>sv_sessions := (sv_sessions s)(k \<mapsto> fresh_session marker)\<rparr>))"

text \<open>\<open>home\<close>: whether a new HOME already has the marker, or the error that making it raised.\<close>

definition owner_acquired ::
  "engine_view \<Rightarrow> (string \<Rightarrow> string) \<Rightarrow> nat \<Rightarrow> (run_exc, bool) result \<Rightarrow> (run_exc, unit) result \<Rightarrow> svc \<Rightarrow> svc" where
  "owner_acquired E redact i home built s =
     (let s1 = take_lock i s; v = sv_heap s1 i in
      if iv_terminal v then owner_ends i OwnerDone s1
      else if out_of_time E v
      then owner_ends i OwnerDone (fail_before_started E i (ExcTimeout ''deadline expired after acquiring session reservation'') True s1)
      else case home of
        Inl e \<Rightarrow> owner_ends i OwnerDone (fail_before_started E i e True s1)
      | Inr marker \<Rightarrow>
          let (sess, s2) = get_or_create (session_of i s1) marker s1; s3 = upd i (\<lambda>v. v\<lparr>iv_state := RunPreparing\<rparr>) s2 in
          if \<not> ss_started sess \<and> xp_session_start (iv_public v) then owner_ends i OwnerHook s3
          else after_gate E redact i None built s3)"

definition hook_done :: "engine_view \<Rightarrow> (string \<Rightarrow> string) \<Rightarrow> nat \<Rightarrow> hook_end \<Rightarrow> (run_exc, unit) result \<Rightarrow> svc \<Rightarrow> svc" where
  "hook_done E redact i h built s =
     (case h of
        HookRaised m \<Rightarrow> owner_ends i OwnerDone (finish_without_engine E i RunFailed (Some (''sessionStart '' @ m)) s)
      | HookOther e \<Rightarrow> owner_ends i OwnerDone (fail_before_started E i e True s)
      | HookRan code out err \<Rightarrow>
          if iv_terminal (sv_heap s i) then owner_ends i OwnerDone s
          else after_gate E redact i (Some (code, out, err)) built s)"

text \<open>The probe ended: the prompt goes to the engine unless it failed or the time is over.\<close>

definition send_prompt :: "nat \<Rightarrow> string \<Rightarrow> dict option \<Rightarrow> svc \<Rightarrow> svc" where
  "send_prompt i prompt catalog s =
     (upd i (\<lambda>v. v\<lparr>iv_possible_send := True, iv_owner := OwnerSending\<rparr>) s)\<lparr>sv_live := insert i (sv_live s), sv_sends := sv_sends s @ [(i, prompt, catalog)]\<rparr>"

definition probe_done :: "engine_view \<Rightarrow> nat \<Rightarrow> (string, unit) result \<Rightarrow> svc \<Rightarrow> svc" where
  "probe_done E i r s =
     (case iv_owner (sv_heap s i) of
        OwnerProbing prompt catalog \<Rightarrow>
          (case r of
             Inl m \<Rightarrow> owner_ends i OwnerDone (finish_without_engine E i RunFailed (Some m) s)
           | Inr _ \<Rightarrow>
               if out_of_time E (sv_heap s i)
               then owner_ends i OwnerDone (fail_before_started E i (ExcTimeout ''deadline expired before native send'') True s)
               else send_prompt i prompt catalog s)
      | _ \<Rightarrow> s)"

datatype send_end = SendReceipt string | SendRaised run_exc

definition note_receipt :: "nat \<Rightarrow> string \<Rightarrow> svc \<Rightarrow> svc" where
  "note_receipt i sid s =
     (let k = session_of i s in
      (upd i (\<lambda>v. v\<lparr>iv_receipt := Some sid\<rparr>) s)\<lparr>sv_sessions := (sv_sessions s)(k := map_option
         (\<lambda>st. st\<lparr>ss_native_session_id := Some sid, ss_suspended := False\<rparr>) (sv_sessions s k))\<rparr>)"

definition mark_started :: "string \<Rightarrow> svc \<Rightarrow> svc" where
  "mark_started k s = s\<lparr>sv_sessions := (sv_sessions s)(k := map_option (\<lambda>st. st\<lparr>ss_started := True\<rparr>) (sv_sessions s k))\<rparr>"

text \<open>
  \<open>engine.start\<close> returned or raised. A clean rejection means that the native side accepted nothing. \<open>marked\<close> is the
  outcome of writing the marker.
\<close>

definition send_done :: "engine_view \<Rightarrow> nat \<Rightarrow> send_end \<Rightarrow> (string, unit) result \<Rightarrow> svc \<Rightarrow> svc" where
  "send_done E i r marked s =
     (case r of
        SendRaised e \<Rightarrow>
          owner_ends i OwnerDone (fail_after_possible_send E i e (case e of ExcOther _ \<Rightarrow> s\<lparr>sv_live := sv_live s - {i}\<rparr> | _ \<Rightarrow> s))
      | SendReceipt sid \<Rightarrow>
          let s1 = note_receipt i sid s; k = session_of i s;
              fresh = (case sv_sessions s1 k of Some st \<Rightarrow> \<not> ss_started st | None \<Rightarrow> False) in
          case (if fresh then marked else Inr ()) of
            Inl m \<Rightarrow> owner_ends i (OwnerRaised m) s1
          | Inr _ \<Rightarrow>
              let s2 = (if fresh then mark_started k s1 else s1) in
              if iv_terminal (sv_heap s2 i) then owner_ends i OwnerDone s2
              else upd i (\<lambda>v. (settle_started (StartedResult (receipt_of v)) (v\<lparr>iv_state := RunRunning\<rparr>))\<lparr>iv_settling := True, iv_owner := OwnerDone\<rparr>) s2)"

section \<open>Settlement, watchdog, cancellation\<close>

definition settled :: "engine_view \<Rightarrow> nat \<Rightarrow> run_state \<Rightarrow> svc \<Rightarrow> svc" where
  "settled E i outcome s =
     (let s' = upd i (\<lambda>v. v\<lparr>iv_settling := False\<rparr>) (s\<lparr>sv_live := sv_live s - {i}\<rparr>) in
      if iv_terminal (sv_heap s' i) then s'
      else release_session_lock i (upd i (\<lambda>v.
        let res = (if outcome = RunCompleted
                   then (case nv_result E (sq_invocation_id (iv_request v)) of Some t \<Rightarrow> JObj [(''text'', JStr t)] | None \<Rightarrow> iv_result v)
                   else iv_result v) in
        (finalize E outcome (iv_error v) (v\<lparr>iv_result := res\<rparr>))\<lparr>iv_watch := False\<rparr>) s'))"

definition settlement_lost :: "engine_view \<Rightarrow> nat \<Rightarrow> string \<Rightarrow> svc \<Rightarrow> svc" where
  "settlement_lost E i m s =
     (let s' = upd i (\<lambda>v. v\<lparr>iv_settling := False\<rparr>) s in
      if iv_terminal (sv_heap s' i) then s' else ensure_cleanup E i (''settlement lost: '' @ m) RunUnknown s')"

definition timeout_cancel :: "engine_view \<Rightarrow> nat \<Rightarrow> string \<Rightarrow> svc \<Rightarrow> svc" where
  "timeout_cancel E i reason s =
     (if iv_terminal (sv_heap s i) then s
      else ensure_cleanup E i reason RunFailed (upd i (settle_started (StartedFailed (ExcTimeout reason))) s))"

text \<open>
  \<open>_deadline_watch\<close>: its beginning, which turns the deadline of the request into an end on its own clock; how long it
  sleeps; and what it does when it wakes: the engine has stalled, the end has come, or it sleeps again. \<open>progress\<close> is
  \<open>last_progress\<close> of an engine that has it.
\<close>

definition watch_begin :: "engine_view \<Rightarrow> nat \<Rightarrow> svc \<Rightarrow> svc" where
  "watch_begin E i =
     upd i (\<lambda>v. v\<lparr>iv_watch_end := Some (nv_mono E + remaining_seconds (sq_deadline_at (iv_request v)) (nv_utc E))\<rparr>)"

definition watch_sleep :: "engine_view \<Rightarrow> rat \<Rightarrow> invocation \<Rightarrow> rat" where
  "watch_sleep E end_at v = min (end_at - nv_mono E) (xp_max_stall (iv_public v) / 10)"

definition watch_fires :: "engine_view \<Rightarrow> rat \<Rightarrow> rat option \<Rightarrow> (rat \<Rightarrow> string) \<Rightarrow> invocation \<Rightarrow> string option" where
  "watch_fires E end_at progress show_num v =
     (let stall = xp_max_stall (iv_public v) in
      case (if iv_state v = RunRunning then progress else None) of
        Some p \<Rightarrow> if nv_mono E - p \<ge> stall then Some (''stalled: no engine progress for '' @ show_num stall @ ''s'')
                  else if end_at - nv_mono E > 0 then None else Some ''deadline expired''
      | None \<Rightarrow> if end_at - nv_mono E > 0 then None else Some ''deadline expired'')"

definition watch_turn :: "engine_view \<Rightarrow> rat option \<Rightarrow> (rat \<Rightarrow> string) \<Rightarrow> nat \<Rightarrow> svc \<Rightarrow> svc" where
  "watch_turn E progress show_num i s =
     (case iv_watch_end (sv_heap s i) of
        None \<Rightarrow> s
      | Some end_at \<Rightarrow>
          (case watch_fires E end_at progress show_num (sv_heap s i) of
             None \<Rightarrow> s
           | Some reason \<Rightarrow> timeout_cancel E i reason (upd i (\<lambda>v. v\<lparr>iv_watch := False\<rparr>) s)))"

definition claim_explicit_cancel :: "engine_view \<Rightarrow> nat \<Rightarrow> string \<Rightarrow> svc \<Rightarrow> svc" where
  "claim_explicit_cancel E i reason s = ensure_cleanup E i reason RunCancelled (upd i (settle_started StartedCancelled) s)"

text \<open>\<open>cancel\<close> up to its first await; \<open>None\<close> is the \<open>KeyError\<close>.\<close>

definition cancel_run :: "engine_view \<Rightarrow> string \<Rightarrow> string \<Rightarrow> svc \<Rightarrow> svc option" where
  "cancel_run E iid reason s =
     (case map_of (sv_invocations s) iid of
        None \<Rightarrow> None
      | Some i \<Rightarrow>
          let v = sv_heap s i in
          Some (if iv_cleanup v \<noteq> NoCleanup \<or> iv_terminal v then s
                else if out_of_time E v then timeout_cancel E i ''deadline expired'' s
                else claim_explicit_cancel E i reason s))"

text \<open>The owner gets its \<open>CancelledError\<close>; a hook turns it into a failure of its own.\<close>

definition owner_interrupted :: "engine_view \<Rightarrow> nat \<Rightarrow> string \<Rightarrow> svc \<Rightarrow> svc" where
  "owner_interrupted E i m s =
     (case iv_owner (sv_heap s i) of
        OwnerHook \<Rightarrow> owner_ends i OwnerDone (finish_without_engine E i RunFailed (Some (''sessionStart '' @ m)) s)
      | _ \<Rightarrow> owner_ends i OwnerCancelled s)"

section \<open>Status and shutdown\<close>

definition run_status_of :: "invocation \<Rightarrow> run_status" where
  "run_status_of v = \<lparr>rs_invocation_id = sq_invocation_id (iv_request v), rs_channel = sq_channel (iv_request v),
     rs_workspace_ref = sq_workspace_ref (iv_request v), rs_session_ref = sq_session_ref (iv_request v), rs_run_id = Some (iv_run_id v),
     rs_config_version = sq_config_version (iv_request v), rs_deadline_at = sq_deadline_at (iv_request v), rs_state = iv_state v,
     rs_error = iv_error v, rs_result = iv_result v\<rparr>"

definition status_of :: "string \<Rightarrow> svc \<Rightarrow> run_status option" where
  "status_of iid s = map_option (\<lambda>i. run_status_of (sv_heap s i)) (map_of (sv_invocations s) iid)"

definition list_statuses :: "svc \<Rightarrow> run_status list" where
  "list_statuses s = map (\<lambda>(iid, i). run_status_of (sv_heap s i)) (sv_invocations s)"

definition close_begin :: "engine_view \<Rightarrow> svc \<Rightarrow> svc" where
  "close_begin E s =
     (if sv_closed s then s
      else fold (\<lambda>(iid, i) s. if iv_cleanup (sv_heap s i) = NoCleanup \<and> \<not> iv_terminal (sv_heap s i) then claim_explicit_cancel E i ''shutdown'' s else s)
        (sv_invocations s) (s\<lparr>sv_closed := True\<rparr>))"

definition uncertain :: "invocation \<Rightarrow> bool" where
  "uncertain v \<longleftrightarrow> iv_state v = RunUnknown \<or> \<not> cleanup_done (iv_cleanup v) \<or> \<not> proof_done (iv_engine_cancel v) \<or> \<not> proof_done (iv_owner_stop v)"

text \<open>The invocations that keep \<open>close\<close> from closing the engine.\<close>

definition close_uncertain :: "svc \<Rightarrow> string list" where
  "close_uncertain s = map (\<lambda>(iid, i). sq_invocation_id (iv_request (sv_heap s i))) (filter (\<lambda>(iid, i). uncertain (sv_heap s i)) (sv_invocations s))"

end
