(* ===== verification/Unit_Sessions.thy ===== *)
theory Unit_Sessions
  imports Execution
begin

text \<open>
  The rest of \<open>execution/service.py\<close>: the probe of the MCP servers, the registry that goes into a session snapshot, the runs that
  come back from one, what a unit says of a session, and its retirement.
\<close>

section \<open>MCP servers\<close>

definition mcp_delays :: "nat list" where "mcp_delays = [0, 2, 6]"

text \<open>The servers to probe; a truthy \<open>mcp\<close> that is no object raises.\<close>

definition mcp_servers :: "dict option \<Rightarrow> string list option" where
  "mcp_servers catalog =
     (let mcp = (case catalog of None \<Rightarrow> JNull | Some c \<Rightarrow> dict_get c ''mcp'' JNull) in
      if \<not> truthy mcp then Some []
      else case mcp of
        JObj d \<Rightarrow> Some (map fst (filter (\<lambda>(n, e). case e of JObj f \<Rightarrow> (case map_of f ''url'' of Some (JStr _) \<Rightarrow> True | _ \<Rightarrow> False) | _ \<Rightarrow> False) d))
      | _ \<Rightarrow> None)"

definition tools_found :: "(string, int) result \<Rightarrow> bool" where
  "tools_found r = (case r of Inr n \<Rightarrow> n > 0 | Inl _ \<Rightarrow> False)"

definition probe_reason :: "(string, int) result \<Rightarrow> string" where
  "probe_reason r = (case r of Inr _ \<Rightarrow> ''0 tools'' | Inl m \<Rightarrow> m)"

text \<open>\<open>probe\<close> gives what counting the tools of a server in a round returned, its error text redacted.\<close>

fun probe_rounds ::
  "nat list \<Rightarrow> (nat \<Rightarrow> string \<Rightarrow> (string, int) result) \<Rightarrow> nat \<Rightarrow> string list \<Rightarrow> (string \<Rightarrow> string) \<Rightarrow> (string, unit) result" where
  "probe_rounds [] probe n names reasons =
     Inl (''mcp tools unavailable: '' @ join '', '' (map (\<lambda>m. m @ '' ('' @ reasons m @ '')'') (sort names)))"
| "probe_rounds (d # ds) probe n names reasons =
     (let names' = filter (\<lambda>m. \<not> tools_found (probe n m)) names;
          reasons' = (\<lambda>m. if m \<in> set names' then probe_reason (probe n m) else reasons m) in
      if names' = [] then Inr () else probe_rounds ds probe (n + 1) names' reasons')"

definition require_mcp_tools :: "dict option \<Rightarrow> (nat \<Rightarrow> string \<Rightarrow> (string, int) result) \<Rightarrow> (string, unit) result" where
  "require_mcp_tools catalog probe =
     (case mcp_servers catalog of
        None \<Rightarrow> Inl ''catalog mcp is not a mapping''
      | Some names \<Rightarrow> probe_rounds mcp_delays probe 0 names (\<lambda>_. []))"

section \<open>Snapshots\<close>

datatype session_error =
    SnapshotUnconfigured
  | NoSession
  | NonTerminalWork
  | NotCleanExit
  | BadRestore string
  | BadRun string
  | ReservedByWork
  | ActiveOrUncertain

definition session_invocations :: "string \<Rightarrow> svc \<Rightarrow> nat list" where
  "session_invocations k s = filter (\<lambda>i. session_of i s = k) (map snd (sv_invocations s))"

text \<open>\<open>snapshot\<close> up to the suspend hook: the invocations of the session as they are then.\<close>

definition snapshot_begin :: "string \<Rightarrow> svc \<Rightarrow> (session_error, nat list) result" where
  "snapshot_begin k s =
     (if sv_public s = None then Inl SnapshotUnconfigured
      else if sv_sessions s k = None then Inl NoSession
      else if \<exists>i \<in> set (session_invocations k s). \<not> iv_terminal (sv_heap s i) then Inl NonTerminalWork
      else Inr (session_invocations k s))"

definition state_name :: "run_state \<Rightarrow> string" where
  "state_name st = (case find (\<lambda>p. snd p = st) run_states of Some p \<Rightarrow> fst p | None \<Rightarrow> [])"

definition dump_started :: "started \<Rightarrow> dict" where
  "dump_started r = [(''invocationId'', JStr (sd_invocation_id r)), (''sessionRef'', JStr (sd_session_ref r)),
     (''runId'', JStr (sd_run_id r)), (''configVersion'', JStr (sd_config_version r))]"

definition started_record :: "invocation \<Rightarrow> json" where
  "started_record v = (case iv_started v of StartedResult r \<Rightarrow> JObj (dump_started r) | _ \<Rightarrow> JNull)"

definition run_record :: "(int \<Rightarrow> string) \<Rightarrow> invocation \<Rightarrow> dict" where
  "run_record show_time v =
     (let q = iv_request v in
      [(''invocationId'', JStr (sq_invocation_id q)), (''channel'', JStr (sq_channel q)), (''workspaceRef'', JStr (sq_workspace_ref q)),
       (''sessionRef'', JStr (sq_session_ref q)), (''runId'', JStr (iv_run_id v)), (''request'', JObj (dump_start_request show_time q)),
       (''started'', started_record v), (''configVersion'', JStr (sq_config_version q)), (''deadlineAt'', JStr (show_time (sq_deadline_at q))),
       (''state'', JStr (state_name (iv_state v))), (''error'', opt_json JStr (iv_error v)), (''result'', iv_result v)])"

definition snapshot_runs :: "(int \<Rightarrow> string) \<Rightarrow> nat list \<Rightarrow> svc \<Rightarrow> json" where
  "snapshot_runs show_time runs s = JList (map (\<lambda>i. JObj (run_record show_time (sv_heap s i))) runs)"

definition snapshot_workspace :: "nat list \<Rightarrow> svc \<Rightarrow> string" where
  "snapshot_workspace runs s =
     (if runs \<noteq> [] then sq_workspace_ref (iv_request (sv_heap s (last runs)))
      else case sv_workspace_ref s of Some w \<Rightarrow> w | None \<Rightarrow> [])"

definition set_session :: "string \<Rightarrow> (session_state \<Rightarrow> session_state) \<Rightarrow> svc \<Rightarrow> svc" where
  "set_session k f s = s\<lparr>sv_sessions := (sv_sessions s)(k := map_option f (sv_sessions s k))\<rparr>"

text \<open>The suspend hook ran; then the native process ended, cleanly or not, and the registry of the manifest is made; then the engine made its snapshot.\<close>

definition snapshot_hooked :: "string \<Rightarrow> bool \<Rightarrow> svc \<Rightarrow> svc" where
  "snapshot_hooked k hook_failed = set_session k (\<lambda>st. st\<lparr>ss_suspend_hook_failed := Some hook_failed\<rparr>)"

definition snapshot_registry :: "(int \<Rightarrow> string) \<Rightarrow> bool \<Rightarrow> bool \<Rightarrow> nat list \<Rightarrow> svc \<Rightarrow> (session_error, string \<times> json) result" where
  "snapshot_registry show_time require_clean clean runs s =
     (if require_clean \<and> \<not> clean then Inl NotCleanExit else Inr (snapshot_workspace runs s, snapshot_runs show_time runs s))"

definition snapshot_made :: "string \<Rightarrow> svc \<Rightarrow> svc" where
  "snapshot_made k = set_session k (\<lambda>st. st\<lparr>ss_suspended := True\<rparr>)"

section \<open>Restored runs\<close>

definition run_field :: "string \<Rightarrow> dict \<Rightarrow> json" where
  "run_field k d = dict_get d k JNull"

definition opt_str :: "json \<Rightarrow> string option" where
  "opt_str v = (case v of JStr t \<Rightarrow> Some t | _ \<Rightarrow> None)"

text \<open>\<open>run.get("error")\<close> or the text that replaces a missing or empty one.\<close>

definition lost_reason :: "dict \<Rightarrow> string" where
  "lost_reason run = (case run_field ''error'' run of
     JStr t \<Rightarrow> if t = [] then ''invocation ended as '' @ py_str (run_field ''state'' run) @ '' before Started'' else t
   | v \<Rightarrow> if truthy v then py_str v else ''invocation ended as '' @ py_str (run_field ''state'' run) @ '' before Started'')"

definition restored_started :: "start_request \<Rightarrow> dict \<Rightarrow> (session_error, started_fut) result" where
  "restored_started q run =
     (if run_field ''started'' run = JNull then Inr (StartedFailed (ExcOther (lost_reason run)))
      else case parse_started (run_field ''started'' run) of
        Inl _ \<Rightarrow> Inl (BadRun ''started'')
      | Inr r \<Rightarrow>
          if sd_invocation_id r \<noteq> sq_invocation_id q \<or> sd_session_ref r \<noteq> sq_session_ref q \<or> sd_config_version r \<noteq> sq_config_version q
          then Inl (BadRun ''saved Started receipt does not match its original request'') else Inr (StartedResult r))"

definition known_state :: "json \<Rightarrow> run_state option" where
  "known_state v = (case v of
     JStr t \<Rightarrow> (case map_of run_states t of Some st \<Rightarrow> if st \<in> known_terminal then Some st else None | None \<Rightarrow> None) | _ \<Rightarrow> None)"

definition adopt_restored_run :: "(string \<Rightarrow> int option) \<Rightarrow> rat \<Rightarrow> json \<Rightarrow> svc \<Rightarrow> (session_error, svc) result" where
  "adopt_restored_run aware now j s =
     (case j of
        JObj run \<Rightarrow>
          (case run_field ''request'' run of
             JObj raw \<Rightarrow>
               (case parse_start_request aware (JObj raw) of
                  Inl _ \<Rightarrow> Inl (BadRun ''request'')
                | Inr q \<Rightarrow>
                    if dict_has (sv_invocations s) (sq_invocation_id q) then Inr s
                    else case known_state (run_field ''state'' run) of
                      None \<Rightarrow> Inl (BadRun ''snapshot contains nonterminal or unknown run state'')
                    | Some st \<Rightarrow>
                        (case run_field ''runId'' run of
                           JStr rid \<Rightarrow>
                             if rid = [] then Inl (BadRun ''snapshot run is missing its runId'')
                             else bind_res (restored_started q run) (\<lambda>f.
                               let i = sv_next s; v = new_invocation q (the (sv_public s)) None rid now in
                               Inr (s\<lparr>sv_invocations := dict_set (sv_invocations s) (sq_invocation_id q) i,
                                 sv_heap := (sv_heap s)(i := v\<lparr>iv_started := f, iv_terminal := True, iv_state := st, iv_error := opt_str (run_field ''error'' run),
                                   iv_result := run_field ''result'' run, iv_terminal_at := Some now, iv_watch := False, iv_owner := OwnerDone\<rparr>),
                                 sv_next := i + 1\<rparr>))
                         | _ \<Rightarrow> Inl (BadRun ''snapshot run is missing its runId'')))
           | _ \<Rightarrow> Inl (BadRun ''snapshot run is missing its saved request''))
      | _ \<Rightarrow> Inl (BadRun ''run''))"

fun adopt_runs :: "(string \<Rightarrow> int option) \<Rightarrow> rat \<Rightarrow> json list \<Rightarrow> svc \<Rightarrow> (session_error, unit) result \<times> svc" where
  "adopt_runs aware now [] s = (Inr (), s)"
| "adopt_runs aware now (j # js) s =
     (case adopt_restored_run aware now j s of Inl e \<Rightarrow> (Inl e, s) | Inr s' \<Rightarrow> adopt_runs aware now js s')"

text \<open>
  \<open>restore\<close>: its checks, then, under the reservation, the session, and after the engine's restore what the session takes from
  the manifest; after the hook \<open>adopt_runs\<close> takes the runs. A \<open>manifest\<close> has the agent, the Workspace, the session, the native session, the runs and the suspend error of the snapshot.
\<close>

record manifest =
  mf_agent :: agent_identity
  mf_workspace_ref :: string
  mf_session_ref :: string
  mf_native_session_id :: string
  mf_suspend_error :: "string option option"
  mf_runs :: "json list"

definition restore_checks :: "string \<Rightarrow> string \<Rightarrow> manifest \<Rightarrow> string option \<Rightarrow> svc \<Rightarrow> (session_error, unit) result" where
  "restore_checks k wref m staged s =
     (case sv_public s of
        None \<Rightarrow> Inl SnapshotUnconfigured
      | Some p \<Rightarrow>
          if (case sv_workspace_ref s of None \<Rightarrow> False | Some w \<Rightarrow> wref \<noteq> w) then Inl (BadRestore ''workspaceRef does not match this execution pod'')
          else if mf_agent m \<noteq> xp_agent p then Inl (BadRestore ''snapshot agent identity does not match this execution pod'')
          else if mf_session_ref m \<noteq> k \<or> mf_workspace_ref m \<noteq> wref then Inl (BadRestore ''snapshot identity does not match the requested destination'')
          else case staged of
            Some r \<Rightarrow> if r \<noteq> k then Inl (BadRestore ''staged HOME session identity does not match'') else Inr ()
          | None \<Rightarrow> Inr ())"

definition restore_enter :: "string \<Rightarrow> bool \<Rightarrow> svc \<Rightarrow> svc" where
  "restore_enter k marker s = snd (get_or_create k marker s)"

definition restore_native :: "string \<Rightarrow> manifest \<Rightarrow> bool \<Rightarrow> svc \<Rightarrow> svc" where
  "restore_native k m marker =
     set_session k (\<lambda>st. st\<lparr>ss_native_session_id := Some (mf_native_session_id m), ss_started := marker,
       ss_suspend_hook_failed := (case mf_suspend_error m of None \<Rightarrow> ss_suspend_hook_failed st | Some e \<Rightarrow> Some (e \<noteq> None))\<rparr>)"

section \<open>What a unit says of a session, and retirement\<close>

record session_info =
  si_initialized :: bool
  si_native_session_id :: "string option"
  si_active :: bool
  si_needs_suspend :: bool
  si_uncertain :: bool
  si_suspend_hook_failed :: "bool option"
  si_idle_seconds :: "rat option"

definition session_info_of :: "rat \<Rightarrow> bool \<Rightarrow> bool \<Rightarrow> bool \<Rightarrow> string \<Rightarrow> session_state \<Rightarrow> svc \<Rightarrow> session_info" where
  "session_info_of now marker alive has_sid k st s =
     (let runs = map (sv_heap s) (session_invocations k s); ended = concat (map (\<lambda>v. case iv_terminal_at v of None \<Rightarrow> [] | Some t \<Rightarrow> [t]) runs) in
      \<lparr>si_initialized = marker, si_native_session_id = ss_native_session_id st, si_active = alive,
       si_needs_suspend = (has_sid \<and> \<not> alive \<and> \<not> ss_suspended st), si_uncertain = (\<exists>v \<in> set runs. uncertain v),
       si_suspend_hook_failed = ss_suspend_hook_failed st, si_idle_seconds = (if ended = [] then None else Some (now - foldr max ended (hd ended)))\<rparr>)"

text \<open>
  \<open>retire_session\<close> up to the engine: \<open>Inr False\<close> when there is nothing to retire; the lock is then held by the retirement.
\<close>

definition session_retire_begin :: "string \<Rightarrow> bool \<Rightarrow> svc \<Rightarrow> (session_error, bool) result \<times> svc" where
  "session_retire_begin k alive s =
     (if sv_sessions s k = None then (Inr False, s)
      else if sv_locks s k \<noteq> None then (Inl ReservedByWork, s)
      else if \<exists>i \<in> set (session_invocations k s). \<not> iv_terminal (sv_heap s i) then (Inl NonTerminalWork, s)
      else if alive \<or> (\<exists>i \<in> set (session_invocations k s). uncertain (sv_heap s i)) then (Inl ActiveOrUncertain, s)
      else (Inr True, s\<lparr>sv_locks := (sv_locks s)(k \<mapsto> HeldOther)\<rparr>))"

definition session_retire_end :: "string \<Rightarrow> bool \<Rightarrow> svc \<Rightarrow> svc" where
  "session_retire_end k deleted s =
     s\<lparr>sv_locks := (sv_locks s)(k := None), sv_sessions := (if deleted then (sv_sessions s)(k := None) else sv_sessions s)\<rparr>"

end
