(* ===== verification/Execution_Safety.thy ===== *)
theory Execution_Safety
  imports Unit_Sessions
begin

text \<open>
  The service of a unit as a step relation over the stretches between awaits, its invariant, and what holds
  in every reachable state.
\<close>

section \<open>Steps\<close>

text \<open>
  What is assumed of the engine is in three steps: when \<open>cancel\<close> returns normally, when \<open>start\<close> raises a clean rejection, and when
  \<open>wait_settled\<close> returns, no native work of that invocation runs any more. An owner that was asked to stop gets a
  \<open>CancelledError\<close> at its await; inside \<open>engine.start\<close> anything may still come back.
\<close>

inductive svc_step :: "svc \<Rightarrow> svc \<Rightarrow> bool" where
  st_configure: "configure p c s = Inr s' \<Longrightarrow> svc_step s s'"
| st_frozen: "svc_step s (s\<lparr>sv_frozen := b\<rparr>)"
| st_start: "start_run E rid q s = (r, s') \<Longrightarrow> svc_step s s'"
| st_begin: "i < sv_next s \<Longrightarrow> iv_owner (sv_heap s i) = OwnerNew \<Longrightarrow> \<not> iv_owner_cancel (sv_heap s i) \<Longrightarrow> svc_step s (owner_begin E i s)"
| st_acquire_timeout: "i < sv_next s \<Longrightarrow> iv_owner (sv_heap s i) = OwnerAcquiring \<Longrightarrow> svc_step s (acquire_timeout E i s)"
| st_acquired:
    "i < sv_next s \<Longrightarrow> iv_owner (sv_heap s i) = OwnerAcquiring \<Longrightarrow> \<not> iv_owner_cancel (sv_heap s i) \<Longrightarrow> sv_locks s (session_of i s) = None \<Longrightarrow>
     svc_step s (owner_acquired E redact i home built s)"
| st_hook: "i < sv_next s \<Longrightarrow> iv_owner (sv_heap s i) = OwnerHook \<Longrightarrow> \<not> iv_owner_cancel (sv_heap s i) \<Longrightarrow> svc_step s (hook_done E redact i h built s)"
| st_probe: "i < sv_next s \<Longrightarrow> iv_owner (sv_heap s i) = OwnerProbing prompt cat \<Longrightarrow> \<not> iv_owner_cancel (sv_heap s i) \<Longrightarrow> svc_step s (probe_done E i r s)"
| st_send: "i < sv_next s \<Longrightarrow> iv_owner (sv_heap s i) = OwnerSending \<Longrightarrow> svc_step s (send_done E i e marked s)"
| st_interrupt: "i < sv_next s \<Longrightarrow> iv_owner_cancel (sv_heap s i) \<Longrightarrow> \<not> owner_over (iv_owner (sv_heap s i)) \<Longrightarrow> svc_step s (owner_interrupted E i m s)"
| st_settled: "i < sv_next s \<Longrightarrow> iv_settling (sv_heap s i) \<Longrightarrow> svc_step s (settled E i outcome s)"
| st_lost: "i < sv_next s \<Longrightarrow> iv_settling (sv_heap s i) \<Longrightarrow> svc_step s (settlement_lost E i m s)"
| st_watch_begin: "i < sv_next s \<Longrightarrow> iv_watch (sv_heap s i) \<Longrightarrow> iv_watch_end (sv_heap s i) = None \<Longrightarrow> svc_step s (watch_begin E i s)"
| st_watch: "i < sv_next s \<Longrightarrow> iv_watch (sv_heap s i) \<Longrightarrow> svc_step s (watch_turn E progress num i s)"
| st_cancel: "cancel_run E iid reason s = Some s' \<Longrightarrow> svc_step s s'"
| st_cleanup: "i < sv_next s \<Longrightarrow> svc_step s (cleanup_begin i s)"
| st_engine: "i < sv_next s \<Longrightarrow> iv_engine_cancel (sv_heap s i) = TaskPending \<Longrightarrow> r \<noteq> NoTask \<Longrightarrow> svc_step s (engine_cancel_done i r s)"
| st_forced: "i < sv_next s \<Longrightarrow> iv_engine_cancel (sv_heap s i) = TaskPending \<Longrightarrow> svc_step s (engine_forced E i s)"
| st_owner_stop: "i < sv_next s \<Longrightarrow> iv_owner_stop (sv_heap s i) = TaskPending \<Longrightarrow> svc_step s (owner_stop_done E i s)"
| st_decide: "i < sv_next s \<Longrightarrow> svc_step s (cleanup_decide E i s)"
| st_close: "svc_step s (close_begin E s)"
| st_lock: "sv_locks s k = None \<Longrightarrow> svc_step s (s\<lparr>sv_locks := (sv_locks s)(k \<mapsto> HeldOther)\<rparr>)"
| st_unlock: "sv_locks s k = Some HeldOther \<Longrightarrow> svc_step s (s\<lparr>sv_locks := (sv_locks s)(k := None)\<rparr>)"
| st_snapshot_hooked: "svc_step s (snapshot_hooked k failed s)"
| st_snapshot_made: "svc_step s (snapshot_made k s)"
| st_restore_enter: "svc_step s (restore_enter k marker s)"
| st_restore_native: "svc_step s (restore_native k m marker s)"
| st_adopt: "sv_public s \<noteq> None \<Longrightarrow> svc_step s (snd (adopt_runs aware now (mf_runs (m :: manifest)) s))"
| st_retire: "svc_step s (snd (session_retire_begin k alive s))"
| st_retired: "sv_locks s k = Some HeldOther \<Longrightarrow> svc_step s (session_retire_end k deleted s)"

definition svc_reachable :: "svc \<Rightarrow> bool" where
  "svc_reachable s \<longleftrightarrow> (\<exists>wref. svc_step\<^sup>*\<^sup>* (new_service wref) s)"

section \<open>Invariant\<close>

text \<open>
  Of one invocation \<open>v\<close>: whether the session lock is its own, whether the engine may still work for it, and how
  often its prompt was sent.
\<close>

definition owner_waits :: "owner \<Rightarrow> bool" where
  "owner_waits p = (case p of OwnerNew \<Rightarrow> True | OwnerAcquiring \<Rightarrow> True | _ \<Rightarrow> False)"

definition observing :: "cleanup \<Rightarrow> bool" where
  "observing c = (case c of Observing _ _ \<Rightarrow> True | _ \<Rightarrow> False)"

definition engine_ok :: "invocation \<Rightarrow> bool \<Rightarrow> bool \<Rightarrow> nat \<Rightarrow> bool" where
  "engine_ok v held live n \<longleftrightarrow>
     iv_reserved v = held
     \<and> (live \<longrightarrow> held \<and> iv_possible_send v \<and> iv_engine_cancel v \<noteq> TaskOk)
     \<and> (owner_waits (iv_owner v) \<longrightarrow> \<not> held)
     \<and> (held \<or> owner_waits (iv_owner v) \<or> owner_over (iv_owner v))
     \<and> (iv_possible_send v \<longrightarrow> iv_owner v = OwnerSending \<or> owner_over (iv_owner v))
     \<and> (iv_owner v = OwnerSending \<longrightarrow> iv_possible_send v)
     \<and> n = (if iv_possible_send v then 1 else 0)
     \<and> (iv_settling v \<longrightarrow> owner_over (iv_owner v) \<and> iv_possible_send v \<and> iv_started v \<noteq> StartedPending)
     \<and> (iv_engine_cancel v \<noteq> NoTask \<longrightarrow> iv_owner_cancel v \<or> owner_over (iv_owner v))
     \<and> (iv_owner_stop v = TaskOk \<longrightarrow> owner_over (iv_owner v))"

definition cleanup_ok :: "invocation \<Rightarrow> bool \<Rightarrow> bool" where
  "cleanup_ok v held \<longleftrightarrow>
     (iv_cleanup v \<noteq> NoCleanup \<longrightarrow> iv_terminal v)
     \<and> (iv_cleanup v = CleanupDone \<or> observing (iv_cleanup v) \<or> iv_engine_cancel v = NoTask \<and> iv_owner_stop v = NoTask)
     \<and> (observing (iv_cleanup v) \<longrightarrow> iv_engine_cancel v \<noteq> NoTask \<and> iv_owner_stop v \<noteq> NoTask)
     \<and> (iv_terminal v \<and> iv_cleanup v = NoCleanup \<longrightarrow> iv_terminal_at v \<noteq> None \<and> owner_over (iv_owner v) \<and> \<not> held)
     \<and> (iv_terminal_at v \<noteq> None \<longrightarrow> iv_terminal v \<and> (iv_cleanup v = NoCleanup \<or> iv_cleanup v = CleanupDone))
     \<and> (iv_terminal v \<longrightarrow> iv_started v \<noteq> StartedPending)
     \<and> (\<not> iv_terminal v \<longrightarrow> iv_watch v)
     \<and> (iv_cleanup v = CleanupDone \<longrightarrow> iv_terminal_at v \<noteq> None)
     \<and> (iv_force_deadline v = None \<longleftrightarrow> iv_cleanup v = NoCleanup)"

definition run_ok :: "invocation \<Rightarrow> bool \<Rightarrow> bool \<Rightarrow> nat \<Rightarrow> bool" where
  "run_ok v held live n \<longleftrightarrow> engine_ok v held live n \<and> cleanup_ok v held"

definition sends_of :: "nat \<Rightarrow> svc \<Rightarrow> nat" where
  "sends_of i s = length (filter (\<lambda>x. fst x = i) (sv_sends s))"

definition ok_at :: "nat \<Rightarrow> svc \<Rightarrow> bool" where
  "ok_at i s \<longleftrightarrow> run_ok (sv_heap s i) (sv_locks s (session_of i s) = Some (HeldRun i)) (i \<in> sv_live s) (sends_of i s)"

definition svc_inv :: "svc \<Rightarrow> bool" where
  "svc_inv s \<longleftrightarrow>
     (\<forall>i < sv_next s. ok_at i s)
     \<and> (\<forall>i \<ge> sv_next s. i \<notin> sv_live s \<and> sends_of i s = 0 \<and> (\<forall>k. sv_locks s k \<noteq> Some (HeldRun i)))
     \<and> (\<forall>k i. sv_locks s k = Some (HeldRun i) \<longrightarrow> session_of i s = k)
     \<and> (\<forall>(iid, i) \<in> set (sv_invocations s). i < sv_next s \<and> sq_invocation_id (iv_request (sv_heap s i)) = iid)
     \<and> distinct (map fst (sv_invocations s))"

text \<open>A step that concerns one invocation.\<close>

definition local_step :: "nat \<Rightarrow> svc \<Rightarrow> svc \<Rightarrow> bool" where
  "local_step i s s' \<longleftrightarrow>
     (\<forall>j. j \<noteq> i \<longrightarrow> sv_heap s' j = sv_heap s j \<and> (j \<in> sv_live s' \<longleftrightarrow> j \<in> sv_live s) \<and> sends_of j s' = sends_of j s)
     \<and> iv_request (sv_heap s' i) = iv_request (sv_heap s i)
     \<and> sv_next s' = sv_next s \<and> sv_invocations s' = sv_invocations s
     \<and> (sv_locks s' = sv_locks s
        \<or> sv_locks s (session_of i s) \<in> {None, Some (HeldRun i)}
          \<and> (\<exists>l \<in> {None, Some (HeldRun i)}. sv_locks s' = (sv_locks s)(session_of i s := l)))"

lemma local_refl: "local_step i s s"
  by (simp add: local_step_def)

lemma local_trans: "local_step i s s1 \<Longrightarrow> local_step i s1 s2 \<Longrightarrow> local_step i s s2"
  unfolding local_step_def session_of_def by (auto simp: fun_upd_idem_iff)

lemma svc_invD:
  assumes "svc_inv s"
  shows "i < sv_next s \<Longrightarrow> ok_at i s" "\<not> i < sv_next s \<Longrightarrow> i \<notin> sv_live s" "(iid, i) \<in> set (sv_invocations s) \<Longrightarrow> i < sv_next s"
    "sv_locks s k = Some (HeldRun i) \<Longrightarrow> session_of i s = k" "\<not> i < sv_next s \<Longrightarrow> sv_locks s k \<noteq> Some (HeldRun i)"
    "map_of (sv_invocations s) iid = Some i \<Longrightarrow> i < sv_next s"
  using assms unfolding svc_inv_def by (fastforce dest: map_of_SomeD)+

lemma svc_inv_local:
  assumes "svc_inv s" "local_step i s s'" "i < sv_next s" "ok_at i s'"
  shows "svc_inv s'"
proof -
  have sess: "session_of j s' = session_of j s" for j
    using assms(2) by (cases "j = i") (simp_all add: local_step_def session_of_def)
  have lock: "sv_locks s' k = Some (HeldRun j) \<longleftrightarrow> sv_locks s k = Some (HeldRun j)" if "j \<noteq> i" for j k
    using assms(2) that unfolding local_step_def by (auto split: if_splits)
  have other: "ok_at j s'" if "j \<noteq> i" "j < sv_next s" for j
    using svc_invD(1)[OF assms(1) that(2)] assms(2) that(1) lock[OF that(1)] sess[of j]
    unfolding ok_at_def local_step_def by simp
  have own: "session_of j s' = k" if "sv_locks s' k = Some (HeldRun j)" for j k
  proof (cases "j = i")
    case True
    have "sv_locks s' = sv_locks s \<or> (\<exists>l. sv_locks s' = (sv_locks s)(session_of i s := l))"
      using assms(2) unfolding local_step_def by blast
    then show ?thesis using that sess svc_invD(4)[OF assms(1), of k i] True by (auto split: if_splits)
  next
    case False
    then show ?thesis using that lock sess svc_invD(4)[OF assms(1)] by simp
  qed
  have beyond: "j \<notin> sv_live s' \<and> sends_of j s' = 0 \<and> (\<forall>k. sv_locks s' k \<noteq> Some (HeldRun j))" if "j \<ge> sv_next s'" for j
  proof -
    have "j \<noteq> i" "j \<ge> sv_next s" using that assms(2,3) unfolding local_step_def by auto
    then show ?thesis using assms(1,2) lock unfolding local_step_def svc_inv_def by auto
  qed
  have heap: "iv_request (sv_heap s' j) = iv_request (sv_heap s j)" for j
    using assms(2) by (cases "j = i") (simp_all add: local_step_def)
  have rest: "sv_next s' = sv_next s" "sv_invocations s' = sv_invocations s" using assms(2) by (simp_all add: local_step_def)
  show ?thesis
    unfolding svc_inv_def
  proof (intro conjI allI impI)
    show "ok_at j s'" if "j < sv_next s'" for j using that assms(4) other rest by (cases "j = i") auto
    show "\<forall>(iid, j) \<in> set (sv_invocations s'). j < sv_next s' \<and> sq_invocation_id (iv_request (sv_heap s' j)) = iid"
      "distinct (map fst (sv_invocations s'))"
      using assms(1) rest heap unfolding svc_inv_def by simp_all
  qed (use own beyond in auto)
qed

text \<open>What a step writes, and what it leaves alone.\<close>

lemma upd_simps [simp]:
  "sv_heap (upd i f s) = (sv_heap s)(i := f (sv_heap s i))" "sv_locks (upd i f s) = sv_locks s" "sv_live (upd i f s) = sv_live s"
  "sv_sends (upd i f s) = sv_sends s" "sv_next (upd i f s) = sv_next s" "sv_invocations (upd i f s) = sv_invocations s"
  "sv_sessions (upd i f s) = sv_sessions s" "sv_public (upd i f s) = sv_public s" "sends_of j (upd i f s) = sends_of j s"
  by (simp_all add: upd_def sends_of_def)

lemma finalize_simps [simp]:
  "iv_request (finalize E st e v) = iv_request v" "iv_terminal (finalize E st e v)" "iv_state (finalize E st e v) = st"
  "iv_error (finalize E st e v) = e" "iv_terminal_at (finalize E st e v) = Some (nv_mono E)" "iv_started (finalize E st e v) = iv_started v"
  "iv_owner (finalize E st e v) = iv_owner v" "iv_owner_cancel (finalize E st e v) = iv_owner_cancel v" "iv_watch (finalize E st e v) = iv_watch v"
  "iv_settling (finalize E st e v) = iv_settling v" "iv_cleanup (finalize E st e v) = iv_cleanup v" "iv_reserved (finalize E st e v) = iv_reserved v"
  "iv_possible_send (finalize E st e v) = iv_possible_send v" "iv_engine_cancel (finalize E st e v) = iv_engine_cancel v"
  "iv_owner_stop (finalize E st e v) = iv_owner_stop v" "iv_watch_end (finalize E st e v) = iv_watch_end v"
  "iv_force_deadline (finalize E st e v) = iv_force_deadline v" "iv_confirm_deadline (finalize E st e v) = iv_confirm_deadline v" "iv_public (finalize E st e v) = iv_public v"
  by (simp_all add: finalize_def retain_reporting_def)

lemma settle_started_simps [simp]:
  "iv_request (settle_started f v) = iv_request v" "iv_terminal (settle_started f v) = iv_terminal v" "iv_state (settle_started f v) = iv_state v"
  "iv_error (settle_started f v) = iv_error v" "iv_result (settle_started f v) = iv_result v" "iv_terminal_at (settle_started f v) = iv_terminal_at v"
  "iv_owner (settle_started f v) = iv_owner v" "iv_owner_cancel (settle_started f v) = iv_owner_cancel v" "iv_watch (settle_started f v) = iv_watch v"
  "iv_settling (settle_started f v) = iv_settling v" "iv_cleanup (settle_started f v) = iv_cleanup v" "iv_reserved (settle_started f v) = iv_reserved v"
  "iv_possible_send (settle_started f v) = iv_possible_send v" "iv_engine_cancel (settle_started f v) = iv_engine_cancel v"
  "iv_owner_stop (settle_started f v) = iv_owner_stop v" "iv_watch_end (settle_started f v) = iv_watch_end v"
  "iv_force_deadline (settle_started f v) = iv_force_deadline v" "iv_confirm_deadline (settle_started f v) = iv_confirm_deadline v" "f \<noteq> StartedPending \<Longrightarrow> iv_started (settle_started f v) \<noteq> StartedPending"
  "iv_public (settle_started f v) = iv_public v"
  by (simp_all add: settle_started_def)

lemma owner_waits_simps [simp]:
  "owner_waits OwnerNew" "owner_waits OwnerAcquiring" "\<not> owner_waits OwnerHook" "\<not> owner_waits (OwnerProbing p c)" "\<not> owner_waits OwnerSending"
  "\<not> owner_waits OwnerDone" "\<not> owner_waits OwnerCancelled" "\<not> owner_waits (OwnerRaised m)"
  "\<not> observing NoCleanup" "\<not> observing (Claimed r st)" "observing (Observing r st)" "\<not> observing CleanupDone"
  by (simp_all add: owner_waits_def observing_def)

lemma owner_over_simps [simp]:
  "owner_over OwnerDone" "owner_over OwnerCancelled" "owner_over (OwnerRaised m)" "\<not> owner_over OwnerNew" "\<not> owner_over OwnerAcquiring"
  "\<not> owner_over OwnerHook" "\<not> owner_over (OwnerProbing p c)" "\<not> owner_over OwnerSending"
  by (simp_all add: owner_over_def)

lemma session_of_upd [simp]: "(\<And>v. iv_request (f v) = iv_request v) \<Longrightarrow> session_of j (upd i f s) = session_of j s"
  by (simp add: session_of_def)

lemma ops_session [simp]:
  "session_of j (release_session_lock i s) = session_of j s" "session_of j (owner_ends i p s) = session_of j s"
  "session_of j (s\<lparr>sv_live := L\<rparr>) = session_of j s" "session_of j (s\<lparr>sv_locks := K\<rparr>) = session_of j s"
  "session_of j (fail_before_started E i e b s) = session_of j s" "session_of j (finish_without_engine E i st err s) = session_of j s"
  by (simp_all add: release_session_lock_def owner_ends_def fail_before_started_def finish_without_engine_def session_of_def Let_def)

lemma local_upd [intro!]: "(\<And>v. iv_request (f v) = iv_request v) \<Longrightarrow> local_step i s (upd i f s)"
  by (simp add: local_step_def)

lemma local_owner_ends [intro!]: "local_step i s (owner_ends i p s)"
  unfolding owner_ends_def by (rule local_upd) simp

lemma ok_reserved: "ok_at i s \<Longrightarrow> iv_reserved (sv_heap s i) = (sv_locks s (session_of i s) = Some (HeldRun i))"
  unfolding ok_at_def run_ok_def engine_ok_def by blast

lemma local_release:
  "(iv_reserved (sv_heap s i) \<Longrightarrow> sv_locks s (session_of i s) = Some (HeldRun i)) \<Longrightarrow> local_step i s (release_session_lock i s)"
  by (auto simp: local_step_def release_session_lock_def session_of_def sends_of_def)


lemmas ok_defs = ok_at_def run_ok_def engine_ok_def cleanup_ok_def

lemma running_facts:
  assumes "ok_at i s" "\<not> iv_terminal (sv_heap s i)"
  shows "iv_cleanup (sv_heap s i) = NoCleanup" "iv_engine_cancel (sv_heap s i) = NoTask" "iv_owner_stop (sv_heap s i) = NoTask"
    "iv_force_deadline (sv_heap s i) = None"
proof -
  have ok: "cleanup_ok (sv_heap s i) (sv_locks s (session_of i s) = Some (HeldRun i))" using assms(1) by (simp add: ok_at_def run_ok_def)
  show c: "iv_cleanup (sv_heap s i) = NoCleanup" using ok assms(2) unfolding cleanup_ok_def by blast
  show "iv_engine_cancel (sv_heap s i) = NoTask" "iv_owner_stop (sv_heap s i) = NoTask" "iv_force_deadline (sv_heap s i) = None" using ok unfolding cleanup_ok_def c by simp_all
qed

lemma fail_view:
  "sv_heap (fail_before_started E i e b s) i =
     (let v = sv_heap s i in if iv_terminal v then v
      else (settle_started (StartedFailed e) ((finalize E RunFailed (Some (exc_text e)) v)\<lparr>iv_watch := False\<rparr>))\<lparr>iv_reserved := iv_reserved v \<and> \<not> b\<rparr>)"
  "sv_locks (fail_before_started E i e b s) =
     (if \<not> iv_terminal (sv_heap s i) \<and> b \<and> iv_reserved (sv_heap s i) then (sv_locks s)(session_of i s := None) else sv_locks s)"
  "sv_live (fail_before_started E i e b s) = sv_live s" "sv_sends (fail_before_started E i e b s) = sv_sends s"
  by (auto simp: fail_before_started_def release_session_lock_def Let_def session_of_def)

lemma finish_run_view:
  "sv_heap (finish_without_engine E i st err s) i =
     (let v = sv_heap s i in if iv_terminal v then v
      else (settle_started (StartedResult (receipt_of v)) ((finalize E st err v)\<lparr>iv_watch := False\<rparr>))\<lparr>iv_reserved := False\<rparr>)"
  "sv_locks (finish_without_engine E i st err s) =
     (if \<not> iv_terminal (sv_heap s i) \<and> iv_reserved (sv_heap s i) then (sv_locks s)(session_of i s := None) else sv_locks s)"
  "sv_live (finish_without_engine E i st err s) = sv_live s" "sv_sends (finish_without_engine E i st err s) = sv_sends s"
  by (auto simp: finish_without_engine_def release_session_lock_def Let_def session_of_def)

lemma ends_view:
  "sv_heap (owner_ends i p s) i = (sv_heap s i)\<lparr>iv_owner := p\<rparr>" "sv_locks (owner_ends i p s) = sv_locks s" "sv_live (owner_ends i p s) = sv_live s"
  "sv_sends (owner_ends i p s) = sv_sends s"
  by (simp_all add: owner_ends_def)

lemma ok_fail:
  assumes "ok_at i s" "\<not> iv_possible_send (sv_heap s i)" "\<not> owner_over (iv_owner (sv_heap s i))" "b \<or> owner_waits (iv_owner (sv_heap s i))"
  shows "ok_at i (owner_ends i OwnerDone (fail_before_started E i e b s))"
  using assms by (auto simp: ok_defs fail_view ends_view Let_def sends_of_def)

lemma ok_finish:
  assumes "ok_at i s" "\<not> iv_possible_send (sv_heap s i)" "\<not> owner_over (iv_owner (sv_heap s i))"
  shows "ok_at i (owner_ends i OwnerDone (finish_without_engine E i st err s))"
  using assms by (auto simp: ok_defs finish_run_view ends_view Let_def sends_of_def)

lemma local_fail: "ok_at i s \<Longrightarrow> local_step i s (fail_before_started E i e b s)"
  using ok_reserved[of i s]
  by (auto simp: fail_before_started_def Let_def intro!: local_refl local_trans[OF local_upd local_release])

lemma local_finish: "ok_at i s \<Longrightarrow> local_step i s (finish_without_engine E i st err s)"
  using ok_reserved[of i s]
  by (auto simp: finish_without_engine_def Let_def intro!: local_refl local_trans[OF local_upd local_release])

lemma local_live: "local_step i s s' \<Longrightarrow> local_step i s (s'\<lparr>sv_live := sv_live s' - {i}\<rparr>)"
  by (auto simp: local_step_def sends_of_def)

lemmas local_intros = local_refl local_upd local_owner_ends local_fail local_finish
  local_trans[OF local_fail local_owner_ends] local_trans[OF local_finish local_owner_ends]

text \<open>The invariant before a stretch, and what has to be shown after it.\<close>

lemma inv_step:
  assumes "svc_inv s" "i < sv_next s" "ok_at i s \<Longrightarrow> local_step i s s' \<and> ok_at i s'"
  shows "svc_inv s'"
  using svc_inv_local[OF assms(1) _ assms(2)] assms(3) svc_invD(1)[OF assms(1,2)] by blast

lemma begin_inv:
  assumes "svc_inv s" "i < sv_next s" "iv_owner (sv_heap s i) = OwnerNew"
  shows "svc_inv (owner_begin E i s)"
proof (rule inv_step[OF assms(1,2)])
  assume ok: "ok_at i s"
  have "\<not> iv_possible_send (sv_heap s i)" using ok assms(3) by (auto simp: ok_defs)
  moreover have "ok_at i (owner_ends i OwnerAcquiring s)" using ok assms(3) by (auto simp: ok_defs ends_view sends_of_def)
  ultimately show "local_step i s (owner_begin E i s) \<and> ok_at i (owner_begin E i s)"
    using ok assms(3) by (auto simp: owner_begin_def intro!: ok_fail local_intros)
qed

lemma acquire_timeout_inv:
  assumes "svc_inv s" "i < sv_next s" "iv_owner (sv_heap s i) = OwnerAcquiring"
  shows "svc_inv (acquire_timeout E i s)"
proof (rule inv_step[OF assms(1,2)])
  assume ok: "ok_at i s"
  have "\<not> iv_possible_send (sv_heap s i)" using ok assms(3) by (auto simp: ok_defs)
  then show "local_step i s (acquire_timeout E i s) \<and> ok_at i (acquire_timeout E i s)"
    using ok assms(3) by (auto simp: acquire_timeout_def intro!: ok_fail local_intros)
qed

text \<open>The preparation, from a state in which the owner holds the lock and has not ended.\<close>

definition prepares :: "nat \<Rightarrow> svc \<Rightarrow> bool" where
  "prepares i s \<longleftrightarrow> ok_at i s \<and> \<not> iv_terminal (sv_heap s i) \<and> iv_reserved (sv_heap s i) \<and> \<not> iv_possible_send (sv_heap s i)
     \<and> \<not> owner_over (iv_owner (sv_heap s i))"

lemma probing_ok: "prepares i s \<Longrightarrow> ok_at i (owner_ends i (OwnerProbing p c) (upd i (\<lambda>v. v\<lparr>iv_state := st\<rparr>) s))"
  unfolding prepares_def by (auto simp: ok_defs ends_view sends_of_def)

lemma prepares_state: "prepares i s \<Longrightarrow> prepares i (upd i (\<lambda>v. v\<lparr>iv_state := st\<rparr>) s)"
  unfolding prepares_def by (auto simp: ok_defs sends_of_def)

lemma prepares_fail:
  assumes "prepares i s"
  shows "local_step i s (owner_ends i OwnerDone (fail_before_started E i e True s)) \<and> ok_at i (owner_ends i OwnerDone (fail_before_started E i e True s))"
  using assms unfolding prepares_def by (intro conjI ok_fail local_trans[OF local_fail local_owner_ends]) simp_all

lemma prepares_finish:
  assumes "prepares i s"
  shows "local_step i s (owner_ends i OwnerDone (finish_without_engine E i st err s)) \<and> ok_at i (owner_ends i OwnerDone (finish_without_engine E i st err s))"
  using assms unfolding prepares_def by (intro conjI ok_finish local_trans[OF local_finish local_owner_ends]) simp_all

lemma build_step:
  assumes "prepares i s"
  shows "local_step i s (build_and_probe E i prompt built s) \<and> ok_at i (build_and_probe E i prompt built s)"
proof -
  have l: "local_step i s (upd i (\<lambda>v. v\<lparr>iv_state := RunSending\<rparr>) s)" by (rule local_upd) simp
  show ?thesis
  proof (cases built)
    case (Inl e)
    then show ?thesis using prepares_fail[OF prepares_state[OF assms]] local_trans[OF l] by (simp add: build_and_probe_def Let_def)
  next
    case (Inr u)
    then show ?thesis using probing_ok[OF assms] local_trans[OF l local_owner_ends] by (simp add: build_and_probe_def Let_def)
  qed
qed

lemma gate_step: "prepares i s \<Longrightarrow> local_step i s (after_gate E redact i gate built s) \<and> ok_at i (after_gate E redact i gate built s)"
  using build_step[of i s]
  using prepares_finish[of i s] by (auto simp: after_gate_def Let_def split: option.split)

lemma get_or_create_view [simp]:
  "sv_heap (snd (get_or_create k m s)) = sv_heap s" "sv_locks (snd (get_or_create k m s)) = sv_locks s" "sv_live (snd (get_or_create k m s)) = sv_live s"
  "sv_sends (snd (get_or_create k m s)) = sv_sends s" "sv_next (snd (get_or_create k m s)) = sv_next s"
  "sv_invocations (snd (get_or_create k m s)) = sv_invocations s" "sv_public (snd (get_or_create k m s)) = sv_public s"
  by (simp_all add: get_or_create_def split: option.split)

text \<open>States that differ only outside what the invariant reads.\<close>

definition same_runs :: "svc \<Rightarrow> svc \<Rightarrow> bool" where
  "same_runs s s' \<longleftrightarrow> sv_heap s' = sv_heap s \<and> sv_locks s' = sv_locks s \<and> sv_live s' = sv_live s \<and> sv_sends s' = sv_sends s
     \<and> sv_next s' = sv_next s \<and> sv_invocations s' = sv_invocations s"

lemma same_runs_ok: "same_runs s s' \<Longrightarrow> ok_at i s' = ok_at i s" "same_runs s s' \<Longrightarrow> prepares i s' = prepares i s"
  "same_runs s s' \<Longrightarrow> local_step i s s'" "same_runs s s' \<Longrightarrow> svc_inv s' = svc_inv s"
  by (simp_all add: same_runs_def ok_at_def prepares_def local_step_def svc_inv_def sends_of_def session_of_def)

lemma take_lock_view:
  "sv_heap (take_lock i s) i = (sv_heap s i)\<lparr>iv_reserved := True\<rparr>" "sv_locks (take_lock i s) = (sv_locks s)(session_of i s \<mapsto> HeldRun i)"
  "sv_live (take_lock i s) = sv_live s" "sv_sends (take_lock i s) = sv_sends s" "session_of j (take_lock i s) = session_of j s"
  by (simp_all add: take_lock_def session_of_def)

lemma local_take: "sv_locks s (session_of i s) = None \<Longrightarrow> local_step i s (take_lock i s)"
  by (auto simp: take_lock_def local_step_def sends_of_def)

text \<open>A waiting owner that gets the lock: it works on, or it finds its run cancelled and ends.\<close>

definition took :: "nat \<Rightarrow> svc \<Rightarrow> bool" where
  "took i s \<longleftrightarrow> (\<forall>p. \<not> owner_waits p \<longrightarrow> p \<noteq> OwnerSending \<longrightarrow> ok_at i (owner_ends i p s))"

lemma take_ok:
  assumes "ok_at i s" "iv_owner (sv_heap s i) = OwnerAcquiring" "sv_locks s (session_of i s) = None"
  shows "took i (take_lock i s)"
  unfolding took_def using assms
  by (auto simp: ok_defs take_lock_view ends_view sends_of_def)

lemma took_prepares:
  assumes "took i s" "\<not> iv_terminal (sv_heap s i)"
  shows "prepares i (owner_ends i OwnerHook s)"
proof -
  have "ok_at i (owner_ends i OwnerHook s)" using assms(1) by (simp add: took_def)
  then show ?thesis using assms(2) by (auto simp: prepares_def ends_view ok_defs)
qed

text \<open>What a stretch does up to its end does not depend on how far the owner is.\<close>

lemma owner_last:
  "v\<lparr>iv_owner := q, iv_watch := w\<rparr> = v\<lparr>iv_watch := w, iv_owner := q\<rparr>" "v\<lparr>iv_owner := q, iv_state := st\<rparr> = v\<lparr>iv_state := st, iv_owner := q\<rparr>"
  "v\<lparr>iv_owner := q, iv_reserved := w\<rparr> = v\<lparr>iv_reserved := w, iv_owner := q\<rparr>"
  by (simp_all add: invocation.equality)

lemma heap_last: "s\<lparr>sv_heap := h, sv_locks := l\<rparr> = s\<lparr>sv_locks := l, sv_heap := h\<rparr>"
  by (simp add: svc.equality)

lemma finalize_owner: "finalize E st e (v\<lparr>iv_owner := q\<rparr>) = (finalize E st e v)\<lparr>iv_owner := q\<rparr>"
  by (rule invocation.equality) (simp_all add: finalize_def retain_reporting_def report_of_def)

lemma settle_owner: "settle_started f (v\<lparr>iv_owner := q\<rparr>) = (settle_started f v)\<lparr>iv_owner := q\<rparr>"
  by (rule invocation.equality) (simp_all add: settle_started_def)

lemma owner_ends_ends [simp]: "owner_ends i p (owner_ends i q s) = owner_ends i p s"
  by (simp add: owner_ends_def upd_def)

lemma upd_owner_ends:
  "(\<And>v. f (v\<lparr>iv_owner := q\<rparr>) = (f v)\<lparr>iv_owner := q\<rparr>) \<Longrightarrow> upd i f (owner_ends i q s) = owner_ends i q (upd i f s)"
  by (simp add: owner_ends_def upd_def)

lemma release_owner_ends: "release_session_lock i (owner_ends i q s) = owner_ends i q (release_session_lock i s)"
  by (simp add: release_session_lock_def owner_ends_def upd_def session_of_def owner_last heap_last)

lemma fail_owner_ends: "fail_before_started E i e b (owner_ends i q s) = owner_ends i q (fail_before_started E i e b s)"
proof -
  have "settle_started f ((finalize E st err (v\<lparr>iv_owner := q\<rparr>))\<lparr>iv_watch := False\<rparr>) =
     (settle_started f ((finalize E st err v)\<lparr>iv_watch := False\<rparr>))\<lparr>iv_owner := q\<rparr>" for f st err v
    unfolding finalize_owner owner_last settle_owner by simp
  then show ?thesis
    by (simp add: fail_before_started_def ends_view Let_def upd_owner_ends release_owner_ends)
qed

lemma finish_owner_ends: "finish_without_engine E i st err (owner_ends i q s) = owner_ends i q (finish_without_engine E i st err s)"
proof -
  have "settle_started (StartedResult (receipt_of (v\<lparr>iv_owner := q\<rparr>))) ((finalize E st err (v\<lparr>iv_owner := q\<rparr>))\<lparr>iv_watch := False\<rparr>) =
     (settle_started (StartedResult (receipt_of v)) ((finalize E st err v)\<lparr>iv_watch := False\<rparr>))\<lparr>iv_owner := q\<rparr>" for v
    unfolding finalize_owner owner_last settle_owner by (simp add: receipt_of_def)
  then show ?thesis
    by (simp add: finish_without_engine_def ends_view Let_def upd_owner_ends release_owner_ends)
qed

lemma run_catalog_frame [simp]: "run_catalog (v\<lparr>iv_owner := q\<rparr>) = run_catalog v" "run_catalog (v\<lparr>iv_state := st\<rparr>) = run_catalog v"
  unfolding run_catalog_def by (simp_all cong: option.case_cong json.case_cong if_cong)

lemma build_owner_ends: "build_and_probe E i prompt built (owner_ends i q s) = build_and_probe E i prompt built s"
  by (simp add: build_and_probe_def Let_def upd_owner_ends owner_last fail_owner_ends ends_view split: sum.split)

lemma gate_owner_ends: "after_gate E redact i gate built (owner_ends i q s) = after_gate E redact i gate built s"
  by (simp add: after_gate_def Let_def build_owner_ends finish_owner_ends ends_view split: option.split)

lemma acquired_inv:
  assumes "svc_inv s" "i < sv_next s" "iv_owner (sv_heap s i) = OwnerAcquiring" "sv_locks s (session_of i s) = None"
  shows "svc_inv (owner_acquired E redact i home built s)"
proof (rule inv_step[OF assms(1,2)])
  assume ok: "ok_at i s"
  let ?s = "take_lock i s"
  have t: "took i ?s" by (rule take_ok[OF ok assms(3,4)])
  have l: "local_step i s ?s" by (rule local_take[OF assms(4)])
  have lh: "local_step i s (owner_ends i OwnerHook ?s)" by (rule local_trans[OF l local_owner_ends])
  show "local_step i s (owner_acquired E redact i home built s) \<and> ok_at i (owner_acquired E redact i home built s)"
  proof (cases "iv_terminal (sv_heap ?s i)")
    case True
    then show ?thesis using t local_trans[OF l local_owner_ends] by (simp add: owner_acquired_def Let_def took_def)
  next
    case False
    note prep = took_prepares[OF t False]
    have failed: "local_step i s (owner_ends i OwnerDone (fail_before_started E i e True ?s))
        \<and> ok_at i (owner_ends i OwnerDone (fail_before_started E i e True ?s))" for e
      using prepares_fail[OF prep, of E e] local_trans[OF lh] by (simp add: fail_owner_ends)
    have ready: "local_step i s (if b then owner_ends i OwnerHook s3 else after_gate E redact i None built s3)
        \<and> ok_at i (if b then owner_ends i OwnerHook s3 else after_gate E redact i None built s3)"
      if "s3 = upd i (\<lambda>v. v\<lparr>iv_state := RunPreparing\<rparr>) (snd (get_or_create k m ?s))" for b s3 k m
    proof -
      have same: "same_runs (owner_ends i OwnerHook ?s) (owner_ends i OwnerHook (snd (get_or_create k m ?s)))"
        by (simp add: same_runs_def owner_ends_def)
      then have p2: "prepares i (owner_ends i OwnerHook s3)" and l2: "local_step i s (owner_ends i OwnerHook s3)"
        using prepares_state[of i "owner_ends i OwnerHook (snd (get_or_create k m ?s))" RunPreparing] prep same_runs_ok(2)[OF same]
          local_trans[OF local_trans[OF lh same_runs_ok(3)[OF same]] local_upd, of "\<lambda>v. v\<lparr>iv_state := RunPreparing\<rparr>"]
        unfolding that by (simp_all add: upd_owner_ends owner_last)
      then show ?thesis
        using gate_step[OF p2, of E redact None built] local_trans[OF l2] by (auto simp: gate_owner_ends prepares_def)
    qed
    show ?thesis
      using False failed ready[OF refl]
      by (auto simp: owner_acquired_def Let_def split_beta split: sum.split)
  qed
qed

lemma hook_inv:
  assumes "svc_inv s" "i < sv_next s" "iv_owner (sv_heap s i) = OwnerHook"
  shows "svc_inv (hook_done E redact i h built s)"
proof (rule inv_step[OF assms(1,2)])
  assume ok: "ok_at i s"
  have nosend: "\<not> iv_possible_send (sv_heap s i)" using ok assms(3) by (auto simp: ok_defs)
  have over: "ok_at i (owner_ends i OwnerDone s)" if "iv_terminal (sv_heap s i)" using ok assms(3) that by (auto simp: ok_defs ends_view sends_of_def)
  have prep: "prepares i s" if "\<not> iv_terminal (sv_heap s i)" using ok assms(3) nosend that by (auto simp: prepares_def ok_defs)
  have "ok_at i (owner_ends i OwnerDone (fail_before_started E i e True s))" "ok_at i (owner_ends i OwnerDone (finish_without_engine E i st err s))"
    "local_step i s (owner_ends i OwnerDone (fail_before_started E i e True s))" "local_step i s (owner_ends i OwnerDone (finish_without_engine E i st err s))" for e st err
    using ok nosend assms(3) by (auto intro!: ok_fail ok_finish local_intros)
  then show "local_step i s (hook_done E redact i h built s) \<and> ok_at i (hook_done E redact i h built s)"
    using gate_step[OF prep] over by (auto simp: hook_done_def split: hook_end.split)
qed

lemma send_ok:
  assumes "ok_at i s" "iv_owner (sv_heap s i) = OwnerProbing p c" "\<not> iv_owner_cancel (sv_heap s i)"
  shows "local_step i s (send_prompt i p c s) \<and> ok_at i (send_prompt i p c s)"
  using assms by (auto simp: send_prompt_def local_step_def sends_of_def ok_defs session_of_def)

lemma probe_inv:
  assumes "svc_inv s" "i < sv_next s" "iv_owner (sv_heap s i) = OwnerProbing p c" "\<not> iv_owner_cancel (sv_heap s i)"
  shows "svc_inv (probe_done E i r s)"
proof (rule inv_step[OF assms(1,2)])
  assume ok: "ok_at i s"
  have nosend: "\<not> iv_possible_send (sv_heap s i)" using ok assms(3) by (auto simp: ok_defs)
  have "ok_at i (owner_ends i OwnerDone (fail_before_started E i e True s))" "ok_at i (owner_ends i OwnerDone (finish_without_engine E i st err s))"
    "local_step i s (owner_ends i OwnerDone (fail_before_started E i e True s))" "local_step i s (owner_ends i OwnerDone (finish_without_engine E i st err s))" for e st err
    using ok nosend assms(3) by (auto intro!: ok_fail ok_finish local_intros)
  then show "local_step i s (probe_done E i r s) \<and> ok_at i (probe_done E i r s)"
    using send_ok[OF ok assms(3,4)] assms(3) by (simp add: probe_done_def split: sum.split)
qed

text \<open>Cleanup.\<close>

lemma ensure_view:
  "sv_heap (ensure_cleanup E i reason st s) i = (let v = sv_heap s i in if iv_cleanup v \<noteq> NoCleanup then v
     else v\<lparr>iv_terminal := True, iv_watch := False, iv_cleanup := Claimed reason st, iv_force_deadline := Some (case iv_force_deadline v of None \<Rightarrow> nv_mono E + cancel_kill_bound | Some f \<Rightarrow> f)\<rparr>)"
  "sv_locks (ensure_cleanup E i reason st s) = sv_locks s" "sv_live (ensure_cleanup E i reason st s) = sv_live s"
  "sv_sends (ensure_cleanup E i reason st s) = sv_sends s" "session_of j (ensure_cleanup E i reason st s) = session_of j s"
  by (simp_all add: ensure_cleanup_def session_of_def Let_def)

lemma local_ensure [intro!]: "local_step i s (ensure_cleanup E i reason st s)"
  unfolding ensure_cleanup_def by (rule local_upd) simp

lemma claim_ok:
  assumes "ok_at i s" "\<not> iv_terminal (sv_heap s i)" "f \<noteq> StartedPending"
  shows "ok_at i (ensure_cleanup E i reason st (upd i (settle_started f) s))"
proof -
  note c = running_facts(1,4)[OF assms(1,2)]
  have "sv_heap (ensure_cleanup E i reason st (upd i (settle_started f) s)) i =
     (settle_started f (sv_heap s i))\<lparr>iv_terminal := True, iv_watch := False, iv_cleanup := Claimed reason st, iv_force_deadline := Some (nv_mono E + cancel_kill_bound)\<rparr>"
    using c by (simp add: ensure_view)
  then show ?thesis using assms c by (simp add: ok_defs ensure_view sends_of_def)
qed

lemma cleanup_begin_inv:
  assumes "svc_inv s" "i < sv_next s"
  shows "svc_inv (cleanup_begin i s)"
proof (rule inv_step[OF assms])
  assume ok: "ok_at i s"
  have "local_step i s (cleanup_begin i s)" unfolding cleanup_begin_def by (rule local_upd) (simp split: cleanup.split)
  moreover have "ok_at i (cleanup_begin i s)"
    using ok by (cases "iv_cleanup (sv_heap s i)") (auto simp: cleanup_begin_def ok_defs session_of_def sends_of_def)
  ultimately show "local_step i s (cleanup_begin i s) \<and> ok_at i (cleanup_begin i s)" by simp
qed

lemma engine_cancel_inv:
  assumes "svc_inv s" "i < sv_next s" "iv_engine_cancel (sv_heap s i) = TaskPending" "r \<noteq> NoTask"
  shows "svc_inv (engine_cancel_done i r s)"
proof (rule inv_step[OF assms(1,2)])
  assume ok: "ok_at i s"
  have l: "local_step i s (upd i (\<lambda>v. v\<lparr>iv_engine_cancel := r\<rparr>) s)" by (rule local_upd) simp
  have "local_step i s (engine_cancel_done i r s)" using l local_live[OF l] by (cases "r = TaskOk") (simp_all add: engine_cancel_done_def Let_def)
  moreover have "ok_at i (engine_cancel_done i r s)"
    using ok assms(3,4) by (auto simp: engine_cancel_done_def Let_def ok_defs session_of_def sends_of_def)
  ultimately show "local_step i s (engine_cancel_done i r s) \<and> ok_at i (engine_cancel_done i r s)" by simp
qed

lemma owner_stop_inv:
  assumes "svc_inv s" "i < sv_next s" "iv_owner_stop (sv_heap s i) = TaskPending"
  shows "svc_inv (owner_stop_done E i s)"
proof (rule inv_step[OF assms(1,2)])
  assume ok: "ok_at i s"
  have "local_step i s (owner_stop_done E i s)" unfolding owner_stop_done_def by (rule local_upd) simp
  moreover have "ok_at i (owner_stop_done E i s)"
    using ok assms(3) by (cases "iv_owner (sv_heap s i)") (auto simp: owner_stop_done_def ok_defs session_of_def sends_of_def)
  ultimately show "local_step i s (owner_stop_done E i s) \<and> ok_at i (owner_stop_done E i s)" by simp
qed

lemma release_view:
  "sv_heap (release_session_lock i s) i = (sv_heap s i)\<lparr>iv_reserved := False\<rparr>"
  "sv_locks (release_session_lock i s) = (if iv_reserved (sv_heap s i) then (sv_locks s)(session_of i s := None) else sv_locks s)"
  "sv_live (release_session_lock i s) = sv_live s" "sv_sends (release_session_lock i s) = sv_sends s"
  by (simp_all add: release_session_lock_def)

text \<open>The verdict is none only when both proofs are in.\<close>

lemma verdict_None:
  "cleanup_verdict v = None \<longleftrightarrow> iv_engine_cancel v \<in> {NoTask, TaskOk} \<and> iv_owner_stop v \<in> {NoTask, TaskOk}"
  by (auto simp: cleanup_verdict_def task_failure_def proof_done_def split: proof_task.splits)

lemma decide_inv:
  assumes "svc_inv s" "i < sv_next s"
  shows "svc_inv (cleanup_decide E i s)"
proof (rule inv_step[OF assms])
  assume ok: "ok_at i s"
  show "local_step i s (cleanup_decide E i s) \<and> ok_at i (cleanup_decide E i s)"
  proof (cases "iv_cleanup (sv_heap s i)")
    case (Observing reason st)
    have proofs: "iv_engine_cancel (sv_heap s i) \<noteq> NoTask" "iv_owner_stop (sv_heap s i) \<noteq> NoTask" using ok Observing by (simp_all add: ok_defs)
    let ?f = "\<lambda>st err v. (finalize E st (err v) v)\<lparr>iv_cleanup := CleanupDone\<rparr>"
    have l: "local_step i s (upd i (?f st err) s)" for st err by (rule local_upd) simp
    have ok1: "ok_at i (upd i (?f st err) s)" for st err
      using ok Observing by (simp add: ok_defs session_of_def sends_of_def)
    have l2: "local_step i s (release_session_lock i (upd i (?f st err) s))" for st err
      using ok_reserved[OF ok1[of st err]] by (intro local_trans[OF l[of st err]] local_release) simp
    have ok2: "ok_at i (release_session_lock i (upd i (?f st err) s))"
      if "iv_engine_cancel (sv_heap s i) = TaskOk" "iv_owner_stop (sv_heap s i) = TaskOk" for st err
      using ok Observing that by (simp add: ok_defs release_view session_of_def sends_of_def)
    show ?thesis
      using l ok1 l2 ok2 proofs Observing verdict_None[of "sv_heap s i"] ok local_refl[of i s]
      by (cases "cleanup_verdict (sv_heap s i)") (simp_all add: cleanup_decide_def Let_def)
  qed (use ok in \<open>simp_all add: cleanup_decide_def Let_def local_refl\<close>)
qed

lemma timeout_cancel_inv:
  assumes "svc_inv s" "i < sv_next s"
  shows "svc_inv (timeout_cancel E i reason s)"
proof (rule inv_step[OF assms])
  assume "ok_at i s"
  then show "local_step i s (timeout_cancel E i reason s) \<and> ok_at i (timeout_cancel E i reason s)"
    by (auto simp: timeout_cancel_def intro!: claim_ok local_refl local_trans[OF local_upd local_ensure])
qed

lemma explicit_inv:
  assumes "svc_inv s" "i < sv_next s" "\<not> iv_terminal (sv_heap s i)"
  shows "svc_inv (claim_explicit_cancel E i reason s)"
proof (rule inv_step[OF assms(1,2)])
  assume "ok_at i s"
  then show "local_step i s (claim_explicit_cancel E i reason s) \<and> ok_at i (claim_explicit_cancel E i reason s)"
    using assms(3) by (auto simp: claim_explicit_cancel_def intro!: claim_ok local_trans[OF local_upd local_ensure])
qed

lemma cancel_inv: "svc_inv s \<Longrightarrow> cancel_run E iid reason s = Some s' \<Longrightarrow> svc_inv s'"
  by (auto simp: cancel_run_def Let_def svc_invD(6) timeout_cancel_inv explicit_inv split: option.splits if_splits)

lemma watch_inv:
  assumes "svc_inv s" "i < sv_next s"
  shows "svc_inv (watch_turn E progress num i s)"
proof (rule inv_step[OF assms])
  assume ok: "ok_at i s"
  let ?s = "\<lambda>r. timeout_cancel E i r (upd i (\<lambda>v. v\<lparr>iv_watch := False\<rparr>) s)"
  have l: "local_step i s (?s r)" for r
    by (auto simp: timeout_cancel_def intro!: local_trans[OF local_upd local_trans[OF local_upd local_ensure]] local_upd)
  have ok2: "ok_at i (?s r)" for r
  proof (cases "iv_terminal (sv_heap s i)")
    case True
    then show ?thesis using ok by (simp add: timeout_cancel_def ok_defs session_of_def sends_of_def)
  next
    case False
    note c = running_facts(1,4)[OF ok False]
    have "sv_heap (?s r) i = (settle_started (StartedFailed (ExcTimeout r)) ((sv_heap s i)\<lparr>iv_watch := False\<rparr>))
        \<lparr>iv_terminal := True, iv_watch := False, iv_cleanup := Claimed r RunFailed, iv_force_deadline := Some (nv_mono E + cancel_kill_bound)\<rparr>"
      using False c by (simp add: timeout_cancel_def ensure_view)
    then show ?thesis using ok c False by (simp add: timeout_cancel_def ok_defs ensure_view sends_of_def)
  qed
  show "local_step i s (watch_turn E progress num i s) \<and> ok_at i (watch_turn E progress num i s)"
    using l ok2 ok by (auto simp: watch_turn_def local_refl split: option.split)
qed

lemma watch_begin_inv:
  assumes "svc_inv s" "i < sv_next s"
  shows "svc_inv (watch_begin E i s)"
proof (rule inv_step[OF assms])
  assume ok: "ok_at i s"
  have "local_step i s (watch_begin E i s)" unfolding watch_begin_def by (rule local_upd) simp
  moreover have "ok_at i (watch_begin E i s)" using ok by (simp add: watch_begin_def ok_defs session_of_def sends_of_def)
  ultimately show "local_step i s (watch_begin E i s) \<and> ok_at i (watch_begin E i s)" by simp
qed

lemma forced_inv:
  assumes "svc_inv s" "i < sv_next s"
  shows "svc_inv (engine_forced E i s)"
proof (rule inv_step[OF assms])
  assume ok: "ok_at i s"
  have "local_step i s (engine_forced E i s)" unfolding engine_forced_def by (rule local_upd) simp
  moreover have "ok_at i (engine_forced E i s)" using ok by (simp add: engine_forced_def ok_defs session_of_def sends_of_def)
  ultimately show "local_step i s (engine_forced E i s) \<and> ok_at i (engine_forced E i s)" by simp
qed

lemma lost_inv:
  assumes "svc_inv s" "i < sv_next s" "iv_settling (sv_heap s i)"
  shows "svc_inv (settlement_lost E i m s)"
proof (rule inv_step[OF assms(1,2)])
  assume ok: "ok_at i s"
  have "local_step i s (settlement_lost E i m s)"
    by (auto simp: settlement_lost_def Let_def intro!: local_upd local_trans[OF local_upd local_ensure])
  moreover have "ok_at i (settlement_lost E i m s)"
  proof (cases "iv_terminal (sv_heap s i)")
    case False
    note c = running_facts(1,4)[OF ok False]
    show ?thesis using ok c False assms(3) by (simp add: settlement_lost_def ok_defs ensure_view sends_of_def)
  qed (use ok in \<open>simp add: settlement_lost_def ok_defs session_of_def sends_of_def\<close>)
  ultimately show "local_step i s (settlement_lost E i m s) \<and> ok_at i (settlement_lost E i m s)" by simp
qed

lemma settled_inv:
  assumes "svc_inv s" "i < sv_next s" "iv_settling (sv_heap s i)"
  shows "svc_inv (settled E i outcome s)"
proof (rule inv_step[OF assms(1,2)])
  assume ok: "ok_at i s"
  let ?s = "upd i (\<lambda>v. v\<lparr>iv_settling := False\<rparr>) (s\<lparr>sv_live := sv_live s - {i}\<rparr>)"
  let ?f = "\<lambda>v. let res = (if outcome = RunCompleted
                   then (case nv_result E (sq_invocation_id (iv_request v)) of Some t \<Rightarrow> JObj [(''text'', JStr t)] | None \<Rightarrow> iv_result v)
                   else iv_result v) in
        (finalize E outcome (iv_error v) (v\<lparr>iv_result := res\<rparr>))\<lparr>iv_watch := False\<rparr>"
  have l: "local_step i s ?s" by (intro local_trans[OF local_live[OF local_refl] local_upd]) simp
  have ok1: "ok_at i ?s" using ok assms(3) by (auto simp: ok_defs session_of_def sends_of_def)
  have l2: "local_step i s (release_session_lock i (upd i ?f ?s))"
    using ok_reserved[OF ok1] by (intro local_trans[OF l local_trans[OF local_upd local_release]]) (simp_all add: Let_def session_of_def)
  have ok2: "ok_at i (release_session_lock i (upd i ?f ?s))" if "\<not> iv_terminal (sv_heap s i)"
  proof -
    note c = running_facts[OF ok that]
    show ?thesis using ok c assms(3) that by (auto simp: ok_defs release_view session_of_def sends_of_def Let_def)
  qed
  show "local_step i s (settled E i outcome s) \<and> ok_at i (settled E i outcome s)"
    using l ok1 l2 ok2 by (simp add: settled_def Let_def)
qed

lemma interrupted_inv:
  assumes "svc_inv s" "i < sv_next s" "iv_owner_cancel (sv_heap s i)" "\<not> owner_over (iv_owner (sv_heap s i))"
  shows "svc_inv (owner_interrupted E i m s)"
proof (rule inv_step[OF assms(1,2)])
  assume ok: "ok_at i s"
  have "ok_at i (owner_ends i OwnerCancelled s)" using ok assms(4) by (auto simp: ok_defs ends_view sends_of_def)
  moreover have "ok_at i (owner_ends i OwnerDone (finish_without_engine E i st err s))" if "iv_owner (sv_heap s i) = OwnerHook" for st err
    using ok assms(4) that by (intro ok_finish) (auto simp: ok_defs)
  ultimately show "local_step i s (owner_interrupted E i m s) \<and> ok_at i (owner_interrupted E i m s)"
    using ok by (auto simp: owner_interrupted_def intro!: local_intros split: owner.split)
qed

text \<open>The end of \<open>engine.start\<close>.\<close>

lemma ok_unlive: "ok_at i s \<Longrightarrow> ok_at i (s\<lparr>sv_live := sv_live s - {i}\<rparr>)"
  by (simp add: ok_defs session_of_def sends_of_def)

lemma sent_over:
  assumes "ok_at i s" "iv_owner (sv_heap s i) = OwnerSending" "iv_terminal (sv_heap s i)" "owner_over p"
  shows "ok_at i (owner_ends i p s)"
proof -
  have "\<not> owner_waits p" "p \<noteq> OwnerSending" using assms(4) by (auto simp: owner_over_def owner_waits_def split: owner.splits)
  then show ?thesis using assms by (auto simp: ok_defs ends_view sends_of_def)
qed

lemma rejected_ok:
  assumes "ok_at i s" "iv_owner (sv_heap s i) = OwnerSending" "i \<notin> sv_live s" "\<not> iv_terminal (sv_heap s i)"
  shows "ok_at i (owner_ends i OwnerDone (fail_before_started E i e True s))"
  using assms running_facts[OF assms(1,4)] by (auto simp: ok_defs fail_view ends_view Let_def sends_of_def)

lemma unconfirmed_ok:
  assumes "ok_at i s" "iv_owner (sv_heap s i) = OwnerSending" "\<not> iv_terminal (sv_heap s i)" "f \<noteq> StartedPending"
  shows "ok_at i (owner_ends i OwnerDone (upd i (settle_started f) (ensure_cleanup E i reason st (upd i (\<lambda>v. v\<lparr>iv_error := err\<rparr>) s))))"
proof -
  let ?v = "(settle_started f ((sv_heap s i)\<lparr>iv_error := err, iv_terminal := True, iv_watch := False, iv_cleanup := Claimed reason st, iv_force_deadline := Some (nv_mono E + cancel_kill_bound)\<rparr>))\<lparr>iv_owner := OwnerDone\<rparr>"
  note c = running_facts[OF assms(1,3)]
  have "sv_heap (owner_ends i OwnerDone (upd i (settle_started f) (ensure_cleanup E i reason st (upd i (\<lambda>v. v\<lparr>iv_error := err\<rparr>) s)))) i = ?v"
    using c by (simp add: ends_view ensure_view)
  then show ?thesis using assms c by (auto simp: ok_defs ensure_view ends_view sends_of_def)
qed

lemma raised_step:
  assumes "ok_at i s" "iv_owner (sv_heap s i) = OwnerSending" "\<And>m. e = ExcOther m \<Longrightarrow> i \<notin> sv_live s"
  shows "local_step i s (owner_ends i OwnerDone (fail_after_possible_send E i e s))
    \<and> ok_at i (owner_ends i OwnerDone (fail_after_possible_send E i e s))"
proof (cases "iv_terminal (sv_heap s i)")
  case True
  then show ?thesis using sent_over[OF assms(1,2) True] by (simp add: fail_after_possible_send_def local_owner_ends)
next
  case False
  have l: "local_step i s (owner_ends i OwnerDone (upd i (settle_started f) (ensure_cleanup E i reason st (upd i (\<lambda>v. v\<lparr>iv_error := err\<rparr>) s))))"
    for f reason st err by (intro local_trans[OF local_upd local_trans[OF local_ensure local_trans[OF local_upd local_owner_ends]]]) simp_all
  show ?thesis
    using l rejected_ok[OF assms(1,2) _ False] unconfirmed_ok[OF assms(1,2) False] local_trans[OF local_fail[OF assms(1)] local_owner_ends] assms(3) False
    by (cases e) (simp_all add: fail_after_possible_send_def)
qed

lemma receipt_view:
  "sv_heap (note_receipt i sid s) i = (sv_heap s i)\<lparr>iv_receipt := Some sid\<rparr>" "sv_locks (note_receipt i sid s) = sv_locks s"
  "sv_live (note_receipt i sid s) = sv_live s" "sv_sends (note_receipt i sid s) = sv_sends s" "session_of j (note_receipt i sid s) = session_of j s"
  by (simp_all add: note_receipt_def Let_def session_of_def)

lemma receipt_step:
  assumes "ok_at i s"
  shows "local_step i s (note_receipt i sid s)" "ok_at i (note_receipt i sid s)"
  using assms by (simp_all add: ok_defs receipt_view sends_of_def) (simp add: local_step_def note_receipt_def Let_def session_of_def sends_of_def)

lemma same_mark: "same_runs s (mark_started k s)"
  by (simp add: same_runs_def mark_started_def)

lemma started_ok:
  assumes "ok_at i s" "iv_owner (sv_heap s i) = OwnerSending" "\<not> iv_terminal (sv_heap s i)"
  shows "ok_at i (upd i (\<lambda>v. (settle_started (StartedResult (receipt_of v)) (v\<lparr>iv_state := RunRunning\<rparr>))\<lparr>iv_settling := True, iv_owner := OwnerDone\<rparr>) s)"
  using assms running_facts[OF assms(1,3)] by (auto simp: ok_defs session_of_def sends_of_def)

lemma send_inv:
  assumes "svc_inv s" "i < sv_next s" "iv_owner (sv_heap s i) = OwnerSending"
  shows "svc_inv (send_done E i r marked s)"
proof (rule inv_step[OF assms(1,2)])
  assume ok: "ok_at i s"
  show "local_step i s (send_done E i r marked s) \<and> ok_at i (send_done E i r marked s)"
  proof (cases r)
    case (SendRaised e)
    let ?s = "case e of ExcOther _ \<Rightarrow> s\<lparr>sv_live := sv_live s - {i}\<rparr> | _ \<Rightarrow> s"
    have "local_step i s ?s" "ok_at i ?s" "iv_owner (sv_heap ?s i) = OwnerSending"
      using local_live[OF local_refl] ok_unlive[OF ok] ok assms(3) by (simp_all add: local_refl split: run_exc.split)
    moreover have "i \<notin> sv_live ?s" if "e = ExcOther m" for m using that by simp
    ultimately show ?thesis using raised_step[of i ?s e E] local_trans[of i s ?s] SendRaised by (simp add: send_done_def)
  next
    case (SendReceipt sid)
    let ?s = "note_receipt i sid s"
    let ?s2 = "\<lambda>b. if b then mark_started (session_of i s) ?s else ?s"
    have st: "local_step i s (?s2 b)" "ok_at i (?s2 b)" "iv_owner (sv_heap (?s2 b) i) = OwnerSending" for b
      using receipt_step[OF ok, of sid] same_runs_ok[OF same_mark[of ?s "session_of i s"]] local_trans assms(3)
      by (auto simp: receipt_view mark_started_def)
    have over: "local_step i s (owner_ends i p (?s2 b))" for b p by (rule local_trans[OF st(1) local_owner_ends])
    have failed: "ok_at i (owner_ends i (OwnerRaised m) ?s)" for m
      using st(2)[of False] assms(3) by (auto simp: ok_defs ends_view receipt_view sends_of_def)
    have run: "local_step i s (upd i (\<lambda>v. (settle_started (StartedResult (receipt_of v)) (v\<lparr>iv_state := RunRunning\<rparr>))\<lparr>iv_settling := True, iv_owner := OwnerDone\<rparr>) (?s2 b))" for b
      by (intro local_trans[OF st(1) local_upd]) simp
    define b where "b = (case sv_sessions ?s (session_of i s) of Some st \<Rightarrow> \<not> ss_started st | None \<Rightarrow> False)"
    have eq: "send_done E i r marked s = (case (if b then marked else Inr ()) of
        Inl m \<Rightarrow> owner_ends i (OwnerRaised m) ?s
      | Inr _ \<Rightarrow> if iv_terminal (sv_heap (?s2 b) i) then owner_ends i OwnerDone (?s2 b)
          else upd i (\<lambda>v. (settle_started (StartedResult (receipt_of v)) (v\<lparr>iv_state := RunRunning\<rparr>))\<lparr>iv_settling := True, iv_owner := OwnerDone\<rparr>) (?s2 b))"
      unfolding b_def SendReceipt send_done_def Let_def send_end.case by (rule refl)
    show ?thesis
    proof (cases "if b then marked else Inr ()")
      case (Inl m)
      then show ?thesis unfolding eq using over[of "OwnerRaised m" False] failed by simp
    next
      case (Inr u)
      then show ?thesis unfolding eq
        using over[of OwnerDone b] run[of b] started_ok[OF st(2,3), of b] sent_over[OF st(2,3), of b OwnerDone] by auto
    qed
  qed
qed

text \<open>Admission and eviction.\<close>

lemma foldl_dict_del: "foldl dict_del d ks = filter (\<lambda>x. fst x \<notin> set ks) d"
  by (induction ks arbitrary: d) (auto simp: dict_del_def intro: filter_cong)

lemma reserve_capacity_filters:
  assumes "reserve_capacity now s = Inr s'"
  shows "\<exists>P. s' = s\<lparr>sv_invocations := filter P (sv_invocations s)\<rparr>"
proof (cases "length (sv_invocations s) < max_retained_runs")
  case True
  then show ?thesis using assms by (intro exI[of _ "\<lambda>_. True"]) (simp add: reserve_capacity_def)
next
  case False
  then show ?thesis using assms by (auto simp: reserve_capacity_def Let_def foldl_dict_del split: if_splits)
qed

lemma svc_inv_evict: "svc_inv s \<Longrightarrow> svc_inv (s\<lparr>sv_invocations := filter P (sv_invocations s)\<rparr>)"
  by (auto simp: svc_inv_def ok_at_def session_of_def sends_of_def distinct_map_filter)

text \<open>A new invocation at the next address.\<close>

definition add_invocation :: "invocation \<Rightarrow> svc \<Rightarrow> svc" where
  "add_invocation v s = s\<lparr>sv_invocations := dict_set (sv_invocations s) (sq_invocation_id (iv_request v)) (sv_next s),
     sv_heap := (sv_heap s)(sv_next s := v), sv_next := sv_next s + 1\<rparr>"

lemma in_dict_set: "x \<in> set (dict_set d k v) \<Longrightarrow> x = (k, v) \<or> x \<in> set d"
  by (induction d k v rule: dict_set.induct) (auto split: if_splits)

lemma svc_inv_add:
  assumes "svc_inv s" "run_ok v False False 0"
  shows "svc_inv (add_invocation v s)"
proof -
  let ?s = "add_invocation v s" and ?n = "sv_next s"
  have free: "?n \<notin> sv_live s" "sends_of ?n s = 0" "sv_locks s k \<noteq> Some (HeldRun ?n)" for k
    using assms(1) by (simp_all add: svc_inv_def)
  have sess: "session_of j ?s = session_of j s" if "j < ?n" for j using that by (simp add: session_of_def add_invocation_def)
  have "ok_at j ?s" if "j < sv_next ?s" for j
  proof (cases "j = ?n")
    case True
    then show ?thesis using assms(2) free by (simp add: ok_at_def add_invocation_def sends_of_def)
  next
    case False
    then have "j < ?n" using that by (simp add: add_invocation_def)
    then show ?thesis using svc_invD(1)[OF assms(1), of j] sess[of j] False by (simp add: ok_at_def add_invocation_def sends_of_def)
  qed
  moreover have "session_of i ?s = k" if "sv_locks ?s k = Some (HeldRun i)" for i k
  proof -
    have h: "sv_locks s k = Some (HeldRun i)" using that by (simp add: add_invocation_def)
    then have "i < ?n" using svc_invD(5)[OF assms(1)] by blast
    then show ?thesis using sess svc_invD(4)[OF assms(1) h] by simp
  qed
  moreover have "i < sv_next ?s \<and> sq_invocation_id (iv_request (sv_heap ?s i)) = iid" if "(iid, i) \<in> set (sv_invocations ?s)" for iid i
    using in_dict_set[of "(iid, i)"] that assms(1) by (fastforce simp: add_invocation_def svc_inv_def)
  moreover have "distinct (map fst (sv_invocations ?s))" using assms(1) by (simp add: add_invocation_def svc_inv_def distinct_dict_set)
  moreover have "i \<notin> sv_live ?s \<and> sends_of i ?s = 0 \<and> (\<forall>k. sv_locks ?s k \<noteq> Some (HeldRun i))" if "i \<ge> sv_next ?s" for i
    using that assms(1) by (simp add: add_invocation_def svc_inv_def sends_of_def)
  ultimately show ?thesis unfolding svc_inv_def by blast
qed

lemma start_inv:
  assumes "svc_inv s" "start_run E rid q s = (r, s')"
  shows "svc_inv s'"
proof (cases "s' = s")
  case False
  then obtain p t where t: "reserve_capacity (nv_mono E) s = Inr t"
      "s' = add_invocation (new_invocation q p (admitted_catalog q (sv_catalog t)) rid (nv_mono E)) t"
    using assms(2) by (auto simp: start_run_def Let_def add_invocation_def new_invocation_def split: if_splits option.splits sum.splits)
  have "svc_inv t" using reserve_capacity_filters[OF t(1)] svc_inv_evict[OF assms(1)] by auto
  then show ?thesis unfolding t(2) by (rule svc_inv_add) (simp add: run_ok_def engine_ok_def cleanup_ok_def new_invocation_def)
qed (use assms in simp)

lemma explicit_next [simp]: "sv_next (claim_explicit_cancel E i reason s) = sv_next s"
  by (simp add: claim_explicit_cancel_def ensure_cleanup_def)

lemma close_fold_inv:
  "svc_inv s \<Longrightarrow> (\<And>iid i. (iid, i) \<in> set xs \<Longrightarrow> i < sv_next s) \<Longrightarrow>
   svc_inv (fold (\<lambda>(iid, i) s. if iv_cleanup (sv_heap s i) = NoCleanup \<and> \<not> iv_terminal (sv_heap s i) then claim_explicit_cancel E i r s else s) xs s)"
proof (induction xs arbitrary: s)
  case (Cons x xs)
  obtain iid i where x: "x = (iid, i)" by fastforce
  let ?s = "if iv_cleanup (sv_heap s i) = NoCleanup \<and> \<not> iv_terminal (sv_heap s i) then claim_explicit_cancel E i r s else s"
  have "svc_inv ?s" using explicit_inv[OF Cons.prems(1), of i E r] Cons.prems(2)[of iid i] Cons.prems(1) by (simp add: x)
  moreover have "sv_next ?s = sv_next s" by simp
  moreover have "j < sv_next s" if "(jid, j) \<in> set xs" for jid j using Cons.prems(2)[of jid j] that by simp
  ultimately have "svc_inv (fold (\<lambda>(iid, i) s. if iv_cleanup (sv_heap s i) = NoCleanup \<and> \<not> iv_terminal (sv_heap s i) then claim_explicit_cancel E i r s else s) xs ?s)"
    using Cons.IH[of ?s] by (metis (no_types, lifting))
  then show ?case by (simp add: x)
qed simp

lemma same_closed: "same_runs s (s\<lparr>sv_closed := b\<rparr>)" "same_runs s (s\<lparr>sv_frozen := b\<rparr>)" "same_runs s (set_session k f s)"
  "same_runs s (snd (get_or_create k m s))" "same_runs s (s\<lparr>sv_public := p, sv_catalog := c\<rparr>)"
  by (simp_all add: same_runs_def set_session_def)

lemmas same_inv = same_runs_ok(4)[OF same_closed(1)] same_runs_ok(4)[OF same_closed(2)] same_runs_ok(4)[OF same_closed(3)]
  same_runs_ok(4)[OF same_closed(4)] same_runs_ok(4)[OF same_closed(5)]

lemma service_close_inv: "svc_inv s \<Longrightarrow> svc_inv (close_begin E s)"
  unfolding close_begin_def using svc_invD(3)[of s] by (auto simp: same_inv intro!: close_fold_inv)

lemma adopt_inv:
  assumes "svc_inv s" "adopt_restored_run aware now j s = Inr s'"
  shows "svc_inv s'"
proof (cases "s' = s")
  case False
  then obtain q p rid f st err res where s': "s' = add_invocation ((new_invocation q p None rid now)\<lparr>iv_started := f, iv_terminal := True, iv_state := st,
        iv_error := err, iv_result := res, iv_terminal_at := Some now, iv_watch := False, iv_owner := OwnerDone\<rparr>) s" and f: "f \<noteq> StartedPending"
    using assms(2) by (auto simp: adopt_restored_run_def add_invocation_def new_invocation_def restored_started_def Let_def bind_res_def
        split: json.splits sum.splits if_splits option.splits)
  show ?thesis unfolding s' using assms(1)
    by (rule svc_inv_add) (simp add: run_ok_def engine_ok_def cleanup_ok_def new_invocation_def f)
qed (use assms in simp)

lemma adopt_runs_inv: "svc_inv s \<Longrightarrow> svc_inv (snd (adopt_runs aware now js s))"
  by (induction aware now js s rule: adopt_runs.induct) (auto dest: adopt_inv split: sum.split)

lemma other_lock_inv:
  assumes "svc_inv s" "\<And>i. sv_locks s k \<noteq> Some (HeldRun i)" "\<And>i. l \<noteq> Some (HeldRun i)"
  shows "svc_inv (s\<lparr>sv_locks := (sv_locks s)(k := l)\<rparr>)"
proof -
  have "ok_at i (s\<lparr>sv_locks := (sv_locks s)(k := l)\<rparr>) = ok_at i s" for i
    using assms(2,3) by (simp add: ok_at_def session_of_def sends_of_def)
  then show ?thesis using assms by (auto simp: svc_inv_def session_of_def sends_of_def)
qed

lemma retire_begin_inv: "svc_inv s \<Longrightarrow> svc_inv (snd (session_retire_begin k alive s))"
  using other_lock_inv[of s k "Some HeldOther"] by (auto simp: session_retire_begin_def)

lemma retire_end_inv:
  assumes "svc_inv s" "sv_locks s k = Some HeldOther"
  shows "svc_inv (session_retire_end k deleted s)"
proof -
  have "same_runs (s\<lparr>sv_locks := (sv_locks s)(k := None)\<rparr>) (session_retire_end k deleted s)" by (simp add: same_runs_def session_retire_end_def)
  from same_runs_ok(4)[OF this] show ?thesis using other_lock_inv[OF assms(1), of k None] assms(2) by simp
qed

lemma svc_step_inv: "svc_step s s' \<Longrightarrow> svc_inv s \<Longrightarrow> svc_inv s'"
proof (induction rule: svc_step.induct)
  case (st_configure p c s s')
  then show ?case by (auto simp: configure_def same_inv split: if_splits)
next
  case (st_lock s k)
  then show ?case by (intro other_lock_inv) auto
next
  case (st_unlock s k)
  then show ?case by (intro other_lock_inv) auto
qed (auto intro: start_inv begin_inv acquire_timeout_inv acquired_inv hook_inv probe_inv send_inv interrupted_inv settled_inv lost_inv watch_inv
      cancel_inv cleanup_begin_inv watch_begin_inv forced_inv engine_cancel_inv owner_stop_inv decide_inv service_close_inv adopt_runs_inv retire_begin_inv retire_end_inv
      simp: same_inv snapshot_hooked_def snapshot_made_def restore_enter_def restore_native_def)

lemma svc_reachable_inv: "svc_reachable s \<Longrightarrow> svc_inv s"
proof -
  assume "svc_reachable s"
  then obtain wref where "svc_step\<^sup>*\<^sup>* (new_service wref) s" by (auto simp: svc_reachable_def)
  then show ?thesis
  proof (induction rule: rtranclp_induct)
    case base
    show ?case by (simp add: svc_inv_def new_service_def sends_of_def)
  qed (rule svc_step_inv)
qed

section \<open>What holds of every run\<close>

lemma liveD:
  assumes "svc_reachable s" "i \<in> sv_live s"
  shows "i < sv_next s" "iv_reserved (sv_heap s i)" "sv_locks s (session_of i s) = Some (HeldRun i)"
proof -
  note inv = svc_reachable_inv[OF assms(1)]
  show i: "i < sv_next s" using svc_invD(2)[OF inv, of i] assms(2) by blast
  have "engine_ok (sv_heap s i) (sv_locks s (session_of i s) = Some (HeldRun i)) True (sends_of i s)"
    using svc_invD(1)[OF inv i] assms(2) by (simp add: ok_at_def run_ok_def)
  then show "iv_reserved (sv_heap s i)" "sv_locks s (session_of i s) = Some (HeldRun i)" unfolding engine_ok_def by blast+
qed

end
