(* ===== verification/Execution_Props.thy ===== *)
theory Execution_Props
  imports Execution_Safety
begin

text \<open>Final outcomes, the bound of the registry, the deadline and restored runs of the service of a unit.\<close>

section \<open>Final outcomes\<close>

text \<open>What a caller sees of a run, and that a terminal run keeps it under every operation.\<close>

definition outcome :: "invocation \<Rightarrow> bool \<times> run_state \<times> string option \<times> json \<times> rat option \<times> started_fut \<times> start_request \<times> string" where
  "outcome v = (iv_terminal v, iv_state v, iv_error v, iv_result v, iv_terminal_at v, iv_started v, iv_request v, iv_run_id v)"

lemma outcome_frame [simp]:
  "outcome (v\<lparr>iv_owner := p\<rparr>) = outcome v" "outcome (v\<lparr>iv_reserved := b\<rparr>) = outcome v" "outcome (v\<lparr>iv_watch := b\<rparr>) = outcome v"
  "outcome (v\<lparr>iv_settling := b\<rparr>) = outcome v" "outcome (v\<lparr>iv_engine_cancel := t\<rparr>) = outcome v" "outcome (v\<lparr>iv_owner_stop := t\<rparr>) = outcome v"
  "outcome (v\<lparr>iv_watch_end := w\<rparr>) = outcome v" "outcome (v\<lparr>iv_confirm_deadline := w\<rparr>) = outcome v"
  "outcome (v\<lparr>iv_receipt := r\<rparr>) = outcome v" "outcome (v\<lparr>iv_possible_send := b\<rparr>) = outcome v"
  "outcome (v\<lparr>iv_cleanup := c, iv_engine_cancel := t, iv_owner_stop := t', iv_owner_cancel := b\<rparr>) = outcome v"
  by (simp_all add: outcome_def)

lemma release_heap: "sv_heap (release_session_lock j s) = (sv_heap s)(j := (sv_heap s j)\<lparr>iv_reserved := False\<rparr>)"
  by (auto simp: release_session_lock_def)

lemma fail_heap: "iv_terminal (sv_heap s i) \<Longrightarrow> outcome (sv_heap (fail_before_started E j e b s) i) = outcome (sv_heap s i)"
  by (cases "j = i") (auto simp: fail_before_started_def Let_def release_heap)

lemma finish_run_heap: "iv_terminal (sv_heap s i) \<Longrightarrow> outcome (sv_heap (finish_without_engine E j st err s) i) = outcome (sv_heap s i)"
  by (cases "j = i") (auto simp: finish_without_engine_def Let_def release_heap)

lemma ends_heap: "outcome (sv_heap (owner_ends j p s) i) = outcome (sv_heap s i)"
  by (simp add: owner_ends_def)

lemma ops_next [simp]:
  "sv_next (release_session_lock j s) = sv_next s" "sv_next (owner_ends j p s) = sv_next s" "sv_next (fail_before_started E j e b s) = sv_next s"
  "sv_next (finish_without_engine E j st err s) = sv_next s" "sv_next (build_and_probe E j pr built s) = sv_next s"
  "sv_next (after_gate E redact j gate built s) = sv_next s" "sv_next (ensure_cleanup E j r st s) = sv_next s" "sv_next (timeout_cancel E j r s) = sv_next s"
  "sv_next (take_lock j s) = sv_next s" "sv_next (set_session k f s) = sv_next s" "sv_heap (set_session k f s) = sv_heap s"
  by (simp_all add: release_session_lock_def owner_ends_def fail_before_started_def finish_without_engine_def build_and_probe_def after_gate_def
      ensure_cleanup_def timeout_cancel_def take_lock_def set_session_def Let_def split: sum.split option.split)

lemma gate_heap:
  assumes "iv_terminal (sv_heap s i)" "\<not> iv_terminal (sv_heap s j)"
  shows "outcome (sv_heap (after_gate E redact j gate built s) i) = outcome (sv_heap s i)"
proof -
  have "i \<noteq> j" using assms by auto
  then have "outcome (sv_heap (build_and_probe E j prompt built s) i) = outcome (sv_heap s i)" for prompt
    using fail_heap[of "upd j (\<lambda>v. v\<lparr>iv_state := RunSending\<rparr>) s" i] assms(1)
    by (simp add: build_and_probe_def Let_def ends_heap split: sum.split)
  then show ?thesis using finish_run_heap[OF assms(1)] by (simp add: after_gate_def Let_def ends_heap split: option.split)
qed

lemma claim_heap: "iv_terminal (sv_heap s i) \<Longrightarrow> \<not> iv_terminal (sv_heap s j) \<Longrightarrow> sv_heap (ensure_cleanup E j r st (upd j f s)) i = sv_heap s i"
  by (auto simp: ensure_cleanup_def)

lemma timeout_heap: "iv_terminal (sv_heap s i) \<Longrightarrow> sv_heap (timeout_cancel E j r s) i = sv_heap s i"
  using claim_heap[of s i j] by (simp add: timeout_cancel_def)

lemma acquired_heap:
  assumes "iv_terminal (sv_heap s i)"
  shows "outcome (sv_heap (owner_acquired E redact j home built s) i) = outcome (sv_heap s i)"
proof (cases "iv_terminal (sv_heap s j)")
  case True
  then show ?thesis by (simp add: owner_acquired_def Let_def take_lock_def ends_heap)
next
  case False
  then have "i \<noteq> j" using assms by auto
  then show ?thesis
    using False assms fail_heap[of "take_lock j s" i] gate_heap[of "upd j (\<lambda>v. v\<lparr>iv_state := RunPreparing\<rparr>) (snd (get_or_create k m (take_lock j s)))" i j for k m]
    by (simp add: owner_acquired_def Let_def split_beta take_lock_def ends_heap split: sum.split)
qed

lemma hook_heap: "iv_terminal (sv_heap s i) \<Longrightarrow> outcome (sv_heap (hook_done E redact j h built s) i) = outcome (sv_heap s i)"
  by (simp add: hook_done_def ends_heap fail_heap finish_run_heap gate_heap split: hook_end.split)

lemma probe_heap: "iv_terminal (sv_heap s i) \<Longrightarrow> outcome (sv_heap (probe_done E j r s) i) = outcome (sv_heap s i)"
  by (simp add: probe_done_def send_prompt_def ends_heap fail_heap finish_run_heap split: owner.split sum.split)

lemma send_heap:
  assumes "iv_terminal (sv_heap s i)"
  shows "outcome (sv_heap (send_done E j r marked s) i) = outcome (sv_heap s i)"
proof (cases r)
  case (SendRaised e)
  have raised: "outcome (sv_heap (fail_after_possible_send E j e t) i) = outcome (sv_heap t i)" if "iv_terminal (sv_heap t i)" for t
    using that fail_heap[OF that] by (cases "i = j") (auto simp: fail_after_possible_send_def ensure_cleanup_def split: run_exc.split)
  show ?thesis using assms raised[of s] raised[of "s\<lparr>sv_live := sv_live s - {j}\<rparr>"] SendRaised
    by (cases e) (simp_all add: send_done_def ends_heap)
next
  case (SendReceipt sid)
  have n: "outcome (sv_heap (note_receipt j sid s) i) = outcome (sv_heap s i)" "iv_terminal (sv_heap (note_receipt j sid s) i)"
    using assms by (auto simp: note_receipt_def Let_def)
  have "outcome (sv_heap (upd j f t) i) = outcome (sv_heap t i)" if "iv_terminal (sv_heap t i)" "\<not> iv_terminal (sv_heap t j)" for f t using that by auto
  then show ?thesis using n SendReceipt
    by (cases "i = j") (simp_all add: send_done_def Let_def ends_heap mark_started_def split: sum.split)
qed

lemma settled_heap: "iv_terminal (sv_heap s i) \<Longrightarrow> outcome (sv_heap (settled E j st s) i) = outcome (sv_heap s i)"
  by (auto simp: settled_def Let_def release_heap)

lemma lost_heap: "iv_terminal (sv_heap s i) \<Longrightarrow> outcome (sv_heap (settlement_lost E j m s) i) = outcome (sv_heap s i)"
  by (auto simp: settlement_lost_def Let_def ensure_cleanup_def)

lemma watch_heap: "iv_terminal (sv_heap s i) \<Longrightarrow> outcome (sv_heap (watch_turn E b c j s) i) = outcome (sv_heap s i)"
  using timeout_heap[of "upd j (\<lambda>v. v\<lparr>iv_watch := False\<rparr>) s" i E j] by (cases "i = j") (auto simp: watch_turn_def split: option.split)

lemma cancel_heap: "iv_terminal (sv_heap s i) \<Longrightarrow> cancel_run E iid r s = Some s' \<Longrightarrow> sv_heap s' i = sv_heap s i"
  by (auto simp: cancel_run_def Let_def claim_explicit_cancel_def timeout_heap claim_heap split: option.splits if_splits)

lemma cleanup_begin_heap: "outcome (sv_heap (cleanup_begin j s) i) = outcome (sv_heap s i)"
  by (simp add: cleanup_begin_def split: cleanup.split)

lemma decide_heap:
  assumes "iv_cleanup (sv_heap s i) = NoCleanup \<or> iv_cleanup (sv_heap s i) = CleanupDone"
  shows "outcome (sv_heap (cleanup_decide E j s) i) = outcome (sv_heap s i)"
  using assms by (auto simp: cleanup_decide_def Let_def release_heap split: cleanup.split option.split)

lemma interrupted_heap: "iv_terminal (sv_heap s i) \<Longrightarrow> outcome (sv_heap (owner_interrupted E j m s) i) = outcome (sv_heap s i)"
  by (simp add: owner_interrupted_def ends_heap finish_run_heap split: owner.split)

lemma close_heap:
  "iv_terminal (sv_heap s i) \<Longrightarrow> sv_heap (fold (\<lambda>(iid, j) s. if iv_cleanup (sv_heap s j) = NoCleanup \<and> \<not> iv_terminal (sv_heap s j)
     then claim_explicit_cancel E j r s else s) xs s) i = sv_heap s i"
proof (induction xs arbitrary: s)
  case (Cons x xs)
  obtain iid j where x: "x = (iid, j)" by fastforce
  show ?case using Cons claim_heap[of s i j] by (simp add: x claim_explicit_cancel_def)
qed simp

lemma added_heap: "i < sv_next s \<Longrightarrow> sv_heap (add_invocation v s) i = sv_heap s i"
  by (simp add: add_invocation_def)

lemma start_cases:
  assumes "start_run E rid q s = (r, s')"
  shows "s' = s \<or> (\<exists>p t. reserve_capacity (nv_mono E) s = Inr t \<and> r = Inr (sv_next t)
    \<and> s' = add_invocation (new_invocation q p (admitted_catalog q (sv_catalog t)) rid (nv_mono E)) t)"
  using assms by (auto simp: start_run_def Let_def add_invocation_def new_invocation_def split: if_splits option.splits sum.splits)

lemma start_heap: "start_run E rid q s = (r, s') \<Longrightarrow> i < sv_next s \<Longrightarrow> sv_heap s' i = sv_heap s i \<and> sv_next s \<le> sv_next s'"
  using start_cases[of E rid q s r s'] reserve_capacity_filters[of "nv_mono E" s] by (auto simp: add_invocation_def)

lemma adopt_heap:
  assumes "adopt_restored_run aware now j s = Inr s'" "i < sv_next s"
  shows "sv_heap s' i = sv_heap s i \<and> sv_next s \<le> sv_next s'"
  using assms by (auto simp: adopt_restored_run_def bind_res_def Let_def split: json.splits sum.splits if_splits option.splits)

lemma adopt_runs_heap: "i < sv_next s \<Longrightarrow> sv_heap (snd (adopt_runs aware now js s)) i = sv_heap s i \<and> sv_next s \<le> sv_next (snd (adopt_runs aware now js s))"
proof (induction aware now js s rule: adopt_runs.induct)
  case (2 aware now j js s)
  then show ?case using adopt_heap[of aware now j s _ i] by (fastforce split: sum.split)
qed simp

lemma turns_next [simp]:
  "sv_next (owner_begin E j s) = sv_next s" "sv_next (acquire_timeout E j s) = sv_next s" "sv_next (owner_acquired E redact j home built s) = sv_next s"
  "sv_next (hook_done E redact j h built s) = sv_next s" "sv_next (probe_done E j r s) = sv_next s" "sv_next (send_done E j e marked s) = sv_next s"
  "sv_next (owner_interrupted E j m s) = sv_next s" "sv_next (settled E j st s) = sv_next s" "sv_next (settlement_lost E j m s) = sv_next s"
  "sv_next (watch_turn E b c j s) = sv_next s" "sv_next (watch_begin E j s) = sv_next s" "sv_next (engine_forced E j s) = sv_next s"
  by (simp_all add: owner_begin_def acquire_timeout_def owner_acquired_def hook_done_def probe_done_def send_prompt_def send_done_def
      fail_after_possible_send_def note_receipt_def mark_started_def owner_interrupted_def settled_def settlement_lost_def watch_turn_def watch_begin_def engine_forced_def
      Let_def split_beta split: option.split sum.split hook_end.split owner.split send_end.split run_exc.split)

lemma close_next [simp]: "sv_next (close_begin E s) = sv_next s"
proof -
  have "sv_next (fold (\<lambda>(iid :: string, i) s. if iv_cleanup (sv_heap s i) = NoCleanup \<and> \<not> iv_terminal (sv_heap s i)
      then claim_explicit_cancel E i r s else s) xs s) = sv_next s" for r xs s
    by (induction xs arbitrary: s) auto
  then show ?thesis by (simp add: close_begin_def)
qed

lemma cleanup_next [simp]:
  "sv_next (cleanup_begin j s) = sv_next s" "sv_next (engine_cancel_done j r s) = sv_next s" "sv_next (owner_stop_done E j s) = sv_next s"
  "sv_next (cleanup_decide E j s) = sv_next s" "sv_next (snapshot_hooked k failed s) = sv_next s"
  "sv_next (snapshot_made k s) = sv_next s" "sv_next (restore_enter k marker s) = sv_next s" "sv_next (restore_native k m marker s) = sv_next s"
  "sv_next (snd (session_retire_begin k alive s)) = sv_next s" "sv_next (session_retire_end k deleted s) = sv_next s"
  by (simp_all add: cleanup_begin_def engine_cancel_done_def owner_stop_done_def cleanup_decide_def snapshot_hooked_def snapshot_made_def restore_enter_def restore_native_def
      session_retire_begin_def session_retire_end_def
      Let_def split: cleanup.split option.split sum.split)

lemma adopt_next: "adopt_restored_run aware now j s = Inr s' \<Longrightarrow> sv_next s \<le> sv_next s'"
  by (auto simp: adopt_restored_run_def bind_res_def Let_def split: json.splits sum.splits if_splits option.splits)

lemma adopt_runs_next: "sv_next s \<le> sv_next (snd (adopt_runs aware now js s))"
proof (induction aware now js s rule: adopt_runs.induct)
  case (2 aware now j js s)
  then show ?case using adopt_next[of aware now j s] by (fastforce split: sum.split)
qed simp

lemma step_next: "svc_step s s' \<Longrightarrow> sv_next s \<le> sv_next s'"
proof (induction rule: svc_step.induct)
  case (st_start E rid q s r s')
  then show ?case using start_cases[of E rid q s r s'] reserve_capacity_filters[of "nv_mono E" s] by (auto simp: add_invocation_def)
next
  case (st_cancel E iid reason s s')
  then show ?case by (auto simp: cancel_run_def Let_def split: option.splits if_splits)
next
  case (st_configure p c s s')
  then show ?case by (auto simp: configure_def split: if_splits)
qed (simp_all add: adopt_runs_next)

lemma step_outcome:
  "svc_step s s' \<Longrightarrow> i < sv_next s \<Longrightarrow> iv_terminal (sv_heap s i) \<Longrightarrow> iv_cleanup (sv_heap s i) = NoCleanup \<or> iv_cleanup (sv_heap s i) = CleanupDone \<Longrightarrow>
   outcome (sv_heap s' i) = outcome (sv_heap s i)"
proof (induction rule: svc_step.induct)
  case (st_configure p c s s')
  then show ?case by (auto simp: configure_def split: if_splits)
next
  case (st_start E rid q s r s')
  then show ?case using start_heap[of E rid q s r s' i] by simp
next
  case (st_begin j s E)
  then show ?case by (simp add: owner_begin_def ends_heap fail_heap)
next
  case (st_acquire_timeout j s E)
  then show ?case by (simp add: acquire_timeout_def ends_heap fail_heap)
next
  case (st_cancel E iid reason s s')
  then show ?case using cancel_heap[of s i E iid reason s'] by simp
next
  case (st_engine j s r)
  then show ?case by (simp add: engine_cancel_done_def Let_def)
next
  case (st_owner_stop j s E)
  then show ?case by (simp add: owner_stop_done_def)
next
  case (st_watch_begin j s E)
  then show ?case by (simp add: watch_begin_def)
next
  case (st_forced j s E)
  then show ?case by (simp add: engine_forced_def)
next
  case (st_close s)
  then show ?case by (simp add: close_begin_def close_heap)
next
  case (st_retire s)
  then show ?case by (simp add: session_retire_begin_def)
next
  case (st_retired s)
  then show ?case by (simp add: session_retire_end_def)
qed (simp_all add: acquired_heap hook_heap probe_heap send_heap settled_heap lost_heap watch_heap cleanup_begin_heap decide_heap interrupted_heap adopt_runs_heap
      snapshot_hooked_def snapshot_made_def restore_enter_def restore_native_def)

lemma final_facts:
  assumes "svc_inv s" "i < sv_next s" "iv_terminal_at (sv_heap s i) = Some t"
  shows "iv_terminal (sv_heap s i)" "iv_cleanup (sv_heap s i) = NoCleanup \<or> iv_cleanup (sv_heap s i) = CleanupDone" "iv_started (sv_heap s i) \<noteq> StartedPending"
  using svc_invD(1)[OF assms(1,2)] assms(3) by (auto simp: ok_defs)

section \<open>A unit at work\<close>

text \<open>A unit that is configured, gets one run, takes its reservation, prepares it and sends it; then the run completes.\<close>

definition demo_public :: exec_public where
  "demo_public = \<lparr>xp_config_version = replicate 64 (CHR ''a''), xp_session_start = False, xp_facade_endpoint = ''f'', xp_idempotency_window = 60,
     xp_max_stall = 9, xp_agent = \<lparr>ai_name = ''a'', ai_namespace = ''n'', ai_uid = ''u''\<rparr>\<rparr>"

definition demo_view :: engine_view where
  "demo_view = \<lparr>nv_utc = 1, nv_mono = 1, nv_float = (\<lambda>_. ''1''), nv_usage = (\<lambda>_. None), nv_result = (\<lambda>_. Some ''ok'')\<rparr>"

definition demo_started :: svc where
  "demo_started = snd (start_run demo_view ''r'' example_start ((new_service None)\<lparr>sv_public := Some demo_public\<rparr>))"

definition demo_probing :: svc where
  "demo_probing = owner_acquired demo_view id 0 (Inr False) (Inr ()) (owner_begin demo_view 0 demo_started)"

definition demo_sent :: svc where
  "demo_sent = probe_done demo_view 0 (Inr ()) demo_probing"

definition demo_ended :: svc where
  "demo_ended = settled demo_view 0 RunCompleted (send_done demo_view 0 (SendReceipt ''n1'') (Inr ()) demo_sent)"

lemma upd_frame [simp]: "sv_frozen (upd i f s) = sv_frozen s" "sv_closed (upd i f s) = sv_closed s" "sv_workspace_ref (upd i f s) = sv_workspace_ref s"
  by (simp_all add: upd_def)

lemma new_service_view [simp]:
  "sv_workspace_ref (new_service w) = w" "sv_public (new_service w) = None" "\<not> sv_closed (new_service w)" "\<not> sv_frozen (new_service w)"
  "sv_invocations (new_service w) = []" "sv_next (new_service w) = 0" "sv_locks (new_service w) = Map.empty" "sv_sessions (new_service w) = Map.empty"
  "sv_live (new_service w) = {}" "sv_sends (new_service w) = []" "sv_catalog (new_service w) = None"
  by (simp_all add: new_service_def)

lemma demo_started_view:
  "sv_heap demo_started 0 = new_invocation example_start demo_public None ''r'' 1" "sv_next demo_started = 1" "sv_locks demo_started = Map.empty"
  "sv_sessions demo_started = Map.empty" "sv_live demo_started = {}" "sv_sends demo_started = []" "sv_invocations demo_started = [(''i'', 0)]"
  "sv_public demo_started = Some demo_public" "\<not> sv_frozen demo_started" "\<not> sv_closed demo_started" "sv_workspace_ref demo_started = None"
  by (simp_all add: demo_started_def start_run_def reserve_capacity_def max_retained_runs_def demo_public_def demo_view_def example_start_def
      admitted_catalog_def)

lemma demo_probing_view:
  "sv_heap demo_probing 0 = (new_invocation example_start demo_public None ''r'' 1)\<lparr>iv_owner := OwnerProbing [] None, iv_reserved := True, iv_state := RunSending\<rparr>"
  "sv_next demo_probing = 1" "sv_locks demo_probing = [''s'' \<mapsto> HeldRun 0]" "sv_sessions demo_probing = [''s'' \<mapsto> fresh_session False]"
  "sv_live demo_probing = {}" "sv_sends demo_probing = []" "sv_invocations demo_probing = [(''i'', 0)]" "sv_public demo_probing = Some demo_public"
  "\<not> sv_frozen demo_probing" "\<not> sv_closed demo_probing" "sv_workspace_ref demo_probing = None"
  by (simp_all add: demo_probing_def owner_acquired_def owner_begin_def owner_ends_def take_lock_def get_or_create_def after_gate_def build_and_probe_def
      run_catalog_def session_of_def out_of_time_def remaining_time_def demo_started_view new_invocation_def example_start_def demo_view_def
      demo_public_def Let_def)

lemma demo_sent_view:
  "sv_heap demo_sent 0 = (sv_heap demo_probing 0)\<lparr>iv_possible_send := True, iv_owner := OwnerSending\<rparr>"
  "sv_next demo_sent = 1" "sv_locks demo_sent = [''s'' \<mapsto> HeldRun 0]" "sv_sessions demo_sent = [''s'' \<mapsto> fresh_session False]"
  "sv_live demo_sent = {0}" "sv_invocations demo_sent = [(''i'', 0)]" "sv_public demo_sent = Some demo_public"
  "\<not> sv_frozen demo_sent" "\<not> sv_closed demo_sent" "sv_workspace_ref demo_sent = None"
  by (simp_all add: demo_sent_def probe_done_def send_prompt_def out_of_time_def remaining_time_def demo_probing_view new_invocation_def example_start_def
      demo_view_def)

lemma demo_ended_view:
  "iv_terminal_at (sv_heap demo_ended 0) = Some 1" "iv_terminal (sv_heap demo_ended 0)" "iv_state (sv_heap demo_ended 0) = RunCompleted"
  "iv_cleanup (sv_heap demo_ended 0) = NoCleanup" "iv_engine_cancel (sv_heap demo_ended 0) = NoTask" "iv_owner_stop (sv_heap demo_ended 0) = NoTask"
  "iv_request (sv_heap demo_ended 0) = example_start" "iv_run_id (sv_heap demo_ended 0) = ''r''"
  "iv_started (sv_heap demo_ended 0) = StartedResult (receipt_of (sv_heap demo_ended 0))" "sv_next demo_ended = 1" "sv_locks demo_ended ''s'' = None"
  "sv_sessions demo_ended ''s'' \<noteq> None" "sv_invocations demo_ended = [(''i'', 0)]"
  by (simp_all add: demo_ended_def settled_def send_done_def note_receipt_def mark_started_def session_of_def release_session_lock_def
      settle_started_def receipt_of_def finalize_def retain_reporting_def demo_sent_view demo_probing_view new_invocation_def example_start_def
      fresh_session_def demo_view_def Let_def)

lemma demo_steps: "svc_step\<^sup>*\<^sup>* (new_service None) demo_started" "svc_step\<^sup>*\<^sup>* demo_started demo_sent" "svc_step\<^sup>*\<^sup>* demo_sent demo_ended"
proof -
  have "svc_step (new_service None) ((new_service None)\<lparr>sv_public := Some demo_public\<rparr>)"
    by (rule st_configure[of demo_public None]) (simp add: configure_def new_service_def)
  moreover have "svc_step ((new_service None)\<lparr>sv_public := Some demo_public\<rparr>) demo_started"
    by (rule st_start[of demo_view "''r''" example_start _ "fst (start_run demo_view ''r'' example_start ((new_service None)\<lparr>sv_public := Some demo_public\<rparr>))"])
      (simp add: demo_started_def)
  ultimately show "svc_step\<^sup>*\<^sup>* (new_service None) demo_started" by auto
  let ?b = "owner_begin demo_view 0 demo_started"
  have b: "iv_owner (sv_heap ?b 0) = OwnerAcquiring" "\<not> iv_owner_cancel (sv_heap ?b 0)" "sv_locks ?b = Map.empty"
    by (simp_all add: owner_begin_def owner_ends_def out_of_time_def remaining_time_def demo_started_view new_invocation_def example_start_def demo_view_def)
  have "svc_step demo_started ?b" by (rule st_begin) (simp_all add: demo_started_view new_invocation_def)
  moreover have "svc_step ?b demo_probing" unfolding demo_probing_def
    by (rule st_acquired) (simp_all add: b demo_started_view)
  moreover have "svc_step demo_probing demo_sent" unfolding demo_sent_def
    by (rule st_probe) (simp_all add: demo_probing_view new_invocation_def)
  ultimately show "svc_step\<^sup>*\<^sup>* demo_started demo_sent" by auto
  let ?r = "send_done demo_view 0 (SendReceipt ''n1'') (Inr ()) demo_sent"
  have "iv_settling (sv_heap ?r 0)"
    by (simp add: send_done_def note_receipt_def mark_started_def demo_sent_view demo_probing_view new_invocation_def fresh_session_def Let_def)
  moreover have "svc_step demo_sent ?r" by (rule st_send) (simp_all add: demo_sent_view)
  ultimately have "svc_step demo_sent ?r" "svc_step ?r demo_ended" unfolding demo_ended_def by (auto intro!: st_settled simp: demo_sent_view)
  then show "svc_step\<^sup>*\<^sup>* demo_sent demo_ended" by auto
qed

lemma demo_reachable: "svc_reachable demo_started" "svc_reachable demo_sent" "svc_reachable demo_ended"
  unfolding svc_reachable_def using demo_steps by (meson rtranclp_trans)+

text \<open>
  C2. The outcome of a run is final. Once the service has put down when a run ended, no later operation on the
  service changes what a caller sees of it: not its state, its error, its result, its receipt, or the time;
  neither a late native event, nor a cancel, a cleanup, the watchdog, shutdown, a snapshot or a restore.
\<close>

theorem run_outcome_final:
  assumes "svc_reachable s" "svc_step\<^sup>*\<^sup>* s s'" "i < sv_next s" "iv_terminal_at (sv_heap s i) = Some t"
  shows "run_status_of (sv_heap s' i) = run_status_of (sv_heap s i) \<and> iv_started (sv_heap s' i) = iv_started (sv_heap s i)
    \<and> iv_started (sv_heap s i) \<noteq> StartedPending \<and> iv_terminal_at (sv_heap s' i) = Some t"
proof -
  have "svc_inv s' \<and> i < sv_next s' \<and> outcome (sv_heap s' i) = outcome (sv_heap s i)"
    using assms(2)
  proof (induction rule: rtranclp_induct)
    case base
    show ?case using svc_reachable_inv[OF assms(1)] assms(3) by simp
  next
    case (step a b)
    then have a: "svc_inv a" "i < sv_next a" "iv_terminal_at (sv_heap a i) = Some t" using assms(4) by (auto simp: outcome_def)
    then show ?case using step final_facts[OF a] step_outcome[OF step.hyps(2) a(2)] svc_step_inv step_next by (auto intro: order.strict_trans2)
  qed
  then show ?thesis using assms(4) final_facts(3)[OF svc_reachable_inv[OF assms(1)] assms(3,4)] by (simp add: outcome_def run_status_of_def)
qed

theorem run_outcome_final_witness:
  "iv_state (sv_heap demo_ended 0) = RunCompleted \<and> run_status_of (sv_heap (close_begin demo_view demo_ended) 0) = run_status_of (sv_heap demo_ended 0)"
  using run_outcome_final[OF demo_reachable(3) r_into_rtranclp[of svc_step, OF st_close], of 0 1] demo_ended_view by simp

section \<open>Exclusive work\<close>

text \<open>
  C1. One session never has two runs in the engine. In every reachable state, whatever was cancelled, timed out, lost or
  sent ambiguously, an invocation whose native work may still run holds the reservation of its session;
  so two such invocations are of different sessions, and a session whose lock is free has none.
\<close>

theorem native_work_exclusive:
  assumes "svc_reachable s" "i \<in> sv_live s"
  shows "iv_reserved (sv_heap s i) \<and> sv_locks s (session_of i s) = Some (HeldRun i) \<and> (\<forall>j. j \<in> sv_live s \<longrightarrow> session_of j s = session_of i s \<longrightarrow> j = i)"
proof -
  have "j = i" if "j \<in> sv_live s" "session_of j s = session_of i s" for j
    using liveD(3)[OF assms] liveD(3)[OF assms(1) that(1)] that(2) by simp
  then show ?thesis using liveD(2,3)[OF assms] by blast
qed

theorem native_work_exclusive_witness:
  "0 \<in> sv_live demo_sent \<and> sv_locks demo_sent (session_of 0 demo_sent) = Some (HeldRun 0)"
  using native_work_exclusive[OF demo_reachable(2), of 0] by (simp add: demo_sent_view)

text \<open>
  C18. A session is retired only when nothing of it can still run: whenever retirement gets as far as deleting, no
  invocation of the session has native work, a reservation or an unfinished cleanup.
\<close>

theorem retire_only_quiet:
  assumes "svc_reachable s" "session_retire_begin k alive s = (Inr True, s')"
  shows "\<not> alive \<and> sv_locks s k = None \<and> (\<forall>i \<in> sv_live s. session_of i s \<noteq> k)
    \<and> (\<forall>i \<in> set (session_invocations k s). iv_terminal (sv_heap s i) \<and> \<not> uncertain (sv_heap s i) \<and> \<not> iv_reserved (sv_heap s i))"
proof -
  have free: "sv_locks s k = None" "\<not> alive" and runs: "\<forall>i \<in> set (session_invocations k s). iv_terminal (sv_heap s i) \<and> \<not> uncertain (sv_heap s i)"
    using assms(2) by (auto simp: session_retire_begin_def split: if_splits)
  have "session_of i s \<noteq> k" if "i \<in> sv_live s" for i using liveD(3)[OF assms(1) that] free(1) by auto
  moreover have "\<not> iv_reserved (sv_heap s i)" if "i \<in> set (session_invocations k s)" for i
  proof -
    have "i < sv_next s" "session_of i s = k" using that svc_invD(3)[OF svc_reachable_inv[OF assms(1)]] by (auto simp: session_invocations_def)
    then show ?thesis using ok_reserved[OF svc_invD(1)[OF svc_reachable_inv[OF assms(1)]]] free(1) by auto
  qed
  ultimately show ?thesis using free runs by blast
qed

theorem retire_only_quiet_witness:
  "fst (session_retire_begin ''s'' False demo_ended) = Inr True \<and> (\<forall>i. i \<in> sv_live demo_ended \<longleftrightarrow> i \<in> sv_live demo_ended \<and> session_of i demo_ended \<noteq> ''s'')"
proof -
  have r: "session_retire_begin ''s'' False demo_ended = (Inr True, demo_ended\<lparr>sv_locks := (sv_locks demo_ended)(''s'' \<mapsto> HeldOther)\<rparr>)"
    using demo_ended_view by (simp add: session_retire_begin_def session_invocations_def uncertain_def cleanup_done_def proof_done_def)
  then show ?thesis using retire_only_quiet[OF demo_reachable(3) r] by auto
qed

section \<open>One send, bounded memory, the deadline\<close>

lemma distinct_fst_filter: "(\<And>i. length (filter (\<lambda>x. fst x = i) xs) \<le> 1) \<Longrightarrow> distinct (map fst xs)"
proof (induction xs)
  case (Cons x xs)
  have "length (filter (\<lambda>y. fst y = i) xs) \<le> 1" for i using Cons.prems[of i] by (auto split: if_splits)
  moreover have "fst x \<notin> fst ` set xs" using Cons.prems[of "fst x"] by (auto simp: filter_empty_conv)
  ultimately show ?case using Cons.IH by simp
qed simp

text \<open>
  C19. A prompt is sent at most once. In every reachable state each invocation was handed to the engine at most once, and a
  start whose invocation the service still knows changes nothing: it joins the run when the request is the
  same one and is refused otherwise.
\<close>

theorem run_sent_once:
  assumes "svc_reachable s" "map_of (sv_invocations s) (sq_invocation_id q) = Some i"
  shows "distinct (map fst (sv_sends s)) \<and> snd (start_run E rid q s) = s
    \<and> (\<forall>j. fst (start_run E rid q s) = Inr j \<longleftrightarrow> j = i \<and> iv_request (sv_heap s i) = q \<and> \<not> sv_frozen s \<and> \<not> sv_closed s
         \<and> sv_workspace_ref s \<in> {None, Some (sq_workspace_ref q)})"
proof -
  note inv = svc_reachable_inv[OF assms(1)]
  have "sends_of j s \<le> 1" for j using svc_invD(1)[OF inv, of j] inv by (cases "j < sv_next s") (auto simp: ok_defs svc_inv_def)
  then have "distinct (map fst (sv_sends s))" by (intro distinct_fst_filter) (simp add: sends_of_def)
  then show ?thesis using assms(2) by (auto simp: start_run_def split: option.splits if_splits)
qed

theorem run_sent_once_witness:
  "fst (start_run demo_view ''r2'' example_start demo_sent) = Inr 0 \<and> snd (start_run demo_view ''r2'' example_start demo_sent) = demo_sent"
proof -
  have "map_of (sv_invocations demo_sent) (sq_invocation_id example_start) = Some 0" by (simp add: demo_sent_view example_start_def)
  from run_sent_once[OF demo_reachable(2) this, of demo_view "''r2''"] show ?thesis
    by (simp add: demo_sent_view demo_probing_view new_invocation_def)
qed

lemma dict_set_fresh: "map_of d k = None \<Longrightarrow> dict_set d k v = d @ [(k, v)]"
  by (induction d k v rule: dict_set.induct) (auto split: if_splits)

lemma evicted_fit:
  assumes "distinct (map fst d)" "filter P d \<noteq> []" "0 < n"
  shows "length (foldl dict_del d (map fst (take n (filter P d)))) < length d"
proof -
  obtain x where x: "x \<in> set (take n (filter P d))" using assms(2,3) by (cases "filter P d"; cases n) auto
  then have "x \<in> set d" by (auto dest: in_set_takeD)
  then show ?thesis unfolding foldl_dict_del using x by (intro length_filter_less[of x]) auto
qed

lemma evicted_old:
  assumes "(iid, i) \<in> set d" "(iid, i) \<notin> set (foldl dict_del d (map fst (take n (filter P d))))" "distinct (map fst d)"
  shows "P (iid, i)"
proof -
  have "iid \<in> fst ` set (take n (filter P d))" using assms(1,2) by (auto simp: foldl_dict_del)
  then obtain j where j: "(iid, j) \<in> set (take n (filter P d))" by auto
  then have "(iid, j) \<in> set (filter P d)" by (rule in_set_takeD)
  then show ?thesis using assms(1,3) by (auto dest: eq_key_imp_eq_value)
qed

text \<open>
  C20. The registry stays bounded, and only forgets what is over. An accepted start never takes the registry
  over \<open>MAX_RETAINED_RUNS\<close> entries (nor over its length before, when a restore has filled it beyond that); and a run that
  it evicts has ended, is older than the idempotency window, has a known outcome, holds no reservation and
  has nothing running in the engine.
\<close>

theorem registry_bounded:
  assumes "svc_reachable s" "start_run E rid q s = (r, s')"
  shows "length (sv_invocations s') \<le> max max_retained_runs (length (sv_invocations s))
    \<and> (\<forall>(iid, i) \<in> set (sv_invocations s) - set (sv_invocations s').
         iv_terminal_at (sv_heap s i) \<noteq> None \<and> \<not> uncertain (sv_heap s i) \<and> \<not> iv_reserved (sv_heap s i) \<and> i \<notin> sv_live s
         \<and> nv_mono E - the (iv_terminal_at (sv_heap s i)) \<ge> (case sv_public s of Some p \<Rightarrow> xp_idempotency_window p | None \<Rightarrow> 0))"
  (is "?len s' \<and> ?old s'")
proof (cases "s' = s")
  case False
  let ?q = "sq_invocation_id q"
  obtain p t where t: "reserve_capacity (nv_mono E) s = Inr t" and s': "s' = add_invocation (new_invocation q p (admitted_catalog q (sv_catalog t)) rid (nv_mono E)) t"
    using start_cases[OF assms(2)] False by auto
  have d: "distinct (map fst (sv_invocations s))" using svc_reachable_inv[OF assms(1)] by (simp add: svc_inv_def)
  have fresh: "map_of (sv_invocations s) ?q = None" using assms(2) False by (auto simp: start_run_def split: if_splits option.splits)
  have sub: "set (sv_invocations t) \<subseteq> set (sv_invocations s)" using reserve_capacity_filters[OF t] by auto
  then have "map_of (sv_invocations t) ?q = None" using fresh by (auto simp: map_of_eq_None_iff)
  then have add: "sv_invocations s' = sv_invocations t @ [(?q, sv_next t)]"
    by (simp add: s' add_invocation_def new_invocation_def dict_set_fresh)
  have len: "length (sv_invocations t) < max max_retained_runs (length (sv_invocations s))"
    using t evicted_fit[OF d] by (auto simp: reserve_capacity_def Let_def less_max_iff_disj split: if_splits)
  have "evictable (case sv_public s of Some p \<Rightarrow> xp_idempotency_window p | None \<Rightarrow> 0) (nv_mono E) (sv_heap s i)"
    if "(iid, i) \<in> set (sv_invocations s)" "(iid, i) \<notin> set (sv_invocations t)" for iid i
    using t that(2) evicted_old[OF that(1) _ d, where P = "\<lambda>(iid, i). evictable (case sv_public s of Some p \<Rightarrow> xp_idempotency_window p | None \<Rightarrow> 0) (nv_mono E) (sv_heap s i)"] that(1)
    by (auto simp: reserve_capacity_def Let_def split: if_splits)
  then have "?old s'" using liveD(2)[OF assms(1)] by (fastforce simp: add evictable_def uncertain_def split: option.splits)
  then show ?thesis using len add by simp
qed simp

theorem registry_bounded_witness:
  "length (sv_invocations (snd (start_run demo_view ''r2'' (example_start\<lparr>sq_invocation_id := ''j''\<rparr>) demo_ended))) \<le> max_retained_runs"
  using registry_bounded[OF demo_reachable(3) prod.collapse[symmetric], of demo_view "''r2''" "example_start\<lparr>sq_invocation_id := ''j''\<rparr>"]
  by (simp add: demo_ended_view max_retained_runs_def)

text \<open>What a step of the service never takes back of a run.\<close>

definition later :: "invocation \<Rightarrow> invocation \<Rightarrow> bool" where
  "later v v' \<longleftrightarrow> (iv_terminal v \<longrightarrow> iv_terminal v') \<and> (iv_watch_end v \<noteq> None \<longrightarrow> iv_watch_end v' \<noteq> None)
     \<and> (iv_terminal_at v \<noteq> None \<longrightarrow> iv_terminal_at v' \<noteq> None)
     \<and> (iv_cleanup v \<noteq> NoCleanup \<longrightarrow> iv_cleanup v' = iv_cleanup v \<or> (\<exists>r st. iv_cleanup v = Claimed r st) \<and> observing (iv_cleanup v')
          \<or> iv_cleanup v' = CleanupDone)"

lemma later_refl [simp]: "later v v" by (simp add: later_def)

lemma later_trans: "later a b \<Longrightarrow> later b c \<Longrightarrow> later a c"
  unfolding later_def by (cases "iv_cleanup a"; cases "iv_cleanup b") auto

lemma later_upd [simp]:
  "later v (v\<lparr>iv_owner := p\<rparr>)" "later v (v\<lparr>iv_reserved := b\<rparr>)" "later v (v\<lparr>iv_watch := b\<rparr>)"
  "later v (v\<lparr>iv_settling := b\<rparr>)" "later v (v\<lparr>iv_engine_cancel := t\<rparr>)" "later v (v\<lparr>iv_owner_stop := t\<rparr>)"
  "later v (v\<lparr>iv_watch_end := Some w\<rparr>)" "later v (v\<lparr>iv_confirm_deadline := c\<rparr>)" "later v (v\<lparr>iv_state := st\<rparr>)" "later v (v\<lparr>iv_error := er\<rparr>)"
  "later v (v\<lparr>iv_receipt := r\<rparr>)" "later v (v\<lparr>iv_possible_send := b\<rparr>)" "later v (finalize E st e v)" "later v (settle_started f v)"
  "later v (v\<lparr>iv_possible_send := b, iv_owner := p\<rparr>)" "later v (v\<lparr>iv_settling := b, iv_owner := p\<rparr>)"
  by (simp_all add: later_def)

lemma later_op:
  "later (sv_heap s i) (sv_heap (release_session_lock j s) i)" "later (sv_heap s i) (sv_heap (owner_ends j p s) i)"
  "later (sv_heap s i) (sv_heap (ensure_cleanup E j r st s) i)"
  by (auto simp: release_heap owner_ends_def ensure_cleanup_def later_def)

lemma later_fail: "later (sv_heap s i) (sv_heap (fail_before_started E j e b s) i)" "later (sv_heap s i) (sv_heap (finish_without_engine E j st err s) i)"
  by (auto simp: fail_before_started_def finish_without_engine_def release_heap later_def Let_def)

lemma later_gate: "later (sv_heap s i) (sv_heap (after_gate E redact j gate built s) i)"
proof -
  have "later (sv_heap s i) (sv_heap (build_and_probe E j prompt built s) i)" for prompt
  proof -
    let ?s = "upd j (\<lambda>v. v\<lparr>iv_state := RunSending\<rparr>) s"
    have "later (sv_heap s i) (sv_heap ?s i)" by simp
    from later_trans[OF this later_op(2)] later_trans[OF later_trans[OF this later_fail(1)] later_op(2)]
    show ?thesis unfolding build_and_probe_def Let_def by (cases built) (simp_all only: sum.case)
  qed
  then show ?thesis using later_trans[OF later_fail(2) later_op(2)] by (simp add: after_gate_def Let_def split: option.split)
qed

lemma later_acquired: "later (sv_heap s i) (sv_heap (owner_acquired E redact j home built s) i)"
proof -
  have t: "later (sv_heap s i) (sv_heap (take_lock j s) i)" by (simp add: take_lock_def)
  have "later (sv_heap s i) (sv_heap (upd j (\<lambda>v. v\<lparr>iv_state := RunPreparing\<rparr>) (snd (get_or_create k m (take_lock j s)))) i)" for k m
    using later_trans[OF t later_upd(9)] t by auto
  from later_trans[OF this later_op(2)] later_trans[OF this later_gate] later_trans[OF t later_op(2)]
    later_trans[OF later_trans[OF t later_fail(1)] later_op(2)]
  show ?thesis by (simp add: owner_acquired_def Let_def split_beta split: sum.split)
qed

lemma later_timeout: "later (sv_heap s i) (sv_heap (timeout_cancel E j r s) i)" "later (sv_heap s i) (sv_heap (claim_explicit_cancel E j r s) i)"
  "later (sv_heap s i) (sv_heap (settlement_lost E j r s) i)" "later (sv_heap s i) (sv_heap (fail_after_possible_send E j x s) i)"
  by (auto simp: timeout_cancel_def claim_explicit_cancel_def settlement_lost_def fail_after_possible_send_def Let_def ensure_cleanup_def later_def
      fail_before_started_def release_heap split: run_exc.split)

lemma later_ends: "later v (sv_heap t i) \<Longrightarrow> later v (sv_heap (owner_ends j p t) i)"
  by (rule later_trans[OF _ later_op(2)])

lemma later_send: "later (sv_heap s i) (sv_heap (send_done E j r marked s) i)"
proof (cases r)
  case (SendRaised e)
  have l: "later (sv_heap t i) (sv_heap (owner_ends j OwnerDone (fail_after_possible_send E j e t)) i)" for t
    by (rule later_trans[OF later_timeout(4) later_op(2)])
  show ?thesis using SendRaised l[of s] l[of "s\<lparr>sv_live := sv_live s - {j}\<rparr>"] by (cases e) (simp_all add: send_done_def)
next
  case (SendReceipt sid)
  have n: "later (sv_heap s i) (sv_heap (note_receipt j sid s) i)" by (simp add: note_receipt_def Let_def)
  have st: "later v ((settle_started f (v\<lparr>iv_state := x\<rparr>))\<lparr>iv_settling := b, iv_owner := p\<rparr>)" for v f x b p by (simp add: later_def)
  show ?thesis using n SendReceipt
    by (auto simp: send_done_def Let_def mark_started_def intro!: later_ends intro: later_trans[OF _ st] split: sum.split)
qed

lemma later_close:
  "later (sv_heap s i) (sv_heap (fold (\<lambda>(iid, j) s. if iv_cleanup (sv_heap s j) = NoCleanup \<and> \<not> iv_terminal (sv_heap s j)
     then claim_explicit_cancel E j r s else s) xs s) i)"
proof (induction xs arbitrary: s)
  case (Cons x xs)
  then show ?case by (auto simp: split_beta intro: later_trans[OF later_timeout(2)])
qed simp

lemma step_later: "svc_step s s' \<Longrightarrow> i < sv_next s \<Longrightarrow> later (sv_heap s i) (sv_heap s' i)"
proof (induction rule: svc_step.induct)
  case (st_configure p c s s')
  then show ?case by (auto simp: configure_def split: if_splits)
next
  case (st_start E rid q s r s')
  then show ?case using start_heap[of E rid q s r s' i] by simp
next
  case (st_probe j s p c E r)
  then show ?case by (auto simp: probe_done_def send_prompt_def intro: later_trans later_op later_fail split: sum.split)
next
  case (st_hook j s E redact h built)
  then show ?case by (auto simp: hook_done_def intro: later_trans later_op later_fail later_gate split: hook_end.split)
next
  case (st_settled j s E st)
  then show ?case by (auto simp: settled_def Let_def release_heap later_def)
next
  case (st_cancel E iid reason s s')
  then show ?case by (auto simp: cancel_run_def Let_def intro: later_timeout split: option.splits if_splits)
next
  case (st_close s E)
  have "later (sv_heap (s\<lparr>sv_closed := True\<rparr>) i) (sv_heap (fold (\<lambda>(iid, i) s. if iv_cleanup (sv_heap s i) = NoCleanup \<and> \<not> iv_terminal (sv_heap s i)
      then claim_explicit_cancel E i ''shutdown'' s else s) (sv_invocations s) (s\<lparr>sv_closed := True\<rparr>)) i)"
    by (rule later_close)
  then show ?case by (simp add: close_begin_def)
next
  case (st_watch j s E b c)
  have "later (sv_heap s i) (sv_heap (timeout_cancel E j r (upd j (\<lambda>v. v\<lparr>iv_watch := False\<rparr>) s)) i)" for r
    by (rule later_trans[OF _ later_timeout(1)]) simp
  then show ?case by (simp add: watch_turn_def split: option.split)
next
  case (st_cleanup j s)
  then show ?case by (auto simp: cleanup_begin_def later_def split: cleanup.split)
next
  case (st_decide j s E)
  then show ?case by (auto simp: cleanup_decide_def Let_def release_heap later_def observing_def split: cleanup.split option.split)
next
  case (st_adopt s aware now m)
  then show ?case using adopt_runs_heap by simp
qed (auto simp: owner_begin_def acquire_timeout_def owner_interrupted_def watch_begin_def engine_forced_def engine_cancel_done_def owner_stop_done_def
    session_retire_begin_def session_retire_end_def snapshot_hooked_def snapshot_made_def restore_enter_def restore_native_def Let_def
    intro: later_trans later_op later_fail later_acquired later_send later_timeout split: owner.split)

text \<open>
  How far a run is from its end, by what the service itself still has to do for it: the watchdog has to
  begin, then to wake, then the cleanup has to begin, then to be decided. \<open>own_turn\<close> is that next turn, and
  \<open>turn_due\<close> says that its time has come.
\<close>

definition turns_left :: "invocation \<Rightarrow> nat" where
  "turns_left v =
     (if iv_terminal_at v \<noteq> None then 0
      else if \<not> iv_terminal v then (if iv_watch_end v = None then 4 else 3)
      else (case iv_cleanup v of Claimed _ _ \<Rightarrow> 2 | _ \<Rightarrow> 1))"

definition own_turn :: "engine_view \<Rightarrow> rat option \<Rightarrow> (rat \<Rightarrow> string) \<Rightarrow> nat \<Rightarrow> svc \<Rightarrow> svc" where
  "own_turn E progress num i s =
     (let v = sv_heap s i in
      if \<not> iv_terminal v then (if iv_watch_end v = None then watch_begin E i s else watch_turn E progress num i s)
      else (case iv_cleanup v of Claimed _ _ \<Rightarrow> cleanup_begin i s | _ \<Rightarrow> cleanup_decide E i s))"

definition turn_due :: "engine_view \<Rightarrow> invocation \<Rightarrow> bool" where
  "turn_due E v \<longleftrightarrow>
     (if \<not> iv_terminal v then (case iv_watch_end v of None \<Rightarrow> True | Some e \<Rightarrow> e \<le> nv_mono E)
      else (case iv_cleanup v of Claimed _ _ \<Rightarrow> True | _ \<Rightarrow> wait_expired E v))"

lemma turns_never_back:
  assumes "svc_reachable s" "svc_step s s'" "i < sv_next s"
  shows "turns_left (sv_heap s' i) \<le> turns_left (sv_heap s i)"
proof -
  note l = step_later[OF assms(2,3)] and ok = svc_invD(1)[OF svc_reachable_inv[OF assms(1)] assms(3)]
  have "i < sv_next s'" using step_next[OF assms(2)] assms(3) by simp
  then have ok': "ok_at i s'" using svc_step_inv[OF assms(2) svc_reachable_inv[OF assms(1)]] svc_invD(1) by blast
  have c: "iv_terminal (sv_heap s i) \<Longrightarrow> iv_terminal_at (sv_heap s i) = None \<Longrightarrow> iv_cleanup (sv_heap s i) \<noteq> NoCleanup \<and> iv_cleanup (sv_heap s i) \<noteq> CleanupDone"
    "iv_cleanup (sv_heap s' i) = CleanupDone \<Longrightarrow> iv_terminal_at (sv_heap s' i) \<noteq> None"
    using ok ok' unfolding ok_at_def run_ok_def cleanup_ok_def by blast+
  show ?thesis
  proof (cases "iv_terminal_at (sv_heap s' i) = None \<and> iv_terminal (sv_heap s i)")
    case True
    then have t: "iv_terminal_at (sv_heap s i) = None" "iv_terminal (sv_heap s' i)" using l by (auto simp: later_def)
    have "iv_cleanup (sv_heap s' i) = iv_cleanup (sv_heap s i) \<or> (\<exists>r st. iv_cleanup (sv_heap s i) = Claimed r st) \<and> observing (iv_cleanup (sv_heap s' i))"
      using l c t True by (auto simp: later_def)
    then show ?thesis using t True by (auto simp: turns_left_def observing_def split: cleanup.splits)
  qed (use l in \<open>auto simp: turns_left_def later_def split: cleanup.split\<close>)
qed

text \<open>What the watchdog does once its end has come, and the decision once the observation is over.\<close>

lemma watchdog_ends:
  assumes "svc_reachable s" "i < sv_next s" "\<not> iv_terminal (sv_heap s i)" "iv_watch_end (sv_heap s i) = Some e" "e \<le> nv_mono E"
    "iv_terminal_at (sv_heap s i) = None"
  shows "iv_started (sv_heap (watch_turn E progress num i s) i) \<noteq> StartedPending
    \<and> (\<exists>reason. iv_cleanup (sv_heap (watch_turn E progress num i s) i) = Claimed reason RunFailed)
    \<and> iv_force_deadline (sv_heap (watch_turn E progress num i s) i) = Some (nv_mono E + 10)
    \<and> iv_terminal (sv_heap (watch_turn E progress num i s) i) \<and> iv_terminal_at (sv_heap (watch_turn E progress num i s) i) = None"
proof -
  have "watch_fires E e progress num (sv_heap s i) \<noteq> None" using assms(5) by (simp add: watch_fires_def Let_def split: option.split)
  then obtain reason where "watch_fires E e progress num (sv_heap s i) = Some reason" by blast
  then show ?thesis using assms(3,4,6) running_facts[OF svc_invD(1)[OF svc_reachable_inv[OF assms(1)] assms(2)] assms(3)]
    by (simp add: watch_turn_def timeout_cancel_def ensure_cleanup_def cancel_kill_bound_def)
qed

lemma decision_settles:
  assumes "iv_cleanup (sv_heap s i) = Observing r st" "observation_over E (sv_heap s i)"
  shows "iv_terminal_at (sv_heap (cleanup_decide E i s) i) = Some (nv_mono E)
    \<and> (\<not> proof_done (iv_engine_cancel (sv_heap s i)) \<or> \<not> proof_done (iv_owner_stop (sv_heap s i)) \<longrightarrow>
         iv_state (sv_heap (cleanup_decide E i s) i) = RunUnknown \<and> iv_reserved (sv_heap (cleanup_decide E i s) i) = iv_reserved (sv_heap s i))"
  using assms by (cases "cleanup_verdict (sv_heap s i)") (auto simp: cleanup_decide_def Let_def release_heap cleanup_verdict_def split: if_splits)

text \<open>
  C21. The deadline ends every run. Until it has a final outcome, a run always has its own next turn, and at
  most four are left: the watchdog begins, wakes, the cleanup begins, and is decided. Each can be taken
  when its time has come, whatever engine and owner do, and brings the end nearer; and no step of the
  service takes the run further from it. The watchdog ends at
  the time left to the deadline of the request, and never sleeps past that; waking there it answers the
  waiting caller and claims the cleanup, whose clock then ends the kill bound later. The decision, once
  that and the confirmation the engine may have frozen are over, puts down the outcome, unknown and with
  the session still reserved when a proof is missing; before, and with a proof missing, it changes
  nothing.
\<close>

theorem deadline_settles_run:
  assumes "svc_reachable s" "i < sv_next s" "iv_terminal_at (sv_heap s i) = None" "0 < xp_max_stall (iv_public (sv_heap s i))"
  shows "turns_left (sv_heap s i) \<in> {1..4}
    \<and> (\<forall>s'. svc_step s s' \<longrightarrow> turns_left (sv_heap s' i) \<le> turns_left (sv_heap s i))
    \<and> (turn_due E (sv_heap s i) \<longrightarrow> svc_step s (own_turn E progress num i s)
         \<and> turns_left (sv_heap (own_turn E progress num i s) i) < turns_left (sv_heap s i))
    \<and> (turns_left (sv_heap s i) = 4 \<longrightarrow> iv_watch_end (sv_heap (own_turn E progress num i s) i)
         = Some (nv_mono E + of_int (max 0 (sq_deadline_at (iv_request (sv_heap s i)) - nv_utc E)) / 1000000))
    \<and> (\<forall>e. turns_left (sv_heap s i) = 3 \<and> iv_watch_end (sv_heap s i) = Some e \<longrightarrow>
         (if nv_mono E < e then 0 < watch_sleep E e (sv_heap s i) \<and> nv_mono E + watch_sleep E e (sv_heap s i) \<le> e
          else iv_started (sv_heap (own_turn E progress num i s) i) \<noteq> StartedPending
            \<and> (\<exists>reason. iv_cleanup (sv_heap (own_turn E progress num i s) i) = Claimed reason RunFailed)
            \<and> iv_force_deadline (sv_heap (own_turn E progress num i s) i) = Some (nv_mono E + 10)))
    \<and> (turns_left (sv_heap s i) = 1 \<longrightarrow>
         (if proof_done (iv_engine_cancel (sv_heap s i)) \<and> proof_done (iv_owner_stop (sv_heap s i)) \<or> wait_expired E (sv_heap s i)
          then iv_terminal_at (sv_heap (own_turn E progress num i s) i) = Some (nv_mono E)
            \<and> (\<not> proof_done (iv_engine_cancel (sv_heap s i)) \<or> \<not> proof_done (iv_owner_stop (sv_heap s i)) \<longrightarrow>
                 iv_state (sv_heap (own_turn E progress num i s) i) = RunUnknown
                 \<and> iv_reserved (sv_heap (own_turn E progress num i s) i) = iv_reserved (sv_heap s i))
          else own_turn E progress num i s = s))"
proof -
  let ?v = "sv_heap s i" and ?o = "own_turn E progress num i s"
  note ok = svc_invD(1)[OF svc_reachable_inv[OF assms(1)] assms(2)] and nb = turns_never_back[OF assms(1) _ assms(2)]
  consider (fresh) "\<not> iv_terminal ?v" "iv_watch_end ?v = None" | (watched) e where "\<not> iv_terminal ?v" "iv_watch_end ?v = Some e"
    | (claimed) r st where "iv_terminal ?v" "iv_cleanup ?v = Claimed r st" | (observed) r st where "iv_terminal ?v" "iv_cleanup ?v = Observing r st"
    using ok assms(3) by (cases "iv_cleanup ?v"; cases "iv_watch_end ?v") (auto simp: ok_defs)
  then show ?thesis
  proof cases
    case fresh
    then have o: "?o = watch_begin E i s" by (simp add: own_turn_def Let_def)
    have "svc_step s ?o" unfolding o using ok fresh assms(2) by (intro st_watch_begin) (auto simp: ok_defs)
    then show ?thesis using fresh assms(3) nb
      by (simp add: turns_left_def o watch_begin_def remaining_seconds_def remaining_time_def)
  next
    case watched
    then have o: "?o = watch_turn E progress num i s" by (simp add: own_turn_def Let_def)
    have step: "svc_step s ?o" unfolding o using ok watched assms(2) by (intro st_watch) (auto simp: ok_defs)
    note fires = watchdog_ends[OF assms(1,2) watched _ assms(3), of E progress num, folded o]
    have "0 < watch_sleep E e ?v \<and> nv_mono E + watch_sleep E e ?v \<le> e" if "nv_mono E < e"
      using that assms(4) by (simp add: watch_sleep_def min_def)
    then show ?thesis using watched assms(3) step fires nb by (auto simp: turns_left_def turn_due_def)
  next
    case claimed
    then have o: "?o = cleanup_begin i s" by (simp add: own_turn_def Let_def)
    have "svc_step s ?o" unfolding o by (rule st_cleanup[OF assms(2)])
    then show ?thesis using claimed assms(3) nb by (simp add: turns_left_def o cleanup_begin_def)
  next
    case observed
    then have o: "?o = cleanup_decide E i s" by (simp add: own_turn_def Let_def)
    have step: "svc_step s ?o" unfolding o by (rule st_decide[OF assms(2)])
    note settled = decision_settles[OF observed(2), of E, folded o]
    show ?thesis using observed assms(3) step nb settled
      by (auto simp: turns_left_def turn_due_def observation_over_def o cleanup_decide_def Let_def)
  qed
qed

text \<open>The run of the unit above, in the engine while the deadline passes: no proof ever comes.\<close>

definition demo_clock :: "rat \<Rightarrow> engine_view" where
  "demo_clock t = demo_view\<lparr>nv_mono := t\<rparr>"

definition demo_watched :: svc where
  "demo_watched = watch_begin demo_view 0 demo_sent"

definition demo_stuck :: svc where
  "demo_stuck = cleanup_begin 0 (watch_turn (demo_clock 2) None (\<lambda>_. []) 0 demo_watched)"

lemma demo_watched_reachable: "svc_reachable demo_watched"
proof -
  have "svc_step demo_sent demo_watched" unfolding demo_watched_def
    by (rule st_watch_begin) (simp_all add: demo_sent_view demo_probing_view new_invocation_def)
  then show ?thesis using demo_reachable(2) unfolding svc_reachable_def by (meson rtranclp.rtrancl_into_rtrancl)
qed

lemma demo_watched_view:
  "sv_heap demo_watched 0 = (sv_heap demo_sent 0)\<lparr>iv_watch_end := Some (1 + 2 / 1000000)\<rparr>" "sv_next demo_watched = 1"
  by (simp_all add: demo_watched_def watch_begin_def remaining_seconds_def remaining_time_def demo_sent_view demo_probing_view new_invocation_def
      example_start_def demo_view_def)

lemma demo_watched_on: "0 < sv_next demo_watched" "iv_watch (sv_heap demo_watched 0)"
  by (simp_all add: demo_watched_view demo_sent_view demo_probing_view new_invocation_def)

theorem deadline_settles_run_witness:
  "iv_force_deadline (sv_heap (own_turn (demo_clock 2) None (\<lambda>_. []) 0 demo_watched) 0) = Some 12
   \<and> iv_started (sv_heap (own_turn (demo_clock 2) None (\<lambda>_. []) 0 demo_watched) 0) \<noteq> StartedPending
   \<and> iv_state (sv_heap (own_turn (demo_clock 12) None (\<lambda>_. []) 0 demo_stuck) 0) = RunUnknown
   \<and> own_turn (demo_clock 11) None (\<lambda>_. []) 0 demo_stuck = demo_stuck"
proof -
  have w: "0 < sv_next demo_watched" "iv_terminal_at (sv_heap demo_watched 0) = None" "0 < xp_max_stall (iv_public (sv_heap demo_watched 0))"
    "turns_left (sv_heap demo_watched 0) = 3"
    by (simp_all add: demo_watched_view demo_sent_view demo_probing_view new_invocation_def demo_public_def turns_left_def)
  obtain e where e: "iv_watch_end (sv_heap demo_watched 0) = Some e" "e \<le> 2"
    by (rule that[of "1 + 2 / 1000000"]) (simp_all add: demo_watched_view)
  let ?t = "watch_turn (demo_clock 2) None (\<lambda>_. []) 0 demo_watched"
  have t: "svc_reachable ?t"
    using demo_watched_reachable st_watch[of 0 demo_watched "demo_clock 2" None "\<lambda>_. []"] unfolding svc_reachable_def
    by (meson rtranclp.rtrancl_into_rtrancl demo_watched_on)
  have n: "sv_next ?t = 1" by (simp add: demo_watched_view)
  have r: "svc_reachable demo_stuck"
    using t st_cleanup[of 0 ?t] n unfolding svc_reachable_def demo_stuck_def by (metis less_one rtranclp.rtrancl_into_rtrancl)
  have s: "0 < sv_next demo_stuck" "iv_terminal_at (sv_heap demo_stuck 0) = None" "0 < xp_max_stall (iv_public (sv_heap demo_stuck 0))"
    "turns_left (sv_heap demo_stuck 0) = 1" "iv_engine_cancel (sv_heap demo_stuck 0) = TaskPending"
    "iv_force_deadline (sv_heap demo_stuck 0) = Some 12" "iv_confirm_deadline (sv_heap demo_stuck 0) = None"
    by (simp_all add: demo_stuck_def n cleanup_begin_def watch_turn_def watch_fires_def timeout_cancel_def ensure_cleanup_def settle_started_def
        demo_watched_view demo_sent_view demo_probing_view new_invocation_def demo_public_def demo_clock_def demo_view_def turns_left_def
        cancel_kill_bound_def)
  note 1 = deadline_settles_run[OF demo_watched_reachable w(1-3), of "demo_clock 2" None "\<lambda>_. []"]
    and 2 = deadline_settles_run[OF r s(1-3), of "demo_clock 12" None "\<lambda>_. []"]
    and 3 = deadline_settles_run[OF r s(1-3), of "demo_clock 11" None "\<lambda>_. []"]
  have "nv_mono (demo_clock t) = t" for t by (simp add: demo_clock_def)
  then show ?thesis using 1 2 3 w(4) e s(4-7) by (simp add: proof_done_def wait_expired_def)
qed

section \<open>Restored runs\<close>

lemma parse_dumped_started: "parse_started (JObj (dump_started r)) = Inr r"
  by (simp add: parse_started_def dump_started_def parse_simps)

lemma run_record_fields [simp]:
  "run_field ''request'' (run_record show_time v) = JObj (dump_start_request show_time (iv_request v))"
  "run_field ''started'' (run_record show_time v) = started_record v" "run_field ''runId'' (run_record show_time v) = JStr (iv_run_id v)"
  "run_field ''state'' (run_record show_time v) = JStr (state_name (iv_state v))"
  "run_field ''error'' (run_record show_time v) = opt_json JStr (iv_error v)" "run_field ''result'' (run_record show_time v) = iv_result v"
  by (simp_all add: run_field_def run_record_def Let_def dict_get_def)

lemma known_state_name: "st \<in> known_terminal \<Longrightarrow> known_state (JStr (state_name st)) = Some st"
  using state_name_roundtrip[of st] by (simp add: known_state_def state_name_def)

text \<open>
  C22. A run that ended with a known outcome survives the suspension of its session. The record that a snapshot keeps of it
  is adopted by a unit that does not know it, which then answers for it exactly as the old one did: the
  same status and result, the same receipt, or, when it had ended before there was a receipt, the
  failure its record gives. A repeated start with the original request joins the restored run; nothing is sent
  again. The record of any other run, one whose outcome is unknown or that is not over, is refused.
\<close>

theorem restored_run_answers:
  assumes "\<And>t. aware (show_time t) = Some t" "start_request_ok (iv_request v)" "iv_run_id v \<noteq> []"
    "\<And>r. iv_started v = StartedResult r \<Longrightarrow> r = receipt_of v" "map_of (sv_invocations s) (sq_invocation_id (iv_request v)) = None"
    "\<not> sv_frozen s" "\<not> sv_closed s" "sv_workspace_ref s \<in> {None, Some (sq_workspace_ref (iv_request v))}"
  shows "if iv_state v \<in> known_terminal
    then \<exists>s'. adopt_restored_run aware now (JObj (run_record show_time v)) s = Inr s'
      \<and> status_of (sq_invocation_id (iv_request v)) s' = Some (run_status_of v)
      \<and> iv_started (sv_heap s' (sv_next s)) = (case iv_started v of StartedResult r \<Rightarrow> StartedResult r
          | _ \<Rightarrow> StartedFailed (ExcOther (lost_reason (run_record show_time v))))
      \<and> start_run E rid (iv_request v) s' = (Inr (sv_next s), s') \<and> sv_sends s' = sv_sends s
    else \<exists>e. adopt_restored_run aware now (JObj (run_record show_time v)) s = Inl e"
proof -
  have started: "restored_started (iv_request v) (run_record show_time v) = Inr (case iv_started v of StartedResult r \<Rightarrow> StartedResult r
          | _ \<Rightarrow> StartedFailed (ExcOther (lost_reason (run_record show_time v))))"
    using assms(4) by (cases "iv_started v") (simp_all add: restored_started_def started_record_def parse_dumped_started receipt_of_def)
  have err: "opt_str (opt_json JStr e) = e" for e by (cases e) (simp_all add: opt_str_def opt_json_def)
  have fresh: "\<not> dict_has (sv_invocations s) (sq_invocation_id (iv_request v))" using assms(5) by (simp add: dict_has_def)
  have unknown: "known_state (JStr (state_name (iv_state v))) = None" if "iv_state v \<notin> known_terminal"
    using that state_name_roundtrip[of "iv_state v"] by (simp add: known_state_def state_name_def)
  show ?thesis
  proof (cases "iv_state v \<in> known_terminal")
    case True
    then show ?thesis using fresh assms(3,5-8)
      by (auto simp: adopt_restored_run_def parse_dumped_request[OF assms(1,2)] known_state_name started bind_res_def Let_def err
          status_of_def run_status_of_def new_invocation_def start_run_def split: option.split)
  next
    case False
    then show ?thesis using fresh unknown
      by (simp add: adopt_restored_run_def parse_dumped_request[OF assms(1,2)])
  qed
qed

theorem restored_run_answers_witness:
  "(\<exists>s'. adopt_restored_run tick_read 5 (JObj (run_record tick_time (sv_heap demo_ended 0))) (new_service None) = Inr s'
      \<and> status_of ''i'' s' = Some (run_status_of (sv_heap demo_ended 0)))
   \<and> (\<exists>e. adopt_restored_run tick_read 5 (JObj (run_record tick_time (sv_heap demo_sent 0))) (new_service None) = Inl e)"
proof -
  have a: "tick_read (tick_time t) = Some t" for t by (simp add: tick_read_def tick_time_def)
  have "hex64 (replicate 64 (CHR ''a''))" by code_simp
  then have "start_request_ok example_start" by (simp add: start_request_ok_def example_start_def)
  moreover have e: "iv_request (sv_heap demo_ended 0) = example_start" "iv_run_id (sv_heap demo_ended 0) \<noteq> []"
      "\<And>r. iv_started (sv_heap demo_ended 0) = StartedResult r \<Longrightarrow> r = receipt_of (sv_heap demo_ended 0)" "iv_state (sv_heap demo_ended 0) \<in> known_terminal"
    using demo_ended_view(9) by (simp_all add: demo_ended_view(3,7,8) known_terminal_def)
  moreover have p: "iv_request (sv_heap demo_sent 0) = example_start" "iv_run_id (sv_heap demo_sent 0) \<noteq> []"
      "\<And>r. iv_started (sv_heap demo_sent 0) = StartedResult r \<Longrightarrow> r = receipt_of (sv_heap demo_sent 0)" "iv_state (sv_heap demo_sent 0) \<notin> known_terminal"
    by (simp_all add: demo_sent_view demo_probing_view new_invocation_def known_terminal_def)
  moreover have "sq_invocation_id example_start = ''i''" by (simp add: example_start_def)
  ultimately show ?thesis
    using restored_run_answers[where aware = tick_read and show_time = tick_time and s = "new_service None" and v = "sv_heap demo_ended 0" and now = 5, OF a]
      restored_run_answers[where aware = tick_read and show_time = tick_time and s = "new_service None" and v = "sv_heap demo_sent 0" and now = 5, OF a]
    by simp blast
qed

section \<open>The probe of the MCP servers\<close>

definition mcp_missing :: "(nat \<Rightarrow> string \<Rightarrow> (string, int) result) \<Rightarrow> nat \<Rightarrow> nat \<Rightarrow> string list \<Rightarrow> string list" where
  "mcp_missing probe n k names = filter (\<lambda>m. \<forall>j < k. \<not> tools_found (probe (n + j) m)) names"

lemma mcp_missing_Suc: "mcp_missing probe (Suc n) k (filter (\<lambda>m. \<not> tools_found (probe n m)) names) = mcp_missing probe n (Suc k) names"
  unfolding mcp_missing_def filter_filter by (rule filter_cong) (auto simp: All_less_Suc2)

lemma probe_rounds_reasons:
  "ds \<noteq> [] \<Longrightarrow>
   probe_rounds ds probe n names reasons =
     (let miss = mcp_missing probe n (length ds) names in
      if miss = [] then Inr ()
      else Inl (''mcp tools unavailable: '' @ join '', '' (map (\<lambda>m. m @ '' ('' @ probe_reason (probe (n + length ds - 1) m) @ '')'') (sort miss))))"
proof (induction ds arbitrary: n names reasons)
  case (Cons d ds)
  let ?names = "filter (\<lambda>m. \<not> tools_found (probe n m)) names"
  show ?case
  proof (cases "ds = []")
    case True
    have "mcp_missing probe n 1 names = ?names" by (simp add: mcp_missing_def)
    then show ?thesis using True by (auto simp: Let_def intro!: arg_cong[of _ _ "join _"] map_cong)
  next
    case False
    have "mcp_missing probe (Suc n) (length ds) [] = []" by (simp add: mcp_missing_def)
    then show ?thesis using Cons.IH[OF False, of "Suc n" ?names] False mcp_missing_Suc[of probe n "length ds" names]
      by (auto simp: Let_def)
  qed
qed simp

text \<open>
  The probe lets a run through exactly when every MCP server of its catalog has listed a tool in one of the
  three rounds. Otherwise the run fails with an error that names, in order, the servers that never did, each
  with the reason of its last round.
\<close>

theorem mcp_probe_exact:
  assumes "mcp_servers catalog = Some names"
  shows "require_mcp_tools catalog probe =
    (let miss = filter (\<lambda>m. \<forall>j < 3. \<not> tools_found (probe j m)) names in
     if miss = [] then Inr ()
     else Inl (''mcp tools unavailable: '' @ join '', '' (map (\<lambda>m. m @ '' ('' @ probe_reason (probe 2 m) @ '')'') (sort miss))))"
proof -
  have "length mcp_delays = 3" "0 + (3 :: nat) - 1 = 2" "mcp_delays \<noteq> []" by (simp_all add: mcp_delays_def)
  then show ?thesis using assms probe_rounds_reasons[of mcp_delays probe 0 names "\<lambda>_. []"]
    by (simp only: require_mcp_tools_def mcp_missing_def option.case add_0 not_False_eq_True)
qed

theorem mcp_probe_exact_witness:
  "require_mcp_tools (Some [(''mcp'', JObj [(''b'', JObj [(''url'', JStr ''u'')]), (''a'', JObj [(''url'', JStr ''v'')])])])
     (\<lambda>n m. if m = ''b'' \<and> n = 1 then Inr 2 else Inr 0) = Inl ''mcp tools unavailable: a (0 tools)''"
proof -
  have "mcp_servers (Some [(''mcp'', JObj [(''b'', JObj [(''url'', JStr ''u'')]), (''a'', JObj [(''url'', JStr ''v'')])])]) = Some [''b'', ''a'']"
    by (simp add: mcp_servers_def dict_get_def)
  from mcp_probe_exact[OF this, of "\<lambda>n m. if m = ''b'' \<and> n = 1 then Inr 2 else Inr 0"] show ?thesis
    by (simp add: tools_found_def probe_reason_def numeral_eq_Suc All_less_Suc2)
qed

end
