(* ===== verification/Prompt.thy ===== *)
theory Prompt
  imports Templating Json_Text "HOL-Library.List_Lexorder" "HOL-Library.Char_ord"
begin

text \<open>
  The prompt of a run, \<open>_render_prompt\<close> of \<open>harness/control.py\<close>: text with tokens \<open>{{ path }}\<close>, \<open>{{ path | default("...") }}\<close> and
  \<open>{{ path | json }}\<close>. What renders is exactly a sequence of clean literals and tokens, and its result is the
  concatenation of their values.
\<close>

section \<open>Printed JSON\<close>

text \<open>\<open>json.dumps(v, ensure_ascii=False, sort_keys=True)\<close>.\<close>

definition json_float :: "pyfloat \<Rightarrow> string" where
  "json_float f = (case f of PyFin t v \<Rightarrow> t | PyInf neg \<Rightarrow> (if neg then ''-Infinity'' else ''Infinity'') | PyNan \<Rightarrow> ''NaN'')"

fun json_sorted :: "json \<Rightarrow> string" where
  "json_sorted JNull = ''null''"
| "json_sorted (JBool b) = (if b then ''true'' else ''false'')"
| "json_sorted (JInt i) = int_str i"
| "json_sorted (JFloat f) = json_float f"
| "json_sorted (JStr s) = json_quote False s"
| "json_sorted (JList xs) = ''['' @ join '', '' (map json_sorted xs) @ '']''"
| "json_sorted (JObj d) =
     ''{'' @ join '', '' (map (\<lambda>kt. json_quote False (fst kt) @ '': '' @ snd kt) (sort_key fst (map (\<lambda>kv. (fst kv, json_sorted (snd kv))) d))) @ ''}''"

section \<open>Tokens\<close>

datatype token_mod = PlainTok | DefaultTok string | JsonTok

datatype prompt_error = UnsupportedSyntax | PromptPath template_error

text \<open>
  The pattern \<open>_TEMPLATE\<close> at the start of a text. It never has to give back characters: white space, path characters,
  bars, quotes and braces are disjoint, so each part takes the longest text it can.
\<close>

definition token_close :: "string \<Rightarrow> string option" where
  "token_close s = (let t = dropWhile is_space s in if prefix close_delim t then Some (drop 2 t) else None)"

definition token_default :: "string \<Rightarrow> (string \<times> string) option" where
  "token_default s =
     (let t = dropWhile is_space s in
      if \<not> prefix [chr 34] t then None
      else
        let body = takeWhile (\<lambda>c. c \<noteq> chr 34) (tl t); u = dropWhile (\<lambda>c. c \<noteq> chr 34) (tl t); w = dropWhile is_space (tl u) in
        if u = [] \<or> \<not> prefix '')'' w then None else Some (body, tl w))"

definition token_modifier :: "string \<Rightarrow> (token_mod \<times> string) option" where
  "token_modifier s =
     (let t = dropWhile is_space s; u = dropWhile is_space (tl t) in
      if \<not> prefix ''|'' t then None
      else if prefix ''default('' u then map_option (\<lambda>(d, w). (DefaultTok d, w)) (token_default (drop 8 u))
      else if prefix ''json'' u then Some (JsonTok, drop 4 u)
      else None)"

definition match_token :: "string \<Rightarrow> (string \<times> token_mod \<times> string) option" where
  "match_token s =
     (if \<not> prefix open_delim s then None
      else
        let t = dropWhile is_space (drop 2 s); path = takeWhile path_char t; r = dropWhile path_char t in
        if path = [] then None
        else case token_modifier r of
          Some (m, u) \<Rightarrow> map_option (\<lambda>w. (path, m, w)) (token_close u)
        | None \<Rightarrow> map_option (\<lambda>w. (path, PlainTok, w)) (token_close r))"

text \<open>\<open>finditer\<close>: the literal before the leftmost match, the match, and the text after it.\<close>

fun next_token :: "string \<Rightarrow> (string \<times> string \<times> token_mod \<times> string) option" where
  "next_token [] = None"
| "next_token (c # s) =
     (case match_token (c # s) of
        Some (path, m, r) \<Rightarrow> Some ([], path, m, r)
      | None \<Rightarrow> map_option (\<lambda>(lit, x). (c # lit, x)) (next_token s))"

section \<open>Rendering\<close>

definition token_value :: "dict \<Rightarrow> string \<Rightarrow> token_mod \<Rightarrow> (prompt_error, string) result" where
  "token_value ctx path m =
     (let default = (case m of DefaultTok d \<Rightarrow> d | _ \<Rightarrow> []) in
      case resolve_path ctx path of
        Inl e \<Rightarrow> Inl (PromptPath e)
      | Inr None \<Rightarrow> Inr default
      | Inr (Some v) \<Rightarrow> Inr (if m = JsonTok then json_sorted v else if is_scalar v then py_str v else default))"

definition clean :: "string \<Rightarrow> bool" where
  "clean s \<longleftrightarrow> \<not> contains open_delim s \<and> \<not> contains close_delim s"

text \<open>The tokens as a grammar, and that the matcher reads exactly them.\<close>

abbreviation spaces :: "string \<Rightarrow> bool" where "spaces s \<equiv> \<forall>c \<in> set s. is_space c"

inductive modifier_text :: "string \<Rightarrow> token_mod \<Rightarrow> bool" where
  "modifier_text [] PlainTok"
| "spaces a \<Longrightarrow> spaces b \<Longrightarrow> modifier_text (a @ ''|'' @ b @ ''json'') JsonTok"
| "spaces a \<Longrightarrow> spaces b \<Longrightarrow> spaces c \<Longrightarrow> spaces e \<Longrightarrow> chr 34 \<notin> set d \<Longrightarrow>
   modifier_text (a @ ''|'' @ b @ ''default('' @ c @ [chr 34] @ d @ [chr 34] @ e @ '')'') (DefaultTok d)"

inductive token_text :: "string \<Rightarrow> string \<Rightarrow> token_mod \<Rightarrow> bool" where
  "spaces a \<Longrightarrow> path \<noteq> [] \<Longrightarrow> \<forall>c \<in> set path. path_char c \<Longrightarrow> modifier_text mt m \<Longrightarrow> spaces b \<Longrightarrow>
   token_text (open_delim @ a @ path @ mt @ b @ close_delim) path m"

lemma sp_facts [simp]:
  "\<not> is_space CHR ''}''" "\<not> is_space CHR ''{''" "\<not> is_space CHR ''|''" "\<not> is_space (chr 34)" "\<not> is_space CHR '')''" "\<not> is_space CHR ''j''" "\<not> is_space CHR ''d''"
  "\<not> path_char CHR ''}''" "\<not> path_char CHR ''{''" "\<not> path_char CHR ''|''"
  by code_simp+

lemma space_not_path: "is_space c \<Longrightarrow> \<not> path_char c"
  by (auto simp: is_space_def path_char_def char_class_defs Let_def)

lemma drop_spaces [simp]: "spaces a \<Longrightarrow> dropWhile is_space (a @ t) = dropWhile is_space t"
  by (rule dropWhile_append2) simp

lemma spaces_split: obtains a where "spaces a" "s = a @ dropWhile is_space s"
  by (metis takeWhile_dropWhile_id set_takeWhileD)

lemma token_close_iff: "token_close s = Some r \<longleftrightarrow> (\<exists>b. spaces b \<and> s = b @ close_delim @ r)"
proof
  assume h: "token_close s = Some r"
  obtain b where b: "spaces b" "s = b @ dropWhile is_space s" by (rule spaces_split)
  from h have "dropWhile is_space s = close_delim @ r" by (auto simp: token_close_def Let_def close_delim_def prefix_def split: if_splits)
  then show "\<exists>b. spaces b \<and> s = b @ close_delim @ r" using b by metis
qed (auto simp: token_close_def close_delim_def)

lemma token_default_iff:
  "token_default s = Some (d, r) \<longleftrightarrow> (\<exists>c e. spaces c \<and> spaces e \<and> chr 34 \<notin> set d \<and> s = c @ [chr 34] @ d @ [chr 34] @ e @ '')'' @ r)"
proof
  assume h: "token_default s = Some (d, r)"
  obtain c where c: "spaces c" "s = c @ dropWhile is_space s" by (rule spaces_split)
  let ?t = "dropWhile is_space s"
  have t: "?t = chr 34 # tl ?t" using h by (auto simp: token_default_def Let_def prefix_def split: if_splits)
  let ?u = "dropWhile (\<lambda>c. c \<noteq> chr 34) (tl ?t)"
  have u: "?u \<noteq> []" and d: "d = takeWhile (\<lambda>c. c \<noteq> chr 34) (tl ?t)" and w: "prefix '')'' (dropWhile is_space (tl ?u))" and r: "r = tl (dropWhile is_space (tl ?u))"
    using h by (auto simp: token_default_def Let_def split: if_splits)
  have "hd ?u = chr 34" using u hd_dropWhile[of "\<lambda>c. c \<noteq> chr 34" "tl ?t"] by blast
  then have u': "?u = chr 34 # tl ?u" using u by (metis list.collapse)
  obtain e where e: "spaces e" "tl ?u = e @ dropWhile is_space (tl ?u)" by (rule spaces_split)
  have "tl ?t = d @ ?u" unfolding d by simp
  moreover have "dropWhile is_space (tl ?u) = CHR '')'' # r" using w r by (auto simp: prefix_def)
  ultimately have "s = c @ [chr 34] @ d @ [chr 34] @ e @ '')'' @ r" using c(2) t u' e(2) by (metis append_Cons append_Nil)
  moreover have "chr 34 \<notin> set d" unfolding d by (metis (mono_tags, lifting) set_takeWhileD)
  ultimately show "\<exists>c e. spaces c \<and> spaces e \<and> chr 34 \<notin> set d \<and> s = c @ [chr 34] @ d @ [chr 34] @ e @ '')'' @ r" using c(1) e(1) by blast
next
  assume "\<exists>c e. spaces c \<and> spaces e \<and> chr 34 \<notin> set d \<and> s = c @ [chr 34] @ d @ [chr 34] @ e @ '')'' @ r"
  then obtain c e where s: "spaces c" "spaces e" "chr 34 \<notin> set d" "s = c @ [chr 34] @ d @ [chr 34] @ e @ '')'' @ r" by blast
  have "takeWhile (\<lambda>c. c \<noteq> chr 34) (d @ chr 34 # x) = d" "dropWhile (\<lambda>c. c \<noteq> chr 34) (d @ chr 34 # x) = chr 34 # x" for x
    using s(3) by (metis (mono_tags, lifting) takeWhile.simps(2) takeWhile_append2 append_Nil2, metis (mono_tags, lifting) dropWhile.simps(2) dropWhile_append2)
  then show "token_default s = Some (d, r)" using s(1,2) by (simp add: s(4) token_default_def)
qed

lemma token_modifier_iff:
  "token_modifier s = Some (m, r) \<longleftrightarrow> m \<noteq> PlainTok \<and> (\<exists>mt. modifier_text mt m \<and> s = mt @ r)"
proof
  assume h: "token_modifier s = Some (m, r)"
  obtain a where a: "spaces a" "s = a @ dropWhile is_space s" by (rule spaces_split)
  have t: "dropWhile is_space s = CHR ''|'' # tl (dropWhile is_space s)" using h by (auto simp: token_modifier_def Let_def prefix_def split: if_splits)
  obtain b where b: "spaces b" "tl (dropWhile is_space s) = b @ dropWhile is_space (tl (dropWhile is_space s))" by (rule spaces_split)
  let ?u = "dropWhile is_space (tl (dropWhile is_space s))"
  have s: "s = a @ ''|'' @ b @ ?u" using a(2) t b(2) by (metis append_Cons append_Nil)
  show "m \<noteq> PlainTok \<and> (\<exists>mt. modifier_text mt m \<and> s = mt @ r)"
  proof (cases "prefix ''default('' ?u")
    case True
    then have u: "?u = ''default('' @ drop 8 ?u" by (auto simp: prefix_def)
    from h True obtain d where d: "token_default (drop 8 ?u) = Some (d, r)" "m = DefaultTok d"
      by (auto simp: token_modifier_def Let_def split: if_splits)
    then obtain c e where x: "spaces c" "spaces e" "chr 34 \<notin> set d" "drop 8 ?u = c @ [chr 34] @ d @ [chr 34] @ e @ '')'' @ r"
      by (auto simp: token_default_iff)
    have "s = (a @ ''|'' @ b @ ''default('' @ c @ [chr 34] @ d @ [chr 34] @ e @ '')'') @ r" using s u x(4) by (metis append_assoc)
    then show ?thesis using modifier_text.intros(3)[OF a(1) b(1) x(1,2,3)] d(2) by blast
  next
    case False
    then have u: "?u = ''json'' @ r" "m = JsonTok" using h by (auto simp: token_modifier_def Let_def prefix_def split: if_splits)
    then have "s = (a @ ''|'' @ b @ ''json'') @ r" using s by (metis append_assoc)
    then show ?thesis using modifier_text.intros(2)[OF a(1) b(1)] u(2) by blast
  qed
next
  assume "m \<noteq> PlainTok \<and> (\<exists>mt. modifier_text mt m \<and> s = mt @ r)"
  then obtain mt where m: "modifier_text mt m" "s = mt @ r" "m \<noteq> PlainTok" by blast
  from m(1) show "token_modifier s = Some (m, r)"
  proof cases
    case 1
    then show ?thesis using m(3) by simp
  next
    case (2 a b)
    then show ?thesis using m(2) by (simp add: token_modifier_def)
  next
    case (3 a b c e d)
    have "token_default (c @ [chr 34] @ d @ [chr 34] @ e @ '')'' @ r) = Some (d, r)" using 3 by (auto simp: token_default_iff)
    then show ?thesis using m(2) 3 by (simp add: token_modifier_def)
  qed
qed

lemma modifier_bar: "modifier_text mt m \<Longrightarrow> m \<noteq> PlainTok \<Longrightarrow> \<exists>a x. spaces a \<and> mt = a @ CHR ''|'' # x"
  by (cases rule: modifier_text.cases) auto

lemma not_path_next:
  assumes "modifier_text mt m" "spaces b"
  shows "\<exists>c x. mt @ b @ close_delim @ r = c # x \<and> \<not> path_char c"
proof (cases "m = PlainTok")
  case True
  then have "mt = []" using assms(1) by (auto elim: modifier_text.cases)
  then show ?thesis using assms(2) by (cases b) (auto simp: close_delim_def space_not_path)
next
  case False
  then obtain a x where "spaces a" "mt = a @ CHR ''|'' # x" using modifier_bar[OF assms(1)] by blast
  then show ?thesis by (cases a) (auto simp: space_not_path)
qed

lemma match_token_text: "token_text w path m \<Longrightarrow> match_token (w @ r) = Some (path, m, r)"
proof (induction rule: token_text.induct)
  case (1 a p mt m' b)
  have d: "dropWhile is_space (a @ p @ x) = p @ x" for x using 1 space_not_path by (cases p) auto
  have p: "takeWhile path_char (p @ mt @ b @ close_delim @ r) = p" "dropWhile path_char (p @ mt @ b @ close_delim @ r) = mt @ b @ close_delim @ r"
    using 1 not_path_next[of mt m' b r] by (metis takeWhile_append2 takeWhile.simps(2) append_Nil2, metis dropWhile_append2 dropWhile.simps(2))
  have c: "token_close (b @ close_delim @ r) = Some r" using 1 by (auto simp: token_close_iff)
  show ?case
  proof (cases "m' = PlainTok")
    case True
    then have mt: "mt = []" using 1 by (auto elim: modifier_text.cases)
    have "token_modifier (b @ close_delim @ r) = None" using 1 by (simp add: token_modifier_def close_delim_def)
    then show ?thesis using 1 True d p c mt by (simp add: match_token_def open_delim_def)
  next
    case False
    then have "token_modifier (mt @ b @ close_delim @ r) = Some (m', b @ close_delim @ r)" using 1 by (auto simp: token_modifier_iff)
    then show ?thesis using 1 d p c by (simp add: match_token_def open_delim_def)
  qed
qed

lemma match_token_sound:
  assumes "match_token s = Some (path, m, r)"
  shows "\<exists>w. token_text w path m \<and> s = w @ r"
proof -
  have o: "s = open_delim @ drop 2 s" using assms by (auto simp: match_token_def open_delim_def prefix_def split: if_splits)
  obtain a where a: "spaces a" "drop 2 s = a @ dropWhile is_space (drop 2 s)" by (rule spaces_split)
  let ?t = "dropWhile is_space (drop 2 s)"
  have p: "path = takeWhile path_char ?t" "path \<noteq> []" using assms by (auto simp: match_token_def Let_def split: if_splits option.splits)
  have pc: "\<forall>c \<in> set path. path_char c" unfolding p(1) by (metis set_takeWhileD)
  let ?r = "dropWhile path_char ?t"
  have t: "?t = path @ ?r" unfolding p(1) by simp
  have "\<exists>mt b. modifier_text mt m \<and> spaces b \<and> ?r = mt @ b @ close_delim @ r"
  proof (cases "token_modifier ?r")
    case None
    then have "token_close ?r = Some r" "m = PlainTok" using assms by (auto simp: match_token_def Let_def split: if_splits)
    then show ?thesis using modifier_text.intros(1) by (metis append_Nil token_close_iff)
  next
    case (Some mu)
    then obtain u where u: "token_modifier ?r = Some (m, u)" "token_close u = Some r"
      using assms by (auto simp: match_token_def Let_def split: if_splits prod.splits)
    then show ?thesis by (auto simp: token_modifier_iff token_close_iff)
  qed
  then obtain mt b where mt: "modifier_text mt m" "spaces b" "?r = mt @ b @ close_delim @ r" by blast
  have "s = (open_delim @ a @ path @ mt @ b @ close_delim) @ r" using o a(2) t mt(3) by (metis append_assoc)
  then show ?thesis using token_text.intros[OF a(1) p(2) pc mt(1,2)] by blast
qed

section \<open>Templates\<close>

lemma next_token_shorter: "next_token s = Some (lit, path, m, r) \<Longrightarrow> length r < length s"
proof (induction s arbitrary: lit)
  case (Cons c s)
  show ?case
  proof (cases "match_token (c # s)")
    case None
    then show ?thesis using Cons by fastforce
  next
    case (Some x)
    then obtain w where "token_text w path m" "c # s = w @ r" using Cons.prems match_token_sound by (fastforce split: prod.splits)
    then show ?thesis by (cases rule: token_text.cases) (auto simp: open_delim_def)
  qed
qed simp

function render_prompt :: "string \<Rightarrow> dict \<Rightarrow> (prompt_error, string) result" where
  "render_prompt template ctx =
     (case next_token template of
        None \<Rightarrow> if clean template then Inr template else Inl UnsupportedSyntax
      | Some (lit, path, m, rest) \<Rightarrow>
          if \<not> clean lit then Inl UnsupportedSyntax
          else bind_res (token_value ctx path m) (\<lambda>v. bind_res (render_prompt rest ctx) (\<lambda>u. Inr (lit @ v @ u))))"
  by pat_completeness auto
termination
  by (relation "measure (\<lambda>(t, c). length t)") (auto dest: next_token_shorter)

declare render_prompt.simps [simp del]

text \<open>What a template stands for.\<close>

inductive renders :: "dict \<Rightarrow> string \<Rightarrow> string \<Rightarrow> bool" for ctx where
  renders_end: "clean s \<Longrightarrow> renders ctx s s"
| renders_token: "clean lit \<Longrightarrow> token_text w path m \<Longrightarrow> token_value ctx path m = Inr v \<Longrightarrow> renders ctx t u \<Longrightarrow> renders ctx (lit @ w @ t) (lit @ v @ u)"

lemma clean_tl: "clean (c # s) \<Longrightarrow> clean s"
  by (auto simp: clean_def contains_def find_sub.simps[of _ "c # s"] split: if_splits)

lemma clean_no_open: "clean s \<Longrightarrow> \<not> prefix open_delim s"
  by (auto simp: clean_def contains_def find_sub.simps[of open_delim s])

lemma next_token_clean: "clean s \<Longrightarrow> next_token s = None"
proof (induction s)
  case (Cons c s)
  then show ?case using clean_tl[OF Cons.prems] clean_no_open[OF Cons.prems] by (simp add: match_token_def)
qed simp

lemma no_match_inside:
  assumes "clean (c # lit)" "token_text w path m"
  shows "match_token (c # lit @ w @ t) = None"
proof (cases lit)
  case Nil
  obtain x where "w = ''{{'' @ x" using assms(2) by (cases rule: token_text.cases) (auto simp: open_delim_def)
  then show ?thesis using Nil by (auto simp: match_token_def open_delim_def Let_def)
next
  case (Cons d l)
  then have "\<not> prefix open_delim (c # lit @ w @ t)" using clean_no_open[OF assms(1)] by (auto simp: open_delim_def prefix_def)
  then show ?thesis by (simp add: match_token_def)
qed

lemma next_token_at: "clean lit \<Longrightarrow> token_text w path m \<Longrightarrow> next_token (lit @ w @ t) = Some (lit, path, m, t)"
proof (induction lit)
  case Nil
  from Nil(2) obtain c x where "w = c # x" by (cases rule: token_text.cases) (auto simp: open_delim_def)
  then show ?case using match_token_text[OF Nil(2), of t] by simp
next
  case (Cons c lit)
  then show ?case using clean_tl no_match_inside[of c lit w path m t] by simp
qed

lemma next_token_sound:
  "next_token s = Some (lit, path, m, t) \<Longrightarrow> \<exists>w. token_text w path m \<and> s = lit @ w @ t"
proof (induction s arbitrary: lit)
  case (Cons c s)
  show ?case
  proof (cases "match_token (c # s)")
    case None
    then obtain l where "next_token s = Some (l, path, m, t)" "lit = c # l" using Cons.prems by auto
    then show ?thesis using Cons.IH[of l] by auto
  next
    case (Some x)
    then have "match_token (c # s) = Some (path, m, t)" "lit = []" using Cons.prems by (auto split: prod.splits)
    then show ?thesis using match_token_sound[of "c # s" path m t] by simp
  qed
qed simp

text \<open>
  C26. A prompt is rendered exactly by its grammar. Rendering gives \<open>u\<close> if and only if the template is a sequence of
  literals without delimiters and well-formed tokens, with any white space inside them, and \<open>u\<close> is the sequence of
  the literals and the values of the tokens. Everything else is refused: nothing is dropped, reordered or
  rendered twice, and text that came from a value is not read again.
\<close>

theorem prompt_rendering_exact: "render_prompt t ctx = Inr u \<longleftrightarrow> renders ctx t u"
proof
  show "renders ctx t u" if "render_prompt t ctx = Inr u"
    using that
  proof (induction t ctx arbitrary: u rule: render_prompt.induct)
    case (1 t ctx)
    show ?case
    proof (cases "next_token t")
      case None
      then show ?thesis using "1.prems" by (auto simp: render_prompt.simps[of t] intro: renders_end split: if_splits)
    next
      case (Some x)
      obtain lit path m r where x: "x = (lit, path, m, r)" by (cases x)
      obtain w where w: "token_text w path m" "t = lit @ w @ r" using next_token_sound Some x by blast
      from "1.prems" Some x obtain v u' where v: "clean lit" "token_value ctx path m = Inr v" "render_prompt r ctx = Inr u'" "u = lit @ v @ u'"
        by (auto simp: render_prompt.simps[of t] bind_res_def split: if_splits sum.splits)
      have "renders ctx r u'" by (rule "1.IH"[OF Some, of lit "(path, m, r)" path "(m, r)" m r]) (use x v in simp_all)
      then show ?thesis unfolding w(2) v(4) using v(1,2) w(1) by (blast intro: renders_token)
    qed
  qed
  show "render_prompt t ctx = Inr u" if "renders ctx t u"
    using that
  proof (induction rule: renders.induct)
    case (renders_end s)
    then show ?case by (simp add: render_prompt.simps[of s] next_token_clean)
  next
    case (renders_token lit w path m v t u)
    then show ?case by (simp add: render_prompt.simps[of "lit @ w @ t"] next_token_at bind_res_def)
  qed
qed

end
