(* ===== verification/Control.thy ===== *)
theory Control
  imports Prompt Channel_Config Routing Admission Effects Workspaces Delivery Tokens
begin

text \<open>
  \<open>harness/control.py\<close>: what the control process does with a run and with the calls its units make back.

  The Workspace manager, admission, delivery, the HTTP client and the clocks are parameters over a world of any
  type; each has a model of its own. What control itself decides is logged beside the world. Times are in microseconds. The
  loops that wait for a unit take fuel; running out of it is an outcome of its own.
\<close>

section \<open>Calls of the units: who may do what\<close>

text \<open>What control reads to answer a call; \<open>vw_active\<close> and \<open>vw_hooks\<close> are dicts in their order.\<close>

record control_view =
  vw_active :: "(string \<times> ws_endpoint) list"
  vw_hooks :: "(string \<times> ws_endpoint) list"
  vw_lost :: "string set"
  vw_prepared :: "(string \<times> ws_endpoint \<times> start_request) list"
  vw_recovered :: "string \<Rightarrow> recovered_run option"
  vw_clock :: int

definition owned_now :: "control_view \<Rightarrow> string \<Rightarrow> bool" where
  "owned_now v claim \<longleftrightarrow> (\<exists>ep \<in> set (map snd (vw_active v) @ map snd (vw_hooks v)). we_name ep = claim \<and> we_instance_id ep \<notin> vw_lost v)"

text \<open>\<open>_owned_live\<close>: asked again in the state after adoption when the first answer is no.\<close>

definition owned_live :: "control_view \<Rightarrow> control_view \<Rightarrow> string \<Rightarrow> bool" where
  "owned_live v0 v1 claim \<longleftrightarrow> owned_now v0 claim \<or> owned_now v1 claim"

definition current_view :: "control_view \<Rightarrow> control_view \<Rightarrow> string \<Rightarrow> control_view" where
  "current_view v0 v1 claim = (if owned_now v0 claim then v0 else v1)"

record artifact_operations =
  ao_owner_ref :: string
  ao_session_ref :: string
  ao_invocation_id :: string
  ao_workspace_name :: string

definition prepared_allows :: "control_view \<Rightarrow> ws_endpoint \<Rightarrow> string \<Rightarrow> ws_endpoint \<Rightarrow> start_request \<Rightarrow> bool" where
  "prepared_allows v ep invocation_id pep q \<longleftrightarrow>
     sq_invocation_id q = invocation_id \<and> sq_workspace_ref q = wr_ref (we_ref ep) \<and> we_ref pep = we_ref ep \<and> we_name pep = we_name ep
     \<and> we_instance_id pep = we_instance_id ep \<and> \<not> sq_deadline_at q \<le> vw_clock v"

definition recovered_allows :: "control_view \<Rightarrow> ws_endpoint \<Rightarrow> string \<Rightarrow> recovered_run \<Rightarrow> bool" where
  "recovered_allows v ep invocation_id r \<longleftrightarrow>
     rr_invocation_id r = invocation_id \<and> rr_workspace_ref r = wr_ref (we_ref ep) \<and> rr_instance_id r = we_instance_id ep
     \<and> \<not> rr_deadline_at r \<le> vw_clock v"

text \<open>\<open>Inl\<close> carries what \<open>WorkspaceAuthenticationFailed\<close> names.\<close>

definition artifact_operations_for ::
  "crypto \<Rightarrow> string \<Rightarrow> control_view \<Rightarrow> control_view \<Rightarrow> string \<Rightarrow> string \<Rightarrow> (string, artifact_operations) result" where
  "artifact_operations_for K key v0 v1 token invocation_id =
     bind_res (authenticate_facade K key token (owned_live v0 v1)) (\<lambda>claim.
       let v = current_view v0 v1 claim in
       case find (\<lambda>ep. we_name ep = claim) (map snd (vw_active v)) of
         None \<Rightarrow> Inl claim
       | Some ep \<Rightarrow>
           bind_res
             (case map_of (vw_prepared v) invocation_id of
                Some (pep, q) \<Rightarrow> if prepared_allows v ep invocation_id pep q then Inr (sq_session_ref q) else Inl claim
              | None \<Rightarrow> (case vw_recovered v invocation_id of
                    Some r \<Rightarrow> if recovered_allows v ep invocation_id r then Inr (rr_session_ref r) else Inl claim
                  | None \<Rightarrow> Inl claim))
             (\<lambda>session. Inr \<lparr>ao_owner_ref = wr_ref (we_ref ep), ao_session_ref = session, ao_invocation_id = invocation_id, ao_workspace_name = claim\<rparr>))"

text \<open>\<open>ArtifactOperations._authenticate\<close> and \<open>_require_enabled_storage\<close> before every call.\<close>

datatype artifact_refusal = NotYours string | ArtifactsDisabled | NoStorage

definition artifact_call ::
  "crypto \<Rightarrow> string \<Rightarrow> (string \<Rightarrow> bool) \<Rightarrow> bool \<Rightarrow> bool \<Rightarrow> artifact_operations \<Rightarrow> string \<Rightarrow> (artifact_refusal, unit) result" where
  "artifact_call K key owned enabled has_storage ao token =
     (case authenticate_facade K key token owned of
        Inl c \<Rightarrow> Inl (NotYours c)
      | Inr claim \<Rightarrow>
          if claim \<noteq> ao_workspace_name ao then Inl (NotYours claim)
          else if \<not> enabled then Inl ArtifactsDisabled
          else if \<not> has_storage then Inl NoStorage else Inr ())"

text \<open>\<open>inform_user\<close>: the emitters that get the message.\<close>

definition inform_user ::
  "crypto \<Rightarrow> string \<Rightarrow> control_view \<Rightarrow> control_view \<Rightarrow> (string \<times> 'e list) list \<Rightarrow> string \<Rightarrow> string \<Rightarrow> (string, 'e list) result" where
  "inform_user K key v0 v1 progress token invocation_id =
     bind_res (authenticate_facade K key token (owned_live v0 v1)) (\<lambda>claim.
       case map_of (vw_prepared (current_view v0 v1 claim)) invocation_id of
         None \<Rightarrow> Inr []
       | Some (pep, q) \<Rightarrow> if we_name pep \<noteq> claim then Inl claim
                          else Inr (case map_of progress invocation_id of Some es \<Rightarrow> es | None \<Rightarrow> []))"

lemma authenticated_token: "authenticate_facade K key token owned = Inr claim \<Longrightarrow> token = facade_token K key claim \<and> claim \<noteq> [] \<and> owned claim"
  by (auto simp: authenticate_facade_def verify_facade_token_def facade_token_def split: option.splits if_splits dest: rpartition_Some)

lemma artifact_access:
  assumes "artifact_operations_for K key v0 v1 token iid = Inr ao"
  shows "(\<exists>v ep. v \<in> {v0, v1} \<and> ep \<in> snd ` set (vw_active v) \<and> token = facade_token K key (we_name ep)
      \<and> owned_live v0 v1 (we_name ep) \<and> ao_workspace_name ao = we_name ep \<and> ao_owner_ref ao = wr_ref (we_ref ep) \<and> ao_invocation_id ao = iid
      \<and> ((\<exists>pep q. map_of (vw_prepared v) iid = Some (pep, q) \<and> sq_invocation_id q = iid \<and> we_ref pep = we_ref ep \<and> we_instance_id pep = we_instance_id ep
             \<and> sq_workspace_ref q = ao_owner_ref ao \<and> sq_session_ref q = ao_session_ref ao \<and> vw_clock v < sq_deadline_at q)
         \<or> (\<exists>r. vw_recovered v iid = Some r \<and> rr_invocation_id r = iid \<and> rr_instance_id r = we_instance_id ep
             \<and> rr_workspace_ref r = ao_owner_ref ao \<and> rr_session_ref r = ao_session_ref ao \<and> vw_clock v < rr_deadline_at r)))
    \<and> (\<forall>owned enabled stored t. artifact_call K key owned enabled stored ao t = Inr () \<longrightarrow> t = facade_token K key (ao_workspace_name ao) \<and> enabled \<and> stored)"
proof
  obtain claim where auth: "authenticate_facade K key token (owned_live v0 v1) = Inr claim"
    using assms by (auto simp: artifact_operations_for_def bind_res_def split: sum.splits)
  let ?v = "current_view v0 v1 claim"
  obtain ep session where ep: "find (\<lambda>ep. we_name ep = claim) (map snd (vw_active ?v)) = Some ep"
    and run: "(\<exists>pep q. map_of (vw_prepared ?v) iid = Some (pep, q) \<and> prepared_allows ?v ep iid pep q \<and> session = sq_session_ref q)
      \<or> (\<exists>r. vw_recovered ?v iid = Some r \<and> recovered_allows ?v ep iid r \<and> session = rr_session_ref r)"
    and ao: "ao = \<lparr>ao_owner_ref = wr_ref (we_ref ep), ao_session_ref = session, ao_invocation_id = iid, ao_workspace_name = claim\<rparr>"
    using assms auth by (auto simp: artifact_operations_for_def bind_res_def Let_def split: option.splits if_splits sum.splits)
  have "ep \<in> snd ` set (vw_active ?v)" "we_name ep = claim" using ep by (auto simp: find_Some_iff)
  moreover have "?v \<in> {v0, v1}" by (simp add: current_view_def)
  ultimately show "\<exists>v ep. v \<in> {v0, v1} \<and> ep \<in> snd ` set (vw_active v) \<and> token = facade_token K key (we_name ep)
      \<and> owned_live v0 v1 (we_name ep) \<and> ao_workspace_name ao = we_name ep \<and> ao_owner_ref ao = wr_ref (we_ref ep) \<and> ao_invocation_id ao = iid
      \<and> ((\<exists>pep q. map_of (vw_prepared v) iid = Some (pep, q) \<and> sq_invocation_id q = iid \<and> we_ref pep = we_ref ep \<and> we_instance_id pep = we_instance_id ep
             \<and> sq_workspace_ref q = ao_owner_ref ao \<and> sq_session_ref q = ao_session_ref ao \<and> vw_clock v < sq_deadline_at q)
         \<or> (\<exists>r. vw_recovered v iid = Some r \<and> rr_invocation_id r = iid \<and> rr_instance_id r = we_instance_id ep
             \<and> rr_workspace_ref r = ao_owner_ref ao \<and> rr_session_ref r = ao_session_ref ao \<and> vw_clock v < rr_deadline_at r))"
    using authenticated_token[OF auth] run
    by (intro exI[of _ ?v] exI[of _ ep]) (auto simp: ao prepared_allows_def recovered_allows_def)
  show "\<forall>owned enabled stored t. artifact_call K key owned enabled stored ao t = Inr () \<longrightarrow> t = facade_token K key (ao_workspace_name ao) \<and> enabled \<and> stored"
    by (auto simp: artifact_call_def split: sum.splits if_splits dest: authenticated_token)
qed

text \<open>
  C25. A unit reaches only its own artifacts. Artifact operations are given only to the holder of the facade token that control
  made for a published Workspace, that Workspace is their owner, and the session they are recorded for is that
  of a run of the same Workspace in the same instance, prepared or recovered, whose deadline has not passed. A later
  call with them needs a token of the same Workspace again.
\<close>

theorem artifact_access_confined:
  assumes "artifact_operations_for K key v0 v1 token iid = Inr ao"
  shows "(\<exists>v ep. v \<in> {v0, v1} \<and> ep \<in> snd ` set (vw_active v) \<and> token = facade_token K key (we_name ep)
      \<and> owned_live v0 v1 (we_name ep) \<and> ao_workspace_name ao = we_name ep \<and> ao_owner_ref ao = wr_ref (we_ref ep) \<and> ao_invocation_id ao = iid
      \<and> ((\<exists>pep q. map_of (vw_prepared v) iid = Some (pep, q) \<and> sq_invocation_id q = iid \<and> we_ref pep = we_ref ep \<and> we_instance_id pep = we_instance_id ep
             \<and> sq_workspace_ref q = ao_owner_ref ao \<and> sq_session_ref q = ao_session_ref ao \<and> vw_clock v < sq_deadline_at q)
         \<or> (\<exists>r. vw_recovered v iid = Some r \<and> rr_invocation_id r = iid \<and> rr_instance_id r = we_instance_id ep
             \<and> rr_workspace_ref r = ao_owner_ref ao \<and> rr_session_ref r = ao_session_ref ao \<and> vw_clock v < rr_deadline_at r)))
    \<and> (\<forall>owned enabled stored t. artifact_call K key owned enabled stored ao t = Inr () \<longrightarrow> t = facade_token K key (ao_workspace_name ao) \<and> enabled \<and> stored)"
  by (rule artifact_access[OF assms])

definition demo_unit :: ws_endpoint where
  "demo_unit = \<lparr>we_ref = \<lparr>wr_namespace = ''n'', wr_agent_uid = ''u'', wr_ref = ''w''\<rparr>, we_name = ''ws1'', we_instance_id = ''i1'', we_base_url = ''http://u''\<rparr>"

definition demo_view_now :: control_view where
  "demo_view_now = \<lparr>vw_active = [(''w'', demo_unit)], vw_hooks = [], vw_lost = {}, vw_prepared = [(''i'', demo_unit, example_start)],
     vw_recovered = (\<lambda>_. None), vw_clock = 1\<rparr>"

theorem artifact_access_confined_witness:
  "\<exists>ao. artifact_operations_for example_crypto ''k'' demo_view_now demo_view_now (facade_token example_crypto ''k'' ''ws1'') ''i'' = Inr ao
    \<and> ao_owner_ref ao = ''w'' \<and> artifact_call example_crypto ''k'' (\<lambda>_. True) True True ao (facade_token example_crypto ''k'' ''ws2'') \<noteq> Inr ()"
proof -
  have tok: "verify_facade_token example_crypto ''k'' (facade_token example_crypto ''k'' c) = Some c" if "c \<noteq> []" for c
    using that rpartition_append[OF mac_no_dot[OF example_crypto_ok(1)]] by (simp add: verify_facade_token_def facade_token_def)
  let ?ao = "\<lparr>ao_owner_ref = ''w'', ao_session_ref = ''s'', ao_invocation_id = ''i'', ao_workspace_name = ''ws1''\<rparr>"
  have ok: "artifact_operations_for example_crypto ''k'' demo_view_now demo_view_now (facade_token example_crypto ''k'' ''ws1'') ''i'' = Inr ?ao"
    by (simp add: artifact_operations_for_def authenticate_facade_def tok bind_res_def owned_live_def owned_now_def current_view_def prepared_allows_def
        demo_view_now_def demo_unit_def example_start_def)
  have "artifact_call example_crypto ''k'' (\<lambda>_. True) True True ?ao (facade_token example_crypto ''k'' ''ws2'')
      = Inr () \<Longrightarrow> facade_token example_crypto ''k'' ''ws2'' = facade_token example_crypto ''k'' ''ws1''"
    using artifact_access_confined[OF ok] by auto
  then show ?thesis using ok tok[of "''ws2''"] tok[of "''ws1''"] by (intro exI[of _ ?ao]) auto
qed

section \<open>The watch of a run\<close>

text \<open>A run is watched against the request it was started with, or against the record it was recovered from.\<close>

datatype expected = ExpRequest start_request | ExpStatus run_status

definition ex_invocation_id :: "expected \<Rightarrow> string" where
  "ex_invocation_id x = (case x of ExpRequest q \<Rightarrow> sq_invocation_id q | ExpStatus r \<Rightarrow> rs_invocation_id r)"

definition ex_deadline_at :: "expected \<Rightarrow> int" where
  "ex_deadline_at x = (case x of ExpRequest q \<Rightarrow> sq_deadline_at q | ExpStatus r \<Rightarrow> rs_deadline_at r)"

definition ex_channel :: "expected \<Rightarrow> string" where
  "ex_channel x = (case x of ExpRequest q \<Rightarrow> sq_channel q | ExpStatus r \<Rightarrow> rs_channel r)"

definition ex_workspace_ref :: "expected \<Rightarrow> string" where
  "ex_workspace_ref x = (case x of ExpRequest q \<Rightarrow> sq_workspace_ref q | ExpStatus r \<Rightarrow> rs_workspace_ref r)"

definition ex_session_ref :: "expected \<Rightarrow> string" where
  "ex_session_ref x = (case x of ExpRequest q \<Rightarrow> sq_session_ref q | ExpStatus r \<Rightarrow> rs_session_ref r)"

definition ex_config_version :: "expected \<Rightarrow> string" where
  "ex_config_version x = (case x of ExpRequest q \<Rightarrow> sq_config_version q | ExpStatus r \<Rightarrow> rs_config_version r)"

definition ex_run_id :: "expected \<Rightarrow> string option" where
  "ex_run_id x = (case x of ExpRequest q \<Rightarrow> None | ExpStatus r \<Rightarrow> rs_run_id r)"

definition validate_status :: "run_status \<Rightarrow> expected \<Rightarrow> bool" where
  "validate_status st x = (case x of ExpRequest q \<Rightarrow> status_matches st q | ExpStatus r \<Rightarrow> status_continues st r)"

definition final_states :: "run_state set" where
  "final_states = {RunCompleted, RunFailed, RunCancelled, RunSkipped}"

text \<open>What else the watch is given: the run ID of the receipt, the event, and whether the catalog has prices.\<close>

record run_about =
  ab_started_run_id :: "string option"
  ab_event :: "event option"
  ab_priced :: bool

datatype watch_error = WatchOwnerLost | WatchOutOfFuel

text \<open>The log: an alarm, a cancel that was sent with the time it was, the record of a run, and a ticket marked as started. The agent's name, environment
  and model, the same in every record, are left out.\<close>

record run_entry =
  re_invocation :: string
  re_run_id :: "string option"
  re_actor :: "string option"
  re_event_of :: "string option"
  re_channel_of :: string
  re_workspace_of :: string
  re_session_of :: string
  re_config_version :: string
  re_duration :: json
  re_outcome :: string
  re_usage :: json

datatype watch_event = WatchAlarm string | CancelSent string int | RunRecorded run_entry | TicketStarted string

text \<open>\<open>cw_status\<close> is \<open>None\<close> when \<open>delivery.status\<close> raised or took more than five seconds.\<close>

record 'w watch_world =
  cw_clock :: "'w \<Rightarrow> int"
  cw_sleep :: "int \<Rightarrow> 'w \<Rightarrow> 'w"
  cw_active :: "string \<Rightarrow> 'w \<Rightarrow> ws_endpoint option"
  cw_lost :: "string \<Rightarrow> 'w \<Rightarrow> bool"
  cw_cancel :: "ws_endpoint \<Rightarrow> cancel_request \<Rightarrow> 'w \<Rightarrow> 'w"
  cw_status :: "ws_endpoint \<Rightarrow> string \<Rightarrow> 'w \<Rightarrow> run_status option \<times> 'w"

record 'w cstate =
  cs_prepared :: "string \<rightharpoonup> (ws_endpoint \<times> start_request)"
  cs_started_run :: "string \<rightharpoonup> string"
  cs_w :: 'w
  cs_log :: "watch_event list"

type_synonym ('w, 'a) ctl = "('w cstate, watch_error, 'a) eff"

definition cnote :: "watch_event \<Rightarrow> ('w, unit) ctl" where
  "cnote e = modify (\<lambda>s. s\<lparr>cs_log := cs_log s @ [e]\<rparr>)"

definition cpeek :: "('w \<Rightarrow> 'a) \<Rightarrow> ('w, 'a) ctl" where
  "cpeek f = gets (f \<circ> cs_w)"

definition cdo :: "('w \<Rightarrow> 'a \<times> 'w) \<Rightarrow> ('w, 'a) ctl" where
  "cdo f s = (case f (cs_w s) of (x, w) \<Rightarrow> (Inr x, s\<lparr>cs_w := w\<rparr>))"

definition csleep :: "'w watch_world \<Rightarrow> int \<Rightarrow> ('w, unit) ctl" where
  "csleep W t = cdo (\<lambda>w. ((), cw_sleep W t w))"

definition forget_run :: "string \<Rightarrow> ('w, unit) ctl" where
  "forget_run iid = modify (\<lambda>s. s\<lparr>cs_prepared := (cs_prepared s)(iid := None), cs_started_run := (cs_started_run s)(iid := None)\<rparr>)"

record watch =
  wt_cancel_sent :: bool
  wt_warned :: bool
  wt_warned_owner :: bool
  wt_delay :: int
  wt_last_state :: "run_state option"
  wt_fast_until :: int

definition quarter :: int where "quarter = 250000"

definition watch_fast :: int where "watch_fast = 5000000"

definition state_text :: "run_state \<Rightarrow> string" where
  "state_text st = (case find (\<lambda>p. snd p = st) run_states of Some p \<Rightarrow> fst p | None \<Rightarrow> [])"

definition reporting_of :: "run_status option \<Rightarrow> json" where
  "reporting_of status = (case status of Some st \<Rightarrow> (case rs_result st of JObj d \<Rightarrow> dict_get d ''reporting'' JNull | _ \<Rightarrow> JNull) | None \<Rightarrow> JNull)"

definition reported_duration :: "run_status option \<Rightarrow> json" where
  "reported_duration status =
     (let d = (case reporting_of status of JObj r \<Rightarrow> dict_get r ''duration_ms'' JNull | _ \<Rightarrow> JNull) in
      case d of
        JInt n \<Rightarrow> if n < 0 then JNull else d
      | JFloat (PyFin t v) \<Rightarrow> if v < 0 then JNull else d
      | JFloat (PyInf neg) \<Rightarrow> if neg then JNull else d
      | JFloat PyNan \<Rightarrow> d
      | _ \<Rightarrow> JNull)"

definition reported_usage :: "bool \<Rightarrow> run_status option \<Rightarrow> json" where
  "reported_usage priced status =
     (case reporting_of status of
        JObj r \<Rightarrow>
          (case dict_get r ''usage'' JNull of
             JObj u \<Rightarrow>
               if dict_get u ''source'' JNull \<in> {JStr ''opencode'', JStr ''pi''} \<and> dict_get u ''basis'' JNull = JStr ''engine_estimate''
               then JObj (map (\<lambda>k. (k, if k = ''cost_usd'' \<and> \<not> priced then JNull else dict_get u k JNull))
                 [''source'', ''basis'', ''input'', ''output'', ''reasoning'', ''cache_read'', ''cache_write'', ''cost_usd'', ''steps''])
               else JNull
           | _ \<Rightarrow> JNull)
      | _ \<Rightarrow> JNull)"

definition record_run :: "expected \<Rightarrow> run_about \<Rightarrow> run_status option \<Rightarrow> string option \<Rightarrow> ('w, unit) ctl" where
  "record_run x about status outcome =
     cnote (RunRecorded \<lparr>re_invocation = ex_invocation_id x,
       re_run_id = (case status of Some st \<Rightarrow> rs_run_id st
        | None \<Rightarrow> (case ab_started_run_id about of Some t \<Rightarrow> if t = [] then ex_run_id x else Some t | None \<Rightarrow> ex_run_id x)),
       re_actor = map_option ev_actor (ab_event about), re_event_of = map_option ev_id (ab_event about),
       re_channel_of = ex_channel x, re_workspace_of = ex_workspace_ref x, re_session_of = ex_session_ref x, re_config_version = ex_config_version x,
       re_duration = reported_duration status,
       re_outcome = (case outcome of Some t \<Rightarrow> t | None \<Rightarrow> (case status of Some st \<Rightarrow> state_text (rs_state st) | None \<Rightarrow> ''unknown'')),
       re_usage = reported_usage (ab_priced about) status\<rparr>)"

text \<open>\<open>check_published_owner\<close>: the second part of the result says whether the warning was given.\<close>

definition check_owner :: "'w watch_world \<Rightarrow> ws_endpoint \<Rightarrow> expected \<Rightarrow> run_about \<Rightarrow> watch \<Rightarrow> ('w, bool \<times> watch) ctl" where
  "check_owner W ep x about wt =
     andThen (cpeek (\<lambda>w. (cw_active W (wr_ref (we_ref ep)) w, cw_lost W (we_instance_id ep) w))) (\<lambda>(current, is_gone).
     if is_gone \<or> (case current of Some c \<Rightarrow> we_instance_id c \<noteq> we_instance_id ep | None \<Rightarrow> False)
     then
       andThen (forget_run (ex_invocation_id x)) (\<lambda>_.
       andThen (cnote (WatchAlarm ''Workspace owner was lost; run outcome is unknown'')) (\<lambda>_.
       andThen (record_run x about None (Some ''unknown'')) (\<lambda>_. throw WatchOwnerLost)))
     else if current = None
     then
       andThen (if wt_warned_owner wt then pure () else cnote (WatchAlarm ''Workspace owner is not published; run ownership remains held'')) (\<lambda>_.
       pure (False, wt\<lparr>wt_warned_owner := True\<rparr>))
     else pure (True, wt))"

definition send_deadline_cancel :: "'w watch_world \<Rightarrow> ws_endpoint \<Rightarrow> expected \<Rightarrow> watch \<Rightarrow> ('w, watch) ctl" where
  "send_deadline_cancel W ep x wt =
     andThen (cpeek (cw_clock W)) (\<lambda>now.
     if now < ex_deadline_at x \<or> wt_cancel_sent wt then pure wt
     else
       andThen (cnote (WatchAlarm ''invocation deadline exceeded'')) (\<lambda>_.
       andThen (cnote (CancelSent (ex_invocation_id x) now)) (\<lambda>_.
       andThen (cdo (\<lambda>w. ((), cw_cancel W ep \<lparr>cq_invocation_id = ex_invocation_id x, cq_reason = ''invocation deadline exceeded''\<rparr> w))) (\<lambda>_.
       pure (wt\<lparr>wt_cancel_sent := True\<rparr>)))))"

text \<open>One pass of the loop ends the watch, goes on at once after a short sleep, or goes on after a pause.\<close>

datatype pass = Ended run_status | Again watch

definition pause_for :: "'w watch_world \<Rightarrow> expected \<Rightarrow> watch \<Rightarrow> ('w, pass) ctl" where
  "pause_for W x wt =
     andThen (cpeek (cw_clock W)) (\<lambda>now.
     andThen (csleep W (if wt_cancel_sent wt then wt_delay wt else max 0 (min (wt_delay wt) (ex_deadline_at x - now)))) (\<lambda>_. pure (Again wt)))"

definition not_observed :: "'w watch_world \<Rightarrow> expected \<Rightarrow> watch \<Rightarrow> ('w, pass) ctl" where
  "not_observed W x wt =
     andThen (if wt_warned wt then pure () else cnote (WatchAlarm ''run observation is unavailable; ownership remains held'')) (\<lambda>_.
     pause_for W x (wt\<lparr>wt_warned := True\<rparr>))"

definition paced :: "run_state \<Rightarrow> int \<Rightarrow> watch \<Rightarrow> watch" where
  "paced st now wt =
     (if Some st \<noteq> wt_last_state wt then wt\<lparr>wt_last_state := Some st, wt_delay := quarter\<rparr>
      else if now \<ge> wt_fast_until wt then wt\<lparr>wt_delay := min (wt_delay wt * 2) (4 * quarter)\<rparr> else wt)"

definition observed_status ::
  "'w watch_world \<Rightarrow> ws_endpoint \<Rightarrow> expected \<Rightarrow> run_about \<Rightarrow> watch \<Rightarrow> run_status \<Rightarrow> ('w, pass) ctl" where
  "observed_status W ep x about wt st =
     (if \<not> validate_status st x \<or> (ab_started_run_id about \<noteq> None \<and> rs_run_id st \<noteq> ab_started_run_id about) then not_observed W x wt
      else if rs_state st \<in> final_states
      then
        andThen (forget_run (ex_invocation_id x)) (\<lambda>_.
        andThen (record_run x about (Some st) None) (\<lambda>_. pure (Ended st)))
      else
        andThen (check_owner W ep x about wt) (\<lambda>(published, wt').
        if \<not> published then andThen (csleep W quarter) (\<lambda>_. pure (Again wt'))
        else if rs_state st = RunUnknown then not_observed W x wt'
        else andThen (cpeek (cw_clock W)) (\<lambda>now. pause_for W x (paced (rs_state st) now wt'))))"

definition observe_pass :: "'w watch_world \<Rightarrow> ws_endpoint \<Rightarrow> expected \<Rightarrow> run_about \<Rightarrow> watch \<Rightarrow> ('w, pass) ctl" where
  "observe_pass W ep x about wt =
     andThen (send_deadline_cancel W ep x wt) (\<lambda>wt1.
     andThen (check_owner W ep x about wt1) (\<lambda>(published, wt2).
     if \<not> published then andThen (csleep W quarter) (\<lambda>_. pure (Again wt2))
     else
       andThen (cdo (cw_status W ep (ex_invocation_id x))) (\<lambda>r. case r of
          None \<Rightarrow> not_observed W x wt2
        | Some st \<Rightarrow> observed_status W ep x about wt2 st)))"

fun observe_loop :: "nat \<Rightarrow> 'w watch_world \<Rightarrow> ws_endpoint \<Rightarrow> expected \<Rightarrow> run_about \<Rightarrow> watch \<Rightarrow> ('w, run_status) ctl" where
  "observe_loop 0 W ep x about wt = throw WatchOutOfFuel"
| "observe_loop (Suc n) W ep x about wt =
     andThen (observe_pass W ep x about wt) (\<lambda>p. case p of
        Ended st \<Rightarrow> pure st
      | Again wt' \<Rightarrow> observe_loop n W ep x about wt')"

definition observe_run :: "nat \<Rightarrow> 'w watch_world \<Rightarrow> ws_endpoint \<Rightarrow> expected \<Rightarrow> run_about \<Rightarrow> ('w, run_status) ctl" where
  "observe_run fuel W ep x about =
     andThen (cpeek (cw_clock W)) (\<lambda>now.
     observe_loop fuel W ep x about \<lparr>wt_cancel_sent = False, wt_warned = False, wt_warned_owner = False, wt_delay = quarter,
       wt_last_state = None, wt_fast_until = now + watch_fast\<rparr>)"

section \<open>What a watch does\<close>

definition cancels :: "watch_event list \<Rightarrow> watch_event list" where
  "cancels l = filter (\<lambda>e. case e of CancelSent i t \<Rightarrow> True | _ \<Rightarrow> False) l"

definition recorded :: "watch_event list \<Rightarrow> run_entry list" where
  "recorded l = concat (map (\<lambda>e. case e of RunRecorded r \<Rightarrow> [r] | _ \<Rightarrow> []) l)"

definition cancels_ok :: "expected \<Rightarrow> watch_event list \<Rightarrow> bool" where
  "cancels_ok x l \<longleftrightarrow> (\<forall>i t. CancelSent i t \<in> set l \<longrightarrow> i = ex_invocation_id x \<and> ex_deadline_at x \<le> t)"

lemma watch_log_simps [simp]:
  "cancels [] = []" "cancels (l @ [WatchAlarm m]) = cancels l" "cancels (l @ [CancelSent i t]) = cancels l @ [CancelSent i t]" "cancels (l @ [RunRecorded r]) = cancels l"
  "recorded [] = []" "recorded (l @ [WatchAlarm m]) = recorded l" "recorded (l @ [CancelSent i t]) = recorded l" "recorded (l @ [RunRecorded r]) = recorded l @ [r]"
  "cancels_ok x []" "cancels_ok x (l @ [WatchAlarm m]) = cancels_ok x l" "cancels_ok x (l @ [RunRecorded r]) = cancels_ok x l"
  "cancels_ok x (l @ [CancelSent i t]) \<longleftrightarrow> cancels_ok x l \<and> i = ex_invocation_id x \<and> ex_deadline_at x \<le> t"
  by (auto simp: cancels_def recorded_def cancels_ok_def)

text \<open>While the run is watched, and when the watch has ended, relative to the state in which it began.\<close>

definition watching :: "expected \<Rightarrow> 'w cstate \<Rightarrow> bool \<Rightarrow> 'w cstate \<Rightarrow> bool" where
  "watching x s0 sent s \<longleftrightarrow> (\<exists>l. cs_log s = cs_log s0 @ l \<and> length (cancels l) = (if sent then 1 else 0) \<and> cancels_ok x l \<and> recorded l = [])
     \<and> cs_prepared s = cs_prepared s0 \<and> cs_started_run s = cs_started_run s0"

definition watched :: "expected \<Rightarrow> 'w cstate \<Rightarrow> string \<Rightarrow> 'w cstate \<Rightarrow> bool" where
  "watched x s0 outcome s \<longleftrightarrow> (\<exists>l r. cs_log s = cs_log s0 @ l \<and> length (cancels l) \<le> 1 \<and> cancels_ok x l \<and> recorded l = [r]
       \<and> re_invocation r = ex_invocation_id x \<and> re_outcome r = outcome)
     \<and> cs_prepared s = (cs_prepared s0)(ex_invocation_id x := None) \<and> cs_started_run s = (cs_started_run s0)(ex_invocation_id x := None)"

definition owner_gone :: "'w watch_world \<Rightarrow> ws_endpoint \<Rightarrow> 'w cstate \<Rightarrow> bool" where
  "owner_gone W ep s \<longleftrightarrow> cw_lost W (we_instance_id ep) (cs_w s)
     \<or> (\<exists>c. cw_active W (wr_ref (we_ref ep)) (cs_w s) = Some c \<and> we_instance_id c \<noteq> we_instance_id ep)"

lemma watching_more:
  assumes "watching x s0 b s" "cs_log s' = cs_log s @ [e]" "length (cancels [e]) + (if b then 1 else 0) = (if b' then 1 else 0)" "cancels_ok x [e]" "recorded [e] = []"
    "cs_prepared s' = cs_prepared s" "cs_started_run s' = cs_started_run s"
  shows "watching x s0 b' s'"
proof -
  from assms(1) obtain l where l: "cs_log s = cs_log s0 @ l" "length (cancels l) = (if b then 1 else 0)" "cancels_ok x l" "recorded l = []"
      "cs_prepared s = cs_prepared s0" "cs_started_run s = cs_started_run s0" by (auto simp: watching_def)
  have "cs_log s' = cs_log s0 @ (l @ [e])" using l(1) assms(2) by simp
  moreover have "length (cancels (l @ [e])) = (if b' then 1 else 0)" using l(2) assms(3) by (simp add: cancels_def)
  moreover have "cancels_ok x (l @ [e])" "recorded (l @ [e]) = []" using l(3,4) assms(4,5) by (auto simp: cancels_ok_def recorded_def)
  ultimately show ?thesis unfolding watching_def using l(5,6) assms(6,7) by auto
qed

lemma watching_w: "watching x s0 b s \<Longrightarrow> watching x s0 b (s\<lparr>cs_w := w\<rparr>)"
  by (simp add: watching_def)

lemma alarm_watching: "triple (watching x s0 b) (cnote (WatchAlarm m)) (\<lambda>_. watching x s0 b) E"
  unfolding cnote_def by (rule triple_modify, rule watching_more) (auto simp: cancels_def cancels_ok_def recorded_def)

lemma cdo_watching: "triple (watching x s0 b) (cdo f) (\<lambda>_. watching x s0 b) E"
  by (auto simp: triple_def cdo_def watching_w split: prod.split)

lemma csleep_watching: "triple (watching x s0 b) (csleep W t) (\<lambda>_. watching x s0 b) E"
  unfolding csleep_def by (rule cdo_watching)

lemma deadline_cancel_watching:
  "triple (watching x s0 (wt_cancel_sent wt)) (send_deadline_cancel W ep x wt) (\<lambda>wt'. watching x s0 (wt_cancel_sent wt')) E"
proof -
  have sent: "triple (watching x s0 (wt_cancel_sent wt)) (cnote (CancelSent (ex_invocation_id x) now)) (\<lambda>_. watching x s0 True) E"
    if "\<not> (now < ex_deadline_at x \<or> wt_cancel_sent wt)" for now
    unfolding cnote_def using that by (intro triple_modify, elim watching_more) (auto simp: cancels_def cancels_ok_def recorded_def)
  have late: "triple (watching x s0 (wt_cancel_sent wt)) (andThen (cnote (WatchAlarm m)) (\<lambda>_. andThen (cnote (CancelSent (ex_invocation_id x) now)) (\<lambda>_.
      andThen (cdo f) (\<lambda>_. pure (wt\<lparr>wt_cancel_sent := True\<rparr>))))) (\<lambda>wt'. watching x s0 (wt_cancel_sent wt')) E"
    if "\<not> (now < ex_deadline_at x \<or> wt_cancel_sent wt)" for m now and f :: "'a \<Rightarrow> unit \<times> 'a"
    by (intro triple_bind[OF alarm_watching] triple_bind[OF sent[OF that]] triple_bind[OF cdo_watching] triple_pure) simp
  show ?thesis unfolding send_deadline_cancel_def cpeek_def
    by (rule triple_bind[OF triple_gets[of _ "\<lambda>_. watching x s0 (wt_cancel_sent wt)"]], assumption, rule triple_if[OF _ late]) auto
qed

lemma check_owner_watching:
  "triple (watching x s0 (wt_cancel_sent wt)) (check_owner W ep x about wt) (\<lambda>r. watching x s0 (wt_cancel_sent (snd r)))
     (\<lambda>e s. e = WatchOwnerLost \<and> owner_gone W ep s \<and> watched x s0 ''unknown'' s)"
proof -
  have "case check_owner W ep x about wt s of (Inr r, s') \<Rightarrow> watching x s0 (wt_cancel_sent (snd r)) s'
      | (Inl e, s') \<Rightarrow> e = WatchOwnerLost \<and> owner_gone W ep s' \<and> watched x s0 ''unknown'' s'" if w: "watching x s0 (wt_cancel_sent wt) s" for s
  proof (cases "owner_gone W ep s")
    case True
    obtain l where l: "cs_log s = cs_log s0 @ l" "length (cancels l) \<le> 1" "cancels_ok x l" "recorded l = []"
      "cs_prepared s = cs_prepared s0" "cs_started_run s = cs_started_run s0" using w by (auto simp: watching_def)
    obtain r where r: "check_owner W ep x about wt s = (Inl WatchOwnerLost, s\<lparr>cs_prepared := (cs_prepared s)(ex_invocation_id x := None),
        cs_started_run := (cs_started_run s)(ex_invocation_id x := None),
        cs_log := cs_log s @ [WatchAlarm ''Workspace owner was lost; run outcome is unknown'', RunRecorded r]\<rparr>)"
        "re_invocation r = ex_invocation_id x" "re_outcome r = ''unknown''"
      using True by (auto simp: check_owner_def owner_gone_def cpeek_def forget_run_def cnote_def record_run_def andThen_def eff_simps split: option.splits)
    have "watched x s0 ''unknown'' (snd (check_owner W ep x about wt s))" unfolding watched_def r(1)
      using l r(2,3) by (auto simp: cancels_def recorded_def cancels_ok_def)
    then show ?thesis using r(1) True by (simp add: owner_gone_def)
  next
    case False
    then show ?thesis using w
      by (auto simp: check_owner_def owner_gone_def cpeek_def cnote_def andThen_def eff_simps cancels_def cancels_ok_def recorded_def
          split: option.splits if_splits elim!: watching_more)
  qed
  then show ?thesis by (auto simp: triple_def)
qed

text \<open>A pass keeps the watch going, ends it with a genuine outcome, or finds that the owner is gone.\<close>

definition genuine :: "expected \<Rightarrow> run_about \<Rightarrow> run_status \<Rightarrow> bool" where
  "genuine x about st \<longleftrightarrow> rs_state st \<in> final_states \<and> validate_status st x
     \<and> (ab_started_run_id about = None \<or> rs_run_id st = ab_started_run_id about)"

definition pass_post :: "expected \<Rightarrow> run_about \<Rightarrow> 'w cstate \<Rightarrow> pass \<Rightarrow> 'w cstate \<Rightarrow> bool" where
  "pass_post x about s0 p s = (case p of
     Again wt \<Rightarrow> watching x s0 (wt_cancel_sent wt) s | Ended st \<Rightarrow> genuine x about st \<and> watched x s0 (state_text (rs_state st)) s)"

lemma pass_post_simps:
  "pass_post x about s0 (Again wt) = watching x s0 (wt_cancel_sent wt)"
  "pass_post x about s0 (Ended st) = (\<lambda>s. genuine x about st \<and> watched x s0 (state_text (rs_state st)) s)"
  by (simp_all add: pass_post_def fun_eq_iff)

abbreviation lost_post :: "'w watch_world \<Rightarrow> ws_endpoint \<Rightarrow> expected \<Rightarrow> 'w cstate \<Rightarrow> watch_error \<Rightarrow> 'w cstate \<Rightarrow> bool" where
  "lost_post W ep x s0 e s \<equiv> e = WatchOwnerLost \<and> owner_gone W ep s \<and> watched x s0 ''unknown'' s"

lemma pause_post: "triple (watching x s0 (wt_cancel_sent wt)) (pause_for W x wt) (pass_post x about s0) E"
  unfolding pause_for_def cpeek_def
  by (intro triple_bind[OF triple_gets[of _ "\<lambda>_. watching x s0 (wt_cancel_sent wt)"]] triple_bind[OF csleep_watching] triple_pure) (simp_all add: pass_post_def)

lemma not_observed_post: "triple (watching x s0 (wt_cancel_sent wt)) (not_observed W x wt) (pass_post x about s0) E"
  unfolding not_observed_def
  by (rule triple_bind[of _ _ "\<lambda>_. watching x s0 (wt_cancel_sent wt)"])
    (use pause_post[of x s0 "wt\<lparr>wt_warned := True\<rparr>"] in \<open>auto intro: alarm_watching\<close>)

lemma sleep_again_post: "triple (watching x s0 (wt_cancel_sent wt)) (andThen (csleep W t) (\<lambda>_. pure (Again wt))) (pass_post x about s0) E"
  by (intro triple_bind[OF csleep_watching] triple_pure) (simp add: pass_post_def)

lemma paced_sent [simp]: "wt_cancel_sent (paced st now wt) = wt_cancel_sent wt"
  by (simp add: paced_def)

lemma final_post:
  assumes "genuine x about st"
  shows "triple (watching x s0 b) (andThen (forget_run (ex_invocation_id x)) (\<lambda>_. andThen (record_run x about (Some st) None) (\<lambda>_. pure (Ended st))))
    (pass_post x about s0) E"
  using assms unfolding triple_def
  by (auto simp: watching_def watched_def pass_post_def forget_run_def record_run_def cnote_def andThen_def eff_simps cancels_def recorded_def cancels_ok_def
      split: if_splits)

lemma checked_post:
  assumes "\<And>wt'. triple (watching x s0 (wt_cancel_sent wt')) (m wt') (pass_post x about s0) (lost_post W ep x s0)"
  shows "triple (watching x s0 (wt_cancel_sent wt)) (andThen (check_owner W ep x about wt) (\<lambda>(published, wt').
      if \<not> published then andThen (csleep W quarter) (\<lambda>_. pure (Again wt')) else m wt')) (pass_post x about s0) (lost_post W ep x s0)"
  by (rule triple_bind[OF check_owner_watching]) (auto simp: split_beta intro: assms sleep_again_post)

lemma observed_post: "triple (watching x s0 (wt_cancel_sent wt)) (observed_status W ep x about wt st) (pass_post x about s0) (lost_post W ep x s0)"
proof -
  have "triple (watching x s0 (wt_cancel_sent wt')) (andThen (cpeek (cw_clock W)) (\<lambda>now. pause_for W x (paced (rs_state st) now wt'))) (pass_post x about s0) E" for wt' E
    unfolding cpeek_def using pause_post[of x s0 "paced (rs_state st) now wt'" for now]
    by (intro triple_bind[OF triple_gets[of _ "\<lambda>_. watching x s0 (wt_cancel_sent wt')"]]) simp_all
  then show ?thesis unfolding observed_status_def
    by (intro triple_if not_observed_post final_post checked_post) (auto simp: genuine_def)
qed

lemma observe_pass_post: "triple (watching x s0 (wt_cancel_sent wt)) (observe_pass W ep x about wt) (pass_post x about s0) (lost_post W ep x s0)"
  unfolding observe_pass_def
proof (intro triple_bind[OF deadline_cancel_watching] checked_post)
  show "triple (watching x s0 (wt_cancel_sent wt')) (andThen (cdo (cw_status W ep (ex_invocation_id x))) (case_option (not_observed W x wt') (observed_status W ep x about wt')))
      (pass_post x about s0) (lost_post W ep x s0)" for wt'
    by (rule triple_bind[OF cdo_watching]) (auto intro: not_observed_post observed_post split: option.split)
qed

lemma observe_loop_post:
  "triple (watching x s0 (wt_cancel_sent wt)) (observe_loop n W ep x about wt)
     (\<lambda>st s. genuine x about st \<and> watched x s0 (state_text (rs_state st)) s)
     (\<lambda>e s. lost_post W ep x s0 e s \<or> e = WatchOutOfFuel \<and> (\<exists>b. watching x s0 b s))"
proof (induction n arbitrary: wt)
  case 0
  then show ?case by (auto intro: triple_throw)
next
  case (Suc n)
  have "triple (pass_post x about s0 p) (case p of Ended st \<Rightarrow> pure st | Again wt' \<Rightarrow> observe_loop n W ep x about wt')
     (\<lambda>st s. genuine x about st \<and> watched x s0 (state_text (rs_state st)) s)
     (\<lambda>e s. lost_post W ep x s0 e s \<or> e = WatchOutOfFuel \<and> (\<exists>b. watching x s0 b s))" for p
    using Suc by (cases p) (auto simp: pass_post_simps)
  then show ?case by (simp, intro triple_seq[OF observe_pass_post]) auto
qed

lemma observe_run_post:
  "triple (\<lambda>s. s = s0) (observe_run n W ep x about)
     (\<lambda>st s. genuine x about st \<and> watched x s0 (state_text (rs_state st)) s)
     (\<lambda>e s. lost_post W ep x s0 e s \<or> e = WatchOutOfFuel \<and> (\<exists>b. watching x s0 b s))"
  unfolding observe_run_def cpeek_def
proof (rule triple_bind[OF triple_gets[of _ "\<lambda>_. watching x s0 False"]])
  show "triple (watching x s0 False) (observe_loop n W ep x about \<lparr>wt_cancel_sent = False, wt_warned = False, wt_warned_owner = False, wt_delay = quarter,
      wt_last_state = None, wt_fast_until = now + watch_fast\<rparr>) (\<lambda>st s. genuine x about st \<and> watched x s0 (state_text (rs_state st)) s)
     (\<lambda>e s. lost_post W ep x s0 e s \<or> e = WatchOutOfFuel \<and> (\<exists>b. watching x s0 b s))" for now
    by (rule observe_loop_post[where wt = "\<lparr>wt_cancel_sent = False, wt_warned = False, wt_warned_owner = False, wt_delay = quarter,
      wt_last_state = None, wt_fast_until = now + watch_fast\<rparr>", simplified])
qed (simp add: watching_def)

text \<open>
  C3. A watched run ends only with a genuine outcome. When the watch returns, the status is terminal, it has the identity
  of the run, and the run ID of the receipt; when it raises, the unit that holds the run is really lost or was
  replaced. In both cases exactly one record is written and nothing of the run is kept; until then everything
  of it is kept. At most one cancel is ever sent, for this run and not before its deadline.
\<close>

theorem watch_outcome_genuine:
  fixes W :: "'w watch_world"
  assumes "observe_run fuel W ep x about s = (r, s')"
  shows "(\<forall>st. r = Inr st \<longrightarrow> genuine x about st \<and> watched x s (state_text (rs_state st)) s')
    \<and> (\<forall>e. r = Inl e \<longrightarrow> e = WatchOwnerLost \<and> owner_gone W ep s' \<and> watched x s ''unknown'' s'
         \<or> e = WatchOutOfFuel \<and> (\<exists>b. watching x s b s'))"
proof (cases r)
  case (Inl e)
  then show ?thesis using tripleE[OF observe_run_post, of s s fuel W ep x about e s'] assms by auto
next
  case (Inr st)
  then show ?thesis using tripleD[OF observe_run_post, of s s fuel W ep x about st s'] assms by auto
qed

text \<open>A world in which the unit answers at once.\<close>

definition demo_status :: run_status where
  "demo_status = \<lparr>rs_invocation_id = ''i'', rs_channel = ''c'', rs_workspace_ref = ''w'', rs_session_ref = ''s'', rs_run_id = Some ''r'',
     rs_config_version = replicate 64 (CHR ''a''), rs_deadline_at = 3, rs_state = RunCompleted, rs_error = None, rs_result = JNull\<rparr>"

definition demo_watch_world :: "int watch_world" where
  "demo_watch_world = \<lparr>cw_clock = id, cw_sleep = (\<lambda>t w. w + t), cw_active = (\<lambda>k w. Some demo_unit), cw_lost = (\<lambda>i w. False), cw_cancel = (\<lambda>ep c w. w),
     cw_status = (\<lambda>ep i w. (Some demo_status, w))\<rparr>"

definition demo_cstate :: "int cstate" where
  "demo_cstate = \<lparr>cs_prepared = [''i'' \<mapsto> (demo_unit, example_start)], cs_started_run = [''i'' \<mapsto> ''r''], cs_w = 5, cs_log = []\<rparr>"

definition demo_about :: run_about where
  "demo_about = \<lparr>ab_started_run_id = Some ''r'', ab_event = None, ab_priced = True\<rparr>"

lemmas watch_run_defs = observe_run_def observe_pass_def send_deadline_cancel_def check_owner_def observed_status_def record_run_def forget_run_def cnote_def
  cpeek_def cdo_def andThen_def eff_simps

theorem watch_outcome_genuine_witness:
  "\<exists>s'. observe_run 1 demo_watch_world demo_unit (ExpRequest example_start) demo_about demo_cstate = (Inr demo_status, s')
    \<and> cs_prepared s' ''i'' = None \<and> (\<exists>l. cs_log s' = cs_log demo_cstate @ l \<and> length (cancels l) \<le> 1)"
proof -
  obtain s' where s': "observe_run 1 demo_watch_world demo_unit (ExpRequest example_start) demo_about demo_cstate = (Inr demo_status, s')"
    by (simp add: watch_run_defs numeral_eq_Suc demo_watch_world_def demo_cstate_def demo_about_def demo_unit_def demo_status_def example_start_def
        validate_status_def status_matches_def final_states_def ex_deadline_at_def ex_invocation_id_def)
  from watch_outcome_genuine[OF s'] have "watched (ExpRequest example_start) demo_cstate (state_text RunCompleted) s'" by (simp add: demo_status_def)
  then show ?thesis using s' by (auto simp: watched_def ex_invocation_id_def example_start_def)
qed

end
