(* ===== verification/Runtime_Config.thy ===== *)
theory Runtime_Config
  imports Channel_Config State_Ref Json_Text
begin

text \<open>
  The rest of \<open>config/schema.py\<close>, with \<open>config/canonical.py\<close> and \<open>config/public.py\<close>: the runtime configuration, its validators, its
  version, and the projection that units get.

  \<open>pydantic\<close>'s decoding of JSON into the block models is a parameter (\<open>decode\<close>), as are the canonical form of JSON (\<open>rfc8785\<close>) and SHA-256. The
  validators that the code itself declares are definitions; they are run over the decoded records.
\<close>

section \<open>Blocks\<close>

datatype model_type = MtOpenai | MtGemini | MtAnthropic

datatype effort = EffortMinimal | EffortLow | EffortMedium | EffortHigh | EffortXhigh

record thinking_block =
  th_enabled :: bool
  th_effort :: "effort option"

record model_block =
  mb_name :: string
  mb_type :: model_type
  mb_params :: dict
  mb_thinking :: thinking_block

record model_limits =
  ml_context :: int
  ml_output :: int

text \<open>\<open>HeaderLiteral\<close> or, with the name of an environment variable, \<open>SecretAlias\<close>.\<close>

datatype header_value = HeaderLiteral string | HeaderAlias string

record standalone_model = model_block +
  sm_base_url :: string
  sm_headers :: "(string \<times> header_value) list"
  sm_limits :: "model_limits option"

record ach_model = model_block +
  xm_limits :: "model_limits option"

record mcp_server =
  ms_name :: string
  ms_url :: string
  ms_headers :: "(string \<times> header_value) list"

record standalone_server =
  ss_model :: standalone_model
  ss_mcp_servers :: "mcp_server list"

record exchange_key =
  xk_identity :: string
  xk_environment :: string
  xk_token_path :: string

datatype ach_key = StaticKey string | ExchangedKey exchange_key

record ach_server =
  as_base_url :: string
  as_environment :: string
  as_key :: ach_key
  as_model :: ach_model
  as_mcp_servers :: "mcp_server list"

record filter_exclude =
  fe_tools :: "string list"
  fe_mcp_servers :: "string list"
  fe_skills :: "string list"

datatype server_kind = ServerStandalone | ServerAch

record capability_block =
  cp_server :: server_kind
  cp_standalone :: "standalone_server option"
  cp_ach :: "ach_server option"
  cp_exclude :: filter_exclude

datatype engine_type = EngineOpencode | EnginePi

record compaction_block =
  cb_auto :: bool
  cb_keep_tokens :: int
  cb_buffer :: int

record engine_block =
  en_type :: engine_type
  en_env :: "(string \<times> string) list"
  en_startup_timeout_seconds :: int
  en_compaction :: compaction_block
  en_deny_tools :: "string list"

record limits_block =
  lm_max_active_workspaces :: int
  lm_max_concurrent_invocations :: int
  lm_max_concurrent_scripts :: "int option"
  lm_max_invocation_seconds :: int
  lm_max_queued_total :: int
  lm_idempotency_window_seconds :: int
  lm_max_steps :: int
  lm_max_stall_seconds :: int

datatype persistence_type = PersistNone | PersistS3 | PersistVolume

record persistence_block =
  pb_type :: persistence_type
  pb_retention_days :: "int option"

record session_policy_block =
  sp_idle_timeout_seconds :: int
  sp_retention_days :: "int option"

record workspace_block =
  wb_idle_timeout_seconds :: int
  wb_shutdown_timeout_seconds :: int
  wb_ready_timeout_seconds :: int
  wb_max_concurrent_sessions :: int
  wb_persistence :: persistence_block
  wb_session :: session_policy_block

record artifacts_block =
  af_enabled :: bool
  af_max_artifact_bytes :: nat
  af_retention_days :: int

datatype system_prompt = SystemText string | SystemFile string | SystemAch string string

record prompt_block =
  pm_system :: "system_prompt option"
  pm_replace :: bool

record hook_block =
  hk_script :: string
  hk_timeout_seconds :: int

record hooks_block =
  hs_workspace_start :: "hook_block option"
  hs_session_start :: "hook_block option"
  hs_session_restore :: "hook_block option"
  hs_session_suspend :: "hook_block option"
  hs_workspace_stop :: "hook_block option"

datatype memory_auth = MemoryAuthAch | MemoryAuthBearer string string

record memory_params =
  mp_endpoint :: string
  mp_mcp_server_id :: string
  mp_auth :: "memory_auth option"
  mp_project :: string

record runtime_config =
  rc_agent :: agent_identity
  rc_config_version :: string
  rc_capability :: capability_block
  rc_engine :: engine_block
  rc_limits :: limits_block
  rc_workspace :: workspace_block
  rc_artifacts :: artifacts_block
  rc_channels :: "channel_config list"
  rc_prompt :: "prompt_block option"
  rc_hooks :: hooks_block
  rc_memory :: "memory_params option"
  rc_facade_endpoint :: "string option"

section \<open>Validators of the blocks\<close>

datatype config_problem = BadBlock string | BadChannel channel_error

abbreviation demand_that :: "bool \<Rightarrow> string \<Rightarrow> (config_problem, unit) result" where
  "demand_that b what \<equiv> require b (BadBlock what)"

definition each :: "('a \<Rightarrow> (config_problem, unit) result) \<Rightarrow> 'a list \<Rightarrow> (config_problem, unit) result" where
  "each f xs = check_all (map f xs)"

text \<open>\<open>^https?://[^/\s]+\<close>, where pydantic's engine and Python's differ in what is white space.\<close>

definition pydantic_space :: "char \<Rightarrow> bool" where
  "pydantic_space c \<longleftrightarrow> (let n = ord c in 9 \<le> n \<and> n \<le> 13 \<or> n = 32 \<or> n = 133 \<or> n = 160)"

definition endpoint_pattern :: "(char \<Rightarrow> bool) \<Rightarrow> string \<Rightarrow> bool" where
  "endpoint_pattern space v \<longleftrightarrow>
     (\<exists>p \<in> set [''http://'', ''https://'']. prefix p v \<and> (case drop (length p) v of [] \<Rightarrow> False | c # _ \<Rightarrow> c \<noteq> CHR ''/'' \<and> \<not> space c))"

definition check_thinking :: "thinking_block \<Rightarrow> (config_problem, unit) result" where
  "check_thinking t = demand_that (th_effort t \<noteq> None \<longrightarrow> th_enabled t) ''model.thinking.effort''"

definition header_char :: "char \<Rightarrow> bool" where
  "header_char c \<longleftrightarrow> is_lower_az c \<or> is_upper_az c \<or> is_digit_09 c \<or> c \<in> set ''!#$%&*+.^_`|~-'' \<or> ord c = 39"

definition header_name_re :: "string \<Rightarrow> bool" where
  "header_name_re s \<longleftrightarrow> s \<noteq> [] \<and> (\<forall>c \<in> set s. header_char c)"

definition reserved_header_names :: "string list" where
  "reserved_header_names = [''host'', ''content-length'', ''transfer-encoding'', ''connection'', ''traceparent'', ''tracestate'',
     ''x-litellm-session-id'', ''x-litellm-trace-id'']"

definition reserved_header_prefixes :: "string list" where
  "reserved_header_prefixes = [''x-ach-'', ''langfuse_'']"

fun check_header_names :: "string list \<Rightarrow> string set \<Rightarrow> (config_problem, unit) result" where
  "check_header_names [] seen = Inr ()"
| "check_header_names (name # names) seen =
     (let lowered = lower name in
      if \<not> header_name_re name then Inl (BadBlock ''invalid header name'')
      else if lowered \<in> set reserved_header_names \<or> (\<exists>p \<in> set reserved_header_prefixes. prefix p lowered) then Inl (BadBlock ''reserved header'')
      else if lowered \<in> seen then Inl (BadBlock ''duplicate header'')
      else check_header_names names (insert lowered seen))"

definition check_alias :: "header_value \<Rightarrow> (config_problem, unit) result" where
  "check_alias h = demand_that (case h of HeaderLiteral _ \<Rightarrow> True | HeaderAlias e \<Rightarrow> env_name_ok e) ''environment variable name''"

definition check_headers :: "(string \<times> header_value) list \<Rightarrow> (config_problem, unit) result" where
  "check_headers hs = check_all [each (check_alias \<circ> snd) hs, check_header_names (map fst hs) {}]"

definition check_model_limits :: "model_limits option \<Rightarrow> (config_problem, unit) result" where
  "check_model_limits l = demand_that (case l of None \<Rightarrow> True | Some m \<Rightarrow> 0 < ml_context m \<and> 0 < ml_output m) ''model limits''"

definition check_standalone_model :: "standalone_model \<Rightarrow> (config_problem, unit) result" where
  "check_standalone_model m = check_all
     [demand_that (endpoint_pattern pydantic_space (sm_base_url m)) ''baseUrl'', check_thinking (mb_thinking m), check_model_limits (sm_limits m), check_headers (sm_headers m)]"

definition server_name_re :: "string \<Rightarrow> bool" where
  "server_name_re s \<longleftrightarrow> (case s of [] \<Rightarrow> False
     | c # cs \<Rightarrow> (is_lower_az c \<or> is_digit_09 c) \<and> length cs \<le> 62 \<and> (\<forall>x \<in> set cs. is_lower_az x \<or> is_digit_09 x \<or> x = CHR ''_'' \<or> x = CHR ''-''))"

definition check_mcp_server :: "mcp_server \<Rightarrow> (config_problem, unit) result" where
  "check_mcp_server s = check_all
     [demand_that (server_name_re (ms_name s)) ''mcpServers name'', demand_that (endpoint_pattern pydantic_space (ms_url s)) ''mcpServers url'', check_headers (ms_headers s)]"

definition check_mcp_servers :: "mcp_server list \<Rightarrow> (config_problem, unit) result" where
  "check_mcp_servers ss = check_all [each check_mcp_server ss, demand_that (distinct (map ms_name ss)) ''duplicate mcpServers name'']"

definition check_standalone_server :: "standalone_server \<Rightarrow> (config_problem, unit) result" where
  "check_standalone_server s = check_all [check_standalone_model (ss_model s), check_mcp_servers (ss_mcp_servers s)]"

definition check_ach_key :: "ach_key \<Rightarrow> (config_problem, unit) result" where
  "check_ach_key k = demand_that (case k of StaticKey e \<Rightarrow> env_name_ok e
     | ExchangedKey x \<Rightarrow> xk_identity x \<noteq> [] \<and> xk_environment x \<noteq> [] \<and> prefix ''/'' (xk_token_path x)) ''capability.ach.key''"

definition check_ach_server :: "ach_server \<Rightarrow> (config_problem, unit) result" where
  "check_ach_server s = check_all
     [check_ach_key (as_key s), check_thinking (mb_thinking (as_model s)), check_model_limits (xm_limits (as_model s)), check_mcp_servers (as_mcp_servers s),
      demand_that (case as_key s of StaticKey _ \<Rightarrow> True | ExchangedKey _ \<Rightarrow> prefix ''https://'' (as_base_url s)) ''key.exchange needs https'',
      demand_that (case as_key s of StaticKey _ \<Rightarrow> True | ExchangedKey x \<Rightarrow> xk_environment x = as_environment s) ''key.exchange environment'']"

definition check_capability :: "capability_block \<Rightarrow> (config_problem, unit) result" where
  "check_capability c = check_all
     [case cp_standalone c of None \<Rightarrow> Inr () | Some s \<Rightarrow> check_standalone_server s,
      case cp_ach c of None \<Rightarrow> Inr () | Some s \<Rightarrow> check_ach_server s,
      demand_that (if cp_server c = ServerStandalone then cp_standalone c \<noteq> None \<and> cp_ach c = None else cp_ach c \<noteq> None \<and> cp_standalone c = None) ''capability server'',
      demand_that (\<not> (cp_server c = ServerStandalone \<and> fe_skills (cp_exclude c) \<noteq> [])) ''filter.exclude.skills'']"

definition pi_native_tools :: "string list" where
  "pi_native_tools = [''read'', ''bash'', ''edit'', ''write'', ''grep'', ''find'', ''ls'', ''codemode'', ''tool_search'']"

definition lift_channel :: "(channel_error, unit) result \<Rightarrow> (config_problem, unit) result" where
  "lift_channel r = (case r of Inl e \<Rightarrow> Inl (BadChannel e) | Inr u \<Rightarrow> Inr u)"

definition check_engine :: "engine_block \<Rightarrow> (config_problem, unit) result" where
  "check_engine e = check_all
     [each (lift_channel \<circ> check_engine_env_name \<circ> fst) (en_env e), demand_that (0 < en_startup_timeout_seconds e) ''startupTimeoutSeconds'',
      demand_that (0 < cb_keep_tokens (en_compaction e) \<and> 0 \<le> cb_buffer (en_compaction e)) ''compaction'',
      demand_that (\<forall>n \<in> set (en_deny_tools e). n \<noteq> [] \<and> CHR ''.'' \<notin> set n) ''denyTools name'', demand_that (distinct (en_deny_tools e)) ''denyTools duplicate'',
      demand_that (en_type e = EnginePi \<longrightarrow> set (en_deny_tools e) \<subseteq> set pi_native_tools) ''denyTools of pi'']"

definition check_limits :: "limits_block \<Rightarrow> (config_problem, unit) result" where
  "check_limits l = demand_that
     (0 < lm_max_active_workspaces l \<and> 0 < lm_max_concurrent_invocations l \<and> (case lm_max_concurrent_scripts l of None \<Rightarrow> True | Some n \<Rightarrow> 0 < n)
      \<and> 0 < lm_max_invocation_seconds l \<and> 0 < lm_max_queued_total l \<and> 0 \<le> lm_idempotency_window_seconds l \<and> 0 < lm_max_steps l \<and> 0 < lm_max_stall_seconds l) ''limits''"

definition check_workspace :: "workspace_block \<Rightarrow> (config_problem, unit) result" where
  "check_workspace w =
     (let p = pb_retention_days (wb_persistence w); s = sp_retention_days (wb_session w) in check_all
      [demand_that (0 < wb_idle_timeout_seconds w \<and> 0 < wb_shutdown_timeout_seconds w \<and> 0 < wb_ready_timeout_seconds w \<and> 0 < wb_max_concurrent_sessions w
         \<and> 0 < sp_idle_timeout_seconds (wb_session w) \<and> (p \<noteq> None \<longrightarrow> 0 < the p) \<and> (s \<noteq> None \<longrightarrow> 0 < the s)) ''workspace'',
       demand_that ((pb_type (wb_persistence w) = PersistNone) = (p = None)) ''persistence.retentionDays'',
       demand_that (\<not> (s \<noteq> None \<and> p \<noteq> None \<and> the s > the p)) ''session.retentionDays''])"

definition session_retention_days :: "workspace_block \<Rightarrow> int option" where
  "session_retention_days w = (case sp_retention_days (wb_session w) of Some d \<Rightarrow> Some d | None \<Rightarrow> pb_retention_days (wb_persistence w))"

definition no_escape :: "string \<Rightarrow> bool" where
  "no_escape v \<longleftrightarrow> \<not> prefix ''/'' v \<and> ''..'' \<notin> set (posix_parts v)"

definition check_prompt :: "prompt_block \<Rightarrow> (config_problem, unit) result" where
  "check_prompt p = demand_that (case pm_system p of
       Some (SystemFile f) \<Rightarrow> no_escape f
     | Some (SystemAch a f) \<Rightarrow> (a = [] \<or> no_escape a) \<and> (f = [] \<or> no_escape f) \<and> strip a \<noteq> []
     | _ \<Rightarrow> True) ''prompt.system''"

definition check_hook :: "hook_block \<Rightarrow> (config_problem, unit) result" where
  "check_hook h = demand_that (0 < hk_timeout_seconds h \<and> hk_timeout_seconds h \<le> 3600 \<and> strip (hk_script h) \<noteq> []) ''hook''"

definition all_hooks :: "hooks_block \<Rightarrow> hook_block list" where
  "all_hooks h = concat (map (\<lambda>x. case x of None \<Rightarrow> [] | Some b \<Rightarrow> [b])
     [hs_workspace_start h, hs_session_start h, hs_session_restore h, hs_session_suspend h, hs_workspace_stop h])"

definition check_memory_params :: "memory_params \<Rightarrow> (config_problem, unit) result" where
  "check_memory_params m = check_all
     [demand_that (case mp_auth m of Some (MemoryAuthBearer _ h) \<Rightarrow> header_name_re h | _ \<Rightarrow> True) ''memory auth header'',
      demand_that ((mp_endpoint m \<noteq> []) \<noteq> (mp_mcp_server_id m \<noteq> [])) ''memory location'']"

section \<open>The whole configuration\<close>

definition model_of :: "runtime_config \<Rightarrow> model_block" where
  "model_of c =
     (case cp_ach (rc_capability c) of
        Some a \<Rightarrow> model_block.truncate (as_model a)
      | None \<Rightarrow> model_block.truncate (ss_model (the (cp_standalone (rc_capability c)))))"

definition identity_environment :: "runtime_config \<Rightarrow> string" where
  "identity_environment c = (case cp_ach (rc_capability c) of Some a \<Rightarrow> as_environment a | None \<Rightarrow> ai_namespace (rc_agent c))"

definition check_memory :: "runtime_config \<Rightarrow> (config_problem, unit) result" where
  "check_memory c =
     (case rc_memory c of
        None \<Rightarrow> Inr ()
      | Some p \<Rightarrow>
         (case cp_ach (rc_capability c) of
            Some a \<Rightarrow> demand_that (\<not> (mp_mcp_server_id p \<in> set (map ms_name (as_mcp_servers a)) \<and> mp_auth p = Some MemoryAuthAch)) ''memory auth to a foreign server''
          | None \<Rightarrow> check_all
             [demand_that (mp_auth p \<noteq> Some MemoryAuthAch) ''memory auth ach'',
              demand_that (\<not> (mp_mcp_server_id p \<noteq> [] \<and> mp_mcp_server_id p \<notin> set (map ms_name (ss_mcp_servers (the (cp_standalone (rc_capability c))))))) ''memory mcpServerId'']))"

definition check_timeouts :: "runtime_config \<Rightarrow> (config_problem, unit) result" where
  "check_timeouts c =
     (let limit = lm_max_invocation_seconds (rc_limits c) in
      check_all (concat (map (\<lambda>ch.
          [demand_that (case ch_handoff ch of None \<Rightarrow> True | Some b \<Rightarrow> sc_timeout_seconds b \<le> limit) ''handoff timeout'',
           demand_that (case ch_script ch of None \<Rightarrow> True | Some b \<Rightarrow> sc_timeout_seconds b \<le> limit) ''script timeout'']) (rc_channels c))
        @ map (\<lambda>h. demand_that (case h of None \<Rightarrow> True | Some b \<Rightarrow> hk_timeout_seconds b \<le> limit) ''hook timeout'')
            [hs_session_start (rc_hooks c), hs_session_restore (rc_hooks c)]))"

definition check_runtime_config :: "runtime_config \<Rightarrow> (config_problem, unit) result" where
  "check_runtime_config c = check_all
     [demand_that (canonical_uuid (ai_uid (rc_agent c))) ''agent.uid'', demand_that (hex64 (rc_config_version c)) ''configVersion'',
      check_capability (rc_capability c), check_engine (rc_engine c), check_limits (rc_limits c), check_workspace (rc_workspace c),
      demand_that (0 < af_max_artifact_bytes (rc_artifacts c) \<and> 0 \<le> af_retention_days (rc_artifacts c)) ''artifacts'',
      each (\<lambda>ch. lift_channel (validate_channel ch)) (rc_channels c),
      (case rc_prompt c of None \<Rightarrow> Inr () | Some p \<Rightarrow> check_prompt p), each check_hook (all_hooks (rc_hooks c)),
      (case rc_memory c of None \<Rightarrow> Inr () | Some m \<Rightarrow> check_memory_params m),
      demand_that (case rc_facade_endpoint c of None \<Rightarrow> True | Some e \<Rightarrow> endpoint_pattern is_space e) ''facadeEndpoint'',
      demand_that (\<not> (en_type (rc_engine c) = EnginePi \<and> mb_type (model_of c) \<noteq> MtOpenai)) ''pi model'',
      check_memory c,
      demand_that (\<not> ((\<exists>ch \<in> set (rc_channels c). ch_handoff ch \<noteq> None) \<and> wb_max_concurrent_sessions (rc_workspace c) \<noteq> 1)) ''handoff sessions'',
      check_timeouts c]"

definition header_allowed :: "string \<Rightarrow> bool" where
  "header_allowed n \<longleftrightarrow> header_name_re n \<and> lower n \<notin> set reserved_header_names \<and> (\<forall>p \<in> set reserved_header_prefixes. \<not> prefix p (lower n))"

lemma header_names_checked:
  "check_header_names ns seen = Inr u \<Longrightarrow> distinct (map lower ns) \<and> lower ` set ns \<inter> seen = {} \<and> (\<forall>n \<in> set ns. header_allowed n)"
proof (induction ns arbitrary: seen)
  case (Cons n ns)
  have head: "header_allowed n" "lower n \<notin> seen" "check_header_names ns (insert (lower n) seen) = Inr u"
    using Cons.prems by (simp_all add: Let_def header_allowed_def split: if_split_asm)
  show ?case using Cons.IH[OF head(3)] head(1,2) by auto
qed simp

end
