(* ===== verification/Control_Runs.thy ===== *)
theory Control_Runs
  imports Control Runtime_Config
begin

text \<open>
  The rest of \<open>harness/control.py\<close> that a run goes through: the health of a new unit, the request that is prepared, and the
  run from its start to its record; and the headers of upstream services.
\<close>

section \<open>The health of a unit\<close>

datatype health_error = HealthTimeout | HealthRejected int | ReleaseMismatch json string | HealthOutOfFuel

record health_response =
  hp_status :: int
  hp_instance_id :: string
  hp_body :: dict

text \<open>\<open>hw_get\<close> is \<open>None\<close> when the request failed or timed out.\<close>

record 'w health_world =
  hw_monotonic :: "'w \<Rightarrow> int"
  hw_sleep :: "int \<Rightarrow> 'w \<Rightarrow> 'w"
  hw_get :: "int \<Rightarrow> 'w \<Rightarrow> health_response option \<times> 'w"

definition health_poll_interval :: int where "health_poll_interval = 100000"

definition health_retryable :: "int set" where "health_retryable = {408, 429, 500, 502, 503, 504}"

fun wait_mini_health :: "nat \<Rightarrow> 'w health_world \<Rightarrow> string \<Rightarrow> int \<Rightarrow> 'w \<Rightarrow> (health_error, string) result \<times> 'w" where
  "wait_mini_health 0 H version deadline w = (Inl HealthOutOfFuel, w)"
| "wait_mini_health (Suc n) H version deadline w =
     (let remaining = deadline - hw_monotonic H w in
      if remaining \<le> 0 then (Inl HealthTimeout, w)
      else case hw_get H (min 10000000 remaining) w of
        (r, w1) \<Rightarrow>
          (case r of
             None \<Rightarrow> wait_mini_health n H version deadline (hw_sleep H (min health_poll_interval (max 0 (deadline - hw_monotonic H w1))) w1)
           | Some p \<Rightarrow>
               if hp_status p \<in> health_retryable
               then wait_mini_health n H version deadline (hw_sleep H (min health_poll_interval (max 0 (deadline - hw_monotonic H w1))) w1)
               else if hp_status p \<noteq> 200 \<or> hp_instance_id p = [] then (Inl (HealthRejected (hp_status p)), w1)
               else if dict_get (hp_body p) ''release'' JNull \<noteq> JStr version
               then (Inl (ReleaseMismatch (dict_get (hp_body p) ''release'' JNull) (hp_instance_id p)), w1)
               else (Inr (hp_instance_id p), w1)))"

text \<open>The clock does not go back, and a sleep lasts as long as it is asked to.\<close>

definition health_clock_ok :: "'w health_world \<Rightarrow> bool" where
  "health_clock_ok H \<longleftrightarrow> (\<forall>w t. hw_monotonic H w \<le> hw_monotonic H (snd (hw_get H t w)) \<and> hw_monotonic H w + t \<le> hw_monotonic H (hw_sleep H t w))"

lemma health_enough:
  "health_clock_ok H \<Longrightarrow> 0 < n \<Longrightarrow> deadline - hw_monotonic H w \<le> (int n - 1) * health_poll_interval \<Longrightarrow>
   fst (wait_mini_health n H version deadline w) \<noteq> Inl HealthOutOfFuel"
proof (induction n arbitrary: w)
  case (Suc n)
  show ?case
  proof (cases "deadline - hw_monotonic H w \<le> 0")
    case True
    then show ?thesis by simp
  next
    case False
    obtain r w1 where get: "hw_get H (min 10000000 (deadline - hw_monotonic H w)) w = (r, w1)" by fastforce
    let ?nap = "min health_poll_interval (max 0 (deadline - hw_monotonic H w1))"
    let ?w2 = "hw_sleep H ?nap w1"
    have clock: "hw_monotonic H w \<le> hw_monotonic H w1" "hw_monotonic H w1 + ?nap \<le> hw_monotonic H ?w2"
      using Suc.prems(1) get unfolding health_clock_ok_def by (metis snd_conv, blast)
    have n: "0 < n" using Suc.prems(3) False by (cases n) (auto simp: health_poll_interval_def)
    have "deadline - hw_monotonic H ?w2 \<le> (int n - 1) * health_poll_interval"
    proof (cases "health_poll_interval \<le> deadline - hw_monotonic H w1")
      case True
      then have "hw_monotonic H w1 + health_poll_interval \<le> hw_monotonic H ?w2" using clock(2) by (simp add: health_poll_interval_def)
      then show ?thesis using Suc.prems(3) clock(1) by (simp add: health_poll_interval_def algebra_simps)
    next
      case False
      then have "deadline \<le> hw_monotonic H ?w2" using clock(2) by (auto simp: min_def max_def split: if_splits)
      then show ?thesis using n by (simp add: health_poll_interval_def)
    qed
    from Suc.IH[OF Suc.prems(1) n this] show ?thesis using False get by (simp add: Let_def split: option.split)
  qed
qed simp

text \<open>
  The probe of a new unit ends. With a clock that does not go back and sleeps that last, a probe with one turn for every tenth
  of a second up to its deadline, and one more, never runs out of turns: it returns the unit's instance, or says why
  it does not.
\<close>

theorem health_probe_ends:
  assumes "health_clock_ok H"
  shows "fst (wait_mini_health (nat ((deadline - hw_monotonic H w) div health_poll_interval) + 2) H version deadline w) \<noteq> Inl HealthOutOfFuel"
proof (rule health_enough[OF assms])
  let ?d = "deadline - hw_monotonic H w"
  show "?d \<le> (int (nat (?d div health_poll_interval) + 2) - 1) * health_poll_interval"
    using div_mult_mod_eq[of ?d health_poll_interval] pos_mod_bound[of health_poll_interval ?d]
    by (cases "0 \<le> ?d div health_poll_interval") (auto simp: health_poll_interval_def algebra_simps)
qed simp

definition tick_health :: "int health_world" where
  "tick_health = \<lparr>hw_monotonic = id, hw_sleep = (\<lambda>t w. w + max 0 t),
     hw_get = (\<lambda>t w. (if w < 150000 then None else Some \<lparr>hp_status = 200, hp_instance_id = ''u1'', hp_body = [(''release'', JStr ''1'')]\<rparr>, w))\<rparr>"

theorem health_probe_ends_witness: "fst (wait_mini_health 12 tick_health ''1'' 1000000 0) = Inr ''u1'' \<and> fst (wait_mini_health 12 tick_health ''1'' 1000000 0) \<noteq> Inl HealthOutOfFuel"
proof -
  have "health_clock_ok tick_health" by (simp add: health_clock_ok_def tick_health_def)
  from health_probe_ends[OF this, of 1000000 0 "''1''"] have "fst (wait_mini_health 12 tick_health ''1'' 1000000 0) \<noteq> Inl HealthOutOfFuel"
    by (simp add: tick_health_def health_poll_interval_def)
  moreover have "fst (wait_mini_health 12 tick_health ''1'' 1000000 0) = Inr ''u1''"
    by (simp add: numeral_eq_Suc tick_health_def health_poll_interval_def health_retryable_def Let_def dict_get_def)
  ultimately show ?thesis by blast
qed

section \<open>The request of a run\<close>

datatype prep_error = ChannelGone | PrepSyntax prompt_error | PrepRejected | PrepStep string

definition channel_type_text :: "channel_type \<Rightarrow> string" where
  "channel_type_text t = (case t of CtWebhook \<Rightarrow> ''webhook'' | CtWebhookScript \<Rightarrow> ''webhook-script'' | CtCron \<Rightarrow> ''cron'' | CtQueue \<Rightarrow> ''queue'' | CtA2a \<Rightarrow> ''a2a'')"

definition channel_source_text :: "channel_source option \<Rightarrow> string" where
  "channel_source_text s = (case s of None \<Rightarrow> [] | Some SrcGitlab \<Rightarrow> ''gitlab'' | Some SrcGithub \<Rightarrow> ''github'' | Some SrcGeneric \<Rightarrow> ''generic'')"

definition prompt_context :: "string \<Rightarrow> channel_config \<Rightarrow> routed_event \<Rightarrow> dict" where
  "prompt_context agent ch routed =
     (let ev = re_event routed in
      [(''payload'', JObj (ev_payload ev)),
       (''event'', JObj (dict_merge [(''id'', JStr (ev_id ev)), (''channel'', JStr (ev_channel ev)), (''type'', JStr (ev_type ev))] (ev_context ev))),
       (''internal'', JObj
         [(''channel'', JObj [(''name'', JStr (ch_name ch)), (''type'', JStr (channel_type_text (ch_type ch))), (''source'', JStr (channel_source_text (ch_source ch)))]),
          (''agent'', JObj [(''name'', JStr agent)]), (''event'', JObj [(''id'', JStr (ev_id ev))]),
          (''session'', JObj [(''key'', JStr (re_session_key routed))]), (''memory'', JObj [(''bank'', JStr [])])])])"

definition base_prompt :: "string \<Rightarrow> channel_config \<Rightarrow> routed_event \<Rightarrow> (prep_error, string) result" where
  "base_prompt agent ch routed =
     (let payload = ev_payload (re_event routed); text = dict_get payload ''text'' JNull in
      if ch_prompt ch \<noteq> None \<and> ch_prompt ch \<noteq> Some []
      then (case render_prompt (the (ch_prompt ch)) (prompt_context agent ch routed) of Inl e \<Rightarrow> Inl (PrepSyntax e) | Inr p \<Rightarrow> Inr p)
      else if truthy text then Inr (py_str text)
      else Inr (json_sorted (JObj payload)))"

text \<open>\<open>memory\<close> is \<open>None\<close> without a memory block; \<open>texts\<close> are the two A2A instructions, the first when there is a progress facade.\<close>

definition full_prompt :: "string \<Rightarrow> (bool \<times> string) option \<Rightarrow> bool \<Rightarrow> bool \<Rightarrow> string \<times> string \<Rightarrow> string" where
  "full_prompt prompt memory is_a2a progress texts =
     (let sep = [chr 10, chr 10];
          p1 = (case memory of None \<Rightarrow> prompt | Some (_, section) \<Rightarrow> prompt @ sep @ section) in
      if \<not> is_a2a then p1 else (if progress then p1 @ sep @ fst texts else p1) @ sep @ snd texts)"

definition start_request_of ::
  "delivery_ticket \<Rightarrow> string \<Rightarrow> channel_config \<Rightarrow> routed_event \<Rightarrow> (bool \<times> string) option \<Rightarrow> bool \<Rightarrow> string \<Rightarrow> start_request" where
  "start_request_of t version ch routed memory progress prompt =
     \<lparr>sq_invocation_id = dt_invocation_id t, sq_channel = ev_channel (re_event routed), sq_workspace_ref = dt_workspace_ref t,
      sq_session_ref = dt_session_ref t, sq_workspace_key = re_workspace_key routed, sq_session_key = re_session_key routed,
      sq_config_version = version, sq_prompt = prompt, sq_deadline_at = dt_deadline_at t, sq_memory_available = map_option fst memory,
      sq_inform_user = (ch_type ch = CtA2a \<and> progress)\<rparr>"

text \<open>The calls that \<open>_prepare\<close> makes: restoring the session, configuring the unit, transferring context and handoff, and memory.\<close>

record 'w prep_world =
  pw_restore :: "'w \<Rightarrow> (string, unit) result \<times> 'w"
  pw_configure :: "'w \<Rightarrow> (string, unit) result \<times> 'w"
  pw_transfer :: "'w \<Rightarrow> (string, unit) result \<times> 'w"
  pw_handoff :: "handoff_block \<Rightarrow> 'w \<Rightarrow> (string, unit) result \<times> 'w"
  pw_memory :: "'w \<Rightarrow> bool \<times> string \<times> 'w"

record prep_config =
  pc_agent :: string
  pc_version :: string
  pc_channels :: "channel_config list"
  pc_lifecycle :: bool
  pc_downloads :: bool
  pc_memory :: bool
  pc_progress :: bool
  pc_texts :: "string \<times> string"

definition pstep :: "('w \<Rightarrow> (string, unit) result \<times> 'w) \<Rightarrow> ('w cstate, prep_error, unit) eff" where
  "pstep f s = (case f (cs_w s) of (r, w) \<Rightarrow> ((case r of Inl m \<Rightarrow> Inl (PrepStep m) | Inr _ \<Rightarrow> Inr ()), s\<lparr>cs_w := w\<rparr>))"

definition pmemory :: "bool \<Rightarrow> 'w prep_world \<Rightarrow> ('w cstate, prep_error, (bool \<times> string) option) eff" where
  "pmemory configured P s =
     (if configured then (case pw_memory P (cs_w s) of (ok, section, w) \<Rightarrow> (Inr (Some (ok, section)), s\<lparr>cs_w := w\<rparr>)) else (Inr None, s))"

definition prepare ::
  "prep_config \<Rightarrow> 'w prep_world \<Rightarrow> delivery_ticket \<Rightarrow> routed_event \<Rightarrow> ws_endpoint \<Rightarrow> ('w cstate, prep_error, start_request) eff" where
  "prepare C P t routed ep =
     andThen (if pc_lifecycle C then pstep (pw_restore P) else pure ()) (\<lambda>_.
     andThen (pstep (pw_configure P)) (\<lambda>_.
     case find (\<lambda>c. ch_name c = ev_channel (re_event routed)) (pc_channels C) of
       None \<Rightarrow> throw ChannelGone
     | Some ch \<Rightarrow>
         andThen (if pc_downloads C then pstep (pw_transfer P) else pure ()) (\<lambda>_.
         andThen (case ch_handoff ch of Some h \<Rightarrow> pstep (pw_handoff P h) | None \<Rightarrow> pure ()) (\<lambda>_.
         case base_prompt (pc_agent C) ch routed of
           Inl e \<Rightarrow> throw e
         | Inr prompt \<Rightarrow>
             andThen (pmemory (pc_memory C) P) (\<lambda>memory.
             let q = start_request_of t (pc_version C) ch routed memory (pc_progress C)
                       (full_prompt prompt memory (ch_type ch = CtA2a) (pc_progress C) (pc_texts C)) in
             if \<not> start_request_ok q then throw PrepRejected
             else andThen (modify (\<lambda>s. s\<lparr>cs_prepared := (cs_prepared s)(dt_invocation_id t \<mapsto> (ep, q))\<rparr>)) (\<lambda>_. pure q))))))"

text \<open>
  C24. What control prepares, delivery accepts. Every request that \<open>prepare\<close> returns is one that the wire can carry, matches
  the ticket and the configuration that delivery checks it against, and is retained for the run; so
  delivery never refuses a prepared request as foreign. When preparation raises, nothing new is retained.
\<close>

theorem prepared_request_accepted:
  assumes "prepare C P t routed ep s = (r, s')"
  shows "(\<forall>q. r = Inr q \<longrightarrow> start_request_ok q \<and> matches_ticket (D\<lparr>dl_config_version := pc_version C\<rparr>) t q
      \<and> cs_prepared s' = (cs_prepared s)(dt_invocation_id t \<mapsto> (ep, q)))
    \<and> (\<forall>e. r = Inl e \<longrightarrow> cs_prepared s' = cs_prepared s)"
proof -
  have kept: "triple (\<lambda>s. cs_prepared s = p) (pstep f) (\<lambda>_ s. cs_prepared s = p) (\<lambda>_ s. cs_prepared s = p)" for p and f :: "'a \<Rightarrow> (string, unit) result \<times> 'a"
    by (auto simp: triple_def pstep_def split: prod.split sum.split)
  have mem: "triple (\<lambda>s. cs_prepared s = p) (pmemory b P) (\<lambda>_ s. cs_prepared s = p) (\<lambda>_ s. cs_prepared s = p)" for p b
    by (auto simp: triple_def pmemory_def split: prod.split)
  let ?D = "D\<lparr>dl_config_version := pc_version C\<rparr>"
  let ?Q = "\<lambda>p q s. start_request_ok q \<and> matches_ticket ?D t q \<and> cs_prepared s = p(dt_invocation_id t \<mapsto> (ep, q))"
  have fin: "triple (\<lambda>s. cs_prepared s = p) (let q = start_request_of t (pc_version C) ch routed memory progress prompt in
      if \<not> start_request_ok q then throw PrepRejected
      else andThen (modify (\<lambda>s. s\<lparr>cs_prepared := (cs_prepared s)(dt_invocation_id t \<mapsto> (ep, q))\<rparr>)) (\<lambda>_. pure q)) (?Q p) (\<lambda>_ s. cs_prepared s = p)"
    for p ch memory progress prompt by (auto simp: triple_def andThen_def eff_simps matches_ticket_def start_request_of_def Let_def)
  have step: "triple (\<lambda>s. cs_prepared s = p) (case x of Some h \<Rightarrow> pstep (f h) | None \<Rightarrow> pure ()) (\<lambda>_ s. cs_prepared s = p) (\<lambda>_ s. cs_prepared s = p)"
    for p x and f :: "handoff_block \<Rightarrow> 'a \<Rightarrow> (string, unit) result \<times> 'a" by (cases x) (auto intro: kept)
  have "triple (\<lambda>s. cs_prepared s = p) (prepare C P t routed ep) (?Q p) (\<lambda>_ s. cs_prepared s = p)" for p
  proof (cases "find (\<lambda>c. ch_name c = ev_channel (re_event routed)) (pc_channels C)")
    case None
    then show ?thesis unfolding prepare_def by (auto intro!: triple_bind[of _ _ "\<lambda>_ s. cs_prepared s = p"] kept)
  next
    case (Some ch)
    show ?thesis unfolding prepare_def Some option.case
      by (cases "base_prompt (pc_agent C) ch routed")
        (simp_all only: sum.case, (intro triple_bind[of _ _ "\<lambda>_ s. cs_prepared s = p"] triple_if kept step mem fin triple_pure triple_throw; assumption)+)
  qed
  from this[of "cs_prepared s"] show ?thesis using assms unfolding triple_def by (cases r) force+
qed

definition demo_channel :: channel_config where
  "demo_channel = \<lparr>ch_name = ''c'', ch_type = CtA2a, ch_concurrency = 1, ch_source = None, ch_routing = None, ch_rate_limit = None,
     ch_prompt = Some ''Hi {{ payload.who }}'', ch_webhook = None, ch_handoff = None, ch_script = None, ch_cron = None, ch_queue = None, ch_a2a = None\<rparr>"

definition demo_ticket :: delivery_ticket where
  "demo_ticket = \<lparr>dt_namespace = ''n'', dt_agent_uid = ''u'', dt_invocation_id = ''i'', dt_workspace_ref = ''w'', dt_session_ref = ''s'', dt_deadline_at = 3\<rparr>"

definition demo_event :: event where
  "demo_event = \<lparr>ev_id = ''e'', ev_channel = ''c'', ev_type = ''t'', ev_source = [], ev_payload = [(''who'', JStr ''you'')], ev_context = [], ev_actor = []\<rparr>"

definition demo_prep :: prep_config where
  "demo_prep = \<lparr>pc_agent = ''a'', pc_version = replicate 64 (CHR ''a''), pc_channels = [demo_channel], pc_lifecycle = False, pc_downloads = False,
     pc_memory = False, pc_progress = False, pc_texts = ([], ''reply'')\<rparr>"

definition demo_prep_world :: "int prep_world" where
  "demo_prep_world = \<lparr>pw_restore = (\<lambda>w. (Inr (), w)), pw_configure = (\<lambda>w. (Inr (), w)), pw_transfer = (\<lambda>w. (Inr (), w)),
     pw_handoff = (\<lambda>h w. (Inr (), w)), pw_memory = (\<lambda>w. (True, [], w))\<rparr>"

definition demo_routed :: routed_event where
  "demo_routed = \<lparr>re_event = demo_event, re_workspace_key = ''wk'', re_session_key = ''sk'', re_rate_keys = []\<rparr>"

lemma demo_fields: "ch_name demo_channel = ''c''" "ch_type demo_channel = CtA2a" "ch_handoff demo_channel = None" "ch_prompt demo_channel = Some ''Hi {{ payload.who }}''"
    "re_event demo_routed = demo_event" "ev_channel demo_event = ''c''" "re_workspace_key demo_routed = ''wk''" "re_session_key demo_routed = ''sk''"
  by (simp_all add: demo_channel_def demo_event_def demo_routed_def)

lemma demo_rendered: "base_prompt ''a'' demo_channel demo_routed = Inr ''Hi you''"
proof -
  have "render_prompt ''Hi {{ payload.who }}'' (prompt_context ''a'' demo_channel demo_routed) = Inr ''Hi you''" by code_simp
  then show ?thesis by (simp add: base_prompt_def Let_def demo_fields)
qed

lemma demo_prepared:
  "\<exists>q s'. prepare demo_prep demo_prep_world demo_ticket demo_routed demo_unit demo_cstate = (Inr q, s') \<and> sq_prompt q = ''Hi you'' @ [chr 10, chr 10] @ ''reply''"
proof -
  have "hex64 (replicate 64 (CHR ''a''))" by code_simp
  then show ?thesis
    by (simp add: prepare_def demo_prep_def demo_prep_world_def pstep_def pmemory_def andThen_def eff_simps demo_rendered start_request_of_def
        full_prompt_def start_request_ok_def demo_ticket_def demo_fields Let_def)
qed

theorem prepared_request_accepted_witness:
  "\<exists>q s'. prepare demo_prep demo_prep_world demo_ticket demo_routed demo_unit demo_cstate = (Inr q, s')
      \<and> sq_prompt q = ''Hi you'' @ [chr 10, chr 10] @ ''reply'' \<and> sq_invocation_id q = ''i'' \<and> cs_prepared s' ''i'' = Some (demo_unit, q)"
proof -
  obtain q s' where p: "prepare demo_prep demo_prep_world demo_ticket demo_routed demo_unit demo_cstate = (Inr q, s')"
      and prompt: "sq_prompt q = ''Hi you'' @ [chr 10, chr 10] @ ''reply''" using demo_prepared by blast
  have "matches_ticket (d\<lparr>dl_config_version := pc_version demo_prep\<rparr>) demo_ticket q \<and> cs_prepared s' = (cs_prepared demo_cstate)(dt_invocation_id demo_ticket \<mapsto> (demo_unit, q))" for d
    using prepared_request_accepted[OF p] by blast
  then show ?thesis using p prompt by (auto simp: matches_ticket_def demo_ticket_def)
qed

section \<open>A run from start to record\<close>

text \<open>How \<open>delivery.start\<close> ended, and what its preparation retained.\<close>

datatype start_end = StartedRun string | StartUnknown | StartGateway | StartTimedOut | StartFailed

datatype run_error = RunGateway | RunStartFailed | RunNotRetained | RunWatch watch_error

definition run_event ::
  "nat \<Rightarrow> 'w watch_world \<Rightarrow> ('w \<Rightarrow> (start_end \<times> (ws_endpoint \<times> start_request) option) \<times> 'w) \<Rightarrow> delivery_ticket \<Rightarrow> event \<Rightarrow> bool \<Rightarrow>
   ('w cstate, run_error, run_status) eff" where
  "run_event fuel W deliver t ev priced s =
     (case deliver (cs_w s) of ((ended, kept), w) \<Rightarrow>
        let iid = dt_invocation_id t;
            s1 = s\<lparr>cs_w := w, cs_prepared := (case kept of None \<Rightarrow> cs_prepared s | Some pq \<Rightarrow> (cs_prepared s)(iid \<mapsto> pq))\<rparr>;
            alarmed = (\<lambda>m. s1\<lparr>cs_log := cs_log s1 @ [WatchAlarm m], cs_prepared := (cs_prepared s1)(iid := None)\<rparr>);
            watch = (\<lambda>started s2. case cs_prepared s2 iid of
               None \<Rightarrow> (Inl RunNotRetained, s2)
             | Some (ep, q) \<Rightarrow>
                 let s3 = (case started of None \<Rightarrow> s2
                   | Some rid \<Rightarrow> s2\<lparr>cs_log := cs_log s2 @ [TicketStarted iid], cs_started_run := (cs_started_run s2)(iid \<mapsto> rid)\<rparr>) in
                 case observe_run fuel W ep (ExpRequest q) \<lparr>ab_started_run_id = started, ab_event = Some ev, ab_priced = priced\<rparr> s3 of
                   (Inl e, s4) \<Rightarrow> (Inl (RunWatch e), s4)
                 | (Inr st, s4) \<Rightarrow> (Inr st, s4)) in
        case ended of
          StartedRun rid \<Rightarrow> watch (Some rid) s1
        | StartUnknown \<Rightarrow> watch None s1
        | StartGateway \<Rightarrow> (Inl RunGateway, alarmed ''gateway_unavailable'')
        | StartTimedOut \<Rightarrow> (Inl RunStartFailed, alarmed (if dt_deadline_at t \<le> cw_clock W w then ''invocation deadline exceeded'' else ''run start failed''))
        | StartFailed \<Rightarrow> (Inl RunStartFailed, alarmed ''run start failed''))"

lemma watched_forgets: "watched x s0 o' s \<Longrightarrow> cs_prepared s (ex_invocation_id x) = None \<and> cs_started_run s (ex_invocation_id x) = None"
  by (simp add: watched_def)

text \<open>
  C23. A run that is over leaves nothing behind. However it ends, except that the watch is still going on, control keeps neither
  the request nor the run ID of the run; a status that it returns is a terminal status of the request that was
  prepared, with the run ID of the receipt if there was one; and an ambiguous start is watched, never reported as failed.
\<close>

theorem run_leaves_nothing:
  assumes "run_event fuel W deliver t ev priced s = (r, s')" "deliver (cs_w s) = ((ended, kept), w)"
    and "\<And>ep q. kept = Some (ep, q) \<Longrightarrow> sq_invocation_id q = dt_invocation_id t"
    and "cs_prepared s (dt_invocation_id t) = None" "cs_started_run s (dt_invocation_id t) = None"
  shows "(r \<noteq> Inl (RunWatch WatchOutOfFuel) \<longrightarrow> cs_prepared s' (dt_invocation_id t) = None \<and> cs_started_run s' (dt_invocation_id t) = None)
    \<and> (\<forall>st. r = Inr st \<longrightarrow> rs_state st \<in> final_states \<and> (\<exists>ep q. kept = Some (ep, q) \<and> status_matches st q) \<and> (\<forall>rid. ended = StartedRun rid \<longrightarrow> rs_run_id st = Some rid))
    \<and> (ended = StartUnknown \<and> kept \<noteq> None \<longrightarrow> r \<noteq> Inl RunStartFailed \<and> r \<noteq> Inl RunGateway \<and> r \<noteq> Inl RunNotRetained)"
proof (cases "ended \<in> {StartGateway, StartTimedOut, StartFailed} \<or> kept = None")
  case True
  then show ?thesis using assms by (cases ended) (auto simp: run_event_def Let_def)
next
  case False
  then obtain ep q where k: "kept = Some (ep, q)" by auto
  obtain started where st: "ended = (case started of Some rid \<Rightarrow> StartedRun rid | None \<Rightarrow> StartUnknown)"
    using False by (cases ended) (auto intro: that[of "Some _"] that[of None])
  let ?ab = "\<lparr>ab_started_run_id = started, ab_event = Some ev, ab_priced = priced\<rparr>"
  obtain s3 r4 where o: "observe_run fuel W ep (ExpRequest q) ?ab s3 = (r4, s')" and r: "r = (case r4 of Inl e \<Rightarrow> Inl (RunWatch e) | Inr st \<Rightarrow> Inr st)"
    using assms(1,2) k st by (cases started) (auto simp: run_event_def Let_def split: prod.splits sum.splits)
  have id: "ex_invocation_id (ExpRequest q) = dt_invocation_id t" using assms(3)[OF k] by (simp add: ex_invocation_id_def)
  show ?thesis
  proof (cases r4)
    case (Inl e)
    then show ?thesis using tripleE[OF observe_run_post refl, of fuel W ep "ExpRequest q" ?ab s3 e s'] o r st id watched_forgets[of "ExpRequest q" s3 _ s']
      by (cases started) auto
  next
    case (Inr status)
    then have "genuine (ExpRequest q) ?ab status" "watched (ExpRequest q) s3 (state_text (rs_state status)) s'" using tripleD[OF observe_run_post refl, of fuel W ep "ExpRequest q" ?ab s3 status s'] o by auto
    then show ?thesis using r st id k watched_forgets[of "ExpRequest q" s3 _ s'] Inr
      by (cases started) (auto simp: genuine_def validate_status_def)
  qed
qed

theorem run_leaves_nothing_witness:
  "\<exists>s'. run_event 1 demo_watch_world (\<lambda>w. ((StartedRun ''r'', Some (demo_unit, example_start)), w)) demo_ticket demo_event True
      (demo_cstate\<lparr>cs_prepared := Map.empty, cs_started_run := Map.empty\<rparr>) = (Inr demo_status, s') \<and> cs_prepared s' ''i'' = None \<and> cs_started_run s' ''i'' = None"
proof -
  let ?s = "demo_cstate\<lparr>cs_prepared := Map.empty, cs_started_run := Map.empty\<rparr>" and ?d = "\<lambda>w. ((StartedRun ''r'', Some (demo_unit, example_start)), w)"
  obtain s' where r: "run_event 1 demo_watch_world ?d demo_ticket demo_event True ?s = (Inr demo_status, s')"
    by (simp add: run_event_def watch_run_defs demo_watch_world_def demo_cstate_def demo_ticket_def demo_unit_def demo_status_def example_start_def
        validate_status_def status_matches_def final_states_def ex_deadline_at_def ex_invocation_id_def Let_def)
  have "?d (cs_w ?s) = ((StartedRun ''r'', Some (demo_unit, example_start)), cs_w ?s)" by simp
  from run_leaves_nothing[OF r this] have "cs_prepared s' (dt_invocation_id demo_ticket) = None" "cs_started_run s' (dt_invocation_id demo_ticket) = None"
    by (auto simp: example_start_def demo_ticket_def)
  then show ?thesis using r by (simp add: demo_ticket_def)
qed

section \<open>Headers of upstream services\<close>

text \<open>\<open>resolve_headers\<close>: the headers and, of those, the secret values; \<open>Inl\<close> names the header and its unset variable.\<close>

fun resolve_headers :: "(string \<times> header_value) list \<Rightarrow> (string \<Rightarrow> string option) \<Rightarrow> (string \<times> string, (string \<times> string) list \<times> string list) result" where
  "resolve_headers [] env = Inr ([], [])"
| "resolve_headers ((name, HeaderLiteral v) # hs) env = bind_res (resolve_headers hs env) (\<lambda>(d, ss). Inr ((name, v) # d, ss))"
| "resolve_headers ((name, HeaderAlias e) # hs) env =
     (case env e of
        None \<Rightarrow> Inl (name, e)
      | Some v \<Rightarrow> if v = [] then Inl (name, e) else bind_res (resolve_headers hs env) (\<lambda>(d, ss). Inr ((name, v) # d, v # ss)))"

definition merge_headers :: "(string \<times> string) list \<Rightarrow> (string \<times> string) list \<Rightarrow> (string \<times> string) list" where
  "merge_headers base over = dict_merge (filter (\<lambda>(n, v). lower n \<notin> lower ` fst ` set over) base) over"

definition header_unset :: "(string \<Rightarrow> string option) \<Rightarrow> header_value \<Rightarrow> bool" where
  "header_unset env h = (case h of HeaderLiteral v \<Rightarrow> False | HeaderAlias e \<Rightarrow> env e = None \<or> env e = Some [])"

definition header_secret :: "(string \<Rightarrow> string option) \<Rightarrow> header_value \<Rightarrow> string list" where
  "header_secret env h = (case h of HeaderLiteral v \<Rightarrow> [] | HeaderAlias e \<Rightarrow> [the (env e)])"

definition header_text :: "(string \<Rightarrow> string option) \<Rightarrow> header_value \<Rightarrow> string" where
  "header_text env h = (case h of HeaderLiteral v \<Rightarrow> v | HeaderAlias e \<Rightarrow> the (env e))"

text \<open>
  Resolution succeeds exactly when every environment alias is set and nonempty; then it gives every configured header its value, and
  the secrets are exactly the values that came from the environment, so that all of them can be redacted.
\<close>

lemma resolve_headers_exact:
  "(\<forall>(n, h) \<in> set hs. \<not> header_unset env h) \<Longrightarrow>
   resolve_headers hs env = Inr (map (\<lambda>(n, h). (n, header_text env h)) hs, concat (map (\<lambda>(n, h). header_secret env h) hs))"
  by (induction hs env rule: resolve_headers.induct) (auto simp: header_unset_def header_text_def header_secret_def bind_res_def split: option.splits)

lemma resolve_headers_unset:
  "(\<exists>(n, h) \<in> set hs. header_unset env h) \<Longrightarrow> \<exists>n e. resolve_headers hs env = Inl (n, e) \<and> (n, HeaderAlias e) \<in> set hs \<and> header_unset env (HeaderAlias e)"
proof (induction hs env rule: resolve_headers.induct)
  case (2 name v hs env)
  then have "\<exists>(n, h) \<in> set hs. header_unset env h" by (auto simp: header_unset_def)
  from "2.IH"[OF this] show ?case by auto
next
  case (3 name e hs env)
  show ?case
  proof (cases "header_unset env (HeaderAlias e)")
    case True
    then show ?thesis by (auto simp: header_unset_def)
  next
    case False
    then obtain v where v: "env e = Some v" "v \<noteq> []" by (auto simp: header_unset_def)
    have "\<exists>(n, h) \<in> set hs. header_unset env h" using "3.prems" False by auto
    from "3.IH"[OF v this] v show ?thesis by auto
  qed
qed simp

lemma resolved_names: "resolve_headers hs env = Inr (d, ss) \<Longrightarrow> map fst d = map fst hs"
  by (induction hs env arbitrary: d ss rule: resolve_headers.induct) (auto split: option.splits if_splits)

lemma dict_set_new: "k \<notin> fst ` set d \<Longrightarrow> dict_set d k v = d @ [(k, v)]"
  by (induction d k v rule: dict_set.induct) auto

lemma dict_merge_disjoint: "fst ` set d \<inter> fst ` set e = {} \<Longrightarrow> distinct (map fst e) \<Longrightarrow> dict_merge d e = d @ e"
proof (induction e arbitrary: d)
  case (Cons kv e)
  obtain k v where kv: "kv = (k, v)" by fastforce
  have "dict_merge d (kv # e) = dict_merge (d @ [(k, v)]) e" using Cons.prems(1) by (simp add: dict_merge_def kv dict_set_new)
  also have "\<dots> = (d @ [(k, v)]) @ e" using Cons.prems by (intro Cons.IH) (auto simp: kv)
  finally show ?case by (simp add: kv)
qed (simp add: dict_merge_def)

text \<open>
  One value per upstream header. When the configured headers of a service pass validation and resolve, merging other headers over them
  gives a dict in which no two names agree up to case: all of the other headers, and of the configured ones
  exactly those that they do not name. No configured header is one that the runtime reserves.
\<close>

theorem upstream_headers_single:
  assumes "check_headers hs = Inr ()" "resolve_headers hs env = Inr (base, ss)" "distinct (map (lower \<circ> fst) over)"
  shows "distinct (map (lower \<circ> fst) (merge_headers base over))
    \<and> set (merge_headers base over) = set over \<union> {(n, v) \<in> set base. lower n \<notin> lower ` fst ` set over}
    \<and> (\<forall>(n, v) \<in> set base. header_allowed n)"
proof -
  let ?keep = "filter (\<lambda>(n, v). lower n \<notin> lower ` fst ` set over) base"
  have names: "distinct (map lower (map fst base))" "\<forall>n \<in> set (map fst base). header_allowed n"
    using assms(1) header_names_checked[of "map fst hs" "{}"] resolved_names[OF assms(2)] by (auto simp: check_headers_def)
  have "distinct (map fst over)" using assms(3) by (metis distinct_map map_map)
  then have merged: "merge_headers base over = ?keep @ over"
    unfolding merge_headers_def by (intro dict_merge_disjoint) force+
  have "distinct (map (lower \<circ> fst) ?keep)" using names(1) by (simp add: distinct_map_filter)
  moreover have "set (map (lower \<circ> fst) ?keep) \<inter> set (map (lower \<circ> fst) over) = {}" by force
  ultimately have "distinct (map (lower \<circ> fst) (merge_headers base over))" unfolding merged using assms(3) by simp
  moreover have "set (merge_headers base over) = set over \<union> {(n, v) \<in> set base. lower n \<notin> lower ` fst ` set over}" unfolding merged by auto
  ultimately show ?thesis using names(2) by auto
qed

theorem upstream_headers_single_witness:
  "\<exists>base. resolve_headers [(''X-Key'', HeaderAlias ''K''), (''Accept'', HeaderLiteral ''b'')] [''K'' \<mapsto> ''s''] = Inr (base, [''s''])
    \<and> set (merge_headers base [(''x-key'', ''t'')]) = {(''x-key'', ''t''), (''Accept'', ''b'')}"
proof -
  let ?hs = "[(''X-Key'', HeaderAlias ''K''), (''Accept'', HeaderLiteral ''b'')]" and ?b = "[(''X-Key'', ''s''), (''Accept'', ''b'')]"
  have ok: "check_headers ?hs = Inr ()" by code_simp
  have r: "resolve_headers ?hs [''K'' \<mapsto> ''s''] = Inr (?b, [''s''])" by simp
  have l: "lower ''X-Key'' = lower ''x-key''" "lower ''Accept'' \<noteq> lower ''x-key''" by code_simp+
  have "set (merge_headers ?b [(''x-key'', ''t'')]) = set [(''x-key'', ''t'')] \<union> {(n, v) \<in> set ?b. lower n \<notin> lower ` fst ` set [(''x-key'', ''t'')]}"
    using upstream_headers_single[OF ok r, of "[(''x-key'', ''t'')]"] by simp
  also have "\<dots> = {(''x-key'', ''t''), (''Accept'', ''b'')}" using l by auto
  finally show ?thesis using r by blast
qed

end
