(* ===== verification/Artifacts.thy ===== *)
theory Artifacts
  imports S3_Safety Refs Effects Tokens Runtime_Config
begin

text \<open>
  \<open>storage/artifacts.py\<close>: immutable artifacts in the bucket of \<open>S3Storage\<close>. An artifact is a body and a manifest that
  registers it, both written only if absent; its ID is a digest of its owner and an idempotency key.

  The client, the digest and the timestamps are the parameters of \<open>S3_Storage\<close>; a stream is its bytes, and the staging
  file, worker threads and cancellation are left out, as there.
\<close>

section \<open>Data\<close>

record artifact_producer =
  ap_session_ref :: string
  ap_invocation_id :: string

record artifact_metadata =
  am_artifact_id :: string
  am_owner :: state_ref
  am_producer :: artifact_producer
  am_mime :: string
  am_name :: string
  am_size :: int
  am_checksum :: string
  am_created_at :: int
  am_expires_at :: "int option"

record artifact_receipt =
  ac_artifact_id :: string
  ac_reference :: string
  ac_metadata :: artifact_metadata

datatype artifact_error =
    ArtifactDisabled
  | ArtifactTooLarge
  | ArtifactConflict
  | ArtifactNotFound
  | ArtifactExpired
  | ArtifactValueError
  | ArtifactRestoreFailed
  | ArtifactUnavailable
  | ArtifactClientError client_exc

type_synonym ('b, 'a) art = "('b, artifact_error, 'a) eff"

definition max_manifest_bytes :: nat where "max_manifest_bytes = 64 * 1024"

definition chunk_bytes :: nat where "chunk_bytes = 1024 * 1024"

definition artifact_id_of :: "(string \<Rightarrow> string) \<Rightarrow> state_ref \<Rightarrow> string \<Rightarrow> string" where
  "artifact_id_of sha256 owner idempotency_key =
     digest sha256 [''artifact-v1'', ai_namespace (sr_agent owner), ai_uid (sr_agent owner), sr_workspace_ref owner, idempotency_key]"

definition descriptor_of :: "state_ref \<Rightarrow> artifact_producer \<Rightarrow> string \<Rightarrow> string \<Rightarrow> string" where
  "descriptor_of owner p mime name =
     digest_input [ai_namespace (sr_agent owner), ai_uid (sr_agent owner), sr_workspace_ref owner, ap_session_ref p, ap_invocation_id p, mime, name]"

definition parse_date :: "iso \<Rightarrow> json \<Rightarrow> (artifact_error, int) result" where
  "parse_date I v = (case v of JStr t \<Rightarrow> (case iso_read I t of None \<Rightarrow> Inl ArtifactRestoreFailed | Some x \<Rightarrow> Inr x) | _ \<Rightarrow> Inl ArtifactRestoreFailed)"

section \<open>The manifest\<close>

definition metadata_json :: "iso \<Rightarrow> artifact_metadata \<Rightarrow> json" where
  "metadata_json I m = JObj
     [(''artifact_id'', JStr (am_artifact_id m)),
      (''owner'', JObj [(''namespace'', JStr (ai_namespace (sr_agent (am_owner m)))), (''uid'', JStr (ai_uid (sr_agent (am_owner m)))),
         (''workspace_ref'', JStr (sr_workspace_ref (am_owner m)))]),
      (''producer'', JObj [(''session_ref'', JStr (ap_session_ref (am_producer m))), (''invocation_id'', JStr (ap_invocation_id (am_producer m)))]),
      (''mime'', JStr (am_mime m)), (''name'', JStr (am_name m)), (''size'', JInt (am_size m)), (''checksum'', JStr (am_checksum m)),
      (''created_at'', JStr (iso_show I (am_created_at m))),
      (''expires_at'', case am_expires_at m of Some t \<Rightarrow> JStr (iso_show I t) | None \<Rightarrow> JNull)]"

text \<open>A dict whose keys are exactly \<open>ks\<close>, and a nonempty string.\<close>

definition exact_dict :: "string list \<Rightarrow> json option \<Rightarrow> (artifact_error, dict) result" where
  "exact_dict ks v = (case v of Some (JObj d) \<Rightarrow> if set (map fst d) = set ks then Inr d else Inl ArtifactRestoreFailed | _ \<Rightarrow> Inl ArtifactRestoreFailed)"

definition art_str :: "(string \<Rightarrow> bool) \<Rightarrow> json option \<Rightarrow> (artifact_error, string) result" where
  "art_str P v = (case v of Some (JStr s) \<Rightarrow> if P s then Inr s else Inl ArtifactRestoreFailed | _ \<Rightarrow> Inl ArtifactRestoreFailed)"

definition parse_manifest :: "iso \<Rightarrow> json \<Rightarrow> (artifact_error, artifact_metadata) result" where
  "parse_manifest I v =
     bind_res (exact_dict [''artifact_id'', ''owner'', ''producer'', ''mime'', ''name'', ''size'', ''checksum'', ''created_at'', ''expires_at''] (Some v)) (\<lambda>doc.
     bind_res (exact_dict [''namespace'', ''uid'', ''workspace_ref''] (map_of doc ''owner'')) (\<lambda>owner.
     bind_res (exact_dict [''session_ref'', ''invocation_id''] (map_of doc ''producer'')) (\<lambda>producer.
     bind_res (art_str hex64 (map_of doc ''artifact_id'')) (\<lambda>artifact_id.
     bind_res (art_str hex64 (map_of doc ''checksum'')) (\<lambda>checksum.
     bind_res (case map_of doc ''size'' of Some (JInt n) \<Rightarrow> if n < 0 then Inl ArtifactRestoreFailed else Inr n | _ \<Rightarrow> Inl ArtifactRestoreFailed) (\<lambda>size.
     bind_res (art_str (\<lambda>s. s \<noteq> []) (map_of owner ''namespace'')) (\<lambda>namespace.
     bind_res (art_str (\<lambda>s. s \<noteq> []) (map_of owner ''uid'')) (\<lambda>uid.
     bind_res (art_str (\<lambda>s. s \<noteq> []) (map_of owner ''workspace_ref'')) (\<lambda>workspace.
     bind_res (art_str (\<lambda>s. s \<noteq> []) (map_of producer ''session_ref'')) (\<lambda>session.
     bind_res (art_str (\<lambda>s. s \<noteq> []) (map_of producer ''invocation_id'')) (\<lambda>invocation.
     bind_res (art_str (\<lambda>s. s \<noteq> []) (map_of doc ''mime'')) (\<lambda>mime.
     bind_res (art_str (\<lambda>s. s \<noteq> []) (map_of doc ''name'')) (\<lambda>name.
     case make_state_ref \<lparr>ai_name = ''artifact'', ai_namespace = namespace, ai_uid = uid\<rparr> workspace ''workspace'' None of
       Inl _ \<Rightarrow> Inl ArtifactRestoreFailed
     | Inr parsed_owner \<Rightarrow>
         bind_res (parse_date I (the (map_of doc ''created_at''))) (\<lambda>created.
         bind_res (if map_of doc ''expires_at'' = Some JNull then Inr None else map_sum id Some (parse_date I (the (map_of doc ''expires_at'')))) (\<lambda>expires.
         Inr \<lparr>am_artifact_id = artifact_id, am_owner = parsed_owner, am_producer = \<lparr>ap_session_ref = session, ap_invocation_id = invocation\<rparr>,
              am_mime = mime, am_name = name, am_size = size, am_checksum = checksum, am_created_at = created, am_expires_at = expires\<rparr>)))))))))))))))"

definition blob_key :: "string \<Rightarrow> state_ref \<Rightarrow> string \<Rightarrow> string" where
  "blob_key pfx owner artifact_id = slash (slash (slash (base_key pfx owner) ''artifacts'') artifact_id) ''blob''"

definition manifest_key :: "string \<Rightarrow> state_ref \<Rightarrow> string \<Rightarrow> string" where
  "manifest_key pfx owner artifact_id = slash (slash (slash (base_key pfx owner) ''artifacts'') artifact_id) ''metadata.json''"

section \<open>Calls of the client\<close>

definition artifact_client :: "'b s3_storage \<Rightarrow> ('b, 'b s3_client) art" where
  "artifact_client S = (case st_client S of None \<Rightarrow> throw ArtifactUnavailable | Some c \<Rightarrow> pure c)"

definition client_call :: "('b \<Rightarrow> (client_exc, 'a) result \<times> 'b) \<Rightarrow> ('b, (client_exc, 'a) result) art" where
  "client_call f b = (case f b of (r, b') \<Rightarrow> (Inr r, b'))"

definition lift_res :: "(artifact_error, 'a) result \<Rightarrow> ('b, 'a) art" where
  "lift_res r b = (r, b)"

definition read_body :: "'b s3_client \<Rightarrow> string \<Rightarrow> nat \<Rightarrow> ('b, body) art" where
  "read_body C key cap =
     andThen (client_call (c_get C key)) (\<lambda>r. case r of
        Inl e \<Rightarrow> throw (ArtifactClientError e)
      | Inr (bd, n, etag) \<Rightarrow> if n > cap then throw ArtifactRestoreFailed else pure bd)"

definition head_object :: "'b s3_client \<Rightarrow> string \<Rightarrow> ('b, (metadata \<times> int) option) art" where
  "head_object C key =
     andThen (client_call (c_head C key)) (\<lambda>r. case r of
        Inl e \<Rightarrow> if is_not_found e then pure None else throw (ArtifactClientError e)
      | Inr h \<Rightarrow> pure (Some h))"

section \<open>Publishing\<close>

definition body_metadata :: "iso \<Rightarrow> artifact_metadata \<Rightarrow> string \<Rightarrow> metadata" where
  "body_metadata I m descriptor =
     [(''ach-artifact-id'', am_artifact_id m), (''ach-descriptor'', urlsafe_b64encode descriptor), (''ach-checksum'', am_checksum m),
      (''ach-size'', int_str (am_size m)), (''ach-created-at'', iso_show I (am_created_at m)),
      (''ach-expires-at'', case am_expires_at m of Some t \<Rightarrow> iso_show I t | None \<Rightarrow> ''none'')]"

text \<open>The stable fields of a stored body and its length are the ones expected.\<close>

definition body_matches :: "metadata \<Rightarrow> int \<Rightarrow> metadata \<times> int \<Rightarrow> bool" where
  "body_matches want sz h \<longleftrightarrow>
     (\<forall>k \<in> set [''ach-artifact-id'', ''ach-descriptor'', ''ach-checksum'', ''ach-size'']. map_of (fst h) k = map_of want k) \<and> snd h = sz"

definition header_json :: "string option \<Rightarrow> json" where
  "header_json v = (case v of Some t \<Rightarrow> JStr t | None \<Rightarrow> JNull)"

definition body_dates :: "iso \<Rightarrow> metadata \<Rightarrow> (artifact_error, int \<times> int option) result" where
  "body_dates I md =
     bind_res (parse_date I (header_json (map_of md ''ach-created-at''))) (\<lambda>created.
     bind_res (if map_of md ''ach-expires-at'' = Some ''none'' then Inr None
               else map_sum id Some (parse_date I (header_json (map_of md ''ach-expires-at'')))) (\<lambda>expires.
     Inr (created, expires)))"

definition with_dates :: "artifact_metadata \<Rightarrow> int \<times> int option \<Rightarrow> artifact_metadata" where
  "with_dates m d = m\<lparr>am_created_at := fst d, am_expires_at := snd d\<rparr>"

text \<open>The body: one that is there must be this very publication and gives the dates; otherwise it is written, and when that fails
  the bucket is asked again. \<open>m\<close> has the dates of a new publication.\<close>

definition adopt_body :: "'b s3_storage \<Rightarrow> artifact_metadata \<Rightarrow> string \<Rightarrow> metadata \<times> int \<Rightarrow> ('b, artifact_metadata) art" where
  "adopt_body S m descriptor h =
     (if \<not> body_matches (body_metadata (st_iso S) m descriptor) (am_size m) h then throw ArtifactConflict
      else andThen (lift_res (body_dates (st_iso S) (fst h))) (\<lambda>d. pure (with_dates m d)))"

definition publish_body :: "'b s3_storage \<Rightarrow> 'b s3_client \<Rightarrow> artifact_metadata \<Rightarrow> string \<Rightarrow> string \<Rightarrow> ('b, artifact_metadata) art" where
  "publish_body S C m descriptor data =
     (let key = blob_key (st_prefix S) (am_owner m) (am_artifact_id m) in
      andThen (head_object C key) (\<lambda>h. case h of
        Some found \<Rightarrow> adopt_body S m descriptor found
      | None \<Rightarrow>
          andThen (client_call (c_put C key (BBytes data) IfNoneMatchAny (body_metadata (st_iso S) m descriptor))) (\<lambda>r. case r of
            Inr etag \<Rightarrow> pure m
          | Inl original \<Rightarrow>
              andThen (head_object C key) (\<lambda>h2. case h2 of
                None \<Rightarrow> throw (ArtifactClientError original)
              | Some found \<Rightarrow> adopt_body S m descriptor found))))"

definition receipt_of_artifact :: "artifact_metadata \<Rightarrow> artifact_receipt" where
  "receipt_of_artifact m = \<lparr>ac_artifact_id = am_artifact_id m, ac_reference = ''artifact:'' @ am_artifact_id m, ac_metadata = m\<rparr>"

definition same_owner :: "state_ref \<Rightarrow> state_ref \<Rightarrow> bool" where
  "same_owner a b \<longleftrightarrow> ai_namespace (sr_agent a) = ai_namespace (sr_agent b) \<and> ai_uid (sr_agent a) = ai_uid (sr_agent b)
     \<and> sr_workspace_ref a = sr_workspace_ref b"

definition check_manifest_match :: "artifact_metadata \<Rightarrow> artifact_metadata \<Rightarrow> (artifact_error, artifact_receipt) result" where
  "check_manifest_match existing want =
     (if am_artifact_id existing \<noteq> am_artifact_id want \<or> \<not> same_owner (am_owner existing) (am_owner want) \<or> am_producer existing \<noteq> am_producer want
         \<or> am_mime existing \<noteq> am_mime want \<or> am_name existing \<noteq> am_name want \<or> am_size existing \<noteq> am_size want
         \<or> am_checksum existing \<noteq> am_checksum want
      then Inl ArtifactConflict
      else Inr (receipt_of_artifact (existing\<lparr>am_owner := am_owner want\<rparr>)))"

definition manifest_of_body :: "iso \<Rightarrow> body \<Rightarrow> (artifact_error, artifact_metadata) result" where
  "manifest_of_body I bd = (case bd of BDoc j \<Rightarrow> parse_manifest I j | BBytes _ \<Rightarrow> Inl ArtifactRestoreFailed)"

definition publish_manifest :: "'b s3_storage \<Rightarrow> 'b s3_client \<Rightarrow> artifact_metadata \<Rightarrow> string \<Rightarrow> ('b, artifact_receipt) art" where
  "publish_manifest S C m descriptor =
     (let key = manifest_key (st_prefix S) (am_owner m) (am_artifact_id m) in
      andThen (client_call (c_put C key (BDoc (metadata_json (st_iso S) m)) IfNoneMatchAny
        [(''ach-artifact-id'', am_artifact_id m), (''ach-checksum'', am_checksum m), (''ach-descriptor'', st_sha256 S descriptor)])) (\<lambda>r. case r of
        Inr etag \<Rightarrow> pure (receipt_of_artifact m)
      | Inl original \<Rightarrow>
          andThen (handle (read_body C key max_manifest_bytes)
             (\<lambda>e. case e of ArtifactClientError x \<Rightarrow> throw (ArtifactClientError (if is_not_found x then original else x)) | _ \<Rightarrow> throw e)) (\<lambda>raw.
          andThen (lift_res (manifest_of_body (st_iso S) raw)) (\<lambda>existing.
          lift_res (check_manifest_match existing m)))))"

definition new_metadata :: "'b s3_storage \<Rightarrow> state_ref \<Rightarrow> artifact_producer \<Rightarrow> string \<Rightarrow> string \<Rightarrow> string \<Rightarrow> string \<Rightarrow> artifacts_block \<Rightarrow> int \<Rightarrow> artifact_metadata" where
  "new_metadata S owner p key data mime name policy now =
     \<lparr>am_artifact_id = artifact_id_of (st_sha256 S) owner key, am_owner = owner, am_producer = p, am_mime = mime, am_name = name,
      am_size = int (length data), am_checksum = st_sha256 S data, am_created_at = now,
      am_expires_at = (if af_retention_days policy \<noteq> 0 then Some (now + af_retention_days policy * day_micros) else None)\<rparr>"

text \<open>\<open>now\<close> is the clock when a new publication takes its dates.\<close>

definition create_artifact ::
  "'b s3_storage \<Rightarrow> state_ref \<Rightarrow> artifact_producer \<Rightarrow> string \<Rightarrow> string \<Rightarrow> string \<Rightarrow> string \<Rightarrow> artifacts_block \<Rightarrow> int \<Rightarrow> ('b, artifact_receipt) art" where
  "create_artifact S owner p key data mime name policy now =
     andThen (artifact_client S) (\<lambda>C.
     if \<not> af_enabled policy then throw ArtifactDisabled
     else if sr_domain owner \<noteq> DomainWorkspace then throw ArtifactValueError
     else if isl (make_state_ref (sr_agent owner) (sr_workspace_ref owner) ''session'' (Some (ap_session_ref p))) then throw ArtifactValueError
     else if key = [] \<or> mime = [] \<or> name = [] \<or> ap_invocation_id p = [] then throw ArtifactValueError
     else if length data > af_max_artifact_bytes policy then throw ArtifactTooLarge
     else
       let descriptor = descriptor_of owner p mime name in
       andThen (publish_body S C (new_metadata S owner p key data mime name policy now) descriptor data) (\<lambda>m.
       publish_manifest S C m descriptor))"

section \<open>Reading\<close>

definition artifact_expired :: "artifact_metadata \<Rightarrow> int \<Rightarrow> bool" where
  "artifact_expired m now = (case am_expires_at m of Some t \<Rightarrow> now \<ge> t | None \<Rightarrow> False)"

definition read_artifact :: "'b s3_storage \<Rightarrow> state_ref \<Rightarrow> string \<Rightarrow> int \<Rightarrow> ('b, artifact_metadata) art" where
  "read_artifact S owner artifact_id now =
     andThen (artifact_client S) (\<lambda>C.
     if sr_domain owner \<noteq> DomainWorkspace then throw ArtifactValueError
     else if \<not> hex64 artifact_id then throw ArtifactNotFound
     else
       andThen (handle (read_body C (manifest_key (st_prefix S) owner artifact_id) max_manifest_bytes)
          (\<lambda>e. case e of ArtifactClientError x \<Rightarrow> if is_not_found x then throw ArtifactNotFound else throw e | _ \<Rightarrow> throw e)) (\<lambda>raw.
       andThen (lift_res (manifest_of_body (st_iso S) raw)) (\<lambda>m.
       if am_artifact_id m \<noteq> artifact_id \<or> \<not> same_owner (am_owner m) owner then throw ArtifactNotFound
       else
         let m' = m\<lparr>am_owner := owner\<rparr> in
         if artifact_expired m' now then throw ArtifactExpired else pure m')))"

text \<open>The chunks that \<open>_open\<close> yields of the verified file.\<close>

function read_chunks :: "string \<Rightarrow> string list" where
  "read_chunks data = (if data = [] then [] else take chunk_bytes data # read_chunks (drop chunk_bytes data))"
  by pat_completeness auto
termination by (relation "measure length") (auto simp: chunk_bytes_def)

declare read_chunks.simps [simp del]

definition open_artifact :: "'b s3_storage \<Rightarrow> artifact_metadata \<Rightarrow> int \<Rightarrow> ('b, string list) art" where
  "open_artifact S m now =
     (if artifact_expired m now then throw ArtifactExpired
      else
        andThen (artifact_client S) (\<lambda>C.
        andThen (client_call (c_get C (blob_key (st_prefix S) (am_owner m) (am_artifact_id m)))) (\<lambda>r. case r of
          Inl e \<Rightarrow> if is_not_found e then throw ArtifactRestoreFailed else throw (ArtifactClientError e)
        | Inr (BDoc _, n, etag) \<Rightarrow> throw ArtifactRestoreFailed
        | Inr (BBytes data, n, etag) \<Rightarrow>
            if int (length data) > am_size m then throw ArtifactRestoreFailed
            else if int (length data) \<noteq> am_size m \<or> st_sha256 S data \<noteq> am_checksum m then throw ArtifactRestoreFailed
            else pure (read_chunks data))))"

end
