(* ===== verification/Artifacts_Safety.thy ===== *)
theory Artifacts_Safety
  imports Artifacts
begin

text \<open>
  Safety of artifact publication against any number of concurrent publishers: one publication per idempotency key, and what
  is read back is what was published.
\<close>

section \<open>The contract of the bucket\<close>

text \<open>Objects at the keys \<open>A\<close>, once there, stay as they are.\<close>

definition kept :: "string set \<Rightarrow> ('b \<Rightarrow> string \<Rightarrow> (body \<times> metadata) option) \<Rightarrow> 'b \<Rightarrow> 'b \<Rightarrow> bool" where
  "kept A store b b' \<longleftrightarrow> (\<forall>k \<in> A. store b k \<noteq> None \<longrightarrow> store b' k = store b k)"

text \<open>
  What the code relies on for those keys: nothing but conditional writes reaches them, so no call of this or another
  publisher changes an object; a read returns an object that is there at its end, and not-found only if there was none;
  a conditional write that succeeds has written its object. One that fails may have been applied or not.
\<close>

definition immutable_backend :: "'b s3_client \<Rightarrow> string set \<Rightarrow> ('b \<Rightarrow> string \<Rightarrow> (body \<times> metadata) option) \<Rightarrow> bool" where
  "immutable_backend C A store \<longleftrightarrow>
     (\<forall>key b. kept A store b (snd (c_get C key b))) \<and> (\<forall>key b. kept A store b (snd (c_head C key b)))
     \<and> (\<forall>key bd md b. kept A store b (snd (c_put C key bd IfNoneMatchAny md b)))
     \<and> (\<forall>key b bd n e b'. key \<in> A \<longrightarrow> c_get C key b = (Inr (bd, n, e), b') \<longrightarrow> (\<exists>md. store b' key = Some (bd, md)))
     \<and> (\<forall>key b x b'. key \<in> A \<longrightarrow> c_get C key b = (Inl x, b') \<longrightarrow> is_not_found x \<longrightarrow> store b key = None)
     \<and> (\<forall>key b bd md e b'. key \<in> A \<longrightarrow> c_put C key bd IfNoneMatchAny md b = (Inr e, b') \<longrightarrow> store b' key = Some (bd, md))"

lemma backend_get: "immutable_backend C A store \<Longrightarrow> key \<in> A \<Longrightarrow> c_get C key b = (Inr (bd, n, e), b') \<Longrightarrow> \<exists>md. store b' key = Some (bd, md)"
  unfolding immutable_backend_def by blast

lemma kept_refl [simp]: "kept A store b b"
  by (simp add: kept_def)

lemma kept_trans: "kept A store b b' \<Longrightarrow> kept A store b' b'' \<Longrightarrow> kept A store b b''"
  by (auto simp: kept_def)

section \<open>Manifests survive the wire\<close>

definition anonymous :: "state_ref \<Rightarrow> state_ref" where
  "anonymous r = r\<lparr>sr_agent := (sr_agent r)\<lparr>ai_name := ''artifact''\<rparr>\<rparr>"

text \<open>Metadata as \<open>create_artifact\<close> makes it.\<close>

definition proper_metadata :: "artifact_metadata \<Rightarrow> bool" where
  "proper_metadata m \<longleftrightarrow>
     hex64 (am_artifact_id m) \<and> hex64 (am_checksum m) \<and> 0 \<le> am_size m \<and> am_mime m \<noteq> [] \<and> am_name m \<noteq> []
     \<and> ap_session_ref (am_producer m) \<noteq> [] \<and> ap_invocation_id (am_producer m) \<noteq> []
     \<and> ai_namespace (sr_agent (am_owner m)) \<noteq> []
     \<and> canonical_uuid (ai_uid (sr_agent (am_owner m))) \<and> hex64_match (sr_workspace_ref (am_owner m))
     \<and> sr_domain (am_owner m) = DomainWorkspace \<and> sr_session_ref (am_owner m) = None"

lemma uuid_nonempty: "canonical_uuid u \<Longrightarrow> u \<noteq> []"
  by (auto simp: canonical_uuid_def)

lemma hex64_match_nonempty: "hex64_match u \<Longrightarrow> u \<noteq> []"
  by (auto simp: hex64_match_def re_dollar_iff hex64_def)

lemma parse_date_shown [simp]: "iso_ok I \<Longrightarrow> parse_date I (JStr (iso_show I x)) = Inr x"
  by (simp add: parse_date_def iso_ok_def)

theorem manifest_roundtrip:
  assumes "iso_ok I" "proper_metadata m"
  shows "parse_manifest I (metadata_json I m) = Inr (m\<lparr>am_owner := anonymous (am_owner m)\<rparr>)"
proof -
  let ?o = "am_owner m"
  have owner: "make_state_ref \<lparr>ai_name = ''artifact'', ai_namespace = ai_namespace (sr_agent ?o), ai_uid = ai_uid (sr_agent ?o)\<rparr> (sr_workspace_ref ?o) ''workspace'' None
      = Inr (anonymous ?o)"
    using assms(2) by (simp add: proper_metadata_def make_state_ref_def check_ref_def require_def known_domain_def anonymous_def)
  show ?thesis
    using assms uuid_nonempty[of "ai_uid (sr_agent ?o)"] hex64_match_nonempty[of "sr_workspace_ref ?o"]
    by (cases "am_expires_at m") (simp_all add: parse_manifest_def metadata_json_def art_str_def exact_dict_def proper_metadata_def owner)
qed

text \<open>An owner without a namespace, which nothing forbids, gets a manifest that no reader accepts.\<close>

lemma empty_namespace_unreadable: "ai_namespace (sr_agent (am_owner m)) = [] \<Longrightarrow> parse_manifest I (metadata_json I m) = Inl ArtifactRestoreFailed"
  by (simp add: parse_manifest_def metadata_json_def art_str_def exact_dict_def bind_res_def split: sum.split)

section \<open>What is registered\<close>

text \<open>The manifest that a bucket holds for an artifact, as its owner sees it.\<close>

definition registered :: "'b s3_storage \<Rightarrow> ('b \<Rightarrow> string \<Rightarrow> (body \<times> metadata) option) \<Rightarrow> state_ref \<Rightarrow> artifact_metadata \<Rightarrow> 'b \<Rightarrow> bool" where
  "registered S store owner m b \<longleftrightarrow>
     (\<exists>j md m0. store b (manifest_key (st_prefix S) owner (am_artifact_id m)) = Some (BDoc j, md) \<and> parse_manifest (st_iso S) j = Inr m0
       \<and> same_owner (am_owner m0) owner \<and> m = m0\<lparr>am_owner := owner\<rparr>)"

lemma registered_stable:
  "registered S store owner m b \<Longrightarrow> kept A store b b' \<Longrightarrow> manifest_key (st_prefix S) owner (am_artifact_id m) \<in> A \<Longrightarrow> registered S store owner m b'"
  by (auto simp: registered_def kept_def)

lemma base_key_owner:
  "same_owner a b \<Longrightarrow> sr_domain a = DomainWorkspace \<Longrightarrow> sr_domain b = DomainWorkspace \<Longrightarrow> base_key pfx a = base_key pfx b"
  by (simp add: base_key_def same_owner_def Let_def)

lemma registered_unique:
  assumes "registered S store owner m b" "registered S store owner' m' b" "am_artifact_id m = am_artifact_id m'"
    and "same_owner owner owner'" "sr_domain owner = DomainWorkspace" "sr_domain owner' = DomainWorkspace"
  shows "m' = m\<lparr>am_owner := owner'\<rparr>"
proof -
  have key: "manifest_key (st_prefix S) owner' i = manifest_key (st_prefix S) owner i" for i
    by (simp add: manifest_key_def base_key_owner[OF assms(4-6)])
  obtain j md m0 where 1: "store b (manifest_key (st_prefix S) owner (am_artifact_id m)) = Some (BDoc j, md)" "parse_manifest (st_iso S) j = Inr m0"
      "m = m0\<lparr>am_owner := owner\<rparr>" using assms(1) unfolding registered_def by blast
  obtain j' md' m1 where 2: "store b (manifest_key (st_prefix S) owner' (am_artifact_id m')) = Some (BDoc j', md')" "parse_manifest (st_iso S) j' = Inr m1"
      "m' = m1\<lparr>am_owner := owner'\<rparr>" using assms(2) unfolding registered_def by blast
  show ?thesis using 1 2 assms(3) key by simp
qed

section \<open>Publishing registers\<close>

text \<open>The metadata that a publication asks for, up to its dates.\<close>

definition same_publication :: "artifact_metadata \<Rightarrow> artifact_metadata \<Rightarrow> bool" where
  "same_publication m n \<longleftrightarrow> with_dates m (0, None) = with_dates n (0, None)"

lemma same_publication_iff:
  "same_publication m n \<longleftrightarrow> am_artifact_id m = am_artifact_id n \<and> am_owner m = am_owner n \<and> am_producer m = am_producer n \<and> am_mime m = am_mime n
     \<and> am_name m = am_name n \<and> am_size m = am_size n \<and> am_checksum m = am_checksum n"
  by (cases m; cases n) (auto simp: same_publication_def with_dates_def)

lemma same_publication_simps [simp]: "same_publication m m" "same_publication (with_dates m d) m"
  by (simp_all add: same_publication_def with_dates_def)

lemma publish_body_post:
  "triple (\<lambda>_. True) (publish_body S C m descriptor data) (\<lambda>m' _. same_publication m' m) (\<lambda>_ _. True)"
  by (auto simp: triple_def publish_body_def adopt_body_def andThen_def eff_simps Let_def head_object_def client_call_def lift_res_def
      split: prod.splits sum.splits option.splits)

lemma proper_publication: "same_publication m n \<Longrightarrow> proper_metadata n \<Longrightarrow> proper_metadata m"
  by (simp add: same_publication_iff proper_metadata_def)

lemma matching_manifest:
  assumes "check_manifest_match m0 m = Inr r"
  shows "r = receipt_of_artifact (m0\<lparr>am_owner := am_owner m\<rparr>) \<and> same_owner (am_owner m0) (am_owner m) \<and> same_publication (m0\<lparr>am_owner := am_owner m\<rparr>) m"
  using assms by (auto simp: check_manifest_match_def same_publication_iff split: if_splits)

definition published :: "'b s3_storage \<Rightarrow> ('b \<Rightarrow> string \<Rightarrow> (body \<times> metadata) option) \<Rightarrow> artifact_metadata \<Rightarrow> artifact_receipt \<Rightarrow> 'b \<Rightarrow> bool" where
  "published S store m r b \<longleftrightarrow>
     r = receipt_of_artifact (ac_metadata r) \<and> same_publication (ac_metadata r) m \<and> registered S store (am_owner m) (ac_metadata r) b"

lemma publish_manifest_post:
  assumes "immutable_backend C A store" "manifest_key (st_prefix S) (am_owner m) (am_artifact_id m) \<in> A" "iso_ok (st_iso S)" "proper_metadata m"
  shows "triple (\<lambda>_. True) (publish_manifest S C m descriptor) (published S store m) (\<lambda>_ _. True)"
proof -
  let ?key = "manifest_key (st_prefix S) (am_owner m) (am_artifact_id m)"
  have self: "published S store m (receipt_of_artifact m) b" if "store b ?key = Some (BDoc (metadata_json (st_iso S) m), md)" for b md
    using that manifest_roundtrip[OF assms(3,4)]
    by (auto simp: published_def receipt_of_artifact_def registered_def anonymous_def same_owner_def)
  have other: "published S store m r b" if "store b ?key = Some (bd, md)" "manifest_of_body (st_iso S) bd = Inr m0" "check_manifest_match m0 m = Inr r" for b bd md m0 r
    using that matching_manifest[OF that(3)]
    by (auto simp: published_def receipt_of_artifact_def registered_def manifest_of_body_def same_publication_iff split: body.splits)
  have put: "store b' ?key = Some (bd, md)" if "c_put C ?key bd IfNoneMatchAny md b = (Inr e, b')" for bd md b e b'
    using assms(1,2) that unfolding immutable_backend_def by blast
  have get: "\<exists>md. store b' ?key = Some (bd, md)" if "c_get C ?key b = (Inr (bd, n, e), b')" for b bd n e b'
    by (rule backend_get[OF assms(1,2) that])
  show ?thesis
    unfolding triple_def publish_manifest_def Let_def
    by (auto simp: andThen_def handle_def eff_simps client_call_def lift_res_def read_body_def split: prod.splits sum.splits artifact_error.splits if_splits
        dest!: put get intro: self other)
qed

text \<open>An owner and a digest as the code has them.\<close>

definition proper_owner :: "state_ref \<Rightarrow> bool" where
  "proper_owner owner \<longleftrightarrow> make_state_ref (sr_agent owner) (sr_workspace_ref owner) ''workspace'' None = Inr owner \<and> ai_namespace (sr_agent owner) \<noteq> []"

lemma proper_ownerD:
  assumes "proper_owner owner"
  shows "canonical_uuid (ai_uid (sr_agent owner))" "hex64_match (sr_workspace_ref owner)" "sr_domain owner = DomainWorkspace" "sr_session_ref owner = None"
    "ai_namespace (sr_agent owner) \<noteq> []"
  using assms by (auto simp: proper_owner_def make_state_ref_def check_ref_def require_def known_domain_def split: if_splits) (metis state_ref.select_convs)+

definition artifact_keys :: "'b s3_storage \<Rightarrow> state_ref \<Rightarrow> string \<Rightarrow> string set" where
  "artifact_keys S owner artifact_id = {blob_key (st_prefix S) owner artifact_id, manifest_key (st_prefix S) owner artifact_id}"

text \<open>The storage of an artifact: its client meets the contract at the two keys, digests are digests, timestamps read back.\<close>

definition artifact_store :: "'b s3_storage \<Rightarrow> 'b s3_client \<Rightarrow> ('b \<Rightarrow> string \<Rightarrow> (body \<times> metadata) option) \<Rightarrow> state_ref \<Rightarrow> string \<Rightarrow> bool" where
  "artifact_store S C store owner artifact_id \<longleftrightarrow>
     st_client S = Some C \<and> iso_ok (st_iso S) \<and> (\<forall>x. hex64 (st_sha256 S x)) \<and> immutable_backend C (artifact_keys S owner artifact_id) store"

lemma andThen_pure: "andThen (pure x) f = f x"
  by (rule ext) (simp add: andThen_def eff_simps)

lemma create_artifact_post:
  assumes "artifact_store S C store owner (artifact_id_of (st_sha256 S) owner key)" "proper_owner owner"
  shows "triple (\<lambda>_. True) (create_artifact S owner p key data mime name policy now)
    (published S store (new_metadata S owner p key data mime name policy now)) (\<lambda>_ _. True)"
proof -
  let ?n = "new_metadata S owner p key data mime name policy now"
  have C: "artifact_client S = pure C" using assms(1) by (simp add: artifact_store_def artifact_client_def)
  have bk: "immutable_backend C (artifact_keys S owner (am_artifact_id ?n)) store" "iso_ok (st_iso S)"
    using assms(1) by (simp_all add: artifact_store_def new_metadata_def)
  have proper: "proper_metadata ?n"
    if "\<not> isl (make_state_ref (sr_agent owner) (sr_workspace_ref owner) ''session'' (Some (ap_session_ref p)))" "\<not> (key = [] \<or> mime = [] \<or> name = [] \<or> ap_invocation_id p = [])"
  proof -
    have "hex64_match (ap_session_ref p)"
      using that(1) by (auto simp: make_state_ref_def bind_res_def check_ref_def require_def split: sum.splits if_splits)
    then show ?thesis using that(2) proper_ownerD[OF assms(2)] assms(1) hex64_match_nonempty
      by (auto simp: proper_metadata_def new_metadata_def artifact_store_def artifact_id_of_def digest_def)
  qed
  have step: "triple (\<lambda>_. True) (andThen (publish_body S C ?n d data) (\<lambda>m. publish_manifest S C m d)) (published S store ?n) (\<lambda>_ _. True)" if n: "proper_metadata ?n" for d
  proof (rule triple_bind[OF publish_body_post])
    fix m
    show "triple (\<lambda>_. same_publication m ?n) (publish_manifest S C m d) (published S store ?n) (\<lambda>_ _. True)"
    proof (rule triple_pre[where b = "same_publication m ?n"], assumption)
      assume m: "same_publication m ?n"
      have key: "manifest_key (st_prefix S) (am_owner m) (am_artifact_id m) \<in> artifact_keys S owner (am_artifact_id ?n)"
        using m by (simp add: same_publication_iff artifact_keys_def new_metadata_def)
      show "triple (\<lambda>_. same_publication m ?n) (publish_manifest S C m d) (published S store ?n) (\<lambda>_ _. True)"
        by (rule triple_weaken[OF publish_manifest_post[OF bk(1) key bk(2) proper_publication[OF m n]]])
          (use m in \<open>auto simp: published_def same_publication_iff\<close>)
    qed
  qed
  show ?thesis
    unfolding create_artifact_def C andThen_pure Let_def by (intro triple_if triple_throw step proper) simp_all
qed

section \<open>Reading what is registered\<close>

lemma read_chunks_concat [simp]: "concat (read_chunks data) = data"
  by (induction data rule: read_chunks.induct) (subst read_chunks.simps, simp)

text \<open>What the reader gives for a registered artifact, by the answer of the bucket to the one request it makes.\<close>

definition registered_reading :: "'b s3_storage \<Rightarrow> 'b s3_client \<Rightarrow> artifact_metadata \<Rightarrow> int \<Rightarrow> 'b \<Rightarrow> (artifact_error, artifact_metadata) result" where
  "registered_reading S C m now b = (case fst (c_get C (manifest_key (st_prefix S) (am_owner m) (am_artifact_id m)) b) of
     Inl e \<Rightarrow> Inl (ArtifactClientError e)
   | Inr (bd, n, etag) \<Rightarrow> if n > max_manifest_bytes then Inl ArtifactRestoreFailed
                       else if artifact_expired m now then Inl ArtifactExpired else Inr m)"

lemma read_registered:
  assumes "artifact_store S C store owner (am_artifact_id m)" "registered S store owner m b" "am_owner m = owner" "sr_domain owner = DomainWorkspace"
    and "hex64 (am_artifact_id m)" "read_artifact S owner (am_artifact_id m) now b = (r, b')"
  shows "r = registered_reading S C m now b"
proof -
  let ?key = "manifest_key (st_prefix S) owner (am_artifact_id m)"
  obtain j md m0 where reg: "store b ?key = Some (BDoc j, md)" "parse_manifest (st_iso S) j = Inr m0" "same_owner (am_owner m0) owner" "m = m0\<lparr>am_owner := owner\<rparr>"
    using assms(2) unfolding registered_def by blast
  have C: "artifact_client S = pure C" using assms(1) by (simp add: artifact_store_def artifact_client_def)
  have kept: "kept (artifact_keys S owner (am_artifact_id m)) store b (snd (c_get C ?key b))"
    and get: "\<And>bd n e b'. c_get C ?key b = (Inr (bd, n, e), b') \<Longrightarrow> \<exists>md. store b' ?key = Some (bd, md)"
    and gone: "\<And>x b'. c_get C ?key b = (Inl x, b') \<Longrightarrow> is_not_found x \<Longrightarrow> store b ?key = None"
    using assms(1) unfolding artifact_store_def immutable_backend_def by (auto simp: artifact_keys_def)
  obtain g b1 where g: "c_get C ?key b = (g, b1)" by fastforce
  have here: "store b1 ?key = Some (BDoc j, md)" using kept g reg(1) by (auto simp: kept_def artifact_keys_def)
  show ?thesis
  proof (cases g)
    case (Inl x)
    then have "\<not> is_not_found x" using gone g reg(1) by fastforce
    then show ?thesis using assms(3-6) g Inl
      by (auto simp: registered_reading_def read_artifact_def C andThen_pure read_body_def client_call_def andThen_def handle_def eff_simps)
  next
    case (Inr x)
    obtain bd n e where x: "x = (bd, n, e)" by (cases x)
    then have "bd = BDoc j" using get[of bd n e b1] g Inr here by auto
    then show ?thesis using assms(4-6) g Inr x reg(2-4)
      by (auto simp: registered_reading_def read_artifact_def C andThen_pure read_body_def client_call_def andThen_def handle_def eff_simps lift_res_def
          manifest_of_body_def Let_def split: if_splits)
  qed
qed

lemma open_verified:
  assumes "open_artifact S m now b = (Inr chunks, b')"
  shows "st_sha256 S (concat chunks) = am_checksum m \<and> int (length (concat chunks)) = am_size m \<and> \<not> artifact_expired m now"
  using assms by (auto simp: open_artifact_def andThen_def eff_simps artifact_client_def client_call_def split: if_splits option.splits prod.splits sum.splits body.splits)

section \<open>Properties\<close>

text \<open>
  C27. One publication per idempotency key. Two publications of the same owner and key that both succeed, in any interleaving and
  whatever else publishes to the bucket, return the same receipt: same content digest and size, producer, MIME type,
  name and dates. So a key never names two contents, and a retry gets the original receipt.
\<close>

theorem artifact_published_once:
  assumes "artifact_store S C store owner (artifact_id_of (st_sha256 S) owner key)" "artifact_store S C store owner' (artifact_id_of (st_sha256 S) owner' key)"
    and "proper_owner owner" "proper_owner owner'" "same_owner owner owner'"
    and "create_artifact S owner p key data mime name policy now b = (Inr r, b1)" "create_artifact S owner' p' key data' mime' name' policy' now' c = (Inr r', c1)"
    and "kept (artifact_keys S owner (artifact_id_of (st_sha256 S) owner key)) store b1 c1"
  shows "r' = r\<lparr>ac_metadata := (ac_metadata r)\<lparr>am_owner := owner'\<rparr>\<rparr> \<and> st_sha256 S data' = st_sha256 S data \<and> length data' = length data
    \<and> p' = p \<and> mime' = mime \<and> name' = name"
proof -
  have id: "artifact_id_of (st_sha256 S) owner' key = artifact_id_of (st_sha256 S) owner key"
    using assms(5) by (simp add: artifact_id_of_def same_owner_def)
  have 1: "published S store (new_metadata S owner p key data mime name policy now) r b1"
    by (rule tripleD[OF create_artifact_post[OF assms(1,3)] TrueI assms(6)])
  have 2: "published S store (new_metadata S owner' p' key data' mime' name' policy' now') r' c1"
    by (rule tripleD[OF create_artifact_post[OF assms(2,4)] TrueI assms(7)])
  have ids: "am_artifact_id (ac_metadata r) = artifact_id_of (st_sha256 S) owner key" "am_artifact_id (ac_metadata r') = artifact_id_of (st_sha256 S) owner key"
    using 1 2 id by (auto simp: published_def same_publication_iff new_metadata_def)
  have "registered S store owner (ac_metadata r) c1"
    by (rule registered_stable[OF _ assms(8)]) (use 1 ids in \<open>auto simp: published_def new_metadata_def artifact_keys_def\<close>)
  moreover have "registered S store owner' (ac_metadata r') c1" using 2 by (simp add: published_def new_metadata_def)
  ultimately have m: "ac_metadata r' = (ac_metadata r)\<lparr>am_owner := owner'\<rparr>"
    using registered_unique ids assms(3-5) proper_ownerD(3) by metis
  have r: "r = receipt_of_artifact (ac_metadata r)" "r' = receipt_of_artifact (ac_metadata r')" using 1 2 by (simp_all add: published_def)
  have "r' = r\<lparr>ac_metadata := (ac_metadata r)\<lparr>am_owner := owner'\<rparr>\<rparr>"
    by (subst r(2), subst m, subst (3) r(1)) (simp add: receipt_of_artifact_def)
  then show ?thesis using 1 2 m by (auto simp: published_def same_publication_iff new_metadata_def)
qed


section \<open>A bucket that satisfies the contract\<close>

lemma bucket_immutable: "registry_key ''ach'' example_ref \<notin> A \<Longrightarrow> immutable_backend (bucket_client (registry_key ''ach'' example_ref)) A (\<lambda>b. map_of (snd b))"
  by (auto simp: immutable_backend_def bucket_client_def bucket_get_def bucket_head_def bucket_put_def kept_def is_not_found_def precondition_exc_def
      split: if_splits option.splits prod.splits body.splits sum.splits)

lemma bucket_artifact_store:
  "artifact_store bucket_storage (bucket_client (registry_key ''ach'' example_ref)) (\<lambda>b. map_of (snd b)) example_ref (artifact_id_of (st_sha256 bucket_storage) example_ref ''k'')"
proof -
  have "hex64 example_hex" by code_simp
  moreover have "registry_key ''ach'' example_ref \<notin> artifact_keys bucket_storage example_ref (artifact_id_of (st_sha256 bucket_storage) example_ref ''k'')" by code_simp
  ultimately show ?thesis using bucket_immutable unary_iso_ok by (simp add: artifact_store_def bucket_storage_def)
qed

lemma example_owner: "proper_owner example_ref" "same_owner example_ref example_ref"
  by code_simp+

definition example_producer :: artifact_producer where
  "example_producer = \<lparr>ap_session_ref = example_hex, ap_invocation_id = ''i''\<rparr>"

definition example_policy :: artifacts_block where
  "example_policy = \<lparr>af_enabled = True, af_max_artifact_bytes = 100, af_retention_days = 0\<rparr>"

definition example_create :: "int \<Rightarrow> bucket \<Rightarrow> (artifact_error, artifact_receipt) result \<times> bucket" where
  "example_create = create_artifact bucket_storage example_ref example_producer ''k'' ''data'' ''text/plain'' ''n'' example_policy"

definition example_metadata :: artifact_metadata where
  "example_metadata = new_metadata bucket_storage example_ref example_producer ''k'' ''data'' ''text/plain'' ''n'' example_policy 1"

definition example_descriptor :: string where
  "example_descriptor = descriptor_of example_ref example_producer ''text/plain'' ''n''"

definition example_objects :: bucket where
  "example_objects = ([],
     [(manifest_key ''ach'' example_ref example_hex, BDoc (metadata_json unary_iso example_metadata),
        [(''ach-artifact-id'', example_hex), (''ach-checksum'', example_hex), (''ach-descriptor'', example_hex)]),
      (blob_key ''ach'' example_ref example_hex, BBytes ''data'', body_metadata unary_iso example_metadata example_descriptor)])"

lemma artifact_example_keys:
  "manifest_key ''ach'' example_ref example_hex \<noteq> registry_key ''ach'' example_ref" "blob_key ''ach'' example_ref example_hex \<noteq> registry_key ''ach'' example_ref"
  "manifest_key ''ach'' example_ref example_hex \<noteq> blob_key ''ach'' example_ref example_hex"
  by code_simp+

lemma example_fields:
  "st_client bucket_storage = Some (bucket_client (registry_key ''ach'' example_ref))" "st_prefix bucket_storage = ''ach''" "st_iso bucket_storage = unary_iso"
  "st_sha256 bucket_storage x = example_hex" "am_owner example_metadata = example_ref" "am_artifact_id example_metadata = example_hex"
  "am_checksum example_metadata = example_hex" "am_size example_metadata = 4" "am_created_at example_metadata = 1" "am_expires_at example_metadata = None"
  by (simp_all add: bucket_storage_def example_metadata_def new_metadata_def artifact_id_of_def digest_def example_policy_def)

lemma example_proper: "proper_metadata example_metadata" "\<not> isl (make_state_ref (sr_agent example_ref) (sr_workspace_ref example_ref) ''session'' (Some (ap_session_ref example_producer)))"
    "sr_domain example_ref = DomainWorkspace" "ap_invocation_id example_producer \<noteq> []" "af_enabled example_policy" "af_max_artifact_bytes example_policy = 100"
  by code_simp+

lemma example_create_eq:
  "example_create t = andThen (publish_body bucket_storage (bucket_client (registry_key ''ach'' example_ref)) (with_dates example_metadata (t, None)) example_descriptor ''data'')
     (\<lambda>m. publish_manifest bucket_storage (bucket_client (registry_key ''ach'' example_ref)) m example_descriptor)"
  using example_proper
  by (simp add: example_create_def create_artifact_def artifact_client_def example_fields(1) andThen_pure Let_def example_descriptor_def example_metadata_def with_dates_def
      new_metadata_def example_policy_def)

lemmas example_run = publish_body_def publish_manifest_def andThen_def eff_simps client_call_def lift_res_def head_object_def read_body_def handle_def Let_def
  adopt_body_def bucket_client_def bucket_get_def bucket_head_def bucket_put_def example_fields artifact_example_keys artifact_example_keys[symmetric]

lemma example_created: "example_create 1 ([], []) = (Inr (receipt_of_artifact example_metadata), example_objects)"
proof -
  have "with_dates example_metadata (1, None) = example_metadata" by (simp add: with_dates_def example_metadata_def new_metadata_def example_policy_def)
  then show ?thesis by (simp add: example_create_eq example_run example_objects_def is_not_found_def not_found_exc_def)
qed

lemma example_again: "example_create 2 example_objects = (Inr (receipt_of_artifact example_metadata), example_objects)"
proof -
  have m: "body_matches (body_metadata unary_iso (with_dates example_metadata (2, None)) d) 4 (body_metadata unary_iso example_metadata d, 4)" for d
    by (simp add: body_matches_def body_metadata_def with_dates_def)
  have d: "body_dates unary_iso (body_metadata unary_iso example_metadata d) = Inr (1, None)" for d
    by (simp add: body_dates_def body_metadata_def header_json_def example_fields unary_iso_ok)
  have w: "with_dates (with_dates example_metadata (2, None)) (1, None) = example_metadata" by (simp add: with_dates_def example_metadata_def new_metadata_def example_policy_def)
  have p: "manifest_of_body unary_iso (BDoc (metadata_json unary_iso example_metadata)) = Inr (example_metadata\<lparr>am_owner := anonymous example_ref\<rparr>)"
    using manifest_roundtrip[OF unary_iso_ok example_proper(1)] by (simp add: manifest_of_body_def example_fields)
  have c: "check_manifest_match (example_metadata\<lparr>am_owner := anonymous example_ref\<rparr>) example_metadata = Inr (receipt_of_artifact example_metadata)"
    by (simp add: check_manifest_match_def example_fields same_owner_def anonymous_def) (simp add: example_metadata_def new_metadata_def)
  have f: "am_owner (with_dates example_metadata x) = example_ref" "am_artifact_id (with_dates example_metadata x) = example_hex" "am_size (with_dates example_metadata x) = 4" for x
    by (simp_all add: with_dates_def example_fields)
  show ?thesis by (simp add: example_create_eq example_run example_objects_def is_not_found_def precondition_exc_def m d w p c f max_manifest_bytes_def)
qed

theorem artifact_published_once_witness:
  "\<exists>r c. example_create 1 ([], []) = (Inr r, example_objects) \<and> example_create 2 example_objects = (Inr r, c) \<and> r = r\<lparr>ac_metadata := (ac_metadata r)\<lparr>am_owner := example_ref\<rparr>\<rparr>"
  using artifact_published_once[OF bucket_artifact_store bucket_artifact_store example_owner(1) example_owner(1,2)
      example_created[unfolded example_create_def] example_again[unfolded example_create_def] kept_refl] example_created example_again by blast


end
