(* ===== verification/Artifact_Facade.thy ===== *)
theory Artifact_Facade
  imports Control Artifacts_Safety
begin

text \<open>
  \<open>facades/artifacts.py\<close>: the artifact operations of a run and the two tools over them, from the token of a call to the
  bucket. The MCP server and its HTTP application are not modelled.
\<close>

datatype facade_error = FacadeUnauthorized string | FacadeRefused artifact_refusal | FacadeStorage artifact_error

record 'b facade_state =
  fs_bucket :: 'b
  fs_alarms :: "(string \<times> string \<times> string) list"

type_synonym ('b, 'a) facade = "('b facade_state, facade_error, 'a) eff"

definition on_bucket :: "('b, 'a) art \<Rightarrow> ('b, 'a) facade" where
  "on_bucket m s = (case m (fs_bucket s) of (r, b) \<Rightarrow> (map_sum FacadeStorage id r, s\<lparr>fs_bucket := b\<rparr>))"

definition demand :: "('e \<Rightarrow> facade_error) \<Rightarrow> ('e, 'a) result \<Rightarrow> ('b, 'a) facade" where
  "demand f r = (case r of Inl e \<Rightarrow> throw (f e) | Inr x \<Rightarrow> pure x)"

text \<open>What the operations of a run are bound to: the storage, the agent, the policy, and how ownership is asked.\<close>

record 'b facade_config =
  fc_crypto :: crypto
  fc_key :: string
  fc_storage :: "'b s3_storage option"
  fc_agent :: agent_identity
  fc_policy :: artifacts_block

definition artifact_owner :: "'b facade_config \<Rightarrow> artifact_operations \<Rightarrow> state_ref" where
  "artifact_owner F ao = \<lparr>sr_agent = fc_agent F, sr_workspace_ref = ao_owner_ref ao, sr_domain = DomainWorkspace, sr_session_ref = None\<rparr>"

definition artifact_producer_of :: "artifact_operations \<Rightarrow> artifact_producer" where
  "artifact_producer_of ao = \<lparr>ap_session_ref = ao_session_ref ao, ap_invocation_id = ao_invocation_id ao\<rparr>"

definition allowed_call :: "'b facade_config \<Rightarrow> (string \<Rightarrow> bool) \<Rightarrow> artifact_operations \<Rightarrow> string \<Rightarrow> ('b, 'b s3_storage) facade" where
  "allowed_call F owned ao token =
     andThen (demand FacadeRefused (artifact_call (fc_crypto F) (fc_key F) owned (af_enabled (fc_policy F)) (fc_storage F \<noteq> None) ao token)) (\<lambda>_.
     pure (the (fc_storage F)))"

definition operations_create ::
  "'b facade_config \<Rightarrow> (string \<Rightarrow> bool) \<Rightarrow> artifact_operations \<Rightarrow> string \<Rightarrow> string \<Rightarrow> string \<Rightarrow> string \<Rightarrow> string \<Rightarrow> int \<Rightarrow> ('b, artifact_receipt) facade" where
  "operations_create F owned ao token key data mime name now =
     andThen (allowed_call F owned ao token) (\<lambda>S.
     handle (on_bucket (create_artifact S (artifact_owner F ao) (artifact_producer_of ao) key data mime name (fc_policy F) now)) (\<lambda>e.
       andThen (modify (\<lambda>s. s\<lparr>fs_alarms := fs_alarms s @ [(ao_invocation_id ao, ao_owner_ref ao, ao_session_ref ao)]\<rparr>)) (\<lambda>_. throw e)))"

definition operations_read :: "'b facade_config \<Rightarrow> (string \<Rightarrow> bool) \<Rightarrow> artifact_operations \<Rightarrow> string \<Rightarrow> string \<Rightarrow> int \<Rightarrow> ('b, 'b s3_storage \<times> artifact_metadata) facade" where
  "operations_read F owned ao token artifact_id now =
     andThen (allowed_call F owned ao token) (\<lambda>S.
     andThen (on_bucket (read_artifact S (artifact_owner F ao) artifact_id now)) (\<lambda>m. pure (S, m)))"

text \<open>The tools. \<open>v0\<close> and \<open>v1\<close> are what control sees when the operations are resolved, \<open>owned\<close> what it answers when they are used.\<close>

definition tool_create ::
  "'b facade_config \<Rightarrow> control_view \<Rightarrow> control_view \<Rightarrow> (string \<Rightarrow> bool) \<Rightarrow> string \<Rightarrow> string \<Rightarrow> string \<Rightarrow> string \<Rightarrow> string \<Rightarrow> string \<Rightarrow> int \<Rightarrow> ('b, artifact_receipt) facade" where
  "tool_create F v0 v1 owned token invocation_id key content mime name now =
     andThen (demand FacadeUnauthorized (artifact_operations_for (fc_crypto F) (fc_key F) v0 v1 token invocation_id)) (\<lambda>ao.
     operations_create F owned ao token key (utf8 content) mime name now)"

definition b64encode :: "string \<Rightarrow> string" where
  "b64encode raw = map from_urlsafe (urlsafe_b64encode raw)"

record embedded_resource =
  er_uri :: string
  er_mime :: string
  er_blob :: string

definition tool_read ::
  "'b facade_config \<Rightarrow> control_view \<Rightarrow> control_view \<Rightarrow> (string \<Rightarrow> bool) \<Rightarrow> string \<Rightarrow> string \<Rightarrow> string \<Rightarrow> int \<Rightarrow> int \<Rightarrow> ('b, embedded_resource) facade" where
  "tool_read F v0 v1 owned token invocation_id artifact_id now later =
     andThen (demand FacadeUnauthorized (artifact_operations_for (fc_crypto F) (fc_key F) v0 v1 token invocation_id)) (\<lambda>ao.
     andThen (operations_read F owned ao token artifact_id now) (\<lambda>(S, m).
     andThen (on_bucket (open_artifact S m later)) (\<lambda>chunks.
     pure \<lparr>er_uri = ''artifact:'' @ artifact_id, er_mime = am_mime m, er_blob = b64encode (concat chunks)\<rparr>)))"

section \<open>A unit reads only what its own Workspace published\<close>

lemma andThen_Inr: "andThen m f s = (Inr y, s') \<longleftrightarrow> (\<exists>x s1. m s = (Inr x, s1) \<and> f x s1 = (Inr y, s'))"
  by (auto simp: andThen_def split: prod.splits sum.splits)

lemma on_bucket_Inr: "on_bucket m s = (Inr x, s') \<longleftrightarrow> (\<exists>b. m (fs_bucket s) = (Inr x, b) \<and> s' = s\<lparr>fs_bucket := b\<rparr>)"
  by (auto simp: on_bucket_def split: prod.splits) (metis Inl_Inr_False map_sum.simps(1) map_sum.simps(2) id_apply old.sum.exhaust sum.inject(2))

lemma demand_Inr: "demand f r s = (Inr x, s') \<longleftrightarrow> r = Inr x \<and> s' = s"
  by (auto simp: demand_def eff_simps split: sum.splits)

lemma allowed_call_Inr:
  assumes "allowed_call F owned ao token s = (Inr S, s')"
  shows "token = facade_token (fc_crypto F) (fc_key F) (ao_workspace_name ao) \<and> af_enabled (fc_policy F) \<and> fc_storage F = Some S \<and> s' = s"
  using assms by (auto simp: allowed_call_def andThen_Inr demand_Inr eff_simps artifact_call_def split: sum.splits if_splits dest: authenticated_token)

lemma read_is_registered:
  assumes "st_client S = Some C" "immutable_backend C (artifact_keys S owner artifact_id) store" "read_artifact S owner artifact_id now b = (Inr m, b')"
  shows "registered S store owner m b' \<and> am_artifact_id m = artifact_id"
proof -
  let ?key = "manifest_key (st_prefix S) owner artifact_id"
  have C: "artifact_client S = pure C" using assms(1) by (simp add: artifact_client_def)
  note run = read_artifact_def C andThen_pure handle_def read_body_def client_call_def lift_res_def Let_def eff_simps andThen_def
  obtain x b1 where get: "c_get C ?key b = (x, b1)" by fastforce
  obtain bd n e where x: "x = Inr (bd, n, e)" using assms(3) get by (cases x) (auto simp: run split: if_splits)
  then obtain m0 where "b1 = b'" "manifest_of_body (st_iso S) bd = Inr m0" "am_artifact_id m0 = artifact_id" "same_owner (am_owner m0) owner" "m = m0\<lparr>am_owner := owner\<rparr>"
    using assms(3) get by (cases "manifest_of_body (st_iso S) bd") (auto simp: run split: if_splits)
  with get x have g: "c_get C ?key b = (Inr (bd, n, e), b')" "manifest_of_body (st_iso S) bd = Inr m0"
      "am_artifact_id m0 = artifact_id" "same_owner (am_owner m0) owner" "m = m0\<lparr>am_owner := owner\<rparr>" by simp_all
  then obtain md where "store b' ?key = Some (bd, md)" using backend_get[OF assms(2) _ g(1)] by (auto simp: artifact_keys_def)
  then show ?thesis using g(2-5) by (auto simp: registered_def manifest_of_body_def split: body.splits)
qed

text \<open>
  C29. A unit reads only what its own Workspace published. When the read tool returns content, the caller holds the facade
  token of a published Workspace, the artifact is registered in the bucket under that Workspace of this agent, and the
  content has the size and the digest that are registered.
\<close>

theorem tool_reads_own_artifacts:
  assumes "tool_read F v0 v1 owned token iid artifact_id now later s = (Inr res, s')"
    and "\<And>S. fc_storage F = Some S \<Longrightarrow> \<exists>C. st_client S = Some C \<and> (\<forall>owner. immutable_backend C (artifact_keys S owner artifact_id) store)"
  shows "\<exists>v ep S owner m b data. v \<in> {v0, v1} \<and> ep \<in> snd ` set (vw_active v) \<and> token = facade_token (fc_crypto F) (fc_key F) (we_name ep)
    \<and> fc_storage F = Some S \<and> sr_agent owner = fc_agent F \<and> sr_workspace_ref owner = wr_ref (we_ref ep) \<and> am_artifact_id m = artifact_id
    \<and> registered S store owner m b \<and> er_blob res = b64encode data \<and> st_sha256 S data = am_checksum m \<and> int (length data) = am_size m \<and> er_mime res = am_mime m"
proof -
  obtain ao S m chunks s1 b1 s2 where ao: "artifact_operations_for (fc_crypto F) (fc_key F) v0 v1 token iid = Inr ao"
    and call: "allowed_call F owned ao token s = (Inr S, s1)" and read: "read_artifact S (artifact_owner F ao) artifact_id now (fs_bucket s1) = (Inr m, b1)"
    and opened: "open_artifact S m later b1 = (Inr chunks, s2)"
    and res: "res = \<lparr>er_uri = ''artifact:'' @ artifact_id, er_mime = am_mime m, er_blob = b64encode (concat chunks)\<rparr>"
    using assms(1) by (auto simp: tool_read_def operations_read_def andThen_Inr demand_Inr on_bucket_Inr eff_simps)
  have S: "fc_storage F = Some S" using allowed_call_Inr[OF call] by blast
  then obtain C where C: "st_client S = Some C" "immutable_backend C (artifact_keys S (artifact_owner F ao) artifact_id) store" using assms(2) by blast
  obtain v ep where ep: "v \<in> {v0, v1}" "ep \<in> snd ` set (vw_active v)" "token = facade_token (fc_crypto F) (fc_key F) (we_name ep)" "ao_owner_ref ao = wr_ref (we_ref ep)"
    using artifact_access[OF ao] by blast
  show ?thesis
    using ep S res open_verified[OF opened] read_is_registered[OF C read]
    by (intro exI[of _ v] exI[of _ ep] exI[of _ S] exI[of _ "artifact_owner F ao"] exI[of _ m] exI[of _ b1] exI[of _ "concat chunks"])
      (simp add: artifact_owner_def)
qed

lemma registry_not_artifact: "registry_key pfx r \<notin> artifact_keys S owner artifact_id"
  by (simp add: artifact_keys_def registry_key_def blob_key_def manifest_key_def slash_inject flat_def)

definition demo_facade :: "bucket facade_config" where
  "demo_facade = \<lparr>fc_crypto = example_crypto, fc_key = ''k'', fc_storage = Some bucket_storage, fc_agent = sr_agent example_ref, fc_policy = example_policy\<rparr>"

definition demo_own_unit :: ws_endpoint where
  "demo_own_unit = \<lparr>we_ref = \<lparr>wr_namespace = ''n'', wr_agent_uid = ''u'', wr_ref = example_hex\<rparr>, we_name = ''ws1'', we_instance_id = ''i1'', we_base_url = ''http://u''\<rparr>"

definition demo_own_view :: control_view where
  "demo_own_view = \<lparr>vw_active = [(example_hex, demo_own_unit)], vw_hooks = [], vw_lost = {}, vw_prepared = [(''i'', demo_own_unit, example_start\<lparr>sq_workspace_ref := example_hex\<rparr>)],
     vw_recovered = (\<lambda>_. None), vw_clock = 1\<rparr>"

definition demo_token :: string where "demo_token = facade_token example_crypto ''k'' ''ws1''"

lemma demo_tool_read:
  "\<exists>res s'. tool_read demo_facade demo_own_view demo_own_view (\<lambda>_. True) demo_token ''i'' example_hex 5 6 \<lparr>fs_bucket = example_objects, fs_alarms = []\<rparr> = (Inr res, s')
    \<and> er_mime res = ''text/plain''"
proof -
  have "verify_facade_token example_crypto ''k'' (facade_token example_crypto ''k'' c) = Some c" if "c \<noteq> []" for c
    using that rpartition_append[OF mac_no_dot[OF example_crypto_ok(1)]] by (simp add: verify_facade_token_def facade_token_def)
  then have tok: "verify_facade_token example_crypto ''k'' demo_token = Some ''ws1''" by (simp add: demo_token_def)
  let ?ao = "\<lparr>ao_owner_ref = example_hex, ao_session_ref = ''s'', ao_invocation_id = ''i'', ao_workspace_name = ''ws1''\<rparr>"
  have ops: "artifact_operations_for example_crypto ''k'' demo_own_view demo_own_view demo_token ''i'' = Inr ?ao"
    by (simp add: artifact_operations_for_def authenticate_facade_def tok bind_res_def owned_live_def owned_now_def current_view_def prepared_allows_def
        demo_own_view_def demo_own_unit_def example_start_def)
  have call: "allowed_call demo_facade (\<lambda>_. True) ?ao demo_token s = (Inr bucket_storage, s)" for s
    by (simp add: allowed_call_def demo_facade_def example_policy_def artifact_call_def authenticate_facade_def tok demand_def andThen_def eff_simps)
  have owner: "artifact_owner demo_facade ?ao = example_ref" by (simp add: artifact_owner_def demo_facade_def example_ref_def)
  have "hex64 example_hex" by code_simp
  then have rd: "read_artifact bucket_storage example_ref example_hex 5 example_objects = (Inr example_metadata, example_objects)"
    using manifest_roundtrip[OF unary_iso_ok example_proper(1)] example_proper(3)
    by (simp add: read_artifact_def artifact_client_def andThen_pure example_run example_objects_def manifest_of_body_def max_manifest_bytes_def
        same_owner_def anonymous_def artifact_expired_def)
  have op: "open_artifact bucket_storage example_metadata 6 example_objects = (Inr (read_chunks ''data''), example_objects)"
    by (simp add: open_artifact_def artifact_client_def andThen_pure example_run example_objects_def artifact_expired_def)
  have "am_mime example_metadata = ''text/plain''" by (simp add: example_metadata_def new_metadata_def)
  moreover have "fc_crypto demo_facade = example_crypto" "fc_key demo_facade = ''k''" by (simp_all add: demo_facade_def)
  ultimately show ?thesis by (simp add: tool_read_def ops demand_def operations_read_def call owner on_bucket_def rd op andThen_def eff_simps)
qed

theorem tool_reads_own_artifacts_witness:
  "\<exists>owner m b. sr_workspace_ref owner = example_hex \<and> registered bucket_storage (\<lambda>b. map_of (snd b)) owner m b \<and> am_mime m = ''text/plain''"
proof -
  obtain res s' where r: "tool_read demo_facade demo_own_view demo_own_view (\<lambda>_. True) demo_token ''i'' example_hex 5 6 \<lparr>fs_bucket = example_objects, fs_alarms = []\<rparr> = (Inr res, s')"
      "er_mime res = ''text/plain''" using demo_tool_read by blast
  have bk: "\<exists>C. st_client S = Some C \<and> (\<forall>owner. immutable_backend C (artifact_keys S owner example_hex) (\<lambda>b. map_of (snd b)))" if "fc_storage demo_facade = Some S" for S
    using that bucket_immutable[OF registry_not_artifact] by (auto simp: demo_facade_def example_fields)
  from tool_reads_own_artifacts[OF r(1) bk] r(2) show ?thesis
    by (auto simp: demo_facade_def demo_own_view_def demo_own_unit_def) blast
qed

end
