(* ===== verification/Config_Version.thy ===== *)
theory Config_Version
  imports Runtime_Config
begin

text \<open>
  \<open>config/canonical.py\<close>, \<open>parse_config\<close> and \<open>config/public.py\<close>: the numeric profile, the version of a configuration, and the
  projection of an accepted configuration for the units.
\<close>

section \<open>The numeric profile\<close>

definition numeric_bound :: int where "numeric_bound = 9007199254740991"

definition number_ok :: "json \<Rightarrow> bool" where
  "number_ok v =
     (case v of
        JInt n \<Rightarrow> \<bar>n\<bar> \<le> numeric_bound
      | JFloat (PyFin t q) \<Rightarrow> \<bar>q\<bar> \<le> of_int numeric_bound
      | JFloat _ \<Rightarrow> False
      | _ \<Rightarrow> True)"

text \<open>\<open>validate_json_value\<close>; \<open>Inl\<close> is the path of the first offending number.\<close>

function validate_json_value :: "json \<Rightarrow> string \<Rightarrow> (string, unit) result" where
  "validate_json_value (JObj d) path = check_all (map (\<lambda>kv. validate_json_value (snd kv) (path @ ''.'' @ fst kv)) d)"
| "validate_json_value (JList xs) path = check_all (map (\<lambda>iv. validate_json_value (snd iv) (path @ ''['' @ nat_str (fst iv) @ '']'')) (zip [0..<length xs] xs))"
| "validate_json_value JNull path = Inr ()"
| "validate_json_value (JBool b) path = Inr ()"
| "validate_json_value (JStr s) path = Inr ()"
| "validate_json_value (JInt n) path = require (number_ok (JInt n)) path"
| "validate_json_value (JFloat f) path = require (number_ok (JFloat f)) path"
  by pat_completeness auto
termination
proof (relation "measure (size \<circ> fst)")
  fix d :: dict and path kv
  assume "kv \<in> set d"
  then have "size (snd kv) < size_list (size_prod (\<lambda>_. 0) size) d" by (induction d) auto
  then show "((snd kv, path @ ''.'' @ fst kv), (JObj d, path)) \<in> measure (size \<circ> fst)" by simp
next
  fix xs :: "json list" and path iv
  assume "iv \<in> set (zip [0..<length xs] xs)"
  then have "snd iv \<in> set xs" by (metis prod.collapse set_zip_rightD)
  then have "size (snd iv) < size_list size xs + 1" by (induction xs) auto
  then show "((snd iv, path @ ''['' @ nat_str (fst iv) @ '']''), (JList xs, path)) \<in> measure (size \<circ> fst)" by simp
qed simp

text \<open>The numbers anywhere in a value.\<close>

inductive number_in :: "json \<Rightarrow> json \<Rightarrow> bool" where
  int_in: "number_in (JInt n) (JInt n)"
| float_in: "number_in (JFloat f) (JFloat f)"
| list_in: "v \<in> set xs \<Longrightarrow> number_in x v \<Longrightarrow> number_in x (JList xs)"
| obj_in: "(k, v) \<in> set d \<Longrightarrow> number_in x v \<Longrightarrow> number_in x (JObj d)"

inductive_simps number_in_simps [simp]:
  "number_in x (JInt n)" "number_in x (JFloat f)" "number_in x (JList xs)" "number_in x (JObj d)" "number_in x JNull" "number_in x (JBool b)" "number_in x (JStr s)"

lemma zip_all: "(\<forall>iv \<in> set (zip [0..<length xs] xs). P (snd iv)) \<longleftrightarrow> (\<forall>v \<in> set xs. P v)"
proof -
  have "set xs = snd ` set (zip [0..<length xs] xs)" by (simp flip: set_map)
  then show ?thesis by (auto simp only: ball_simps)
qed

lemma validate_json_exact: "validate_json_value v path = Inr () \<longleftrightarrow> (\<forall>x. number_in x v \<longrightarrow> number_ok x)"
proof (induction v path rule: validate_json_value.induct)
  case (1 d path)
  have "validate_json_value (JObj d) path = Inr () \<longleftrightarrow> (\<forall>kv \<in> set d. \<forall>x. number_in x (snd kv) \<longrightarrow> number_ok x)" using 1 by simp
  also have "\<dots> \<longleftrightarrow> (\<forall>x. number_in x (JObj d) \<longrightarrow> number_ok x)" by force
  finally show ?case .
next
  case (2 xs path)
  have "validate_json_value (JList xs) path = Inr () \<longleftrightarrow> (\<forall>iv \<in> set (zip [0..<length xs] xs). \<forall>x. number_in x (snd iv) \<longrightarrow> number_ok x)" using 2 by simp
  also have "\<dots> \<longleftrightarrow> (\<forall>v \<in> set xs. \<forall>x. number_in x v \<longrightarrow> number_ok x)" by (rule zip_all)
  also have "\<dots> \<longleftrightarrow> (\<forall>x. number_in x (JList xs) \<longrightarrow> number_ok x)" by force
  finally show ?case .
qed auto

section \<open>The version\<close>

datatype config_error =
    UnsupportedSchema string
  | BadNumber string
  | BadVersion
  | NotCanonical
  | VersionMismatch string string
  | SchemaInvalid string
  | BlockInvalid config_problem

text \<open>\<open>jcs\<close> is \<open>rfc8785.dumps\<close>, \<open>None\<close> when it raises.\<close>

definition strip_version :: "dict \<Rightarrow> dict" where
  "strip_version wire = filter (\<lambda>kv. fst kv \<noteq> ''configVersion'') wire"

definition canonical_config_bytes :: "(dict \<Rightarrow> string option) \<Rightarrow> dict \<Rightarrow> (config_error, string) result" where
  "canonical_config_bytes jcs wire =
     (case validate_json_value (JObj wire) ''$'' of
        Inl p \<Rightarrow> Inl (BadNumber p)
      | Inr _ \<Rightarrow> (case jcs (strip_version wire) of None \<Rightarrow> Inl NotCanonical | Some t \<Rightarrow> Inr t))"

definition compute_config_version :: "(dict \<Rightarrow> string option) \<Rightarrow> (string \<Rightarrow> string) \<Rightarrow> dict \<Rightarrow> (config_error, string) result" where
  "compute_config_version jcs sha256 wire = bind_res (canonical_config_bytes jcs wire) (\<lambda>t. Inr (sha256 t))"

definition parse_config ::
  "(dict \<Rightarrow> string option) \<Rightarrow> (string \<Rightarrow> string) \<Rightarrow> (dict \<Rightarrow> (string, runtime_config) result) \<Rightarrow> dict \<Rightarrow> (config_error, runtime_config) result" where
  "parse_config jcs sha256 decode raw =
     (let schema = dict_get raw ''schemaVersion'' JNull; supplied = dict_get raw ''configVersion'' JNull in
      if schema \<in> {JStr ''workspace-v1'', JStr ''workspace-v2''} then Inl (UnsupportedSchema (py_str schema))
      else case validate_json_value (JObj raw) ''$'' of
        Inl p \<Rightarrow> Inl (BadNumber p)
      | Inr _ \<Rightarrow>
          (case supplied of
             JStr version \<Rightarrow>
               if \<not> hex64 version then Inl BadVersion
               else bind_res (compute_config_version jcs sha256 raw) (\<lambda>computed.
                 if version \<noteq> computed then Inl (VersionMismatch version computed)
                 else case decode raw of
                   Inl m \<Rightarrow> Inl (SchemaInvalid m)
                 | Inr c \<Rightarrow> (case check_runtime_config c of Inl e \<Rightarrow> Inl (BlockInvalid e) | Inr _ \<Rightarrow> Inr c))
           | _ \<Rightarrow> Inl BadVersion))"

text \<open>
  C30. A configuration is accepted only under its own version. When \<open>parse_config\<close> accepts, every number in the document is finite and
  within the safe range, the supplied version is the digest of the canonical form of everything but the version itself, and
  the validators hold. Another document accepted under that version has a canonical form with the same digest: unless the digest
  collides, no field can be changed under a version.
\<close>

theorem config_version_authentic:
  assumes "parse_config jcs sha256 decode raw = Inr c"
  shows "(\<forall>x. number_in x (JObj raw) \<longrightarrow> number_ok x) \<and> check_runtime_config c = Inr () \<and> decode raw = Inr c
    \<and> (\<exists>t. jcs (strip_version raw) = Some t \<and> dict_get raw ''configVersion'' JNull = JStr (sha256 t) \<and> hex64 (sha256 t)
        \<and> (\<forall>raw' c'. parse_config jcs sha256 decode raw' = Inr c' \<and> dict_get raw' ''configVersion'' JNull = JStr (sha256 t)
             \<longrightarrow> (\<exists>t'. jcs (strip_version raw') = Some t' \<and> sha256 t' = sha256 t)))"
proof -
  have accepted: "\<exists>t. jcs (strip_version r) = Some t \<and> dict_get r ''configVersion'' JNull = JStr (sha256 t) \<and> hex64 (sha256 t)
      \<and> (\<forall>x. number_in x (JObj r) \<longrightarrow> number_ok x) \<and> check_runtime_config d = Inr () \<and> decode r = Inr d" if "parse_config jcs sha256 decode r = Inr d" for r d
  proof -
    have "validate_json_value (JObj r) ''$'' = Inr ()" using that by (auto simp: parse_config_def Let_def split: if_splits sum.splits)
    then show ?thesis
      using that validate_json_exact[of "JObj r" "''$''"]
      by (auto simp: parse_config_def Let_def compute_config_version_def canonical_config_bytes_def split: if_splits sum.splits json.splits option.splits)
  qed
  show ?thesis using accepted[OF assms] accepted by fastforce
qed

section \<open>The projection for units\<close>

record public_engine =
  pe_env :: "(string \<times> string) list"
  pe_startup_timeout_seconds :: int
  pe_compaction :: compaction_block
  pe_deny_tools :: "string list"

record public_config =
  pu_agent :: agent_identity
  pu_config_version :: string
  pu_model :: model_block
  pu_exclude :: filter_exclude
  pu_prompt :: "prompt_block option"
  pu_limits :: limits_block
  pu_engine :: public_engine
  pu_hooks :: hooks_block
  pu_facade_endpoint :: string

datatype public_error = UnapprovedName string | DriftedValue string | FacadeEndpointRequired | PublicInvalid

fun check_engine_env :: "(string \<times> string) list \<Rightarrow> (string \<times> string) list \<Rightarrow> (public_error, unit) result" where
  "check_engine_env approved [] = Inr ()"
| "check_engine_env approved ((name, v) # env) =
     (case map_of approved name of
        None \<Rightarrow> Inl (UnapprovedName name)
      | Some w \<Rightarrow> if w \<noteq> v then Inl (DriftedValue name) else check_engine_env approved env)"

text \<open>The validators of \<open>PublicConfig\<close> and its own blocks; the blocks it shares with the configuration come validated.\<close>

definition public_valid :: "public_config \<Rightarrow> bool" where
  "public_valid p \<longleftrightarrow> hex64 (pu_config_version p) \<and> 0 < pe_startup_timeout_seconds (pu_engine p) \<and> endpoint_pattern is_space (pu_facade_endpoint p)"

definition projection :: "runtime_config \<Rightarrow> (string \<times> string) list \<Rightarrow> string \<Rightarrow> public_config" where
  "projection c env endpoint =
     \<lparr>pu_agent = rc_agent c, pu_config_version = rc_config_version c, pu_model = model_of c, pu_exclude = cp_exclude (rc_capability c), pu_prompt = rc_prompt c,
      pu_limits = rc_limits c,
      pu_engine = \<lparr>pe_env = env, pe_startup_timeout_seconds = en_startup_timeout_seconds (rc_engine c), pe_compaction = en_compaction (rc_engine c),
        pe_deny_tools = en_deny_tools (rc_engine c)\<rparr>,
      pu_hooks = rc_hooks c, pu_facade_endpoint = endpoint\<rparr>"

definition public_config_of :: "runtime_config \<Rightarrow> (string \<times> string) list \<Rightarrow> (public_error, public_config) result" where
  "public_config_of c engine_env =
     bind_res (check_engine_env (en_env (rc_engine c)) engine_env) (\<lambda>_.
     case rc_facade_endpoint c of
       None \<Rightarrow> Inl FacadeEndpointRequired
     | Some e \<Rightarrow> let p = projection c engine_env e in if public_valid p then Inr p else Inl PublicInvalid)"

record execution_bootstrap =
  eb_agent :: agent_identity
  eb_facade_endpoint :: string
  eb_engine :: engine_type

definition check_bootstrap :: "execution_bootstrap \<Rightarrow> (config_problem, unit) result" where
  "check_bootstrap b = check_all
     [demand_that (canonical_uuid (ai_uid (eb_agent b))) ''agent.uid'', demand_that (endpoint_pattern is_space (eb_facade_endpoint b)) ''facadeEndpoint'']"

lemma check_engine_env_Inr: "check_engine_env approved env = Inr u \<longleftrightarrow> (\<forall>(n, v) \<in> set env. map_of approved n = Some v)"
  by (induction approved env rule: check_engine_env.induct) (auto split: option.splits)

lemma engine_env_names:
  assumes "check_engine e = Inr ()" "(n, v) \<in> set (en_env e)"
  shows "env_name_ok n \<and> n \<notin> set reserved_engine_env_exact \<and> (\<forall>p \<in> set reserved_engine_env_prefixes. \<not> prefix p n)"
  using assms by (fastforce simp: check_engine_def each_def lift_channel_def check_engine_env_name_def split: sum.splits if_splits)

text \<open>
  C31. Units get an approved and secret-free configuration. From an accepted configuration the projection is made exactly when every
  environment variable asked for has its approved value and there is a facade endpoint; its own validation never fails. No
  variable of it has a reserved name, and it does not depend on channels, memory, persistence, artifacts, or anything of the
  capability servers but the model.
\<close>

theorem public_config_exact:
  assumes "check_runtime_config c = Inr ()"
  shows "(public_config_of c env = Inr p \<longleftrightarrow> (\<forall>(n, v) \<in> set env. map_of (en_env (rc_engine c)) n = Some v) \<and> (\<exists>e. rc_facade_endpoint c = Some e \<and> p = projection c env e))
    \<and> (public_config_of c env = Inr p \<longrightarrow>
         (\<forall>(n, v) \<in> set (pe_env (pu_engine p)). env_name_ok n \<and> n \<notin> set reserved_engine_env_exact \<and> (\<forall>q \<in> set reserved_engine_env_prefixes. \<not> prefix q n))
         \<and> (\<forall>chs mem ws art cap. model_of (c\<lparr>rc_capability := cap\<rparr>) = model_of c \<and> cp_exclude cap = cp_exclude (rc_capability c) \<longrightarrow>
              public_config_of (c\<lparr>rc_channels := chs, rc_memory := mem, rc_workspace := ws, rc_artifacts := art, rc_capability := cap\<rparr>) env = Inr p))"
proof -
  have valid: "public_valid (projection c env e)" if "rc_facade_endpoint c = Some e" for e
    using assms that by (simp add: check_runtime_config_def public_valid_def projection_def check_engine_def)
  have exact: "public_config_of c env = Inr p \<longleftrightarrow> (\<forall>(n, v) \<in> set env. map_of (en_env (rc_engine c)) n = Some v) \<and> (\<exists>e. rc_facade_endpoint c = Some e \<and> p = projection c env e)"
    using valid by (auto simp: public_config_of_def check_engine_env_Inr Let_def split: option.splits)
  have names: "env_name_ok n \<and> n \<notin> set reserved_engine_env_exact \<and> (\<forall>q \<in> set reserved_engine_env_prefixes. \<not> prefix q n)"
    if "public_config_of c env = Inr p" "(n, v) \<in> set (pe_env (pu_engine p))" for n v
  proof -
    have "check_engine (rc_engine c) = Inr ()" using assms by (simp add: check_runtime_config_def)
    moreover have "pe_env (pu_engine p) = env" using that(1) exact by (auto simp: projection_def)
    then have "map_of (en_env (rc_engine c)) n = Some v" using that exact by auto
    ultimately show ?thesis by (rule engine_env_names[OF _ map_of_SomeD])
  qed
  have same: "public_config_of (c\<lparr>rc_channels := chs, rc_memory := mem, rc_workspace := ws, rc_artifacts := art, rc_capability := cap\<rparr>) env = public_config_of c env"
    if "model_of (c\<lparr>rc_capability := cap\<rparr>) = model_of c" "cp_exclude cap = cp_exclude (rc_capability c)" for chs mem ws art cap
  proof -
    have "model_of (c\<lparr>rc_channels := chs, rc_memory := mem, rc_workspace := ws, rc_artifacts := art, rc_capability := cap\<rparr>) = model_of c"
      using that(1) by (simp add: model_of_def cong: option.case_cong)
    then have "projection (c\<lparr>rc_channels := chs, rc_memory := mem, rc_workspace := ws, rc_artifacts := art, rc_capability := cap\<rparr>) env e = projection c env e" for e
      using that(2) by (simp add: projection_def)
    then show ?thesis by (simp add: public_config_of_def cong: option.case_cong)
  qed
  show ?thesis using exact names same by auto
qed

section \<open>A configuration\<close>

definition demo_config :: runtime_config where
  "demo_config =
     \<lparr>rc_agent = \<lparr>ai_name = ''a'', ai_namespace = ''n'', ai_uid = ''00000000-0000-0000-0000-000000000000''\<rparr>, rc_config_version = replicate 64 (CHR ''a''),
      rc_capability = \<lparr>cp_server = ServerStandalone,
        cp_standalone = Some \<lparr>ss_model = \<lparr>mb_name = ''m'', mb_type = MtOpenai, mb_params = [], mb_thinking = \<lparr>th_enabled = False, th_effort = None\<rparr>,
            sm_base_url = ''http://m'', sm_headers = [(''X-Key'', HeaderAlias ''KEY'')], sm_limits = None\<rparr>, ss_mcp_servers = []\<rparr>,
        cp_ach = None, cp_exclude = \<lparr>fe_tools = [], fe_mcp_servers = [], fe_skills = []\<rparr>\<rparr>,
      rc_engine = \<lparr>en_type = EngineOpencode, en_env = [(''LANG'', ''C'')], en_startup_timeout_seconds = 30,
        en_compaction = \<lparr>cb_auto = True, cb_keep_tokens = 1, cb_buffer = 0\<rparr>, en_deny_tools = []\<rparr>,
      rc_limits = \<lparr>lm_max_active_workspaces = 1, lm_max_concurrent_invocations = 1, lm_max_concurrent_scripts = None, lm_max_invocation_seconds = 60,
        lm_max_queued_total = 1, lm_idempotency_window_seconds = 0, lm_max_steps = 1, lm_max_stall_seconds = 300\<rparr>,
      rc_workspace = \<lparr>wb_idle_timeout_seconds = 1, wb_shutdown_timeout_seconds = 1, wb_ready_timeout_seconds = 30, wb_max_concurrent_sessions = 1,
        wb_persistence = \<lparr>pb_type = PersistNone, pb_retention_days = None\<rparr>, wb_session = \<lparr>sp_idle_timeout_seconds = 1, sp_retention_days = None\<rparr>\<rparr>,
      rc_artifacts = \<lparr>af_enabled = False, af_max_artifact_bytes = 1, af_retention_days = 0\<rparr>, rc_channels = [], rc_prompt = None,
      rc_hooks = \<lparr>hs_workspace_start = None, hs_session_start = None, hs_session_restore = None, hs_session_suspend = None, hs_workspace_stop = None\<rparr>,
      rc_memory = None, rc_facade_endpoint = Some ''http://f''\<rparr>"

lemma demo_config_valid: "check_runtime_config demo_config = Inr ()"
  by code_simp

theorem public_config_exact_witness: "\<exists>p. public_config_of demo_config [(''LANG'', ''C'')] = Inr p \<and> pe_env (pu_engine p) = [(''LANG'', ''C'')]"
proof -
  have "public_config_of demo_config [(''LANG'', ''C'')] = Inr (projection demo_config [(''LANG'', ''C'')] ''http://f'')"
    using public_config_exact[OF demo_config_valid, of "[(''LANG'', ''C'')]" "projection demo_config [(''LANG'', ''C'')] ''http://f''"]
    by (simp add: demo_config_def)
  then show ?thesis by (simp add: projection_def)
qed

definition demo_wire :: dict where
  "demo_wire = [(''schemaVersion'', JStr ''workspace-v3''), (''configVersion'', JStr (replicate 64 (CHR ''a''))), (''limits'', JObj [(''maxSteps'', JInt 1)])]"

theorem config_version_authentic_witness:
  "dict_get demo_wire ''configVersion'' JNull = JStr (replicate 64 (CHR ''a'')) \<and> number_in (JInt 1) (JObj demo_wire) \<and> number_ok (JInt 1)"
proof -
  have one: "number_in (JInt 1) (JObj demo_wire)"
    by (rule obj_in[where k = "''limits''" and v = "JObj [(''maxSteps'', JInt 1)]"]) (simp_all add: demo_wire_def)
  have hex: "hex64 (replicate 64 (CHR ''a''))" by code_simp
  have numbers: "validate_json_value (JObj demo_wire) ''$'' = Inr ()" by (simp add: demo_wire_def number_ok_def numeric_bound_def)
  have fields: "dict_get demo_wire ''schemaVersion'' JNull = JStr ''workspace-v3''" "dict_get demo_wire ''configVersion'' JNull = JStr (replicate 64 (CHR ''a''))"
    by (simp_all add: demo_wire_def dict_get_def del: replicate.simps)
  have p: "parse_config (\<lambda>d. Some ''t'') (\<lambda>_. replicate 64 (CHR ''a'')) (\<lambda>_. Inr demo_config) demo_wire = Inr demo_config"
    by (simp add: parse_config_def Let_def fields numbers hex compute_config_version_def canonical_config_bytes_def demo_config_valid del: validate_json_value.simps)
  show ?thesis using config_version_authentic[OF p] one by auto
qed

end
