(* ===== verification/Schedules.thy ===== *)
theory Schedules
  imports Routing Channel_Config
begin

text \<open>
  \<open>channels/queue.py\<close> and \<open>channels/cron.py\<close>: the consumer of a Redis stream and the scheduler of cron ticks.

  The Redis client, admission with the future that says a run has started, clocks and \<open>croniter\<close> are parameters. What the two
  loops do is logged. Both loops run until they are cancelled; here they run a number of turns.
\<close>

section \<open>The queue\<close>

type_synonym entry = "string \<times> (string \<times> string) list"

text \<open>A reply has the streams asked for, each with its entries; it may be empty.\<close>

type_synonym reply = "(string \<times> entry list) list"

text \<open>\<open>None\<close> is an exception. \<open>qw_group\<close> makes the consumer group, and an exception of it is only logged; \<open>qw_start\<close> admits a routed event and waits until its run has started.\<close>

record 'w queue_world =
  qw_group :: "'w \<Rightarrow> 'w"
  qw_read :: "string \<Rightarrow> 'w \<Rightarrow> reply option \<times> 'w"
  qw_start :: "routed_event \<Rightarrow> 'w \<Rightarrow> bool \<times> 'w"
  qw_ack :: "string \<Rightarrow> 'w \<Rightarrow> bool \<times> 'w"
  qw_time :: "'w \<Rightarrow> int"
  qw_sleep :: "int \<Rightarrow> 'w \<Rightarrow> 'w"

datatype queue_note = QStarted string | QAcked string | QStale string

record 'w queue_state =
  qs_cursor :: string
  qs_next_sweep :: int
  qs_world :: 'w
  qs_log :: "queue_note list"

definition block_ms :: int where "block_ms = 5000"

definition new_messages :: string where "new_messages = ''>''"

definition qnote :: "queue_note \<Rightarrow> 'w queue_state \<Rightarrow> 'w queue_state" where
  "qnote n s = s\<lparr>qs_log := qs_log s @ [n]\<rparr>"

definition queue_event :: "channel_config \<Rightarrow> entry \<Rightarrow> event" where
  "queue_event ch e = \<lparr>ev_id = fst e, ev_channel = ch_name ch, ev_type = ''queue'', ev_source = ''queue'',
     ev_payload = map (\<lambda>(k, v). (k, JStr v)) (snd e), ev_context = [], ev_actor = []\<rparr>"

definition handle_message :: "'w queue_world \<Rightarrow> channel_config \<Rightarrow> entry \<Rightarrow> 'w queue_state \<Rightarrow> 'w queue_state" where
  "handle_message Q ch e s =
     (case route (queue_event ch e) ch of
        Inl _ \<Rightarrow> s
      | Inr r \<Rightarrow>
         (case qw_start Q r (qs_world s) of
            (False, w) \<Rightarrow> s\<lparr>qs_world := w\<rparr>
          | (True, w) \<Rightarrow>
             (case qw_ack Q (fst e) w of
                (acked, w') \<Rightarrow>
                  let s' = (qnote (QStarted (fst e)) s)\<lparr>qs_world := w'\<rparr> in if acked then qnote (QAcked (fst e)) s' else s')))"

definition ack_stale_pending :: "'w queue_world \<Rightarrow> string \<Rightarrow> 'w queue_state \<Rightarrow> 'w queue_state" where
  "ack_stale_pending Q i s = (case qw_ack Q i (qs_world s) of (_, w) \<Rightarrow> (qnote (QStale i) s)\<lparr>qs_world := w\<rparr>)"

definition handle_pending :: "'w queue_world \<Rightarrow> channel_config \<Rightarrow> entry \<Rightarrow> 'w queue_state \<Rightarrow> 'w queue_state" where
  "handle_pending Q ch e s =
     (let s' = s\<lparr>qs_cursor := fst e\<rparr> in if snd e = [] then ack_stale_pending Q (fst e) s' else handle_message Q ch e s')"

text \<open>The first component is \<open>False\<close> when reading raised.\<close>

definition consume_pending_once :: "'w queue_world \<Rightarrow> channel_config \<Rightarrow> 'w queue_state \<Rightarrow> bool \<times> 'w queue_state" where
  "consume_pending_once Q ch s =
     (if qw_time Q (qs_world s) < qs_next_sweep s then (True, s)
      else case qw_read Q (qs_cursor s) (qs_world s) of
        (None, w) \<Rightarrow> (False, s\<lparr>qs_world := w\<rparr>)
      | (Some rs, w) \<Rightarrow>
          if rs = [] then (True, s\<lparr>qs_world := w, qs_cursor := ''0'', qs_next_sweep := qw_time Q w + block_ms\<rparr>)
          else (True, fold (handle_pending Q ch) (concat (map snd rs)) (s\<lparr>qs_world := w\<rparr>)))"

definition consume_once :: "'w queue_world \<Rightarrow> channel_config \<Rightarrow> 'w queue_state \<Rightarrow> bool \<times> 'w queue_state" where
  "consume_once Q ch s =
     (case consume_pending_once Q ch s of
        (False, s1) \<Rightarrow> (False, s1)
      | (True, s1) \<Rightarrow>
         (case qw_read Q new_messages (qs_world s1) of
            (None, w) \<Rightarrow> (False, s1\<lparr>qs_world := w\<rparr>)
          | (Some rs, w) \<Rightarrow> (True, fold (handle_message Q ch) (concat (map snd rs)) (s1\<lparr>qs_world := w\<rparr>))))"

fun queue_run :: "nat \<Rightarrow> 'w queue_world \<Rightarrow> channel_config \<Rightarrow> 'w queue_state \<Rightarrow> 'w queue_state" where
  "queue_run 0 Q ch s = s"
| "queue_run (Suc n) Q ch s =
     (case consume_once Q ch s of
        (ok, s') \<Rightarrow> queue_run n Q ch (if ok then s' else s'\<lparr>qs_world := qw_sleep Q block_ms (qs_world s')\<rparr>))"

definition new_consumer :: "'w \<Rightarrow> 'w queue_state" where
  "new_consumer w = \<lparr>qs_cursor = ''0'', qs_next_sweep = 0, qs_world = w, qs_log = []\<rparr>"

definition queue_start :: "'w queue_world \<Rightarrow> 'w \<Rightarrow> 'w queue_state" where
  "queue_start Q w = (let s = new_consumer w in s\<lparr>qs_world := qw_group Q (qs_world s)\<rparr>)"

subsection \<open>No message is lost\<close>

text \<open>
  What Redis promises about a consumer group: \<open>given w\<close> are the messages it has given to this consumer, \<open>pending w\<close> those of them not
  acknowledged. Reading gives what it returns and takes nothing off the pending list; acknowledging takes off at most that message;
  nothing else does.
\<close>

definition group_contract :: "'w queue_world \<Rightarrow> ('w \<Rightarrow> string set) \<Rightarrow> ('w \<Rightarrow> string set) \<Rightarrow> bool" where
  "group_contract Q given pending \<longleftrightarrow>
     (\<forall>c w r w'. qw_read Q c w = (r, w') \<longrightarrow> given w' - pending w' \<subseteq> given w - pending w)
     \<and> (\<forall>i w a w'. qw_ack Q i w = (a, w') \<longrightarrow> given w' - pending w' \<subseteq> insert i (given w - pending w))
     \<and> (\<forall>x w a w'. qw_start Q x w = (a, w') \<longrightarrow> given w' - pending w' \<subseteq> given w - pending w)
     \<and> (\<forall>w. given (qw_group Q w) - pending (qw_group Q w) \<subseteq> given w - pending w)
     \<and> (\<forall>t w. given (qw_sleep Q t w) - pending (qw_sleep Q t w) \<subseteq> given w - pending w)"

definition settled_ids :: "queue_note list \<Rightarrow> string set" where
  "settled_ids l = {i. QStarted i \<in> set l \<or> QStale i \<in> set l}"

text \<open>An acknowledged message was started before, or was deleted from the stream.\<close>

definition acks_follow :: "queue_note list \<Rightarrow> bool" where
  "acks_follow l \<longleftrightarrow> (\<forall>l1 i l2. l = l1 @ QAcked i # l2 \<longrightarrow> QStarted i \<in> set l1)"

definition queue_ok :: "('w \<Rightarrow> string set) \<Rightarrow> ('w \<Rightarrow> string set) \<Rightarrow> 'w queue_state \<Rightarrow> bool" where
  "queue_ok given pending s \<longleftrightarrow> given (qs_world s) - pending (qs_world s) \<subseteq> settled_ids (qs_log s) \<and> acks_follow (qs_log s)"

lemma acks_follow_snoc:
  "acks_follow l \<Longrightarrow> (\<And>i. n = QAcked i \<Longrightarrow> QStarted i \<in> set l) \<Longrightarrow> acks_follow (l @ [n])"
  unfolding acks_follow_def
proof (intro allI impI)
  fix l1 i l2
  assume l: "\<forall>l1 i l2. l = l1 @ QAcked i # l2 \<longrightarrow> QStarted i \<in> set l1" "\<And>i. n = QAcked i \<Longrightarrow> QStarted i \<in> set l" and eq: "l @ [n] = l1 @ QAcked i # l2"
  show "QStarted i \<in> set l1"
  proof (cases l2 rule: rev_cases)
    case Nil
    then show ?thesis using eq l(2) by simp
  next
    case (snoc l3 m)
    then have "l = l1 @ QAcked i # l3" using eq by (metis append_Cons append_assoc butlast_snoc)
    then show ?thesis using l(1) by blast
  qed
qed

lemma settled_ids_snoc [simp]:
  "settled_ids (l @ [QStarted i]) = insert i (settled_ids l)" "settled_ids (l @ [QStale i]) = insert i (settled_ids l)" "settled_ids (l @ [QAcked i]) = settled_ids l"
  by (auto simp: settled_ids_def)

lemma handle_message_ok:
  assumes "group_contract Q given pending" "queue_ok given pending s"
  shows "queue_ok given pending (handle_message Q ch e s)"
proof (cases "route (queue_event ch e) ch")
  case (Inr r)
  obtain a w where st: "qw_start Q r (qs_world s) = (a, w)" by fastforce
  then have 1: "given w - pending w \<subseteq> settled_ids (qs_log s)" using assms unfolding group_contract_def queue_ok_def by blast
  obtain b w' where ak: "qw_ack Q (fst e) w = (b, w')" by fastforce
  then have "given w' - pending w' \<subseteq> insert (fst e) (given w - pending w)" using assms(1) unfolding group_contract_def by blast
  then have 2: "given w' - pending w' \<subseteq> settled_ids (qs_log s @ [QStarted (fst e)])" using 1 by auto
  have 3: "acks_follow (qs_log s @ [QStarted (fst e)])" using assms(2) by (intro acks_follow_snoc) (auto simp: queue_ok_def)
  then have 4: "acks_follow (qs_log s @ [QStarted (fst e), QAcked (fst e)])" using acks_follow_snoc[OF 3, of "QAcked (fst e)"] by simp
  have 5: "settled_ids (qs_log s @ [QStarted (fst e), QAcked (fst e)]) = settled_ids (qs_log s @ [QStarted (fst e)])"
    using settled_ids_snoc(3)[of "qs_log s @ [QStarted (fst e)]"] by simp
  show ?thesis using Inr st ak 1 2 3 4 5 assms(2) by (cases a) (auto simp: handle_message_def queue_ok_def qnote_def Let_def)
qed (use assms in \<open>simp add: handle_message_def\<close>)

lemma handle_pending_ok:
  assumes "group_contract Q given pending" "queue_ok given pending s"
  shows "queue_ok given pending (handle_pending Q ch e s)"
proof (cases "snd e = []")
  case True
  obtain a w where ak: "qw_ack Q (fst e) (qs_world s) = (a, w)" by fastforce
  then have "given w - pending w \<subseteq> insert (fst e) (given (qs_world s) - pending (qs_world s))" using assms(1) unfolding group_contract_def by blast
  then have "given w - pending w \<subseteq> settled_ids (qs_log s @ [QStale (fst e)])" using assms(2) by (auto simp: queue_ok_def)
  moreover have "acks_follow (qs_log s @ [QStale (fst e)])" using assms(2) by (intro acks_follow_snoc) (auto simp: queue_ok_def)
  ultimately show ?thesis using True ak by (simp add: handle_pending_def ack_stale_pending_def qnote_def queue_ok_def Let_def)
next
  case False
  have "queue_ok given pending (s\<lparr>qs_cursor := fst e\<rparr>)" using assms(2) by (simp add: queue_ok_def)
  then show ?thesis using False handle_message_ok[OF assms(1)] by (simp add: handle_pending_def Let_def)
qed

lemma fold_ok: "(\<And>e s. queue_ok given pending s \<Longrightarrow> queue_ok given pending (f e s)) \<Longrightarrow> queue_ok given pending s \<Longrightarrow> queue_ok given pending (fold f es s)"
  by (induction es arbitrary: s) auto

lemma read_ok:
  assumes "group_contract Q given pending" "queue_ok given pending s" "qw_read Q c (qs_world s) = (r, w)"
  shows "queue_ok given pending (s\<lparr>qs_world := w\<rparr>)" "queue_ok given pending (s\<lparr>qs_world := w, qs_cursor := x, qs_next_sweep := t\<rparr>)"
  using assms unfolding group_contract_def queue_ok_def by (simp_all, blast+)

lemma consume_once_ok:
  assumes "group_contract Q given pending" "queue_ok given pending s"
  shows "queue_ok given pending (snd (consume_once Q ch s))"
proof -
  have 1: "queue_ok given pending (snd (consume_pending_once Q ch s))"
    using assms read_ok[OF assms] fold_ok[where f = "handle_pending Q ch", OF handle_pending_ok[OF assms(1)]]
    by (auto simp: consume_pending_once_def split: prod.split option.split)
  obtain ok s1 where p: "consume_pending_once Q ch s = (ok, s1)" by fastforce
  obtain r w where rd: "qw_read Q new_messages (qs_world s1) = (r, w)" by fastforce
  have s1: "queue_ok given pending s1" using 1 p by simp
  have s2: "queue_ok given pending (s1\<lparr>qs_world := w\<rparr>)" by (rule read_ok(1)[OF assms(1) s1 rd])
  have f: "queue_ok given pending (fold (handle_message Q ch) es (s1\<lparr>qs_world := w\<rparr>))" for es
    by (rule fold_ok[where f = "handle_message Q ch", OF _ s2]) (rule handle_message_ok[OF assms(1)])
  show ?thesis by (cases ok; cases r) (simp_all add: consume_once_def p rd s1 s2 f)
qed

text \<open>
  C32. The queue loses no message. With a consumer group that only forgets what is acknowledged, after any number of turns every
  message that was given to the consumer and is no longer pending had its run started, or was deleted from the
  stream; and a message is acknowledged only after its run has started.
\<close>

theorem queue_loses_nothing:
  assumes "group_contract Q given pending" "given w \<subseteq> pending w"
  shows "queue_ok given pending (queue_run n Q ch (queue_start Q w))"
proof -
  have slept: "given (qw_sleep Q t x) - pending (qw_sleep Q t x) \<subseteq> given x - pending x" for t x
    using assms(1) unfolding group_contract_def by blast
  have "queue_ok given pending (queue_run n Q ch s)" if "queue_ok given pending s" for s
    using that
  proof (induction n arbitrary: s)
    case (Suc n)
    obtain ok s' where c: "consume_once Q ch s = (ok, s')" by fastforce
    have s': "queue_ok given pending s'" using consume_once_ok[OF assms(1) Suc.prems, of ch] c by simp
    then have "queue_ok given pending (s'\<lparr>qs_world := qw_sleep Q block_ms (qs_world s')\<rparr>)"
      using slept[of block_ms "qs_world s'"] by (auto simp: queue_ok_def)
    then show ?case using Suc.IH c s' by simp
  qed simp
  moreover have "given (qw_group Q w) - pending (qw_group Q w) \<subseteq> given w - pending w" using assms(1) unfolding group_contract_def by blast
  then have "queue_ok given pending (queue_start Q w)"
    using assms(2) by (auto simp: queue_ok_def queue_start_def new_consumer_def acks_follow_def Let_def)
  ultimately show ?thesis by blast
qed

text \<open>A stream of one consumer: what it was given, what is pending, and what is new.\<close>

definition list_redis :: "(string list \<times> string list \<times> entry list) queue_world" where
  "list_redis = \<lparr>qw_group = (\<lambda>w. w),
     qw_read = (\<lambda>c (g, p, u). if c = new_messages then (Some [(''stream'', u)], (g @ map fst u, p @ map fst u, [])) else (Some [], (g, p, u))),
     qw_start = (\<lambda>_ w. (True, w)), qw_ack = (\<lambda>i (g, p, u). (True, (g, filter (\<lambda>j. j \<noteq> i) p, u))), qw_time = (\<lambda>_. 0), qw_sleep = (\<lambda>_ w. w)\<rparr>"

definition queue_channel :: channel_config where
  "queue_channel = \<lparr>ch_name = ''q'', ch_type = CtQueue, ch_concurrency = 1, ch_source = None, ch_routing = Some \<lparr>rt_workspace_key = None, rt_session_key = Some ''k''\<rparr>,
     ch_rate_limit = None, ch_prompt = None, ch_webhook = None, ch_handoff = None, ch_script = None, ch_cron = None, ch_queue = Some ''stream'', ch_a2a = None\<rparr>"

lemma list_redis_contract: "group_contract list_redis (\<lambda>(g, p, u). set g) (\<lambda>(g, p, u). set p)"
  by (auto simp: group_contract_def list_redis_def split: if_splits)

theorem queue_loses_nothing_witness:
  "qs_log (queue_run 1 list_redis queue_channel (queue_start list_redis ([], [], [(''1-0'', [(''text'', ''hi'')])]))) = [QStarted ''1-0'', QAcked ''1-0'']
   \<and> acks_follow (qs_log (queue_run 1 list_redis queue_channel (queue_start list_redis ([], [], [(''1-0'', [(''text'', ''hi'')])]))))"
proof -
  have "qs_log (queue_run 1 list_redis queue_channel (queue_start list_redis ([], [], [(''1-0'', [(''text'', ''hi'')])]))) = [QStarted ''1-0'', QAcked ''1-0'']"
    by code_simp
  then show ?thesis
    using queue_loses_nothing[OF list_redis_contract, of "([], [], [(''1-0'', [(''text'', ''hi'')])])" 1 queue_channel] by (simp add: queue_ok_def)
qed

subsection \<open>The sweep of pending messages\<close>

text \<open>
  What Redis documents for a read with an ID instead of \<open>>\<close>: the reply always names the stream, with the pending entries after that ID,
  and none when there are none. \<open>key\<close> orders the IDs.
\<close>

definition history_contract :: "'w queue_world \<Rightarrow> (string \<Rightarrow> nat) \<Rightarrow> bool" where
  "history_contract Q key \<longleftrightarrow>
     (\<forall>c w r w'. c \<noteq> new_messages \<longrightarrow> qw_read Q c w = (Some r, w') \<longrightarrow>
        r \<noteq> [] \<and> (\<forall>e \<in> set (concat (map snd r)). key c < key (fst e) \<and> fst e \<noteq> new_messages))"

lemma handle_message_cursor: "qs_cursor (handle_message Q ch e s) = qs_cursor s \<and> qs_next_sweep (handle_message Q ch e s) = qs_next_sweep s"
  by (auto simp: handle_message_def qnote_def Let_def split: sum.split prod.split bool.split)

lemma handle_pending_cursor: "qs_cursor (handle_pending Q ch e s) = fst e \<and> qs_next_sweep (handle_pending Q ch e s) = qs_next_sweep s"
  by (auto simp: handle_pending_def handle_message_cursor ack_stale_pending_def qnote_def Let_def split: prod.split)

lemma fold_message_cursor:
  "qs_cursor (fold (handle_message Q ch) es s) = qs_cursor s \<and> qs_next_sweep (fold (handle_message Q ch) es s) = qs_next_sweep s"
  by (induction es arbitrary: s) (auto simp: handle_message_cursor)

lemma fold_pending_cursor:
  "qs_cursor (fold (handle_pending Q ch) es s) = last (qs_cursor s # map fst es) \<and> qs_next_sweep (fold (handle_pending Q ch) es s) = qs_next_sweep s"
  by (induction es arbitrary: s) (auto simp: handle_pending_cursor)

definition cursor_moved :: "(string \<Rightarrow> nat) \<Rightarrow> 'w queue_state \<Rightarrow> 'w queue_state \<Rightarrow> bool" where
  "cursor_moved key s s' \<longleftrightarrow> key (qs_cursor s) \<le> key (qs_cursor s') \<and> qs_cursor s' \<noteq> new_messages \<and> qs_next_sweep s' = qs_next_sweep s"

lemma consume_once_cursor:
  assumes "history_contract Q key" "qs_cursor s \<noteq> new_messages"
  shows "cursor_moved key s (snd (consume_once Q ch s))"
proof -
  obtain r w where rd: "qw_read Q (qs_cursor s) (qs_world s) = (r, w)" by fastforce
  have "r0 \<noteq> []" "last (qs_cursor s # map fst (concat (map snd r0))) \<noteq> new_messages"
      "key (qs_cursor s) \<le> key (last (qs_cursor s # map fst (concat (map snd r0))))" if r: "r = Some r0" for r0
  proof -
    have h: "r0 \<noteq> []" "\<forall>e \<in> set (concat (map snd r0)). key (qs_cursor s) < key (fst e) \<and> fst e \<noteq> new_messages"
      using assms rd r unfolding history_contract_def by blast+
    define x where "x = last (qs_cursor s # map fst (concat (map snd r0)))"
    have "x \<in> insert (qs_cursor s) (fst ` set (concat (map snd r0)))"
      using last_in_set[of "qs_cursor s # map fst (concat (map snd r0))"] unfolding x_def by (simp only: set_map list.set) simp
    then have "x \<noteq> new_messages \<and> key (qs_cursor s) \<le> key x" using h(2) assms(2) by (elim insertE imageE) (auto simp del: set_concat dest!: bspec)
    then show "r0 \<noteq> []" "last (qs_cursor s # map fst (concat (map snd r0))) \<noteq> new_messages"
      "key (qs_cursor s) \<le> key (last (qs_cursor s # map fst (concat (map snd r0))))"
      using h(1) unfolding x_def by blast+
  qed
  then have 1: "cursor_moved key s (snd (consume_pending_once Q ch s))"
    using assms(2) rd by (auto simp: cursor_moved_def consume_pending_once_def fold_pending_cursor simp del: last.simps split: option.split)
  obtain ok s1 where p: "consume_pending_once Q ch s = (ok, s1)" by fastforce
  have "qs_cursor (snd (consume_once Q ch s)) = qs_cursor s1 \<and> qs_next_sweep (snd (consume_once Q ch s)) = qs_next_sweep s1"
    by (cases ok) (auto simp: consume_once_def p fold_message_cursor split: prod.split option.split)
  then show ?thesis using 1 p by (simp add: cursor_moved_def)
qed

lemma queue_run_cursor:
  assumes "history_contract Q key" "qs_cursor s \<noteq> new_messages"
  shows "cursor_moved key s (queue_run n Q ch s)"
  using assms(2)
proof (induction n arbitrary: s)
  case (Suc n)
  obtain ok s' where c: "consume_once Q ch s = (ok, s')" by fastforce
  define s2 where "s2 = (if ok then s' else s'\<lparr>qs_world := qw_sleep Q block_ms (qs_world s')\<rparr>)"
  have "cursor_moved key s s2" using consume_once_cursor[OF assms(1) Suc.prems, of ch] c by (simp add: s2_def cursor_moved_def)
  then show ?case using Suc.IH[of s2] c by (auto simp: s2_def[symmetric] cursor_moved_def)
qed (simp add: cursor_moved_def)

lemma queue_run_add: "queue_run (m + n) Q ch s = queue_run n Q ch (queue_run m Q ch s)"
  by (induction m arbitrary: s) (auto split: prod.split)

text \<open>
  C34. With the replies that Redis documents, the cursor of the pending sweep only moves forward and the sweep is never restarted
  from the first pending message: a message left pending is read again at most while the cursor has not passed it, although the code resets
  the cursor, meaning to retry it later, on an empty reply.
\<close>

theorem pending_sweep_never_restarts:
  assumes "history_contract Q key"
  shows "key (qs_cursor (queue_run m Q ch (queue_start Q w))) \<le> key (qs_cursor (queue_run (m + n) Q ch (queue_start Q w)))
    \<and> qs_next_sweep (queue_run (m + n) Q ch (queue_start Q w)) = 0"
proof -
  have s: "qs_cursor (queue_start Q w) \<noteq> new_messages" "qs_next_sweep (queue_start Q w) = 0"
    by (auto simp: queue_start_def new_consumer_def new_messages_def Let_def)
  have 1: "cursor_moved key (queue_start Q w) (queue_run m Q ch (queue_start Q w))" by (rule queue_run_cursor[OF assms s(1)])
  then have "cursor_moved key (queue_run m Q ch (queue_start Q w)) (queue_run (m + n) Q ch (queue_start Q w))"
    unfolding queue_run_add using queue_run_cursor[OF assms] by (simp add: cursor_moved_def)
  then show ?thesis using 1 s(2) by (simp add: cursor_moved_def)
qed

text \<open>One message is pending and its run is refused, as by a rate limit; the world counts how often it was tried.\<close>

definition id_key :: "string \<Rightarrow> nat" where
  "id_key i = (if i = ''0'' then 0 else if i = ''1-0'' then 1 else 2)"

definition refusing_redis :: "nat queue_world" where
  "refusing_redis = \<lparr>qw_group = (\<lambda>w. w),
     qw_read = (\<lambda>c w. (if c = new_messages then Some [] else Some [(''stream'', if id_key c < 1 then [(''1-0'', [(''text'', ''hi'')])] else [])], w)),
     qw_start = (\<lambda>_ w. (False, Suc w)), qw_ack = (\<lambda>_ w. (True, w)), qw_time = (\<lambda>_. 0), qw_sleep = (\<lambda>_ w. w)\<rparr>"

lemma refusing_redis_history: "history_contract refusing_redis id_key"
  by (auto simp: history_contract_def refusing_redis_def id_key_def new_messages_def split: if_splits)

theorem pending_sweep_never_restarts_witness:
  "qs_cursor (queue_run 1 refusing_redis queue_channel (queue_start refusing_redis 0)) = ''1-0''
   \<and> 1 \<le> id_key (qs_cursor (queue_run (1 + 100) refusing_redis queue_channel (queue_start refusing_redis 0)))
   \<and> qs_world (queue_run 5 refusing_redis queue_channel (queue_start refusing_redis 0)) = 1"
proof -
  have 1: "qs_cursor (queue_run 1 refusing_redis queue_channel (queue_start refusing_redis 0)) = ''1-0''" by code_simp
  have 2: "qs_world (queue_run 5 refusing_redis queue_channel (queue_start refusing_redis 0)) = 1" by code_simp
  have 3: "id_key ''1-0'' = 1" by (simp add: id_key_def)
  from pending_sweep_never_restarts[OF refusing_redis_history, of 1 queue_channel 0 100]
  show ?thesis unfolding 1 3 using 2 by simp
qed

section \<open>The scheduler\<close>

text \<open>A tick is an aware local datetime: its zone, what the clock on the wall shows there, and the instant it is. The two order ticks
  differently where a zone sets its clocks back. Python compares two datetimes of one zone by the wall clock, with no regard to \<open>fold\<close>,
  and of two zones by the instant; \<open>ZoneInfo\<close> gives one object per name. \<open>min\<close> keeps the first of the least.\<close>

record moment =
  mo_zone :: string
  mo_wall :: int
  mo_utc :: int

definition earlier :: "moment \<Rightarrow> moment \<Rightarrow> bool" where
  "earlier a b \<longleftrightarrow> (if mo_zone a = mo_zone b then mo_wall a < mo_wall b else mo_utc a < mo_utc b)"

definition not_later :: "moment \<Rightarrow> moment \<Rightarrow> bool" where
  "not_later a b \<longleftrightarrow> (if mo_zone a = mo_zone b then mo_wall a \<le> mo_wall b else mo_utc a \<le> mo_utc b)"

fun earliest_of :: "moment \<Rightarrow> moment list \<Rightarrow> moment" where
  "earliest_of m [] = m"
| "earliest_of m (x # xs) = earliest_of (if earlier x m then x else m) xs"

text \<open>\<open>nx\<close> is \<open>croniter.get_next\<close>: the next tick of a schedule and the schedule after it. The clock gives instants.\<close>

record 'w cron_world =
  cw_now :: "'w \<Rightarrow> int"
  cw_wait :: "int \<Rightarrow> 'w \<Rightarrow> 'w"
  cw_fire :: "routed_event \<Rightarrow> 'w \<Rightarrow> bool \<times> 'w"

record 'c slot =
  sl_channel :: channel_config
  sl_cron :: 'c
  sl_next :: moment

text \<open>A tick that was fired: its slot, its time, when it was fired and whether its run started.\<close>

record firing =
  fi_slot :: nat
  fi_tick :: moment
  fi_at :: int
  fi_started :: bool

record ('w, 'c) cron_state =
  cn_slots :: "'c slot list"
  cn_world :: 'w
  cn_log :: "firing list"

definition cron_event :: "(int \<Rightarrow> string) \<Rightarrow> channel_config \<Rightarrow> int \<Rightarrow> event" where
  "cron_event shown ch tick = \<lparr>ev_id = ch_name ch @ '':'' @ shown tick, ev_channel = ch_name ch, ev_type = ''cron'', ev_source = ''cron'',
     ev_payload = [(''scheduled_tick'', JStr (shown tick))], ev_context = [(''cron'', JObj [(''scheduledTick'', JStr (shown tick))])], ev_actor = []\<rparr>"

definition fire :: "(int \<Rightarrow> string) \<Rightarrow> 'w cron_world \<Rightarrow> channel_config \<Rightarrow> moment \<Rightarrow> 'w \<Rightarrow> bool \<times> 'w" where
  "fire shown W ch tick w = (case route (cron_event shown ch (mo_utc tick)) ch of Inl _ \<Rightarrow> (False, w) | Inr r \<Rightarrow> cw_fire W r w)"

text \<open>The slots from index \<open>i\<close> on, in one turn.\<close>

fun fire_due :: "('c \<Rightarrow> moment \<times> 'c) \<Rightarrow> (int \<Rightarrow> string) \<Rightarrow> 'w cron_world \<Rightarrow> moment \<Rightarrow> nat \<Rightarrow> 'c slot list \<Rightarrow> 'w \<Rightarrow> 'c slot list \<times> 'w \<times> firing list" where
  "fire_due nx shown W earliest i [] w = ([], w, [])"
| "fire_due nx shown W earliest i (s # ss) w =
     (if not_later (sl_next s) earliest
      then case fire shown W (sl_channel s) (sl_next s) w of
        (ok, w1) \<Rightarrow>
          (case nx (sl_cron s) of
             (t, c) \<Rightarrow>
               (case fire_due nx shown W earliest (Suc i) ss w1 of
                  (ss', w2, l) \<Rightarrow> (s\<lparr>sl_cron := c, sl_next := t\<rparr> # ss', w2, \<lparr>fi_slot = i, fi_tick = sl_next s, fi_at = cw_now W w, fi_started = ok\<rparr> # l)))
      else case fire_due nx shown W earliest (Suc i) ss w of (ss', w2, l) \<Rightarrow> (s # ss', w2, l))"

definition cron_turn :: "('c \<Rightarrow> moment \<times> 'c) \<Rightarrow> (int \<Rightarrow> string) \<Rightarrow> 'w cron_world \<Rightarrow> ('w, 'c) cron_state \<Rightarrow> ('w, 'c) cron_state" where
  "cron_turn nx shown W s =
     (case map sl_next (cn_slots s) of
        [] \<Rightarrow> s
      | m # ms \<Rightarrow>
          let earliest = earliest_of m ms;
              seconds = mo_utc earliest - cw_now W (cn_world s);
              w = (if seconds > 0 then cw_wait W seconds (cn_world s) else cn_world s) in
          case fire_due nx shown W earliest 0 (cn_slots s) w of
            (ss, w', l) \<Rightarrow> s\<lparr>cn_slots := ss, cn_world := w', cn_log := cn_log s @ l\<rparr>)"

fun cron_run :: "nat \<Rightarrow> ('c \<Rightarrow> moment \<times> 'c) \<Rightarrow> (int \<Rightarrow> string) \<Rightarrow> 'w cron_world \<Rightarrow> ('w, 'c) cron_state \<Rightarrow> ('w, 'c) cron_state" where
  "cron_run 0 nx shown W s = s"
| "cron_run (Suc n) nx shown W s = cron_run n nx shown W (cron_turn nx shown W s)"

text \<open>\<open>mk\<close> is the constructor of \<open>croniter\<close>: it starts the schedule of a block at an instant.\<close>

fun croniters :: "(cron_block \<Rightarrow> int \<Rightarrow> 'c) \<Rightarrow> 'w cron_world \<Rightarrow> 'w \<Rightarrow> channel_config list \<Rightarrow> (channel_config \<times> 'c) list" where
  "croniters mk W w [] = []"
| "croniters mk W w (ch # chs) =
     (case ch_cron ch of None \<Rightarrow> croniters mk W w chs | Some b \<Rightarrow> (ch, mk b (cw_now W w)) # croniters mk W w chs)"

definition cron_start :: "('c \<Rightarrow> moment \<times> 'c) \<Rightarrow> (channel_config \<times> 'c) list \<Rightarrow> 'w \<Rightarrow> ('w, 'c) cron_state" where
  "cron_start nx cs w =
     \<lparr>cn_slots = map (\<lambda>(ch, c). case nx c of (t, c') \<Rightarrow> \<lparr>sl_channel = ch, sl_cron = c', sl_next = t\<rparr>) cs, cn_world = w, cn_log = []\<rparr>"

subsection \<open>Every tick, once and in order\<close>

fun schedule :: "('c \<Rightarrow> moment \<times> 'c) \<Rightarrow> 'c \<Rightarrow> nat \<Rightarrow> moment \<times> 'c" where
  "schedule nx c 0 = nx c"
| "schedule nx c (Suc k) = nx (snd (schedule nx c k))"

definition tick :: "('c \<Rightarrow> moment \<times> 'c) \<Rightarrow> 'c \<Rightarrow> nat \<Rightarrow> moment" where
  "tick nx c k = fst (schedule nx c k)"

text \<open>A schedule moves forward, waiting lasts, and firing does not turn the clock back.\<close>

definition cron_contract :: "('c \<Rightarrow> moment \<times> 'c) \<Rightarrow> 'w cron_world \<Rightarrow> bool" where
  "cron_contract nx W \<longleftrightarrow> (\<forall>c. mo_utc (fst (nx c)) < mo_utc (fst (nx (snd (nx c))))) \<and> (\<forall>t w. cw_now W w + t \<le> cw_now W (cw_wait W t w))
     \<and> (\<forall>r w. cw_now W w \<le> cw_now W (snd (cw_fire W r w)))"

text \<open>Among the first ticks of the schedules, those of one zone show on the wall in the order they happen: none falls in an hour
  that a zone repeats, or no two that the repeated hour would turn around.\<close>

definition ordinary_ticks :: "('c \<Rightarrow> moment \<times> 'c) \<Rightarrow> (channel_config \<times> 'c) list \<Rightarrow> nat \<Rightarrow> bool" where
  "ordinary_ticks nx cs n \<longleftrightarrow> (\<forall>a \<in> set cs. \<forall>b \<in> set cs. \<forall>k \<le> n. \<forall>l \<le> n.
     mo_zone (tick nx (snd a) k) = mo_zone (tick nx (snd b) l)
       \<longrightarrow> (mo_wall (tick nx (snd a) k) \<le> mo_wall (tick nx (snd b) l) \<longleftrightarrow> mo_utc (tick nx (snd a) k) \<le> mo_utc (tick nx (snd b) l)))"

definition fired_by :: "nat \<Rightarrow> firing list \<Rightarrow> moment list" where
  "fired_by i l = map fi_tick (filter (\<lambda>f. fi_slot f = i) l)"

text \<open>Slot \<open>i\<close> has fired the first ticks of its schedule, at most \<open>n\<close>, and waits for the next.\<close>

definition slot_ok :: "('c \<Rightarrow> moment \<times> 'c) \<Rightarrow> 'c \<Rightarrow> nat \<Rightarrow> nat \<Rightarrow> 'c slot \<Rightarrow> firing list \<Rightarrow> bool" where
  "slot_ok nx c i n s l \<longleftrightarrow> (\<exists>k \<le> n. (sl_next s, sl_cron s) = schedule nx c k \<and> fired_by i l = map (tick nx c) [0..<k])"

definition cron_fired :: "('c \<Rightarrow> moment \<times> 'c) \<Rightarrow> (channel_config \<times> 'c) list \<Rightarrow> nat \<Rightarrow> ('w, 'c) cron_state \<Rightarrow> bool" where
  "cron_fired nx cs n s \<longleftrightarrow> length (cn_slots s) = length cs
     \<and> (\<forall>i < length cs. sl_channel (cn_slots s ! i) = fst (cs ! i) \<and> slot_ok nx (snd (cs ! i)) i n (cn_slots s ! i) (cn_log s))"

text \<open>What was fired was fired in the order of the instants, none before its own, and all that is still to fire comes later.\<close>

definition cron_in_order :: "('w, 'c) cron_state \<Rightarrow> bool" where
  "cron_in_order s \<longleftrightarrow> sorted (map (\<lambda>f. mo_utc (fi_tick f)) (cn_log s)) \<and> (\<forall>f \<in> set (cn_log s). mo_utc (fi_tick f) \<le> fi_at f)
     \<and> (\<forall>f \<in> set (cn_log s). \<forall>s' \<in> set (cn_slots s). mo_utc (fi_tick f) < mo_utc (sl_next s'))"

lemma fired_by_append [simp]: "fired_by i (l @ l') = fired_by i l @ fired_by i l'"
  by (simp add: fired_by_def)

lemma not_later_refl [simp]: "not_later m m"
  by (simp add: not_later_def)

lemma earliest_in: "earliest_of m ms \<in> set (m # ms)"
  by (induction ms arbitrary: m) (auto split: if_splits)

lemma earliest_least:
  assumes "\<forall>a \<in> set (m # ms). \<forall>b \<in> set (m # ms). not_later a b \<longleftrightarrow> mo_utc a \<le> mo_utc b" "x \<in> set (m # ms)"
  shows "mo_utc (earliest_of m ms) \<le> mo_utc x"
  using assms
proof (induction ms arbitrary: m x)
  case (Cons y ms)
  let ?m = "if earlier y m then y else m"
  have step: "mo_utc (earliest_of ?m ms) \<le> mo_utc z" if "z \<in> set (?m # ms)" for z
    by (rule Cons.IH[OF _ that]) (use Cons.prems(1) in \<open>auto split: if_splits\<close>)
  have "earlier y m \<longleftrightarrow> \<not> not_later m y" by (auto simp: earlier_def not_later_def)
  then have "earlier y m \<longleftrightarrow> \<not> mo_utc m \<le> mo_utc y" using Cons.prems(1) by simp
  moreover have "mo_utc (earliest_of ?m ms) \<le> mo_utc ?m" using step by simp
  ultimately show ?case using Cons.prems(2) step by (fastforce split: if_splits)
qed simp

lemma fire_due_spec:
  assumes "fire_due nx shown W earliest i ss w = (ss', w', l)"
  shows "length ss' = length ss"
    and "j < length ss \<Longrightarrow> sl_channel (ss' ! j) = sl_channel (ss ! j)
      \<and> (if not_later (sl_next (ss ! j)) earliest then (sl_next (ss' ! j), sl_cron (ss' ! j)) = nx (sl_cron (ss ! j)) \<and> fired_by (i + j) l = [sl_next (ss ! j)]
         else ss' ! j = ss ! j \<and> fired_by (i + j) l = [])"
    and "f \<in> set l \<Longrightarrow> i \<le> fi_slot f \<and> (\<exists>s \<in> set ss. fi_tick f = sl_next s) \<and> not_later (fi_tick f) earliest"
  using assms
proof (induction ss arbitrary: ss' w w' l i j f)
  case (Cons s ss)
  {
    case 1
    then show ?case using Cons.IH(1) by (fastforce split: if_splits prod.splits)
  next
    case 2
    have later: "fired_by i l2 = []" if "fire_due nx shown W earliest (Suc i) ss w2 = (ss2, w3, l2)" for w2 ss2 w3 l2
      using Cons.IH(3)[OF _ that] by (fastforce simp: fired_by_def filter_empty_conv)
    show ?case
    proof (cases j)
      case 0
      then show ?thesis using 2 later by (auto simp: fired_by_def split: if_splits prod.splits)
    next
      case (Suc j')
      then show ?thesis using 2 Cons.IH(2)[of j'] by (fastforce simp: fired_by_def split: if_splits prod.splits)
    qed
  next
    case 3
    then show ?case using Cons.IH(3) by (fastforce split: if_splits prod.splits)
  }
qed auto

lemma fire_due_at:
  assumes "cron_contract nx W" "fire_due nx shown W earliest i ss w = (ss', w', l)" "f \<in> set l"
  shows "cw_now W w \<le> fi_at f"
  using assms(2,3)
proof (induction ss arbitrary: ss' w w' l i)
  case (Cons s ss)
  obtain ok w1 where f: "fire shown W (sl_channel s) (sl_next s) w = (ok, w1)" by fastforce
  have "cw_now W w \<le> cw_now W w1"
    using assms(1) f unfolding cron_contract_def fire_def by (auto split: sum.splits) (metis snd_conv)
  then show ?case using Cons f by (fastforce split: if_splits prod.splits)
qed simp

lemma schedule_forward: "cron_contract nx W \<Longrightarrow> (t, c') = schedule nx c k \<Longrightarrow> mo_utc t < mo_utc (fst (nx c'))"
  unfolding cron_contract_def by (cases k) (metis fst_conv snd_conv schedule.simps)+

lemma slot_ok_next:
  "slot_ok nx c i n s l \<Longrightarrow> (sl_next s', sl_cron s') = nx (sl_cron s) \<Longrightarrow> fired_by i l' = [sl_next s] \<Longrightarrow> slot_ok nx c i (Suc n) s' (l @ l')"
  unfolding slot_ok_def
proof (elim exE conjE)
  fix k
  assume a: "(sl_next s', sl_cron s') = nx (sl_cron s)" "fired_by i l' = [sl_next s]"
    "(sl_next s, sl_cron s) = schedule nx c k" "fired_by i l = map (tick nx c) [0..<k]" "k \<le> n"
  have "(sl_next s', sl_cron s') = schedule nx c (Suc k)" using a(1) a(3)[symmetric] by simp
  moreover have "fired_by i (l @ l') = map (tick nx c) [0..<Suc k]" using a(2,4) a(3)[symmetric] by (simp add: tick_def)
  ultimately show "\<exists>k \<le> Suc n. (sl_next s', sl_cron s') = schedule nx c k \<and> fired_by i (l @ l') = map (tick nx c) [0..<k]"
    using a(5) by (intro exI[of _ "Suc k"]) simp
qed

lemma sorted_const: "(\<And>x. x \<in> set xs \<Longrightarrow> x = a) \<Longrightarrow> sorted xs" for a :: int
  by (induction xs) auto

text \<open>One turn: it starts from the least tick by Python's comparison, waits for it and fires what is not later.\<close>

lemma cron_turnE:
  assumes "cron_fired nx cs n s" "cs \<noteq> []"
  obtains m ms earliest w ss w' l where "map sl_next (cn_slots s) = m # ms" "earliest = earliest_of m ms"
    "w = (if mo_utc earliest - cw_now W (cn_world s) > 0 then cw_wait W (mo_utc earliest - cw_now W (cn_world s)) (cn_world s) else cn_world s)"
    "fire_due nx shown W earliest 0 (cn_slots s) w = (ss, w', l)"
    "cron_turn nx shown W s = s\<lparr>cn_slots := ss, cn_world := w', cn_log := cn_log s @ l\<rparr>"
proof -
  have "map sl_next (cn_slots s) \<noteq> []" using assms by (auto simp: cron_fired_def)
  then obtain m ms where mms: "map sl_next (cn_slots s) = m # ms" by (cases "map sl_next (cn_slots s)") auto
  define earliest where "earliest = earliest_of m ms"
  define w where "w = (if mo_utc earliest - cw_now W (cn_world s) > 0 then cw_wait W (mo_utc earliest - cw_now W (cn_world s)) (cn_world s) else cn_world s)"
  obtain ss w' l where fd: "fire_due nx shown W earliest 0 (cn_slots s) w = (ss, w', l)" by (metis prod_cases3)
  have "cron_turn nx shown W s = s\<lparr>cn_slots := ss, cn_world := w', cn_log := cn_log s @ l\<rparr>"
    using fd unfolding cron_turn_def mms list.case Let_def earliest_def[symmetric] w_def[symmetric] by simp
  then show ?thesis by (rule that[OF mms earliest_def w_def fd])
qed

lemma cron_turn_fired:
  assumes ok: "cron_fired nx cs n s" and ne: "cs \<noteq> []"
  shows "cron_fired nx cs (Suc n) (cron_turn nx shown W s) \<and> length (cn_log s) < length (cn_log (cron_turn nx shown W s))"
proof (rule cron_turnE[OF assms, of W shown])
  fix m ms earliest w ss w' l
  assume mms: "map sl_next (cn_slots s) = m # ms" and e: "earliest = earliest_of m ms"
    and fd: "fire_due nx shown W earliest 0 (cn_slots s) w = (ss, w', l)"
    and t: "cron_turn nx shown W s = s\<lparr>cn_slots := ss, cn_world := w', cn_log := cn_log s @ l\<rparr>"
  have len: "length ss = length cs" using fire_due_spec(1)[OF fd] ok by (simp add: cron_fired_def)
  have "sl_channel (ss ! i) = fst (cs ! i) \<and> slot_ok nx (snd (cs ! i)) i (Suc n) (ss ! i) (cn_log s @ l)" if i: "i < length cs" for i
  proof -
    have i': "i < length (cn_slots s)" using i ok by (simp add: cron_fired_def)
    have old: "sl_channel (cn_slots s ! i) = fst (cs ! i)" "slot_ok nx (snd (cs ! i)) i n (cn_slots s ! i) (cn_log s)"
      using ok i by (auto simp: cron_fired_def)
    show ?thesis
      using fire_due_spec(2)[OF fd i'] old slot_ok_next[OF old(2), of "ss ! i" l]
      by (auto simp: slot_ok_def split: if_splits intro: le_SucI)
  qed
  then have "cron_fired nx cs (Suc n) (cron_turn nx shown W s)" using len unfolding t cron_fired_def by simp
  moreover have "earliest \<in> set (map sl_next (cn_slots s))" unfolding mms e by (rule earliest_in)
  then obtain j where "j < length (cn_slots s)" "sl_next (cn_slots s ! j) = earliest" by (auto simp: in_set_conv_nth)
  then have "fired_by j l \<noteq> []" using fire_due_spec(2)[OF fd, of j] by simp
  then have "l \<noteq> []" by (auto simp: fired_by_def)
  ultimately show ?thesis unfolding t by simp
qed

lemma slots_ordinary:
  assumes "ordinary_ticks nx cs n" "cron_fired nx cs n s" "a \<in> sl_next ` set (cn_slots s)" "b \<in> sl_next ` set (cn_slots s)"
  shows "not_later a b \<longleftrightarrow> mo_utc a \<le> mo_utc b"
proof -
  have at: "\<exists>p \<in> set cs. \<exists>k \<le> n. x = tick nx (snd p) k" if x: "x \<in> sl_next ` set (cn_slots s)" for x
  proof -
    obtain i where i: "i < length cs" "x = sl_next (cn_slots s ! i)"
      using x assms(2) by (auto simp: cron_fired_def in_set_conv_nth)
    then obtain k where "k \<le> n" "(x, sl_cron (cn_slots s ! i)) = schedule nx (snd (cs ! i)) k"
      using assms(2) unfolding cron_fired_def slot_ok_def by blast
    then show ?thesis using i(1) by (intro bexI[of _ "cs ! i"] exI[of _ k]) (auto simp: tick_def dest: arg_cong[of _ _ fst])
  qed
  obtain p k where "p \<in> set cs" "k \<le> n" "a = tick nx (snd p) k" using at[OF assms(3)] by blast
  moreover obtain q l where "q \<in> set cs" "l \<le> n" "b = tick nx (snd q) l" using at[OF assms(4)] by blast
  ultimately show ?thesis using assms(1) unfolding ordinary_ticks_def not_later_def by simp
qed

lemma cron_turn_in_order:
  assumes c: "cron_contract nx W" and o: "ordinary_ticks nx cs n" and ok: "cron_fired nx cs n s" and io: "cron_in_order s" and ne: "cs \<noteq> []"
  shows "cron_in_order (cron_turn nx shown W s)"
proof (rule cron_turnE[OF ok ne, of W shown])
  fix m ms earliest w ss w' l
  assume mms: "map sl_next (cn_slots s) = m # ms" and e: "earliest = earliest_of m ms"
    and w: "w = (if mo_utc earliest - cw_now W (cn_world s) > 0 then cw_wait W (mo_utc earliest - cw_now W (cn_world s)) (cn_world s) else cn_world s)"
    and fd: "fire_due nx shown W earliest 0 (cn_slots s) w = (ss, w', l)"
    and t: "cron_turn nx shown W s = s\<lparr>cn_slots := ss, cn_world := w', cn_log := cn_log s @ l\<rparr>"
  have slots: "set (m # ms) = sl_next ` set (cn_slots s)" unfolding mms[symmetric] by simp
  have cmp: "not_later a b \<longleftrightarrow> mo_utc a \<le> mo_utc b" if "a \<in> set (m # ms)" "b \<in> set (m # ms)" for a b
    by (rule slots_ordinary[OF o ok]) (use that in \<open>simp_all only: slots\<close>)
  have mem: "earliest \<in> set (m # ms)" unfolding e by (rule earliest_in)
  have least: "mo_utc earliest \<le> mo_utc (sl_next x)" if "x \<in> set (cn_slots s)" for x
  proof -
    have all: "\<forall>a \<in> set (m # ms). \<forall>b \<in> set (m # ms). not_later a b \<longleftrightarrow> mo_utc a \<le> mo_utc b" using cmp by blast
    have "sl_next x \<in> set (m # ms)" unfolding slots using that by (rule imageI)
    then show ?thesis unfolding e by (rule earliest_least[OF all])
  qed
  have now: "mo_utc earliest \<le> cw_now W w"
  proof (cases "mo_utc earliest - cw_now W (cn_world s) > 0")
    case True
    have "cw_now W (cn_world s) + (mo_utc earliest - cw_now W (cn_world s)) \<le> cw_now W (cw_wait W (mo_utc earliest - cw_now W (cn_world s)) (cn_world s))"
      using c unfolding cron_contract_def by blast
    then show ?thesis using True unfolding w by simp
  next
    case False
    then show ?thesis unfolding w by simp
  qed
  have at: "mo_utc (fi_tick f) = mo_utc earliest" if f: "f \<in> set l" for f
  proof -
    obtain x where x: "x \<in> set (cn_slots s)" "fi_tick f = sl_next x" "not_later (fi_tick f) earliest" using fire_due_spec(3)[OF fd f] by blast
    have "fi_tick f \<in> set (m # ms)" using x(1,2) by (simp only: slots imageI)
    then have "mo_utc (fi_tick f) \<le> mo_utc earliest" using cmp[OF _ mem] x(3) by blast
    then show ?thesis using least[OF x(1)] x(2) by simp
  qed
  have later: "mo_utc earliest < mo_utc (sl_next x)" if x: "x \<in> set ss" for x
  proof -
    obtain i where i: "i < length (cn_slots s)" "x = ss ! i" using x fire_due_spec(1)[OF fd] by (metis in_set_conv_nth)
    then have here: "cn_slots s ! i \<in> set (cn_slots s)" by simp
    obtain k where "(sl_next (cn_slots s ! i), sl_cron (cn_slots s ! i)) = schedule nx (snd (cs ! i)) k"
      using ok i(1) unfolding cron_fired_def slot_ok_def by metis
    then have "mo_utc (sl_next (cn_slots s ! i)) < mo_utc (fst (nx (sl_cron (cn_slots s ! i))))" by (rule schedule_forward[OF c])
    moreover have "not_later (sl_next (cn_slots s ! i)) earliest \<longleftrightarrow> mo_utc (sl_next (cn_slots s ! i)) \<le> mo_utc earliest"
      by (rule cmp[OF _ mem]) (use here in \<open>simp only: slots imageI\<close>)
    ultimately show ?thesis using fire_due_spec(2)[OF fd i(1)] least[OF here] i(2) by (auto split: if_splits dest: arg_cong[of _ _ fst])
  qed
  have past: "mo_utc (fi_tick f) \<le> mo_utc earliest" if "f \<in> set (cn_log s)" for f
  proof -
    obtain x where "x \<in> set (cn_slots s)" "earliest = sl_next x" using mem unfolding slots by blast
    then have "mo_utc (fi_tick f) < mo_utc earliest" using that io unfolding cron_in_order_def by blast
    then show ?thesis by simp
  qed
  have "sorted (map (\<lambda>f. mo_utc (fi_tick f)) (cn_log s @ l))"
    using io past at sorted_const[of "map (\<lambda>f. mo_utc (fi_tick f)) l" "mo_utc earliest"] by (auto simp: cron_in_order_def sorted_append)
  moreover have "mo_utc (fi_tick f) \<le> fi_at f" if "f \<in> set l" for f using fire_due_at[OF c fd that] at[OF that] now by simp
  moreover have "mo_utc (fi_tick f) < mo_utc (sl_next x)" if "f \<in> set (cn_log s @ l)" "x \<in> set ss" for f x
    using that past at later by fastforce
  ultimately show ?thesis using io unfolding t cron_in_order_def by auto
qed

lemma cron_start_fired: "cron_fired nx cs 0 (cron_start nx cs w)" "cron_in_order (cron_start nx cs w)"
  by (auto simp: cron_fired_def cron_in_order_def cron_start_def slot_ok_def fired_by_def split: prod.split)

lemma cron_run_fired:
  assumes "cron_fired nx cs m s"
  shows "cron_fired nx cs (m + n) (cron_run n nx shown W s) \<and> (cs = [] \<or> length (cn_log s) + n \<le> length (cn_log (cron_run n nx shown W s)))
    \<and> (cron_contract nx W \<and> ordinary_ticks nx cs (m + n) \<and> cron_in_order s \<longrightarrow> cron_in_order (cron_run n nx shown W s))"
proof (cases "cs = []")
  case True
  then have "cron_turn nx shown W s = s" using assms by (simp add: cron_fired_def cron_turn_def)
  then have "cron_run n nx shown W s = s" by (induction n) simp_all
  then show ?thesis using assms True by (simp add: cron_fired_def)
next
  case False
  show ?thesis using assms
  proof (induction n arbitrary: s m)
    case (Suc n)
    have o: "ordinary_ticks nx cs m" if "ordinary_ticks nx cs (m + Suc n)" using that unfolding ordinary_ticks_def by fastforce
    show ?case
      using Suc.IH[of "Suc m" "cron_turn nx shown W s"] cron_turn_fired[OF Suc.prems False, of shown W] cron_turn_in_order[OF _ o Suc.prems _ False, of W shown]
      by (auto simp: False)
  qed simp
qed

text \<open>
  C33. Every tick, once and in order. After \<open>n\<close> turns every channel with a cron block has fired exactly the first ticks of its
  schedule, at most \<open>n\<close>, each once and in the order of the schedule, and waits for the tick after them; and at least \<open>n\<close> ticks
  have been fired when some channel has a cron block. This needs nothing of the clock or of the zones. When moreover the schedules and the
  clock move forward, a wait lasts as long as it was asked to, and no two of the ticks so far are turned around on the wall by an hour
  that their zone repeats, the ticks of all channels were fired in the order they happen, none before its time, and
  every tick that is due before one that was fired has been fired.
\<close>

theorem cron_ticks_once:
  "cron_fired nx (croniters mk W w chs) n (cron_run n nx shown W (cron_start nx (croniters mk W w chs) w'))
    \<and> (croniters mk W w chs = [] \<or> n \<le> length (cn_log (cron_run n nx shown W (cron_start nx (croniters mk W w chs) w'))))
    \<and> (cron_contract nx W \<and> ordinary_ticks nx (croniters mk W w chs) n
       \<longrightarrow> cron_in_order (cron_run n nx shown W (cron_start nx (croniters mk W w chs) w')))"
  using cron_run_fired[OF cron_start_fired(1)[of nx "croniters mk W w chs" w'], of n shown W] cron_start_fired(2)[of nx "croniters mk W w chs" w']
  by (simp add: cron_start_def)

text \<open>Channels that tick every so many minutes in a zone one hour ahead, on a clock that only moves while the scheduler waits.\<close>

definition example_clock :: "int cron_world" where
  "example_clock = \<lparr>cw_now = (\<lambda>t. t), cw_wait = (\<lambda>d t. t + d), cw_fire = (\<lambda>_ t. (True, t))\<rparr>"

definition every :: "(int \<Rightarrow> int) \<Rightarrow> int \<times> nat \<Rightarrow> moment \<times> (int \<times> nat)" where
  "every wall c = (let t = fst c + int (Suc (snd c)) in (\<lparr>mo_zone = ''zone'', mo_wall = wall t, mo_utc = t\<rparr>, (t, snd c)))"

definition cron_channel :: "string \<Rightarrow> channel_config" where
  "cron_channel nm = queue_channel\<lparr>ch_name := nm, ch_type := CtCron, ch_queue := None, ch_cron := Some \<lparr>cr_schedule = nm, cr_timezone = ''UTC''\<rparr>\<rparr>"

definition cron_example :: "(int, int \<times> nat) cron_state" where
  "cron_example = cron_run 3 (every (\<lambda>t. t + 60)) (\<lambda>_. ''t'') example_clock
     (cron_start (every (\<lambda>t. t + 60)) (croniters (\<lambda>b now. (now, length (cr_schedule b))) example_clock 0 [cron_channel ''a'', queue_channel, cron_channel ''bb'']) 0)"

lemma example_cron_contract: "cron_contract (every wall) example_clock"
  by (simp add: cron_contract_def every_def example_clock_def Let_def)

lemma every_wall: "mo_wall (tick (every wall) c k) = wall (mo_utc (tick (every wall) c k))"
  by (cases k) (simp_all add: tick_def every_def Let_def)

lemma example_ordinary: "ordinary_ticks (every (\<lambda>t. t + 60)) cs n"
  by (simp add: ordinary_ticks_def every_wall)

theorem cron_ticks_once_witness:
  "map (\<lambda>f. (fi_slot f, mo_wall (fi_tick f), mo_utc (fi_tick f), fi_at f)) (cn_log cron_example) = [(0, 62, 2, 2), (1, 63, 3, 3), (0, 64, 4, 4)]
   \<and> cron_in_order cron_example"
proof -
  have "map (\<lambda>f. (fi_slot f, mo_wall (fi_tick f), mo_utc (fi_tick f), fi_at f)) (cn_log cron_example) = [(0, 62, 2, 2), (1, 63, 3, 3), (0, 64, 4, 4)]" by code_simp
  then show ?thesis
    using cron_ticks_once[where n = 3 and nx = "every (\<lambda>t. t + 60)" and W = example_clock and w = 0 and w' = 0 and shown = "\<lambda>_. ''t''"
        and mk = "\<lambda>b now. (now, length (cr_schedule b))" and chs = "[cron_channel ''a'', queue_channel, cron_channel ''bb'']"]
      example_cron_contract example_ordinary unfolding cron_example_def by blast
qed

text \<open>Where a zone sets its clocks back by an hour, at minute 60, the order is lost: a channel every 45 minutes and one every 50. The
  tick at minute 90 shows an earlier time on the wall than the one at minute 50, so it is the one the
  scheduler waits for, and the tick of minute 50 is fired after it, at minute 90.\<close>

definition fall_back :: "int \<Rightarrow> int" where
  "fall_back t = (if t < 60 then t + 120 else t + 60)"

lemma repeated_hour_out_of_order:
  "map (\<lambda>f. (fi_slot f, mo_utc (fi_tick f), fi_at f)) (cn_log (cron_run 3 (every fall_back) (\<lambda>_. ''t'') example_clock
       (cron_start (every fall_back) [(cron_channel ''a'', (0, 44)), (cron_channel ''b'', (0, 49))] 0)))
     = [(0, 45, 45), (0, 90, 90), (1, 50, 90)]"
  by code_simp

end
